(* ===== verification/Prelude.thy ===== *)
theory Prelude
  imports Main "HOL-Library.Word" "HOL-Library.Multiset" "HOL-Library.AList"
begin

text \<open>
  Shared vocabulary of the development: Rust's machine integers as words, byte slices as
  lists, big-endian and native-endian field codecs, slice reads and in-place slice writes,
  checked and saturating arithmetic on \<open>usize\<close>, and the rewrite collections the
  component theories use.

  A shared slice \<open>&[u8]\<close> is a \<open>bytes\<close> value. A mutable slice \<open>&mut [u8]\<close> is an
  argument and a component of the result, so that what an operation leaves in the buffer is
  visible on the error paths too. Array types \<open>[u8; N]\<close> are byte lists; that the list has
  \<open>N\<close> elements is what Rust's type checker guarantees and is a hypothesis where it matters.
  \<open>usize\<close> is \<open>nat\<close>, with the 64-bit bound written out in the checked operations.
  Every slice access in the modelled code is guarded by a length test; the component theories
  prove the bounds from these guards.
\<close>

unbundle bit_operations_syntax

section \<open>Machine types\<close>

type_synonym u8 = "8 word"
type_synonym u16 = "16 word"
type_synonym u32 = "32 word"
type_synonym u64 = "64 word"
type_synonym bytes = "8 word list"
type_synonym usize = nat
type_synonym instant = nat
type_synonym duration = nat

text \<open>
  \<open>Instant\<close> and \<open>Duration\<close> are counted in nanoseconds from an arbitrary origin.
\<close>

definition nanos_per_sec :: nat where
  "nanos_per_sec = 1000000000"

definition from_secs :: "nat \<Rightarrow> duration" where
  "from_secs s = s * nanos_per_sec"

definition from_millis :: "nat \<Rightarrow> duration" where
  "from_millis s = s * 1000000"

definition checked_add_usize :: "usize \<Rightarrow> usize \<Rightarrow> usize option" where
  "checked_add_usize a b = (if a + b < 2 ^ 64 then Some (a + b) else None)"

definition saturating_add :: "'a::len word \<Rightarrow> 'a word \<Rightarrow> 'a word" where
  "saturating_add a b = (if unat a + unat b < 2 ^ LENGTH('a) then a + b else - 1)"

definition saturating_sub :: "'a::len word \<Rightarrow> 'a word \<Rightarrow> 'a word" where
  "saturating_sub a b = (if a < b then 0 else a - b)"

named_theorems field_simps_rw \<open>reading a field back after a slice write\<close>

section \<open>Big-endian numbers\<close>

fun be_nat :: "bytes \<Rightarrow> nat" where
  "be_nat [] = 0"
| "be_nat (b # bs) = unat b * 256 ^ length bs + be_nat bs"

fun to_be :: "nat \<Rightarrow> nat \<Rightarrow> bytes" where
  "to_be 0 v = []"
| "to_be (Suc n) v = word_of_nat (v div 256 ^ n) # to_be n v"

definition u16_from_be :: "bytes \<Rightarrow> u16" where
  "u16_from_be bs = word_of_nat (be_nat bs)"

definition u16_to_be :: "u16 \<Rightarrow> bytes" where
  "u16_to_be w = to_be 2 (unat w)"

definition u32_from_be :: "bytes \<Rightarrow> u32" where
  "u32_from_be bs = word_of_nat (be_nat bs)"

definition u32_to_be :: "u32 \<Rightarrow> bytes" where
  "u32_to_be w = to_be 4 (unat w)"

text \<open>
  \<open>from_ne_bytes\<close> and \<open>to_ne_bytes\<close> follow the target's byte order; the flag says whether
  the target is big-endian.
\<close>

definition u16_from_ne :: "bool \<Rightarrow> bytes \<Rightarrow> u16" where
  "u16_from_ne big bs = u16_from_be (if big then bs else rev bs)"

definition u16_to_ne :: "bool \<Rightarrow> u16 \<Rightarrow> bytes" where
  "u16_to_ne big w = (if big then u16_to_be w else rev (u16_to_be w))"

section \<open>Slices\<close>

definition subslice :: "nat \<Rightarrow> nat \<Rightarrow> 'a list \<Rightarrow> 'a list" where
  "subslice a b xs = take (b - a) (drop a xs)"

definition copy_at :: "nat \<Rightarrow> 'a list \<Rightarrow> 'a list \<Rightarrow> 'a list" where
  "copy_at i src out = take i out @ src @ drop (i + length src) out"

text \<open>
  \<open>be16_at bs i\<close> is the source's \<open>u16::from_be_bytes([bs[i], bs[i + 1]])\<close>, and
  \<open>fill out a b v\<close> is \<open>out[a..b].fill(v)\<close>.
\<close>

definition be16_at :: "bytes \<Rightarrow> nat \<Rightarrow> u16" where
  "be16_at bs i = u16_from_be [bs ! i, bs ! (i + 1)]"

definition fill :: "'a list \<Rightarrow> nat \<Rightarrow> nat \<Rightarrow> 'a \<Rightarrow> 'a list" where
  "fill out a b v = copy_at a (replicate (b - a) v) out"

text \<open>
  Running an operation on the sub-slice \<open>&mut out[a..b]\<close> changes that part of \<open>out\<close> only.
\<close>

definition on_slice :: "nat \<Rightarrow> nat \<Rightarrow> ('a list \<Rightarrow> 'r \<times> 'a list) \<Rightarrow> 'a list \<Rightarrow> 'r \<times> 'a list" where
  "on_slice a b f out =
     (let (r, part) = f (subslice a b out) in (r, take a out @ part @ drop b out))"

section \<open>Socket addresses\<close>

text \<open>
  \<open>std::net::SocketAddr\<close>: the octets of the address and the port, and for IPv6 the flow label and
  the scope identifier, all of which take part in equality.
\<close>

datatype socket_addr = AddrV4 (ip_octets: bytes) (addr_port: u16)
  | AddrV6 (ip_octets: bytes) (addr_port: u16) (flowinfo: u32) (scope_id: u32)

fun is_ipv4 :: "socket_addr \<Rightarrow> bool" where
  "is_ipv4 (AddrV4 ip port) = True"
| "is_ipv4 (AddrV6 ip port fl sc) = False"

definition wf_addr :: "socket_addr \<Rightarrow> bool" where
  "wf_addr a \<longleftrightarrow> length (ip_octets a) = (if is_ipv4 a then 4 else 16)"

section \<open>Stacks\<close>

lemma set_butlast_distinct:
  assumes "xs \<noteq> []" "distinct xs"
  shows "set (butlast xs) = set xs - {last xs}"
proof -
  have "distinct (butlast xs @ [last xs])"
    using assms by simp
  moreover have "set xs = set (butlast xs @ [last xs])"
    using assms by simp
  ultimately show ?thesis
    by auto
qed

section \<open>Saturating arithmetic\<close>

lemma unat_saturating_add:
  "unat (saturating_add (a :: 'a::len word) b) = min (unat a + unat b) (2 ^ LENGTH('a) - 1)"
proof (cases "unat a + unat b < 2 ^ LENGTH('a)")
  case True
  then show ?thesis
    by (simp add: saturating_add_def unat_word_ariths min_def) linarith
next
  case False
  then have "2 ^ LENGTH('a) - 1 \<le> unat a + unat b"
    by linarith
  then show ?thesis
    using False by (simp add: saturating_add_def unsigned_minus_1_eq_mask mask_eq_exp_minus_1)
qed

lemma unat_saturating_sub: "unat (saturating_sub (a :: 'a::len word) b) = unat a - unat b"
  by (simp add: saturating_sub_def word_less_nat_alt unat_sub word_le_nat_alt)

lemma unat_min_word: "unat (min (a :: 'a::len word) b) = min (unat a) (unat b)"
  by (simp add: min_def word_le_nat_alt)

lemma unat_of_nat_le: "unat (word_of_nat n :: 'a::len word) \<le> n"
  by (simp add: unsigned_of_nat take_bit_eq_mod)

section \<open>Lemmas on big-endian numbers\<close>

lemma unat_u8_less [simp]: "unat (b :: u8) < 256"
  using unsigned_less [where 'a = nat, of b] by simp

lemma unat_u8_le: "unat (b :: u8) \<le> 255"
  using unat_u8_less [of b] by linarith

lemma unat_u16_le: "unat (w :: u16) \<le> 65535"
  using unsigned_less [where 'a = nat, of w] by simp

lemma unat_u16_less [simp]: "unat (w :: u16) < 65536"
  using unsigned_less [where 'a = nat, of w] by simp

lemma unat_u32_less [simp]: "unat (w :: u32) < 4294967296"
  using unsigned_less [where 'a = nat, of w] by simp

lemma unat_ucast_widen [simp]:
  "unat (ucast (a :: u8) :: u16) = unat a"
  "unat (ucast (a :: u8) :: u32) = unat a"
  "unat (ucast (c :: u16) :: u32) = unat c"
  by (auto simp: unsigned_ucast_eq intro!: take_bit_nat_eq_self)
    (auto intro: less_trans [OF unat_u8_less] less_trans [OF unat_u16_less])

lemma be_nat_bound: "be_nat bs < 256 ^ length bs"
proof (induction bs)
  case (Cons b bs)
  have "unat b \<le> 255" using unat_u8_less [of b] by linarith
  then have "unat b * 256 ^ length bs \<le> 255 * 256 ^ length bs" by (rule mult_le_mono1)
  with Cons have "unat b * 256 ^ length bs + be_nat bs < 255 * 256 ^ length bs + 256 ^ length bs"
    by linarith
  then show ?case by simp
qed simp

lemma length_to_be [simp]: "length (to_be n v) = n"
  by (induction n) auto

lemma be_nat_to_be: "be_nat (to_be n v) = v mod 256 ^ n"
proof (induction n)
  case (Suc n)
  have "be_nat (to_be (Suc n) v) = (v div 256 ^ n) mod 256 * 256 ^ n + v mod 256 ^ n"
    by (simp add: Suc unat_of_nat)
  also have "\<dots> = v mod (256 ^ n * 256)"
    by (subst mod_mult2_eq) (simp add: mult.commute)
  finally show ?case by (simp add: mult.commute)
qed simp

lemma length_u16_to_be [simp]: "length (u16_to_be w) = 2"
  by (simp add: u16_to_be_def)

lemma length_u32_to_be [simp]: "length (u32_to_be w) = 4"
  by (simp add: u32_to_be_def)

lemma length_u16_to_ne [simp]: "length (u16_to_ne big w) = 2"
  by (simp add: u16_to_ne_def)

lemma u16_to_be_pair: "u16_to_be w = [word_of_nat (unat w div 256), word_of_nat (unat w)]"
  unfolding u16_to_be_def numeral_2_eq_2 by simp

lemma be_nat_u16_to_be [simp]: "be_nat (u16_to_be w) = unat w"
  by (simp add: u16_to_be_def be_nat_to_be)

lemma be_nat_u32_to_be [simp]: "be_nat (u32_to_be w) = unat w"
  by (simp add: u32_to_be_def be_nat_to_be)

lemma unat_u16_from_be: "length bs = 2 \<Longrightarrow> unat (u16_from_be bs) = be_nat bs"
  using be_nat_bound [of bs] by (simp add: u16_from_be_def unat_of_nat)

lemma unat_u32_from_be: "length bs = 4 \<Longrightarrow> unat (u32_from_be bs) = be_nat bs"
  using be_nat_bound [of bs] by (simp add: u32_from_be_def unat_of_nat)

lemma u16_be_roundtrip [simp]: "u16_from_be (u16_to_be w) = w"
  by (simp add: u16_from_be_def)

lemma u32_be_roundtrip [simp]: "u32_from_be (u32_to_be w) = w"
  by (simp add: u32_from_be_def)

lemma u16_ne_roundtrip [simp]: "u16_from_ne big (u16_to_ne big w) = w"
  by (simp add: u16_from_ne_def u16_to_ne_def)

section \<open>The interface of a fixed-width field codec\<close>

text \<open>
  Every header field is written with \<open>out[i..i + n].copy_from_slice(&v.to_be_bytes())\<close> and read
  with \<open>T::from_be_bytes(bytes[i..i + n])\<close>. What the header round trips rely on is that the
  encoding has a fixed width and that decoding inverts it; the read-after-write laws follow.
\<close>

lemma length_slice [simp]: "length (subslice a b xs) = min (b - a) (length xs - a)"
  by (simp add: subslice_def)

lemma length_copy_at [simp]:
  "i + length src \<le> length out \<Longrightarrow> length (copy_at i src out) = length out"
  by (simp add: copy_at_def)

lemma slice_copy_same [field_simps_rw]:
  "b = i + length src \<Longrightarrow> b \<le> length out \<Longrightarrow> subslice i b (copy_at i src out) = src"
  by (simp add: subslice_def copy_at_def)

lemma slice_copy_before [field_simps_rw]:
  "b \<le> i \<Longrightarrow> i \<le> length out \<Longrightarrow> subslice a b (copy_at i src out) = subslice a b out"
  by (cases "a \<le> b") (auto simp: subslice_def copy_at_def drop_take min_def)

lemma slice_copy_after [field_simps_rw]:
  "i + length src \<le> a \<Longrightarrow> i + length src \<le> length out \<Longrightarrow>
     subslice a b (copy_at i src out) = subslice a b out"
  by (simp add: subslice_def copy_at_def)

lemma nth_copy_before [field_simps_rw]:
  "j < i \<Longrightarrow> i \<le> length out \<Longrightarrow> copy_at i src out ! j = out ! j"
  by (simp add: copy_at_def nth_append)

lemma nth_copy_after [field_simps_rw]:
  "i + length src \<le> j \<Longrightarrow> i + length src \<le> length out \<Longrightarrow> copy_at i src out ! j = out ! j"
  by (auto simp: copy_at_def nth_append min_absorb2)

lemma nth_copy_same [field_simps_rw]:
  "i \<le> j \<Longrightarrow> j < i + length src \<Longrightarrow> i \<le> length out \<Longrightarrow> copy_at i src out ! j = src ! (j - i)"
  by (auto simp: copy_at_def nth_append min_def)

lemma slice_slice [field_simps_rw]:
  "subslice a b (subslice c d xs) = subslice (c + a) (min (c + b) d) xs"
  by (auto simp: subslice_def drop_take min_def add.commute)

lemma slice_copy_inner:
  "i + length part \<le> length out \<Longrightarrow> b \<le> length part \<Longrightarrow>
     subslice (i + a) (i + b) (copy_at i part out) = subslice a b part"
  using slice_slice [of a b i "i + length part" "copy_at i part out"]
    slice_copy_same [of "i + length part" i part out]
  by (simp add: min_def)

lemma slice_0_take: "subslice 0 n xs = take n xs"
  by (simp add: subslice_def)

lemma nth_slice [field_simps_rw]:
  "i < b - a \<Longrightarrow> a + i < length xs \<Longrightarrow> subslice a b xs ! i = xs ! (a + i)"
  by (simp add: subslice_def)

lemma slice_pair:
  "i + 1 < length xs \<Longrightarrow> subslice i (i + 2) xs = [xs ! i, xs ! (i + 1)]"
  by (simp add: subslice_def numeral_2_eq_2 take_Suc_conv_app_nth hd_drop_conv_nth Cons_nth_drop_Suc [symmetric])

lemma split_slice:
  "a \<le> b \<Longrightarrow> b \<le> length xs \<Longrightarrow> xs = take a xs @ subslice a b xs @ drop b xs"
  by (metis append_take_drop_id drop_drop le_add_diff_inverse2 subslice_def)

lemma split_at: "n \<le> length xs \<Longrightarrow> \<exists>ys zs. xs = ys @ zs \<and> length ys = n"
  by (metis append_take_drop_id length_take min_absorb2)

lemma slice_update_outside [field_simps_rw]:
  "j < a \<or> b \<le> j \<Longrightarrow> subslice a b (xs[j := v]) = subslice a b xs"
  by (rule nth_equalityI) (auto simp: subslice_def nth_list_update)

lemma slice_take [field_simps_rw]: "b \<le> n \<Longrightarrow> subslice a b (take n xs) = subslice a b xs"
  by (auto simp: subslice_def drop_take min_def)

lemma take_copy_inside [field_simps_rw]:
  "i + length src \<le> n \<Longrightarrow> n \<le> length out \<Longrightarrow>
     take n (copy_at i src out) = copy_at i src (take n out)"
  by (simp add: copy_at_def min_absorb1 min_absorb2 drop_take)

lemma take_copy_outside [field_simps_rw]:
  "n \<le> i \<Longrightarrow> i \<le> length out \<Longrightarrow> take n (copy_at i src out) = take n out"
  by (simp add: copy_at_def min_absorb1)

lemma drop_copy_outside [field_simps_rw]:
  "i + length src \<le> n \<Longrightarrow> i + length src \<le> length out \<Longrightarrow> drop n (copy_at i src out) = drop n out"
  by (simp add: copy_at_def min_absorb2)

lemma update_as_copy: "i < length out \<Longrightarrow> out[i := v] = copy_at i [v] out"
  by (simp add: copy_at_def upd_conv_take_nth_drop)

lemma copy_at_adjacent:
  "j = i + length a \<Longrightarrow> j + length b \<le> length out \<Longrightarrow>
     copy_at j b (copy_at i a out) = copy_at i (a @ b) out"
  by (simp add: copy_at_def ac_simps)

lemma length_fill [simp]: "a \<le> b \<Longrightarrow> b \<le> length out \<Longrightarrow> length (fill out a b v) = length out"
  by (simp add: fill_def)

lemma nth_fill [field_simps_rw]:
  "j < b \<Longrightarrow> a \<le> j \<Longrightarrow> b \<le> length out \<Longrightarrow> fill out a b v ! j = v"
  by (simp add: fill_def nth_copy_same)

lemma slice_fill_outside [field_simps_rw]:
  "b \<le> c \<or> d \<le> a \<Longrightarrow> a \<le> b \<Longrightarrow> b \<le> length out \<Longrightarrow> subslice c d (fill out a b v) = subslice c d out"
  by (auto simp: fill_def slice_copy_before slice_copy_after)

lemma slice_fill_inside [field_simps_rw]:
  "a \<le> c \<Longrightarrow> d \<le> b \<Longrightarrow> b \<le> length out \<Longrightarrow> subslice c d (fill out a b v) = replicate (d - c) v"
  by (rule nth_equalityI) (auto simp: subslice_def nth_fill fill_def copy_at_def nth_append)

lemma drop_fill_outside [field_simps_rw]:
  "b \<le> n \<Longrightarrow> a \<le> b \<Longrightarrow> b \<le> length out \<Longrightarrow> drop n (fill out a b v) = drop n out"
  by (simp add: fill_def drop_copy_outside)

lemma copy_at_nil [simp]: "copy_at i [] out = out"
  by (simp add: copy_at_def)

lemma zero_field:
  "i + 2 \<le> length bs \<Longrightarrow> subslice i (i + 2) (fill bs i (i + 2) 0) = [0, 0]"
  by (simp add: slice_fill_inside numeral_2_eq_2)

lemma copy_over_fill:
  "i + length v = j \<Longrightarrow> j \<le> length bs \<Longrightarrow> copy_at i v (fill bs i j x) = copy_at i v bs"
  by (simp add: copy_at_def fill_def)

lemma be16_at_slice: "i + 2 \<le> length bs \<Longrightarrow> be16_at bs i = u16_from_be (subslice i (i + 2) bs)"
  using slice_pair [of i bs] by (simp add: be16_at_def)

lemma be16_at_take [field_simps_rw]: "i + 1 < n \<Longrightarrow> be16_at (take n bs) i = be16_at bs i"
  by (simp add: be16_at_def)

lemma be16_at_drop [field_simps_rw]: "n + i + 1 < length bs \<Longrightarrow> be16_at (drop n bs) i = be16_at bs (n + i)"
  by (simp add: be16_at_def)

lemma be16_at_copy_same [field_simps_rw]:
  "i + 2 \<le> length out \<Longrightarrow> be16_at (copy_at i (u16_to_be v) out) i = v"
  by (simp add: be16_at_slice slice_copy_same)

lemma be16_at_copy_before [field_simps_rw]:
  "j + 2 \<le> i \<Longrightarrow> i \<le> length out \<Longrightarrow> be16_at (copy_at i src out) j = be16_at out j"
  by (simp add: be16_at_def nth_copy_before)

lemma be16_at_copy_after [field_simps_rw]:
  "i + length src \<le> j \<Longrightarrow> i + length src \<le> length out \<Longrightarrow>
     be16_at (copy_at i src out) j = be16_at out j"
  by (simp add: be16_at_def nth_copy_after)

lemma be16_at_update [field_simps_rw]:
  "k \<noteq> j \<Longrightarrow> k \<noteq> j + 1 \<Longrightarrow> be16_at (bs[k := v]) j = be16_at bs j"
  by (simp add: be16_at_def)

lemma unat_be16_at: "unat (be16_at bs i) = 256 * unat (bs ! i) + unat (bs ! (i + 1))"
  by (simp add: be16_at_def unat_u16_from_be)

lemma slice_full: "length xs \<le> b \<Longrightarrow> subslice 0 b xs = xs"
  by (simp add: subslice_def)

locale field_codec =
  fixes width :: nat
    and enc :: "'v \<Rightarrow> bytes"
    and dec :: "bytes \<Rightarrow> 'v"
  assumes enc_width: "length (enc v) = width"
    and dec_enc: "dec (enc v) = v"
begin

lemma read_after_write:
  "j = i + width \<Longrightarrow> j \<le> length out \<Longrightarrow> dec (subslice i j (copy_at i (enc v) out)) = v"
  by (simp add: slice_copy_same enc_width dec_enc)

lemma enc_inject: "enc v = enc w \<longleftrightarrow> v = w"
  by (metis dec_enc)

lemma write_keeps_length:
  "i + width \<le> length out \<Longrightarrow> length (copy_at i (enc v) out) = length out"
  by (simp add: enc_width)

end

interpretation be16: field_codec 2 u16_to_be u16_from_be
  by unfold_locales simp_all

interpretation be32: field_codec 4 u32_to_be u32_from_be
  by unfold_locales simp_all

interpretation ne16: field_codec 2 "u16_to_ne big" "u16_from_ne big"
  by unfold_locales simp_all

end
