(* ===== verification/Sequence.thy ===== *)
theory Sequence
  imports Prelude
begin

text \<open>
  The wrap-safe sequence-number arithmetic of \<open>crates/tcp-adapter/src/sequence.rs\<close>. A TCP sequence
  number is a \<open>u32\<close> that stands for an unbounded position in the byte stream, taken modulo
  \<open>2 ^ 32\<close>. \<open>seq_at b i\<close> is the sequence number of stream position \<open>i\<close> of a stream whose
  initial sequence number is \<open>b\<close>; the locale \<open>serial_order\<close> states what the TCP state machine relies
  on, that the comparisons decide the order of two positions that are less than \<open>2 ^ 31\<close> apart.
\<close>

section \<open>Operations\<close>

text \<open>The source's cast \<open>as i32\<close> is \<open>sint\<close>, the two's complement reading of the word.\<close>

definition before :: "u32 \<Rightarrow> u32 \<Rightarrow> bool" where
  "before left right \<longleftrightarrow> sint (left - right) < 0"

definition after :: "u32 \<Rightarrow> u32 \<Rightarrow> bool" where
  "after left right \<longleftrightarrow> before right left"

definition before_or_equal :: "u32 \<Rightarrow> u32 \<Rightarrow> bool" where
  "before_or_equal left right \<longleftrightarrow> left = right \<or> before left right"

definition distance :: "u32 \<Rightarrow> u32 \<Rightarrow> u32" where
  "distance start end = end - start"

section \<open>Positions\<close>

definition seq_at :: "u32 \<Rightarrow> nat \<Rightarrow> u32" where
  "seq_at b i = b + word_of_nat i"

lemma seq_at_0 [simp]: "seq_at b 0 = b"
  by (simp add: seq_at_def)

lemma seq_at_add: "seq_at b (i + j) = seq_at b i + word_of_nat j"
  by (simp add: seq_at_def)

lemma seq_at_Suc: "seq_at b (Suc i) = seq_at b i + 1"
  by (simp add: seq_at_def)

lemma sint_neg_iff: "sint (w :: u32) < 0 \<longleftrightarrow> 2 ^ 31 \<le> unat w"
proof -
  have "sint w < 0 \<longleftrightarrow> bit w 31"
    using bit_last_iff [of w] by simp
  also have "\<dots> \<longleftrightarrow> odd (unat w div 2 ^ 31)"
    using bit_unsigned_iff [where 'a = nat, of w 31] by (simp add: bit_nat_def)
  also have "\<dots> \<longleftrightarrow> 2 ^ 31 \<le> unat w"
  proof (cases "unat w < 2 ^ 31")
    case False
    then have "unat w div 2 ^ 31 = 1"
      using unsigned_less [where 'a = nat, of w] by (intro div_nat_eqI) simp_all
    then show ?thesis
      using False by simp
  qed simp
  finally show ?thesis .
qed

lemma unat_seq_diff_ge:
  assumes "j \<le> i" "i - j < 2 ^ 32"
  shows "unat (seq_at b i - seq_at b j) = i - j"
proof -
  have "seq_at b i - seq_at b j = (word_of_nat (i - j) :: u32)"
    using assms by (simp add: seq_at_def of_nat_diff)
  then show ?thesis
    using assms by (simp add: unat_of_nat del: of_nat_diff)
qed

lemma unat_seq_diff_less:
  assumes "i < j" "j - i < 2 ^ 32"
  shows "unat (seq_at b i - seq_at b j) = 2 ^ 32 - (j - i)"
proof -
  have d: "unat (seq_at b j - seq_at b i) = j - i"
    using assms by (intro unat_seq_diff_ge) auto
  have "seq_at b i - seq_at b j = 0 - (seq_at b j - seq_at b i)"
    by simp
  then show ?thesis
    using assms d by (simp only: unat_sub_if') simp
qed

lemma unat_distance:
  assumes "i \<le> j" "j - i < 2 ^ 32"
  shows "unat (distance (seq_at b i) (seq_at b j)) = j - i"
  using unat_seq_diff_ge [OF assms] by (simp add: distance_def)

lemma seq_at_eq_iff:
  assumes "i < j + 2 ^ 32" "j < i + 2 ^ 32"
  shows "seq_at b i = seq_at b j \<longleftrightarrow> i = j"
proof (cases "i \<le> j")
  case True
  then show ?thesis
    using unat_seq_diff_ge [of i j b] assms by (auto simp: less_diff_conv2)
next
  case False
  then show ?thesis
    using unat_seq_diff_ge [of j i b] assms by (auto simp: less_diff_conv2)
qed

lemma seq_at_surj: "\<exists>k < 2 ^ 32. x = seq_at b (i + k)"
proof (intro exI conjI)
  show "x = seq_at b (i + unat (x - seq_at b i))"
    by (simp add: seq_at_add del: of_nat_add)
qed (use unsigned_less [where 'a = nat, of "x - seq_at b i"] in simp)

section \<open>What the flow relies on\<close>

text \<open>
  A serial order decides \<open><\<close> on stream positions whenever these are less than \<open>2 ^ 31\<close> apart.
\<close>

locale serial_order =
  fixes lt :: "u32 \<Rightarrow> u32 \<Rightarrow> bool"
  assumes lt_at: "i < j + 2 ^ 31 \<Longrightarrow> j < i + 2 ^ 31 \<Longrightarrow> lt (seq_at b i) (seq_at b j) \<longleftrightarrow> i < j"
begin

lemma lt_irrefl: "\<not> lt x x"
  using lt_at [of 0 0 x] by simp

lemma lt_trans_window:
  assumes "i < k + 2 ^ 31" "k < i + 2 ^ 31" "j < i + 2 ^ 31" "i < j + 2 ^ 31"
    and "j < k + 2 ^ 31" "k < j + 2 ^ 31"
    and "lt (seq_at b i) (seq_at b j)" "lt (seq_at b j) (seq_at b k)"
  shows "lt (seq_at b i) (seq_at b k)"
  using assms by (simp add: lt_at)

text \<open>
  A number strictly after position \<open>u\<close> and not after position \<open>n\<close> is the number of a position in
  between: this is the acceptance test for acknowledgments. When \<open>u\<close> and \<open>n\<close> coincide there is no
  such position, and the number opposite to \<open>u\<close> has to be excluded (see \<open>before_antipodal\<close>).
\<close>

lemma between_position:
  assumes n: "u \<le> n" "n < u + 2 ^ 31"
    and x: "lt (seq_at b u) x" "x = seq_at b n \<or> lt x (seq_at b n)"
    and idle: "u = n \<Longrightarrow> x \<noteq> seq_at b u + 2 ^ 31"
  shows "\<exists>k. u < k \<and> k \<le> n \<and> x = seq_at b k"
proof -
  from seq_at_surj [of x b u] obtain k where k: "k < 2 ^ 32" "x = seq_at b (u + k)"
    by blast
  show ?thesis
  proof (cases "k < 2 ^ 31")
    case True
    then have "u < u + k" and "u + k \<le> n \<or> u + k = n"
      using x k n lt_at [of u "u + k" b] lt_at [of "u + k" n b]
        seq_at_eq_iff [of "u + k" n b] by auto
    then show ?thesis
      using k by (intro exI [of _ "u + k"]) auto
  next
    case False
    have shift: "seq_at b (v + 2 ^ 32) = seq_at b v" for v
      by (simp add: seq_at_def)
    have eq: "seq_at b (u + k) = x" "seq_at b (u + 2 ^ 32) = seq_at b u"
      using k shift [of u] by simp_all
    have half: "k = 2 ^ 31"
    proof (rule ccontr)
      assume "k \<noteq> 2 ^ 31"
      then have "lt (seq_at b (u + 2 ^ 32)) (seq_at b (u + k)) \<longleftrightarrow> u + 2 ^ 32 < u + k"
        using False k by (intro lt_at) simp_all
      then show False
        using x(1) k(1) by (simp only: eq) simp
    qed
    have "n - u \<noteq> k"
      using n half by simp
    then have "x \<noteq> seq_at b n"
      using k n half seq_at_eq_iff [of "u + k" n b] by auto
    then have "lt x (seq_at b n)"
      using x by simp
    moreover have "u < n"
      using idle k half n by (cases "u = n") (auto simp: seq_at_add)
    ultimately have False
      using k half n lt_at [of "u + k" n b] by simp
    then show ?thesis ..
  qed
qed

end

lemma before_at:
  assumes "i < j + 2 ^ 31" "j < i + 2 ^ 31"
  shows "before (seq_at b i) (seq_at b j) \<longleftrightarrow> i < j"
proof (cases "i < j")
  case True
  then have "unat (seq_at b i - seq_at b j) = 2 ^ 32 - (j - i)"
    using assms by (intro unat_seq_diff_less) auto
  then show ?thesis
    using True assms by (simp add: before_def sint_neg_iff)
next
  case False
  then have "unat (seq_at b i - seq_at b j) = i - j"
    using assms by (intro unat_seq_diff_ge) auto
  then show ?thesis
    using False assms by (simp add: before_def sint_neg_iff)
qed

interpretation seq: serial_order before
  by unfold_locales (rule before_at)

text \<open>
  The wrap-around comparison decides the order of stream positions: for positions closer than
  \<open>2 ^ 31\<close>, \<open>before\<close>, \<open>after\<close> and \<open>before_or_equal\<close> on the sequence numbers agree with \<open><\<close>, \<open>>\<close> and
  \<open>\<le>\<close> on the unbounded positions, and \<open>distance\<close> is their difference, whatever the initial number
  and however often the counter has wrapped.
\<close>

theorem sequence_order:
  assumes "i < j + 2 ^ 31" "j < i + 2 ^ 31"
  shows "(before (seq_at b i) (seq_at b j) \<longleftrightarrow> i < j) \<and>
    (after (seq_at b i) (seq_at b j) \<longleftrightarrow> j < i) \<and>
    (before_or_equal (seq_at b i) (seq_at b j) \<longleftrightarrow> i \<le> j) \<and>
    (i \<le> j \<longrightarrow> unat (distance (seq_at b i) (seq_at b j)) = j - i)"
proof (intro conjI impI)
  show "before_or_equal (seq_at b i) (seq_at b j) \<longleftrightarrow> i \<le> j"
    using assms seq_at_eq_iff [of i j b] before_at [of i j b] by (auto simp: before_or_equal_def)
  show "unat (distance (seq_at b i) (seq_at b j)) = j - i" if "i \<le> j"
    using assms that by (intro unat_distance) auto
qed (use assms before_at in \<open>auto simp: after_def\<close>)

theorem sequence_order_witness:
  "before (seq_at (- 3) 0) (seq_at (- 3) 5) \<and>
   unat (distance (seq_at (- 3) 0) (seq_at (- 3) 5)) = 5 \<and> seq_at (- 3) 5 = 2"
  using sequence_order [of 0 5 "- 3"] by (simp add: seq_at_def)

text \<open>
  At exactly half the number space the comparison is not antisymmetric: each of two antipodal
  numbers is before the other.
\<close>

lemma before_antipodal: "before x (x + 2 ^ 31) \<and> before (x + 2 ^ 31) x"
  by (simp add: before_def sint_neg_iff)

end
