(* ===== verification/Flow.thy ===== *)
theory Flow
  imports Sequence
begin

text \<open>
  The TCP flow state of \<open>crates/tcp-adapter/src/flow.rs\<close>: the construction state machine of a flow,
  and the \<open>Flow\<close> itself, which terminates the namespace's TCP connection and splices it onto an
  upstream socket. The model has one definition per method. Methods on \<open>&mut self\<close> return the
  updated flow, paired with the method's result where it has one. A shift \<open>x << s\<close> by a \<open>u8\<close> takes
  \<open>s\<close> modulo the width of \<open>x\<close>, as a build without overflow checks does; the flows that the data
  plane constructs have shifts of at most 14.
\<close>

section \<open>Construction of a flow\<close>

datatype flow_interface = NamespaceTap | HostSocket | ProxyTunnel

record flow_side =
  interface :: flow_interface
  local_endpoint :: socket_addr
  logical_peer :: socket_addr
  transport_peer :: socket_addr

record flow_sides =
  initiating_side :: flow_side
  target_side :: flow_side

record flow_key =
  key_namespace :: socket_addr
  key_target :: socket_addr

definition namespace_key :: "flow_sides \<Rightarrow> flow_key" where
  "namespace_key s = \<lparr>key_namespace = logical_peer (initiating_side s),
                      key_target = local_endpoint (initiating_side s)\<rparr>"

datatype flow_type = Tcp

datatype construction_state = New | Initiated | Targeted | Typed | Active

record flow_construction =
  cstate :: construction_state
  initiating :: "flow_side option"
  target :: "flow_side option"
  ctype :: "flow_type option"

definition construction_new :: flow_construction where
  "construction_new = \<lparr>cstate = New, initiating = None, target = None, ctype = None\<rparr>"

definition set_initiating ::
  "flow_side \<Rightarrow> flow_construction \<Rightarrow> (construction_state + unit) \<times> flow_construction" where
  "set_initiating side c =
     (if cstate c \<noteq> New then (Inl (cstate c), c)
      else (Inr (), c\<lparr>initiating := Some side, cstate := Initiated\<rparr>))"

definition set_target ::
  "flow_side \<Rightarrow> flow_construction \<Rightarrow> (construction_state + unit) \<times> flow_construction" where
  "set_target side c =
     (if cstate c \<noteq> Initiated then (Inl (cstate c), c)
      else (Inr (), c\<lparr>target := Some side, cstate := Targeted\<rparr>))"

definition set_type ::
  "flow_type \<Rightarrow> flow_construction \<Rightarrow> (construction_state + unit) \<times> flow_construction" where
  "set_type ty c =
     (if cstate c \<noteq> Targeted then (Inl (cstate c), c)
      else (Inr (), c\<lparr>ctype := Some ty, cstate := Typed\<rparr>))"

text \<open>
  \<open>activate\<close> and \<open>active_sides\<close> call \<open>expect\<close> on the two sides. A failing \<open>expect\<close> is the outer
  \<open>None\<close>; \<open>construction_never_panics\<close> shows that it is not reached.
\<close>

definition activate ::
  "flow_construction \<Rightarrow> ((construction_state + flow_sides) \<times> flow_construction) option" where
  "activate c =
     (if cstate c \<noteq> Typed \<or> ctype c \<noteq> Some Tcp then Some (Inl (cstate c), c)
      else case (initiating c, target c) of
        (Some i, Some t) \<Rightarrow>
          Some (Inr \<lparr>initiating_side = i, target_side = t\<rparr>, c\<lparr>cstate := Active\<rparr>)
      | _ \<Rightarrow> None)"

definition active_sides :: "flow_construction \<Rightarrow> flow_sides option option" where
  "active_sides c =
     (if cstate c = Active then
        case (initiating c, target c) of
          (Some i, Some t) \<Rightarrow> Some (Some \<lparr>initiating_side = i, target_side = t\<rparr>)
        | _ \<Rightarrow> None
      else Some None)"

section \<open>The flow\<close>

datatype conn_state = Connecting | SynReceived | Established | NamespaceFinReceived
  | SocketFinReceived | Closing | TimeWait | Closed

datatype receive_disposition = InOrder usize bool | Duplicate | OutOfOrder | OutsideWindow
  | Reset | Invalid

record send_plan =
  plan_sequence :: u32
  plan_acknowledgment :: u32
  plan_length :: usize
  plan_syn :: bool
  plan_fin :: bool

record flow =
  state :: conn_state
  namespace_initial :: u32
  namespace_next :: u32
  namespace_acked :: u32
  local_initial :: u32
  local_unacked :: u32
  local_next :: u32
  peer_window :: u32
  peer_window_shift :: u8
  receive_edge :: u32
  local_window_shift :: u8
  mss :: u16
  upstream_ack_baseline :: u64
  upstream_submitted :: u64
  upstream_acked :: u64
  namespace_fin :: bool
  socket_fin :: bool
  local_fin_sequence :: "u32 option"

definition shl :: "u32 \<Rightarrow> u8 \<Rightarrow> u32" where
  "shl x s = push_bit (unat s mod 32) x"

definition shr :: "u32 \<Rightarrow> u8 \<Rightarrow> u32" where
  "shr x s = drop_bit (unat s mod 32) x"

definition flow_new :: "u32 \<Rightarrow> u32 \<Rightarrow> u16 \<Rightarrow> u8 \<Rightarrow> u8 \<Rightarrow> flow" where
  "flow_new ns_initial loc_initial m peer_shift local_shift =
     \<lparr>state = Connecting, namespace_initial = ns_initial, namespace_next = ns_initial + 1,
      namespace_acked = ns_initial + 1, local_initial = loc_initial, local_unacked = loc_initial,
      local_next = loc_initial, peer_window = 65535, peer_window_shift = peer_shift,
      receive_edge = ns_initial + 1 + 65535, local_window_shift = local_shift, mss = m,
      upstream_ack_baseline = 0, upstream_submitted = 0, upstream_acked = 0,
      namespace_fin = False, socket_fin = False, local_fin_sequence = None\<rparr>"

definition advertised_window :: "flow \<Rightarrow> u32" where
  "advertised_window f =
     (if after (receive_edge f) (namespace_next f) then distance (namespace_next f) (receive_edge f)
      else 0)"

definition max_advertised_window :: "flow \<Rightarrow> u32" where
  "max_advertised_window f = shl 65535 (local_window_shift f)"

definition window_field :: "bool \<Rightarrow> flow \<Rightarrow> u16" where
  "window_field syn f =
     (let from_ack = (if after (receive_edge f) (namespace_acked f)
                      then distance (namespace_acked f) (receive_edge f) else 0);
          scaled = (if syn then from_ack else shr from_ack (local_window_shift f))
      in if unat scaled < 65536 then ucast scaled else 65535)"

definition set_advertised_window :: "u32 \<Rightarrow> flow \<Rightarrow> bool \<times> flow" where
  "set_advertised_window budget f =
     (let budget = min budget (max_advertised_window f);
          candidate = namespace_next f + budget
      in if \<not> after candidate (receive_edge f) then (False, f)
         else let previous_field = window_field False f;
                  f' = f\<lparr>receive_edge := candidate\<rparr>
              in (window_field False f' \<noteq> previous_field, f'))"

definition unacked_to_namespace :: "flow \<Rightarrow> u32" where
  "unacked_to_namespace f = distance (local_unacked f) (local_next f)"

definition available_namespace_window :: "flow \<Rightarrow> usize" where
  "available_namespace_window f = unat (peer_window f) - unat (unacked_to_namespace f)"

definition socket_connected :: "u64 \<Rightarrow> flow \<Rightarrow> send_plan \<times> flow" where
  "socket_connected bytes_acked f =
     (let f1 = f\<lparr>upstream_ack_baseline := bytes_acked, state := SynReceived\<rparr>;
          plan = \<lparr>plan_sequence = local_initial f1, plan_acknowledgment = namespace_next f1,
                  plan_length = 0, plan_syn = True, plan_fin = False\<rparr>
      in (plan, f1\<lparr>local_next := local_initial f1 + 1\<rparr>))"

definition acknowledge_local :: "u32 \<Rightarrow> flow \<Rightarrow> flow" where
  "acknowledge_local ack f =
     (let f1 = (if after ack (local_unacked f) \<and> before_or_equal ack (local_next f)
                then f\<lparr>local_unacked := ack\<rparr> else f)
      in case local_fin_sequence f1 of
           Some fin_sequence \<Rightarrow>
             if after ack fin_sequence \<and> namespace_fin f1 then f1\<lparr>state := TimeWait\<rparr> else f1
         | None \<Rightarrow> f1)"

text \<open>
  \<open>receive\<close> in the order of the source: the reset, the window and acknowledgment update, the
  sequence and window tests, and the advance over payload and FIN.
\<close>

definition receive_ack :: "u32 option \<Rightarrow> u16 \<Rightarrow> flow \<Rightarrow> flow" where
  "receive_ack acknowledgment window f =
     (let f1 = f\<lparr>peer_window := shl (ucast window) (peer_window_shift f)\<rparr>
      in case acknowledgment of
           None \<Rightarrow> f1
         | Some ack \<Rightarrow>
             let f2 = acknowledge_local ack f1
             in if state f2 = SynReceived \<and> ack = local_initial f2 + 1
                then f2\<lparr>state := Established\<rparr> else f2)"

definition receive_fin :: "flow \<Rightarrow> flow" where
  "receive_fin f =
     (let f1 = f\<lparr>namespace_next := namespace_next f + 1, namespace_fin := True\<rparr>;
          f2 = (if upstream_acked f1 = upstream_submitted f1
                then f1\<lparr>namespace_acked := namespace_next f1\<rparr> else f1)
      in f2\<lparr>state := (if socket_fin f2 \<and> local_unacked f2 = local_next f2 then TimeWait
                      else if socket_fin f2 then Closing else NamespaceFinReceived)\<rparr>)"

definition receive_segment :: "u32 \<Rightarrow> usize \<Rightarrow> bool \<Rightarrow> flow \<Rightarrow> receive_disposition \<times> flow" where
  "receive_segment sequence_number payload_len fin f =
     (if sequence_number \<noteq> namespace_next f then
        (if before sequence_number (namespace_next f) then Duplicate else OutOfOrder, f)
      else if payload_len > unat (advertised_window f) then (OutsideWindow, f)
      else if payload_len = 0 \<and> \<not> fin then (InOrder 0 False, f)
      else if payload_len \<ge> 2 ^ 32 then (Invalid, f)
      else let f1 = f\<lparr>namespace_next := namespace_next f + word_of_nat payload_len\<rparr>;
               f2 = (if fin then receive_fin f1 else f1)
           in (InOrder payload_len fin, f2))"

definition receive ::
  "u32 \<Rightarrow> u32 option \<Rightarrow> u16 \<Rightarrow> usize \<Rightarrow> bool \<Rightarrow> bool \<Rightarrow> flow \<Rightarrow> receive_disposition \<times> flow" where
  "receive sequence_number acknowledgment window payload_len fin rst f =
     (if rst then (Reset, f\<lparr>state := Closed\<rparr>)
      else receive_segment sequence_number payload_len fin (receive_ack acknowledgment window f))"

definition record_upstream_submitted :: "usize \<Rightarrow> flow \<Rightarrow> flow" where
  "record_upstream_submitted len f =
     f\<lparr>upstream_submitted := saturating_add (upstream_submitted f) (word_of_nat len)\<rparr>"

definition upstream_unacked :: "flow \<Rightarrow> u64" where
  "upstream_unacked f = saturating_sub (upstream_submitted f) (upstream_acked f)"

definition record_upstream_ack :: "u64 \<Rightarrow> flow \<Rightarrow> bool \<times> flow" where
  "record_upstream_ack bytes_acked f =
     (let acknowledged = min (saturating_sub bytes_acked (upstream_ack_baseline f)) (upstream_submitted f)
      in if acknowledged \<le> upstream_acked f then (False, f)
         else let f1 = f\<lparr>upstream_acked := acknowledged,
                         namespace_acked := namespace_initial f + 1 + ucast acknowledged\<rparr>
              in (True, if namespace_fin f1 \<and> acknowledged = upstream_submitted f1
                        then f1\<lparr>namespace_acked := namespace_acked f1 + 1\<rparr> else f1))"

definition plan_send :: "usize \<Rightarrow> bool \<Rightarrow> flow \<Rightarrow> send_plan option" where
  "plan_send len fin f =
     (if len > available_namespace_window f then None
      else Some \<lparr>plan_sequence = local_next f, plan_acknowledgment = namespace_acked f,
                 plan_length = len, plan_syn = False, plan_fin = fin\<rparr>)"

definition commit_send :: "send_plan \<Rightarrow> flow \<Rightarrow> flow" where
  "commit_send plan f =
     (let f1 = f\<lparr>local_next := local_next f + word_of_nat (plan_length plan)\<rparr>
      in if plan_fin plan then
           f1\<lparr>local_fin_sequence := Some (local_next f1), local_next := local_next f1 + 1,
              socket_fin := True,
              state := (if namespace_fin f1 then Closing else SocketFinReceived)\<rparr>
         else f1)"

definition newly_acked_payload :: "u32 \<Rightarrow> flow \<Rightarrow> usize" where
  "newly_acked_payload previous_ack f =
     (let payload_start = local_initial f + 1;
          payload_end = (case local_fin_sequence f of Some s \<Rightarrow> s | None \<Rightarrow> local_next f);
          start = (if before previous_ack payload_start then payload_start else previous_ack);
          end = (if after (local_unacked f) payload_end then payload_end else local_unacked f)
      in if after end start then unat (distance start end) else 0)"

definition mark_socket_fin :: "flow \<Rightarrow> flow" where
  "mark_socket_fin f = f\<lparr>socket_fin := True\<rparr>"

definition flow_close :: "flow \<Rightarrow> flow" where
  "flow_close f = f\<lparr>state := Closed\<rparr>"

section \<open>The construction machine\<close>

inductive construction_reach :: "flow_construction \<Rightarrow> bool" where
  reach_new: "construction_reach construction_new"
| reach_initiating: "construction_reach c \<Longrightarrow> construction_reach (snd (set_initiating side c))"
| reach_target: "construction_reach c \<Longrightarrow> construction_reach (snd (set_target side c))"
| reach_type: "construction_reach c \<Longrightarrow> construction_reach (snd (set_type ty c))"
| reach_activate: "construction_reach c \<Longrightarrow> activate c = Some (r, c') \<Longrightarrow> construction_reach c'"

text \<open>Each state fixes which parts of the construction are present.\<close>

fun construction_ok :: "flow_construction \<Rightarrow> bool" where
  "construction_ok c = (case cstate c of
     New \<Rightarrow> initiating c = None \<and> target c = None \<and> ctype c = None
   | Initiated \<Rightarrow> initiating c \<noteq> None \<and> target c = None \<and> ctype c = None
   | Targeted \<Rightarrow> initiating c \<noteq> None \<and> target c \<noteq> None \<and> ctype c = None
   | Typed \<Rightarrow> initiating c \<noteq> None \<and> target c \<noteq> None \<and> ctype c = Some Tcp
   | Active \<Rightarrow> initiating c \<noteq> None \<and> target c \<noteq> None \<and> ctype c = Some Tcp)"

lemma flow_type_all [simp]: "ty = Tcp"
  by (cases ty) simp

lemmas construction_defs = construction_new_def set_initiating_def set_target_def set_type_def
  activate_def active_sides_def

lemma construction_reach_ok: "construction_reach c \<Longrightarrow> construction_ok c"
  by (induction rule: construction_reach.induct)
    (auto simp: construction_defs split: construction_state.splits if_splits option.splits)

text \<open>
  A flow construction that went through any sequence of its operations never panics in
  \<open>activate\<close> or \<open>active_sides\<close>, and it yields sides exactly in the \<open>Active\<close> state, with both sides set.
\<close>

theorem construction_never_panics:
  assumes "construction_reach c"
  shows "activate c \<noteq> None \<and> active_sides c \<noteq> None \<and>
    (cstate c = Active \<longleftrightarrow> (\<exists>s. active_sides c = Some (Some s) \<and>
       initiating c = Some (initiating_side s) \<and> target c = Some (target_side s)))"
  using construction_reach_ok [OF assms]
  by (auto simp: construction_defs split: construction_state.splits option.splits)

theorem construction_never_panics_witness:
  "activate construction_new \<noteq> None \<and> active_sides construction_new \<noteq> None"
  using construction_never_panics [OF reach_new] by simp

end
