(* ===== verification/Proxy_Handshake.thy ===== *)
theory Proxy_Handshake
  imports Prelude
begin

text \<open>
  The proxy handshake of \<open>crates/proxy-proto/src/lib.rs\<close>: SOCKS5 (greeting, optional
  username/password authentication, command) and HTTP CONNECT, as a state machine that the reactor
  drives by writing \<open>output\<close> and by offering the bytes that have arrived to \<open>receive\<close>. A fallible
  method returns the error or the value, and the handshake it leaves behind, on both paths.

  The Base64 encoder is a crate outside the repository and is the parameter \<open>base64\<close> of the
  definitions that use it; what is relied on is that its output stays in the standard alphabet.
  What the source uses of the standard library is defined here: window search, UTF-8 validation,
  splitting at ASCII whitespace, parsing of \<open>u16\<close> and the textual form of socket addresses.
\<close>

section \<open>Standard library\<close>

fun window_position :: "'a list \<Rightarrow> 'a list \<Rightarrow> nat option" where
  "window_position pat [] = None"
| "window_position pat (x # xs) =
     (if take (length pat) (x # xs) = pat then Some 0 else map_option Suc (window_position pat xs))"

definition ascii :: "string \<Rightarrow> bytes" where
  "ascii s = map of_char s"

definition utf8_tail :: "u8 \<Rightarrow> bool" where
  "utf8_tail b \<longleftrightarrow> 0x80 \<le> b \<and> b \<le> 0xBF"

fun utf8_valid :: "bytes \<Rightarrow> bool" where
  "utf8_valid [] = True"
| "utf8_valid (a # bs) =
     (if a \<le> 0x7F then utf8_valid bs
      else if 0xC2 \<le> a \<and> a \<le> 0xDF then
        (case bs of b # r \<Rightarrow> utf8_tail b \<and> utf8_valid r | _ \<Rightarrow> False)
      else if 0xE0 \<le> a \<and> a \<le> 0xEF then
        (case bs of b # c # r \<Rightarrow>
           (if a = 0xE0 then 0xA0 \<le> b \<and> b \<le> 0xBF
            else if a = 0xED then 0x80 \<le> b \<and> b \<le> 0x9F else utf8_tail b) \<and>
           utf8_tail c \<and> utf8_valid r
         | _ \<Rightarrow> False)
      else if 0xF0 \<le> a \<and> a \<le> 0xF4 then
        (case bs of b # c # d # r \<Rightarrow>
           (if a = 0xF0 then 0x90 \<le> b \<and> b \<le> 0xBF
            else if a = 0xF4 then 0x80 \<le> b \<and> b \<le> 0x8F else utf8_tail b) \<and>
           utf8_tail c \<and> utf8_tail d \<and> utf8_valid r
         | _ \<Rightarrow> False)
      else False)"

definition is_ascii_whitespace :: "u8 \<Rightarrow> bool" where
  "is_ascii_whitespace b \<longleftrightarrow> b \<in> {0x20, 0x09, 0x0A, 0x0C, 0x0D}"

definition next_field :: "bytes \<Rightarrow> (bytes \<times> bytes) option" where
  "next_field s =
     (let s = dropWhile is_ascii_whitespace s
      in if s = [] then None
         else Some (takeWhile (\<lambda>b. \<not> is_ascii_whitespace b) s, dropWhile (\<lambda>b. \<not> is_ascii_whitespace b) s))"

definition parse_u16 :: "bytes \<Rightarrow> u16 option" where
  "parse_u16 s =
     (let digits = (case s of [] \<Rightarrow> [] | b # r \<Rightarrow> if b = 0x2B then r else s);
          v = foldl (\<lambda>acc d. 10 * acc + (unat d - 48)) 0 digits
      in if digits = [] \<or> (\<exists>d \<in> set digits. d < 48 \<or> 57 < d) \<or> 65535 < v then None
         else Some (word_of_nat v))"

definition hex_digit :: "nat \<Rightarrow> u8" where
  "hex_digit d = word_of_nat (if d < 10 then 48 + d else 87 + d)"

fun show_dec :: "nat \<Rightarrow> bytes" where
  "show_dec n = (if n < 10 then [hex_digit n] else show_dec (n div 10) @ [hex_digit (n mod 10)])"

fun show_hex :: "nat \<Rightarrow> bytes" where
  "show_hex n = (if n < 16 then [hex_digit n] else show_hex (n div 16) @ [hex_digit (n mod 16)])"

declare show_dec.simps [simp del] show_hex.simps [simp del]

fun join :: "bytes \<Rightarrow> bytes list \<Rightarrow> bytes" where
  "join sep [] = []"
| "join sep [x] = x"
| "join sep (x # y # r) = x @ sep @ join sep (y # r)"

definition show_ipv4 :: "bytes \<Rightarrow> bytes" where
  "show_ipv4 octets = join (ascii ''.'') (map (\<lambda>b. show_dec (unat b)) octets)"

fun segments :: "bytes \<Rightarrow> nat list" where
  "segments (a # b # r) = (256 * unat a + unat b) # segments r"
| "segments _ = []"

fun zero_run :: "nat list \<Rightarrow> nat \<Rightarrow> nat \<times> nat \<Rightarrow> nat \<times> nat \<Rightarrow> nat \<times> nat" where
  "zero_run [] i current longest = longest"
| "zero_run (s # rest) i (start, len) longest =
     (if s = 0
      then let current = (if len = 0 then (i, 1) else (start, len + 1))
           in zero_run rest (i + 1) current (if snd current > snd longest then current else longest)
      else zero_run rest (i + 1) (0, 0) longest)"

definition show_ipv6 :: "bytes \<Rightarrow> bytes" where
  "show_ipv6 octets =
     (if take 12 octets = replicate 10 0 @ [0xFF, 0xFF] then ascii ''::ffff:'' @ show_ipv4 (drop 12 octets)
      else let segs = segments octets;
               (start, len) = zero_run segs 0 (0, 0) (0, 0);
               show = \<lambda>ss. join (ascii '':'') (map show_hex ss)
           in if len > 1 then show (take start segs) @ ascii ''::'' @ show (drop (start + len) segs)
              else show segs)"

section \<open>Data\<close>

definition MAX_CREDENTIAL_COMPONENT :: usize where "MAX_CREDENTIAL_COMPONENT = 255"
definition MAX_HTTP_HEADER :: usize where "MAX_HTTP_HEADER = 8 * 1024"

record credentials =
  username :: bytes
  password :: bytes

datatype protocol = Socks5 | HttpConnect

datatype command = Connect | UdpAssociate

fun socks_code :: "command \<Rightarrow> u8" where
  "socks_code Connect = 1"
| "socks_code UdpAssociate = 3"

datatype socks_address = Socket socket_addr | Domain bytes u16

datatype proxy_error = InvalidCredentials | InvalidState | InvalidResponse string
  | UnsupportedCommand | UnsupportedSocksMethod u8 | SocksAuthenticationRequired
  | SocksAuthenticationFailed | SocksCommandFailed u8 | HttpHeaderTooLarge | HttpConnectFailed u16

datatype handshake_state = SocksGreetingWrite | SocksMethodRead | SocksAuthWrite | SocksAuthRead
  | SocksCommandWrite | SocksCommandRead | HttpWrite | HttpRead | Complete

record handshake =
  hs_state :: handshake_state
  hs_command :: command
  hs_target :: socket_addr
  hs_credentials :: "credentials option"
  hs_output :: bytes
  output_offset :: usize
  bound_address :: "socks_address option"

definition credentials_new :: "bytes \<Rightarrow> bytes \<Rightarrow> proxy_error + credentials" where
  "credentials_new u p =
     (if u = [] \<or> p = [] \<or> length u > MAX_CREDENTIAL_COMPONENT \<or> length p > MAX_CREDENTIAL_COMPONENT
      then Inl InvalidCredentials
      else Inr \<lparr>username = u, password = p\<rparr>)"

section \<open>Messages\<close>

definition socks_greeting :: "bool \<Rightarrow> bytes" where
  "socks_greeting has_credentials = (if has_credentials then [5, 2, 0, 2] else [5, 1, 0])"

definition socks_auth_request :: "credentials \<Rightarrow> bytes" where
  "socks_auth_request c =
     [1, word_of_nat (length (username c))] @ username c @
     [word_of_nat (length (password c))] @ password c"

definition socks_command_request :: "command \<Rightarrow> socket_addr \<Rightarrow> bytes" where
  "socks_command_request c t =
     [5, socks_code c, 0] @
     (case t of AddrV4 ip port \<Rightarrow> 1 # ip | AddrV6 ip port fl sc \<Rightarrow> 4 # ip) @
     u16_to_be (addr_port t)"

definition parse_socks_address :: "bytes \<Rightarrow> proxy_error + socks_address" where
  "parse_socks_address input =
     (if input \<noteq> [] \<and> hd input = 1 \<and> length input = 7
      then Inr (Socket (AddrV4 [input ! 1, input ! 2, input ! 3, input ! 4] (be16_at input 5)))
      else if input \<noteq> [] \<and> hd input = 4 \<and> length input = 19
      then Inr (Socket (AddrV6 (subslice 1 17 input) (be16_at input 17) 0 0))
      else if input \<noteq> [] \<and> hd input = 3 \<and> length input \<ge> 4 \<and> length input = unat (input ! 1) + 4
      then let end = 2 + unat (input ! 1)
           in Inr (Domain (subslice 2 end input) (be16_at input end))
      else Inl (InvalidResponse ''SOCKS5 bound address''))"

definition authority :: "socket_addr \<Rightarrow> bytes" where
  "authority t =
     (case t of
        AddrV4 ip port \<Rightarrow> show_ipv4 ip @ ascii '':'' @ show_dec (unat port)
      | AddrV6 ip port fl sc \<Rightarrow> ascii ''['' @ show_ipv6 ip @ ascii '']:'' @ show_dec (unat port))"

definition crlf :: bytes where
  "crlf = [13, 10]"

definition http_connect_request :: "(bytes \<Rightarrow> bytes) \<Rightarrow> socket_addr \<Rightarrow> credentials option \<Rightarrow> bytes" where
  "http_connect_request base64 t cr =
     ascii ''CONNECT '' @ authority t @ ascii '' HTTP/1.1'' @ crlf @
     ascii ''Host: '' @ authority t @ crlf @
     (case cr of
        None \<Rightarrow> []
      | Some c \<Rightarrow> ascii ''Proxy-Authorization: Basic '' @
                  base64 (username c @ ascii '':'' @ password c) @ crlf) @
     crlf"

section \<open>The state machine\<close>

definition handshake_new ::
  "(bytes \<Rightarrow> bytes) \<Rightarrow> protocol \<Rightarrow> command \<Rightarrow> socket_addr \<Rightarrow> credentials option \<Rightarrow> proxy_error + handshake" where
  "handshake_new base64 pr c t cr =
     (let start = \<lambda>st out. Inr \<lparr>hs_state = st, hs_command = c, hs_target = t, hs_credentials = cr,
                    hs_output = out, output_offset = 0, bound_address = None\<rparr>
      in case pr of
           Socks5 \<Rightarrow> start SocksGreetingWrite (socks_greeting (cr \<noteq> None))
         | HttpConnect \<Rightarrow>
             if c = Connect then start HttpWrite (http_connect_request base64 t cr)
             else Inl UnsupportedCommand)"

definition pending_output :: "handshake \<Rightarrow> bytes" where
  "pending_output h = drop (output_offset h) (hs_output h)"

definition wants_input :: "handshake \<Rightarrow> bool" where
  "wants_input h \<longleftrightarrow> hs_state h \<in> {SocksMethodRead, SocksAuthRead, SocksCommandRead, HttpRead}"

definition is_complete :: "handshake \<Rightarrow> bool" where
  "is_complete h \<longleftrightarrow> hs_state h = Complete"

definition clear_output :: "handshake \<Rightarrow> handshake" where
  "clear_output h = h\<lparr>hs_output := [], output_offset := 0\<rparr>"

definition set_output :: "bytes \<Rightarrow> handshake \<Rightarrow> handshake" where
  "set_output out h = (clear_output h)\<lparr>hs_output := out\<rparr>"

definition advance_output :: "usize \<Rightarrow> handshake \<Rightarrow> (proxy_error + unit) \<times> handshake" where
  "advance_output len h =
     (if len > length (pending_output h) \<or> pending_output h = [] then (Inl InvalidState, h)
      else let h = h\<lparr>output_offset := output_offset h + len\<rparr>
           in if output_offset h \<noteq> length (hs_output h) then (Inr (), h)
              else let h = clear_output h
                   in case hs_state h of
                        SocksGreetingWrite \<Rightarrow> (Inr (), h\<lparr>hs_state := SocksMethodRead\<rparr>)
                      | SocksAuthWrite \<Rightarrow> (Inr (), h\<lparr>hs_state := SocksAuthRead\<rparr>)
                      | SocksCommandWrite \<Rightarrow> (Inr (), h\<lparr>hs_state := SocksCommandRead\<rparr>)
                      | HttpWrite \<Rightarrow> (Inr (), h\<lparr>hs_state := HttpRead\<rparr>)
                      | _ \<Rightarrow> (Inl InvalidState, h))"

definition receive_socks_method :: "bytes \<Rightarrow> handshake \<Rightarrow> (proxy_error + usize) \<times> handshake" where
  "receive_socks_method input h =
     (if length input < 2 then (Inr 0, h)
      else if input ! 0 \<noteq> 5 then (Inl (InvalidResponse ''SOCKS5 method version''), h)
      else if input ! 1 = 0 then
        (Inr 2, (set_output (socks_command_request (hs_command h) (hs_target h)) h)
                  \<lparr>hs_state := SocksCommandWrite\<rparr>)
      else if input ! 1 = 2 then
        (case hs_credentials h of
           None \<Rightarrow> (Inl SocksAuthenticationRequired, h)
         | Some c \<Rightarrow> (Inr 2, (set_output (socks_auth_request c) h)\<lparr>hs_state := SocksAuthWrite\<rparr>))
      else (Inl (UnsupportedSocksMethod (input ! 1)), h))"

definition receive_socks_auth :: "bytes \<Rightarrow> handshake \<Rightarrow> (proxy_error + usize) \<times> handshake" where
  "receive_socks_auth input h =
     (if length input < 2 then (Inr 0, h)
      else if input ! 0 \<noteq> 1 then (Inl (InvalidResponse ''SOCKS5 authentication version''), h)
      else if input ! 1 \<noteq> 0 then (Inl SocksAuthenticationFailed, h)
      else (Inr 2, (set_output (socks_command_request (hs_command h) (hs_target h)) h)
                     \<lparr>hs_state := SocksCommandWrite\<rparr>))"

text \<open>The length of a command reply: \<open>Inr None\<close> when the length byte of a domain is still missing.\<close>

definition command_reply_length :: "bytes \<Rightarrow> proxy_error + usize option" where
  "command_reply_length input =
     (if input ! 3 = 1 then Inr (Some 10)
      else if input ! 3 = 4 then Inr (Some 22)
      else if input ! 3 = 3 \<and> length input < 5 then Inr None
      else if input ! 3 = 3 then Inr (Some (7 + unat (input ! 4)))
      else Inl (InvalidResponse ''SOCKS5 address type''))"

definition receive_socks_command :: "bytes \<Rightarrow> handshake \<Rightarrow> (proxy_error + usize) \<times> handshake" where
  "receive_socks_command input h =
     (if length input < 4 then (Inr 0, h)
      else if input ! 0 \<noteq> 5 \<or> input ! 2 \<noteq> 0 then (Inl (InvalidResponse ''SOCKS5 command header''), h)
      else case command_reply_length input of
             Inl e \<Rightarrow> (Inl e, h)
           | Inr None \<Rightarrow> (Inr 0, h)
           | Inr (Some len) \<Rightarrow>
               if length input < len then (Inr 0, h)
               else if input ! 1 \<noteq> 0 then (Inl (SocksCommandFailed (input ! 1)), h)
               else (case parse_socks_address (subslice 3 len input) of
                       Inl e \<Rightarrow> (Inl e, h)
                     | Inr a \<Rightarrow> (Inr len, h\<lparr>bound_address := Some a, hs_state := Complete,
                                             hs_credentials := None\<rparr>)))"

text \<open>The status of a header block that ends at \<open>end\<close>.\<close>

definition http_status :: "bytes \<Rightarrow> usize \<Rightarrow> proxy_error + u16" where
  "http_status input end =
     (case window_position crlf (take end input) of
        None \<Rightarrow> Inl (InvalidResponse ''HTTP status line'')
      | Some line_end \<Rightarrow>
          let line = take line_end input
          in if \<not> utf8_valid line then Inl (InvalidResponse ''HTTP status encoding'')
             else case next_field line of
                    None \<Rightarrow> Inl (InvalidResponse ''HTTP version'')
                  | Some (version, rest) \<Rightarrow>
                      if version \<noteq> ascii ''HTTP/1.0'' \<and> version \<noteq> ascii ''HTTP/1.1''
                      then Inl (InvalidResponse ''HTTP version'')
                      else (case next_field rest of
                              None \<Rightarrow> Inl (InvalidResponse ''HTTP status'')
                            | Some (s, _) \<Rightarrow>
                                (case parse_u16 s of
                                   None \<Rightarrow> Inl (InvalidResponse ''HTTP status'')
                                 | Some status \<Rightarrow> Inr status)))"

definition receive_http :: "bytes \<Rightarrow> handshake \<Rightarrow> (proxy_error + usize) \<times> handshake" where
  "receive_http input h =
     (case window_position (crlf @ crlf) input of
        None \<Rightarrow> if length input \<ge> MAX_HTTP_HEADER then (Inl HttpHeaderTooLarge, h) else (Inr 0, h)
      | Some index \<Rightarrow>
          let end = index + 4
          in if end > MAX_HTTP_HEADER then (Inl HttpHeaderTooLarge, h)
             else case http_status input end of
                    Inl e \<Rightarrow> (Inl e, h)
                  | Inr status \<Rightarrow>
                      if \<not> (200 \<le> status \<and> status < 300) then (Inl (HttpConnectFailed status), h)
                      else (Inr end, h\<lparr>hs_state := Complete, hs_credentials := None\<rparr>))"

definition handshake_receive :: "bytes \<Rightarrow> handshake \<Rightarrow> (proxy_error + usize) \<times> handshake" where
  "handshake_receive input h =
     (case hs_state h of
        SocksMethodRead \<Rightarrow> receive_socks_method input h
      | SocksAuthRead \<Rightarrow> receive_socks_auth input h
      | SocksCommandRead \<Rightarrow> receive_socks_command input h
      | HttpRead \<Rightarrow> receive_http input h
      | _ \<Rightarrow> (Inl InvalidState, h))"

section \<open>Incremental parsing\<close>

text \<open>
  The reactor appends what has arrived to a buffer and offers the whole buffer again until the
  parser consumes something or fails. A parser fits this use when an undecided call changes nothing
  and a decided one does not depend on the bytes after those it decided on.
\<close>

fun feed :: "(bytes \<Rightarrow> 's \<Rightarrow> ('e + usize) \<times> 's) \<Rightarrow> bytes \<Rightarrow> bytes list \<Rightarrow> 's \<Rightarrow> ('e + usize) \<times> 's" where
  "feed recv buf [] s = recv buf s"
| "feed recv buf (chunk # chunks) s =
     (case recv (buf @ chunk) s of
        (Inr 0, s') \<Rightarrow> feed recv (buf @ chunk) chunks s'
      | decided \<Rightarrow> decided)"

locale incremental =
  fixes recv :: "bytes \<Rightarrow> 's \<Rightarrow> ('e + usize) \<times> 's"
  assumes undecided_keeps: "recv a s = (Inr 0, s') \<Longrightarrow> s' = s"
    and decided_stable: "fst (recv a s) \<noteq> Inr 0 \<Longrightarrow> recv (a @ b) s = recv a s"
begin

lemma feed_decided: "fst (recv a s) \<noteq> Inr 0 \<Longrightarrow> feed recv a cs s = recv a s"
  by (cases cs) (auto simp: decided_stable split: prod.splits sum.splits nat.splits)

lemma feed_chunks: "feed recv buf chunks s = recv (buf @ concat chunks) s"
proof (induction chunks arbitrary: buf)
  case (Cons c cs)
  show ?case
  proof (cases "fst (recv (buf @ c) s) = Inr 0")
    case True
    then obtain s' where "recv (buf @ c) s = (Inr 0, s')"
      by (cases "recv (buf @ c) s") auto
    moreover from this have "s' = s"
      by (rule undecided_keeps)
    ultimately show ?thesis
      using Cons [of "buf @ c"] by simp
  next
    case False
    then have "feed recv buf (c # cs) s = recv (buf @ c) s"
      by (auto split: prod.splits sum.splits nat.splits)
    then show ?thesis
      using decided_stable [OF False, of "concat cs"] by simp
  qed
qed simp

end

lemma window_position_bound:
  "window_position pat xs = Some i \<Longrightarrow> i + length pat \<le> length xs \<and> subslice i (i + length pat) xs = pat"
proof (induction xs arbitrary: i)
  case (Cons x xs)
  show ?case
  proof (cases "take (length pat) (x # xs) = pat")
    case True
    then have "length pat \<le> length (x # xs)"
      by (metis length_take min.cobounded1)
    then show ?thesis
      using Cons.prems True by (simp add: subslice_def)
  next
    case False
    then show ?thesis
      using Cons by (auto simp: subslice_def)
  qed
qed simp

lemma take_append_eq:
  "take n xs = pat \<Longrightarrow> length pat = n \<Longrightarrow> take n (xs @ ys) = pat"
  by (metis append_Nil2 diff_is_0_eq length_take min.cobounded1 take0 take_append)

lemma window_position_append:
  "window_position pat xs = Some i \<Longrightarrow> window_position pat (xs @ ys) = Some i"
proof (induction xs arbitrary: i)
  case (Cons x xs)
  show ?case
  proof (cases "take (length pat) (x # xs) = pat")
    case True
    then have "take (length pat) ((x # xs) @ ys) = pat"
      by (rule take_append_eq) simp
    then show ?thesis
      using Cons.prems True by simp
  next
    case False
    then obtain j where j: "window_position pat xs = Some j" "i = Suc j"
      using Cons.prems by auto
    then have "length pat \<le> length xs"
      using window_position_bound [of pat xs j] by simp
    then have "take (length pat) (x # xs @ ys) = take (length pat) (x # xs)"
      by (cases "length pat") auto
    then show ?thesis
      using False j Cons.IH [OF j(1)] by simp
  qed
qed simp

lemma window_position_late:
  "window_position pat xs = None \<Longrightarrow> window_position pat (xs @ ys) = Some i \<Longrightarrow> pat \<noteq> [] \<Longrightarrow>
     length xs < i + length pat"
proof (induction xs arbitrary: i)
  case Nil
  show ?case
    using Nil.prems by (cases ys; cases pat) (auto split: if_splits)
next
  case (Cons x xs)
  show ?case
  proof (cases "take (length pat) (x # xs @ ys) = pat")
    case True
    have "length (x # xs) < length pat"
    proof (rule ccontr)
      assume "\<not> length (x # xs) < length pat"
      then have "take (length pat) (x # xs @ ys) = take (length pat) (x # xs)"
        by (cases "length pat") auto
      then show False
        using True Cons.prems(1) by auto
    qed
    then show ?thesis
      by simp
  next
    case False
    then show ?thesis
      using Cons by (auto split: if_splits)
  qed
qed

lemma http_status_append: "end \<le> length a \<Longrightarrow> http_status (a @ b) end = http_status a end"
proof -
  assume e: "end \<le> length a"
  show ?thesis
  proof (cases "window_position crlf (take end a)")
    case (Some i)
    then have "i \<le> length a"
      using window_position_bound [of crlf "take end a" i] by simp
    then show ?thesis
      using Some e by (simp add: http_status_def)
  qed (use e in \<open>simp add: http_status_def\<close>)
qed

lemma receive_http_stable:
  assumes "fst (receive_http a h) \<noteq> Inr 0"
  shows "receive_http (a @ b) h = receive_http a h"
proof (cases "window_position (crlf @ crlf) a")
  case None
  then have big: "MAX_HTTP_HEADER \<le> length a"
    using assms by (auto simp: receive_http_def split: if_splits)
  then show ?thesis
    using None window_position_late [OF None, of b]
    by (auto simp: receive_http_def Let_def crlf_def split: option.split)
next
  case (Some i)
  then have "i + 4 \<le> length a"
    using window_position_bound [OF Some] by (simp add: crlf_def)
  then show ?thesis
    using Some window_position_append [OF Some, of b]
    by (simp add: receive_http_def Let_def http_status_append)
qed

lemma command_reply_length_append:
  "4 \<le> length a \<Longrightarrow> command_reply_length a \<noteq> Inr None \<Longrightarrow> command_reply_length (a @ b) = command_reply_length a"
  by (auto simp: command_reply_length_def nth_append)

lemma receive_socks_command_stable:
  assumes "fst (receive_socks_command a h) \<noteq> Inr 0"
  shows "receive_socks_command (a @ b) h = receive_socks_command a h"
proof -
  have len: "4 \<le> length a"
    using assms by (auto simp: receive_socks_command_def split: if_splits)
  have hd: "(a @ b) ! 0 = a ! 0" "(a @ b) ! 1 = a ! 1" "(a @ b) ! 2 = a ! 2"
    using len by (auto simp: nth_append)
  show ?thesis
  proof (cases "a ! 0 \<noteq> 5 \<or> a ! 2 \<noteq> 0")
    case False
    then have "command_reply_length a \<noteq> Inr None"
      using assms len by (auto simp: receive_socks_command_def)
    then have c: "command_reply_length (a @ b) = command_reply_length a"
      by (rule command_reply_length_append [OF len])
    have "len \<le> length a" if "command_reply_length a = Inr (Some len)" for len
      using that False assms \<open>4 \<le> length a\<close> by (auto simp: receive_socks_command_def split: if_splits)
    then show ?thesis
      using len hd c by (auto simp: receive_socks_command_def subslice_def split: sum.split option.split)
  qed (use len hd in \<open>simp add: receive_socks_command_def\<close>)
qed

lemma receive_http_undecided: "receive_http a h = (Inr 0, h') \<Longrightarrow> h' = h"
  by (auto simp: receive_http_def Let_def split: option.splits sum.splits if_splits)

lemma receive_socks_command_undecided: "receive_socks_command a h = (Inr 0, h') \<Longrightarrow> h' = h"
  by (auto simp: receive_socks_command_def command_reply_length_def split: option.splits sum.splits if_splits)

lemma receive_socks_method_cases:
  "receive_socks_method a h = (Inr 0, h') \<Longrightarrow> h' = h"
  "fst (receive_socks_method a h) \<noteq> Inr 0 \<Longrightarrow> receive_socks_method (a @ b) h = receive_socks_method a h"
  by (auto simp: receive_socks_method_def nth_append split: option.splits if_splits)

lemma receive_socks_auth_cases:
  "receive_socks_auth a h = (Inr 0, h') \<Longrightarrow> h' = h"
  "fst (receive_socks_auth a h) \<noteq> Inr 0 \<Longrightarrow> receive_socks_auth (a @ b) h = receive_socks_auth a h"
  by (auto simp: receive_socks_auth_def nth_append split: if_splits)

interpretation hs: incremental handshake_receive
proof unfold_locales
  fix a h h' assume "handshake_receive a h = (Inr 0, h')"
  then show "h' = h"
    by (cases "hs_state h") (simp_all add: handshake_receive_def receive_http_undecided
        receive_socks_command_undecided receive_socks_method_cases(1) receive_socks_auth_cases(1))
next
  fix a b h assume "fst (handshake_receive a h) \<noteq> Inr 0"
  then show "handshake_receive (a @ b) h = handshake_receive a h"
    by (cases "hs_state h") (simp_all add: handshake_receive_def receive_http_stable
        receive_socks_command_stable receive_socks_method_cases(2) receive_socks_auth_cases(2))
qed

section \<open>Reachable handshakes\<close>

definition writing :: "handshake \<Rightarrow> bool" where
  "writing h \<longleftrightarrow> hs_state h \<in> {SocksGreetingWrite, SocksAuthWrite, SocksCommandWrite, HttpWrite}"

definition handshake_ok :: "handshake \<Rightarrow> bool" where
  "handshake_ok h \<longleftrightarrow>
     (if writing h then output_offset h < length (hs_output h) else hs_output h = [] \<and> output_offset h = 0) \<and>
     (is_complete h \<longrightarrow> hs_credentials h = None)"

inductive handshake_run :: "(bytes \<Rightarrow> bytes) \<Rightarrow> handshake \<Rightarrow> bool" for base64 where
  hs_start: "handshake_new base64 pr c t cr = Inr h \<Longrightarrow> handshake_run base64 h"
| hs_wrote: "handshake_run base64 h \<Longrightarrow> advance_output n h = (r, h') \<Longrightarrow> handshake_run base64 h'"
| hs_read: "handshake_run base64 h \<Longrightarrow> handshake_receive input h = (r, h') \<Longrightarrow> handshake_run base64 h'"

lemmas receive_defs = handshake_receive_def receive_socks_method_def receive_socks_auth_def
  receive_socks_command_def receive_http_def

lemma message_lengths [simp]:
  "socks_greeting b \<noteq> []" "socks_auth_request c \<noteq> []" "socks_command_request k t \<noteq> []"
  "http_connect_request base64 t cr \<noteq> []"
  by (simp_all add: socks_greeting_def socks_auth_request_def socks_command_request_def
      http_connect_request_def ascii_def)

fun read_state :: "handshake_state \<Rightarrow> handshake_state" where
  "read_state SocksGreetingWrite = SocksMethodRead"
| "read_state SocksAuthWrite = SocksAuthRead"
| "read_state SocksCommandWrite = SocksCommandRead"
| "read_state HttpWrite = HttpRead"
| "read_state st = st"

lemma advance_output_partial:
  assumes "handshake_ok h" "writing h" "n < length (pending_output h)"
  shows "advance_output n h = (Inr (), h\<lparr>output_offset := output_offset h + n\<rparr>)"
    and "handshake_ok (h\<lparr>output_offset := output_offset h + n\<rparr>)"
    and "pending_output (h\<lparr>output_offset := output_offset h + n\<rparr>) = drop n (pending_output h)"
  using assms by (auto simp: advance_output_def handshake_ok_def pending_output_def writing_def is_complete_def
      Let_def less_diff_conv ac_simps)

lemma advance_output_full:
  assumes "handshake_ok h" "writing h"
  shows "advance_output (length (pending_output h)) h =
      (Inr (), (clear_output h)\<lparr>hs_state := read_state (hs_state h)\<rparr>)"
    and "handshake_ok ((clear_output h)\<lparr>hs_state := read_state (hs_state h)\<rparr>)"
    and "wants_input ((clear_output h)\<lparr>hs_state := read_state (hs_state h)\<rparr>)"
proof -
  have "output_offset h + length (pending_output h) = length (hs_output h)" "pending_output h \<noteq> []"
    using assms by (simp_all add: handshake_ok_def pending_output_def)
  then show "advance_output (length (pending_output h)) h =
      (Inr (), (clear_output h)\<lparr>hs_state := read_state (hs_state h)\<rparr>)"
    using assms(2) by (cases "hs_state h")
      (simp_all add: advance_output_def writing_def clear_output_def Let_def)
qed (use assms(2) in \<open>auto simp: handshake_ok_def writing_def is_complete_def clear_output_def wants_input_def\<close>)

lemma advance_output_rejected:
  assumes "handshake_ok h" and "\<not> writing h \<or> n > length (pending_output h)"
  shows "advance_output n h = (Inl InvalidState, h)"
  using assms by (auto simp: advance_output_def handshake_ok_def pending_output_def)

lemma advance_output_ok: "handshake_ok h \<Longrightarrow> advance_output n h = (r, h') \<Longrightarrow> handshake_ok h'"
  using advance_output_partial [of h n] advance_output_full [of h] advance_output_rejected [of h n]
  by (cases "writing h \<and> n \<le> length (pending_output h)"; cases "n = length (pending_output h)") auto

lemma receive_error_keeps: "handshake_receive input h = (Inl e, h') \<Longrightarrow> h' = h"
  by (auto simp: receive_defs Let_def split: handshake_state.splits if_splits option.splits sum.splits)

lemma receive_consumes:
  "handshake_receive input h = (Inr n, h') \<Longrightarrow> n \<le> length input"
proof (cases "hs_state h = HttpRead")
  case True
  assume "handshake_receive input h = (Inr n, h')"
  then show ?thesis
    using True window_position_bound [of "crlf @ crlf" input]
    by (auto simp: handshake_receive_def receive_http_def crlf_def Let_def split: if_splits option.splits sum.splits)
next
  case False
  assume "handshake_receive input h = (Inr n, h')"
  then show ?thesis
    using False by (auto simp: receive_defs split: handshake_state.splits if_splits option.splits sum.splits)
qed

lemma receive_ok:
  assumes ok: "handshake_ok h" and r: "handshake_receive input h = (r, h')"
  shows "handshake_ok h'"
proof (cases "wants_input h")
  case True
  then have "hs_output h = [] \<and> output_offset h = 0"
    using ok by (auto simp: handshake_ok_def wants_input_def writing_def)
  then show ?thesis
    using r ok by (auto simp: receive_defs handshake_ok_def writing_def is_complete_def set_output_def
        clear_output_def Let_def split: handshake_state.splits if_splits option.splits sum.splits)
next
  case False
  then have "h' = h"
    using r by (auto simp: handshake_receive_def wants_input_def split: handshake_state.splits)
  then show ?thesis
    using ok by simp
qed

lemma handshake_run_ok: "handshake_run base64 h \<Longrightarrow> handshake_ok h"
proof (induction rule: handshake_run.induct)
  case (hs_start pr c t cr h)
  then show ?case
    by (auto simp: handshake_new_def handshake_ok_def writing_def is_complete_def Let_def
        split: protocol.splits if_splits)
next
  case (hs_wrote h n r h')
  then show ?case
    using advance_output_ok by blast
next
  case (hs_read h input r h')
  then show ?case
    using receive_ok by blast
qed

section \<open>Addresses on the wire\<close>

text \<open>The address encoding of RFC 1928, as a reference for what is sent and for what is parsed.\<close>

fun encode_socks_address :: "socks_address \<Rightarrow> bytes" where
  "encode_socks_address (Socket (AddrV4 ip port)) = 1 # ip @ u16_to_be port"
| "encode_socks_address (Socket (AddrV6 ip port fl sc)) = 4 # ip @ u16_to_be port"
| "encode_socks_address (Domain name port) = 3 # word_of_nat (length name) # name @ u16_to_be port"

fun wire_address :: "socks_address \<Rightarrow> bool" where
  "wire_address (Socket (AddrV4 ip port)) \<longleftrightarrow> length ip = 4"
| "wire_address (Socket (AddrV6 ip port fl sc)) \<longleftrightarrow> length ip = 16 \<and> fl = 0 \<and> sc = 0"
| "wire_address (Domain name port) \<longleftrightarrow> length name \<le> 255"

lemma be16_at_append: "i = length xs \<Longrightarrow> be16_at (xs @ u16_to_be v) i = v"
  using be16_at_slice [of i "xs @ u16_to_be v"] by (simp add: subslice_def)

lemma unat_of_small_nat: "n \<le> 255 \<Longrightarrow> unat (word_of_nat n :: u8) = n"
  by (simp add: unat_of_nat)

lemma list4: "length xs = 4 \<Longrightarrow> [xs ! 0, xs ! 1, xs ! 2, xs ! 3] = xs"
  by (rule nth_equalityI) (auto simp: less_Suc_eq numeral_eq_Suc)

lemma parse_encoded_address: "wire_address a \<Longrightarrow> parse_socks_address (encode_socks_address a) = Inr a"
proof (cases a rule: wire_address.cases)
  case (1 ip port)
  assume "wire_address a"
  then have "length ip = 4"
    using 1 by simp
  then show ?thesis
    using 1 list4 [of ip] be16_at_append [of 5 "1 # ip" port]
    by (simp add: parse_socks_address_def nth_append)
next
  case (2 ip port fl sc)
  assume "wire_address a"
  then show ?thesis
    using 2 be16_at_append [of 17 "4 # ip" port]
    by (simp add: parse_socks_address_def subslice_def)
next
  case (3 name port)
  assume "wire_address a"
  then have "unat (word_of_nat (length name) :: u8) = length name"
    using 3 by (simp add: unat_of_small_nat)
  then show ?thesis
    using 3 be16_at_append [of "2 + length name" "3 # word_of_nat (length name) # name" port]
    by (simp add: parse_socks_address_def Let_def subslice_def)
qed

lemma receive_encoded_reply:
  assumes a: "wire_address a" and st: "hs_state h = SocksCommandRead"
  shows "handshake_receive ([5, 0, 0] @ encode_socks_address a @ tail) h =
    (Inr (3 + length (encode_socks_address a)),
     h\<lparr>bound_address := Some a, hs_state := Complete, hs_credentials := None\<rparr>)"
proof -
  let ?in = "[5, 0, 0] @ encode_socks_address a @ tail" and ?n = "3 + length (encode_socks_address a)"
  have len: "encode_socks_address a \<noteq> []"
    by (cases a rule: wire_address.cases) auto
  have "command_reply_length ?in = Inr (Some ?n)"
    using a by (cases a rule: wire_address.cases)
      (auto simp: command_reply_length_def unat_of_small_nat)
  moreover have "subslice 3 ?n ?in = encode_socks_address a"
    by (simp add: subslice_def)
  ultimately show ?thesis
    using len st by (simp add: handshake_receive_def receive_socks_command_def parse_encoded_address [OF a])
qed

text \<open>One turn of the dialogue: all pending output is written, then a reply arrives.\<close>

definition exchange :: "bytes \<Rightarrow> handshake \<Rightarrow> (proxy_error + usize) \<times> handshake" where
  "exchange reply h = handshake_receive reply (snd (advance_output (length (pending_output h)) h))"

lemma exchange_ready:
  "handshake_ok h \<Longrightarrow> writing h \<Longrightarrow>
     exchange reply h = handshake_receive reply ((clear_output h)\<lparr>hs_state := read_state (hs_state h)\<rparr>)"
  by (simp add: exchange_def advance_output_full)

section \<open>The request of HTTP CONNECT\<close>

definition printable :: "bytes \<Rightarrow> bool" where
  "printable bs \<longleftrightarrow> 13 \<notin> set bs"

lemma printable_append [simp]: "printable (a @ b) \<longleftrightarrow> printable a \<and> printable b"
  by (simp add: printable_def)

lemma printable_Nil [simp]: "printable []"
  by (simp add: printable_def)

lemma hex_digit_printable [simp]: "d < 16 \<Longrightarrow> printable [hex_digit d]"
proof -
  assume "d < 16"
  then have "unat (hex_digit d) = (if d < 10 then 48 + d else 87 + d)"
    by (simp add: hex_digit_def unat_of_nat)
  then have "unat (hex_digit d) \<noteq> unat (13 :: u8)"
    by simp
  then have "hex_digit d \<noteq> 13"
    by metis
  then show ?thesis
    by (simp add: printable_def)
qed

lemma show_dec_printable [simp]: "printable (show_dec n)"
  by (induction n rule: show_dec.induct) (subst show_dec.simps, simp)

lemma show_hex_printable [simp]: "printable (show_hex n)"
  by (induction n rule: show_hex.induct) (subst show_hex.simps, simp)

lemma join_printable: "printable sep \<Longrightarrow> \<forall>x \<in> set xs. printable x \<Longrightarrow> printable (join sep xs)"
  by (induction sep xs rule: join.induct) auto

lemma ascii_printable [simp]:
  "printable (ascii ''.'')" "printable (ascii '':'')" "printable (ascii ''::'')" "printable (ascii ''::ffff:'')"
  "printable (ascii ''['')" "printable (ascii '']:'')" "printable (ascii ''CONNECT '')"
  "printable (ascii '' HTTP/1.1'')" "printable (ascii ''Host: '')"
  "printable (ascii ''Proxy-Authorization: Basic '')"
  by (simp_all add: printable_def ascii_def)

lemma show_ipv4_printable [simp]: "printable (show_ipv4 ip)"
  by (auto simp: show_ipv4_def intro!: join_printable)

lemma show_ipv6_printable [simp]: "printable (show_ipv6 ip)"
  by (auto simp: show_ipv6_def Let_def intro!: join_printable split: prod.split)

lemma authority_printable [simp]: "printable (authority t)"
  by (cases t) (simp_all add: authority_def)

lemma window_skip_printable:
  "printable a \<Longrightarrow> window_position (13 # pat) (a @ xs) = map_option ((+) (length a)) (window_position (13 # pat) xs)"
  by (induction a) (cases "window_position (13 # pat) xs"; auto simp: printable_def)+

lemma window_skip_line:
  assumes "printable a" "xs \<noteq> []" "hd xs \<noteq> 13"
  shows "window_position (crlf @ crlf) (a @ crlf @ xs) =
    map_option ((+) (length a + 2)) (window_position (crlf @ crlf) xs)"
proof -
  from assms obtain c r where xs: "xs = c # r" "c \<noteq> 13"
    by (cases xs) auto
  then have "window_position (crlf @ crlf) (crlf @ xs) = map_option ((+) 2) (window_position (crlf @ crlf) xs)"
    by (cases "window_position [13, 10, 13, 10] r") (simp_all add: crlf_def)
  then show ?thesis
    using window_skip_printable [OF assms(1), of "[10, 13, 10]" "crlf @ xs"]
    by (cases "window_position (crlf @ crlf) xs") (simp_all add: crlf_def)
qed

lemma window_last_line:
  "printable a \<Longrightarrow> window_position (crlf @ crlf) (a @ crlf @ crlf) = Some (length a)"
  by (simp add: crlf_def window_skip_printable)

definition base64_alphabet :: bytes where
  "base64_alphabet = ascii ''ABCDEFGHIJKLMNOPQRSTUVWXYZabcdefghijklmnopqrstuvwxyz0123456789+/=''"

lemma base64_alphabet_printable: "printable base64_alphabet"
  by (simp add: base64_alphabet_def ascii_def printable_def)

section \<open>Properties\<close>

text \<open>
  C27. The handshake never gets stuck: a reachable handshake has output to write, waits for input or is
  complete, and exactly one of the three. Any accepted amount of output is removed from the front of
  the pending bytes and the last byte turns the handshake to reading; a failed \<open>receive\<close> changes
  nothing, a successful one consumes no more than it was given; and a complete handshake keeps
  neither credentials nor message bytes.
\<close>

theorem handshake_progress:
  assumes "handshake_run base64 h"
  shows "length (filter id [pending_output h \<noteq> [], wants_input h, is_complete h]) = 1 \<and>
    (\<forall>n. pending_output h \<noteq> [] \<and> n \<le> length (pending_output h) \<longrightarrow>
       (\<exists>h'. advance_output n h = (Inr (), h') \<and> pending_output h' = drop n (pending_output h) \<and>
          (n = length (pending_output h) \<longrightarrow> wants_input h'))) \<and>
    (\<forall>input e h'. handshake_receive input h = (Inl e, h') \<longrightarrow> h' = h) \<and>
    (\<forall>input n h'. handshake_receive input h = (Inr n, h') \<longrightarrow> wants_input h \<and> n \<le> length input) \<and>
    (is_complete h \<longrightarrow> hs_credentials h = None \<and> hs_output h = [])"
proof -
  have ok: "handshake_ok h"
    using assms by (rule handshake_run_ok)
  then have w: "writing h \<longleftrightarrow> pending_output h \<noteq> []"
    by (cases "writing h") (auto simp: handshake_ok_def pending_output_def)
  have "length (filter id [pending_output h \<noteq> [], wants_input h, is_complete h]) = 1"
    unfolding w [symmetric] by (cases "hs_state h") (simp_all add: writing_def wants_input_def is_complete_def)
  moreover have "\<exists>h'. advance_output n h = (Inr (), h') \<and> pending_output h' = drop n (pending_output h) \<and>
      (n = length (pending_output h) \<longrightarrow> wants_input h')"
    if "pending_output h \<noteq> []" "n \<le> length (pending_output h)" for n
    using that ok w advance_output_partial [of h n] advance_output_full [of h]
    by (cases "n = length (pending_output h)") (auto simp: pending_output_def clear_output_def)
  moreover have "wants_input h" if "handshake_receive input h = (Inr n, h')" for input n h'
    using that by (cases "hs_state h") (simp_all add: handshake_receive_def wants_input_def)
  ultimately show ?thesis
    using receive_error_keeps receive_consumes ok
    by (auto simp: handshake_ok_def writing_def is_complete_def)
qed

text \<open>
  C28. How the proxy's bytes are cut into chunks does not matter: offering the growing buffer after
  each chunk, until the handshake consumes something or fails, gives the result and the handshake
  that offering all bytes at once gives.
\<close>

theorem handshake_chunking:
  "feed handshake_receive [] chunks h = handshake_receive (concat chunks) h"
  by (simp add: hs.feed_chunks)

text \<open>
  C34. The SOCKS5 dialogue with username and password, with a server that selects the password method
  and accepts each step, every request being written before its reply is read: the greeting offers
  no authentication and password; the authentication message carries the two strings with their
  lengths; the command carries the target in the encoding of RFC 1928; and the reply's bound
  address, of any of the three address types, is decoded exactly, leaving the bytes after it unread
  and the handshake complete without credentials.
\<close>

theorem socks5_dialogue:
  assumes cr: "credentials_new u p = Inr cr"
    and new: "handshake_new base64 Socks5 c t (Some cr) = Inr h0"
    and a: "wire_address a"
  shows "pending_output h0 = [5, 2, 0, 2] \<and>
    (\<exists>h1 h2 h3. exchange [5, 2] h0 = (Inr 2, h1) \<and>
       (\<exists>lu lp. pending_output h1 = [1, lu] @ u @ [lp] @ p \<and> unat lu = length u \<and> unat lp = length p) \<and>
       exchange [1, 0] h1 = (Inr 2, h2) \<and>
       pending_output h2 = [5, socks_code c, 0] @ encode_socks_address (Socket t) \<and>
       exchange ([5, 0, 0] @ encode_socks_address a @ tail) h2 = (Inr (3 + length (encode_socks_address a)), h3) \<and>
       is_complete h3 \<and> bound_address h3 = Some a \<and> hs_credentials h3 = None)"
proof -
  from cr have cr': "cr = \<lparr>username = u, password = p\<rparr>" "length u \<le> 255" "length p \<le> 255"
    by (auto simp: credentials_new_def MAX_CREDENTIAL_COMPONENT_def split: if_splits)
  define h1 where "h1 = h0\<lparr>hs_output := socks_auth_request cr, output_offset := 0, hs_state := SocksAuthWrite\<rparr>"
  define h2 where "h2 = h1\<lparr>hs_output := socks_command_request c t, output_offset := 0, hs_state := SocksCommandWrite\<rparr>"
  have h0: "h0 = \<lparr>hs_state = SocksGreetingWrite, hs_command = c, hs_target = t, hs_credentials = Some cr,
      hs_output = [5, 2, 0, 2], output_offset = 0, bound_address = None\<rparr>"
    using new by (simp add: handshake_new_def Let_def socks_greeting_def)
  have ok: "handshake_ok h0" "writing h0" "handshake_ok h1" "writing h1" "handshake_ok h2" "writing h2"
    by (simp_all add: h0 h1_def h2_def handshake_ok_def writing_def is_complete_def)
  have "exchange [5, 2] h0 = (Inr 2, h1)"
    using ok by (simp add: exchange_ready h0 h1_def handshake_receive_def receive_socks_method_def
        clear_output_def set_output_def)
  moreover have "exchange [1, 0] h1 = (Inr 2, h2)"
    using ok by (simp add: exchange_ready h0 h1_def h2_def handshake_receive_def receive_socks_auth_def
        clear_output_def set_output_def)
  moreover have "pending_output h1 = [1, word_of_nat (length u)] @ u @ [word_of_nat (length p)] @ p"
    by (simp add: h1_def pending_output_def socks_auth_request_def cr')
  moreover have "unat (word_of_nat (length u) :: u8) = length u" "unat (word_of_nat (length p) :: u8) = length p"
    using cr' by (simp_all add: unat_of_small_nat)
  moreover have "pending_output h2 = [5, socks_code c, 0] @ encode_socks_address (Socket t)"
    by (cases t) (simp_all add: h2_def pending_output_def socks_command_request_def)
  moreover have "\<exists>h3. exchange ([5, 0, 0] @ encode_socks_address a @ tail) h2 =
      (Inr (3 + length (encode_socks_address a)), h3) \<and> is_complete h3 \<and> bound_address h3 = Some a \<and>
      hs_credentials h3 = None"
    using receive_encoded_reply [OF a, of "(clear_output h2)\<lparr>hs_state := SocksCommandRead\<rparr>" tail] ok
    by (simp add: exchange_ready is_complete_def h2_def)
  moreover have "pending_output h0 = [5, 2, 0, 2]"
    by (simp add: h0 pending_output_def)
  ultimately show ?thesis
    by auto
qed

text \<open>
  The CONNECT request cannot be split by its contents: whatever bytes the credentials hold, the
  first line break ends the line \<open>CONNECT <authority> HTTP/1.1\<close> and the only empty line is the one
  that ends the request. This relies on the Base64 encoder staying in its alphabet.
\<close>

theorem http_request_framing:
  assumes base64: "\<And>raw. set (base64 raw) \<subseteq> set base64_alphabet"
  shows "window_position (crlf @ crlf) (http_connect_request base64 t cr) =
      Some (length (http_connect_request base64 t cr) - 4) \<and>
    (\<exists>i. window_position crlf (http_connect_request base64 t cr) = Some i \<and>
       take i (http_connect_request base64 t cr) = ascii ''CONNECT '' @ authority t @ ascii '' HTTP/1.1'')"
proof -
  let ?first = "ascii ''CONNECT '' @ authority t @ ascii '' HTTP/1.1''"
  let ?host = "ascii ''Host: '' @ authority t"
  have enc: "printable (base64 raw)" for raw
    using base64 [of raw] base64_alphabet_printable by (auto simp: printable_def)
  have host: "hd (?host @ rest) \<noteq> 13" for rest
    by (simp add: ascii_def)
  have "window_position (crlf @ crlf) (http_connect_request base64 t cr) =
      Some (length (http_connect_request base64 t cr) - 4)"
  proof (cases cr)
    case None
    then have req: "http_connect_request base64 t cr = ?first @ crlf @ ?host @ crlf @ crlf"
      by (simp add: http_connect_request_def)
    have "window_position (crlf @ crlf) (?first @ crlf @ ?host @ crlf @ crlf) =
        map_option ((+) (length ?first + 2)) (window_position (crlf @ crlf) (?host @ crlf @ crlf))"
      by (rule window_skip_line) (use host [of "crlf @ crlf"] in \<open>simp_all add: crlf_def\<close>)
    also have "window_position (crlf @ crlf) (?host @ crlf @ crlf) = Some (length ?host)"
      by (rule window_last_line) simp
    finally show ?thesis
      unfolding req by (simp add: crlf_def)
  next
    case (Some c)
    let ?auth = "ascii ''Proxy-Authorization: Basic '' @ base64 (username c @ ascii '':'' @ password c)"
    have req: "http_connect_request base64 t cr = ?first @ crlf @ ?host @ crlf @ ?auth @ crlf @ crlf"
      by (simp add: http_connect_request_def Some)
    have auth: "hd (?auth @ rest) \<noteq> 13" for rest
      by (simp add: ascii_def)
    have "window_position (crlf @ crlf) (?first @ crlf @ ?host @ crlf @ ?auth @ crlf @ crlf) =
        map_option ((+) (length ?first + 2)) (window_position (crlf @ crlf) (?host @ crlf @ ?auth @ crlf @ crlf))"
      by (rule window_skip_line) (use host [of "crlf @ ?auth @ crlf @ crlf"] in \<open>simp_all add: crlf_def\<close>)
    also have "window_position (crlf @ crlf) (?host @ crlf @ ?auth @ crlf @ crlf) =
        map_option ((+) (length ?host + 2)) (window_position (crlf @ crlf) (?auth @ crlf @ crlf))"
      by (rule window_skip_line) (use auth [of "crlf @ crlf"] in \<open>simp_all add: crlf_def\<close>)
    also have "window_position (crlf @ crlf) (?auth @ crlf @ crlf) = Some (length ?auth)"
      by (rule window_last_line) (simp add: enc)
    finally show ?thesis
      unfolding req by (simp add: crlf_def)
  qed
  moreover have "window_position crlf (?first @ crlf @ rest) = Some (length ?first)" for rest
    using window_skip_printable [of ?first "[10]" "crlf @ rest"] by (simp add: crlf_def)
  ultimately show ?thesis
    by (simp add: http_connect_request_def)
qed

section \<open>Witnesses\<close>

text \<open>The Base64 encoding of RFC 4648, an instance of the parameter.\<close>

fun rfc4648 :: "bytes \<Rightarrow> bytes" where
  "rfc4648 [] = []"
| "rfc4648 [a] = (let n = unat a * 16 in [base64_alphabet ! (n div 64 mod 64), base64_alphabet ! (n mod 64), 61, 61])"
| "rfc4648 [a, b] =
     (let n = (unat a * 256 + unat b) * 4
      in [base64_alphabet ! (n div 4096 mod 64), base64_alphabet ! (n div 64 mod 64), base64_alphabet ! (n mod 64), 61])"
| "rfc4648 (a # b # c # r) =
     (let n = (unat a * 256 + unat b) * 256 + unat c
      in [base64_alphabet ! (n div 262144 mod 64), base64_alphabet ! (n div 4096 mod 64),
          base64_alphabet ! (n div 64 mod 64), base64_alphabet ! (n mod 64)] @ rfc4648 r)"

lemma base64_digit: "base64_alphabet ! (n mod 64) \<in> set base64_alphabet"
proof -
  have "length base64_alphabet = 65"
    by (simp add: base64_alphabet_def ascii_def)
  moreover have "n mod 64 < 64"
    by simp
  ultimately show ?thesis
    by (intro nth_mem) linarith
qed

lemma rfc4648_alphabet: "set (rfc4648 raw) \<subseteq> set base64_alphabet"
proof -
  have "61 \<in> set base64_alphabet"
    by (simp add: base64_alphabet_def ascii_def)
  then show ?thesis
    by (induction raw rule: rfc4648.induct) (simp_all add: Let_def base64_digit)
qed

theorem http_request_framing_witness:
  "window_position (crlf @ crlf) (http_connect_request rfc4648 (AddrV4 [192, 0, 2, 1] 443)
       (Some \<lparr>username = [13, 10], password = [13, 10, 13, 10]\<rparr>)) =
     Some (length (http_connect_request rfc4648 (AddrV4 [192, 0, 2, 1] 443)
       (Some \<lparr>username = [13, 10], password = [13, 10, 13, 10]\<rparr>)) - 4)"
  using http_request_framing [of rfc4648 "AddrV4 [192, 0, 2, 1] 443"
      "Some \<lparr>username = [13, 10], password = [13, 10, 13, 10]\<rparr>", OF rfc4648_alphabet] by (rule conjunct1)

definition sample_handshake :: handshake where
  "sample_handshake = \<lparr>hs_state = SocksGreetingWrite, hs_command = Connect, hs_target = AddrV4 [192, 0, 2, 1] 443,
     hs_credentials = Some \<lparr>username = [117], password = [112]\<rparr>, hs_output = [5, 2, 0, 2],
     output_offset = 0, bound_address = None\<rparr>"

lemma sample_new:
  "handshake_new base64 Socks5 Connect (AddrV4 [192, 0, 2, 1] 443) (Some \<lparr>username = [117], password = [112]\<rparr>) =
     Inr sample_handshake"
  by (simp add: handshake_new_def sample_handshake_def socks_greeting_def Let_def)

theorem handshake_progress_witness:
  "\<exists>h'. advance_output 3 sample_handshake = (Inr (), h') \<and> pending_output h' = [2]"
proof -
  have "handshake_run (\<lambda>raw. []) sample_handshake"
    using sample_new by (rule hs_start)
  moreover have "pending_output sample_handshake = [5, 2, 0, 2]"
    by (simp add: sample_handshake_def pending_output_def)
  ultimately show ?thesis
    using handshake_progress [THEN conjunct2, THEN conjunct1, rule_format, of "\<lambda>raw. []" sample_handshake 3]
    by auto
qed

theorem socks5_dialogue_witness:
  "\<exists>h1 h2 h3. exchange [5, 2] sample_handshake = (Inr 2, h1) \<and> exchange [1, 0] h1 = (Inr 2, h2) \<and>
     exchange [5, 0, 0, 3, 1, 120, 0, 80, 99] h2 = (Inr 8, h3) \<and> bound_address h3 = Some (Domain [120] 80)"
proof -
  have "credentials_new [117] [112] = Inr \<lparr>username = [117], password = [112]\<rparr>"
    by (simp add: credentials_new_def MAX_CREDENTIAL_COMPONENT_def)
  moreover have "encode_socks_address (Domain [120] 80) = [3, 1, 120, 0, 80]"
    by (simp add: u16_to_be_pair)
  ultimately show ?thesis
    using socks5_dialogue [OF _ sample_new, of "[117]" "[112]" "Domain [120] 80" "[99]"] by auto
qed

end
