(* ===== verification/Checksum.thy ===== *)
theory Checksum
  imports Prelude
begin

text \<open>
  The Internet checksum of \<open>crates/packet/src/checksum.rs\<close>: the word sum, the end-around-carry
  fold, the plain checksum, and the IPv4 and IPv6 transport checksums with their pseudo
  headers. \<open>u32\<close> addition wraps, as in the release profile; the lemmas show that no sum of at
  most 65535 bytes with a pseudo header reaches the wrap-around.

  The reference is one's-complement arithmetic on \<open>nat\<close>: \<open>wsum\<close> adds the big-endian 16-bit
  words and \<open>oc\<close> is the representative of a sum modulo 65535 that is zero only for zero.
  The locale \<open>internet_checksum\<close> states what a checksum over a slice promises; storing a
  computed checksum in a zeroed 16-bit field at an even offset then makes the slice verify,
  proved once and interpreted for the three checksums.
\<close>

section \<open>The code\<close>

fun sum_words :: "u32 \<Rightarrow> bytes \<Rightarrow> u32" where
  "sum_words acc (a # b # rest) = sum_words (acc + ucast (u16_from_be [a, b])) rest"
| "sum_words acc [a] = acc + push_bit 8 (ucast a)"
| "sum_words acc [] = acc"

lemma unat_drop16: "unat (drop_bit 16 (s :: u32)) = unat s div 65536"
  by (simp add: drop_bit_eq_div unat_div)

lemma unat_and16: "unat (s AND 0xffff :: u32) = unat s mod 65536"
proof -
  have "s AND 0xffff = take_bit 16 s" by (simp add: take_bit_eq_mask mask_eq_exp_minus_1)
  then show ?thesis by (simp add: take_bit_eq_mod unat_mod)
qed

lemma unat_fold_step:
  "unat ((s AND 0xffff) + drop_bit 16 s :: u32) = unat s mod 65536 + unat s div 65536"
proof -
  have "unat s mod 65536 + unat s div 65536 < 4294967296"
    using unat_u32_less [of s] by linarith
  then show ?thesis by (simp add: unat_word_ariths unat_drop16 unat_and16)
qed

lemma drop16_eq_0: "drop_bit 16 (s :: u32) = 0 \<longleftrightarrow> unat s < 65536"
  by (metis unat_drop16 unat_eq_zero div_eq_0_iff zero_neq_numeral)

lemma end_around_carry: "n = (n mod 65536 + n div 65536) + 65535 * (n div 65536)" for n :: nat
  using div_mult_mod_eq [of n 65536] by linarith

function fold_sum :: "u32 \<Rightarrow> u16" where
  "fold_sum acc =
     (if drop_bit 16 acc \<noteq> 0 then fold_sum ((acc AND 0xffff) + drop_bit 16 acc) else ucast acc)"
  by pat_completeness auto
termination
proof (relation "measure unat")
  fix acc :: u32
  assume "drop_bit 16 acc \<noteq> 0"
  then have "65536 \<le> unat acc" by (simp add: drop16_eq_0)
  then have "0 < unat acc div 65536" by (simp add: div_greater_zero_iff)
  then have "unat acc mod 65536 + unat acc div 65536 < unat acc"
    using end_around_carry [of "unat acc"] by linarith
  then show "((acc AND 0xffff) + drop_bit 16 acc, acc) \<in> measure unat"
    by (simp add: unat_fold_step)
qed simp

declare fold_sum.simps [simp del]

definition csum_fold :: "u32 \<Rightarrow> u16" where
  "csum_fold acc = NOT (fold_sum acc)"

definition checksum :: "bytes \<Rightarrow> u16" where
  "checksum bytes = csum_fold (sum_words 0 bytes)"

definition ipv4_transport :: "bytes \<Rightarrow> bytes \<Rightarrow> u8 \<Rightarrow> bytes \<Rightarrow> u16" where
  "ipv4_transport src dst protocol bytes =
     (let acc = sum_words 0 src;
          acc = sum_words acc dst;
          acc = acc + ucast protocol;
          acc = acc + word_of_nat (length bytes)
      in csum_fold (sum_words acc bytes))"

definition ipv6_transport :: "bytes \<Rightarrow> bytes \<Rightarrow> u8 \<Rightarrow> bytes \<Rightarrow> u16" where
  "ipv6_transport src dst protocol bytes =
     (let acc = sum_words 0 src;
          acc = sum_words acc dst;
          len = u32_to_be (word_of_nat (length bytes));
          acc = sum_words acc len;
          acc = acc + ucast protocol
      in csum_fold (sum_words acc bytes))"

definition ipv4_pseudo_header :: "bytes \<Rightarrow> bytes \<Rightarrow> u8 \<Rightarrow> usize \<Rightarrow> u16" where
  "ipv4_pseudo_header src dst protocol len =
     (let acc = sum_words 0 src;
          acc = sum_words acc dst;
          acc = acc + ucast protocol;
          acc = acc + word_of_nat len
      in fold_sum acc)"

definition ipv6_pseudo_header :: "bytes \<Rightarrow> bytes \<Rightarrow> u8 \<Rightarrow> usize \<Rightarrow> u16" where
  "ipv6_pseudo_header src dst protocol len =
     (let acc = sum_words 0 src;
          acc = sum_words acc dst;
          len = u32_to_be (word_of_nat len);
          acc = sum_words acc len;
          acc = acc + ucast protocol
      in fold_sum acc)"

section \<open>The one's-complement reference\<close>

fun wsum :: "bytes \<Rightarrow> nat" where
  "wsum (a # b # rest) = 256 * unat a + unat b + wsum rest"
| "wsum [a] = 256 * unat a"
| "wsum [] = 0"

definition oc :: "nat \<Rightarrow> nat" where
  "oc n = (if n = 0 then 0 else (n - 1) mod 65535 + 1)"

lemma oc_0 [simp]: "oc 0 = 0"
  by (simp add: oc_def)

lemma oc_le [simp]: "oc n \<le> 65535"
  by (simp add: oc_def Suc_le_eq)

lemma oc_mod: "oc n mod 65535 = n mod 65535"
proof (cases n)
  case (Suc m)
  have "Suc (m mod 65535) mod 65535 = Suc m mod 65535" by (rule mod_Suc_eq)
  with Suc show ?thesis by (simp add: oc_def)
qed simp

lemma oc_eq_0 [simp]: "oc n = 0 \<longleftrightarrow> n = 0"
  by (simp add: oc_def)

lemma oc_eq_max: "oc n = 65535 \<longleftrightarrow> 0 < n \<and> 65535 dvd n"
proof
  assume "oc n = 65535"
  then show "0 < n \<and> 65535 dvd n"
    using oc_mod [of n] by (auto simp: dvd_eq_mod_eq_0 oc_def split: if_splits)
next
  assume *: "0 < n \<and> 65535 dvd n"
  then have "oc n mod 65535 = 0" using oc_mod [of n] by (simp add: dvd_eq_mod_eq_0)
  moreover have "0 < oc n" using * by (auto simp: oc_def)
  ultimately show "oc n = 65535"
    using oc_le [of n] by (metis dvd_imp_le le_antisym mod_greater_zero_iff_not_dvd less_numeral_extra(3))
qed

lemma oc_small: "n \<le> 65535 \<Longrightarrow> oc n = n"
  by (cases n) (auto simp: oc_def)

lemma oc_cong:
  assumes "m mod 65535 = n mod 65535" and "m = 0 \<longleftrightarrow> n = 0"
  shows "oc m = oc n"
proof (cases "oc m = 65535 \<or> oc n = 65535")
  case True
  have "65535 dvd m \<longleftrightarrow> 65535 dvd n" using assms(1) by (simp only: dvd_eq_mod_eq_0)
  with True assms(2) show ?thesis by (metis oc_eq_max neq0_conv)
next
  case False
  then have "oc m < 65535" and "oc n < 65535"
    using oc_le [of m] oc_le [of n] by linarith+
  then show ?thesis using oc_mod [of m] oc_mod [of n] assms(1) by simp
qed

lemma wsum_append: "even (length xs) \<Longrightarrow> wsum (xs @ ys) = wsum xs + wsum ys"
  by (induction xs rule: wsum.induct) auto

lemma wsum_bound: "2 * wsum bs \<le> 65535 * (length bs + 1)"
proof (induction bs rule: wsum.induct)
  case (1 a b rest)
  have "256 * unat a + unat b \<le> 65535"
    using unat_u8_less [of a] unat_u8_less [of b] by linarith
  with 1 show ?case by simp
next
  case (2 a)
  have "256 * unat a \<le> 65535" using unat_u8_less [of a] by linarith
  then show ?case by simp
qed simp

lemma wsum_u16_to_be [simp]: "wsum (u16_to_be w) = unat w"
proof -
  have "wsum [a, b] = be_nat [a, b]" for a b :: u8 by simp
  then show ?thesis using be_nat_u16_to_be [of w] by (simp only: u16_to_be_pair)
qed

lemma wsum_zeros [simp]: "wsum (replicate n 0) = 0"
  by (induction n rule: induct_nat_012) auto

section \<open>The code computes the reference\<close>

lemma unat_be_pair: "unat (u16_from_be [a, b]) = 256 * unat a + unat b"
  by (simp add: unat_u16_from_be)

lemma unat_push8: "unat (push_bit 8 (ucast (a :: u8)) :: u32) = 256 * unat a"
proof -
  have "unat a < 256" by simp
  then have "256 * unat a < 4294967296" by linarith
  then show ?thesis by (simp add: push_bit_eq_mult unat_word_ariths mult.commute)
qed

lemma sum_words_wsum:
  "unat s + wsum bs < 4294967296 \<Longrightarrow> unat (sum_words s bs) = unat s + wsum bs"
proof (induction s bs rule: sum_words.induct)
  case (1 s a b rest)
  have pair: "unat (ucast (u16_from_be [a, b]) :: u32) = 256 * unat a + unat b"
    by (simp add: unat_be_pair)
  have "unat (s + ucast (u16_from_be [a, b])) = unat s + (256 * unat a + unat b)"
    using "1.prems" by (simp add: unat_word_ariths pair del: unat_ucast_widen)
  with 1 show ?case by simp
next
  case (2 s a)
  then show ?case by (simp add: unat_word_ariths unat_push8)
qed simp

text \<open>
  Folding a 32-bit sum terminates and computes the one's-complement representative: zero
  only for a zero sum, otherwise the residue modulo 65535 in 1..65535.
\<close>

theorem fold_sum_oc: "unat (fold_sum s) = oc (unat s)"
proof (induction s rule: fold_sum.induct)
  case (1 s)
  show ?case
  proof (cases "drop_bit 16 s = 0")
    case True
    then have "unat s < 65536" by (simp add: drop16_eq_0)
    with True show ?thesis by (subst fold_sum.simps) (simp add: unsigned_ucast_eq take_bit_eq_mod oc_small)
  next
    case False
    let ?t = "(s AND 0xffff) + drop_bit 16 s"
    have ge: "65536 \<le> unat s" using False by (simp add: drop16_eq_0)
    have "(unat s mod 65536 + unat s div 65536) mod 65535 = unat s mod 65535"
      using end_around_carry [of "unat s"] by (metis mod_mult_self2)
    then have "oc (unat ?t) = oc (unat s)"
      using ge by (intro oc_cong) (auto simp: unat_fold_step div_eq_0_iff)
    with False 1 show ?thesis by (subst fold_sum.simps) simp
  qed
qed

lemma unat_csum_fold: "unat (csum_fold s) = 65535 - oc (unat s)"
proof -
  have "NOT w = - 1 - w" for w :: u16 by (simp add: not_eq_complement)
  moreover have "unat (- 1 - w) = 65535 - unat w" for w :: u16
    by (subst unat_sub) (simp_all add: unsigned_minus_1_eq_mask mask_eq_exp_minus_1)
  ultimately show ?thesis by (simp add: csum_fold_def fold_sum_oc)
qed

section \<open>What a checksum over a slice promises\<close>

text \<open>
  \<open>csum p bs\<close> covers the slice \<open>bs\<close> and a context \<open>p\<close> (nothing, or the addresses and protocol
  of a pseudo header) whose word sum is \<open>seed p (length bs)\<close>.
\<close>

locale internet_checksum =
  fixes csum :: "'p \<Rightarrow> bytes \<Rightarrow> u16"
    and seed :: "'p \<Rightarrow> nat \<Rightarrow> nat"
    and valid :: "'p \<Rightarrow> bool"
  assumes csum_eq: "valid p \<Longrightarrow> length bs \<le> 65535 \<Longrightarrow>
      unat (csum p bs) = 65535 - oc (seed p (length bs) + wsum bs)"
begin

lemma verifies_iff:
  assumes "valid p" and "length bs \<le> 65535"
  shows "csum p bs = 0 \<longleftrightarrow>
    0 < seed p (length bs) + wsum bs \<and> 65535 dvd seed p (length bs) + wsum bs"
proof -
  have "csum p bs = 0 \<longleftrightarrow> oc (seed p (length bs) + wsum bs) = 65535"
    using csum_eq [OF assms] oc_le [of "seed p (length bs) + wsum bs"]
    by (metis diff_self_eq_0 diff_is_0_eq le_antisym unat_eq_zero)
  then show ?thesis by (simp add: oc_eq_max)
qed

end

lemma wsum_store:
  assumes "even i" and "i + 2 \<le> length bs" and "subslice i (i + 2) bs = [0, 0]"
  shows "wsum (copy_at i (u16_to_be c) bs) = wsum bs + unat c"
proof -
  have split: "bs = take i bs @ [0, 0] @ drop (i + 2) bs"
    using split_slice [of i "i + 2" bs] assms by simp
  have even: "even (length (take i bs))" using assms by (simp add: min_absorb2)
  have "wsum bs = wsum (take i bs) + wsum (drop (i + 2) bs)"
    by (subst split) (simp add: wsum_append [OF even])
  then show ?thesis
    by (simp add: copy_at_def wsum_append [OF even] wsum_append [of "u16_to_be c"])
qed

lemma oc_complement_dvd:
  "0 < n + (65535 - oc n) \<and> 65535 dvd n + (65535 - oc n)"
proof
  show "0 < n + (65535 - oc n)" by (cases n) auto
  have "n + (65535 - oc n) + oc n = n + 65535" using oc_le [of n] by linarith
  then have "(n + (65535 - oc n) + oc n) mod 65535 = oc n mod 65535"
    by (simp only: oc_mod mod_add_self2)
  then show "65535 dvd n + (65535 - oc n)"
    by (metis add.commute add_diff_cancel_left' mod_eq_dvd_iff_nat le_add2)
qed

context internet_checksum
begin

text \<open>Storing the checksum of a slice with a zeroed field makes the slice verify.\<close>

lemma stored_verifies:
  assumes "valid p" and "length bs \<le> 65535" and "even i" and "i + 2 \<le> length bs"
    and "subslice i (i + 2) bs = [0, 0]"
  shows "csum p (copy_at i (u16_to_be (csum p bs)) bs) = 0"
  using assms oc_complement_dvd [of "seed p (length bs) + wsum bs"]
  by (simp add: verifies_iff wsum_store csum_eq add.assoc)

text \<open>So does storing all ones in place of a computed zero.\<close>

lemma stored_ones_verifies:
  assumes "valid p" and "length bs \<le> 65535" and "even i" and "i + 2 \<le> length bs"
    and "subslice i (i + 2) bs = [0, 0]" and "csum p bs = 0"
  shows "csum p (copy_at i (u16_to_be 0xffff) bs) = 0"
  using assms verifies_iff [of p bs]
  by (simp add: verifies_iff wsum_store) (metis add.assoc dvd_add dvd_refl)

end

section \<open>The three checksums of the crate\<close>

definition v4_seed :: "bytes \<times> bytes \<times> u8 \<Rightarrow> nat \<Rightarrow> nat" where
  "v4_seed = (\<lambda>(src, dst, protocol) n. wsum src + wsum dst + unat protocol + n)"

definition v4_context :: "bytes \<times> bytes \<times> u8 \<Rightarrow> bool" where
  "v4_context = (\<lambda>(src, dst, protocol). length src = 4 \<and> length dst = 4)"

definition v6_seed :: "bytes \<times> bytes \<times> u8 \<Rightarrow> nat \<Rightarrow> nat" where
  "v6_seed = (\<lambda>(src, dst, protocol) n. wsum src + wsum dst + n + unat protocol)"

definition v6_context :: "bytes \<times> bytes \<times> u8 \<Rightarrow> bool" where
  "v6_context = (\<lambda>(src, dst, protocol). length src = 16 \<and> length dst = 16)"

lemma wsum_len_be: "n \<le> 65535 \<Longrightarrow> wsum (u32_to_be (word_of_nat n)) = n"
proof -
  assume n: "n \<le> 65535"
  have "to_be (Suc (Suc (Suc (Suc 0)))) n = [0, 0, word_of_nat (n div 256), word_of_nat n]"
    using n by simp
  moreover have "Suc (Suc (Suc (Suc 0))) = 4" by simp
  ultimately have "to_be 4 n = [0, 0, word_of_nat (n div 256), word_of_nat n]" by metis
  then show ?thesis using n by (simp add: u32_to_be_def unat_of_nat)
qed

lemma wsum_addr4: "length a = 4 \<Longrightarrow> wsum a \<le> 196605"
  using wsum_bound [of a] by simp

lemma wsum_addr16: "length a = 16 \<Longrightarrow> wsum a \<le> 557047"
  using wsum_bound [of a] by simp

lemma wsum_slice_bound: "length bs \<le> 65535 \<Longrightarrow> wsum bs \<le> 2147450880"
  using wsum_bound [of bs] by simp

lemma unat_v4_pseudo:
  assumes "length src = 4" and "length dst = 4" and "n \<le> 65535"
  shows "unat (sum_words (sum_words 0 src) dst + ucast protocol + word_of_nat n)
     = v4_seed (src, dst, protocol) n"
proof -
  note bounds = wsum_addr4 [OF assms(1)] wsum_addr4 [OF assms(2)] assms(3) unat_u8_le [of protocol]
  have "unat (sum_words (sum_words 0 src) dst) = wsum src + wsum dst"
    using bounds by (simp add: sum_words_wsum)
  then show ?thesis using bounds by (simp add: v4_seed_def unat_word_ariths unat_of_nat)
qed

lemma unat_v6_pseudo:
  assumes "length src = 16" and "length dst = 16" and "n \<le> 65535"
  shows "unat (sum_words (sum_words (sum_words 0 src) dst) (u32_to_be (word_of_nat n)) + ucast protocol)
     = v6_seed (src, dst, protocol) n"
proof -
  note bounds = wsum_addr16 [OF assms(1)] wsum_addr16 [OF assms(2)] assms(3) unat_u8_le [of protocol]
  have "unat (sum_words (sum_words (sum_words 0 src) dst) (u32_to_be (word_of_nat n)))
      = wsum src + wsum dst + n"
    using bounds by (simp add: sum_words_wsum wsum_len_be)
  then show ?thesis using bounds by (simp add: v6_seed_def unat_word_ariths)
qed

lemma v4_seed_bound: "v4_context p \<Longrightarrow> n \<le> 65535 \<Longrightarrow> v4_seed p n \<le> 2000000"
  using wsum_addr4 [of "fst p"] wsum_addr4 [of "fst (snd p)"] unat_u8_le [of "snd (snd p)"]
  by (cases p) (simp add: v4_context_def v4_seed_def)

lemma v6_seed_bound: "v6_context p \<Longrightarrow> n \<le> 65535 \<Longrightarrow> v6_seed p n \<le> 2000000"
  using wsum_addr16 [of "fst p"] wsum_addr16 [of "fst (snd p)"] unat_u8_le [of "snd (snd p)"]
  by (cases p) (simp add: v6_context_def v6_seed_def)

lemma fold_from_seed:
  "unat s = n \<Longrightarrow> n \<le> 2000000 \<Longrightarrow> length bs \<le> 65535 \<Longrightarrow>
     unat (csum_fold (sum_words s bs)) = 65535 - oc (n + wsum bs)"
  using wsum_slice_bound [of bs] by (simp add: unat_csum_fold sum_words_wsum)

interpretation plain_csum: internet_checksum "\<lambda>_ :: unit. checksum" "\<lambda>_ _. 0" "\<lambda>_. True"
  by unfold_locales (simp add: checksum_def fold_from_seed [where n = 0, simplified])

interpretation v4_csum: internet_checksum
  "\<lambda>(src, dst, protocol). ipv4_transport src dst protocol" v4_seed v4_context
proof
  fix p :: "bytes \<times> bytes \<times> u8" and bs :: bytes
  assume p: "v4_context p" and bs: "length bs \<le> 65535"
  show "unat ((case p of (src, dst, protocol) \<Rightarrow> ipv4_transport src dst protocol) bs)
      = 65535 - oc (v4_seed p (length bs) + wsum bs)"
    using p bs v4_seed_bound [OF p bs]
    by (cases p) (simp add: ipv4_transport_def Let_def v4_context_def fold_from_seed unat_v4_pseudo)
qed

interpretation v6_csum: internet_checksum
  "\<lambda>(src, dst, protocol). ipv6_transport src dst protocol" v6_seed v6_context
proof
  fix p :: "bytes \<times> bytes \<times> u8" and bs :: bytes
  assume p: "v6_context p" and bs: "length bs \<le> 65535"
  show "unat ((case p of (src, dst, protocol) \<Rightarrow> ipv6_transport src dst protocol) bs)
      = 65535 - oc (v6_seed p (length bs) + wsum bs)"
    using p bs v6_seed_bound [OF p bs]
    by (cases p) (simp add: ipv6_transport_def Let_def v6_context_def fold_from_seed unat_v6_pseudo)
qed

lemma unat_ipv4_pseudo_header:
  "length src = 4 \<Longrightarrow> length dst = 4 \<Longrightarrow> n \<le> 65535 \<Longrightarrow>
     unat (ipv4_pseudo_header src dst protocol n) = oc (v4_seed (src, dst, protocol) n)"
  by (simp add: ipv4_pseudo_header_def Let_def fold_sum_oc unat_v4_pseudo)

lemma unat_ipv6_pseudo_header:
  "length src = 16 \<Longrightarrow> length dst = 16 \<Longrightarrow> n \<le> 65535 \<Longrightarrow>
     unat (ipv6_pseudo_header src dst protocol n) = oc (v6_seed (src, dst, protocol) n)"
  by (simp add: ipv6_pseudo_header_def Let_def fold_sum_oc unat_v6_pseudo)

section \<open>Completing a partial checksum\<close>

text \<open>
  A segment whose checksum field holds the folded pseudo-header sum \<open>seed16\<close> is completed by
  storing the plain checksum of that segment. \<open>bs\<close> is the segment with a zeroed field.
\<close>

context internet_checksum
begin

lemma completed_verifies:
  assumes "valid p" and "length bs \<le> 65535" and "even i" and "i + 2 \<le> length bs"
    and "subslice i (i + 2) bs = [0, 0]" and seed16: "unat seed16 = oc (seed p (length bs))"
  shows "csum p (copy_at i (u16_to_be (checksum (copy_at i (u16_to_be seed16) bs))) bs) = 0"
proof -
  let ?c = "checksum (copy_at i (u16_to_be seed16) bs)" and ?n = "seed p (length bs)"
  have c: "unat ?c = 65535 - oc (wsum bs + oc ?n)"
    using plain_csum.csum_eq [of "copy_at i (u16_to_be seed16) bs"] assms
    by (simp add: wsum_store)
  have "(wsum bs + oc ?n) mod 65535 = (wsum bs + ?n) mod 65535"
    by (rule mod_add_cong [OF refl oc_mod])
  then have "oc (wsum bs + oc ?n) = oc (?n + wsum bs)"
    by (intro oc_cong) (simp_all only: add.commute add_is_0 oc_eq_0 conj_commute)
  then have "unat ?c = 65535 - oc (?n + wsum bs)" by (simp add: c)
  then show ?thesis
    using assms oc_complement_dvd [of "?n + wsum bs"]
    by (simp add: verifies_iff wsum_store add.assoc)
qed

end

end
