(* ===== verification/Ethernet.thy ===== *)
theory Ethernet
  imports Checksum
begin

text \<open>
  The packet crate's error type (\<open>crates/packet/src/lib.rs\<close>) and Ethernet II framing
  (\<open>crates/packet/src/ethernet.rs\<close>): EtherType conversion, the header parser with its field
  accessors, and the header writer. A writer over \<open>&mut [u8]\<close> returns its result and the
  buffer it leaves behind.
\<close>

datatype packet_error = Truncated | InvalidLength | Unsupported | InvalidChecksum | ProtocolMismatch

type_synonym 'a writer = "bytes \<Rightarrow> (packet_error + 'a) \<times> bytes"

definition ETHERNET_HEADER_LEN :: usize where
  "ETHERNET_HEADER_LEN = 14"

type_synonym mac_address = bytes

datatype ether_type = Ipv4 | Arp | Ipv6 | Other u16

definition ether_type_from_raw :: "u16 \<Rightarrow> ether_type" where
  "ether_type_from_raw value =
     (if value = 0x0800 then Ipv4 else if value = 0x0806 then Arp
      else if value = 0x86dd then Ipv6 else Other value)"

fun ether_type_raw :: "ether_type \<Rightarrow> u16" where
  "ether_type_raw Ipv4 = 0x0800"
| "ether_type_raw Arp = 0x0806"
| "ether_type_raw Ipv6 = 0x86dd"
| "ether_type_raw (Other value) = value"

record ethernet_frame =
  eth_bytes :: bytes

definition eth_parse :: "bytes \<Rightarrow> packet_error + ethernet_frame" where
  "eth_parse bytes =
     (if length bytes < ETHERNET_HEADER_LEN then Inl Truncated else Inr \<lparr>eth_bytes = bytes\<rparr>)"

definition eth_destination :: "ethernet_frame \<Rightarrow> mac_address" where
  "eth_destination f = subslice 0 6 (eth_bytes f)"

definition eth_source :: "ethernet_frame \<Rightarrow> mac_address" where
  "eth_source f = subslice 6 12 (eth_bytes f)"

definition eth_ether_type :: "ethernet_frame \<Rightarrow> ether_type" where
  "eth_ether_type f = ether_type_from_raw (be16_at (eth_bytes f) 12)"

definition eth_payload :: "ethernet_frame \<Rightarrow> bytes" where
  "eth_payload f = drop ETHERNET_HEADER_LEN (eth_bytes f)"

definition eth_write_header :: "mac_address \<Rightarrow> mac_address \<Rightarrow> ether_type \<Rightarrow> unit writer" where
  "eth_write_header destination source ether_type out =
     (if length out < ETHERNET_HEADER_LEN then (Inl Truncated, out)
      else let out = copy_at 0 destination out;
               out = copy_at 6 source out;
               out = copy_at 12 (u16_to_be (ether_type_raw ether_type)) out
           in (Inr (), out))"

section \<open>Conversions and framing\<close>

lemma raw_from_raw [simp]: "ether_type_raw (ether_type_from_raw v) = v"
  by (simp add: ether_type_from_raw_def)

lemma from_raw_raw [simp]: "t \<in> {Ipv4, Arp, Ipv6} \<Longrightarrow> ether_type_from_raw (ether_type_raw t) = t"
  by (auto simp: ether_type_from_raw_def)

text \<open>
  A written header is read back, the rest of the buffer is untouched, and the buffer keeps its
  length.
\<close>

lemma eth_write_ok:
  assumes "length out \<ge> 14" and "length d = 6" and "length s = 6"
  obtains out' where "eth_write_header d s t out = (Inr (), out')"
    and "length out' = length out" and "drop 14 out' = drop 14 out"
    and "subslice 0 6 out' = d" and "subslice 6 12 out' = s" and "be16_at out' 12 = ether_type_raw t"
proof
  let ?out' = "copy_at 12 (u16_to_be (ether_type_raw t)) (copy_at 6 s (copy_at 0 d out))"
  show "eth_write_header d s t out = (Inr (), ?out')"
    using assms by (simp add: eth_write_header_def ETHERNET_HEADER_LEN_def)
qed (use assms in \<open>simp_all add: field_simps_rw\<close>)

lemma eth_write_short:
  "length out < 14 \<Longrightarrow> eth_write_header d s t out = (Inl Truncated, out)"
  by (simp add: eth_write_header_def ETHERNET_HEADER_LEN_def)

lemma eth_parse_Inr_iff: "eth_parse bs = Inr f \<longleftrightarrow> 14 \<le> length bs \<and> f = \<lparr>eth_bytes = bs\<rparr>"
  by (auto simp: eth_parse_def ETHERNET_HEADER_LEN_def)

end
