(* ===== verification/Vnet.thy ===== *)
theory Vnet
  imports Ethernet
begin

text \<open>
  The \<open>virtio_net_hdr\<close> prefix of TAP frames (\<open>crates/packet/src/vnet.rs\<close>). The header is in the
  byte order of the machine, the parameter \<open>big\<close>.
\<close>

section \<open>The code\<close>

definition VNET_HEADER_LEN :: usize where "VNET_HEADER_LEN = 10"
definition FLAG_NEEDS_CSUM :: u8 where "FLAG_NEEDS_CSUM = 1"
definition FLAG_DATA_VALID :: u8 where "FLAG_DATA_VALID = 2"
definition GSO_NONE :: u8 where "GSO_NONE = 0"
definition GSO_TCPV4 :: u8 where "GSO_TCPV4 = 1"
definition GSO_TCPV6 :: u8 where "GSO_TCPV6 = 4"

record vnet_header =
  vn_flags :: u8
  vn_gso_type :: u8
  vn_hdr_len :: u16
  vn_gso_size :: u16
  vn_csum_start :: u16
  vn_csum_offset :: u16

definition vnet_parse :: "bool \<Rightarrow> bytes \<Rightarrow> packet_error + vnet_header" where
  "vnet_parse big bytes =
     (if length bytes < VNET_HEADER_LEN then Inl Truncated
      else Inr \<lparr>vn_flags = bytes ! 0, vn_gso_type = bytes ! 1,
                vn_hdr_len = u16_from_ne big [bytes ! 2, bytes ! 3],
                vn_gso_size = u16_from_ne big [bytes ! 4, bytes ! 5],
                vn_csum_start = u16_from_ne big [bytes ! 6, bytes ! 7],
                vn_csum_offset = u16_from_ne big [bytes ! 8, bytes ! 9]\<rparr>)"

definition vnet_write :: "bool \<Rightarrow> vnet_header \<Rightarrow> unit writer" where
  "vnet_write big h out =
     (if length out < VNET_HEADER_LEN then (Inl Truncated, out)
      else
        let out = out[0 := vn_flags h];
            out = out[1 := vn_gso_type h];
            out = copy_at 2 (u16_to_ne big (vn_hdr_len h)) out;
            out = copy_at 4 (u16_to_ne big (vn_gso_size h)) out;
            out = copy_at 6 (u16_to_ne big (vn_csum_start h)) out;
            out = copy_at 8 (u16_to_ne big (vn_csum_offset h)) out
        in (Inr (), out))"

definition vnet_is_plain :: "vnet_header \<Rightarrow> bool" where
  "vnet_is_plain h \<longleftrightarrow> vn_gso_type h = GSO_NONE \<and> vn_flags h AND NOT FLAG_DATA_VALID = 0"

section \<open>Round trip\<close>

lemma ne_pair: "i + 2 \<le> length out \<Longrightarrow>
    u16_from_ne big [out ! i, out ! (i + 1)] = u16_from_ne big (subslice i (i + 2) out)"
  using slice_pair [of i out] by simp

text \<open>
  A virtio header written in front of a frame parses back to the same header on a machine of
  either byte order, the frame after it is untouched, and a header counts as plain exactly when
  it carries no segmentation and no flag other than \<open>DATA_VALID\<close>.
\<close>

theorem vnet_roundtrip:
  assumes "10 \<le> length out"
  shows "\<exists>out'. vnet_write big h out = (Inr (), out') \<and> vnet_parse big out' = Inr h \<and>
     drop 10 out' = drop 10 out \<and>
     (vnet_is_plain h \<longleftrightarrow> vn_gso_type h = 0 \<and> (vn_flags h = 0 \<or> vn_flags h = FLAG_DATA_VALID))"
proof -
  let ?a = "out[0 := vn_flags h, 1 := vn_gso_type h]"
  let ?b = "copy_at 4 (u16_to_ne big (vn_gso_size h)) (copy_at 2 (u16_to_ne big (vn_hdr_len h)) ?a)"
  let ?out' = "copy_at 8 (u16_to_ne big (vn_csum_offset h)) (copy_at 6 (u16_to_ne big (vn_csum_start h)) ?b)"
  have w: "vnet_write big h out = (Inr (), ?out')"
    using assms by (simp add: vnet_write_def VNET_HEADER_LEN_def)
  have ne: "out \<noteq> []" and l: "length ?out' = length out" using assms by auto
  have "u16_from_ne big [?out' ! 2, ?out' ! 3] = vn_hdr_len h"
    "u16_from_ne big [?out' ! 4, ?out' ! 5] = vn_gso_size h"
    "u16_from_ne big [?out' ! 6, ?out' ! 7] = vn_csum_start h"
    "u16_from_ne big [?out' ! 8, ?out' ! 9] = vn_csum_offset h"
    using ne_pair [of 2 ?out'] ne_pair [of 4 ?out'] ne_pair [of 6 ?out'] ne_pair [of 8 ?out'] assms l
    by (simp_all add: slice_copy_same slice_copy_before)
  moreover have "?out' ! 0 = vn_flags h" "?out' ! 1 = vn_gso_type h"
    using assms ne by (simp_all add: field_simps_rw)
  ultimately have "vnet_parse big ?out' = Inr h"
    using l assms by (simp add: vnet_parse_def VNET_HEADER_LEN_def)
  moreover have "drop 10 ?out' = drop 10 out" using assms by (simp add: field_simps_rw)
  moreover have "f AND NOT FLAG_DATA_VALID = 0 \<longleftrightarrow> f = 0 \<or> f = FLAG_DATA_VALID" for f :: u8
  proof -
    have "f AND NOT 2 = 0 \<Longrightarrow> f = f AND 2"
      by (metis and.right_neutral bit.conj_cancel_right bit.disj_cancel_right bit.conj_disj_distrib or.right_neutral)
    moreover have "f AND 2 = (if bit f 1 then 2 else 0)"
      by (rule bit_word_eqI) (auto simp: bit_and_iff bit_2_iff)
    ultimately show ?thesis unfolding FLAG_DATA_VALID_def by (auto split: if_splits)
  qed
  ultimately show ?thesis using w by (auto simp: vnet_is_plain_def GSO_NONE_def)
qed

theorem vnet_roundtrip_witness:
  "\<exists>out'. vnet_write False \<lparr>vn_flags = 1, vn_gso_type = 1, vn_hdr_len = 54, vn_gso_size = 1460,
       vn_csum_start = 34, vn_csum_offset = 16\<rparr> (replicate 12 3) = (Inr (), out') \<and>
     vnet_parse False out' = Inr \<lparr>vn_flags = 1, vn_gso_type = 1, vn_hdr_len = 54, vn_gso_size = 1460,
       vn_csum_start = 34, vn_csum_offset = 16\<rparr>"
  using vnet_roundtrip [of "replicate 12 3" False "\<lparr>vn_flags = 1, vn_gso_type = 1, vn_hdr_len = 54,
      vn_gso_size = 1460, vn_csum_start = 34, vn_csum_offset = 16\<rparr>"]
  by simp blast

end
