(* ===== verification/Reactor_Config.thy ===== *)
theory Reactor_Config
  imports Flow Proxy_Handshake Ethernet Vnet
begin

text \<open>
  The configuration of a data-plane worker and what it decides on its own, from
  \<open>crates/dataplane/src/reactor.rs\<close>: the buffer sizes computed by \<open>Reactor::new\<close>, the choice of the
  transport peer and of the proxy handshake for a new connection, DNS interception, and the
  options negotiated with the namespace's SYN. IP addresses are their octets. Panics of the source
  (\<open>expect\<close>, division by zero) are \<open>None\<close>.
\<close>

section \<open>Constants and configuration\<close>

definition TAP_FRAME_POOL_BYTES :: usize where "TAP_FRAME_POOL_BYTES = 16 * 1024 * 1024"
definition TAP_FRAME_POOL_MAX_FRAMES :: usize where "TAP_FRAME_POOL_MAX_FRAMES = 4096"
definition TAP_GSO_POOL_BYTES :: usize where "TAP_GSO_POOL_BYTES = 4 * 1024 * 1024"
definition GSO_MAX_L3_BYTES :: usize where "GSO_MAX_L3_BYTES = 65535"
definition WINDOW_SCALE_SHIFT :: u8 where "WINDOW_SCALE_SHIFT = 7"
definition MAX_PEER_WINDOW_SHIFT :: u8 where "MAX_PEER_WINDOW_SHIFT = 14"

datatype upstream = Direct bool | Proxy protocol socket_addr "credentials option"

record reactor_config =
  target_mac :: bytes
  gateway_mac :: bytes
  target_ipv4 :: "bytes option"
  gateway_ipv4 :: "bytes option"
  target_ipv6 :: "bytes option"
  gateway_ipv6 :: "bytes option"
  tap_mtu :: u32
  tap_offload :: bool
  upstream_of :: upstream
  dns_proxy_tcp :: bool
  dns_proxy_udp :: bool
  dns_upstream :: "socket_addr option"
  max_tcp_flows :: usize
  udp_enabled :: bool
  max_udp_flows :: usize
  max_udp_associations :: usize
  worker_count :: usize
  max_pending_tcp_bytes :: usize
  max_retained_tcp_bytes :: usize
  tcp_receive_buffer_bytes :: usize
  tcp_send_buffer_bytes :: usize

section \<open>Buffer sizes\<close>

definition vnet_len_of :: "reactor_config \<Rightarrow> usize" where
  "vnet_len_of c = (if tap_offload c then VNET_HEADER_LEN else 0)"

definition frame_capacity :: "reactor_config \<Rightarrow> usize option" where
  "frame_capacity c = checked_add_usize (unat (tap_mtu c)) (ETHERNET_HEADER_LEN + vnet_len_of c)"

definition frame_pool_frames :: "reactor_config \<Rightarrow> usize \<Rightarrow> usize option" where
  "frame_pool_frames c capacity =
     (if worker_count c = 0 \<or> capacity = 0 then None
      else let worker_pool_bytes = TAP_FRAME_POOL_BYTES div worker_count c
           in Some (max 1 (min (worker_pool_bytes div capacity) TAP_FRAME_POOL_MAX_FRAMES)))"

definition gso_frame_capacity :: "reactor_config \<Rightarrow> usize" where
  "gso_frame_capacity c = vnet_len_of c + ETHERNET_HEADER_LEN + GSO_MAX_L3_BYTES"

definition gso_pool_frames :: "reactor_config \<Rightarrow> usize option" where
  "gso_pool_frames c =
     (if \<not> tap_offload c then Some 0
      else if worker_count c = 0 then None
      else Some (max 1 (TAP_GSO_POOL_BYTES div worker_count c div gso_frame_capacity c)))"

definition tap_rx_capacity :: "reactor_config \<Rightarrow> usize \<Rightarrow> usize" where
  "tap_rx_capacity c capacity = (if tap_offload c then gso_frame_capacity c else capacity)"

section \<open>Routing\<close>

definition dns_proxy_tcp_intercepts :: "reactor_config \<Rightarrow> socket_addr \<Rightarrow> bool" where
  "dns_proxy_tcp_intercepts c t =
     (if \<not> dns_proxy_tcp c \<or> addr_port t \<noteq> 53 then False
      else case t of AddrV4 ip port \<Rightarrow> Some ip = gateway_ipv4 c
                   | AddrV6 ip port fl sc \<Rightarrow> Some ip = gateway_ipv6 c)"

definition dns_proxy_udp_intercepts :: "reactor_config \<Rightarrow> socket_addr \<Rightarrow> bool" where
  "dns_proxy_udp_intercepts c t =
     (if \<not> dns_proxy_udp c \<or> addr_port t \<noteq> 53 then False
      else case t of AddrV4 ip port \<Rightarrow> Some ip = gateway_ipv4 c
                   | AddrV6 ip port fl sc \<Rightarrow> Some ip = gateway_ipv6 c)"

text \<open>
  The destination a namespace SYN stands for (\<open>handle_tcp\<close>): intercepted DNS is retargeted at the
  resolver, or refused (\<open>None\<close>) when none is configured.
\<close>

definition logical_target :: "reactor_config \<Rightarrow> socket_addr \<Rightarrow> socket_addr option" where
  "logical_target c t = (if dns_proxy_tcp_intercepts c t then dns_upstream c else Some t)"

definition ipv4_localhost :: bytes where "ipv4_localhost = [127, 0, 0, 1]"
definition ipv6_localhost :: bytes where "ipv6_localhost = replicate 15 0 @ [1]"

definition route_target :: "reactor_config \<Rightarrow> socket_addr \<Rightarrow> flow_interface \<times> socket_addr" where
  "route_target c logical =
     (case upstream_of c of
        Proxy pr address cr \<Rightarrow> (ProxyTunnel, address)
      | Direct False \<Rightarrow> (HostSocket, logical)
      | Direct True \<Rightarrow>
          (HostSocket,
           case logical of
             AddrV4 ip port \<Rightarrow> if Some ip = gateway_ipv4 c then AddrV4 ipv4_localhost port else logical
           | AddrV6 ip port fl sc \<Rightarrow>
               if Some ip = gateway_ipv6 c then AddrV6 ipv6_localhost port 0 0 else logical))"

text \<open>The outer \<open>option\<close> is the panic of \<open>expect\<close>.\<close>

definition proxy_handshake :: "(bytes \<Rightarrow> bytes) \<Rightarrow> reactor_config \<Rightarrow> socket_addr \<Rightarrow> handshake option option" where
  "proxy_handshake base64 c logical =
     (case upstream_of c of
        Direct lb \<Rightarrow> Some None
      | Proxy pr address cr \<Rightarrow>
          (case handshake_new base64 pr Connect logical cr of Inl e \<Rightarrow> None | Inr h \<Rightarrow> Some (Some h)))"

section \<open>Options of a new connection\<close>

definition u16_try_from_u32 :: "u32 \<Rightarrow> u16 option" where
  "u16_try_from_u32 w = (if unat w < 65536 then Some (ucast w) else None)"

definition default_mss :: "reactor_config \<Rightarrow> socket_addr \<Rightarrow> u16 option" where
  "default_mss c t = (let ip_overhead = (if is_ipv4 t then 40 else 60)
     in u16_try_from_u32 (saturating_sub (tap_mtu c) ip_overhead))"

definition negotiated_mss :: "u16 \<Rightarrow> u16 option \<Rightarrow> u16" where
  "negotiated_mss local_mss offered =
     min (case offered of None \<Rightarrow> local_mss | Some m \<Rightarrow> if 536 \<le> m then m else local_mss) local_mss"

definition window_shifts :: "u8 option \<Rightarrow> u8 \<times> u8" where
  "window_shifts offered =
     (case offered of Some shift \<Rightarrow> (min shift MAX_PEER_WINDOW_SHIFT, WINDOW_SCALE_SHIFT) | None \<Rightarrow> (0, 0))"

section \<open>Facts\<close>

lemma proxy_handshake_defined: "proxy_handshake base64 c logical \<noteq> None"
  by (auto simp: proxy_handshake_def handshake_new_def Let_def split: upstream.split protocol.split)

lemma default_mss_defined:
  assumes "1280 \<le> tap_mtu c" "tap_mtu c \<le> 65520"
  shows "\<exists>m. default_mss c t = Some m \<and> unat m = unat (tap_mtu c) - (if is_ipv4 t then 40 else 60) \<and> 1220 \<le> unat m"
proof -
  let ?o = "if is_ipv4 t then 40 else 60 :: u32" and ?n = "if is_ipv4 t then 40 else 60 :: nat"
  have mtu: "1280 \<le> unat (tap_mtu c)" "unat (tap_mtu c) \<le> 65520"
    using assms by (simp_all add: word_le_nat_alt)
  have s: "unat (saturating_sub (tap_mtu c) ?o) = unat (tap_mtu c) - ?n"
    by (simp add: unat_saturating_sub)
  then have "unat (saturating_sub (tap_mtu c) ?o) < 65536"
    using mtu by simp
  moreover from this have "unat (ucast (saturating_sub (tap_mtu c) ?o) :: u16) = unat (tap_mtu c) - ?n"
    by (simp only: unsigned_ucast_eq) (simp add: s take_bit_nat_eq_self)
  ultimately show ?thesis
    using mtu by (auto simp: default_mss_def u16_try_from_u32_def Let_def split: if_splits)
qed

lemma frame_capacity_defined:
  "\<exists>n. frame_capacity c = Some n \<and> unat (tap_mtu c) + ETHERNET_HEADER_LEN \<le> n \<and> n \<le> unat (tap_mtu c) + 24 \<and> 0 < n"
proof -
  have "unat (tap_mtu c) < 18446744073709551592"
    using unat_u32_less [of "tap_mtu c"] by linarith
  then show ?thesis
    by (auto simp: frame_capacity_def checked_add_usize_def ETHERNET_HEADER_LEN_def vnet_len_of_def VNET_HEADER_LEN_def)
qed

lemma frame_pool_budget:
  assumes "frame_pool_frames c n = Some k" "k \<noteq> 1"
  shows "k * n \<le> TAP_FRAME_POOL_BYTES div worker_count c"
proof -
  have "k \<le> TAP_FRAME_POOL_BYTES div worker_count c div n"
    using assms by (auto simp: frame_pool_frames_def Let_def split: if_splits)
  then have "k * n \<le> TAP_FRAME_POOL_BYTES div worker_count c div n * n"
    by (rule mult_le_mono1)
  also have "\<dots> \<le> TAP_FRAME_POOL_BYTES div worker_count c"
    by simp
  finally show ?thesis .
qed

section \<open>Properties\<close>

text \<open>
  Where \<open>route_target\<close> sends a target: with a proxy upstream to the proxy's address, and then
  \<open>proxy_handshake\<close> yields a handshake for the target; without one to the target itself, except that
  the gateway of either family stands for the host's loopback address when, and only when, that was
  asked for.
\<close>

theorem routing_respects_upstream:
  "case upstream_of c of
     Proxy pr address cr \<Rightarrow> route_target c t = (ProxyTunnel, address) \<and>
       (\<exists>h. proxy_handshake base64 c t = Some (Some h) \<and> hs_target h = t \<and> hs_credentials h = cr \<and> writing h)
   | Direct host_loopback \<Rightarrow> proxy_handshake base64 c t = Some None \<and>
       fst (route_target c t) = HostSocket \<and>
       (snd (route_target c t) \<noteq> t \<longrightarrow> host_loopback \<and>
          (case t of AddrV4 ip port \<Rightarrow> Some ip = gateway_ipv4 c \<and> snd (route_target c t) = AddrV4 ipv4_localhost port
           | AddrV6 ip port fl sc \<Rightarrow> Some ip = gateway_ipv6 c \<and> snd (route_target c t) = AddrV6 ipv6_localhost port 0 0)) \<and>
       (host_loopback \<and> is_ipv4 t \<and> Some (ip_octets t) = gateway_ipv4 c \<longrightarrow>
          snd (route_target c t) = AddrV4 ipv4_localhost (addr_port t)) \<and>
       (host_loopback \<and> \<not> is_ipv4 t \<and> Some (ip_octets t) = gateway_ipv6 c \<longrightarrow>
          snd (route_target c t) = AddrV6 ipv6_localhost (addr_port t) 0 0)"
  by (cases "upstream_of c"; cases t)
    (auto simp: route_target_def proxy_handshake_def handshake_new_def Let_def writing_def
      split: protocol.split bool.splits if_splits)

definition sample_config :: reactor_config where
  "sample_config = \<lparr>target_mac = [2, 0x79, 0x61, 0x79, 0x61, 2], gateway_mac = [2, 0x79, 0x61, 0x79, 0x61, 1],
     target_ipv4 = Some [192, 0, 2, 2], gateway_ipv4 = Some [192, 0, 2, 1], target_ipv6 = None, gateway_ipv6 = None,
     tap_mtu = 32000, tap_offload = True, upstream_of = Direct True, dns_proxy_tcp = False, dns_proxy_udp = False,
     dns_upstream = None, max_tcp_flows = 4, udp_enabled = True, max_udp_flows = 4, max_udp_associations = 4,
     worker_count = 1, max_pending_tcp_bytes = 65536, max_retained_tcp_bytes = 65536,
     tcp_receive_buffer_bytes = 65536, tcp_send_buffer_bytes = 65536\<rparr>"

theorem routing_respects_upstream_witness:
  "snd (route_target sample_config (AddrV4 [192, 0, 2, 1] 80)) = AddrV4 [127, 0, 0, 1] 80"
proof -
  have "upstream_of sample_config = Direct True" "gateway_ipv4 sample_config = Some [192, 0, 2, 1]"
    by (simp_all add: sample_config_def)
  then show ?thesis
    using routing_respects_upstream [where c = sample_config and t = "AddrV4 [192, 0, 2, 1] 80"]
    by (simp only: upstream.case is_ipv4.simps socket_addr.sel simp_thms ipv4_localhost_def)
qed

end
