(* ===== verification/Ip.thy ===== *)
theory Ip
  imports Ethernet
begin

text \<open>
  IPv4 and IPv6 headers (\<open>crates/packet/src/ip.rs\<close>): the two parsers with their accessors, the
  IPv6 extension-header walk, and the two header writers.

  The reference for the walk is \<open>ext_chain\<close>, the chain of extension headers as RFC 8200 lays
  it out, without the parser's loop variables; the parser accepts a packet exactly when that
  chain ends inside the packet within the limits of 8 headers and 256 bytes.
\<close>

section \<open>The code\<close>

definition IPPROTO_ICMP :: u8 where "IPPROTO_ICMP = 1"
definition IPPROTO_TCP :: u8 where "IPPROTO_TCP = 6"
definition IPPROTO_UDP :: u8 where "IPPROTO_UDP = 17"
definition IPPROTO_ICMPV6 :: u8 where "IPPROTO_ICMPV6 = 58"

record ipv4_packet =
  v4_bytes :: bytes
  v4_header_len :: usize
  v4_total_len :: usize

definition ipv4_parse :: "bytes \<Rightarrow> packet_error + ipv4_packet" where
  "ipv4_parse bytes =
     (if length bytes < 20 then Inl Truncated
      else if drop_bit 4 (bytes ! 0) \<noteq> 4 then Inl ProtocolMismatch
      else let header_len = unat (bytes ! 0 AND 0x0f) * 4 in
        if header_len < 20 \<or> header_len > length bytes then Inl InvalidLength
        else let total_len = unat (be16_at bytes 2) in
          if total_len < header_len \<or> total_len > length bytes then Inl InvalidLength
          else let fragment = be16_at bytes 6 in
            if fragment AND 0x3fff \<noteq> 0 then Inl Unsupported
            else if checksum (take header_len bytes) \<noteq> 0 then Inl InvalidChecksum
            else Inr \<lparr>v4_bytes = bytes, v4_header_len = header_len, v4_total_len = total_len\<rparr>)"

definition ipv4_source :: "ipv4_packet \<Rightarrow> bytes" where
  "ipv4_source p = subslice 12 16 (v4_bytes p)"

definition ipv4_destination :: "ipv4_packet \<Rightarrow> bytes" where
  "ipv4_destination p = subslice 16 20 (v4_bytes p)"

definition ipv4_protocol :: "ipv4_packet \<Rightarrow> u8" where
  "ipv4_protocol p = v4_bytes p ! 9"

definition ipv4_payload :: "ipv4_packet \<Rightarrow> bytes" where
  "ipv4_payload p = subslice (v4_header_len p) (v4_total_len p) (v4_bytes p)"

record ipv6_packet =
  v6_bytes :: bytes
  v6_payload_offset :: usize
  v6_total_len :: usize
  v6_next_header :: u8

definition is_extension :: "u8 \<Rightarrow> bool" where
  "is_extension n \<longleftrightarrow> n = 0 \<or> n = 43 \<or> n = 60 \<or> n = 51"

definition extension_len :: "u8 \<Rightarrow> u8 \<Rightarrow> usize" where
  "extension_len current len =
     (if current = 51 then (unat len + 2) * 4 else (unat len + 1) * 8)"

function ipv6_extensions ::
  "bytes \<Rightarrow> usize \<Rightarrow> u8 \<Rightarrow> usize \<Rightarrow> usize \<Rightarrow> usize \<Rightarrow> packet_error + (u8 \<times> usize)" where
  "ipv6_extensions bytes total_len nxt offset headers extension_bytes =
     (if is_extension nxt then
        if headers = 8 \<or> offset + 2 > total_len then Inl Unsupported
        else
          let current = nxt; nxt = bytes ! offset;
              len = extension_len current (bytes ! (offset + 1))
          in case checked_add_usize offset len of
               None \<Rightarrow> Inl InvalidLength
             | Some offset \<Rightarrow>
                 let extension_bytes = extension_bytes + len; headers = headers + 1 in
                 if extension_bytes > 256 \<or> offset > total_len then Inl Unsupported
                 else ipv6_extensions bytes total_len nxt offset headers extension_bytes
      else Inr (nxt, offset))"
  by pat_completeness auto
termination
  by (relation "measure (\<lambda>(bytes, total_len, nxt, offset, headers, extension_bytes).
        total_len + 1 - offset)")
    (auto simp: checked_add_usize_def extension_len_def split: if_splits)

declare ipv6_extensions.simps [simp del]

definition ipv6_parse :: "bytes \<Rightarrow> packet_error + ipv6_packet" where
  "ipv6_parse bytes =
     (if length bytes < 40 then Inl Truncated
      else if drop_bit 4 (bytes ! 0) \<noteq> 6 then Inl ProtocolMismatch
      else let payload_len = unat (be16_at bytes 4) in
        case checked_add_usize 40 payload_len of
          None \<Rightarrow> Inl InvalidLength
        | Some total_len \<Rightarrow>
            if total_len > length bytes then Inl Truncated
            else case ipv6_extensions bytes total_len (bytes ! 6) 40 0 0 of
                Inl e \<Rightarrow> Inl e
              | Inr (nxt, offset) \<Rightarrow>
                  if nxt = 44 then Inl Unsupported
                  else Inr \<lparr>v6_bytes = bytes, v6_payload_offset = offset,
                            v6_total_len = total_len, v6_next_header = nxt\<rparr>)"

definition ipv6_source :: "ipv6_packet \<Rightarrow> bytes" where
  "ipv6_source p = subslice 8 24 (v6_bytes p)"

definition ipv6_destination :: "ipv6_packet \<Rightarrow> bytes" where
  "ipv6_destination p = subslice 24 40 (v6_bytes p)"

definition ipv6_next_header :: "ipv6_packet \<Rightarrow> u8" where
  "ipv6_next_header p = v6_next_header p"

definition ipv6_payload :: "ipv6_packet \<Rightarrow> bytes" where
  "ipv6_payload p = subslice (v6_payload_offset p) (v6_total_len p) (v6_bytes p)"

definition write_ipv4_header :: "bytes \<Rightarrow> bytes \<Rightarrow> u8 \<Rightarrow> usize \<Rightarrow> u16 \<Rightarrow> usize writer" where
  "write_ipv4_header source destination protocol payload_len identification out =
     (case checked_add_usize 20 payload_len of
        None \<Rightarrow> (Inl InvalidLength, out)
      | Some total_len \<Rightarrow>
          if length out < 20 \<or> total_len > 65535 then (Inl InvalidLength, out)
          else
            let out = fill out 0 20 0;
                out = out[0 := 0x45];
                out = copy_at 2 (u16_to_be (word_of_nat total_len)) out;
                out = copy_at 4 (u16_to_be identification) out;
                out = copy_at 6 (u16_to_be 0x4000) out;
                out = out[8 := 64];
                out = out[9 := protocol];
                out = copy_at 12 source out;
                out = copy_at 16 destination out;
                value = checksum (take 20 out);
                out = copy_at 10 (u16_to_be value) out
            in (Inr 20, out))"

definition write_ipv6_header :: "bytes \<Rightarrow> bytes \<Rightarrow> u8 \<Rightarrow> usize \<Rightarrow> usize writer" where
  "write_ipv6_header source destination next_header payload_len out =
     (if length out < 40 \<or> payload_len > 65535 then (Inl InvalidLength, out)
      else
        let out = fill out 0 40 0;
            out = out[0 := 0x60];
            out = copy_at 4 (u16_to_be (word_of_nat payload_len)) out;
            out = out[6 := next_header];
            out = out[7 := 64];
            out = copy_at 8 source out;
            out = copy_at 24 destination out
        in (Inr 40, out))"

section \<open>Accepted packets are in bounds\<close>

definition ipv4_ok :: "ipv4_packet \<Rightarrow> bool" where
  "ipv4_ok p \<longleftrightarrow> 20 \<le> v4_header_len p \<and> v4_header_len p \<le> 60 \<and>
     v4_header_len p \<le> v4_total_len p \<and> v4_total_len p \<le> length (v4_bytes p) \<and>
     v4_total_len p \<le> 65535 \<and>
     be16_at (v4_bytes p) 6 AND 0x3fff = 0 \<and> checksum (take (v4_header_len p) (v4_bytes p)) = 0"

lemma low_nibble_le: "unat (b AND 0x0f :: u8) \<le> 15"
  using word_and_le1 [of b 15] by (simp add: word_le_nat_alt)

lemma ipv4_parse_ok: "ipv4_parse bs = Inr p \<Longrightarrow> ipv4_ok p \<and> v4_bytes p = bs"
  using low_nibble_le [of "bs ! 0"] unat_u16_le [of "be16_at bs 2"]
  by (auto simp: ipv4_parse_def ipv4_ok_def Let_def split: if_splits)

lemma ipv4_ok_lengths:
  "ipv4_ok p \<Longrightarrow> length (ipv4_source p) = 4 \<and> length (ipv4_destination p) = 4 \<and>
     length (ipv4_payload p) = v4_total_len p - v4_header_len p"
  by (auto simp: ipv4_ok_def ipv4_source_def ipv4_destination_def ipv4_payload_def)

section \<open>Writing and parsing IPv4 headers\<close>

lemma write_ipv4_header_ok:
  assumes "20 \<le> length out" and "20 + n \<le> 65535" and "length src = 4" and "length dst = 4"
  obtains out' where "write_ipv4_header src dst proto n ident out = (Inr 20, out')"
    and "length out' = length out" and "drop 20 out' = drop 20 out"
    and "out' ! 0 = 0x45" and "be16_at out' 2 = word_of_nat (20 + n)" and "be16_at out' 4 = ident"
    and "be16_at out' 6 = 0x4000" and "out' ! 9 = proto"
    and "subslice 12 16 out' = src" and "subslice 16 20 out' = dst" and "checksum (take 20 out') = 0"
proof
  let ?a = "copy_at 4 (u16_to_be ident) (copy_at 2 (u16_to_be (word_of_nat (20 + n)))
      ((fill out 0 20 0)[0 := 0x45]))"
  let ?b = "copy_at 16 dst (copy_at 12 src ((copy_at 6 (u16_to_be 0x4000) ?a)[8 := 64, 9 := proto]))"
  let ?out' = "copy_at 10 (u16_to_be (checksum (take 20 ?b))) ?b"
  show "write_ipv4_header src dst proto n ident out = (Inr 20, ?out')"
    using assms by (simp add: write_ipv4_header_def checked_add_usize_def Let_def)
  have len: "length ?b = length out" using assms by simp
  have zero: "subslice 10 (10 + 2) (take 20 ?b) = [0, 0]"
    using assms by (simp add: field_simps_rw numeral_2_eq_2)
  show "checksum (take 20 ?out') = 0"
    using plain_csum.stored_verifies [of "take 20 ?b" 10] zero len assms
    by (simp add: take_copy_inside)
  have "out \<noteq> []" using assms by auto
  then show "?out' ! 0 = 0x45" using assms by (simp add: field_simps_rw)
qed (use assms in \<open>simp_all add: field_simps_rw\<close>)

lemma ipv4_parse_plain:
  assumes "20 + n \<le> length bs" and "20 + n \<le> 65535" and "bs ! 0 = 0x45"
    and "be16_at bs 2 = word_of_nat (20 + n)" and "be16_at bs 6 = 0x4000"
    and "checksum (take 20 bs) = 0"
  shows "ipv4_parse (take (20 + n) bs) =
    Inr \<lparr>v4_bytes = take (20 + n) bs, v4_header_len = 20, v4_total_len = 20 + n\<rparr>"
proof -
  have "unat (word_of_nat (20 + n) :: u16) = 20 + n"
    using assms by (simp add: unat_of_nat del: of_nat_add)
  then show ?thesis
    using assms by (simp add: ipv4_parse_def Let_def field_simps_rw del: of_nat_add)
qed

text \<open>
  A header written by \<open>write_ipv4_header\<close> over a buffer that holds the payload is accepted by
  \<open>Ipv4Packet::parse\<close>, its header checksum included, and the parsed packet has the written
  addresses, protocol and exactly the payload bytes of the buffer.
\<close>

theorem ipv4_header_roundtrip:
  assumes "20 + n \<le> length out" and "20 + n \<le> 65535" and "length src = 4" and "length dst = 4"
  shows "\<exists>out' p. write_ipv4_header src dst proto n ident out = (Inr 20, out') \<and>
     ipv4_parse (take (20 + n) out') = Inr p \<and> ipv4_source p = src \<and> ipv4_destination p = dst \<and>
     ipv4_protocol p = proto \<and> ipv4_payload p = subslice 20 (20 + n) out"
proof -
  obtain out' where w: "write_ipv4_header src dst proto n ident out = (Inr 20, out')"
    and len: "length out' = length out" and rest: "drop 20 out' = drop 20 out"
    and f: "out' ! 0 = 0x45" "be16_at out' 2 = word_of_nat (20 + n)" "be16_at out' 6 = 0x4000"
      "out' ! 9 = proto" "subslice 12 16 out' = src" "subslice 16 20 out' = dst"
      "checksum (take 20 out') = 0"
    using assms by (auto intro: write_ipv4_header_ok [of out n src dst proto ident])
  let ?p = "\<lparr>v4_bytes = take (20 + n) out', v4_header_len = 20, v4_total_len = 20 + n\<rparr>"
  have "ipv4_parse (take (20 + n) out') = Inr ?p"
    using assms len f by (intro ipv4_parse_plain) simp_all
  moreover have "subslice 20 (20 + n) (take (20 + n) out') = subslice 20 (20 + n) out"
    using rest by (simp add: field_simps_rw) (simp add: subslice_def)
  ultimately show ?thesis
    using w f by (auto simp: ipv4_source_def ipv4_destination_def ipv4_protocol_def
        ipv4_payload_def field_simps_rw)
qed

theorem ipv4_header_roundtrip_witness:
  "\<exists>out' p. write_ipv4_header [192, 0, 2, 1] [192, 0, 2, 2] 17 2 7 (replicate 24 5) = (Inr 20, out') \<and>
     ipv4_parse (take (20 + 2) out') = Inr p \<and> ipv4_source p = [192, 0, 2, 1] \<and>
     ipv4_destination p = [192, 0, 2, 2] \<and> ipv4_protocol p = 17 \<and>
     ipv4_payload p = subslice 20 (20 + 2) (replicate 24 5)"
  by (rule ipv4_header_roundtrip) simp_all

section \<open>IPv6: the extension-header walk\<close>

inductive ext_chain :: "bytes \<Rightarrow> usize \<Rightarrow> u8 \<Rightarrow> usize \<Rightarrow> nat \<Rightarrow> u8 \<Rightarrow> usize \<Rightarrow> bool" where
  chain_end: "\<not> is_extension nxt \<Longrightarrow> ext_chain bs tot nxt off 0 nxt off"
| chain_step: "is_extension nxt \<Longrightarrow> off + 2 \<le> tot \<Longrightarrow>
    off + extension_len nxt (bs ! (off + 1)) \<le> tot \<Longrightarrow>
    ext_chain bs tot (bs ! off) (off + extension_len nxt (bs ! (off + 1))) k up off' \<Longrightarrow>
    ext_chain bs tot nxt off (Suc k) up off'"

inductive_cases ext_chainE: "ext_chain bs tot nxt off k up off'"

lemma ext_chain_ge: "ext_chain bs tot nxt off k up off' \<Longrightarrow> off \<le> off'"
  by (induction rule: ext_chain.induct) auto

lemma ext_chain_final: "ext_chain bs tot nxt off k up off' \<Longrightarrow> \<not> is_extension up"
  by (induction rule: ext_chain.induct) auto

lemma ext_chain_bound: "ext_chain bs tot nxt off k up off' \<Longrightarrow> off \<le> tot \<Longrightarrow> off' \<le> tot"
  by (induction rule: ext_chain.induct) auto

lemma ext_chain_stop: "\<not> is_extension nxt \<Longrightarrow>
    ext_chain bs tot nxt off k up off' \<longleftrightarrow> k = 0 \<and> up = nxt \<and> off' = off"
  by (auto elim: ext_chainE intro: chain_end)

lemma ext_chain_go: "is_extension nxt \<Longrightarrow>
    ext_chain bs tot nxt off k up off' \<longleftrightarrow>
      (\<exists>j. k = Suc j \<and> off + 2 \<le> tot \<and> off + extension_len nxt (bs ! (off + 1)) \<le> tot \<and>
         ext_chain bs tot (bs ! off) (off + extension_len nxt (bs ! (off + 1))) j up off')"
  by (auto elim: ext_chainE intro: chain_step)

lemma extension_len_le: "extension_len n l \<le> 2048"
  using unat_u8_le [of l] by (simp add: extension_len_def)

lemma ipv6_extensions_chain:
  assumes "tot \<le> 65575" and "off \<le> tot" and "h \<le> 8" and "x \<le> 256"
  shows "ipv6_extensions bs tot nxt off h x = Inr (up, off') \<longleftrightarrow>
     (\<exists>k. h + k \<le> 8 \<and> x + (off' - off) \<le> 256 \<and> ext_chain bs tot nxt off k up off')"
  using assms
proof (induction bs tot nxt off h x rule: ipv6_extensions.induct)
  case (1 bs tot nxt off h x)
  let ?l = "extension_len nxt (bs ! (off + 1))"
  show ?case
  proof (cases "is_extension nxt")
    case False
    with "1.prems" show ?thesis
      by (subst ipv6_extensions.simps) (auto simp: ext_chain_stop)
  next
    case ext: True
    have ca: "checked_add_usize off ?l = Some (off + ?l)"
      using "1.prems" extension_len_le [of nxt "bs ! (off + 1)"] by (simp add: checked_add_usize_def)
    show ?thesis
    proof (cases "h = 8 \<or> off + 2 > tot \<or> x + ?l > 256 \<or> off + ?l > tot")
      case True
      then have "\<nexists>r. ipv6_extensions bs tot nxt off h x = Inr r"
        using ext ca by (subst ipv6_extensions.simps) (auto simp: Let_def)
      moreover have "\<not> (h + k \<le> 8 \<and> x + (off' - off) \<le> 256 \<and> ext_chain bs tot nxt off k up off')" for k
        using True ext by (auto simp: ext_chain_go dest: ext_chain_ge)
      ultimately show ?thesis by blast
    next
      case False
      then have step: "ipv6_extensions bs tot nxt off h x =
          ipv6_extensions bs tot (bs ! off) (off + ?l) (h + 1) (x + ?l)"
        using ext ca by (subst ipv6_extensions.simps) (simp add: Let_def)
      have "ipv6_extensions bs tot nxt off h x = Inr (up, off') \<longleftrightarrow>
          (\<exists>k. h + 1 + k \<le> 8 \<and> x + ?l + (off' - (off + ?l)) \<le> 256 \<and>
             ext_chain bs tot (bs ! off) (off + ?l) k up off')"
        unfolding step using "1.IH" ext ca False "1.prems" by simp
      also have "\<dots> \<longleftrightarrow> (\<exists>j. h + Suc j \<le> 8 \<and> x + (off' - off) \<le> 256 \<and>
          ext_chain bs tot nxt off (Suc j) up off')"
        using ext False by (auto simp: ext_chain_go dest: ext_chain_ge)
      also have "\<dots> \<longleftrightarrow> (\<exists>k. h + k \<le> 8 \<and> x + (off' - off) \<le> 256 \<and> ext_chain bs tot nxt off k up off')"
        using ext by (metis ext_chain_go)
      finally show ?thesis .
    qed
  qed
qed

text \<open>
  The parser against the chain of extension headers.
\<close>

lemma ipv6_accepts:
  "ipv6_parse bs = Inr p \<longleftrightarrow>
     40 \<le> length bs \<and> drop_bit 4 (bs ! 0) = 6 \<and> 40 + unat (be16_at bs 4) \<le> length bs \<and>
     (\<exists>k up off. k \<le> 8 \<and> off \<le> 296 \<and> up \<noteq> 44 \<and>
        ext_chain bs (40 + unat (be16_at bs 4)) (bs ! 6) 40 k up off \<and>
        p = \<lparr>v6_bytes = bs, v6_payload_offset = off, v6_total_len = 40 + unat (be16_at bs 4),
             v6_next_header = up\<rparr>)"
proof -
  let ?T = "40 + unat (be16_at bs 4)"
  have T: "?T \<le> 65575" using unat_u16_le [of "be16_at bs 4"] by simp
  have ca: "checked_add_usize 40 (unat (be16_at bs 4)) = Some ?T"
    using T by (simp add: checked_add_usize_def)
  have walk: "ipv6_extensions bs ?T (bs ! 6) 40 0 0 = Inr (up, off) \<longleftrightarrow>
      (\<exists>k. k \<le> 8 \<and> off \<le> 296 \<and> ext_chain bs ?T (bs ! 6) 40 k up off)" for up off
    using ipv6_extensions_chain [OF T, of 40 0 0 bs "bs ! 6" up off]
    by (auto dest: ext_chain_ge)
  have "ipv6_parse bs = Inr p \<longleftrightarrow>
     40 \<le> length bs \<and> drop_bit 4 (bs ! 0) = 6 \<and> ?T \<le> length bs \<and>
     (\<exists>up off. ipv6_extensions bs ?T (bs ! 6) 40 0 0 = Inr (up, off) \<and> up \<noteq> 44 \<and>
        p = \<lparr>v6_bytes = bs, v6_payload_offset = off, v6_total_len = ?T, v6_next_header = up\<rparr>)"
    by (cases "ipv6_extensions bs ?T (bs ! 6) 40 0 0")
      (auto simp: ipv6_parse_def Let_def ca split: if_splits)
  then show ?thesis unfolding walk by blast
qed

text \<open>
  \<open>Ipv6Packet::parse\<close> accepts a packet exactly when it is a complete version 6 packet whose
  chain of extension headers ends inside the packet, after at most 8 headers and 256 bytes, at
  an upper-layer protocol that is not the fragment header; the parsed packet records that
  protocol and where its data starts.
\<close>

theorem ipv6_parse_iff:
  "ipv6_parse bs = Inr p \<longleftrightarrow>
     40 \<le> length bs \<and> drop_bit 4 (bs ! 0) = 6 \<and> 40 + unat (be16_at bs 4) \<le> length bs \<and>
     (\<exists>k up off. k \<le> 8 \<and> off \<le> 296 \<and> up \<noteq> 44 \<and>
        ext_chain bs (40 + unat (be16_at bs 4)) (bs ! 6) 40 k up off \<and>
        p = \<lparr>v6_bytes = bs, v6_payload_offset = off, v6_total_len = 40 + unat (be16_at bs 4),
             v6_next_header = up\<rparr>)"
  by (rule ipv6_accepts)

definition ipv6_ok :: "ipv6_packet \<Rightarrow> bool" where
  "ipv6_ok p \<longleftrightarrow> 40 \<le> v6_payload_offset p \<and> v6_payload_offset p \<le> v6_total_len p \<and>
     v6_total_len p \<le> length (v6_bytes p) \<and> v6_total_len p \<le> 65575 \<and>
     \<not> is_extension (v6_next_header p) \<and> v6_next_header p \<noteq> 44"

lemma ipv6_parse_ok: "ipv6_parse bs = Inr p \<Longrightarrow> ipv6_ok p \<and> v6_bytes p = bs"
proof -
  assume "ipv6_parse bs = Inr p"
  then obtain k up off where "40 + unat (be16_at bs 4) \<le> length bs" and "up \<noteq> 44"
    and chain: "ext_chain bs (40 + unat (be16_at bs 4)) (bs ! 6) 40 k up off"
    and "p = \<lparr>v6_bytes = bs, v6_payload_offset = off, v6_total_len = 40 + unat (be16_at bs 4),
             v6_next_header = up\<rparr>"
    using ipv6_accepts by blast
  then show ?thesis
    using ext_chain_ge [OF chain] ext_chain_bound [OF chain] ext_chain_final [OF chain]
      unat_u16_le [of "be16_at bs 4"]
    by (simp add: ipv6_ok_def)
qed

lemma ipv6_ok_lengths:
  "ipv6_ok p \<Longrightarrow> length (ipv6_source p) = 16 \<and> length (ipv6_destination p) = 16 \<and>
     length (ipv6_payload p) = v6_total_len p - v6_payload_offset p"
  by (auto simp: ipv6_ok_def ipv6_source_def ipv6_destination_def ipv6_payload_def)

section \<open>Writing and parsing IPv6 headers\<close>

lemma write_ipv6_header_ok:
  assumes "40 \<le> length out" and "n \<le> 65535" and "length src = 16" and "length dst = 16"
  obtains out' where "write_ipv6_header src dst nh n out = (Inr 40, out')"
    and "length out' = length out" and "drop 40 out' = drop 40 out"
    and "out' ! 0 = 0x60" and "be16_at out' 4 = word_of_nat n" and "out' ! 6 = nh" and "out' ! 7 = 64"
    and "subslice 8 24 out' = src" and "subslice 24 40 out' = dst"
proof
  let ?a = "copy_at 4 (u16_to_be (word_of_nat n)) ((fill out 0 40 0)[0 := 0x60])"
  let ?out' = "copy_at 24 dst (copy_at 8 src (?a[6 := nh, 7 := 64]))"
  show "write_ipv6_header src dst nh n out = (Inr 40, ?out')"
    using assms by (simp add: write_ipv6_header_def Let_def)
  have "out \<noteq> []" using assms by auto
  then show "?out' ! 0 = 0x60" using assms by (simp add: field_simps_rw)
qed (use assms in \<open>simp_all add: field_simps_rw\<close>)

lemma ipv6_parse_plain:
  assumes "40 + n \<le> length bs" and "n \<le> 65535" and "bs ! 0 = 0x60"
    and "be16_at bs 4 = word_of_nat n" and "\<not> is_extension (bs ! 6)" and "bs ! 6 \<noteq> 44"
  shows "ipv6_parse (take (40 + n) bs) = Inr \<lparr>v6_bytes = take (40 + n) bs, v6_payload_offset = 40,
     v6_total_len = 40 + n, v6_next_header = bs ! 6\<rparr>"
proof -
  have "unat (be16_at bs 4) = n" using assms by (simp add: unat_of_nat)
  then show ?thesis
    using assms by (simp add: ipv6_accepts ext_chain_stop field_simps_rw)
qed

text \<open>
  A header written by \<open>write_ipv6_header\<close> for a protocol that is no extension header is accepted
  by \<open>Ipv6Packet::parse\<close>, and the parsed packet has the written addresses, protocol and
  exactly the payload bytes of the buffer.
\<close>

theorem ipv6_header_roundtrip:
  assumes "40 + n \<le> length out" and "n \<le> 65535" and "length src = 16" and "length dst = 16"
    and "\<not> is_extension nh" and "nh \<noteq> 44"
  shows "\<exists>out' p. write_ipv6_header src dst nh n out = (Inr 40, out') \<and>
     ipv6_parse (take (40 + n) out') = Inr p \<and> ipv6_source p = src \<and> ipv6_destination p = dst \<and>
     ipv6_next_header p = nh \<and> ipv6_payload p = subslice 40 (40 + n) out"
proof -
  obtain out' where w: "write_ipv6_header src dst nh n out = (Inr 40, out')"
    and len: "length out' = length out" and rest: "drop 40 out' = drop 40 out"
    and f: "out' ! 0 = 0x60" "be16_at out' 4 = word_of_nat n" "out' ! 6 = nh"
      "subslice 8 24 out' = src" "subslice 24 40 out' = dst"
    using assms by (auto intro: write_ipv6_header_ok [of out n src dst nh])
  have "subslice 40 (40 + n) (take (40 + n) out') = subslice 40 (40 + n) out"
    using rest by (simp add: field_simps_rw) (simp add: subslice_def)
  moreover note ipv6_parse_plain [of n out']
  ultimately show ?thesis
    using assms len w f
    by (auto simp: ipv6_source_def ipv6_destination_def ipv6_next_header_def ipv6_payload_def
        field_simps_rw)
qed

theorem ipv6_header_roundtrip_witness:
  "\<exists>out' p. write_ipv6_header (replicate 16 1) (replicate 16 2) 17 3 (replicate 50 5) = (Inr 40, out') \<and>
     ipv6_parse (take (40 + 3) out') = Inr p \<and> ipv6_source p = replicate 16 1 \<and>
     ipv6_destination p = replicate 16 2 \<and> ipv6_next_header p = 17 \<and>
     ipv6_payload p = subslice 40 (40 + 3) (replicate 50 5)"
  by (rule ipv6_header_roundtrip) (simp_all add: is_extension_def)

end
