(* ===== verification/Neighbor.thy ===== *)
theory Neighbor
  imports Ip
begin

text \<open>
  The gateway's answers to address resolution (\<open>crates/packet/src/neighbor.rs\<close>): parsing ARP
  requests and neighbor solicitations, writing ARP replies and neighbor advertisements.
  A write through the sub-slice \<open>&mut out[a..b]\<close> is a write to the sub-list followed by copying it
  back.
\<close>

section \<open>The code\<close>

definition ARP_PACKET_LEN :: usize where
  "ARP_PACKET_LEN = 28"

record arp_request =
  arp_sender_mac :: mac_address
  arp_sender_ip :: bytes
  arp_target_ip :: bytes

definition parse_arp_request :: "bytes \<Rightarrow> packet_error + arp_request" where
  "parse_arp_request bytes =
     (if length bytes < ARP_PACKET_LEN then Inl Truncated
      else if subslice 0 8 bytes \<noteq> [0, 1, 0x08, 0, 6, 4, 0, 1] then Inl Unsupported
      else Inr \<lparr>arp_sender_mac = subslice 8 14 bytes, arp_sender_ip = subslice 14 18 bytes,
                arp_target_ip = subslice 24 28 bytes\<rparr>)"

definition write_arp_reply :: "mac_address \<Rightarrow> bytes \<Rightarrow> arp_request \<Rightarrow> usize writer" where
  "write_arp_reply gateway_mac gateway_ip request out =
     (let len = ETHERNET_HEADER_LEN + ARP_PACKET_LEN in
      if length out < len then (Inl Truncated, out)
      else case eth_write_header (arp_sender_mac request) gateway_mac Arp out of
          (Inl e, out) \<Rightarrow> (Inl e, out)
        | (Inr _, out) \<Rightarrow>
            let arp = subslice ETHERNET_HEADER_LEN len out;
                arp = copy_at 0 [0, 1, 0x08, 0, 6, 4, 0, 2] arp;
                arp = copy_at 8 gateway_mac arp;
                arp = copy_at 14 gateway_ip arp;
                arp = copy_at 18 (arp_sender_mac request) arp;
                arp = copy_at 24 (arp_sender_ip request) arp
            in (Inr len, copy_at ETHERNET_HEADER_LEN arp out))"

definition solicited_node_multicast :: "bytes \<Rightarrow> bytes" where
  "solicited_node_multicast target =
     (let address = replicate 16 0;
          address = address[0 := 0xff];
          address = address[1 := 0x02];
          address = address[11 := 0x01];
          address = address[12 := 0xff]
      in copy_at 13 (subslice 13 16 target) address)"

definition parse_neighbor_solicitation :: "ipv6_packet \<Rightarrow> packet_error + bytes" where
  "parse_neighbor_solicitation ipv6 =
     (if ipv6_next_header ipv6 \<noteq> IPPROTO_ICMPV6 then Inl ProtocolMismatch
      else let payload = ipv6_payload ipv6 in
        if length payload < 24 \<or> payload ! 0 \<noteq> 135 \<or> payload ! 1 \<noteq> 0 then Inl Unsupported
        else if ipv6_transport (ipv6_source ipv6) (ipv6_destination ipv6) 58 payload \<noteq> 0
        then Inl InvalidChecksum
        else Inr (subslice 8 24 payload))"

definition advertisement_body :: "mac_address \<Rightarrow> bytes \<Rightarrow> bytes \<Rightarrow> bytes \<Rightarrow> bytes" where
  "advertisement_body gateway_mac gateway_ip target_ip icmp =
     (let icmp = fill icmp 0 32 0;
          icmp = icmp[0 := 136];
          icmp = icmp[4 := 0x60];
          icmp = copy_at 8 gateway_ip icmp;
          icmp = icmp[24 := 2];
          icmp = icmp[25 := 1];
          icmp = copy_at 26 gateway_mac icmp;
          value = ipv6_transport gateway_ip target_ip 58 icmp
      in copy_at 2 (u16_to_be value) icmp)"

definition write_neighbor_advertisement ::
  "mac_address \<Rightarrow> mac_address \<Rightarrow> bytes \<Rightarrow> bytes \<Rightarrow> usize writer" where
  "write_neighbor_advertisement gateway_mac target_mac gateway_ip target_ip out =
     (let ICMP_LEN = 32; len = ETHERNET_HEADER_LEN + 40 + ICMP_LEN in
      if length out < len then (Inl Truncated, out)
      else case eth_write_header target_mac gateway_mac Ipv6 out of
          (Inl e, out) \<Rightarrow> (Inl e, out)
        | (Inr _, out) \<Rightarrow>
            let ip_offset = ETHERNET_HEADER_LEN in
            case write_ipv6_header gateway_ip target_ip IPPROTO_ICMPV6 ICMP_LEN (drop ip_offset out) of
              (Inl e, part) \<Rightarrow> (Inl e, take ip_offset out @ part)
            | (Inr _, part) \<Rightarrow>
                let out = take ip_offset out @ part;
                    out = out[ip_offset + 7 := 255];
                    icmp_offset = ip_offset + 40;
                    icmp = subslice icmp_offset (icmp_offset + ICMP_LEN) out;
                    icmp = advertisement_body gateway_mac gateway_ip target_ip icmp
                in (Inr len, copy_at icmp_offset icmp out))"

section \<open>ARP\<close>

text \<open>
  The reply to an accepted request is an Ethernet frame to the requester whose ARP payload maps
  the gateway's address to its MAC and repeats the requester's addresses.
\<close>

lemma write_arp_reply_ok:
  assumes "42 \<le> length out" and "length gm = 6" and "length gi = 4"
    and "parse_arp_request bs = Inr req"
  shows "\<exists>out'. write_arp_reply gm gi req out = (Inr 42, out') \<and> length out' = length out \<and>
     subslice 0 6 out' = subslice 8 14 bs \<and> subslice 6 12 out' = gm \<and> be16_at out' 12 = 0x0806 \<and>
     subslice 14 22 out' = [0, 1, 0x08, 0, 6, 4, 0, 2] \<and> subslice 22 28 out' = gm \<and>
     subslice 28 32 out' = gi \<and> subslice 32 38 out' = subslice 8 14 bs \<and>
     subslice 38 42 out' = subslice 14 18 bs"
proof -
  from assms(4) have len: "28 \<le> length bs"
    and req: "arp_sender_mac req = subslice 8 14 bs" "arp_sender_ip req = subslice 14 18 bs"
    by (auto simp: parse_arp_request_def ARP_PACKET_LEN_def split: if_splits)
  obtain o1 where w: "eth_write_header (arp_sender_mac req) gm Arp out = (Inr (), o1)"
    and l1: "length o1 = length out"
    and f: "subslice 0 6 o1 = arp_sender_mac req" "subslice 6 12 o1 = gm" "be16_at o1 12 = 0x0806"
    using assms len req by (auto intro: eth_write_ok [of out "arp_sender_mac req" gm Arp])
  define arp where "arp = copy_at 24 (arp_sender_ip req) (copy_at 18 (arp_sender_mac req) (copy_at 14 gi
      (copy_at 8 gm (copy_at 0 [0, 1, 0x08, 0, 6, 4, 0, 2] (subslice 14 42 o1)))))"
  let ?out' = "copy_at 14 arp o1"
  have lens: "length (arp_sender_ip req) = 4" "length (arp_sender_mac req) = 6"
      "length (subslice 14 42 o1) = 28"
    using assms len req l1 by simp_all
  have la: "length arp = 28" using lens assms(2,3) by (simp add: arp_def)
  have fields: "subslice 0 8 arp = [0, 1, 0x08, 0, 6, 4, 0, 2]" "subslice 8 14 arp = gm"
    "subslice 14 18 arp = gi" "subslice 18 24 arp = arp_sender_mac req"
    "subslice 24 28 arp = arp_sender_ip req"
    unfolding arp_def using lens assms(2,3) by (simp_all add: field_simps_rw)
  have inner: "subslice (14 + a) (14 + b) ?out' = subslice a b arp" if "b \<le> 28" for a b
    using slice_copy_inner [of 14 arp o1 b a] la that assms(1) l1 by simp
  have "write_arp_reply gm gi req out = (Inr 42, ?out')"
    using assms(1) w
    by (simp add: write_arp_reply_def ETHERNET_HEADER_LEN_def ARP_PACKET_LEN_def Let_def arp_def)
  moreover have "subslice 14 22 ?out' = [0, 1, 0x08, 0, 6, 4, 0, 2]" "subslice 22 28 ?out' = gm"
    "subslice 28 32 ?out' = gi" "subslice 32 38 ?out' = subslice 8 14 bs"
    "subslice 38 42 ?out' = subslice 14 18 bs"
    using inner [of 8 0] inner [of 14 8] inner [of 18 14] inner [of 24 18] inner [of 28 24]
    by (simp_all add: fields req)
  moreover have "length ?out' = length out" "subslice 0 6 ?out' = subslice 8 14 bs"
    "subslice 6 12 ?out' = gm" "be16_at ?out' 12 = 0x0806"
    using f l1 la assms(1) req by (simp_all add: field_simps_rw)
  ultimately show ?thesis by blast
qed

section \<open>Neighbor discovery\<close>

lemma advertisement_body_ok:
  assumes "length icmp = 32" and "length gm = 6" and "length gi = 16" and "length ti = 16"
  shows "length (advertisement_body gm gi ti icmp) = 32"
    and "advertisement_body gm gi ti icmp ! 0 = 136"
    and "subslice 8 24 (advertisement_body gm gi ti icmp) = gi"
    and "subslice 26 32 (advertisement_body gm gi ti icmp) = gm"
    and "ipv6_transport gi ti 58 (advertisement_body gm gi ti icmp) = 0"
proof -
  define b where "b = copy_at 26 gm ((copy_at 8 gi ((fill icmp 0 32 0)[0 := 136, 4 := 0x60]))[24 := 2, 25 := 1])"
  have body: "advertisement_body gm gi ti icmp = copy_at 2 (u16_to_be (ipv6_transport gi ti 58 b)) b"
    by (simp add: advertisement_body_def Let_def b_def)
  have len: "length b = 32" using assms by (simp add: b_def)
  have ne: "icmp \<noteq> []" using assms by auto
  have b: "b ! 0 = 136" "subslice 8 24 b = gi" "subslice 26 32 b = gm" "subslice 2 4 b = [0, 0]"
    unfolding b_def using assms ne by (simp_all add: field_simps_rw numeral_2_eq_2)
  show "length (advertisement_body gm gi ti icmp) = 32"
    and "advertisement_body gm gi ti icmp ! 0 = 136"
    and "subslice 8 24 (advertisement_body gm gi ti icmp) = gi"
    and "subslice 26 32 (advertisement_body gm gi ti icmp) = gm"
    unfolding body using len b by (simp_all add: field_simps_rw)
  show "ipv6_transport gi ti 58 (advertisement_body gm gi ti icmp) = 0"
    using v6_csum.stored_verifies [of "(gi, ti, 58)" b 2] len b assms
    by (simp add: body v6_context_def)
qed

text \<open>
  \<open>write_neighbor_advertisement\<close> produces a frame that the crate's own parsers accept as an IPv6
  ICMP packet from the gateway to the soliciting address, with hop limit 255, a valid ICMPv6
  checksum, type 136, the gateway as target and the gateway's MAC as link-layer option.
\<close>

theorem neighbor_advertisement_valid:
  assumes "86 \<le> length out" and "length gm = 6" and "length tm = 6"
    and "length gi = 16" and "length ti = 16"
  shows "\<exists>out' f p. write_neighbor_advertisement gm tm gi ti out = (Inr 86, out') \<and>
     eth_parse (take 86 out') = Inr f \<and> eth_destination f = tm \<and> eth_source f = gm \<and>
     eth_ether_type f = Ipv6 \<and> ipv6_parse (eth_payload f) = Inr p \<and> ipv6_source p = gi \<and>
     ipv6_destination p = ti \<and> ipv6_next_header p = IPPROTO_ICMPV6 \<and> eth_payload f ! 7 = 255 \<and>
     ipv6_transport gi ti 58 (ipv6_payload p) = 0 \<and> ipv6_payload p ! 0 = 136 \<and>
     subslice 8 24 (ipv6_payload p) = gi \<and> subslice 26 32 (ipv6_payload p) = gm"
proof -
  obtain o1 where w1: "eth_write_header tm gm Ipv6 out = (Inr (), o1)" and l1: "length o1 = length out"
    and f1: "subslice 0 6 o1 = tm" "subslice 6 12 o1 = gm" "be16_at o1 12 = 0x86dd"
    using assms by (auto intro: eth_write_ok [of out tm gm Ipv6])
  obtain o2 where w2: "write_ipv6_header gi ti IPPROTO_ICMPV6 32 (drop 14 o1) = (Inr 40, o2)"
    and l2: "length o2 = length out - 14"
    and f2: "o2 ! 0 = 0x60" "be16_at o2 4 = 32" "o2 ! 6 = 58" "subslice 8 24 o2 = gi" "subslice 24 40 o2 = ti"
    using assms l1
    by (auto intro: write_ipv6_header_ok [of "drop 14 o1" 32 gi ti IPPROTO_ICMPV6] simp: IPPROTO_ICMPV6_def)
  define icmp where "icmp = subslice 54 86 ((take 14 o1 @ o2)[21 := 255])"
  define body where "body = advertisement_body gm gi ti icmp"
  have "length icmp = 32" using assms l1 l2 by (simp add: icmp_def)
  note b = advertisement_body_ok [OF this assms(2,4,5), folded body_def]
  let ?h = "take 14 o1 @ o2[7 := 255]"
  have upd: "(take 14 o1 @ o2)[21 := 255] = ?h" using assms l1 l2 by (simp add: list_update_append)
  let ?out' = "copy_at 54 body ?h"
  have w: "write_neighbor_advertisement gm tm gi ti out = (Inr 86, ?out')"
    using assms w1 w2 by (simp add: write_neighbor_advertisement_def ETHERNET_HEADER_LEN_def Let_def
        body_def icmp_def upd)
  have lh: "length ?h = length out" using assms l1 l2 by simp
  have split: "take 86 ?out' = take 14 o1 @ copy_at 40 body (take 72 (o2[7 := 255]))"
    using assms l1 l2 b(1) by (simp add: copy_at_def min_absorb1 min_absorb2)
  let ?ip = "copy_at 40 body (o2[7 := 255])"
  have ip: "take 72 ?ip = copy_at 40 body (take 72 (o2[7 := 255]))"
    using assms l2 b(1) by (simp add: take_copy_inside)
  let ?f = "\<lparr>eth_bytes = take 86 ?out'\<rparr>"
  have pf: "eth_parse (take 86 ?out') = Inr ?f"
    using assms lh b(1) by (simp add: eth_parse_Inr_iff)
  have pay: "eth_payload ?f = take 72 ?ip"
    using assms l1 by (simp add: eth_payload_def ETHERNET_HEADER_LEN_def split ip)
  have eth: "eth_destination ?f = tm" "eth_source ?f = gm" "eth_ether_type ?f = Ipv6"
    using assms l1 f1 by (simp_all add: eth_destination_def eth_source_def eth_ether_type_def split
        subslice_def be16_at_def nth_append ether_type_from_raw_def drop_take)
  have "o2 \<noteq> []" using assms l2 by auto
  then have ipf: "?ip ! 0 = 0x60" "be16_at ?ip 4 = 32" "?ip ! 6 = 58" "?ip ! 7 = 255"
    "subslice 8 24 ?ip = gi" "subslice 24 40 ?ip = ti" "subslice 40 72 ?ip = body"
    using assms l2 b(1) f2 by (simp_all add: field_simps_rw)
  have lip: "length ?ip = length out - 14" using l2 b(1) assms by simp
  have "ipv6_parse (take 72 ?ip) = Inr \<lparr>v6_bytes = take 72 ?ip, v6_payload_offset = 40,
      v6_total_len = 72, v6_next_header = 58\<rparr>"
    using ipv6_parse_plain [of 32 ?ip] ipf lip assms by (simp add: is_extension_def)
  then show ?thesis
    using w pf eth pay ipf b lip
    by (intro exI conjI) (auto simp: ipv6_source_def ipv6_destination_def ipv6_next_header_def
        ipv6_payload_def IPPROTO_ICMPV6_def slice_take)
qed

theorem neighbor_advertisement_valid_witness:
  "\<exists>out' f p. write_neighbor_advertisement [2, 1, 2, 3, 4, 1] [2, 1, 2, 3, 4, 2]
       (replicate 15 0 @ [1]) (replicate 15 0 @ [2]) (replicate 128 0) = (Inr 86, out') \<and>
     eth_parse (take 86 out') = Inr f \<and> ipv6_parse (eth_payload f) = Inr p \<and>
     eth_payload f ! 7 = 255 \<and>
     ipv6_transport (replicate 15 0 @ [1]) (replicate 15 0 @ [2]) 58 (ipv6_payload p) = 0"
  using neighbor_advertisement_valid [of "replicate 128 0" "[2, 1, 2, 3, 4, 1]" "[2, 1, 2, 3, 4, 2]"
      "replicate 15 0 @ [1]" "replicate 15 0 @ [2]"]
  by (simp del: append_replicate_commute) blast

end
