(* ===== verification/Tcp_Segment.thy ===== *)
theory Tcp_Segment
  imports Ip
begin

text \<open>
  TCP segments (\<open>crates/packet/src/tcp.rs\<close>): the parsers, the field accessors, the option scan,
  the header writer, and the complete and partial checksum setters.
\<close>

section \<open>The code\<close>

definition TCP_MIN_HEADER_LEN :: usize where
  "TCP_MIN_HEADER_LEN = 20"

record tcp_flags =
  fl_fin :: bool
  fl_syn :: bool
  fl_rst :: bool
  fl_psh :: bool
  fl_ack :: bool

record tcp_segment =
  seg_bytes :: bytes
  seg_header_len :: usize

definition tcp_parse :: "bytes \<Rightarrow> packet_error + tcp_segment" where
  "tcp_parse bytes =
     (if length bytes < TCP_MIN_HEADER_LEN then Inl Truncated
      else let header_len = unat (drop_bit 4 (bytes ! 12)) * 4 in
        if header_len < TCP_MIN_HEADER_LEN \<or> header_len > length bytes then Inl InvalidLength
        else Inr \<lparr>seg_bytes = bytes, seg_header_len = header_len\<rparr>)"

definition tcp_parse_ipv4 :: "ipv4_packet \<Rightarrow> bool \<Rightarrow> packet_error + tcp_segment" where
  "tcp_parse_ipv4 ip verify_checksum =
     (if ipv4_protocol ip \<noteq> IPPROTO_TCP then Inl ProtocolMismatch
      else let payload = ipv4_payload ip in
        if verify_checksum \<and> ipv4_transport (ipv4_source ip) (ipv4_destination ip) 6 payload \<noteq> 0
        then Inl InvalidChecksum
        else tcp_parse payload)"

definition tcp_parse_ipv6 :: "ipv6_packet \<Rightarrow> bool \<Rightarrow> packet_error + tcp_segment" where
  "tcp_parse_ipv6 ip verify_checksum =
     (if ipv6_next_header ip \<noteq> IPPROTO_TCP then Inl ProtocolMismatch
      else let payload = ipv6_payload ip in
        if verify_checksum \<and> ipv6_transport (ipv6_source ip) (ipv6_destination ip) 6 payload \<noteq> 0
        then Inl InvalidChecksum
        else tcp_parse payload)"

definition tcp_source_port :: "tcp_segment \<Rightarrow> u16" where
  "tcp_source_port s = be16_at (seg_bytes s) 0"

definition tcp_destination_port :: "tcp_segment \<Rightarrow> u16" where
  "tcp_destination_port s = be16_at (seg_bytes s) 2"

definition tcp_sequence :: "tcp_segment \<Rightarrow> u32" where
  "tcp_sequence s = u32_from_be (subslice 4 8 (seg_bytes s))"

definition tcp_acknowledgment :: "tcp_segment \<Rightarrow> u32" where
  "tcp_acknowledgment s = u32_from_be (subslice 8 12 (seg_bytes s))"

definition tcp_flags_of :: "tcp_segment \<Rightarrow> tcp_flags" where
  "tcp_flags_of s =
     (let value = seg_bytes s ! 13
      in \<lparr>fl_fin = (value AND 0x01 \<noteq> 0), fl_syn = (value AND 0x02 \<noteq> 0),
          fl_rst = (value AND 0x04 \<noteq> 0), fl_psh = (value AND 0x08 \<noteq> 0),
          fl_ack = (value AND 0x10 \<noteq> 0)\<rparr>)"

definition tcp_window :: "tcp_segment \<Rightarrow> u16" where
  "tcp_window s = be16_at (seg_bytes s) 14"

definition tcp_payload :: "tcp_segment \<Rightarrow> bytes" where
  "tcp_payload s = drop (seg_header_len s) (seg_bytes s)"

function scan_options :: "u8 \<Rightarrow> usize \<Rightarrow> bytes \<Rightarrow> bytes option" where
  "scan_options wanted_kind wanted_len [] = None"
| "scan_options wanted_kind wanted_len (kind # rest) =
     (if kind = 0 then None
      else if kind = 1 then scan_options wanted_kind wanted_len rest
      else case rest of
          [] \<Rightarrow> None
        | l # tail \<Rightarrow>
            let len = unat l in
            if len < 2 \<or> len - 2 > length tail then None
            else if kind = wanted_kind \<and> len = wanted_len then Some (take (len - 2) tail)
            else scan_options wanted_kind wanted_len (drop (len - 2) tail))"
  by pat_completeness auto
termination
  by (relation "measure (\<lambda>(k, l, options). length options)") auto

definition find_option :: "tcp_segment \<Rightarrow> u8 \<Rightarrow> usize \<Rightarrow> bytes option" where
  "find_option s wanted_kind wanted_len =
     scan_options wanted_kind wanted_len
       (subslice TCP_MIN_HEADER_LEN (seg_header_len s) (seg_bytes s))"

definition tcp_mss :: "tcp_segment \<Rightarrow> u16 option" where
  "tcp_mss s = map_option (\<lambda>value. be16_at value 0) (find_option s 2 4)"

definition tcp_window_scale :: "tcp_segment \<Rightarrow> u8 option" where
  "tcp_window_scale s = map_option (\<lambda>value. value ! 0) (find_option s 3 3)"

record tcp_header_spec =
  sp_source_port :: u16
  sp_destination_port :: u16
  sp_sequence :: u32
  sp_acknowledgment :: u32
  sp_flags :: tcp_flags
  sp_window :: u16
  sp_mss :: "u16 option"
  sp_window_scale :: "u8 option"

definition tcp_header_len :: "tcp_header_spec \<Rightarrow> usize" where
  "tcp_header_len spec = TCP_MIN_HEADER_LEN + (if sp_mss spec \<noteq> None then 4 else 0)
     + (if sp_window_scale spec \<noteq> None then 4 else 0)"

definition flags_byte :: "tcp_flags \<Rightarrow> u8" where
  "flags_byte fl = of_bool (fl_fin fl) OR push_bit 1 (of_bool (fl_syn fl))
     OR push_bit 2 (of_bool (fl_rst fl)) OR push_bit 3 (of_bool (fl_psh fl))
     OR push_bit 4 (of_bool (fl_ack fl))"

definition tcp_write_mss :: "u16 option \<Rightarrow> usize \<Rightarrow> bytes \<Rightarrow> bytes \<times> usize" where
  "tcp_write_mss mss_option cursor out =
     (case mss_option of
        None \<Rightarrow> (out, cursor)
      | Some mss \<Rightarrow>
          let out = out[cursor := 2];
              out = out[cursor + 1 := 4];
              out = copy_at (cursor + 2) (u16_to_be mss) out
          in (out, cursor + 4))"

definition tcp_write_window_scale :: "u8 option \<Rightarrow> usize \<Rightarrow> bytes \<Rightarrow> bytes" where
  "tcp_write_window_scale shift_option cursor out =
     (case shift_option of
        None \<Rightarrow> out
      | Some shift \<Rightarrow>
          let out = out[cursor := 1];
              out = out[cursor + 1 := 3];
              out = out[cursor + 2 := 3]
          in out[cursor + 3 := shift])"

definition tcp_write_header :: "tcp_header_spec \<Rightarrow> usize writer" where
  "tcp_write_header spec out =
     (let header_len = tcp_header_len spec in
      if length out < header_len then (Inl Truncated, out)
      else
        let out = fill out 0 header_len 0;
            out = copy_at 0 (u16_to_be (sp_source_port spec)) out;
            out = copy_at 2 (u16_to_be (sp_destination_port spec)) out;
            out = copy_at 4 (u32_to_be (sp_sequence spec)) out;
            out = copy_at 8 (u32_to_be (sp_acknowledgment spec)) out;
            out = out[12 := push_bit 4 (word_of_nat header_len div 4)];
            out = out[13 := flags_byte (sp_flags spec)];
            out = copy_at 14 (u16_to_be (sp_window spec)) out;
            (out, cursor) = tcp_write_mss (sp_mss spec) TCP_MIN_HEADER_LEN out;
            out = tcp_write_window_scale (sp_window_scale spec) cursor out
        in (Inr header_len, out))"

definition tcp_set_ipv4_checksum :: "bytes \<Rightarrow> bytes \<Rightarrow> unit writer" where
  "tcp_set_ipv4_checksum source destination tcp =
     (if length tcp < TCP_MIN_HEADER_LEN then (Inl Truncated, tcp)
      else let tcp = fill tcp 16 18 0;
               value = ipv4_transport source destination 6 tcp
           in (Inr (), copy_at 16 (u16_to_be value) tcp))"

definition tcp_set_ipv6_checksum :: "bytes \<Rightarrow> bytes \<Rightarrow> unit writer" where
  "tcp_set_ipv6_checksum source destination tcp =
     (if length tcp < TCP_MIN_HEADER_LEN then (Inl Truncated, tcp)
      else let tcp = fill tcp 16 18 0;
               value = ipv6_transport source destination 6 tcp
           in (Inr (), copy_at 16 (u16_to_be value) tcp))"

definition tcp_set_ipv4_partial_checksum :: "bytes \<Rightarrow> bytes \<Rightarrow> unit writer" where
  "tcp_set_ipv4_partial_checksum source destination tcp =
     (if length tcp < TCP_MIN_HEADER_LEN then (Inl Truncated, tcp)
      else let value = ipv4_pseudo_header source destination 6 (length tcp)
           in (Inr (), copy_at 16 (u16_to_be value) tcp))"

definition tcp_set_ipv6_partial_checksum :: "bytes \<Rightarrow> bytes \<Rightarrow> unit writer" where
  "tcp_set_ipv6_partial_checksum source destination tcp =
     (if length tcp < TCP_MIN_HEADER_LEN then (Inl Truncated, tcp)
      else let value = ipv6_pseudo_header source destination 6 (length tcp)
           in (Inr (), copy_at 16 (u16_to_be value) tcp))"

section \<open>Accepted segments are in bounds\<close>

lemma tcp_parse_Inr_iff:
  "tcp_parse bs = Inr s \<longleftrightarrow> 20 \<le> length bs \<and> seg_bytes s = bs \<and>
     seg_header_len s = unat (drop_bit 4 (bs ! 12)) * 4 \<and>
     20 \<le> seg_header_len s \<and> seg_header_len s \<le> length bs"
  by (cases s) (auto simp: tcp_parse_def TCP_MIN_HEADER_LEN_def Let_def)

lemma scan_options_length:
  "scan_options k l options = Some v \<Longrightarrow> length v = l - 2 \<and> 2 \<le> l"
  by (induction k l options rule: scan_options.induct)
    (auto simp: Let_def split: if_splits list.splits)

section \<open>Writing and parsing headers\<close>

lemma tcp_header_len_cases: "tcp_header_len spec \<in> {20, 24, 28}"
  by (simp add: tcp_header_len_def TCP_MIN_HEADER_LEN_def)

lemma header_len_byte:
  "n \<in> {20, 24, 28 :: nat} \<Longrightarrow> unat (drop_bit 4 (push_bit 4 (word_of_nat n div 4 :: u8))) * 4 = n"
  by auto

lemma flags_byte_bits:
  "(flags_byte fl AND 0x01 \<noteq> 0) = fl_fin fl" "(flags_byte fl AND 0x02 \<noteq> 0) = fl_syn fl"
  "(flags_byte fl AND 0x04 \<noteq> 0) = fl_rst fl" "(flags_byte fl AND 0x08 \<noteq> 0) = fl_psh fl"
  "(flags_byte fl AND 0x10 \<noteq> 0) = fl_ack fl"
  by (cases "fl_fin fl"; cases "fl_syn fl"; cases "fl_rst fl"; cases "fl_psh fl"; cases "fl_ack fl";
      simp add: flags_byte_def)+

fun mss_option_bytes :: "u16 option \<Rightarrow> bytes" where
  "mss_option_bytes None = []"
| "mss_option_bytes (Some mss) = [2, 4] @ u16_to_be mss"

fun window_scale_option_bytes :: "u8 option \<Rightarrow> bytes" where
  "window_scale_option_bytes None = []"
| "window_scale_option_bytes (Some shift) = [1, 3, 3, shift]"

lemma tcp_write_mss_copy:
  "cursor + length (mss_option_bytes m) \<le> length out \<Longrightarrow>
     tcp_write_mss m cursor out =
       (copy_at cursor (mss_option_bytes m) out, cursor + length (mss_option_bytes m))"
  by (cases m) (simp_all add: tcp_write_mss_def Let_def update_as_copy copy_at_adjacent)

lemma tcp_write_window_scale_copy:
  "cursor + length (window_scale_option_bytes w) \<le> length out \<Longrightarrow>
     tcp_write_window_scale w cursor out = copy_at cursor (window_scale_option_bytes w) out"
  by (cases w) (simp_all add: tcp_write_window_scale_def Let_def update_as_copy copy_at_adjacent)

definition tcp_options :: "tcp_header_spec \<Rightarrow> bytes" where
  "tcp_options spec =
     mss_option_bytes (sp_mss spec) @ window_scale_option_bytes (sp_window_scale spec)"

lemma length_tcp_options: "tcp_header_len spec = 20 + length (tcp_options spec)"
  by (cases "sp_mss spec"; cases "sp_window_scale spec")
    (simp_all add: tcp_options_def tcp_header_len_def TCP_MIN_HEADER_LEN_def)

lemma scan_mss: "map_option (\<lambda>v. be16_at v 0) (scan_options 2 4 (tcp_options spec)) = sp_mss spec"
  by (cases "sp_mss spec"; cases "sp_window_scale spec")
    (simp_all add: tcp_options_def Let_def be16_at_slice subslice_def)

lemma scan_window_scale:
  "map_option (\<lambda>v. v ! 0) (scan_options 3 3 (tcp_options spec)) = sp_window_scale spec"
  by (cases "sp_mss spec"; cases "sp_window_scale spec") (simp_all add: tcp_options_def Let_def)

lemma tcp_write_header_ok:
  assumes len: "tcp_header_len spec \<le> length out"
  obtains out' where "tcp_write_header spec out = (Inr (tcp_header_len spec), out')"
    and "length out' = length out" and "drop (tcp_header_len spec) out' = drop (tcp_header_len spec) out"
    and "be16_at out' 0 = sp_source_port spec" and "be16_at out' 2 = sp_destination_port spec"
    and "u32_from_be (subslice 4 8 out') = sp_sequence spec"
    and "u32_from_be (subslice 8 12 out') = sp_acknowledgment spec"
    and "out' ! 12 = push_bit 4 (word_of_nat (tcp_header_len spec) div 4)"
    and "out' ! 13 = flags_byte (sp_flags spec)" and "be16_at out' 14 = sp_window spec"
    and "subslice 16 20 out' = replicate 4 0"
    and "subslice 20 (tcp_header_len spec) out' = tcp_options spec"
proof
  let ?h = "tcp_header_len spec"
  note h = length_tcp_options [of spec]
  let ?a = "copy_at 2 (u16_to_be (sp_destination_port spec))
      (copy_at 0 (u16_to_be (sp_source_port spec)) (fill out 0 ?h 0))"
  let ?b = "copy_at 8 (u32_to_be (sp_acknowledgment spec)) (copy_at 4 (u32_to_be (sp_sequence spec)) ?a)"
  let ?c = "copy_at 14 (u16_to_be (sp_window spec))
      (?b[12 := push_bit 4 (word_of_nat ?h div 4), 13 := flags_byte (sp_flags spec)])"
  let ?out' = "copy_at 20 (tcp_options spec) ?c"
  have c: "length ?c = length out" using len h by simp
  have "tcp_write_window_scale (sp_window_scale spec) (20 + length (mss_option_bytes (sp_mss spec)))
      (copy_at 20 (mss_option_bytes (sp_mss spec)) ?c) = ?out'"
    using c len h by (simp add: tcp_write_window_scale_copy copy_at_adjacent tcp_options_def)
  moreover have "tcp_write_mss (sp_mss spec) 20 ?c =
      (copy_at 20 (mss_option_bytes (sp_mss spec)) ?c, 20 + length (mss_option_bytes (sp_mss spec)))"
    using c len h by (intro tcp_write_mss_copy) (simp add: tcp_options_def)
  ultimately show "tcp_write_header spec out = (Inr ?h, ?out')"
    using len by (simp add: tcp_write_header_def Let_def TCP_MIN_HEADER_LEN_def)
qed (use len length_tcp_options [of spec] in \<open>simp_all add: field_simps_rw\<close>)

text \<open>
  A TCP header written for any specification is accepted by \<open>TcpSegment::parse\<close>, and every field
  reads back: ports, sequence and acknowledgment numbers, the five flags, the window, the
  MSS and window-scale options whether present or absent, and the bytes after the header.
\<close>

theorem tcp_header_roundtrip:
  assumes "tcp_header_len spec \<le> length out"
  shows "\<exists>out' s. tcp_write_header spec out = (Inr (tcp_header_len spec), out') \<and>
     tcp_parse out' = Inr s \<and> tcp_source_port s = sp_source_port spec \<and>
     tcp_destination_port s = sp_destination_port spec \<and> tcp_sequence s = sp_sequence spec \<and>
     tcp_acknowledgment s = sp_acknowledgment spec \<and> tcp_flags_of s = sp_flags spec \<and>
     tcp_window s = sp_window spec \<and> tcp_mss s = sp_mss spec \<and>
     tcp_window_scale s = sp_window_scale spec \<and>
     tcp_payload s = drop (tcp_header_len spec) out"
proof -
  let ?h = "tcp_header_len spec"
  obtain out' where w: "tcp_write_header spec out = (Inr ?h, out')"
    and len: "length out' = length out" and rest: "drop ?h out' = drop ?h out"
    and f: "be16_at out' 0 = sp_source_port spec" "be16_at out' 2 = sp_destination_port spec"
      "u32_from_be (subslice 4 8 out') = sp_sequence spec"
      "u32_from_be (subslice 8 12 out') = sp_acknowledgment spec"
      "out' ! 12 = push_bit 4 (word_of_nat ?h div 4)"
      "out' ! 13 = flags_byte (sp_flags spec)" "be16_at out' 14 = sp_window spec"
      "subslice 20 ?h out' = tcp_options spec"
    using tcp_write_header_ok [OF assms] by metis
  let ?s = "\<lparr>seg_bytes = out', seg_header_len = ?h\<rparr>"
  have "tcp_parse out' = Inr ?s"
    using assms len f(5) tcp_header_len_cases [of spec]
    by (simp add: tcp_parse_Inr_iff header_len_byte) auto
  moreover have "tcp_mss ?s = sp_mss spec" "tcp_window_scale ?s = sp_window_scale spec"
    by (simp_all add: tcp_mss_def tcp_window_scale_def find_option_def TCP_MIN_HEADER_LEN_def f(8)
        scan_mss scan_window_scale)
  moreover have "tcp_flags_of ?s = sp_flags spec"
    by (cases "sp_flags spec") (use f(6) in \<open>simp add: tcp_flags_of_def flags_byte_bits\<close>)
  ultimately show ?thesis
    using w f(1-4,7) rest
    by (auto simp: tcp_source_port_def tcp_destination_port_def tcp_sequence_def
        tcp_acknowledgment_def tcp_window_def tcp_payload_def)
qed

theorem tcp_header_roundtrip_witness:
  "\<exists>out' s. tcp_write_header \<lparr>sp_source_port = 1000, sp_destination_port = 2000, sp_sequence = 7,
       sp_acknowledgment = 9, sp_flags = \<lparr>fl_fin = False, fl_syn = True, fl_rst = False,
       fl_psh = False, fl_ack = True\<rparr>, sp_window = 4096, sp_mss = Some 1460,
       sp_window_scale = Some 7\<rparr> (replicate 30 1) = (Inr 28, out') \<and>
     tcp_parse out' = Inr s \<and> tcp_mss s = Some 1460 \<and> tcp_window_scale s = Some 7 \<and>
     tcp_payload s = [1, 1]"
  using tcp_header_roundtrip [of "\<lparr>sp_source_port = 1000, sp_destination_port = 2000, sp_sequence = 7,
       sp_acknowledgment = 9, sp_flags = \<lparr>fl_fin = False, fl_syn = True, fl_rst = False,
       fl_psh = False, fl_ack = True\<rparr>, sp_window = 4096, sp_mss = Some 1460,
       sp_window_scale = Some 7\<rparr>" "replicate 30 1"]
  by (auto simp: tcp_header_len_def TCP_MIN_HEADER_LEN_def numeral_2_eq_2)

section \<open>Checksums\<close>

text \<open>
  \<open>set_ipv4_checksum\<close> and \<open>set_ipv6_checksum\<close> store a checksum under which the segment verifies,
  whatever the field held before, and change no other byte of the segment.
\<close>

theorem tcp_set_checksum_verifies:
  assumes "20 \<le> length tcp" and "length tcp \<le> 65535"
    and "length s4 = 4" and "length d4 = 4" and "length s6 = 16" and "length d6 = 16"
  shows "\<exists>c4 c6. tcp_set_ipv4_checksum s4 d4 tcp = (Inr (), copy_at 16 (u16_to_be c4) tcp) \<and>
     ipv4_transport s4 d4 6 (copy_at 16 (u16_to_be c4) tcp) = 0 \<and>
     tcp_set_ipv6_checksum s6 d6 tcp = (Inr (), copy_at 16 (u16_to_be c6) tcp) \<and>
     ipv6_transport s6 d6 6 (copy_at 16 (u16_to_be c6) tcp) = 0"
proof (intro exI conjI)
  let ?z = "fill tcp 16 18 0"
  have z: "subslice 16 (16 + 2) ?z = [0, 0]" using zero_field [of 16 tcp] assms by simp
  let ?c4 = "ipv4_transport s4 d4 6 ?z" and ?c6 = "ipv6_transport s6 d6 6 ?z"
  show "tcp_set_ipv4_checksum s4 d4 tcp = (Inr (), copy_at 16 (u16_to_be ?c4) tcp)"
    and "tcp_set_ipv6_checksum s6 d6 tcp = (Inr (), copy_at 16 (u16_to_be ?c6) tcp)"
    using assms by (simp_all add: tcp_set_ipv4_checksum_def tcp_set_ipv6_checksum_def
        TCP_MIN_HEADER_LEN_def Let_def copy_over_fill)
  show "ipv4_transport s4 d4 6 (copy_at 16 (u16_to_be ?c4) tcp) = 0"
    using v4_csum.stored_verifies [of "(s4, d4, 6)" ?z 16] z assms
    by (simp add: v4_context_def copy_over_fill)
  show "ipv6_transport s6 d6 6 (copy_at 16 (u16_to_be ?c6) tcp) = 0"
    using v6_csum.stored_verifies [of "(s6, d6, 6)" ?z 16] z assms
    by (simp add: v6_context_def copy_over_fill)
qed

theorem tcp_set_checksum_verifies_witness:
  "\<exists>c4 c6. tcp_set_ipv4_checksum [192, 0, 2, 1] [192, 0, 2, 2] (replicate 21 7)
       = (Inr (), copy_at 16 (u16_to_be c4) (replicate 21 7)) \<and>
     ipv4_transport [192, 0, 2, 1] [192, 0, 2, 2] 6 (copy_at 16 (u16_to_be c4) (replicate 21 7)) = 0 \<and>
     tcp_set_ipv6_checksum (replicate 16 1) (replicate 16 2) (replicate 21 7)
       = (Inr (), copy_at 16 (u16_to_be c6) (replicate 21 7)) \<and>
     ipv6_transport (replicate 16 1) (replicate 16 2) 6 (copy_at 16 (u16_to_be c6) (replicate 21 7)) = 0"
  by (rule tcp_set_checksum_verifies) simp_all

text \<open>
  A segment seeded by \<open>set_ipv4_partial_checksum\<close> or \<open>set_ipv6_partial_checksum\<close> is completed to one
  that verifies by what the receiver of a frame with \<open>VIRTIO_NET_HDR_F_NEEDS_CSUM\<close> does: store
  at the checksum offset the plain checksum of the segment with the seed in place.
\<close>

theorem tcp_partial_checksum_completes:
  assumes "20 \<le> length tcp" and "length tcp \<le> 65535"
    and "length s4 = 4" and "length d4 = 4" and "length s6 = 16" and "length d6 = 16"
  shows "\<exists>t4 t6. tcp_set_ipv4_partial_checksum s4 d4 tcp = (Inr (), t4) \<and>
     ipv4_transport s4 d4 6 (copy_at 16 (u16_to_be (checksum t4)) t4) = 0 \<and>
     tcp_set_ipv6_partial_checksum s6 d6 tcp = (Inr (), t6) \<and>
     ipv6_transport s6 d6 6 (copy_at 16 (u16_to_be (checksum t6)) t6) = 0"
proof (intro exI conjI)
  let ?z = "fill tcp 16 18 0"
  have z: "subslice 16 (16 + 2) ?z = [0, 0]" using zero_field [of 16 tcp] assms by simp
  let ?p4 = "ipv4_pseudo_header s4 d4 6 (length tcp)" and ?p6 = "ipv6_pseudo_header s6 d6 6 (length tcp)"
  show "tcp_set_ipv4_partial_checksum s4 d4 tcp = (Inr (), copy_at 16 (u16_to_be ?p4) tcp)"
    and "tcp_set_ipv6_partial_checksum s6 d6 tcp = (Inr (), copy_at 16 (u16_to_be ?p6) tcp)"
    using assms by (simp_all add: tcp_set_ipv4_partial_checksum_def tcp_set_ipv6_partial_checksum_def
        TCP_MIN_HEADER_LEN_def Let_def)
  have twice: "copy_at 16 (u16_to_be a) (copy_at 16 (u16_to_be b) tcp) = copy_at 16 (u16_to_be a) tcp" for a b
    using assms by (simp add: copy_at_def)
  show "ipv4_transport s4 d4 6 (copy_at 16 (u16_to_be (checksum (copy_at 16 (u16_to_be ?p4) tcp)))
      (copy_at 16 (u16_to_be ?p4) tcp)) = 0"
    using v4_csum.completed_verifies [of "(s4, d4, 6)" ?z 16 ?p4] z assms
    by (simp add: v4_context_def copy_over_fill twice unat_ipv4_pseudo_header)
  show "ipv6_transport s6 d6 6 (copy_at 16 (u16_to_be (checksum (copy_at 16 (u16_to_be ?p6) tcp)))
      (copy_at 16 (u16_to_be ?p6) tcp)) = 0"
    using v6_csum.completed_verifies [of "(s6, d6, 6)" ?z 16 ?p6] z assms
    by (simp add: v6_context_def copy_over_fill twice unat_ipv6_pseudo_header)
qed

theorem tcp_partial_checksum_completes_witness:
  "\<exists>t4 t6. tcp_set_ipv4_partial_checksum [192, 0, 2, 7] [192, 0, 2, 9] (replicate 31 3) = (Inr (), t4) \<and>
     ipv4_transport [192, 0, 2, 7] [192, 0, 2, 9] 6 (copy_at 16 (u16_to_be (checksum t4)) t4) = 0 \<and>
     tcp_set_ipv6_partial_checksum (replicate 16 1) (replicate 16 2) (replicate 31 3) = (Inr (), t6) \<and>
     ipv6_transport (replicate 16 1) (replicate 16 2) 6 (copy_at 16 (u16_to_be (checksum t6)) t6) = 0"
  by (rule tcp_partial_checksum_completes) simp_all

end
