(* ===== verification/Udp_Datagram.thy ===== *)
theory Udp_Datagram
  imports Ip
begin

text \<open>
  UDP datagrams (\<open>crates/packet/src/udp.rs\<close>): parsing with the rules for an absent checksum over
  IPv4 and IPv6, the header writer, and the checksum setters that never leave a zero field.
\<close>

section \<open>The code\<close>

definition UDP_HEADER_LEN :: usize where
  "UDP_HEADER_LEN = 8"

record udp_datagram =
  dg_bytes :: bytes

definition udp_parse :: "bytes \<Rightarrow> packet_error + udp_datagram" where
  "udp_parse bytes =
     (if length bytes < UDP_HEADER_LEN then Inl Truncated
      else let len = unat (be16_at bytes 4) in
        if len < UDP_HEADER_LEN \<or> len > length bytes then Inl InvalidLength
        else Inr \<lparr>dg_bytes = take len bytes\<rparr>)"

definition udp_source_port :: "udp_datagram \<Rightarrow> u16" where
  "udp_source_port d = be16_at (dg_bytes d) 0"

definition udp_destination_port :: "udp_datagram \<Rightarrow> u16" where
  "udp_destination_port d = be16_at (dg_bytes d) 2"

definition udp_payload :: "udp_datagram \<Rightarrow> bytes" where
  "udp_payload d = drop UDP_HEADER_LEN (dg_bytes d)"

definition udp_checksum_field :: "udp_datagram \<Rightarrow> u16" where
  "udp_checksum_field d = be16_at (dg_bytes d) 6"

definition udp_parse_ipv4 :: "ipv4_packet \<Rightarrow> bool \<Rightarrow> packet_error + udp_datagram" where
  "udp_parse_ipv4 ip verify_checksum =
     (case udp_parse (ipv4_payload ip) of
        Inl e \<Rightarrow> Inl e
      | Inr datagram \<Rightarrow>
          if verify_checksum \<and> udp_checksum_field datagram \<noteq> 0 \<and>
            ipv4_transport (ipv4_source ip) (ipv4_destination ip) IPPROTO_UDP (dg_bytes datagram) \<noteq> 0
          then Inl InvalidChecksum
          else Inr datagram)"

definition udp_parse_ipv6 :: "ipv6_packet \<Rightarrow> bool \<Rightarrow> packet_error + udp_datagram" where
  "udp_parse_ipv6 ip verify_checksum =
     (case udp_parse (ipv6_payload ip) of
        Inl e \<Rightarrow> Inl e
      | Inr datagram \<Rightarrow>
          if verify_checksum then
            if udp_checksum_field datagram = 0 then Inl InvalidChecksum
            else if ipv6_transport (ipv6_source ip) (ipv6_destination ip) IPPROTO_UDP
                (dg_bytes datagram) \<noteq> 0 then Inl InvalidChecksum
            else Inr datagram
          else Inr datagram)"

definition udp_write_header :: "u16 \<Rightarrow> u16 \<Rightarrow> usize \<Rightarrow> usize writer" where
  "udp_write_header source_port destination_port payload_len out =
     (case checked_add_usize UDP_HEADER_LEN payload_len of
        None \<Rightarrow> (Inl InvalidLength, out)
      | Some len \<Rightarrow>
          if length out < len \<or> len > 65535 then (Inl InvalidLength, out)
          else
            let out = copy_at 0 (u16_to_be source_port) out;
                out = copy_at 2 (u16_to_be destination_port) out;
                out = copy_at 4 (u16_to_be (word_of_nat len)) out;
                out = fill out 6 8 0
            in (Inr UDP_HEADER_LEN, out))"

definition udp_set_ipv4_checksum :: "bytes \<Rightarrow> bytes \<Rightarrow> unit writer" where
  "udp_set_ipv4_checksum source destination datagram =
     (if length datagram < UDP_HEADER_LEN then (Inl Truncated, datagram)
      else
        let datagram = fill datagram 6 8 0;
            value = ipv4_transport source destination IPPROTO_UDP datagram;
            value = (if value = 0 then 0xffff else value)
        in (Inr (), copy_at 6 (u16_to_be value) datagram))"

definition udp_set_ipv6_checksum :: "bytes \<Rightarrow> bytes \<Rightarrow> unit writer" where
  "udp_set_ipv6_checksum source destination datagram =
     (if length datagram < UDP_HEADER_LEN then (Inl Truncated, datagram)
      else
        let datagram = fill datagram 6 8 0;
            value = ipv6_transport source destination IPPROTO_UDP datagram;
            value = (if value = 0 then 0xffff else value)
        in (Inr (), copy_at 6 (u16_to_be value) datagram))"

section \<open>Building and parsing a datagram\<close>

lemma udp_write_header_ok:
  assumes "8 + n \<le> length out" and "8 + n \<le> 65535"
  obtains out' where "udp_write_header sp dp n out = (Inr 8, out')" and "length out' = length out"
    and "drop 8 out' = drop 8 out" and "be16_at out' 0 = sp" and "be16_at out' 2 = dp"
    and "be16_at out' 4 = word_of_nat (8 + n)" and "subslice 6 8 out' = [0, 0]"
proof
  let ?out' = "fill (copy_at 4 (u16_to_be (word_of_nat (8 + n)))
      (copy_at 2 (u16_to_be dp) (copy_at 0 (u16_to_be sp) out))) 6 8 0"
  show "udp_write_header sp dp n out = (Inr 8, ?out')"
    using assms by (simp add: udp_write_header_def UDP_HEADER_LEN_def checked_add_usize_def Let_def)
  have fill: "be16_at (fill xs 6 8 0) j = be16_at xs j" if "8 \<le> length xs" "j \<le> 4" for xs j
    using that by (simp add: fill_def field_simps_rw)
  show "be16_at ?out' 0 = sp" "be16_at ?out' 2 = dp" "be16_at ?out' 4 = word_of_nat (8 + n)"
    using assms by (simp_all add: fill field_simps_rw)
  show "subslice 6 8 ?out' = [0, 0]" using assms by (simp add: field_simps_rw numeral_2_eq_2)
qed (use assms in \<open>simp_all add: field_simps_rw\<close>)

lemma nonzero_field: "(if v = 0 then 0xffff else v :: u16) \<noteq> 0"
  by simp

lemma udp_set_checksum_ok:
  assumes "8 \<le> length dg" and "length dg \<le> 65535"
  shows "length s = 4 \<Longrightarrow> length d = 4 \<Longrightarrow>
      \<exists>c. c \<noteq> 0 \<and> udp_set_ipv4_checksum s d dg = (Inr (), copy_at 6 (u16_to_be c) dg) \<and>
        ipv4_transport s d IPPROTO_UDP (copy_at 6 (u16_to_be c) dg) = 0"
    and "length s' = 16 \<Longrightarrow> length d' = 16 \<Longrightarrow>
      \<exists>c. c \<noteq> 0 \<and> udp_set_ipv6_checksum s' d' dg = (Inr (), copy_at 6 (u16_to_be c) dg) \<and>
        ipv6_transport s' d' IPPROTO_UDP (copy_at 6 (u16_to_be c) dg) = 0"
proof -
  let ?z = "fill dg 6 8 0"
  have z: "subslice 6 (6 + 2) ?z = [0, 0]" using zero_field [of 6 dg] assms by simp
  { assume ctx: "length s = 4" "length d = 4"
    let ?v = "ipv4_transport s d IPPROTO_UDP ?z"
    have "ipv4_transport s d IPPROTO_UDP (copy_at 6 (u16_to_be (if ?v = 0 then 0xffff else ?v)) ?z) = 0"
      using v4_csum.stored_verifies [of "(s, d, IPPROTO_UDP)" ?z 6]
        v4_csum.stored_ones_verifies [of "(s, d, IPPROTO_UDP)" ?z 6] z assms ctx
      by (auto simp: v4_context_def)
    then show "\<exists>c. c \<noteq> 0 \<and> udp_set_ipv4_checksum s d dg = (Inr (), copy_at 6 (u16_to_be c) dg) \<and>
        ipv4_transport s d IPPROTO_UDP (copy_at 6 (u16_to_be c) dg) = 0"
      using assms by (intro exI [of _ "if ?v = 0 then 0xffff else ?v"])
        (simp add: udp_set_ipv4_checksum_def UDP_HEADER_LEN_def Let_def copy_over_fill) }
  { assume ctx: "length s' = 16" "length d' = 16"
    let ?v = "ipv6_transport s' d' IPPROTO_UDP ?z"
    have "ipv6_transport s' d' IPPROTO_UDP (copy_at 6 (u16_to_be (if ?v = 0 then 0xffff else ?v)) ?z) = 0"
      using v6_csum.stored_verifies [of "(s', d', IPPROTO_UDP)" ?z 6]
        v6_csum.stored_ones_verifies [of "(s', d', IPPROTO_UDP)" ?z 6] z assms ctx
      by (auto simp: v6_context_def)
    then show "\<exists>c. c \<noteq> 0 \<and> udp_set_ipv6_checksum s' d' dg = (Inr (), copy_at 6 (u16_to_be c) dg) \<and>
        ipv6_transport s' d' IPPROTO_UDP (copy_at 6 (u16_to_be c) dg) = 0"
      using assms by (intro exI [of _ "if ?v = 0 then 0xffff else ?v"])
        (simp add: udp_set_ipv6_checksum_def UDP_HEADER_LEN_def Let_def copy_over_fill) }
qed

text \<open>
  What a datagram with a stored checksum parses to, for either family.
\<close>

lemma udp_parse_written:
  assumes "8 + n \<le> length o1" and "8 + n \<le> 65535" and "be16_at o1 4 = word_of_nat (8 + n)"
    and "be16_at o1 0 = sp" and "be16_at o1 2 = dp"
  shows "\<exists>d. udp_parse (copy_at 6 (u16_to_be c) (take (8 + n) o1)) = Inr d \<and>
     dg_bytes d = copy_at 6 (u16_to_be c) (take (8 + n) o1) \<and>
     udp_source_port d = sp \<and> udp_destination_port d = dp \<and> udp_checksum_field d = c \<and>
     udp_payload d = subslice 8 (8 + n) o1"
proof -
  have n: "unat (word_of_nat (8 + n) :: u16) = 8 + n"
    using assms by (simp add: unat_of_nat del: of_nat_add)
  let ?dg = "copy_at 6 (u16_to_be c) (take (8 + n) o1)"
  have len: "length ?dg = 8 + n" using assms by simp
  have "unat (be16_at ?dg 4) = 8 + n" using assms n by (simp add: field_simps_rw del: of_nat_add)
  then have "udp_parse ?dg = Inr \<lparr>dg_bytes = ?dg\<rparr>"
    using len by (simp add: udp_parse_def UDP_HEADER_LEN_def)
  then show ?thesis
    using assms by (simp add: udp_source_port_def udp_destination_port_def udp_checksum_field_def
        udp_payload_def UDP_HEADER_LEN_def field_simps_rw subslice_def drop_take)
qed

text \<open>
  A datagram built by \<open>write_header\<close> and a checksum setter is accepted with checksum
  verification by the parser of its family, as the payload of any IP packet with the same
  addresses, and reads back the ports and the payload; over IPv6 the stored checksum is never
  the zero that the parser must reject.
\<close>

theorem udp_datagram_roundtrip:
  assumes "8 + n \<le> length out" and "8 + n \<le> 65535"
    and "length s4 = 4" and "length d4 = 4" and "length s6 = 16" and "length d6 = 16"
  shows "\<exists>o1 dg4 dg6. udp_write_header sp dp n out = (Inr 8, o1) \<and>
     udp_set_ipv4_checksum s4 d4 (take (8 + n) o1) = (Inr (), dg4) \<and>
     udp_set_ipv6_checksum s6 d6 (take (8 + n) o1) = (Inr (), dg6) \<and>
     (\<forall>ip. ipv4_payload ip = dg4 \<and> ipv4_source ip = s4 \<and> ipv4_destination ip = d4 \<longrightarrow>
        (\<exists>d. udp_parse_ipv4 ip True = Inr d \<and> udp_source_port d = sp \<and>
           udp_destination_port d = dp \<and> udp_payload d = subslice 8 (8 + n) out)) \<and>
     (\<forall>ip. ipv6_payload ip = dg6 \<and> ipv6_source ip = s6 \<and> ipv6_destination ip = d6 \<longrightarrow>
        (\<exists>d. udp_parse_ipv6 ip True = Inr d \<and> udp_source_port d = sp \<and>
           udp_destination_port d = dp \<and> udp_payload d = subslice 8 (8 + n) out))"
proof -
  obtain o1 where w: "udp_write_header sp dp n out = (Inr 8, o1)" and len: "length o1 = length out"
    and rest: "drop 8 o1 = drop 8 out"
    and f: "be16_at o1 0 = sp" "be16_at o1 2 = dp" "be16_at o1 4 = word_of_nat (8 + n)"
    using udp_write_header_ok [OF assms(1,2)] by metis
  let ?dg = "take (8 + n) o1"
  have dg: "8 \<le> length ?dg" "length ?dg \<le> 65535" using assms len by simp_all
  have pay: "subslice 8 (8 + n) o1 = subslice 8 (8 + n) out" using rest by (simp add: subslice_def)
  obtain c4 where c4: "c4 \<noteq> 0" "udp_set_ipv4_checksum s4 d4 ?dg = (Inr (), copy_at 6 (u16_to_be c4) ?dg)"
    "ipv4_transport s4 d4 IPPROTO_UDP (copy_at 6 (u16_to_be c4) ?dg) = 0"
    using udp_set_checksum_ok(1) [OF dg assms(3,4)] by blast
  obtain c6 where c6: "c6 \<noteq> 0" "udp_set_ipv6_checksum s6 d6 ?dg = (Inr (), copy_at 6 (u16_to_be c6) ?dg)"
    "ipv6_transport s6 d6 IPPROTO_UDP (copy_at 6 (u16_to_be c6) ?dg) = 0"
    using udp_set_checksum_ok(2) [OF dg assms(5,6)] by blast
  have parsed: "\<exists>d. udp_parse (copy_at 6 (u16_to_be c) ?dg) = Inr d \<and>
     dg_bytes d = copy_at 6 (u16_to_be c) ?dg \<and> udp_source_port d = sp \<and>
     udp_destination_port d = dp \<and> udp_checksum_field d = c \<and> udp_payload d = subslice 8 (8 + n) out" for c
    using udp_parse_written [of n o1 sp dp c] assms len f pay by simp
  have "\<exists>d. udp_parse_ipv4 ip True = Inr d \<and> udp_source_port d = sp \<and>
      udp_destination_port d = dp \<and> udp_payload d = subslice 8 (8 + n) out"
    if "ipv4_payload ip = copy_at 6 (u16_to_be c4) ?dg \<and> ipv4_source ip = s4 \<and> ipv4_destination ip = d4" for ip
    using that parsed [of c4] c4 by (auto simp: udp_parse_ipv4_def)
  moreover have "\<exists>d. udp_parse_ipv6 ip True = Inr d \<and> udp_source_port d = sp \<and>
      udp_destination_port d = dp \<and> udp_payload d = subslice 8 (8 + n) out"
    if "ipv6_payload ip = copy_at 6 (u16_to_be c6) ?dg \<and> ipv6_source ip = s6 \<and> ipv6_destination ip = d6" for ip
    using that parsed [of c6] c6 by (auto simp: udp_parse_ipv6_def)
  ultimately show ?thesis using w c4(2) c6(2) by blast
qed

theorem udp_datagram_roundtrip_witness:
  "\<exists>o1 dg4 dg6. udp_write_header 4321 53 5 (replicate 20 9) = (Inr 8, o1) \<and>
     udp_set_ipv4_checksum [192, 0, 2, 2] [192, 0, 2, 1] (take (8 + 5) o1) = (Inr (), dg4) \<and>
     udp_set_ipv6_checksum (replicate 16 1) (replicate 16 2) (take (8 + 5) o1) = (Inr (), dg6)"
  using udp_datagram_roundtrip [of 5 "replicate 20 9" "[192, 0, 2, 2]" "[192, 0, 2, 1]"
      "replicate 16 1" "replicate 16 2" 4321 53]
  by simp blast

end
