(* ===== verification/Buffer_Pool.thy ===== *)
theory Buffer_Pool
  imports Prelude
begin

text \<open>
  The fixed pool of frame buffers of \<open>crates/dataplane/src/buffer.rs\<close>. Vectors used as stacks are
  lists whose top is the last element; a failing assertion or index is \<open>None\<close>.
\<close>

section \<open>Frame buffers\<close>

record frame_buffer =
  fb_bytes :: bytes
  fb_len :: usize

definition fb_new :: "usize \<Rightarrow> frame_buffer" where
  "fb_new capacity = \<lparr>fb_bytes = replicate capacity 0, fb_len = 0\<rparr>"

definition fb_capacity :: "frame_buffer \<Rightarrow> usize" where
  "fb_capacity b = length (fb_bytes b)"

text \<open>\<open>writable\<close> hands out the whole buffer; \<open>g\<close> is what the caller does to it, keeping its length.\<close>

definition fb_writable :: "(bytes \<Rightarrow> bytes) \<Rightarrow> frame_buffer \<Rightarrow> frame_buffer" where
  "fb_writable g b = b\<lparr>fb_len := 0, fb_bytes := g (fb_bytes b)\<rparr>"

definition fb_set_len :: "usize \<Rightarrow> frame_buffer \<Rightarrow> frame_buffer option" where
  "fb_set_len n b = (if n \<le> fb_capacity b then Some (b\<lparr>fb_len := n\<rparr>) else None)"

definition fb_contents :: "frame_buffer \<Rightarrow> bytes" where
  "fb_contents b = take (fb_len b) (fb_bytes b)"

section \<open>The pool\<close>

record buffer_pool =
  pool_buffers :: "frame_buffer option list"
  pool_free :: "usize list"

definition pool_new :: "usize \<Rightarrow> usize \<Rightarrow> buffer_pool" where
  "pool_new n frame_capacity =
     \<lparr>pool_buffers = replicate n (Some (fb_new frame_capacity)), pool_free = rev [0..<n]\<rparr>"

text \<open>The outer option is the panic of the index, the inner one the result of the source.\<close>

definition pool_acquire :: "buffer_pool \<Rightarrow> ((usize \<times> frame_buffer) option \<times> buffer_pool) option" where
  "pool_acquire p =
     (if pool_free p = [] then Some (None, p)
      else let index = last (pool_free p);
               p = p\<lparr>pool_free := butlast (pool_free p)\<rparr>
           in if index \<ge> length (pool_buffers p) then None
              else case pool_buffers p ! index of
                     None \<Rightarrow> Some (None, p)
                   | Some buffer \<Rightarrow>
                       Some (Some (index, buffer), p\<lparr>pool_buffers := (pool_buffers p)[index := None]\<rparr>))"

definition pool_release :: "usize \<Rightarrow> frame_buffer \<Rightarrow> buffer_pool \<Rightarrow> buffer_pool option" where
  "pool_release index buffer p =
     (if index < length (pool_buffers p) \<and> pool_buffers p ! index = None
      then Some (p\<lparr>pool_buffers := (pool_buffers p)[index := Some buffer], pool_free := pool_free p @ [index]\<rparr>)
      else None)"

definition pool_available :: "buffer_pool \<Rightarrow> usize" where
  "pool_available p = length (pool_free p)"

section \<open>Runs of the pool\<close>

text \<open>
  The data plane holds a set of acquired indices and releases only those. \<open>pool_run n p held\<close> are the
  states of a pool of \<open>n\<close> buffers under that discipline.
\<close>

inductive pool_run :: "nat \<Rightarrow> buffer_pool \<Rightarrow> nat set \<Rightarrow> bool" where
  pool_start: "pool_run n (pool_new n c) {}"
| pool_take: "pool_run n p held \<Longrightarrow> pool_acquire p = Some (Some (i, b), p') \<Longrightarrow> pool_run n p' (insert i held)"
| pool_give: "pool_run n p held \<Longrightarrow> i \<in> held \<Longrightarrow> pool_release i b p = Some p' \<Longrightarrow> pool_run n p' (held - {i})"

definition pool_ok :: "nat \<Rightarrow> buffer_pool \<Rightarrow> nat set \<Rightarrow> bool" where
  "pool_ok n p held \<longleftrightarrow> length (pool_buffers p) = n \<and> distinct (pool_free p) \<and>
     set (pool_free p) = {..<n} - held \<and> held \<subseteq> {..<n} \<and>
     (\<forall>i < n. pool_buffers p ! i = None \<longleftrightarrow> i \<in> held)"

lemma pool_acquire_cases:
  assumes ok: "pool_ok n p held"
  obtains (none) "pool_free p = []" "held = {..<n}" "pool_acquire p = Some (None, p)"
  | (some) i b where "i < n" "i \<notin> held" "pool_buffers p ! i = Some b"
      "pool_acquire p = Some (Some (i, b), p\<lparr>pool_free := butlast (pool_free p),
         pool_buffers := (pool_buffers p)[i := None]\<rparr>)" "i = last (pool_free p)" "pool_free p \<noteq> []"
proof (cases "pool_free p = []")
  case True
  then show ?thesis
    using ok by (intro none) (auto simp: pool_ok_def pool_acquire_def)
next
  case False
  then have "last (pool_free p) \<in> set (pool_free p)"
    by simp
  then have i: "last (pool_free p) < n" "last (pool_free p) \<notin> held"
    using ok by (auto simp: pool_ok_def)
  then obtain b where "pool_buffers p ! last (pool_free p) = Some b"
    using ok by (auto simp: pool_ok_def)
  then show ?thesis
    using False ok i by (intro some) (auto simp: pool_ok_def pool_acquire_def Let_def)
qed

lemma pool_run_ok: "pool_run n p held \<Longrightarrow> pool_ok n p held"
proof (induction rule: pool_run.induct)
  case (pool_start n c)
  then show ?case
    by (auto simp: pool_ok_def pool_new_def)
next
  case (pool_take n p held i b p')
  from pool_take.IH show ?case
  proof (cases rule: pool_acquire_cases)
    case none
    then show ?thesis
      using pool_take.hyps by simp
  next
    case (some j c)
    then have p': "p' = p\<lparr>pool_free := butlast (pool_free p), pool_buffers := (pool_buffers p)[j := None]\<rparr>" "j = i"
      using pool_take.hyps by simp_all
    have "set (butlast (pool_free p)) = set (pool_free p) - {j}"
      using some pool_take.IH by (simp add: set_butlast_distinct pool_ok_def)
    then show ?thesis
      using pool_take.IH some p' by (auto simp: pool_ok_def nth_list_update distinct_butlast)
  qed
next
  case (pool_give n p held i b p')
  then have p': "p' = p\<lparr>pool_buffers := (pool_buffers p)[i := Some b], pool_free := pool_free p @ [i]\<rparr>"
    by (simp add: pool_release_def split: if_splits)
  have "set (pool_free p @ [i]) = {..<n} - (held - {i})" "i < n" "distinct (pool_free p @ [i])"
    using pool_give by (auto simp: pool_ok_def)
  moreover have "\<forall>j < n. (pool_buffers p)[i := Some b] ! j = None \<longleftrightarrow> j \<in> held - {i}"
    using pool_give by (auto simp: pool_ok_def nth_list_update subset_iff)
  ultimately show ?case
    using pool_give unfolding pool_ok_def p' by (simp add: subset_iff)
qed

text \<open>
  The pool conserves its buffers. In every state, the free and the held indices partition the
  pool; \<open>acquire\<close> fails only when every buffer is held and otherwise hands out one that nobody holds;
  releasing a held index never trips the assertion, and the next \<open>acquire\<close> returns that very buffer.
\<close>

theorem pool_conserves_buffers:
  assumes run: "pool_run n p held"
  shows "pool_available p + card held = n \<and>
    (pool_acquire p = Some (None, p) \<and> held = {..<n} \<or>
     (\<exists>i b p'. pool_acquire p = Some (Some (i, b), p') \<and> i < n \<and> i \<notin> held)) \<and>
    (\<forall>i \<in> held. \<forall>b. \<exists>p'. pool_release i b p = Some p' \<and>
       (\<exists>p''. pool_acquire p' = Some (Some (i, b), p'')))"
proof (intro conjI ballI allI)
  have ok: "pool_ok n p held"
    using run by (rule pool_run_ok)
  have "length (pool_free p) = card ({..<n} - held)"
    using ok distinct_card [of "pool_free p"] by (simp add: pool_ok_def)
  moreover have "card held \<le> n"
    using ok card_mono [of "{..<n}" held] by (simp add: pool_ok_def)
  ultimately show "pool_available p + card held = n"
    using ok by (simp add: pool_available_def pool_ok_def card_Diff_subset
        finite_subset [of held "{..<n}"])
  show "pool_acquire p = Some (None, p) \<and> held = {..<n} \<or>
      (\<exists>i b p'. pool_acquire p = Some (Some (i, b), p') \<and> i < n \<and> i \<notin> held)"
    using ok by (cases rule: pool_acquire_cases) blast+
  fix i b
  assume "i \<in> held"
  then show "\<exists>p'. pool_release i b p = Some p' \<and> (\<exists>p''. pool_acquire p' = Some (Some (i, b), p''))"
    using ok by (auto simp: pool_ok_def pool_release_def pool_acquire_def)
qed

theorem pool_conserves_buffers_witness:
  "pool_available (pool_new 3 2048) = 3"
  using pool_conserves_buffers [OF pool_start, of 3 2048] by simp

end
