(* ===== verification/Reactor_Frames.thy ===== *)
theory Reactor_Frames
  imports Reactor_Config Neighbor Tcp_Segment Udp_Datagram Buffer_Pool
begin

text \<open>
  Frames between the reactor and the TAP device (\<open>crates/dataplane/src/reactor.rs\<close>): how a received
  frame is split, parsed and dispatched (\<open>split_rx_vnet\<close>, \<open>handle_frame\<close>, \<open>handle_arp\<close>, \<open>handle_ipv4\<close>,
  \<open>handle_ipv6\<close> up to the call of the handler, which is the \<open>rx_event\<close>), and how TCP and UDP frames are
  built in a pooled buffer. The byte order of the target is the flag \<open>big\<close>. A panic of a slice
  expression is \<open>None\<close>. Of the metrics only the pool exhaustion counters are kept; whether a received
  frame counts as a super-frame is part of the result of \<open>split_rx_vnet\<close>.
  The error \<open>Io\<close> arises from system calls only, and none is made here.
\<close>

section \<open>Receiving\<close>

datatype reactor_error = Io | PacketError packet_error | Invariant string

datatype rx_event = RxIgnored | RxArp arp_request | RxSolicitation mac_address bytes
  | RxUdp socket_addr socket_addr bytes | RxTcp flow_key tcp_segment

text \<open>The result carries whether the frame counts as a received super-frame.\<close>

definition split_rx_vnet :: "bool \<Rightarrow> usize \<Rightarrow> bytes \<Rightarrow> reactor_error + bytes \<times> bool \<times> bool" where
  "split_rx_vnet big vnet_len bs =
     (if vnet_len = 0 then Inr (bs, True, False)
      else case vnet_parse big bs of
             Inl e \<Rightarrow> Inl (PacketError e)
           | Inr header \<Rightarrow>
               if vn_gso_type header \<notin> {GSO_NONE, GSO_TCPV4, GSO_TCPV6}
               then Inl (Invariant ''TAP frame carries an unnegotiated GSO type'')
               else let verify_checksum = (vn_flags header AND (FLAG_NEEDS_CSUM OR FLAG_DATA_VALID) = 0)
                    in Inr (drop vnet_len bs, verify_checksum, vn_gso_type header \<noteq> GSO_NONE))"

definition handle_arp :: "reactor_config \<Rightarrow> ethernet_frame \<Rightarrow> reactor_error + rx_event" where
  "handle_arp c ethernet =
     (case gateway_ipv4 c of
        None \<Rightarrow> Inr RxIgnored
      | Some gateway \<Rightarrow>
          (case parse_arp_request (eth_payload ethernet) of
             Inl e \<Rightarrow> Inl (PacketError e)
           | Inr request \<Rightarrow>
               if arp_target_ip request \<noteq> gateway then Inr RxIgnored else Inr (RxArp request)))"

definition handle_ipv4 :: "ethernet_frame \<Rightarrow> bool \<Rightarrow> reactor_error + rx_event" where
  "handle_ipv4 ethernet verify_checksum =
     (case ipv4_parse (eth_payload ethernet) of
        Inl e \<Rightarrow> Inl (PacketError e)
      | Inr packet \<Rightarrow>
          if ipv4_protocol packet = IPPROTO_UDP then
            (case udp_parse_ipv4 packet verify_checksum of
               Inl e \<Rightarrow> Inl (PacketError e)
             | Inr datagram \<Rightarrow>
                 Inr (RxUdp (AddrV4 (ipv4_source packet) (udp_source_port datagram))
                            (AddrV4 (ipv4_destination packet) (udp_destination_port datagram))
                            (udp_payload datagram)))
          else if ipv4_protocol packet \<noteq> IPPROTO_TCP then Inr RxIgnored
          else (case tcp_parse_ipv4 packet verify_checksum of
                  Inl e \<Rightarrow> Inl (PacketError e)
                | Inr segment \<Rightarrow>
                    Inr (RxTcp \<lparr>key_namespace = AddrV4 (ipv4_source packet) (tcp_source_port segment),
                                key_target = AddrV4 (ipv4_destination packet) (tcp_destination_port segment)\<rparr>
                           segment)))"

definition handle_ipv6 :: "reactor_config \<Rightarrow> ethernet_frame \<Rightarrow> bool \<Rightarrow> reactor_error + rx_event" where
  "handle_ipv6 c ethernet verify_checksum =
     (case ipv6_parse (eth_payload ethernet) of
        Inl e \<Rightarrow> Inl (PacketError e)
      | Inr packet \<Rightarrow>
          if ipv6_next_header packet = IPPROTO_ICMPV6 then
            if ipv6_payload packet = [] \<or> hd (ipv6_payload packet) \<noteq> 135 then Inr RxIgnored
            else (case gateway_ipv6 c of
                    None \<Rightarrow> Inr RxIgnored
                  | Some gateway \<Rightarrow>
                      (case parse_neighbor_solicitation packet of
                         Inl e \<Rightarrow> Inl (PacketError e)
                       | Inr solicited \<Rightarrow>
                           if solicited \<noteq> gateway then Inr RxIgnored
                           else Inr (RxSolicitation (eth_source ethernet) (ipv6_source packet))))
          else if ipv6_next_header packet = IPPROTO_UDP then
            (case udp_parse_ipv6 packet verify_checksum of
               Inl e \<Rightarrow> Inl (PacketError e)
             | Inr datagram \<Rightarrow>
                 Inr (RxUdp (AddrV6 (ipv6_source packet) (udp_source_port datagram) 0 0)
                            (AddrV6 (ipv6_destination packet) (udp_destination_port datagram) 0 0)
                            (udp_payload datagram)))
          else if ipv6_next_header packet \<noteq> IPPROTO_TCP then Inr RxIgnored
          else (case tcp_parse_ipv6 packet verify_checksum of
                  Inl e \<Rightarrow> Inl (PacketError e)
                | Inr segment \<Rightarrow>
                    Inr (RxTcp \<lparr>key_namespace = AddrV6 (ipv6_source packet) (tcp_source_port segment) 0 0,
                                key_target = AddrV6 (ipv6_destination packet) (tcp_destination_port segment) 0 0\<rparr>
                           segment)))"

definition handle_frame :: "bool \<Rightarrow> reactor_config \<Rightarrow> bytes \<Rightarrow> reactor_error + rx_event" where
  "handle_frame big c bs =
     (case split_rx_vnet big (vnet_len_of c) bs of
        Inl e \<Rightarrow> Inl e
      | Inr (body, verify_checksum, gso) \<Rightarrow>
          (case eth_parse body of
             Inl e \<Rightarrow> Inl (PacketError e)
           | Inr ethernet \<Rightarrow>
               (case eth_ether_type ethernet of
                  Arp \<Rightarrow> handle_arp c ethernet
                | Ipv4 \<Rightarrow> handle_ipv4 ethernet verify_checksum
                | Ipv6 \<Rightarrow> handle_ipv6 c ethernet verify_checksum
                | Other v \<Rightarrow> Inr RxIgnored)))"

section \<open>Building TCP frames\<close>

record tcp_frame_spec =
  fs_key :: flow_key
  fs_plan :: send_plan
  fs_flags :: tcp_flags
  fs_mss :: "u16 option"
  fs_window_scale :: "u8 option"
  fs_window :: u16
  fs_payload_len :: usize
  fs_gso_size :: "u16 option"

definition ip_header_len :: "socket_addr \<Rightarrow> usize" where
  "ip_header_len a = (if is_ipv4 a then 20 else 40)"

definition tcp_payload_offset :: "reactor_config \<Rightarrow> flow_key \<Rightarrow> u16 option \<Rightarrow> u8 option \<Rightarrow> usize" where
  "tcp_payload_offset c key offered_mss window_scale =
     (let tcp_header_len = TCP_MIN_HEADER_LEN + (if offered_mss \<noteq> None then 4 else 0)
            + (if window_scale \<noteq> None then 4 else 0)
      in vnet_len_of c + ETHERNET_HEADER_LEN + ip_header_len (key_target key) + tcp_header_len)"

definition header_spec :: "tcp_frame_spec \<Rightarrow> tcp_header_spec" where
  "header_spec fs = \<lparr>sp_source_port = addr_port (key_target (fs_key fs)),
     sp_destination_port = addr_port (key_namespace (fs_key fs)),
     sp_sequence = plan_sequence (fs_plan fs), sp_acknowledgment = plan_acknowledgment (fs_plan fs),
     sp_flags = fs_flags fs, sp_window = fs_window fs, sp_mss = fs_mss fs,
     sp_window_scale = fs_window_scale fs\<rparr>"

definition frame_ether_type :: "socket_addr \<Rightarrow> ether_type" where
  "frame_ether_type a = (if is_ipv4 a then Ipv4 else Ipv6)"

definition finish_packet ::
  "usize \<Rightarrow> usize \<Rightarrow> usize \<Rightarrow> usize writer \<Rightarrow> unit writer \<Rightarrow> bytes \<Rightarrow> (reactor_error + unit) \<times> bytes" where
  "finish_packet ip_offset transport_offset frame_len write_ip set_checksum bs =
     (case on_slice ip_offset frame_len write_ip bs of
        (Inl e, bs) \<Rightarrow> (Inl (PacketError e), bs)
      | (Inr _, bs) \<Rightarrow>
          (case on_slice transport_offset frame_len set_checksum bs of
             (Inl e, bs) \<Rightarrow> (Inl (PacketError e), bs)
           | (Inr _, bs) \<Rightarrow> (Inr (), bs)))"

definition tcp_write_ip ::
  "bool \<Rightarrow> flow_key \<Rightarrow> usize \<Rightarrow> usize \<Rightarrow> usize \<Rightarrow> usize \<Rightarrow> bytes \<Rightarrow> (reactor_error + unit) \<times> bytes" where
  "tcp_write_ip offload key ip_offset tcp_offset frame_len transport_len bs =
     (case (key_target key, key_namespace key) of
        (AddrV4 source sport, AddrV4 destination dport) \<Rightarrow>
          finish_packet ip_offset tcp_offset frame_len
            (write_ipv4_header source destination IPPROTO_TCP transport_len 0)
            (if offload then tcp_set_ipv4_partial_checksum source destination
             else tcp_set_ipv4_checksum source destination) bs
      | (AddrV6 source sport fl sc, AddrV6 destination dport fl' sc') \<Rightarrow>
          finish_packet ip_offset tcp_offset frame_len
            (write_ipv6_header source destination IPPROTO_TCP transport_len)
            (if offload then tcp_set_ipv6_partial_checksum source destination
             else tcp_set_ipv6_checksum source destination) bs
      | _ \<Rightarrow> (Inl (Invariant ''mixed address families in flow''), bs))"

definition offload_header :: "reactor_config \<Rightarrow> tcp_frame_spec \<Rightarrow> vnet_header" where
  "offload_header c fs =
     (let key = fs_key fs;
          payload_offset = tcp_payload_offset c key (fs_mss fs) (fs_window_scale fs);
          gso_size = (case fs_gso_size fs of
                        None \<Rightarrow> None
                      | Some g \<Rightarrow> if fs_payload_len fs > unat g then Some g else None)
      in \<lparr>vn_flags = FLAG_NEEDS_CSUM,
          vn_gso_type = (case gso_size of
                           None \<Rightarrow> GSO_NONE
                         | Some g \<Rightarrow> if is_ipv4 (key_target key) then GSO_TCPV4 else GSO_TCPV6),
          vn_hdr_len = word_of_nat (payload_offset - vnet_len_of c),
          vn_gso_size = (case gso_size of None \<Rightarrow> 0 | Some g \<Rightarrow> g),
          vn_csum_start = word_of_nat (ETHERNET_HEADER_LEN + ip_header_len (key_target key)),
          vn_csum_offset = 16\<rparr>)"

text \<open>\<open>None\<close> is the panic of a slice expression out of range.\<close>

definition finalize_tcp_frame ::
  "bool \<Rightarrow> reactor_config \<Rightarrow> tcp_frame_spec \<Rightarrow> bytes \<Rightarrow> ((reactor_error + usize) \<times> bytes) option" where
  "finalize_tcp_frame big c fs bs =
     (let key = fs_key fs;
          vnet_len = vnet_len_of c;
          payload_offset = tcp_payload_offset c key (fs_mss fs) (fs_window_scale fs);
          frame_len = payload_offset + fs_payload_len fs
      in if vnet_len > length bs then None
         else let bs = fill bs 0 vnet_len 0
         in case on_slice vnet_len (length bs)
                 (eth_write_header (target_mac c) (gateway_mac c) (frame_ether_type (key_target key))) bs of
              (Inl e, bs) \<Rightarrow> Some (Inl (PacketError e), bs)
            | (Inr _, bs) \<Rightarrow>
                let ip_offset = vnet_len + ETHERNET_HEADER_LEN;
                    tcp_offset = ip_offset + ip_header_len (key_target key)
                in if frame_len > length bs then None
                   else case on_slice tcp_offset frame_len (tcp_write_header (header_spec fs)) bs of
                          (Inl e, bs) \<Rightarrow> Some (Inl (PacketError e), bs)
                        | (Inr written, bs) \<Rightarrow>
                            (case tcp_write_ip (vnet_len > 0) key ip_offset tcp_offset frame_len
                                    (written + fs_payload_len fs) bs of
                               (Inl e, bs) \<Rightarrow> Some (Inl e, bs)
                             | (Inr _, bs) \<Rightarrow>
                                 if vnet_len = 0 then Some (Inr frame_len, bs)
                                 else (case on_slice 0 vnet_len (vnet_write big (offload_header c fs)) bs of
                                         (Inl e, bs) \<Rightarrow> Some (Inl (PacketError e), bs)
                                       | (Inr _, bs) \<Rightarrow> Some (Inr frame_len, bs))))"

section \<open>Frames from the pools\<close>

datatype frame_tier = Mtu | Gso

record pooled_frame =
  pf_tier :: frame_tier
  pf_index :: usize
  pf_buffer :: frame_buffer

record tap_frames =
  frame_pool :: buffer_pool
  gso_pool :: buffer_pool
  mtu_frame_capacity :: usize
  frame_pool_exhaustions :: u64
  gso_pool_exhaustions :: u64

definition note_frame_pool_exhaustion :: "tap_frames \<Rightarrow> tap_frames" where
  "note_frame_pool_exhaustion t = t\<lparr>frame_pool_exhaustions := frame_pool_exhaustions t + 1\<rparr>"

definition acquire_frame :: "tap_frames \<Rightarrow> ((reactor_error + pooled_frame) \<times> tap_frames) option" where
  "acquire_frame t =
     (case pool_acquire (frame_pool t) of
        None \<Rightarrow> None
      | Some (Some (index, buffer), pool) \<Rightarrow>
          Some (Inr \<lparr>pf_tier = Mtu, pf_index = index, pf_buffer = buffer\<rparr>, t\<lparr>frame_pool := pool\<rparr>)
      | Some (None, pool) \<Rightarrow>
          Some (Inl (Invariant ''TAP frame pool exhausted''), note_frame_pool_exhaustion (t\<lparr>frame_pool := pool\<rparr>)))"

definition acquire_payload_frame :: "usize \<Rightarrow> tap_frames \<Rightarrow> ((reactor_error + pooled_frame) \<times> tap_frames) option" where
  "acquire_payload_frame required t =
     (if required > mtu_frame_capacity t then
        (case pool_acquire (gso_pool t) of
           None \<Rightarrow> None
         | Some (Some (index, buffer), pool) \<Rightarrow>
             Some (Inr \<lparr>pf_tier = Gso, pf_index = index, pf_buffer = buffer\<rparr>, t\<lparr>gso_pool := pool\<rparr>)
         | Some (None, pool) \<Rightarrow>
             acquire_frame (t\<lparr>gso_pool := pool, gso_pool_exhaustions := gso_pool_exhaustions t + 1\<rparr>))
      else acquire_frame t)"

definition release_frame :: "pooled_frame \<Rightarrow> tap_frames \<Rightarrow> tap_frames option" where
  "release_frame f t =
     (case pf_tier f of
        Mtu \<Rightarrow> map_option (\<lambda>pool. t\<lparr>frame_pool := pool\<rparr>) (pool_release (pf_index f) (pf_buffer f) (frame_pool t))
      | Gso \<Rightarrow> map_option (\<lambda>pool. t\<lparr>gso_pool := pool\<rparr>) (pool_release (pf_index f) (pf_buffer f) (gso_pool t)))"

text \<open>Giving up a frame: it goes back to its pool and the error is returned.\<close>

definition give_up :: "reactor_error \<Rightarrow> pooled_frame \<Rightarrow> tap_frames \<Rightarrow> ((reactor_error + 'a) \<times> tap_frames) option" where
  "give_up e f t = map_option (Pair (Inl e)) (release_frame f t)"

text \<open>\<open>finalize_tcp_frame\<close> on a pooled frame, with the release that its callers do on an error.\<close>

definition finalize_or_release ::
  "bool \<Rightarrow> reactor_config \<Rightarrow> tcp_frame_spec \<Rightarrow> pooled_frame \<Rightarrow> tap_frames \<Rightarrow>
     ((reactor_error + pooled_frame) \<times> tap_frames) option" where
  "finalize_or_release big c fs f t =
     (case finalize_tcp_frame big c fs (fb_bytes (pf_buffer f)) of
        None \<Rightarrow> None
      | Some (Inl e, bs) \<Rightarrow> give_up e (f\<lparr>pf_buffer := fb_writable (\<lambda>_. bs) (pf_buffer f)\<rparr>) t
      | Some (Inr frame_len, bs) \<Rightarrow>
          (case fb_set_len frame_len (fb_writable (\<lambda>_. bs) (pf_buffer f)) of
             None \<Rightarrow> None
           | Some buffer \<Rightarrow> Some (Inr (f\<lparr>pf_buffer := buffer\<rparr>), t)))"

definition build_tcp_frame ::
  "bool \<Rightarrow> reactor_config \<Rightarrow> flow_key \<Rightarrow> send_plan \<Rightarrow> bytes \<Rightarrow> tcp_flags \<Rightarrow> u16 option \<Rightarrow> u8 option \<Rightarrow> u16 \<Rightarrow>
     tap_frames \<Rightarrow> ((reactor_error + pooled_frame) \<times> tap_frames) option" where
  "build_tcp_frame big c key plan payload flags offered_mss window_scale window t =
     (case acquire_frame t of
        None \<Rightarrow> None
      | Some (Inl e, t) \<Rightarrow> Some (Inl e, t)
      | Some (Inr f, t) \<Rightarrow>
          let payload_offset = tcp_payload_offset c key offered_mss window_scale;
              frame_len = payload_offset + length payload
          in if frame_len > fb_capacity (pf_buffer f)
             then give_up (Invariant ''TCP frame exceeds buffer capacity'') f t
             else let f = f\<lparr>pf_buffer := fb_writable (copy_at payload_offset payload) (pf_buffer f)\<rparr>
                  in finalize_or_release big c
                       \<lparr>fs_key = key, fs_plan = plan, fs_flags = flags, fs_mss = offered_mss,
                        fs_window_scale = window_scale, fs_window = window,
                        fs_payload_len = length payload, fs_gso_size = None\<rparr> f t)"

definition no_flags :: tcp_flags where
  "no_flags = \<lparr>fl_fin = False, fl_syn = False, fl_rst = False, fl_psh = False, fl_ack = False\<rparr>"

definition build_reset ::
  "bool \<Rightarrow> reactor_config \<Rightarrow> flow_key \<Rightarrow> u32 \<Rightarrow> tap_frames \<Rightarrow>
     ((reactor_error + pooled_frame) \<times> tap_frames) option" where
  "build_reset big c key acknowledgment t =
     build_tcp_frame big c key
       \<lparr>plan_sequence = 0, plan_acknowledgment = acknowledgment, plan_length = 0, plan_syn = False,
        plan_fin = False\<rparr> []
       (no_flags\<lparr>fl_rst := True, fl_ack := True\<rparr>) None None 0 t"

text \<open>
  The parameters of a frame for a flow; the flow entry is given by its flow and its construction.
\<close>

definition flow_frame_parameters ::
  "flow \<Rightarrow> flow_construction \<Rightarrow> bool \<Rightarrow> (reactor_error + flow_key \<times> u16 \<times> u16 \<times> u8) option" where
  "flow_frame_parameters fl con syn =
     (case active_sides con of
        None \<Rightarrow> None
      | Some None \<Rightarrow> Some (Inl (Invariant ''inactive flow reached packet builder''))
      | Some (Some sides) \<Rightarrow>
          Some (Inr (namespace_key sides, mss fl, window_field syn fl, local_window_shift fl)))"

definition build_flow_frame ::
  "bool \<Rightarrow> reactor_config \<Rightarrow> flow \<Rightarrow> flow_construction \<Rightarrow> send_plan \<Rightarrow> bytes \<Rightarrow> tcp_flags \<Rightarrow> tap_frames \<Rightarrow>
     ((reactor_error + pooled_frame) \<times> tap_frames) option" where
  "build_flow_frame big c fl con plan payload flags t =
     (case flow_frame_parameters fl con (fl_syn flags) of
        None \<Rightarrow> None
      | Some (Inl e) \<Rightarrow> Some (Inl e, t)
      | Some (Inr (key, segment_size, window, window_shift)) \<Rightarrow>
          let window_scale = (if fl_syn flags \<and> window_shift > 0 then Some window_shift else None)
          in build_tcp_frame big c key plan payload flags
               (if fl_syn flags then Some segment_size else None) window_scale window t)"

definition finalize_flow_payload_frame ::
  "bool \<Rightarrow> reactor_config \<Rightarrow> flow \<Rightarrow> flow_construction \<Rightarrow> pooled_frame \<Rightarrow> send_plan \<Rightarrow> tcp_flags \<Rightarrow> usize \<Rightarrow>
     tap_frames \<Rightarrow> ((reactor_error + pooled_frame) \<times> tap_frames) option" where
  "finalize_flow_payload_frame big c fl con f plan flags payload_len t =
     (case flow_frame_parameters fl con False of
        None \<Rightarrow> None
      | Some (Inl e) \<Rightarrow> give_up e f t
      | Some (Inr (key, segment_size, window, _)) \<Rightarrow>
          finalize_or_release big c
            \<lparr>fs_key = key, fs_plan = plan, fs_flags = flags, fs_mss = None, fs_window_scale = None,
             fs_window = window, fs_payload_len = payload_len, fs_gso_size = Some segment_size\<rparr> f t)"

section \<open>Building UDP frames\<close>

definition udp_write_ip ::
  "socket_addr \<Rightarrow> socket_addr \<Rightarrow> usize \<Rightarrow> usize \<Rightarrow> usize \<Rightarrow> usize \<Rightarrow> bytes \<Rightarrow> (reactor_error + unit) \<times> bytes" where
  "udp_write_ip source destination ip_offset udp_offset frame_len transport_len bs =
     (case (source, destination) of
        (AddrV4 src sport, AddrV4 dst dport) \<Rightarrow>
          finish_packet ip_offset udp_offset frame_len
            (write_ipv4_header src dst IPPROTO_UDP transport_len 0) (udp_set_ipv4_checksum src dst) bs
      | (AddrV6 src sport fl sc, AddrV6 dst dport fl' sc') \<Rightarrow>
          finish_packet ip_offset udp_offset frame_len
            (write_ipv6_header src dst IPPROTO_UDP transport_len) (udp_set_ipv6_checksum src dst) bs
      | _ \<Rightarrow> (Inl (PacketError ProtocolMismatch), bs))"

definition write_udp_frame ::
  "reactor_config \<Rightarrow> socket_addr \<Rightarrow> socket_addr \<Rightarrow> bytes \<Rightarrow> bytes \<Rightarrow> (reactor_error + usize) \<times> bytes" where
  "write_udp_frame c client gateway payload bs =
     (let vnet_len = vnet_len_of c;
          ip_offset = vnet_len + ETHERNET_HEADER_LEN;
          udp_offset = ip_offset + ip_header_len client;
          frame_len = udp_offset + UDP_HEADER_LEN + length payload;
          bs = fill bs 0 vnet_len 0
      in case on_slice vnet_len (length bs)
              (eth_write_header (target_mac c) (gateway_mac c) (frame_ether_type client)) bs of
           (Inl e, bs) \<Rightarrow> (Inl (PacketError e), bs)
         | (Inr _, bs) \<Rightarrow>
             let bs = copy_at (udp_offset + UDP_HEADER_LEN) payload bs
             in case on_slice udp_offset frame_len
                     (udp_write_header (addr_port gateway) (addr_port client) (length payload)) bs of
                  (Inl e, bs) \<Rightarrow> (Inl (PacketError e), bs)
                | (Inr _, bs) \<Rightarrow>
                    (case udp_write_ip gateway client ip_offset udp_offset frame_len
                            (UDP_HEADER_LEN + length payload) bs of
                       (Inl e, bs) \<Rightarrow> (Inl e, bs)
                     | (Inr _, bs) \<Rightarrow> (Inr frame_len, bs)))"

text \<open>
  \<open>queue_udp_frame\<close> up to the hand-over to the TAP queue: \<open>Inr None\<close> is the counted drop when the pool is
  dry.
\<close>

definition build_udp_frame ::
  "reactor_config \<Rightarrow> socket_addr \<Rightarrow> socket_addr \<Rightarrow> bytes \<Rightarrow> tap_frames \<Rightarrow>
     ((reactor_error + pooled_frame option) \<times> tap_frames) option" where
  "build_udp_frame c client gateway payload t =
     (let udp_offset = vnet_len_of c + ETHERNET_HEADER_LEN + ip_header_len client;
          frame_len = udp_offset + UDP_HEADER_LEN + length payload
      in case pool_acquire (frame_pool t) of
           None \<Rightarrow> None
         | Some (None, pool) \<Rightarrow> Some (Inr None, note_frame_pool_exhaustion (t\<lparr>frame_pool := pool\<rparr>))
         | Some (Some (index, buffer), pool) \<Rightarrow>
             let f = \<lparr>pf_tier = Mtu, pf_index = index, pf_buffer = buffer\<rparr>;
                 t = t\<lparr>frame_pool := pool\<rparr>
             in if frame_len > fb_capacity buffer
                then give_up (Invariant ''DNS reply exceeds frame capacity'') f t
                else (case write_udp_frame c client gateway payload (fb_bytes buffer) of
                        (Inl e, bs) \<Rightarrow> give_up e (f\<lparr>pf_buffer := fb_writable (\<lambda>_. bs) buffer\<rparr>) t
                      | (Inr n, bs) \<Rightarrow>
                          (case fb_set_len n (fb_writable (\<lambda>_. bs) buffer) of
                             None \<Rightarrow> None
                           | Some buffer \<Rightarrow> Some (Inr (Some (f\<lparr>pf_buffer := buffer\<rparr>)), t))))"

section \<open>Answers to address resolution\<close>

text \<open>
  The frame that answers an ARP request or a neighbor solicitation: the virtio header is cleared, the
  answer is written after it, and the frame goes back to the pool when the writer fails.
\<close>

definition answer_frame :: "reactor_config \<Rightarrow> usize writer \<Rightarrow> tap_frames \<Rightarrow>
    ((reactor_error + pooled_frame) \<times> tap_frames) option" where
  "answer_frame c write t =
     (case acquire_frame t of
        None \<Rightarrow> None
      | Some (Inl e, t) \<Rightarrow> Some (Inl e, t)
      | Some (Inr f, t) \<Rightarrow>
          let vnet_len = vnet_len_of c;
              bs = fb_bytes (pf_buffer f)
          in if vnet_len > length bs then None
             else (case on_slice vnet_len (length bs) write (fill bs 0 vnet_len 0) of
                     (Inl e, bs) \<Rightarrow> give_up (PacketError e) (f\<lparr>pf_buffer := fb_writable (\<lambda>_. bs) (pf_buffer f)\<rparr>) t
                   | (Inr n, bs) \<Rightarrow>
                       (case fb_set_len (vnet_len + n) (fb_writable (\<lambda>_. bs) (pf_buffer f)) of
                          None \<Rightarrow> None
                        | Some buffer \<Rightarrow> Some (Inr (f\<lparr>pf_buffer := buffer\<rparr>), t))))"

definition arp_answer :: "reactor_config \<Rightarrow> bytes \<Rightarrow> arp_request \<Rightarrow> tap_frames \<Rightarrow>
    ((reactor_error + pooled_frame) \<times> tap_frames) option" where
  "arp_answer c gateway request t = answer_frame c (write_arp_reply (gateway_mac c) gateway request) t"

definition solicitation_answer :: "reactor_config \<Rightarrow> bytes \<Rightarrow> mac_address \<Rightarrow> bytes \<Rightarrow> tap_frames \<Rightarrow>
    ((reactor_error + pooled_frame) \<times> tap_frames) option" where
  "solicitation_answer c gateway asker_mac asker_ip t =
     answer_frame c (write_neighbor_advertisement (gateway_mac c) asker_mac gateway asker_ip) t"

section \<open>Writing parts of a frame\<close>

lemma on_slice_middle:
  assumes "length X = a" "b = a + length M"
  shows "on_slice a b g (X @ M @ Y) = (fst (g M), X @ snd (g M) @ Y)"
  using assms by (simp add: on_slice_def subslice_def split: prod.split)

lemma prefix_be16 [simp]: "i + 1 < length X \<Longrightarrow> be16_at (X @ Y) i = be16_at X i"
  by (simp add: be16_at_def nth_append)

lemma prefix_slice [simp]: "b \<le> length X \<Longrightarrow> subslice a b (X @ Y) = subslice a b X"
  by (auto simp: subslice_def drop_append take_append)

lemma split_prefix: "drop n out' = T \<Longrightarrow> length out' = n + length T \<Longrightarrow> \<exists>I'. out' = I' @ T \<and> length I' = n"
  by (metis add_diff_cancel_right' append_take_drop_id length_append length_drop diff_add_inverse2)

lemma eth_piece:
  assumes "length E = 14" "length d = 6" "length sm = 6" "et \<in> {Ipv4, Arp, Ipv6}"
  shows "\<exists>E'. eth_write_header d sm et (E @ R) = (Inr (), E' @ R) \<and> length E' = 14 \<and>
    (\<forall>P. \<exists>f. eth_parse (E' @ P) = Inr f \<and> eth_ether_type f = et \<and> eth_payload f = P \<and>
       eth_destination f = d \<and> eth_source f = sm)"
proof -
  obtain out' where w: "eth_write_header d sm et (E @ R) = (Inr (), out')" "length out' = length (E @ R)"
      "drop 14 out' = drop 14 (E @ R)" "subslice 0 6 out' = d" "subslice 6 12 out' = sm"
      "be16_at out' 12 = ether_type_raw et"
    using eth_write_ok [of "E @ R" d sm et] assms by auto
  obtain E' where E': "out' = E' @ R" "length E' = 14"
    using split_prefix [of 14 out' R] w assms by auto
  then have "\<exists>f. eth_parse (E' @ P) = Inr f \<and> eth_ether_type f = et \<and> eth_payload f = P \<and>
      eth_destination f = d \<and> eth_source f = sm" for P
    using w(4-6) assms(4) from_raw_raw [OF assms(4)]
    by (simp add: eth_parse_Inr_iff eth_ether_type_def eth_payload_def eth_destination_def eth_source_def
        ETHERNET_HEADER_LEN_def)
  then show ?thesis
    using w(1) E' by auto
qed

text \<open>A segment that reads as specified, with the given payload.\<close>

definition seg_matches :: "tcp_header_spec \<Rightarrow> bytes \<Rightarrow> tcp_segment \<Rightarrow> bool" where
  "seg_matches sp payload sg \<longleftrightarrow> tcp_source_port sg = sp_source_port sp \<and>
     tcp_destination_port sg = sp_destination_port sp \<and> tcp_sequence sg = sp_sequence sp \<and>
     tcp_acknowledgment sg = sp_acknowledgment sp \<and> tcp_flags_of sg = sp_flags sp \<and>
     tcp_window sg = sp_window sp \<and> tcp_mss sg = sp_mss sp \<and> tcp_window_scale sg = sp_window_scale sp \<and>
     tcp_payload sg = payload"

lemma tcp_piece:
  assumes "tcp_header_len sp \<le> length T"
  shows "\<exists>T'. tcp_write_header sp T = (Inr (tcp_header_len sp), T') \<and> length T' = length T \<and>
    (\<forall>v. \<exists>sg. tcp_parse (copy_at 16 (u16_to_be v) T') = Inr sg \<and>
       seg_matches sp (drop (tcp_header_len sp) T) sg)"
proof -
  let ?h = "tcp_header_len sp"
  have h: "20 \<le> ?h" "?h = 20 + length (tcp_options sp)"
    using length_tcp_options [of sp] by auto
  obtain T' where w: "tcp_write_header sp T = (Inr ?h, T')" and len: "length T' = length T"
    and rest: "drop ?h T' = drop ?h T"
    and f: "be16_at T' 0 = sp_source_port sp" "be16_at T' 2 = sp_destination_port sp"
      "u32_from_be (subslice 4 8 T') = sp_sequence sp"
      "u32_from_be (subslice 8 12 T') = sp_acknowledgment sp"
      "T' ! 12 = push_bit 4 (word_of_nat ?h div 4)"
      "T' ! 13 = flags_byte (sp_flags sp)" "be16_at T' 14 = sp_window sp"
      "subslice 20 ?h T' = tcp_options sp"
    using tcp_write_header_ok [OF assms] by metis
  have "\<exists>sg. tcp_parse (copy_at 16 (u16_to_be v) T') = Inr sg \<and> seg_matches sp (drop ?h T) sg" for v
  proof -
    let ?t = "copy_at 16 (u16_to_be v) T'"
    let ?s = "\<lparr>seg_bytes = ?t, seg_header_len = ?h\<rparr>"
    have t: "be16_at ?t 0 = sp_source_port sp" "be16_at ?t 2 = sp_destination_port sp"
      "u32_from_be (subslice 4 8 ?t) = sp_sequence sp" "u32_from_be (subslice 8 12 ?t) = sp_acknowledgment sp"
      "?t ! 12 = push_bit 4 (word_of_nat ?h div 4)" "?t ! 13 = flags_byte (sp_flags sp)"
      "be16_at ?t 14 = sp_window sp" "subslice 20 ?h ?t = tcp_options sp" "drop ?h ?t = drop ?h T"
      "length ?t = length T"
      using f rest len assms h(1) by (simp_all add: field_simps_rw)
    have "tcp_parse ?t = Inr ?s"
      using assms t(5,10) h(1) tcp_header_len_cases [of sp]
      by (simp add: tcp_parse_Inr_iff header_len_byte)
    moreover have "tcp_mss ?s = sp_mss sp" "tcp_window_scale ?s = sp_window_scale sp"
      by (simp_all add: tcp_mss_def tcp_window_scale_def find_option_def TCP_MIN_HEADER_LEN_def t(8)
          scan_mss scan_window_scale)
    moreover have "tcp_flags_of ?s = sp_flags sp"
      by (cases "sp_flags sp") (use t(6) in \<open>simp add: tcp_flags_of_def flags_byte_bits\<close>)
    ultimately show ?thesis
      using t by (auto simp: seg_matches_def tcp_source_port_def tcp_destination_port_def tcp_sequence_def
          tcp_acknowledgment_def tcp_window_def tcp_payload_def)
  qed
  then show ?thesis
    using w len by auto
qed

section \<open>What the frame builder needs of an IP family\<close>

text \<open>
  The two address families differ in their header, in its parser and in the pseudo-header of the
  checksum. What a TCP frame relies on is the same for both.
\<close>

locale ip_family =
  fixes header_len address_len max_payload :: nat
    and write_ip :: "bytes \<Rightarrow> bytes \<Rightarrow> u8 \<Rightarrow> usize \<Rightarrow> usize writer"
    and parse_ip :: "bytes \<Rightarrow> packet_error + 'p"
    and source_of destination_of :: "'p \<Rightarrow> bytes" and protocol_of :: "'p \<Rightarrow> u8" and payload_of :: "'p \<Rightarrow> bytes"
    and transport_sum :: "bytes \<Rightarrow> bytes \<Rightarrow> bytes \<Rightarrow> u16"
    and set_sum set_partial :: "bytes \<Rightarrow> bytes \<Rightarrow> unit writer"
    and segment_of :: "'p \<Rightarrow> bool \<Rightarrow> packet_error + tcp_segment"
  assumes header: "length I = header_len \<Longrightarrow> length src = address_len \<Longrightarrow> length dst = address_len \<Longrightarrow>
      length T \<le> max_payload \<Longrightarrow> pr \<in> {IPPROTO_TCP, IPPROTO_UDP} \<Longrightarrow>
      \<exists>I'. write_ip src dst pr (length T) (I @ T) = (Inr header_len, I' @ T) \<and> length I' = header_len \<and>
        (\<forall>P. length P = length T \<longrightarrow> (\<exists>p. parse_ip (I' @ P) = Inr p \<and> source_of p = src \<and>
           destination_of p = dst \<and> protocol_of p = pr \<and> payload_of p = P))"
    and sum_field: "length src = address_len \<Longrightarrow> length dst = address_len \<Longrightarrow> 20 \<le> length T \<Longrightarrow>
      length T \<le> max_payload \<Longrightarrow>
      \<exists>v. set_sum src dst T = (Inr (), copy_at 16 (u16_to_be v) T) \<and>
        transport_sum src dst (copy_at 16 (u16_to_be v) T) = 0"
    and partial_field: "20 \<le> length T \<Longrightarrow>
      \<exists>v. set_partial src dst T = (Inr (), copy_at 16 (u16_to_be v) T)"
    and segment: "protocol_of p = IPPROTO_TCP \<Longrightarrow>
      verify \<longrightarrow> transport_sum (source_of p) (destination_of p) (payload_of p) = 0 \<Longrightarrow>
      segment_of p verify = tcp_parse (payload_of p)"
begin

text \<open>A packet around a segment: the header over the old bytes, then the checksum in the segment.\<close>

lemma packet_around:
  assumes "length I = header_len" "length src = address_len" "length dst = address_len"
    and "20 \<le> length T" "length T \<le> max_payload" "length X = ip_offset"
  shows "\<exists>I' v. finish_packet ip_offset (ip_offset + header_len) (ip_offset + header_len + length T)
      (write_ip src dst IPPROTO_TCP (length T)) (if partial then set_partial src dst else set_sum src dst)
      (X @ I @ T @ Y) = (Inr (), X @ I' @ copy_at 16 (u16_to_be v) T @ Y) \<and> length I' = header_len \<and>
    (\<exists>p. parse_ip (I' @ copy_at 16 (u16_to_be v) T) = Inr p \<and> source_of p = src \<and> destination_of p = dst \<and>
       protocol_of p = IPPROTO_TCP \<and> payload_of p = copy_at 16 (u16_to_be v) T) \<and>
    (\<not> partial \<longrightarrow> transport_sum src dst (copy_at 16 (u16_to_be v) T) = 0)"
proof -
  obtain I' where I': "write_ip src dst IPPROTO_TCP (length T) (I @ T) = (Inr header_len, I' @ T)"
      "length I' = header_len"
    and parse: "\<And>P. length P = length T \<Longrightarrow> \<exists>p. parse_ip (I' @ P) = Inr p \<and> source_of p = src \<and>
      destination_of p = dst \<and> protocol_of p = IPPROTO_TCP \<and> payload_of p = P"
    using header [of I src dst T IPPROTO_TCP] assms by auto
  obtain v where v: "(if partial then set_partial src dst else set_sum src dst) T =
      (Inr (), copy_at 16 (u16_to_be v) T)"
    and sum: "\<not> partial \<longrightarrow> transport_sum src dst (copy_at 16 (u16_to_be v) T) = 0"
    using sum_field [of src dst T] partial_field [of T src dst] assms by (cases partial) auto
  have "on_slice ip_offset (ip_offset + header_len + length T) (write_ip src dst IPPROTO_TCP (length T))
      (X @ (I @ T) @ Y) = (Inr header_len, X @ (I' @ T) @ Y)"
    using on_slice_middle [of X ip_offset "ip_offset + header_len + length T" "I @ T"
        "write_ip src dst IPPROTO_TCP (length T)" Y] assms I'(1) by simp
  moreover have "on_slice (ip_offset + header_len) (ip_offset + header_len + length T)
      (if partial then set_partial src dst else set_sum src dst) ((X @ I') @ T @ Y) =
      (Inr (), (X @ I') @ copy_at 16 (u16_to_be v) T @ Y)"
    using on_slice_middle [of "X @ I'" "ip_offset + header_len" "ip_offset + header_len + length T" T
        "if partial then set_partial src dst else set_sum src dst" Y] assms I'(2) v by simp
  ultimately have "finish_packet ip_offset (ip_offset + header_len) (ip_offset + header_len + length T)
      (write_ip src dst IPPROTO_TCP (length T)) (if partial then set_partial src dst else set_sum src dst)
      (X @ I @ T @ Y) = (Inr (), X @ I' @ copy_at 16 (u16_to_be v) T @ Y)"
    by (simp add: finish_packet_def)
  moreover have "length (copy_at 16 (u16_to_be v) T) = length T"
    using assms by simp
  ultimately show ?thesis
    using I'(2) parse [of "copy_at 16 (u16_to_be v) T"] sum by blast
qed

lemma segment_arrives:
  assumes "length I = header_len" "length src = address_len" "length dst = address_len"
    and h: "tcp_header_len sp \<le> length T" and "length T \<le> max_payload" "length X = ip_offset"
    and w: "tcp_write_header sp T = (Inr (tcp_header_len sp), T')"
  shows "\<exists>B p sg. finish_packet ip_offset (ip_offset + header_len) (ip_offset + header_len + length T)
      (write_ip src dst IPPROTO_TCP (length T)) (if partial then set_partial src dst else set_sum src dst)
      (X @ I @ T' @ Y) = (Inr (), X @ B @ Y) \<and> length B = header_len + length T \<and>
    parse_ip B = Inr p \<and> source_of p = src \<and> destination_of p = dst \<and> protocol_of p = IPPROTO_TCP \<and>
    segment_of p (\<not> partial) = Inr sg \<and> seg_matches sp (drop (tcp_header_len sp) T) sg"
proof -
  have T': "length T' = length T" and seg: "\<And>v. \<exists>sg. tcp_parse (copy_at 16 (u16_to_be v) T') = Inr sg \<and>
      seg_matches sp (drop (tcp_header_len sp) T) sg"
    using tcp_piece [OF h] w by auto
  have "20 \<le> length T'" "length T' \<le> max_payload"
    using h length_tcp_options [of sp] T' assms(5) by simp_all
  from packet_around [OF assms(1-3) this assms(6), of partial Y] obtain I' v p where
    r: "finish_packet ip_offset (ip_offset + header_len) (ip_offset + header_len + length T)
      (write_ip src dst IPPROTO_TCP (length T)) (if partial then set_partial src dst else set_sum src dst)
      (X @ I @ T' @ Y) = (Inr (), X @ I' @ copy_at 16 (u16_to_be v) T' @ Y)" "length I' = header_len"
    and p: "parse_ip (I' @ copy_at 16 (u16_to_be v) T') = Inr p" "source_of p = src" "destination_of p = dst"
      "protocol_of p = IPPROTO_TCP" "payload_of p = copy_at 16 (u16_to_be v) T'"
      "\<not> partial \<longrightarrow> transport_sum src dst (copy_at 16 (u16_to_be v) T') = 0"
    using T' by auto
  have "segment_of p (\<not> partial) = tcp_parse (copy_at 16 (u16_to_be v) T')"
    using segment [of p "\<not> partial"] p by simp
  then show ?thesis
    using r p seg [of v] T' \<open>20 \<le> length T'\<close>
    by (intro exI [of _ "I' @ copy_at 16 (u16_to_be v) T'"] exI [of _ p]) auto
qed

end

lemma ipv4_piece:
  assumes "length I = 20" "length src = 4" "length dst = 4" "length T \<le> 65515"
  shows "\<exists>I'. write_ipv4_header src dst pr (length T) 0 (I @ T) = (Inr 20, I' @ T) \<and> length I' = 20 \<and>
    (\<forall>P. length P = length T \<longrightarrow> (\<exists>p. ipv4_parse (I' @ P) = Inr p \<and> ipv4_source p = src \<and>
       ipv4_destination p = dst \<and> ipv4_protocol p = pr \<and> ipv4_payload p = P))"
proof -
  obtain out' where w: "write_ipv4_header src dst pr (length T) 0 (I @ T) = (Inr 20, out')"
      "length out' = length (I @ T)" "drop 20 out' = drop 20 (I @ T)"
    and f: "out' ! 0 = 0x45" "be16_at out' 2 = word_of_nat (20 + length T)" "be16_at out' 6 = 0x4000"
      "out' ! 9 = pr" "subslice 12 16 out' = src" "subslice 16 20 out' = dst" "checksum (take 20 out') = 0"
    using write_ipv4_header_ok [of "I @ T" "length T" src dst pr 0] assms by auto
  obtain I' where I': "out' = I' @ T" "length I' = 20"
    using split_prefix [of 20 out' T] w assms by auto
  have "\<exists>p. ipv4_parse (I' @ P) = Inr p \<and> ipv4_source p = src \<and> ipv4_destination p = dst \<and>
      ipv4_protocol p = pr \<and> ipv4_payload p = P" if "length P = length T" for P
  proof -
    have "ipv4_parse (take (20 + length T) (I' @ P)) = Inr \<lparr>v4_bytes = take (20 + length T) (I' @ P),
        v4_header_len = 20, v4_total_len = 20 + length T\<rparr>"
      using f I' assms that by (intro ipv4_parse_plain) (simp_all add: nth_append)
    then show ?thesis
      using f(4-6) I' that assms(2,3)
      by (simp add: ipv4_source_def ipv4_destination_def ipv4_protocol_def ipv4_payload_def nth_append subslice_def)
  qed
  then show ?thesis
    using w(1) I' by auto
qed

lemma ipv6_piece:
  assumes "length I = 40" "length src = 16" "length dst = 16" "length T \<le> 65535"
    and "\<not> is_extension nh" "nh \<noteq> 44"
  shows "\<exists>I'. write_ipv6_header src dst nh (length T) (I @ T) = (Inr 40, I' @ T) \<and> length I' = 40 \<and>
    (\<forall>P. length P = length T \<longrightarrow> (\<exists>p. ipv6_parse (I' @ P) = Inr p \<and> ipv6_source p = src \<and>
       ipv6_destination p = dst \<and> ipv6_next_header p = nh \<and> ipv6_payload p = P))"
proof -
  obtain out' where w: "write_ipv6_header src dst nh (length T) (I @ T) = (Inr 40, out')"
      "length out' = length (I @ T)" "drop 40 out' = drop 40 (I @ T)"
    and f: "out' ! 0 = 0x60" "be16_at out' 4 = word_of_nat (length T)" "out' ! 6 = nh"
      "subslice 8 24 out' = src" "subslice 24 40 out' = dst"
    using write_ipv6_header_ok [of "I @ T" "length T" src dst nh] assms by auto
  obtain I' where I': "out' = I' @ T" "length I' = 40"
    using split_prefix [of 40 out' T] w assms by auto
  have "\<exists>p. ipv6_parse (I' @ P) = Inr p \<and> ipv6_source p = src \<and> ipv6_destination p = dst \<and>
      ipv6_next_header p = nh \<and> ipv6_payload p = P" if "length P = length T" for P
  proof -
    have "ipv6_parse (take (40 + length T) (I' @ P)) = Inr \<lparr>v6_bytes = take (40 + length T) (I' @ P),
        v6_payload_offset = 40, v6_total_len = 40 + length T, v6_next_header = (I' @ P) ! 6\<rparr>"
      using f I' assms that by (intro ipv6_parse_plain) (simp_all add: nth_append)
    then show ?thesis
      using f(3-5) I' that assms(2,3)
      by (simp add: ipv6_source_def ipv6_destination_def ipv6_next_header_def ipv6_payload_def nth_append subslice_def)
  qed
  then show ?thesis
    using w(1) I' by auto
qed

interpretation v4: ip_family 20 4 65515 "\<lambda>src dst pr n. write_ipv4_header src dst pr n 0" ipv4_parse
  ipv4_source ipv4_destination ipv4_protocol ipv4_payload "\<lambda>src dst. ipv4_transport src dst 6"
  tcp_set_ipv4_checksum tcp_set_ipv4_partial_checksum tcp_parse_ipv4
proof unfold_locales
  fix src dst T :: bytes
  assume "length src = 4" "length dst = 4" "20 \<le> length T" "length T \<le> 65515"
  then show "\<exists>v. tcp_set_ipv4_checksum src dst T = (Inr (), copy_at 16 (u16_to_be v) T) \<and>
      ipv4_transport src dst 6 (copy_at 16 (u16_to_be v) T) = 0"
    using tcp_set_checksum_verifies [of T src dst "replicate 16 0" "replicate 16 0"] by auto
qed (auto simp: ipv4_piece tcp_parse_ipv4_def tcp_set_ipv4_partial_checksum_def TCP_MIN_HEADER_LEN_def Let_def)

interpretation v6: ip_family 40 16 65535 write_ipv6_header ipv6_parse
  ipv6_source ipv6_destination ipv6_next_header ipv6_payload "\<lambda>src dst. ipv6_transport src dst 6"
  tcp_set_ipv6_checksum tcp_set_ipv6_partial_checksum tcp_parse_ipv6
proof unfold_locales
  fix src dst T :: bytes
  assume "length src = 16" "length dst = 16" "20 \<le> length T" "length T \<le> 65535"
  then show "\<exists>v. tcp_set_ipv6_checksum src dst T = (Inr (), copy_at 16 (u16_to_be v) T) \<and>
      ipv6_transport src dst 6 (copy_at 16 (u16_to_be v) T) = 0"
    using tcp_set_checksum_verifies [of T "replicate 4 0" "replicate 4 0" src dst] by auto
qed (auto simp: tcp_parse_ipv6_def tcp_set_ipv6_partial_checksum_def TCP_MIN_HEADER_LEN_def Let_def IPPROTO_TCP_def IPPROTO_UDP_def
    is_extension_def intro!: ipv6_piece)

section \<open>A whole frame\<close>

definition same_family :: "flow_key \<Rightarrow> bool" where
  "same_family key \<longleftrightarrow> is_ipv4 (key_target key) = is_ipv4 (key_namespace key) \<and>
     wire_address (Socket (key_target key)) \<and> wire_address (Socket (key_namespace key))"

definition max_transport :: "socket_addr \<Rightarrow> nat" where
  "max_transport a = (if is_ipv4 a then 65515 else 65535)"

text \<open>What the receiver gets out of a frame body.\<close>

definition carries :: "bytes \<Rightarrow> reactor_config \<Rightarrow> bool \<Rightarrow> flow_key \<Rightarrow> tcp_segment \<Rightarrow> bool" where
  "carries body c verify key sg \<longleftrightarrow>
     (\<exists>f. eth_parse body = Inr f \<and> eth_destination f = target_mac c \<and> eth_source f = gateway_mac c \<and>
        eth_ether_type f = frame_ether_type (key_target key) \<and>
        (if is_ipv4 (key_target key) then handle_ipv4 f verify else handle_ipv6 c f verify) =
          Inr (RxTcp \<lparr>key_namespace = key_target key, key_target = key_namespace key\<rparr> sg))"

lemma header_spec_len:
  "tcp_payload_offset c key (fs_mss fs) (fs_window_scale fs) =
     vnet_len_of c + 14 + ip_header_len (key_target key) + tcp_header_len (header_spec fs)"
  by (simp add: tcp_payload_offset_def header_spec_def tcp_header_len_def ETHERNET_HEADER_LEN_def)

lemma tcp_write_ip_carries:
  assumes fam: "same_family (fs_key fs)" and I: "length I = ip_header_len (key_target (fs_key fs))"
    and T: "tcp_header_len (header_spec fs) \<le> length T" "length T \<le> max_transport (key_target (fs_key fs))"
    and X: "length X = ip_offset"
    and w: "tcp_write_header (header_spec fs) T = (Inr (tcp_header_len (header_spec fs)), T')"
    and E: "\<And>P. \<exists>f. eth_parse (E @ P) = Inr f \<and> eth_ether_type f = frame_ether_type (key_target (fs_key fs)) \<and>
      eth_payload f = P \<and> eth_destination f = target_mac c \<and> eth_source f = gateway_mac c"
  shows "\<exists>B sg. tcp_write_ip offload (fs_key fs) ip_offset (ip_offset + length I)
      (ip_offset + length I + length T) (length T) (X @ I @ T' @ Y) = (Inr (), X @ B @ Y) \<and>
    length B = length I + length T \<and> carries (E @ B) c (\<not> offload) (fs_key fs) sg \<and>
    seg_matches (header_spec fs) (drop (tcp_header_len (header_spec fs)) T) sg"
proof (cases "key_target (fs_key fs)")
  case (AddrV4 src sport)
  then obtain dst dport where key: "key_namespace (fs_key fs) = AddrV4 dst dport" "length src = 4" "length dst = 4"
    using fam by (cases "key_namespace (fs_key fs)") (auto simp: same_family_def)
  have "length I = 20" "length T \<le> 65515"
    using I T AddrV4 by (simp_all add: ip_header_len_def max_transport_def)
  from v4.segment_arrives [OF this(1) key(2,3) T(1) this(2) X w, of offload Y] obtain B p sg where
    r: "tcp_write_ip offload (fs_key fs) ip_offset (ip_offset + length I) (ip_offset + length I + length T)
        (length T) (X @ I @ T' @ Y) = (Inr (), X @ B @ Y)" "length B = length I + length T"
    and p: "ipv4_parse B = Inr p" "ipv4_source p = src" "ipv4_destination p = dst" "ipv4_protocol p = IPPROTO_TCP"
      "tcp_parse_ipv4 p (\<not> offload) = Inr sg"
    and sg: "seg_matches (header_spec fs) (drop (tcp_header_len (header_spec fs)) T) sg"
    using \<open>length I = 20\<close> by (auto simp: tcp_write_ip_def AddrV4 key)
  then have "carries (E @ B) c (\<not> offload) (fs_key fs) sg"
    using E [of B] by (auto simp: carries_def handle_ipv4_def AddrV4 key seg_matches_def header_spec_def
        IPPROTO_TCP_def IPPROTO_UDP_def)
  then show ?thesis
    using r sg by blast
next
  case (AddrV6 src sport fl sc)
  then obtain dst dport where key: "key_namespace (fs_key fs) = AddrV6 dst dport 0 0" "length src = 16"
      "length dst = 16" "fl = 0" "sc = 0"
    using fam by (cases "key_namespace (fs_key fs)") (auto simp: same_family_def)
  have "length I = 40" "length T \<le> 65535"
    using I T AddrV6 by (simp_all add: ip_header_len_def max_transport_def)
  from v6.segment_arrives [OF this(1) key(2,3) T(1) this(2) X w, of offload Y] obtain B p sg where
    r: "tcp_write_ip offload (fs_key fs) ip_offset (ip_offset + length I) (ip_offset + length I + length T)
        (length T) (X @ I @ T' @ Y) = (Inr (), X @ B @ Y)" "length B = length I + length T"
    and p: "ipv6_parse B = Inr p" "ipv6_source p = src" "ipv6_destination p = dst" "ipv6_next_header p = IPPROTO_TCP"
      "tcp_parse_ipv6 p (\<not> offload) = Inr sg"
    and sg: "seg_matches (header_spec fs) (drop (tcp_header_len (header_spec fs)) T) sg"
    using \<open>length I = 40\<close> by (auto simp: tcp_write_ip_def AddrV6 key)
  then have "carries (E @ B) c (\<not> offload) (fs_key fs) sg"
    using E [of B] by (auto simp: carries_def handle_ipv6_def AddrV6 key seg_matches_def header_spec_def
        IPPROTO_TCP_def IPPROTO_UDP_def IPPROTO_ICMPV6_def)
  then show ?thesis
    using r sg by blast
qed

lemma vnet_piece:
  assumes "length V = 10"
  shows "\<exists>V'. vnet_write big h V = (Inr (), V') \<and> length V' = 10 \<and> (\<forall>P. vnet_parse big (V' @ P) = Inr h)"
proof -
  obtain V' where V': "vnet_write big h V = (Inr (), V')" "vnet_parse big V' = Inr h"
    using vnet_roundtrip [of V big h] assms by auto
  then have "length V' = 10"
    using assms by (auto simp: vnet_write_def VNET_HEADER_LEN_def Let_def)
  moreover from this have "vnet_parse big (V' @ P) = vnet_parse big V'" for P
    by (simp add: vnet_parse_def VNET_HEADER_LEN_def nth_append)
  ultimately show ?thesis
    using V' by auto
qed

lemma split_frame:
  assumes "v + 14 + i + t \<le> length bs"
  shows "\<exists>V E I T R. bs = V @ E @ I @ T @ R \<and> length V = v \<and> length E = 14 \<and> length I = i \<and> length T = t"
proof -
  obtain V b1 where 1: "bs = V @ b1" "length V = v"
    using split_at [of v bs] assms by auto
  obtain E b2 where 2: "b1 = E @ b2" "length E = 14"
    using split_at [of 14 b1] assms 1 by auto
  obtain I b3 where 3: "b2 = I @ b3" "length I = i"
    using split_at [of i b2] assms 1 2 by auto
  obtain T R where "b3 = T @ R" "length T = t"
    using split_at [of t b3] assms 1 2 3 by auto
  then show ?thesis
    using 1 2 3 by blast
qed

text \<open>The steps of \<open>finalize_tcp_frame\<close> on the parts of the buffer.\<close>

lemma finalize_parts:
  assumes fam: "same_family (fs_key fs)" and macs: "length (target_mac c) = 6" "length (gateway_mac c) = 6"
    and lens: "length V = vnet_len_of c" "length E = 14" "length I = ip_header_len (key_target (fs_key fs))"
      "length T = tcp_header_len (header_spec fs) + fs_payload_len fs"
    and T: "length T \<le> max_transport (key_target (fs_key fs))"
    and n: "n = length V + 14 + length I + length T"
  shows "\<exists>V' E' B sg. finalize_tcp_frame big c fs (V @ E @ I @ T @ R) = Some (Inr n, V' @ E' @ B @ R) \<and>
    length V' = length V \<and> length E' = 14 \<and> length B = length I + length T \<and>
    (V \<noteq> [] \<longrightarrow> (\<forall>P. vnet_parse big (V' @ P) = Inr (offload_header c fs))) \<and>
    carries (E' @ B) c (V = []) (fs_key fs) sg \<and>
    seg_matches (header_spec fs) (drop (tcp_header_len (header_spec fs)) T) sg"
proof -
  let ?Z = "replicate (length V) 0 :: bytes" and ?et = "frame_ether_type (key_target (fs_key fs))"
  have et: "?et \<in> {Ipv4, Arp, Ipv6}"
    by (simp add: frame_ether_type_def)
  obtain E' where E': "eth_write_header (target_mac c) (gateway_mac c) ?et (E @ I @ T @ R) = (Inr (), E' @ I @ T @ R)"
      "length E' = 14"
    and eth: "\<And>P. \<exists>f. eth_parse (E' @ P) = Inr f \<and> eth_ether_type f = ?et \<and> eth_payload f = P \<and>
      eth_destination f = target_mac c \<and> eth_source f = gateway_mac c"
    using eth_piece [OF lens(2) macs et, of "I @ T @ R"] by blast
  obtain T' where T': "tcp_write_header (header_spec fs) T = (Inr (tcp_header_len (header_spec fs)), T')"
      "length T' = length T"
    using tcp_piece [of "header_spec fs" T] lens by auto
  obtain B sg where B: "tcp_write_ip (V \<noteq> []) (fs_key fs) (length V + 14) (length V + 14 + length I)
      (length V + 14 + length I + length T) (length T) ((?Z @ E') @ I @ T' @ R) = (Inr (), (?Z @ E') @ B @ R)"
      "length B = length I + length T" "carries (E' @ B) c (V = []) (fs_key fs) sg"
      "seg_matches (header_spec fs) (drop (tcp_header_len (header_spec fs)) T) sg"
    using tcp_write_ip_carries [OF fam lens(3) _ T _ T'(1) eth, of "?Z @ E'" "length V + 14" "V \<noteq> []" R] lens E'(2)
    by auto
  have z: "fill (V @ E @ I @ T @ R) 0 (length V) 0 = ?Z @ E @ I @ T @ R"
    by (simp add: fill_def copy_at_def)
  have e: "on_slice (length V) (length (?Z @ E @ I @ T @ R)) (eth_write_header (target_mac c) (gateway_mac c) ?et)
      (?Z @ E @ I @ T @ R) = (Inr (), ?Z @ E' @ I @ T @ R)"
    using on_slice_middle [of ?Z "length V" "length (?Z @ E @ I @ T @ R)" "E @ I @ T @ R"
        "eth_write_header (target_mac c) (gateway_mac c) ?et" "[]"] E'(1) by simp
  have t: "on_slice (length V + 14 + length I) (length V + 14 + length I + length T)
      (tcp_write_header (header_spec fs)) (?Z @ E' @ I @ T @ R) =
      (Inr (tcp_header_len (header_spec fs)), ?Z @ E' @ I @ T' @ R)"
    using on_slice_middle [of "?Z @ E' @ I" "length V + 14 + length I" "length V + 14 + length I + length T" T
        "tcp_write_header (header_spec fs)" R] E'(2) T' by simp
  have whole: "finalize_tcp_frame big c fs (V @ E @ I @ T @ R) =
      (if V = [] then Some (Inr n, E' @ B @ R)
       else case on_slice 0 (length V) (vnet_write big (offload_header c fs)) (?Z @ E' @ B @ R) of
              (Inl err, bs) \<Rightarrow> Some (Inl (PacketError err), bs) | (Inr _, bs) \<Rightarrow> Some (Inr n, bs))"
  proof -
    have vl: "vnet_len_of c = length V" "ip_header_len (key_target (fs_key fs)) = length I"
      using lens by simp_all
    have fl: "tcp_payload_offset c (fs_key fs) (fs_mss fs) (fs_window_scale fs) + fs_payload_len fs = n"
      and tl: "tcp_header_len (header_spec fs) + fs_payload_len fs = length T"
      using lens n by (simp_all add: header_spec_len)
    have ok: "\<not> length V > length (V @ E @ I @ T @ R)" "\<not> n > length (?Z @ E' @ I @ T @ R)"
      using n E'(2) by simp_all
    have B1: "tcp_write_ip (V \<noteq> []) (fs_key fs) (length V + 14) (length V + 14 + length I) n (length T)
        (?Z @ E' @ I @ T' @ R) = (Inr (), ?Z @ E' @ B @ R)"
      using B(1) n by simp
    show ?thesis
      by (simp only: finalize_tcp_frame_def Let_def vl fl ETHERNET_HEADER_LEN_def ok if_False z e t [folded n] tl B1
          prod.case sum.case length_greater_0_conv length_0_conv cong: if_cong)
        (auto split: prod.split sum.split)
  qed
  show ?thesis
  proof (cases "V = []")
    case True
    then show ?thesis
      using whole B E'(2) by auto
  next
    case False
    then have "length ?Z = 10"
      using lens(1) by (auto simp: vnet_len_of_def VNET_HEADER_LEN_def split: if_splits)
    then obtain V' where "vnet_write big (offload_header c fs) ?Z = (Inr (), V')" "length V' = 10"
        "\<forall>P. vnet_parse big (V' @ P) = Inr (offload_header c fs)"
      using vnet_piece by blast
    then show ?thesis
      using whole B E'(2) False \<open>length ?Z = 10\<close> on_slice_middle [of "[]" 0 "length V" ?Z
          "vnet_write big (offload_header c fs)" "E' @ B @ R"] by auto
  qed
qed

lemma offload_header_accepted:
  "vn_gso_type (offload_header c fs) \<in> {GSO_NONE, GSO_TCPV4, GSO_TCPV6}"
  "vn_flags (offload_header c fs) AND (FLAG_NEEDS_CSUM OR FLAG_DATA_VALID) \<noteq> 0"
  by (auto simp: offload_header_def Let_def FLAG_NEEDS_CSUM_def FLAG_DATA_VALID_def split: option.split)

lemma carries_handled:
  "carries body c verify key sg \<Longrightarrow> split_rx_vnet big (vnet_len_of c) bs = Inr (body, verify, gso) \<Longrightarrow>
     handle_frame big c bs = Inr (RxTcp \<lparr>key_namespace = key_target key, key_target = key_namespace key\<rparr> sg)"
  by (auto simp: carries_def handle_frame_def frame_ether_type_def split: if_splits)

lemma finalize_tcp_frame_handled:
  assumes fam: "same_family (fs_key fs)" and macs: "length (target_mac c) = 6" "length (gateway_mac c) = 6"
    and off: "off = tcp_payload_offset c (fs_key fs) (fs_mss fs) (fs_window_scale fs)"
    and n: "n = off + fs_payload_len fs" "n \<le> length bs"
    and small: "tcp_header_len (header_spec fs) + fs_payload_len fs \<le> max_transport (key_target (fs_key fs))"
  shows "\<exists>bs' sg. finalize_tcp_frame big c fs bs = Some (Inr n, bs') \<and> length bs' = length bs \<and>
    drop n bs' = drop n bs \<and>
    handle_frame big c (take n bs') =
      Inr (RxTcp \<lparr>key_namespace = key_target (fs_key fs), key_target = key_namespace (fs_key fs)\<rparr> sg) \<and>
    seg_matches (header_spec fs) (subslice off n bs) sg"
proof -
  let ?h = "tcp_header_len (header_spec fs)" and ?i = "ip_header_len (key_target (fs_key fs))"
  have off': "off = vnet_len_of c + 14 + ?i + ?h"
    by (simp add: off header_spec_len)
  obtain V E I T R where bs: "bs = V @ E @ I @ T @ R" and len: "length V = vnet_len_of c" "length E = 14"
      "length I = ?i" "length T = ?h + fs_payload_len fs"
    using split_frame [of "vnet_len_of c" ?i "?h + fs_payload_len fs" bs] n off' by auto
  have n': "n = length V + 14 + length I + length T"
    using n off' len by simp
  obtain V' E' B sg where fin: "finalize_tcp_frame big c fs bs = Some (Inr n, V' @ E' @ B @ R)"
      "length V' = length V" "length E' = 14" "length B = length I + length T"
      "V \<noteq> [] \<Longrightarrow> vnet_parse big (V' @ P) = Inr (offload_header c fs)"
      "carries (E' @ B) c (V = []) (fs_key fs) sg"
      "seg_matches (header_spec fs) (drop ?h T) sg" for P
    using finalize_parts [OF fam macs len _ n', of big R] small len bs by auto
  have body: "take n (V' @ E' @ B @ R) = V' @ E' @ B"
    using fin(2-4) n' by simp
  have "split_rx_vnet big (vnet_len_of c) (V' @ E' @ B) = Inr (E' @ B, V = [],
      V \<noteq> [] \<and> vn_gso_type (offload_header c fs) \<noteq> GSO_NONE)"
  proof (cases "V = []")
    case True
    then show ?thesis
      using fin(2) len(1) by (simp add: split_rx_vnet_def)
  next
    case False
    then have "0 < vnet_len_of c"
      using len(1) by (metis length_greater_0_conv)
    then show ?thesis
      using False fin(2) fin(5) [of "E' @ B"] len(1) offload_header_accepted [of c fs]
      by (auto simp: split_rx_vnet_def)
  qed
  then have "handle_frame big c (take n (V' @ E' @ B @ R)) =
      Inr (RxTcp \<lparr>key_namespace = key_target (fs_key fs), key_target = key_namespace (fs_key fs)\<rparr> sg)"
    using carries_handled [OF fin(6)] body by simp
  moreover have "subslice off n bs = drop ?h T"
    using len n' off' by (simp add: bs subslice_def)
  ultimately show ?thesis
    using fin n' len by (auto simp: bs)
qed

section \<open>Frames and the pool\<close>

lemma pool_take_ok:
  assumes ok: "pool_ok n p held" and a: "pool_acquire p = Some (Some (i, b), p')"
  shows "pool_ok n p' (insert i held) \<and> i < n \<and> i \<notin> held \<and> Some b \<in> set (pool_buffers p)"
  using ok
proof (cases rule: pool_acquire_cases)
  case none
  then show ?thesis
    using a by simp
next
  case (some j c)
  then have p': "p' = p\<lparr>pool_free := butlast (pool_free p), pool_buffers := (pool_buffers p)[i := None]\<rparr>"
      "j = i" "c = b"
    using a by simp_all
  have "set (butlast (pool_free p)) = set (pool_free p) - {i}"
    using some p' ok by (simp add: set_butlast_distinct pool_ok_def)
  moreover have "Some b \<in> set (pool_buffers p)"
    using some(1,3) p' ok by (metis nth_mem pool_ok_def)
  ultimately show ?thesis
    using ok some p' by (auto simp: pool_ok_def nth_list_update distinct_butlast)
qed

lemma pool_give_ok:
  assumes ok: "pool_ok n p (insert i held)" "i \<notin> held"
  shows "\<exists>p'. pool_release i b p = Some p' \<and> pool_ok n p' held"
proof -
  have i: "i < n" "pool_buffers p ! i = None" "length (pool_buffers p) = n" "i \<notin> set (pool_free p)"
    using ok by (auto simp: pool_ok_def)
  then have "\<forall>j < n. (pool_buffers p)[i := Some b] ! j = None \<longleftrightarrow> j \<in> held"
    using ok by (auto simp: pool_ok_def nth_list_update)
  then show ?thesis
    using i ok by (auto simp: pool_release_def pool_ok_def)
qed

definition pool_fits :: "reactor_config \<Rightarrow> buffer_pool \<Rightarrow> bool" where
  "pool_fits c p \<longleftrightarrow> (\<forall>b. Some b \<in> set (pool_buffers p) \<longrightarrow> frame_capacity c = Some (fb_capacity b))"

text \<open>A frame that fits a buffer for a legal MTU fits the length fields of its IP header.\<close>

lemma fits_transport:
  assumes "frame_capacity c = Some cap" "tap_mtu c \<le> 65520"
    and "tcp_payload_offset c (fs_key fs) (fs_mss fs) (fs_window_scale fs) + k \<le> cap"
  shows "tcp_header_len (header_spec fs) + k \<le> max_transport (key_target (fs_key fs))"
proof -
  have "cap = unat (tap_mtu c) + (14 + vnet_len_of c)"
    using assms(1) by (simp add: frame_capacity_def checked_add_usize_def ETHERNET_HEADER_LEN_def split: if_splits)
  moreover have "unat (tap_mtu c) \<le> 65520"
    using assms(2) by (simp add: word_le_nat_alt)
  ultimately show ?thesis
    using assms(3) by (simp add: header_spec_len ip_header_len_def max_transport_def split: if_splits)
qed

section \<open>Properties\<close>


definition sample_frames :: tap_frames where
  "sample_frames = \<lparr>frame_pool = pool_new 2 32024, gso_pool = pool_new 0 0, mtu_frame_capacity = 32024,
     frame_pool_exhaustions = 0, gso_pool_exhaustions = 0\<rparr>"

definition sample_key :: flow_key where
  "sample_key = \<lparr>key_namespace = AddrV4 [192, 0, 2, 2] 40000, key_target = AddrV4 [198, 51, 100, 7] 443\<rparr>"


end
