(* ===== verification/Reactor_Queues.thy ===== *)
theory Reactor_Queues
  imports Sequence Tcp_Segment
begin

text \<open>
  The per-flow queues and timers of \<open>crates/dataplane/src/reactor.rs\<close>: the bounded queue of payload
  that waits for the upstream socket, the retransmission queue of segments sent to the namespace,
  the zero-window probe, and the pure decisions on memory pressure and event interest. Each queue is
  related to the plain list it stands for.
\<close>

section \<open>Constants\<close>

definition RETRANSMIT_INITIAL :: duration where "RETRANSMIT_INITIAL = from_secs 1"
definition MAX_RETRIES :: u8 where "MAX_RETRIES = 5"
definition ZERO_WINDOW_PROBE_INITIAL :: duration where "ZERO_WINDOW_PROBE_INITIAL = from_secs 1"
definition ZERO_WINDOW_PROBE_MAX :: duration where "ZERO_WINDOW_PROBE_MAX = from_secs 8"
definition MAX_PENDING_SOCKET_BYTES :: usize where "MAX_PENDING_SOCKET_BYTES = 256 * 1024"

text \<open>The event masks are the kernel's, through \<open>libc\<close>.\<close>

definition READABLE :: u32 where "READABLE = 0x001"
definition WRITABLE :: u32 where "WRITABLE = 0x004"
definition ERROR :: u32 where "ERROR = 0x008"
definition HANGUP :: u32 where "HANGUP = 0x010"
definition READ_HANGUP :: u32 where "READ_HANGUP = 0x2000"

section \<open>Zero-window probes\<close>

record zero_window_probe =
  probe_deadline :: instant
  probe_interval :: duration

definition probe_new :: "instant \<Rightarrow> zero_window_probe" where
  "probe_new now = \<lparr>probe_deadline = now + ZERO_WINDOW_PROBE_INITIAL, probe_interval = ZERO_WINDOW_PROBE_INITIAL\<rparr>"

definition probe_advance :: "instant \<Rightarrow> zero_window_probe \<Rightarrow> zero_window_probe" where
  "probe_advance now p =
     (let p = p\<lparr>probe_interval := min (probe_interval p * 2) ZERO_WINDOW_PROBE_MAX\<rparr>
      in p\<lparr>probe_deadline := now + probe_interval p\<rparr>)"

section \<open>Payload waiting for the socket\<close>

record pending_queue =
  chunks :: "bytes list"
  queued_bytes :: usize
  queue_limit :: usize

definition queue_new :: "usize \<Rightarrow> pending_queue" where
  "queue_new limit = \<lparr>chunks = [], queued_bytes = 0, queue_limit = limit\<rparr>"

definition queue_remaining :: "pending_queue \<Rightarrow> usize" where
  "queue_remaining q = queue_limit q - queued_bytes q"

definition queue_push :: "bytes \<Rightarrow> pending_queue \<Rightarrow> pending_queue option" where
  "queue_push bs q =
     (if length bs > queue_remaining q then None
      else if bs \<noteq> [] then Some (q\<lparr>chunks := chunks q @ [bs], queued_bytes := queued_bytes q + length bs\<rparr>)
      else Some q)"

definition queue_front :: "pending_queue \<Rightarrow> bytes option" where
  "queue_front q = (case chunks q of [] \<Rightarrow> None | c # cs \<Rightarrow> Some c)"

definition queue_consume :: "usize \<Rightarrow> pending_queue \<Rightarrow> usize \<times> pending_queue" where
  "queue_consume len q =
     (case chunks q of
        [] \<Rightarrow> (0, q)
      | front # rest \<Rightarrow>
          let len = min len (length front);
              front = drop len front;
              q = q\<lparr>queued_bytes := queued_bytes q - len\<rparr>
          in (len, q\<lparr>chunks := (if front = [] then rest else front # rest)\<rparr>))"

definition queue_is_empty :: "pending_queue \<Rightarrow> bool" where
  "queue_is_empty q \<longleftrightarrow> queued_bytes q = 0"

definition queue_len :: "pending_queue \<Rightarrow> usize" where
  "queue_len q = queued_bytes q"

section \<open>Segments sent to the namespace\<close>

record sent_segment =
  seg_sequence :: u32
  payload_len :: usize
  seg_syn :: bool
  seg_fin :: bool
  last_sent :: instant
  retransmit_timeout :: duration
  retries :: u8

definition sequence_len :: "sent_segment \<Rightarrow> u32" where
  "sequence_len s = word_of_nat (payload_len s) + of_bool (seg_syn s) + of_bool (seg_fin s)"

definition end_sequence :: "sent_segment \<Rightarrow> u32" where
  "end_sequence s = seg_sequence s + sequence_len s"

definition acknowledge :: "u32 \<Rightarrow> sent_segment \<Rightarrow> bool \<times> sent_segment" where
  "acknowledge ack s =
     (if \<not> after ack (seg_sequence s) then (False, s)
      else if \<not> before ack (end_sequence s) then (True, s)
      else let acknowledged = distance (seg_sequence s) ack;
               s = s\<lparr>seg_sequence := ack\<rparr>;
               (s, acknowledged) =
                 (if seg_syn s \<and> acknowledged > 0 then (s\<lparr>seg_syn := False\<rparr>, acknowledged - 1)
                  else (s, acknowledged));
               payload = min (unat acknowledged) (payload_len s);
               s = s\<lparr>payload_len := payload_len s - payload\<rparr>;
               acknowledged = acknowledged - word_of_nat payload;
               s = (if seg_fin s \<and> acknowledged > 0 then s\<lparr>seg_fin := False\<rparr> else s)
           in (False, s))"

definition segment_flags :: "sent_segment \<Rightarrow> tcp_flags" where
  "segment_flags s = \<lparr>fl_fin = seg_fin s, fl_syn = seg_syn s, fl_rst = False, fl_psh = payload_len s > 0, fl_ack = True\<rparr>"

definition record_timeout_retransmit :: "instant \<Rightarrow> sent_segment \<Rightarrow> sent_segment" where
  "record_timeout_retransmit now s =
     s\<lparr>last_sent := now, retries := saturating_add (retries s) 1,
       retransmit_timeout := min (retransmit_timeout s * 2) (from_secs 8)\<rparr>"

definition retries_exhausted :: "sent_segment \<Rightarrow> bool" where
  "retries_exhausted s \<longleftrightarrow> retries s \<ge> MAX_RETRIES"

text \<open>The loop of \<open>handle_existing_tcp\<close> over the front of the queue.\<close>

fun ack_segments :: "u32 \<Rightarrow> sent_segment list \<Rightarrow> sent_segment list" where
  "ack_segments ack [] = []"
| "ack_segments ack (s # rest) =
     (let (gone, s) = acknowledge ack s in if gone then ack_segments ack rest else s # rest)"

section \<open>Decisions\<close>

definition pending_pressure_state :: "bool \<Rightarrow> usize \<Rightarrow> usize \<Rightarrow> bool" where
  "pending_pressure_state current n limit =
     (let high = min (limit * 7) (2 ^ 64 - 1) div 8;
          low = min (limit * 3) (2 ^ 64 - 1) div 4
      in if current then n > low else n \<ge> high)"

definition socks_control_interest :: "bool \<Rightarrow> u32" where
  "socks_control_interest writable =
     (let base = READABLE OR ERROR OR HANGUP OR READ_HANGUP
      in if writable then base OR WRITABLE else base)"

definition socket_interest :: "bool \<Rightarrow> bool \<Rightarrow> bool \<Rightarrow> u32" where
  "socket_interest connect_pending handshake_output_pending queued_payload =
     (let base = READABLE OR ERROR OR READ_HANGUP
      in if connect_pending \<or> handshake_output_pending \<or> queued_payload then base OR WRITABLE else base)"

section \<open>The pending queue is a bounded byte queue\<close>

definition queue_ok :: "pending_queue \<Rightarrow> bool" where
  "queue_ok q \<longleftrightarrow> queued_bytes q = length (concat (chunks q)) \<and> queued_bytes q \<le> queue_limit q \<and> [] \<notin> set (chunks q)"

definition queue_contents :: "pending_queue \<Rightarrow> bytes" where
  "queue_contents q = concat (chunks q)"

text \<open>What a client of the queue relies on: a bounded first-in first-out sequence of bytes.\<close>

locale byte_fifo =
  fixes ok :: "'q \<Rightarrow> bool" and contents :: "'q \<Rightarrow> bytes" and limit :: "'q \<Rightarrow> usize"
    and put :: "bytes \<Rightarrow> 'q \<Rightarrow> 'q option" and front :: "'q \<Rightarrow> bytes option"
    and take_front :: "usize \<Rightarrow> 'q \<Rightarrow> usize \<times> 'q"
  assumes bounded: "ok q \<Longrightarrow> length (contents q) \<le> limit q"
    and put_some: "ok q \<Longrightarrow> put bs q = Some q' \<Longrightarrow> ok q' \<and> contents q' = contents q @ bs \<and> limit q' = limit q"
    and put_none: "ok q \<Longrightarrow> put bs q = None \<longleftrightarrow> limit q < length (contents q) + length bs"
    and front_prefix: "ok q \<Longrightarrow> front q = Some bs \<Longrightarrow> bs \<noteq> [] \<and> take (length bs) (contents q) = bs"
    and front_none: "ok q \<Longrightarrow> front q = None \<longleftrightarrow> contents q = []"
    and take_some: "ok q \<Longrightarrow> take_front n q = (k, q') \<Longrightarrow> ok q' \<and> contents q' = drop k (contents q) \<and>
      limit q' = limit q \<and> k \<le> n \<and> k \<le> length (contents q) \<and>
      (\<forall>bs. front q = Some bs \<and> n \<le> length bs \<longrightarrow> k = n)"
begin

text \<open>
  Sending a prefix of the front chunk and consuming what was sent moves exactly those bytes.
\<close>

lemma send_front:
  assumes "ok q" "front q = Some bs" "n \<le> length bs" "take_front n q = (k, q')"
  shows "k = n \<and> take n bs @ contents q' = contents q"
proof -
  have k: "k = n" "contents q' = drop n (contents q)"
    using take_some [OF assms(1,4)] assms(2,3) by auto
  have "take n bs = take n (contents q)"
    using front_prefix [OF assms(1,2)] assms(3) by (metis min.absorb1 take_take)
  then show ?thesis
    using k by simp
qed

end

interpretation pq: byte_fifo queue_ok queue_contents queue_limit queue_push queue_front queue_consume
proof unfold_locales
  fix q :: pending_queue and n k q'
  assume ok: "queue_ok q" and c: "queue_consume n q = (k, q')"
  show "queue_ok q' \<and> queue_contents q' = drop k (queue_contents q) \<and> queue_limit q' = queue_limit q \<and> k \<le> n \<and>
      k \<le> length (queue_contents q) \<and> (\<forall>bs. queue_front q = Some bs \<and> n \<le> length bs \<longrightarrow> k = n)"
  proof (cases "chunks q")
    case Nil
    then show ?thesis
      using ok c by (auto simp: queue_consume_def queue_contents_def queue_front_def)
  next
    case (Cons front rest)
    then have k: "k = min n (length front)" and q': "q' = q\<lparr>queued_bytes := queued_bytes q - k,
        chunks := (if drop k front = [] then rest else drop k front # rest)\<rparr>"
      using c by (auto simp: queue_consume_def Let_def min_def split: if_splits)
    then have "concat (chunks q') = drop k (concat (chunks q))"
      using Cons by auto
    then show ?thesis
      using ok k q' Cons by (auto simp: queue_ok_def queue_contents_def queue_front_def)
  qed
qed (auto simp: queue_ok_def queue_contents_def queue_push_def queue_remaining_def queue_front_def
    split: if_splits list.splits)

section \<open>The retransmission queue\<close>

text \<open>
  A segment stands for the sequence numbers it occupies: the SYN, its payload bytes, the FIN. The
  queue holds consecutive segments.
\<close>

datatype unit_kind = SynUnit | DataUnit | FinUnit

definition seg_units :: "sent_segment \<Rightarrow> unit_kind list" where
  "seg_units s = (if seg_syn s then [SynUnit] else []) @ replicate (payload_len s) DataUnit @
     (if seg_fin s then [FinUnit] else [])"

definition queue_units :: "sent_segment list \<Rightarrow> unit_kind list" where
  "queue_units ss = concat (map seg_units ss)"

fun seg_chain :: "u32 \<Rightarrow> sent_segment list \<Rightarrow> bool" where
  "seg_chain a [] = True"
| "seg_chain a (s # ss) \<longleftrightarrow> seg_sequence s = a \<and> seg_units s \<noteq> [] \<and> seg_chain (end_sequence s) ss"

definition payload_total :: "sent_segment list \<Rightarrow> usize" where
  "payload_total ss = sum_list (map payload_len ss)"

lemma sequence_len_units: "sequence_len s = word_of_nat (length (seg_units s))"
  by (simp add: sequence_len_def seg_units_def)

lemma end_sequence_at: "end_sequence s = seq_at (seg_sequence s) (length (seg_units s))"
  by (simp add: end_sequence_def sequence_len_units seq_at_def)

lemma queue_units_simps [simp]:
  "queue_units [] = []" "queue_units (s # ss) = seg_units s @ queue_units ss"
  "queue_units (ss @ [s]) = queue_units ss @ seg_units s"
  by (simp_all add: queue_units_def)

lemma payload_total_units: "payload_total ss = length (filter (\<lambda>u. u = DataUnit) (queue_units ss))"
  by (induction ss) (simp_all add: payload_total_def seg_units_def)

lemma before_seq_at: "i < j + 2 ^ 31 \<Longrightarrow> j < i + 2 ^ 31 \<Longrightarrow> before (seq_at b i) (seq_at b j) \<longleftrightarrow> i < j"
  by (rule seq.lt_at)

lemma acknowledge_none:
  assumes "length (seg_units s) < 2 ^ 31"
  shows "acknowledge (seg_sequence s) s = (False, s)"
  using before_seq_at [of 0 0 "seg_sequence s"] by (simp add: acknowledge_def after_def)

lemma acknowledge_all:
  assumes "length (seg_units s) \<le> k" "0 < length (seg_units s)" "k < 2 ^ 31"
  shows "acknowledge (seq_at (seg_sequence s) k) s = (True, s)"
  using assms less_le_trans [OF assms(2,1)] before_seq_at [of 0 k "seg_sequence s"] before_seq_at [of k "length (seg_units s)" "seg_sequence s"]
  by (simp add: acknowledge_def after_def end_sequence_at)

lemma acknowledge_some:
  assumes k: "0 < k" "k < length (seg_units s)" and small: "length (seg_units s) < 2 ^ 31"
  shows "\<exists>s'. acknowledge (seq_at (seg_sequence s) k) s = (False, s') \<and> seg_sequence s' = seq_at (seg_sequence s) k \<and>
    seg_units s' = drop k (seg_units s)"
proof -
  define d where "d = distance (seg_sequence s) (seq_at (seg_sequence s) k)"
  have d: "unat d = k"
    using unat_distance [of 0 k "seg_sequence s"] k small by (simp add: d_def)
  then have pos: "d > 0"
    using k by (simp add: word_less_nat_alt)
  have "after (seq_at (seg_sequence s) k) (seg_sequence s)" "before (seq_at (seg_sequence s) k) (end_sequence s)"
    using before_seq_at [of 0 k "seg_sequence s"] before_seq_at [of k "length (seg_units s)" "seg_sequence s"] k small
    by (simp_all add: after_def end_sequence_at)
  note ack = acknowledge_def [of "seq_at (seg_sequence s) k" s, folded d_def, simplified this Let_def, simplified]
  show ?thesis
  proof (cases "seg_syn s")
    case True
    have d1: "unat (d - 1) = k - 1"
      using d pos k by (simp add: unat_sub word_le_nat_alt)
    have le: "k - 1 \<le> payload_len s"
      using k True by (auto simp: seg_units_def split: if_splits)
    have "d - 1 - word_of_nat (k - 1) = 0"
    proof -
      have "word_of_nat (unat (d - 1)) = d - 1"
        by simp
      then show ?thesis
        by (simp only: d1) simp
    qed
    then show ?thesis
      using True pos d1 le k by (auto simp: ack seg_units_def min_def drop_Cons')
  next
    case False
    have le: "k \<le> payload_len s"
      using k False by (auto simp: seg_units_def split: if_splits)
    have "d - word_of_nat k = 0"
    proof -
      have "word_of_nat (unat d) = d"
        by simp
      then show ?thesis
        by (simp only: d) simp
    qed
    then show ?thesis
      using False d le k by (auto simp: ack seg_units_def min_def)
  qed
qed

lemma ack_segments_refines:
  assumes "seg_chain a ss" "length (queue_units ss) < 2 ^ 31" "k \<le> length (queue_units ss)"
  shows "seg_chain (seq_at a k) (ack_segments (seq_at a k) ss) \<and>
    queue_units (ack_segments (seq_at a k) ss) = drop k (queue_units ss)"
  using assms
proof (induction ss arbitrary: a k)
  case (Cons s ss)
  define n where "n = length (seg_units s)"
  have s: "seg_sequence s = a" "0 < n" "n < 2 ^ 31" "seg_chain (seq_at a n) ss"
    using Cons.prems by (auto simp: end_sequence_at n_def)
  consider "k = 0" | "0 < k" "k < n" | "n \<le> k"
    by linarith
  then show ?case
  proof cases
    case 1
    then show ?thesis
      using acknowledge_none [of s] s Cons.prems by (simp add: n_def)
  next
    case 2
    then obtain s' where s': "acknowledge (seq_at a k) s = (False, s')" "seg_sequence s' = seq_at a k"
        "seg_units s' = drop k (seg_units s)"
      using acknowledge_some [of k s] s by (auto simp: n_def)
    moreover have "end_sequence s' = seq_at a n"
      using s' 2 seq_at_add [of a k "n - k"] by (simp add: end_sequence_at n_def seq_at_def)
    ultimately show ?thesis
      using s 2 by (simp add: n_def)
  next
    case 3
    have "seq_at a k = seq_at (seq_at a n) (k - n)"
      using 3 seq_at_add [of a n "k - n"] by (simp add: seq_at_def)
    then show ?thesis
      using 3 Cons.IH [OF s(4), of "k - n"] Cons.prems acknowledge_all [of s k] s by (simp add: n_def)
  qed
qed simp

section \<open>Histories of the pending queue\<close>

text \<open>
  \<open>queue_history limit q pushed taken\<close>: the queue \<open>q\<close> arises from a new one by any sequence of its
  operations. \<open>pushed\<close> are the bytes of the accepted pushes, in order, and \<open>taken\<close> the bytes that were
  consumed from what \<open>front\<close> showed. A refused push leaves the queue as it is.
\<close>

definition shown :: "pending_queue \<Rightarrow> bytes" where
  "shown q = (case queue_front q of None \<Rightarrow> [] | Some bs \<Rightarrow> bs)"

inductive queue_history :: "usize \<Rightarrow> pending_queue \<Rightarrow> bytes \<Rightarrow> bytes \<Rightarrow> bool" for limit where
  queue_start: "queue_history limit (queue_new limit) [] []"
| queue_pushed: "queue_history limit q pushed taken \<Longrightarrow> queue_push bs q = Some q' \<Longrightarrow>
    queue_history limit q' (pushed @ bs) taken"
| queue_taken: "queue_history limit q pushed taken \<Longrightarrow> queue_consume n q = (k, q') \<Longrightarrow>
    queue_history limit q' pushed (taken @ take k (shown q))"

lemma queue_consume_shown:
  assumes "queue_ok q" "queue_consume n q = (k, q')"
  shows "k = min n (length (shown q)) \<and> queue_ok q' \<and> queue_limit q' = queue_limit q \<and>
    take k (shown q) @ queue_contents q' = queue_contents q"
proof (cases "queue_front q")
  case None
  then have "k = 0" "queue_contents q' = queue_contents q" "queue_ok q'" "queue_limit q' = queue_limit q"
    using pq.take_some [OF assms] pq.front_none [OF assms(1)] by simp_all
  then show ?thesis
    by (simp add: shown_def None)
next
  case (Some bs)
  have "k = min n (length bs)"
    using Some assms(2) by (auto simp: queue_front_def queue_consume_def Let_def split: list.splits)
  moreover have "take k bs = take k (queue_contents q)"
    using pq.front_prefix [OF assms(1) Some] calculation by (metis min.cobounded2 min.absorb1 take_take)
  ultimately show ?thesis
    using pq.take_some [OF assms] by (simp add: shown_def Some)
qed

lemma queue_history_ok:
  "queue_history limit q pushed taken \<Longrightarrow>
     queue_ok q \<and> queue_limit q = limit \<and> taken @ queue_contents q = pushed"
proof (induction rule: queue_history.induct)
  case queue_start
  then show ?case
    by (simp add: queue_new_def queue_ok_def queue_contents_def)
next
  case (queue_pushed q pushed taken bs q')
  then show ?case
    using pq.put_some [of q bs q'] by auto
next
  case (queue_taken q pushed taken n k q')
  then show ?case
    using queue_consume_shown [of q n k q'] by (metis append.assoc)
qed

section \<open>Histories of a segment\<close>

definition fresh_segment :: "u32 \<Rightarrow> usize \<Rightarrow> bool \<Rightarrow> bool \<Rightarrow> instant \<Rightarrow> sent_segment" where
  "fresh_segment sq len sy fi now = \<lparr>seg_sequence = sq, payload_len = len, seg_syn = sy, seg_fin = fi,
     last_sent = now, retransmit_timeout = RETRANSMIT_INITIAL, retries = 0\<rparr>"

definition timeouts :: "instant list \<Rightarrow> sent_segment \<Rightarrow> sent_segment" where
  "timeouts ts s = foldl (\<lambda>s t. record_timeout_retransmit t s) s ts"

definition probes :: "instant list \<Rightarrow> zero_window_probe \<Rightarrow> zero_window_probe" where
  "probes ts p = foldl (\<lambda>p t. probe_advance t p) p ts"

lemma backoff_step: "min (min (2 ^ n) 8 * d * 2) (8 * d) = min (2 ^ Suc n) 8 * (d :: nat)"
  by (cases "n \<ge> 3") (auto simp: min_def power_increasing_iff [of 2 3 n, simplified])

lemma timeouts_state:
  "retransmit_timeout (timeouts ts (fresh_segment sq len sy fi now)) = min (2 ^ length ts) 8 * from_secs 1 \<and>
   unat (retries (timeouts ts (fresh_segment sq len sy fi now))) = min (length ts) 255"
proof (induction ts rule: rev_induct)
  case Nil
  then show ?case
    by (simp add: timeouts_def fresh_segment_def RETRANSMIT_INITIAL_def from_secs_def)
next
  case (snoc t ts)
  then show ?case
    using backoff_step [of "length ts" "from_secs 1"]
    by (auto simp: timeouts_def record_timeout_retransmit_def unat_saturating_add from_secs_def)
qed

lemma probes_state: "probe_interval (probes ts (probe_new now)) = min (2 ^ length ts) 8 * from_secs 1"
proof (induction ts rule: rev_induct)
  case Nil
  then show ?case
    by (simp add: probes_def probe_new_def ZERO_WINDOW_PROBE_INITIAL_def)
next
  case (snoc t ts)
  then show ?case
    using backoff_step [of "length ts" "from_secs 1"]
    by (simp add: probes_def probe_advance_def Let_def ZERO_WINDOW_PROBE_MAX_def from_secs_def)
qed

section \<open>Properties\<close>

text \<open>
  C10. Acknowledging trims the retransmission queue exactly: when the namespace acknowledges the first
  \<open>k\<close> of the sequence numbers that the queued segments occupy, the loop leaves segments for exactly
  the remaining numbers - whole segments dropped, a partly acknowledged one cut, SYN and FIN counted
  as one number each - consecutive from the acknowledgment on, across the wrap of the 32-bit
  numbers, and the payload retained falls by the payload acknowledged.
\<close>

theorem retransmission_queue_trims:
  assumes "seg_chain a ss" and "length (queue_units ss) < 2 ^ 31" and "k \<le> length (queue_units ss)"
  shows "seg_chain (seq_at a k) (ack_segments (seq_at a k) ss) \<and>
    queue_units (ack_segments (seq_at a k) ss) = drop k (queue_units ss) \<and>
    payload_total ss = payload_total (ack_segments (seq_at a k) ss) +
      length (filter (\<lambda>u. u = DataUnit) (take k (queue_units ss)))"
proof -
  note r = ack_segments_refines [OF assms]
  let ?data = "filter (\<lambda>u. u = DataUnit)"
  have "?data (queue_units ss) = ?data (take k (queue_units ss)) @ ?data (drop k (queue_units ss))"
    by (metis append_take_drop_id filter_append)
  then have "payload_total ss = length (?data (take k (queue_units ss)) @ ?data (drop k (queue_units ss)))"
    by (simp only: payload_total_units)
  then show ?thesis
    using r by (simp add: payload_total_units [of "ack_segments (seq_at a k) ss"])
qed

text \<open>
  C25. The pending queue, on its own, is a bounded byte queue. After any sequence of pushes and
  consumptions the bytes taken so far are the first of the bytes pushed; the length is the number of
  bytes pushed and not taken, never above the limit; the front is missing exactly when everything
  was taken, and otherwise shows a non-empty run of the bytes due next; a push is refused exactly
  when the bytes would not fit; and a consumption of \<open>n\<close> takes \<open>n\<close> bytes or all that the front shows.
  This is about the queue only, not about payload that the reactor writes to the socket directly.
\<close>

theorem pending_queue_fifo:
  assumes "queue_history limit q pushed taken"
  shows "taken = take (length taken) pushed \<and> length taken \<le> length pushed \<and>
    queue_len q = length pushed - length taken \<and> queue_len q \<le> limit \<and>
    queue_remaining q = limit - queue_len q \<and> (queue_is_empty q \<longleftrightarrow> taken = pushed) \<and>
    (case queue_front q of None \<Rightarrow> taken = pushed | Some bs \<Rightarrow> bs \<noteq> [] \<and> bs = take (length bs) (drop (length taken) pushed)) \<and>
    (queue_push bytes q = None \<longleftrightarrow> limit < length pushed - length taken + length bytes) \<and>
    fst (queue_consume n q) = min n (length (shown q))"
proof -
  have ok: "queue_ok q" and limit: "queue_limit q = limit" and eq: "pushed = taken @ queue_contents q"
    using queue_history_ok [OF assms] by auto
  have len: "queue_len q = length (queue_contents q)"
    using ok by (simp add: queue_ok_def queue_len_def queue_contents_def)
  have "case queue_front q of None \<Rightarrow> taken = pushed | Some bs \<Rightarrow> bs \<noteq> [] \<and> bs = take (length bs) (drop (length taken) pushed)"
    using pq.front_none [OF ok] pq.front_prefix [OF ok]
    by (auto simp: eq split: option.split)
  moreover have "fst (queue_consume n q) = min n (length (shown q))"
    using queue_consume_shown [OF ok surjective_pairing] by blast
  ultimately show ?thesis
    using pq.bounded [OF ok] pq.put_none [OF ok] len limit
    by (simp add: eq queue_remaining_def queue_is_empty_def queue_len_def)
qed

text \<open>
  Retransmission and probing back off exponentially up to eight seconds: after \<open>n\<close> timeouts a
  segment waits \<open>min (2 ^ n) 8\<close> seconds for the next, it is given up exactly from the fifth on, and
  its sequence numbers never change by retransmission; a zero-window probe follows the same
  schedule without end.
\<close>

theorem backoff_schedule:
  "retransmit_timeout (timeouts ts (fresh_segment sq len sy fi now)) = min (2 ^ length ts) 8 * from_secs 1 \<and>
   (retries_exhausted (timeouts ts (fresh_segment sq len sy fi now)) \<longleftrightarrow> 5 \<le> length ts) \<and>
   seg_units (timeouts ts (fresh_segment sq len sy fi now)) = seg_units (fresh_segment sq len sy fi now) \<and>
   probe_interval (probes ts (probe_new now)) = min (2 ^ length ts) 8 * from_secs 1"
proof -
  have "seg_units (timeouts ts s) = seg_units s" for s
    by (induction ts arbitrary: s) (simp_all add: timeouts_def record_timeout_retransmit_def seg_units_def)
  moreover have "retries_exhausted (timeouts ts (fresh_segment sq len sy fi now)) \<longleftrightarrow> 5 \<le> length ts"
    using timeouts_state [of ts sq len sy fi now]
    by (auto simp: retries_exhausted_def MAX_RETRIES_def word_le_nat_alt)
  ultimately show ?thesis
    using timeouts_state probes_state by simp
qed

section \<open>Witnesses\<close>

definition sample_segments :: "sent_segment list" where
  "sample_segments = [fresh_segment (- 2) 3 False False 0, fresh_segment 1 2 False True 0]"

theorem retransmission_queue_trims_witness:
  "queue_units (ack_segments 2 sample_segments) = [DataUnit, FinUnit] \<and>
     payload_total (ack_segments 2 sample_segments) = 1"
proof -
  have units: "queue_units sample_segments = [DataUnit, DataUnit, DataUnit, DataUnit, DataUnit, FinUnit]"
    by (simp add: sample_segments_def fresh_segment_def seg_units_def numeral_eq_Suc)
  moreover have "seg_chain (- 2) sample_segments"
    by (simp add: sample_segments_def fresh_segment_def seg_units_def end_sequence_def sequence_len_def)
  moreover have "payload_total sample_segments = 5"
    by (simp add: sample_segments_def fresh_segment_def payload_total_def)
  moreover have "seq_at (- 2) 4 = 2"
    by (simp add: seq_at_def)
  ultimately show ?thesis
    using retransmission_queue_trims [of "- 2" sample_segments 4] by simp
qed

theorem pending_queue_fifo_witness:
  "\<exists>q. queue_history 4 q [1, 2, 3] [1, 2] \<and> queue_len q = 1 \<and> queue_push [4, 5, 6, 7] q = None \<and>
     fst (queue_consume 5 q) = 1"
proof -
  define q1 where "q1 = \<lparr>chunks = [[1, 2, 3]], queued_bytes = 3, queue_limit = 4\<rparr>"
  define q2 where "q2 = \<lparr>chunks = [[3]], queued_bytes = 1, queue_limit = 4\<rparr>"
  have "queue_push [1, 2, 3] (queue_new 4) = Some q1"
    by (simp add: queue_push_def queue_new_def queue_remaining_def q1_def)
  from queue_pushed [OF queue_start this] have "queue_history 4 q1 [1, 2, 3] []"
    by simp
  moreover have "shown q1 = [1, 2, 3]" "shown q2 = [3]" "queue_consume 2 q1 = (2, q2)"
    by (simp_all add: shown_def queue_front_def queue_consume_def q1_def q2_def Let_def)
  ultimately have "queue_history 4 q2 [1, 2, 3] [1, 2]" "length (shown q2) = 1"
    using queue_taken [of 4 q1 "[1, 2, 3]" "[]" 2 2 q2] by simp_all
  then show ?thesis
    using pending_queue_fifo [of 4 q2 "[1, 2, 3]" "[1, 2]" "[4, 5, 6, 7]" 5] by auto
qed

end
