(* ===== verification/Flow_Table.thy ===== *)
theory Flow_Table
  imports Prelude
begin

text \<open>
  The generational flow table and the epoll tokens of \<open>crates/dataplane/src/flow_table.rs\<close>. A
  \<open>Vec\<close> used as a stack is a list whose top is its last element. Where the source indexes a vector
  or asserts, the operation is \<open>None\<close> when the index is out of range or the assertion fails.
\<close>

section \<open>Identifiers and tokens\<close>

definition SLOT_BITS :: nat where "SLOT_BITS = 20"
definition RESOURCE_BITS :: nat where "RESOURCE_BITS = 7"
definition SLOT_MASK :: u64 where "SLOT_MASK = push_bit SLOT_BITS 1 - 1"
definition RESOURCE_MASK :: u64 where "RESOURCE_MASK = push_bit RESOURCE_BITS 1 - 1"
definition SIDE_SHIFT :: nat where "SIDE_SHIFT = SLOT_BITS + RESOURCE_BITS"
definition GENERATION_SHIFT :: nat where "GENERATION_SHIFT = 32"

lemmas token_consts = SLOT_BITS_def RESOURCE_BITS_def SLOT_MASK_def RESOURCE_MASK_def
  SIDE_SHIFT_def GENERATION_SHIFT_def

record flow_id =
  slot :: u32
  generation :: u32

datatype resource = UpstreamSocket | Tap | Timer | Control | DnsUpstream | UdpSocket
  | SocksControl | SocksRelay

fun resource_code :: "resource \<Rightarrow> u64" where
  "resource_code UpstreamSocket = 1"
| "resource_code Tap = 2"
| "resource_code Timer = 3"
| "resource_code Control = 4"
| "resource_code DnsUpstream = 5"
| "resource_code UdpSocket = 6"
| "resource_code SocksControl = 7"
| "resource_code SocksRelay = 8"

definition resource_of :: "u64 \<Rightarrow> resource option" where
  "resource_of c =
     (if c = 1 then Some UpstreamSocket else if c = 2 then Some Tap else if c = 3 then Some Timer
      else if c = 4 then Some Control else if c = 5 then Some DnsUpstream
      else if c = 6 then Some UdpSocket else if c = 7 then Some SocksControl
      else if c = 8 then Some SocksRelay else None)"

definition token_flow :: "flow_id \<Rightarrow> resource \<Rightarrow> bool \<Rightarrow> u64 option" where
  "token_flow fid resource target_side =
     (if (ucast (slot fid) :: u64) > SLOT_MASK \<or> generation fid = 0 then None
      else Some (push_bit GENERATION_SHIFT (ucast (generation fid)) OR ucast (slot fid) OR
                 push_bit SLOT_BITS (resource_code resource AND RESOURCE_MASK) OR
                 push_bit SIDE_SHIFT (of_bool target_side)))"

definition token_global :: "resource \<Rightarrow> u64" where
  "token_global resource = push_bit SLOT_BITS (resource_code resource AND RESOURCE_MASK)"

definition token_decode :: "u64 \<Rightarrow> (flow_id option \<times> resource \<times> bool) option" where
  "token_decode v =
     (if v AND 0xf0000000 \<noteq> 0 then None
      else case resource_of (drop_bit SLOT_BITS v AND RESOURCE_MASK) of
        None \<Rightarrow> None
      | Some resource \<Rightarrow>
          let gen = (ucast (drop_bit GENERATION_SHIFT v) :: u32);
              sl = (ucast (v AND SLOT_MASK) :: u32);
              flow = (if gen = 0 then None else Some \<lparr>slot = sl, generation = gen\<rparr>)
          in Some (flow, resource, v AND push_bit SIDE_SHIFT 1 \<noteq> 0))"

section \<open>The table\<close>

record 'v table_slot =
  slot_generation :: u32
  slot_value :: "'v option"
  retired :: bool

record 'v flow_table =
  slots :: "'v table_slot list"
  free :: "u32 list"
  deferred :: "flow_id list"

definition table_with_capacity :: "usize \<Rightarrow> 'v flow_table option" where
  "table_with_capacity capacity =
     (if capacity \<le> 2 ^ SLOT_BITS then
        Some \<lparr>slots = replicate capacity \<lparr>slot_generation = 1, slot_value = None, retired = False\<rparr>,
              free = rev (map word_of_nat [0..<capacity]), deferred = []\<rparr>
      else None)"

definition table_insert :: "'v \<Rightarrow> 'v flow_table \<Rightarrow> (('v + flow_id) \<times> 'v flow_table) option" where
  "table_insert value t =
     (if free t = [] then Some (Inl value, t)
      else let slot_index = last (free t);
               t = t\<lparr>free := butlast (free t)\<rparr>
           in if unat slot_index \<ge> length (slots t) then None
              else let s = slots t ! unat slot_index
                   in if retired s then Some (Inl value, t)
                      else Some (Inr \<lparr>slot = slot_index, generation = slot_generation s\<rparr>,
                             t\<lparr>slots := (slots t)[unat slot_index := s\<lparr>slot_value := Some value\<rparr>]\<rparr>))"

definition table_get :: "'v flow_table \<Rightarrow> flow_id \<Rightarrow> 'v option" where
  "table_get t fid =
     (if unat (slot fid) < length (slots t) then
        let s = slots t ! unat (slot fid)
        in if slot_generation s = generation fid then slot_value s else None
      else None)"

text \<open>\<open>get_mut\<close> with the change \<open>g\<close> the caller makes through the reference.\<close>

definition table_modify :: "flow_id \<Rightarrow> ('v \<Rightarrow> 'v) \<Rightarrow> 'v flow_table \<Rightarrow> 'v flow_table" where
  "table_modify fid g t =
     (case table_get t fid of
        None \<Rightarrow> t
      | Some v \<Rightarrow> t\<lparr>slots := (slots t)[unat (slot fid) := (slots t ! unat (slot fid))\<lparr>slot_value := Some (g v)\<rparr>]\<rparr>)"

definition defer_remove :: "flow_id \<Rightarrow> 'v flow_table \<Rightarrow> 'v flow_table" where
  "defer_remove fid t =
     (if table_get t fid \<noteq> None \<and> fid \<notin> set (deferred t) then t\<lparr>deferred := deferred t @ [fid]\<rparr> else t)"

definition active_ids :: "'v flow_table \<Rightarrow> flow_id list" where
  "active_ids t =
     List.map_filter (\<lambda>(i, s). map_option (\<lambda>_. \<lparr>slot = word_of_nat i, generation = slot_generation s\<rparr>) (slot_value s))
       (enumerate 0 (slots t))"

fun flush_loop :: "flow_id list \<Rightarrow> 'v flow_table \<Rightarrow> 'v list \<Rightarrow> ('v list \<times> 'v flow_table) option" where
  "flush_loop [] t removed = Some (removed, t)"
| "flush_loop (fid # ids) t removed =
     (if unat (slot fid) \<ge> length (slots t) then None
      else let s = slots t ! unat (slot fid)
           in if slot_generation s \<noteq> generation fid then flush_loop ids t removed
              else let removed = (case slot_value s of Some v \<Rightarrow> removed @ [v] | None \<Rightarrow> removed);
                       s = s\<lparr>slot_value := None\<rparr>;
                       t = (if slot_generation s \<noteq> - 1
                            then t\<lparr>slots := (slots t)[unat (slot fid) := s\<lparr>slot_generation := slot_generation s + 1\<rparr>],
                                   free := free t @ [slot fid]\<rparr>
                            else t\<lparr>slots := (slots t)[unat (slot fid) := s\<lparr>retired := True\<rparr>]\<rparr>)
                   in flush_loop ids t removed)"

definition flush_deferred :: "'v flow_table \<Rightarrow> ('v list \<times> 'v flow_table) option" where
  "flush_deferred t = flush_loop (deferred t) (t\<lparr>deferred := []\<rparr>) []"

section \<open>Tokens\<close>

lemma token_masks: "SLOT_MASK = mask 20" "RESOURCE_MASK = mask 7"
  by (simp_all add: token_consts mask_eq_exp_minus_1)

lemma bit_slot_bound:
  assumes "\<not> (ucast (w :: u32) :: u64) > SLOT_MASK" "bit w n"
  shows "n < 20"
proof (rule ccontr)
  assume n: "\<not> n < 20"
  have "unat (ucast w :: u64) < 2 ^ 20"
    using assms(1) by (simp add: not_less word_le_nat_alt token_consts)
  then have "unat w < 2 ^ 20"
    by (simp add: unsigned_ucast_eq take_bit_nat_eq_self order.strict_trans [OF unsigned_less])
  also have "(2 :: nat) ^ 20 \<le> 2 ^ n"
    using n by (intro power_increasing) simp_all
  finally show False
    using assms(2) bit_unsigned_iff [where 'a = nat, of w n] by (simp add: bit_nat_def)
qed

lemma resource_code_bits: "bit (resource_code r) n \<Longrightarrow> n < 4"
proof -
  have "resource_code r = take_bit 4 (resource_code r)"
    by (cases r) simp_all
  then show "bit (resource_code r) n \<Longrightarrow> n < 4"
    by (metis bit_take_bit_iff)
qed

lemma resource_of_code [simp]: "resource_of (resource_code r) = Some r"
  by (cases r) (simp_all add: resource_of_def)

lemma token_bits:
  assumes "token_flow fid r side = Some v"
  shows "bit v n \<longleftrightarrow> n < 64 \<and>
    (if n < 20 then bit (slot fid) n else if n < 27 then bit (resource_code r) (n - 20)
     else if n < 32 then n = 27 \<and> side else bit (generation fid) (n - 32))"
proof -
  have v: "v = push_bit 32 (ucast (generation fid)) OR ucast (slot fid) OR
      push_bit 20 (resource_code r AND mask 7) OR push_bit 27 (of_bool side)"
    and s: "bit (slot fid) n \<Longrightarrow> n < 20"
    using assms bit_slot_bound by (auto simp: token_flow_def token_masks token_consts split: if_splits)
  show ?thesis
    using s resource_code_bits [of r "n - 20"] bit_imp_le_length [of "slot fid" n]
      bit_imp_le_length [of "generation fid" "n - 32"]
    unfolding v by (auto simp: bit_simps)
qed

text \<open>
  Every epoll token decodes to what was encoded: a flow token yields its flow identifier, resource
  and side, a global token yields its resource and no flow. Two different registrations therefore
  never share a token.
\<close>

theorem token_roundtrip:
  fixes fid :: flow_id
  shows "(token_flow fid r side = Some v \<longrightarrow> token_decode v = Some (Some fid, r, side)) \<and>
   token_decode (token_global r) = Some (None, r, False)"
proof (intro conjI impI)
  assume v: "token_flow fid r side = Some v"
  note bits = token_bits [OF v]
  have gen: "generation fid \<noteq> 0" and s: "\<And>n. bit (slot fid) n \<Longrightarrow> n < 20"
    using v bit_slot_bound by (auto simp: token_flow_def split: if_splits)
  have m: "(0xf0000000 :: u64) = push_bit 28 (mask 4)"
    by (simp add: mask_eq_exp_minus_1)
  have "v AND 0xf0000000 = 0"
    unfolding m by (rule bit_word_eqI) (auto simp: bit_simps bits)
  moreover have "drop_bit 20 v AND mask 7 = resource_code r"
    by (rule bit_word_eqI) (auto simp: bit_simps bits dest: resource_code_bits)
  moreover have "ucast (drop_bit 32 v) = generation fid"
    by (rule bit_word_eqI) (simp add: bit_simps bits)
  moreover have "ucast (v AND mask 20) = slot fid"
    by (rule bit_word_eqI) (auto simp: bit_simps bits dest: s)
  moreover have "v AND 134217728 \<noteq> 0 \<longleftrightarrow> side"
    using bits [of 27] and_exp_eq_0_iff_not_bit [of v 27] by simp
  ultimately show "token_decode v = Some (Some fid, r, side)"
    using gen by (simp add: token_decode_def token_masks token_consts)
next
  show "token_decode (token_global r) = Some (None, r, False)"
    by (cases r) (simp_all add: token_decode_def token_global_def token_consts resource_of_def)
qed

theorem token_roundtrip_witness:
  "token_decode 0x0000000908100007 = Some (Some \<lparr>slot = 7, generation = 9\<rparr>, UpstreamSocket, True)"
  using token_roundtrip [where fid = "\<lparr>slot = 7, generation = 9\<rparr>" and r = UpstreamSocket
      and side = True and v = "0x0000000908100007"]
  by (simp add: token_flow_def token_consts)

section \<open>The table invariant\<close>

definition slot_ok :: "u32 set \<Rightarrow> nat \<Rightarrow> 'v table_slot \<Rightarrow> bool" where
  "slot_ok fr i s \<longleftrightarrow> slot_generation s \<noteq> 0 \<and> (retired s \<longrightarrow> slot_value s = None) \<and>
     (word_of_nat i \<in> fr \<longleftrightarrow> slot_value s = None \<and> \<not> retired s)"

definition table_ok :: "'v flow_table \<Rightarrow> bool" where
  "table_ok t \<longleftrightarrow> length (slots t) \<le> 2 ^ 20 \<and> distinct (free t) \<and> distinct (deferred t) \<and>
     (\<forall>i < length (slots t). slot_ok (set (free t)) i (slots t ! i)) \<and>
     (\<forall>s \<in> set (free t). unat s < length (slots t)) \<and>
     (\<forall>fid \<in> set (deferred t). table_get t fid \<noteq> None)"

text \<open>An identifier is spent once its slot has moved on to a later generation or has been retired.\<close>

definition spent :: "'v flow_table \<Rightarrow> flow_id \<Rightarrow> bool" where
  "spent t fid \<longleftrightarrow> unat (slot fid) < length (slots t) \<and>
     (generation fid < slot_generation (slots t ! unat (slot fid)) \<or>
      generation fid = slot_generation (slots t ! unat (slot fid)) \<and> retired (slots t ! unat (slot fid)))"

lemma unat_eq_word: "unat (a :: 'a::len word) = unat b \<longleftrightarrow> a = b"
  by (simp add: word_unat_eq_iff)

lemma table_get_update [simp]:
  "table_get (t\<lparr>free := fr\<rparr>) = table_get t"
  "table_get (t\<lparr>deferred := d\<rparr>) = table_get t"
  "table_get (t\<lparr>free := fr, slots := sl\<rparr>) = table_get (t\<lparr>slots := sl\<rparr>)"
  by (simp_all add: table_get_def fun_eq_iff)

lemma table_get_slots:
  assumes "unat s < length (slots t)"
  shows "table_get (t\<lparr>slots := (slots t)[unat s := x]\<rparr>) fid =
    (if slot fid = s then if slot_generation x = generation fid then slot_value x else None
     else table_get t fid)"
  using assms by (auto simp: table_get_def nth_list_update Let_def unat_eq_word)

lemma flow_id_eq_iff: "(a :: flow_id) = b \<longleftrightarrow> slot a = slot b \<and> generation a = generation b"
  by (cases a; cases b) simp

lemma slot_index_eq: "i < 2 ^ 32 \<Longrightarrow> word_of_nat i = (s :: u32) \<longleftrightarrow> i = unat s"
  by (auto simp: unsigned_of_nat take_bit_nat_eq_self)

lemma table_slot_ok: "table_ok t \<Longrightarrow> i < length (slots t) \<Longrightarrow> slot_ok (set (free t)) i (slots t ! i)"
  by (simp add: table_ok_def)

lemma table_index_eq: "table_ok t \<Longrightarrow> i < length (slots t) \<Longrightarrow> word_of_nat i = (s :: u32) \<longleftrightarrow> i = unat s"
  by (rule slot_index_eq) (simp add: table_ok_def)

lemma get_slot:
  assumes "table_get t fid = Some v"
  shows "unat (slot fid) < length (slots t)" "slot_generation (slots t ! unat (slot fid)) = generation fid"
    "slot_value (slots t ! unat (slot fid)) = Some v"
  using assms by (auto simp: table_get_def Let_def split: if_splits)

lemma spent_get: "table_ok t \<Longrightarrow> spent t fid \<Longrightarrow> table_get t fid = None"
  by (auto simp: spent_def table_get_def Let_def slot_ok_def dest: table_slot_ok)

lemma table_with_capacity_ok:
  assumes "table_with_capacity n = Some t"
  shows "table_ok t \<and> (\<forall>fid. table_get t fid = None) \<and> deferred t = []"
proof -
  have n: "n \<le> 2 ^ 20" and t: "t = \<lparr>slots = replicate n \<lparr>slot_generation = 1, slot_value = None, retired = False\<rparr>,
      free = rev (map word_of_nat [0..<n]), deferred = []\<rparr>"
    using assms by (auto simp: table_with_capacity_def SLOT_BITS_def split: if_splits)
  have "inj_on (word_of_nat :: nat \<Rightarrow> u32) {0..<n}"
    using n by (intro inj_onI) (auto simp: slot_index_eq unsigned_of_nat take_bit_nat_eq_self)
  then show ?thesis
    using n by (auto simp: t table_ok_def slot_ok_def table_get_def distinct_map unsigned_of_nat take_bit_nat_eq_self)
qed

text \<open>What \<open>insert\<close> does to a well-formed table, on both branches.\<close>

lemma table_insert_cases:
  assumes ok: "table_ok t"
  obtains (full) "free t = []" "table_insert v t = Some (Inl v, t)"
  | (fresh) s where "free t \<noteq> []" "unat s < length (slots t)" "s = last (free t)"
      "slot_value (slots t ! unat s) = None" "\<not> retired (slots t ! unat s)"
      "table_insert v t = Some (Inr \<lparr>slot = s, generation = slot_generation (slots t ! unat s)\<rparr>,
         t\<lparr>free := butlast (free t),
           slots := (slots t)[unat s := (slots t ! unat s)\<lparr>slot_value := Some v\<rparr>]\<rparr>)"
proof (cases "free t = []")
  case True
  then show ?thesis
    by (intro full) (simp_all add: table_insert_def)
next
  case False
  define s where "s = last (free t)"
  have "s \<in> set (free t)"
    using False by (simp add: s_def)
  then have r: "unat s < length (slots t)" and "word_of_nat (unat s) \<in> set (free t)"
    using ok by (auto simp: table_ok_def)
  then have v: "slot_value (slots t ! unat s) = None" "\<not> retired (slots t ! unat s)"
    using table_slot_ok [OF ok r] by (auto simp: slot_ok_def)
  show ?thesis
    by (rule fresh [of s]) (use False r v in \<open>simp_all add: table_insert_def s_def Let_def\<close>)
qed

text \<open>
  A change of one slot that keeps its generation, and a matching change of the free list, keeps the
  table well-formed.
\<close>

lemma table_ok_slot_update:
  assumes ok: "table_ok t" and s: "unat s < length (slots t)"
    and fr: "distinct fr" "set fr - {s} = set (free t) - {s}"
    and x: "slot_ok (set fr) (unat s) x"
    and d: "\<forall>fid \<in> set (deferred t). slot fid = s \<longrightarrow> slot_generation x = generation fid \<and> slot_value x \<noteq> None"
  shows "table_ok (t\<lparr>free := fr, slots := (slots t)[unat s := x]\<rparr>)"
proof -
  have rest: "slot_ok (set fr) i (slots t ! i)" if i: "i < length (slots t)" "i \<noteq> unat s" for i
  proof -
    have "(word_of_nat i :: u32) \<noteq> s"
      using i by (simp add: table_index_eq [OF ok])
    then have "word_of_nat i \<in> set fr \<longleftrightarrow> word_of_nat i \<in> set (free t)"
      using fr(2) by blast
    then show ?thesis
      using table_slot_ok [OF ok i(1)] by (simp add: slot_ok_def)
  qed
  have "\<forall>f \<in> set fr. unat f < length (slots t)"
    using fr(2) s ok by (auto simp: table_ok_def)
  moreover have "\<forall>fid \<in> set (deferred t). table_get (t\<lparr>slots := (slots t)[unat s := x]\<rparr>) fid \<noteq> None"
    using d ok s by (auto simp: table_get_slots table_ok_def)
  ultimately show ?thesis
    using ok fr(1) rest x s unfolding table_ok_def table_get_update by (auto simp: nth_list_update)
qed

lemma table_insert_ok:
  assumes ok: "table_ok t" and i: "table_insert v t = Some (Inr fid, t')"
  shows "table_ok t' \<and> table_get t fid = None \<and> table_get t' = (table_get t)(fid \<mapsto> v) \<and>
    deferred t' = deferred t \<and> \<not> spent t fid \<and> (\<forall>x. spent t x \<longrightarrow> spent t' x) \<and> generation fid \<noteq> 0 \<and>
    unat (slot fid) < length (slots t)"
  using ok
proof (cases rule: table_insert_cases [where v = v])
  case (fresh s)
  let ?s = "slots t ! unat s"
  have fid: "fid = \<lparr>slot = s, generation = slot_generation ?s\<rparr>"
    and t': "t' = t\<lparr>free := butlast (free t), slots := (slots t)[unat s := ?s\<lparr>slot_value := Some v\<rparr>]\<rparr>"
    using i fresh(6) by simp_all
  have get: "table_get t' = (table_get t)(fid \<mapsto> v)"
  proof
    fix x :: flow_id
    show "table_get t' x = ((table_get t)(fid \<mapsto> v)) x"
      using fresh(2,4) table_get_slots [of s "t\<lparr>free := butlast (free t)\<rparr>" "?s\<lparr>slot_value := Some v\<rparr>" x]
      by (auto simp: t' fid flow_id_eq_iff table_get_def Let_def)
  qed
  have none: "table_get t x = None" if "slot x = s" for x
    using fresh(4) that by (simp add: table_get_def Let_def)
  have fr: "set (butlast (free t)) = set (free t) - {s}"
    using ok fresh set_butlast_distinct [of "free t"] by (simp add: table_ok_def)
  have "table_ok t'"
    unfolding t'
  proof (rule table_ok_slot_update [OF ok fresh(2)])
    show "slot_ok (set (butlast (free t))) (unat s) (?s\<lparr>slot_value := Some v\<rparr>)"
      using table_slot_ok [OF ok fresh(2)] fresh(5) fr by (simp add: slot_ok_def)
    show "\<forall>x \<in> set (deferred t). slot x = s \<longrightarrow> slot_generation (?s\<lparr>slot_value := Some v\<rparr>) = generation x \<and>
        slot_value (?s\<lparr>slot_value := Some v\<rparr>) \<noteq> None"
      using ok none by (auto simp: table_ok_def)
  qed (use ok fr in \<open>auto simp: table_ok_def distinct_butlast\<close>)
  moreover have "slot_generation ?s \<noteq> 0"
    using table_slot_ok [OF ok fresh(2)] by (simp add: slot_ok_def)
  ultimately show ?thesis
    using get none [of fid] fresh(2,5) by (auto simp: fid t' spent_def nth_list_update)
qed (use i in simp)

lemma table_insert_full:
  assumes "table_ok t"
  shows "table_insert v t \<noteq> None \<and> (table_insert v t = Some (Inl w, t') \<longrightarrow> t' = t \<and> w = v \<and> free t = [])"
  using assms by (cases rule: table_insert_cases [where v = v]) auto

lemma table_modify_ok:
  assumes ok: "table_ok t"
  shows "table_ok (table_modify fid g t) \<and>
    table_get (table_modify fid g t) =
      (case table_get t fid of None \<Rightarrow> table_get t | Some v \<Rightarrow> (table_get t)(fid \<mapsto> g v)) \<and>
    deferred (table_modify fid g t) = deferred t \<and> (\<forall>x. spent t x \<longrightarrow> spent (table_modify fid g t) x)"
proof (cases "table_get t fid")
  case None
  then show ?thesis
    using ok by (simp add: table_modify_def)
next
  case (Some v)
  let ?s = "slots t ! unat (slot fid)"
  note s = get_slot [OF Some]
  have t': "table_modify fid g t =
      t\<lparr>free := free t, slots := (slots t)[unat (slot fid) := ?s\<lparr>slot_value := Some (g v)\<rparr>]\<rparr>"
    using Some by (simp add: table_modify_def)
  have "table_get (table_modify fid g t) x = ((table_get t)(fid \<mapsto> g v)) x" for x
    using s table_get_slots [OF s(1), of "?s\<lparr>slot_value := Some (g v)\<rparr>" x]
    by (auto simp: t' flow_id_eq_iff table_get_def Let_def)
  moreover have "table_ok (table_modify fid g t)"
    unfolding t'
  proof (rule table_ok_slot_update [OF ok s(1)])
    show "slot_ok (set (free t)) (unat (slot fid)) (?s\<lparr>slot_value := Some (g v)\<rparr>)"
      using table_slot_ok [OF ok s(1)] s(3) by (auto simp: slot_ok_def)
    show "\<forall>x \<in> set (deferred t). slot x = slot fid \<longrightarrow>
        slot_generation (?s\<lparr>slot_value := Some (g v)\<rparr>) = generation x \<and>
        slot_value (?s\<lparr>slot_value := Some (g v)\<rparr>) \<noteq> None"
      using ok by (auto simp: table_ok_def table_get_def Let_def split: if_splits)
  qed (use ok in \<open>auto simp: table_ok_def\<close>)
  ultimately show ?thesis
    using Some s(1) by (auto simp: t' spent_def nth_list_update fun_eq_iff)
qed

lemma defer_remove_ok:
  assumes "table_ok t"
  shows "table_ok (defer_remove fid t) \<and> table_get (defer_remove fid t) = table_get t \<and>
    (\<forall>x. spent t x \<longrightarrow> spent (defer_remove fid t) x) \<and> slots (defer_remove fid t) = slots t"
  using assms by (auto simp: defer_remove_def table_ok_def spent_def)

text \<open>One round of the flush loop on an identifier that is in the table.\<close>

definition flush_one :: "flow_id \<Rightarrow> 'v flow_table \<Rightarrow> 'v flow_table" where
  "flush_one fid t =
     (let s = (slots t ! unat (slot fid))\<lparr>slot_value := None\<rparr>
      in if generation fid \<noteq> - 1
         then t\<lparr>slots := (slots t)[unat (slot fid) := s\<lparr>slot_generation := generation fid + 1\<rparr>],
                free := free t @ [slot fid]\<rparr>
         else t\<lparr>slots := (slots t)[unat (slot fid) := s\<lparr>retired := True\<rparr>]\<rparr>)"

lemma table_update_order: "t\<lparr>slots := sl, free := fr\<rparr> = t\<lparr>free := fr, slots := sl\<rparr>"
  by simp

lemma flush_loop_step:
  assumes "table_get t fid = Some v"
  shows "flush_loop (fid # ids) t removed = flush_loop ids (flush_one fid t) (removed @ [v])"
  using get_slot [OF assms] by (simp add: flush_one_def Let_def)

lemma word_succ_pos: "(g :: 'a::len word) \<noteq> - 1 \<Longrightarrow> g + 1 \<noteq> 0 \<and> g < g + 1"
proof -
  assume g: "g \<noteq> - 1"
  have "unat g + 1 \<noteq> 2 ^ LENGTH('a)"
  proof
    assume "unat g + 1 = 2 ^ LENGTH('a)"
    then have "unat (g + 1) = 0"
      by (simp add: unat_word_ariths)
    then show False
      using g by (simp add: unat_eq_0 eq_neg_iff_add_eq_0)
  qed
  then have "unat g + 1 < 2 ^ LENGTH('a)"
    using unsigned_less [where 'a = nat, of g] by linarith
  then have "unat (g + 1) = unat g + 1"
    by (simp add: unat_word_ariths)
  then show ?thesis
    by (auto simp: word_less_nat_alt)
qed

lemma flush_one_ok:
  assumes ok: "table_ok t" and d: "deferred t = []" and get: "table_get t fid = Some v"
  shows "table_ok (flush_one fid t) \<and> table_get (flush_one fid t) = (table_get t)(fid := None) \<and>
    deferred (flush_one fid t) = [] \<and> spent (flush_one fid t) fid \<and>
    (\<forall>x. spent t x \<longrightarrow> spent (flush_one fid t) x)"
proof -
  note s = get_slot [OF get]
  let ?s = "(slots t ! unat (slot fid))\<lparr>slot_value := None\<rparr>"
  have old: "slot_ok (set (free t)) (unat (slot fid)) (slots t ! unat (slot fid))"
    using ok s(1) by (rule table_slot_ok)
  then have nf: "slot fid \<notin> set (free t)" "\<not> retired (slots t ! unat (slot fid))" "generation fid \<noteq> 0"
    using s by (auto simp: slot_ok_def)
  have get': "table_get (flush_one fid t) x = ((table_get t)(fid := None)) x" for x
  proof (cases "slot x = slot fid")
    case True
    then have "table_get t x = (if generation x = generation fid then Some v else None)"
      using s by (simp add: table_get_def Let_def)
    then show ?thesis
      using True s(1)
      by (simp add: flush_one_def Let_def table_get_slots table_update_order flow_id_eq_iff del: fun_upd_apply)
        (simp add: flow_id_eq_iff)
  next
    case False
    then show ?thesis
      using s(1) by (auto simp: flush_one_def Let_def table_get_slots table_update_order)
  qed
  show ?thesis
  proof (cases "generation fid = - 1")
    case True
    then have t': "flush_one fid t = t\<lparr>free := free t, slots := (slots t)[unat (slot fid) := ?s\<lparr>retired := True\<rparr>]\<rparr>"
      by (simp add: flush_one_def Let_def)
    have "table_ok (flush_one fid t)"
      unfolding t' using old nf ok d
      by (intro table_ok_slot_update [OF ok s(1)]) (auto simp: slot_ok_def table_ok_def)
    then show ?thesis
      using get' d s True by (auto simp: t' spent_def nth_list_update fun_eq_iff)
  next
    case False
    then have t': "flush_one fid t = t\<lparr>free := free t @ [slot fid],
        slots := (slots t)[unat (slot fid) := ?s\<lparr>slot_generation := generation fid + 1\<rparr>]\<rparr>"
      by (simp add: flush_one_def Let_def)
    have "table_ok (flush_one fid t)"
      unfolding t' using old nf ok d word_succ_pos [OF False]
      by (intro table_ok_slot_update [OF ok s(1)]) (auto simp: slot_ok_def table_ok_def)
    then show ?thesis
      using get' d s nf(2) word_succ_pos [OF False]
      by (auto simp: t' spent_def nth_list_update fun_eq_iff unat_eq_word)
  qed
qed

lemma flush_loop_ok:
  assumes "table_ok t" "deferred t = []" "distinct ids" "\<forall>fid \<in> set ids. table_get t fid \<noteq> None"
  shows "\<exists>t'. flush_loop ids t removed = Some (removed @ map (\<lambda>fid. the (table_get t fid)) ids, t') \<and>
    table_ok t' \<and> deferred t' = [] \<and>
    (\<forall>x. table_get t' x = (if x \<in> set ids then None else table_get t x)) \<and>
    (\<forall>x. spent t x \<or> x \<in> set ids \<longrightarrow> spent t' x)"
  using assms
proof (induction ids arbitrary: t removed)
  case Nil
  then show ?case
    by simp
next
  case (Cons fid ids)
  from Cons.prems(4) obtain v where v: "table_get t fid = Some v"
    by auto
  note one = flush_one_ok [OF Cons.prems(1,2) v]
  have same: "table_get (flush_one fid t) x = table_get t x" if "x \<in> set ids" for x
    using one Cons.prems(3) that by auto
  then have "map (\<lambda>x. the (table_get (flush_one fid t) x)) ids = map (\<lambda>x. the (table_get t x)) ids"
    by simp
  moreover have "\<forall>x \<in> set ids. table_get (flush_one fid t) x \<noteq> None"
    using same Cons.prems(4) by simp
  ultimately obtain t' where t': "flush_loop ids (flush_one fid t) (removed @ [v]) =
      Some ((removed @ [v]) @ map (\<lambda>x. the (table_get t x)) ids, t')" "table_ok t'" "deferred t' = []"
    "\<forall>x. table_get t' x = (if x \<in> set ids then None else table_get (flush_one fid t) x)"
    "\<forall>x. spent (flush_one fid t) x \<or> x \<in> set ids \<longrightarrow> spent t' x"
    using Cons.IH [of "flush_one fid t" "removed @ [v]"] one Cons.prems(3) by auto
  show ?case
    using t' one v flush_loop_step [OF v, of ids removed] by (intro exI [of _ t']) simp
qed

lemma flush_deferred_ok:
  assumes "table_ok t"
  shows "\<exists>t'. flush_deferred t = Some (map (\<lambda>fid. the (table_get t fid)) (deferred t), t') \<and>
    table_ok t' \<and> deferred t' = [] \<and>
    (\<forall>x. table_get t' x = (if x \<in> set (deferred t) then None else table_get t x)) \<and>
    (\<forall>x. spent t x \<or> x \<in> set (deferred t) \<longrightarrow> spent t' x)"
proof -
  have "table_ok (t\<lparr>deferred := []\<rparr>)"
    using assms by (simp add: table_ok_def)
  moreover have "spent (t\<lparr>deferred := []\<rparr>) = spent t"
    by (simp add: spent_def fun_eq_iff)
  ultimately show ?thesis
    using flush_loop_ok [of "t\<lparr>deferred := []\<rparr>" "deferred t" "[]"] assms
    by (simp add: flush_deferred_def table_ok_def [of t] cong: if_cong)
qed

lemma active_ids_ok:
  assumes "table_ok t"
  shows "distinct (active_ids t) \<and> set (active_ids t) = dom (table_get t)"
proof -
  have idx: "i < length (slots t) \<Longrightarrow> unat (word_of_nat i :: u32) = i" for i
    using table_index_eq [OF assms, of i "word_of_nat i"] by simp
  define js where "js = filter (\<lambda>i. slot_value (slots t ! i) \<noteq> None) [0..<length (slots t)]"
  define g where "g = (\<lambda>i. \<lparr>slot = word_of_nat i, generation = slot_generation (slots t ! i)\<rparr> :: flow_id)"
  have "enumerate 0 (slots t) = map (\<lambda>i. (i, slots t ! i)) [0..<length (slots t)]"
    by (rule nth_equalityI) (simp_all add: nth_enumerate_eq)
  then have ids: "active_ids t = map g js"
    by (auto simp: active_ids_def List.map_filter_def filter_map comp_def js_def g_def)
  have "inj_on g (set js)"
    using idx by (intro inj_onI) (auto simp: g_def js_def dest: arg_cong [where f = unat])
  moreover have "g ` set js = dom (table_get t)"
  proof (intro set_eqI iffI)
    fix x :: flow_id
    show "x \<in> dom (table_get t)" if "x \<in> g ` set js"
      using that idx by (auto simp: g_def js_def table_get_def)
    assume "x \<in> dom (table_get t)"
    then obtain v where "table_get t x = Some v"
      by auto
    note v = get_slot [OF this]
    then have "x = g (unat (slot x))" "unat (slot x) \<in> set js"
      by (simp_all add: g_def js_def)
    then show "x \<in> g ` set js"
      by blast
  qed
  ultimately show ?thesis
    by (simp add: ids distinct_map js_def)
qed

section \<open>The interface the engines use\<close>

text \<open>
  What a client of an identifier table relies on: it behaves as a partial map from identifiers to
  values, insertion picks an identifier that is not in use, and the listed identifiers are the
  domain of the map. A client index is a map from keys to identifiers.
\<close>

definition indexed :: "('i \<Rightarrow> 'v option) \<Rightarrow> ('v \<Rightarrow> 'k) \<Rightarrow> ('k \<Rightarrow> 'i option) \<Rightarrow> bool" where
  "indexed look key m \<longleftrightarrow> (\<forall>k i. m k = Some i \<longleftrightarrow> (\<exists>v. look i = Some v \<and> key v = k))"

lemma indexedD:
  assumes "indexed look key m"
  shows "m k = Some i \<Longrightarrow> \<exists>v. look i = Some v \<and> key v = k" "look i = Some v \<Longrightarrow> m (key v) = Some i"
  using assms by (auto simp: indexed_def)

lemma indexedI:
  assumes "\<And>k i. m k = Some i \<Longrightarrow> \<exists>v. look i = Some v \<and> key v = k"
    and "\<And>i v. look i = Some v \<Longrightarrow> m (key v) = Some i"
  shows "indexed look key m"
  using assms by (auto simp: indexed_def)

lemma indexed_insert:
  assumes "indexed look key m" "m (key v) = None" "look i = None"
  shows "indexed (look(i \<mapsto> v)) key (m(key v \<mapsto> i))"
proof (rule indexedI)
  show "\<exists>w. (look(i \<mapsto> v)) j = Some w \<and> key w = k" if "(m(key v \<mapsto> i)) k = Some j" for k j
    using that assms indexedD(1) [OF assms(1), of k j] by (cases "k = key v") auto
  show "(m(key v \<mapsto> i)) (key w) = Some j" if "(look(i \<mapsto> v)) j = Some w" for j w
    using that assms indexedD(2) [OF assms(1), of j w] by (cases "j = i") auto
qed

lemma indexed_delete:
  assumes "indexed look key m" "look i = Some v"
  shows "indexed (look(i := None)) key (m(key v := None))"
proof (rule indexedI)
  show "\<exists>w. (look(i := None)) j = Some w \<and> key w = k" if "(m(key v := None)) k = Some j" for k j
    using that assms indexedD(1) [OF assms(1), of k j] by (auto split: if_splits)
  show "(m(key v := None)) (key w) = Some j" if "(look(i := None)) j = Some w" for j w
    using that assms indexedD(2) [OF assms(1), of j w] indexedD(2) [OF assms(1), of i v]
    by (auto split: if_splits)
qed

lemma indexed_modify:
  assumes "indexed look key m" "look i = Some v" "key w = key v"
  shows "indexed (look(i \<mapsto> w)) key m"
  using assms by (auto simp: indexed_def)

lemma indexed_card:
  assumes "indexed look key m"
  shows "card (dom m) = card (dom look)"
proof -
  let ?f = "\<lambda>i. key (the (look i))"
  have "inj_on ?f (dom look)"
  proof (rule inj_onI)
    fix i j
    assume "i \<in> dom look" "j \<in> dom look" and eq: "?f i = ?f j"
    then obtain v w where vw: "look i = Some v" "look j = Some w"
      by auto
    then show "i = j"
      using eq indexedD(2) [OF assms vw(1)] indexedD(2) [OF assms vw(2)] by simp
  qed
  moreover have "?f ` dom look = dom m"
  proof (intro set_eqI iffI)
    show "k \<in> dom m" if "k \<in> ?f ` dom look" for k
      using that indexedD(2) [OF assms] by auto
    show "k \<in> ?f ` dom look" if "k \<in> dom m" for k
      using that indexedD(1) [OF assms, of k] by force
  qed
  ultimately show ?thesis
    by (metis card_image)
qed

locale id_table =
  fixes inv :: "'t \<Rightarrow> bool"
    and look :: "'t \<Rightarrow> 'i \<Rightarrow> 'v option"
    and ins :: "'v \<Rightarrow> 't \<Rightarrow> (('v + 'i) \<times> 't) option"
    and upd :: "'i \<Rightarrow> ('v \<Rightarrow> 'v) \<Rightarrow> 't \<Rightarrow> 't"
    and del :: "'i \<Rightarrow> 't \<Rightarrow> 't option"
    and ids :: "'t \<Rightarrow> 'i list"
  assumes ins_returns: "inv t \<Longrightarrow> ins v t \<noteq> None"
    and ins_new: "inv t \<Longrightarrow> ins v t = Some (Inr i, t') \<Longrightarrow>
      inv t' \<and> look t i = None \<and> look t' = (look t)(i \<mapsto> v)"
    and ins_full: "inv t \<Longrightarrow> ins v t = Some (Inl w, t') \<Longrightarrow> t' = t"
    and upd_look: "inv t \<Longrightarrow> inv (upd i g t) \<and>
      look (upd i g t) = (case look t i of None \<Rightarrow> look t | Some v \<Rightarrow> (look t)(i \<mapsto> g v))"
    and del_look: "inv t \<Longrightarrow> look t i \<noteq> None \<Longrightarrow>
      \<exists>t'. del i t = Some t' \<and> inv t' \<and> look t' = (look t)(i := None)"
    and ids_dom: "inv t \<Longrightarrow> distinct (ids t) \<and> set (ids t) = dom (look t)"
begin

lemma ins_indexed:
  assumes "inv t" "indexed (look t) key m" "m (key v) = None" "ins v t = Some (Inr i, t')"
  shows "indexed (look t') key (m(key v \<mapsto> i))"
  using assms(2,3) ins_new [OF assms(1,4)] by (simp add: indexed_insert)

lemma upd_indexed:
  assumes "inv t" "indexed (look t) key m" "\<And>v. key (g v) = key v"
  shows "indexed (look (upd i g t)) key m"
  using assms(2,3) upd_look [OF assms(1), of i g]
  by (cases "look t i") (simp_all add: indexed_modify)

lemma del_indexed:
  assumes "inv t" "indexed (look t) key m" "look t i = Some v" "del i t = Some t'"
  shows "indexed (look t') key (m(key v := None))"
  using assms(2-4) del_look [OF assms(1), of i] by (auto simp: indexed_delete)

lemma finite_look: "inv t \<Longrightarrow> finite (dom (look t))"
  using ids_dom by (metis List.finite_set)

lemma length_ids: "inv t \<Longrightarrow> length (ids t) = card (dom (look t))"
  using ids_dom by (metis distinct_card)

end

definition table_delete :: "flow_id \<Rightarrow> 'v flow_table \<Rightarrow> 'v flow_table option" where
  "table_delete fid t = map_option snd (flush_deferred (defer_remove fid t))"

interpretation ft: id_table "\<lambda>t. table_ok t \<and> deferred t = []" table_get table_insert table_modify
  table_delete active_ids
proof (unfold_locales, goal_cases)
  case (1 t v)
  then show ?case
    by (simp add: table_insert_full)
next
  case (2 t v i t')
  then show ?case
    using table_insert_ok [of t v i t'] by auto
next
  case (3 t v w t')
  then show ?case
    using table_insert_full [of t v] by auto
next
  case (4 t i g)
  then show ?case
    using table_modify_ok [of t i g] by auto
next
  case (5 t i)
  then have "deferred (defer_remove i t) = [i]"
    by (simp add: defer_remove_def)
  then show ?case
    using 5 defer_remove_ok [of t i] flush_deferred_ok [of "defer_remove i t"]
    by (auto simp: table_delete_def fun_eq_iff)
next
  case (6 t)
  then show ?case
    using active_ids_ok by auto
qed

section \<open>Runs of a table\<close>

text \<open>
  The sequences of table operations, with the set of identifiers that have been removed so far.
\<close>

inductive table_run :: "'v flow_table \<Rightarrow> flow_id set \<Rightarrow> bool" where
  run_start: "table_with_capacity n = Some t \<Longrightarrow> table_run t {}"
| run_insert: "table_run t gone \<Longrightarrow> table_insert v t = Some (r, t') \<Longrightarrow> table_run t' gone"
| run_modify: "table_run t gone \<Longrightarrow> table_run (table_modify fid g t) gone"
| run_defer: "table_run t gone \<Longrightarrow> table_run (defer_remove fid t) gone"
| run_flush: "table_run t gone \<Longrightarrow> flush_deferred t = Some (vs, t') \<Longrightarrow> table_run t' (gone \<union> set (deferred t))"

lemma table_run_ok: "table_run t gone \<Longrightarrow> table_ok t \<and> (\<forall>x \<in> gone. spent t x)"
proof (induction rule: table_run.induct)
  case (run_insert t gone v r t')
  then show ?case
    using table_insert_ok [of t v _ t'] table_insert_full [of t v _ t'] by (cases r) auto
next
  case (run_flush t gone vs t')
  then show ?case
    using flush_deferred_ok [of t] by auto
qed (use table_with_capacity_ok table_modify_ok defer_remove_ok in blast)+

text \<open>
  C23. A stale flow identifier never resolves again. In every state that the table reaches, an
  identifier that has once been removed looks up nothing and is not handed out by a later insertion;
  generations that would wrap retire their slot instead.
\<close>

theorem stale_ids_stay_dead:
  assumes "table_run t gone" "fid \<in> gone"
  shows "table_get t fid = None \<and> (\<forall>v fid' t'. table_insert v t = Some (Inr fid', t') \<longrightarrow> fid' \<noteq> fid)"
proof -
  have ok: "table_ok t" "spent t fid"
    using table_run_ok [OF assms(1)] assms(2) by auto
  then show ?thesis
    using spent_get [OF ok] table_insert_ok [OF ok(1)] by fastforce
qed

definition sample_slot :: "nat table_slot" where
  "sample_slot = \<lparr>slot_generation = 1, slot_value = None, retired = False\<rparr>"

definition sample_flushed :: "nat flow_table" where
  "sample_flushed = \<lparr>slots = [sample_slot\<lparr>slot_generation := 2\<rparr>], free = [0], deferred = []\<rparr>"

lemma sample_flushed_run: "table_run sample_flushed {\<lparr>slot = 0, generation = 1\<rparr>}"
proof -
  let ?full = "\<lparr>slots = [sample_slot\<lparr>slot_value := Some 5\<rparr>], free = [], deferred = []\<rparr>"
  let ?fid = "\<lparr>slot = 0, generation = 1\<rparr> :: flow_id"
  have "table_run \<lparr>slots = [sample_slot], free = [0], deferred = []\<rparr> {}"
    by (rule run_start [of 1]) (simp add: table_with_capacity_def sample_slot_def SLOT_BITS_def)
  then have "table_run ?full {}"
    by (rule run_insert [where v = 5 and r = "Inr ?fid"]) (simp add: table_insert_def sample_slot_def Let_def)
  then have "table_run (defer_remove ?fid ?full) {}"
    by (rule run_defer)
  moreover have "defer_remove ?fid ?full = ?full\<lparr>deferred := [?fid]\<rparr>"
    by (simp add: defer_remove_def table_get_def sample_slot_def)
  ultimately have "table_run (?full\<lparr>deferred := [?fid]\<rparr>) {}"
    by simp
  then show ?thesis
    using run_flush [of "?full\<lparr>deferred := [?fid]\<rparr>" "{}" "[5]" sample_flushed]
    by (simp add: flush_deferred_def sample_flushed_def sample_slot_def Let_def)
qed

theorem stale_ids_stay_dead_witness:
  "table_get sample_flushed \<lparr>slot = 0, generation = 1\<rparr> = None"
  using stale_ids_stay_dead [OF sample_flushed_run, of "\<lparr>slot = 0, generation = 1\<rparr>"] by simp

text \<open>
  C24. The table implements a partial map. None of its operations panics in a reachable state; an
  insertion extends the map at an unused, nonzero identifier, or reports that the table is full and
  leaves it alone; a flush removes exactly the deferred identifiers and returns their values in
  deferral order; the active identifiers are, without repetition, the domain of the map.
\<close>

theorem table_refines_map:
  assumes "table_run t gone"
  shows "(\<exists>r t'. table_insert v t = Some (r, t') \<and>
      (case r of Inl w \<Rightarrow> w = v \<and> t' = t \<and> free t = []
       | Inr fid \<Rightarrow> generation fid \<noteq> 0 \<and> table_get t fid = None \<and> table_get t' = (table_get t)(fid \<mapsto> v))) \<and>
    (\<exists>t'. flush_deferred t = Some (map (\<lambda>fid. the (table_get t fid)) (deferred t), t') \<and>
      (\<forall>x. table_get t' x = (if x \<in> set (deferred t) then None else table_get t x))) \<and>
    distinct (active_ids t) \<and> set (active_ids t) = dom (table_get t)"
proof -
  have ok: "table_ok t"
    using table_run_ok [OF assms] by simp
  obtain r t' where r: "table_insert v t = Some (r, t')"
    using table_insert_full [OF ok] by fastforce
  have "case r of Inl w \<Rightarrow> w = v \<and> t' = t \<and> free t = []
      | Inr fid \<Rightarrow> generation fid \<noteq> 0 \<and> table_get t fid = None \<and> table_get t' = (table_get t)(fid \<mapsto> v)"
    using r table_insert_full [OF ok, of v] table_insert_ok [OF ok, of v] by (cases r) auto
  then show ?thesis
    using r flush_deferred_ok [OF ok] active_ids_ok [OF ok] by blast
qed

theorem table_refines_map_witness:
  "\<exists>fid t'. table_insert 9 sample_flushed = Some (Inr fid, t') \<and> table_get t' fid = Some 9"
proof -
  have "free sample_flushed \<noteq> []"
    by (simp add: sample_flushed_def)
  then show ?thesis
    using table_refines_map [OF sample_flushed_run, of 9] by (fastforce split: sum.splits)
qed

end
