(* ===== verification/Hash_Map.thy ===== *)
theory Hash_Map
  imports Prelude
begin

text \<open>
  \<open>std::collections::HashMap\<close>, as the engines of the data plane use it. A map is an association list
  without repeated keys; its order stands for the unspecified iteration order. The locale
  \<open>dictionary\<close> is the part of the map's contract that the engines rely on.
\<close>

type_synonym ('k, 'v) hash_map = "('k \<times> 'v) list"

definition hm_get :: "('k, 'v) hash_map \<Rightarrow> 'k \<Rightarrow> 'v option" where
  "hm_get m = map_of m"

definition hm_insert :: "'k \<Rightarrow> 'v \<Rightarrow> ('k, 'v) hash_map \<Rightarrow> ('k, 'v) hash_map" where
  "hm_insert k v m = AList.update k v m"

definition hm_remove :: "'k \<Rightarrow> ('k, 'v) hash_map \<Rightarrow> ('k, 'v) hash_map" where
  "hm_remove k m = AList.delete k m"

definition hm_len :: "('k, 'v) hash_map \<Rightarrow> usize" where
  "hm_len m = length m"

definition hm_ok :: "('k, 'v) hash_map \<Rightarrow> bool" where
  "hm_ok m \<longleftrightarrow> distinct (map fst m)"

locale dictionary =
  fixes ok :: "'m \<Rightarrow> bool"
    and get :: "'m \<Rightarrow> 'k \<Rightarrow> 'v option"
    and put :: "'k \<Rightarrow> 'v \<Rightarrow> 'm \<Rightarrow> 'm"
    and del :: "'k \<Rightarrow> 'm \<Rightarrow> 'm"
    and len :: "'m \<Rightarrow> nat"
  assumes put_ok: "ok m \<Longrightarrow> ok (put k v m)"
    and del_ok: "ok m \<Longrightarrow> ok (del k m)"
    and get_put: "get (put k v m) = (get m)(k \<mapsto> v)"
    and get_del: "get (del k m) = (get m)(k := None)"
    and finite_get: "finite (dom (get m))"
    and len_card: "ok m \<Longrightarrow> len m = card (dom (get m))"
begin

lemma len_put_new: "ok m \<Longrightarrow> get m k = None \<Longrightarrow> len (put k v m) = len m + 1"
  using finite_get [of m] by (simp add: len_card put_ok get_put domIff)

lemma len_put_old: "ok m \<Longrightarrow> get m k \<noteq> None \<Longrightarrow> len (put k v m) = len m"
  by (simp add: len_card put_ok get_put insert_absorb domIff del: not_None_eq)

lemma len_del_le: "ok m \<Longrightarrow> len (del k m) \<le> len m"
  using finite_get [of m] by (simp add: len_card del_ok get_del card_mono)

lemma len_del: "ok m \<Longrightarrow> get m k \<noteq> None \<Longrightarrow> len (del k m) + 1 = len m"
  using finite_get [of m] card_Suc_Diff1 [of "dom (get m)" k]
  by (simp add: len_card del_ok get_del domIff del: not_None_eq)

lemma card_put_filter:
  assumes "get m k = None"
  shows "card {x \<in> dom (get (put k v m)). P x} = card {x \<in> dom (get m). P x} + of_bool (P k)"
proof -
  define S where "S = {x \<in> dom (get m). P x}"
  have "{x \<in> dom (get (put k v m)). P x} = (if P k then insert k S else S)"
    by (auto simp: get_put S_def)
  moreover have "finite S" "k \<notin> S"
    using assms finite_get [of m] by (auto simp: S_def)
  ultimately show ?thesis
    by (simp add: S_def [symmetric])
qed

lemma card_del_filter:
  assumes "get m k \<noteq> None"
  shows "card {x \<in> dom (get (del k m)). P x} = card {x \<in> dom (get m). P x} - of_bool (P k)"
proof -
  have "{x \<in> dom (get (del k m)). P x} = {x \<in> dom (get m). P x} - {k}"
    by (auto simp: get_del split: if_splits)
  then show ?thesis
    using assms finite_get [of m] by (simp add: card_Diff_singleton_if domIff del: not_None_eq)
qed

end

lemma hm_laws [simp]:
  "hm_ok m \<Longrightarrow> hm_ok (hm_insert k v m)"
  "hm_ok m \<Longrightarrow> hm_ok (hm_remove k m)"
  "hm_get (hm_insert k v m) = (hm_get m)(k \<mapsto> v)"
  "hm_get (hm_remove k m) = (hm_get m)(k := None)"
  "hm_ok []" "hm_get [] = (\<lambda>_. None)" "hm_len [] = 0"
  by (simp_all add: hm_ok_def hm_insert_def hm_remove_def hm_get_def hm_len_def distinct_update
      distinct_delete update_conv' delete_conv' fun_eq_iff)

interpretation hm: dictionary hm_ok hm_get hm_insert hm_remove hm_len
proof
  fix m :: "('k, 'v) hash_map"
  show "finite (dom (hm_get m))"
    by (simp add: hm_get_def finite_dom_map_of)
  show "hm_len m = card (dom (hm_get m))" if "hm_ok m"
    using that distinct_card [of "map fst m"] by (simp add: hm_ok_def hm_len_def hm_get_def dom_map_of_conv_image_fst)
qed simp_all

lemma hm_mem: "hm_ok m \<Longrightarrow> (k, v) \<in> set m \<longleftrightarrow> hm_get m k = Some v"
  by (simp add: hm_ok_def hm_get_def map_of_eq_Some_iff)

end
