(* ===== verification/Dns_Engine.thy ===== *)
theory Dns_Engine
  imports Hash_Map
begin

text \<open>
  The DNS transaction engine of \<open>crates/dataplane/src/dns.rs\<close>: queries from the namespace get a
  private upstream identifier, responses are matched against the stored question and go back under
  the original identifier. Message bytes are read with the bounds of the source: \<open>accept_query\<close> and
  \<open>accept_response\<close> test for the twelve header bytes before any field is read. The identifier search
  is a loop without a bound in the source; it is a partial function, and \<open>dns_query_effect\<close> shows
  that it returns in every state the engine reaches.
\<close>

section \<open>Data\<close>

definition MAX_TRANSACTIONS :: usize where "MAX_TRANSACTIONS = 512"
definition DEFAULT_UDP_PAYLOAD_LIMIT :: usize where "DEFAULT_UDP_PAYLOAD_LIMIT = 512"
definition MAX_QUESTION_BYTES :: usize where "MAX_QUESTION_BYTES = 512"
definition QUERY_TIMEOUT :: duration where "QUERY_TIMEOUT = from_secs 5"
definition HEADER_LEN :: usize where "HEADER_LEN = 12"
definition FLAG_RESPONSE :: u16 where "FLAG_RESPONSE = 0x8000"
definition FLAG_TRUNCATED :: u16 where "FLAG_TRUNCATED = 0x0200"
definition FLAG_RECURSION_DESIRED :: u16 where "FLAG_RECURSION_DESIRED = 0x0100"
definition FLAG_RECURSION_AVAILABLE :: u16 where "FLAG_RECURSION_AVAILABLE = 0x0080"
definition RCODE_FORMERR :: u16 where "RCODE_FORMERR = 1"
definition RCODE_SERVFAIL :: u16 where "RCODE_SERVFAIL = 2"
definition OPT_RECORD_TYPE :: u16 where "OPT_RECORD_TYPE = 41"

record transaction =
  client :: socket_addr
  gateway :: socket_addr
  original_id :: u16
  query_flags :: u16
  question :: bytes
  payload_limit :: usize
  tx_deadline :: instant

datatype query_disposition = Forward u16 | Respond bytes | Drop

record reply =
  reply_transaction :: transaction
  reply_payload :: bytes
  truncated :: bool

record dns_engine =
  transactions :: "(u16, transaction) hash_map"
  next_id :: u16
  query_timeout :: duration

section \<open>Messages\<close>

definition synthesize_failure :: "u16 \<Rightarrow> u16 \<Rightarrow> bytes \<Rightarrow> u16 \<Rightarrow> bytes" where
  "synthesize_failure tx_id flags q rcode =
     (let flags = FLAG_RESPONSE OR (flags AND FLAG_RECURSION_DESIRED) OR FLAG_RECURSION_AVAILABLE OR
                  (rcode AND 0x000f)
      in u16_to_be tx_id @ u16_to_be flags @ u16_to_be (of_bool (q \<noteq> [])) @ replicate 6 0 @ q)"

fun skip_name_loop :: "nat \<Rightarrow> bytes \<Rightarrow> usize \<Rightarrow> usize option" where
  "skip_name_loop 0 message offset = None"
| "skip_name_loop (Suc n) message offset =
     (if offset \<ge> length message then None
      else let len = message ! offset
           in if len = 0 then Some (offset + 1)
              else if len AND 0xc0 = 0xc0 then (if offset + 2 \<le> length message then Some (offset + 2) else None)
              else if len AND 0xc0 \<noteq> 0 then None
              else case checked_add_usize offset (unat len + 1) of
                     None \<Rightarrow> None
                   | Some offset \<Rightarrow> skip_name_loop n message offset)"

definition skip_name :: "bytes \<Rightarrow> usize \<Rightarrow> usize option" where
  "skip_name message offset = skip_name_loop 128 message offset"

definition question_section :: "bytes \<Rightarrow> bytes option" where
  "question_section message =
     (if be16_at message 4 \<noteq> 1 then None
      else case skip_name message HEADER_LEN of
             None \<Rightarrow> None
           | Some name_end \<Rightarrow>
               (case checked_add_usize name_end 4 of
                  None \<Rightarrow> None
                | Some end \<Rightarrow> if end > length message then None else Some (subslice HEADER_LEN end message)))"

definition to_ascii_lowercase :: "u8 \<Rightarrow> u8" where
  "to_ascii_lowercase b = (if 65 \<le> b \<and> b \<le> 90 then b OR 0x20 else b)"

definition eq_ignore_ascii_case :: "bytes \<Rightarrow> bytes \<Rightarrow> bool" where
  "eq_ignore_ascii_case a b \<longleftrightarrow> map to_ascii_lowercase a = map to_ascii_lowercase b"

definition question_matches :: "bytes \<Rightarrow> bytes \<Rightarrow> bool" where
  "question_matches stored received =
     (if length stored \<noteq> length received \<or> length stored < 4 then False
      else let name_len = length stored - 4
           in drop name_len stored = drop name_len received \<and>
              eq_ignore_ascii_case (take name_len stored) (take name_len received))"

fun edns_loop :: "nat \<Rightarrow> bytes \<Rightarrow> usize \<Rightarrow> usize" where
  "edns_loop 0 message offset = DEFAULT_UDP_PAYLOAD_LIMIT"
| "edns_loop (Suc n) message offset =
     (case skip_name message offset of
        None \<Rightarrow> DEFAULT_UDP_PAYLOAD_LIMIT
      | Some name_end \<Rightarrow>
          (case checked_add_usize name_end 10 of
             None \<Rightarrow> DEFAULT_UDP_PAYLOAD_LIMIT
           | Some fixed_end \<Rightarrow>
               if fixed_end > length message then DEFAULT_UDP_PAYLOAD_LIMIT
               else let record_type = be16_at message name_end;
                        cls = be16_at message (name_end + 2)
                    in if record_type = OPT_RECORD_TYPE then max (unat cls) DEFAULT_UDP_PAYLOAD_LIMIT
                       else let rdlength = unat (be16_at message (fixed_end - 2))
                            in case checked_add_usize fixed_end rdlength of
                                 None \<Rightarrow> DEFAULT_UDP_PAYLOAD_LIMIT
                               | Some next \<Rightarrow>
                                   if next > length message then DEFAULT_UDP_PAYLOAD_LIMIT
                                   else edns_loop n message next))"

definition edns_payload_limit :: "bytes \<Rightarrow> usize \<Rightarrow> usize" where
  "edns_payload_limit message offset =
     (let records = unat (be16_at message 6) + unat (be16_at message 8) + unat (be16_at message 10)
      in edns_loop (min records 32) message offset)"

section \<open>The engine\<close>

definition with_query_timeout :: "duration \<Rightarrow> dns_engine" where
  "with_query_timeout t = \<lparr>transactions = [], next_id = 0, query_timeout = t\<rparr>"

partial_function (option) allocate_id :: "dns_engine \<Rightarrow> (u16 \<times> dns_engine) option" where
  "allocate_id e =
     (let tx_id = next_id e;
          e = e\<lparr>next_id := next_id e + 1\<rparr>
      in if hm_get (transactions e) tx_id = None then Some (tx_id, e) else allocate_id e)"

definition accept_query ::
  "socket_addr \<Rightarrow> socket_addr \<Rightarrow> bytes \<Rightarrow> bool \<Rightarrow> instant \<Rightarrow> dns_engine \<Rightarrow>
     (query_disposition \<times> dns_engine) option" where
  "accept_query cl gw message resolver_available now e =
     (if length message < HEADER_LEN then Some (Drop, e)
      else let tx_id = be16_at message 0;
               flags = be16_at message 2
           in if flags AND FLAG_RESPONSE \<noteq> 0 then Some (Drop, e)
              else case question_section message of
                None \<Rightarrow> Some (Respond (synthesize_failure tx_id flags [] RCODE_FORMERR), e)
              | Some q \<Rightarrow>
                  if length q > MAX_QUESTION_BYTES
                  then Some (Respond (synthesize_failure tx_id flags [] RCODE_FORMERR), e)
                  else if \<not> resolver_available \<or> hm_len (transactions e) \<ge> MAX_TRANSACTIONS
                  then Some (Respond (synthesize_failure tx_id flags q RCODE_SERVFAIL), e)
                  else let limit = edns_payload_limit message (HEADER_LEN + length q)
                       in case allocate_id e of
                            None \<Rightarrow> None
                          | Some (upstream_id, e) \<Rightarrow>
                              Some (Forward upstream_id,
                                e\<lparr>transactions := hm_insert upstream_id
                                    \<lparr>client = cl, gateway = gw, original_id = tx_id, query_flags = flags,
                                     question = q, payload_limit = limit,
                                     tx_deadline = now + query_timeout e\<rparr> (transactions e)\<rparr>))"

definition translate_response :: "transaction \<Rightarrow> bytes \<Rightarrow> bytes \<Rightarrow> usize \<Rightarrow> reply" where
  "translate_response tx message q frame_limit =
     (let limit = min (payload_limit tx) frame_limit;
          tr = length message > limit;
          flags = be16_at message 2
      in \<lparr>reply_transaction = tx,
          reply_payload =
            (if tr then u16_to_be (original_id tx) @ u16_to_be (flags OR FLAG_TRUNCATED) @ u16_to_be 1 @
                        replicate 6 0 @ q
             else copy_at 0 (u16_to_be (original_id tx)) message),
          truncated = tr\<rparr>)"

definition accept_response :: "bytes \<Rightarrow> usize \<Rightarrow> dns_engine \<Rightarrow> reply option \<times> dns_engine" where
  "accept_response message frame_limit e =
     (if length message < HEADER_LEN then (None, e)
      else let upstream_id = be16_at message 0;
               flags = be16_at message 2
           in if flags AND FLAG_RESPONSE = 0 then (None, e)
              else case question_section message of
                None \<Rightarrow> (None, e)
              | Some q \<Rightarrow>
                  (case hm_get (transactions e) upstream_id of
                     None \<Rightarrow> (None, e)
                   | Some tx \<Rightarrow>
                       if \<not> question_matches (question tx) q then (None, e)
                       else (Some (translate_response tx message q frame_limit),
                             e\<lparr>transactions := hm_remove upstream_id (transactions e)\<rparr>)))"

definition servfail :: "transaction \<Rightarrow> transaction \<times> bytes" where
  "servfail tx = (tx, synthesize_failure (original_id tx) (query_flags tx) (question tx) RCODE_SERVFAIL)"

text \<open>\<open>None\<close> is the panic of \<open>expect("collected above")\<close>.\<close>

fun expire_each :: "u16 list \<Rightarrow> dns_engine \<Rightarrow> ((transaction \<times> bytes) list \<times> dns_engine) option" where
  "expire_each [] e = Some ([], e)"
| "expire_each (i # rest) e =
     (case hm_get (transactions e) i of
        None \<Rightarrow> None
      | Some tx \<Rightarrow>
          map_option (\<lambda>(replies, e). (servfail tx # replies, e))
            (expire_each rest (e\<lparr>transactions := hm_remove i (transactions e)\<rparr>)))"

definition overdue :: "instant \<Rightarrow> dns_engine \<Rightarrow> u16 list" where
  "overdue now e = map fst (filter (\<lambda>(_, tx). tx_deadline tx \<le> now) (transactions e))"

definition dns_expire :: "instant \<Rightarrow> dns_engine \<Rightarrow> ((transaction \<times> bytes) list \<times> dns_engine) option" where
  "dns_expire now e = expire_each (overdue now e) e"

definition dns_abort :: "u16 \<Rightarrow> dns_engine \<Rightarrow> (transaction \<times> bytes) option \<times> dns_engine" where
  "dns_abort upstream_id e =
     (case hm_get (transactions e) upstream_id of
        None \<Rightarrow> (None, e)
      | Some tx \<Rightarrow> (Some (servfail tx), e\<lparr>transactions := hm_remove upstream_id (transactions e)\<rparr>))"

definition fail_all :: "dns_engine \<Rightarrow> (transaction \<times> bytes) list \<times> dns_engine" where
  "fail_all e = (map (\<lambda>(_, tx). servfail tx) (transactions e), e\<lparr>transactions := []\<rparr>)"

definition is_idle :: "dns_engine \<Rightarrow> bool" where
  "is_idle e \<longleftrightarrow> transactions e = []"

definition outstanding :: "dns_engine \<Rightarrow> usize" where
  "outstanding e = hm_len (transactions e)"

definition next_deadline :: "dns_engine \<Rightarrow> instant option" where
  "next_deadline e =
     (if transactions e = [] then None
      else Some (Min (set (map (\<lambda>(_, tx). tx_deadline tx) (transactions e)))))"

section \<open>Reading messages\<close>

lemma skip_name_bounds:
  "skip_name_loop n message offset = Some e \<Longrightarrow> offset < e \<and> e \<le> length message"
proof (induction n arbitrary: offset)
  case (Suc n)
  show ?case
  proof (cases "\<exists>o'. checked_add_usize offset (unat (message ! offset) + 1) = Some o' \<and>
      skip_name_loop n message o' = Some e")
    case True
    then obtain o' where o': "checked_add_usize offset (unat (message ! offset) + 1) = Some o'"
      "skip_name_loop n message o' = Some e"
      by blast
    then have "offset < o'"
      by (auto simp: checked_add_usize_def split: if_splits)
    then show ?thesis
      using Suc.IH [OF o'(2)] by simp
  next
    case False
    then show ?thesis
      using Suc.prems by (auto simp: Let_def split: if_splits option.splits)
  qed
qed simp

lemma question_section_bounds:
  assumes "question_section message = Some q"
  shows "\<exists>n. q = subslice 12 n message \<and> 17 \<le> n \<and> n \<le> length message \<and> length q = n - 12"
proof -
  from assms obtain name_end where ne: "skip_name_loop 128 message 12 = Some name_end"
      "name_end + 4 \<le> length message" "q = subslice 12 (name_end + 4) message"
    by (auto simp: question_section_def skip_name_def HEADER_LEN_def checked_add_usize_def
        split: if_splits option.splits)
  then show ?thesis
    using skip_name_bounds [OF ne(1)] by (intro exI [of _ "name_end + 4"]) (simp add: subslice_def)
qed

lemma synthesize_failure_shape:
  "take 2 (synthesize_failure i f q r) = u16_to_be i" "length (synthesize_failure i f q r) = 12 + length q"
  "drop 12 (synthesize_failure i f q r) = q"
  by (simp_all add: synthesize_failure_def Let_def u16_to_be_def)

lemma edns_limit_ge: "512 \<le> edns_loop n message offset"
  by (induction n arbitrary: offset) (auto simp: DEFAULT_UDP_PAYLOAD_LIMIT_def Let_def split: option.split)

section \<open>The engine invariant\<close>

definition dns_ok :: "dns_engine \<Rightarrow> bool" where
  "dns_ok e \<longleftrightarrow> hm_ok (transactions e) \<and> hm_len (transactions e) \<le> MAX_TRANSACTIONS \<and>
     (\<forall>i tx. hm_get (transactions e) i = Some tx \<longrightarrow>
        5 \<le> length (question tx) \<and> length (question tx) \<le> 512 \<and> 512 \<le> payload_limit tx)"

inductive dns_run :: "dns_engine \<Rightarrow> bool" where
  dns_start: "dns_run (with_query_timeout t)"
| dns_query: "dns_run e \<Longrightarrow> accept_query cl gw m avail now e = Some (d, e') \<Longrightarrow> dns_run e'"
| dns_response: "dns_run e \<Longrightarrow> accept_response m limit e = (r, e') \<Longrightarrow> dns_run e'"
| dns_expiry: "dns_run e \<Longrightarrow> dns_expire now e = Some (rs, e') \<Longrightarrow> dns_run e'"
| dns_aborted: "dns_run e \<Longrightarrow> dns_abort i e = (r, e') \<Longrightarrow> dns_run e'"
| dns_failed: "dns_run e \<Longrightarrow> fail_all e = (rs, e') \<Longrightarrow> dns_run e'"

text \<open>The search stops at the first free identifier at or after \<open>next_id\<close>.\<close>

lemma allocate_id_finds:
  assumes "hm_get (transactions e) (next_id e + word_of_nat k) = None"
  shows "\<exists>i. allocate_id e = Some (i, e\<lparr>next_id := i + 1\<rparr>) \<and> hm_get (transactions e) i = None"
  using assms
proof (induction k arbitrary: e)
  case 0
  then show ?case
    by (subst allocate_id.simps) (simp add: Let_def)
next
  case (Suc k)
  show ?case
  proof (cases "hm_get (transactions e) (next_id e) = None")
    case True
    then show ?thesis
      by (subst allocate_id.simps) (simp add: Let_def)
  next
    case False
    have "hm_get (transactions (e\<lparr>next_id := next_id e + 1\<rparr>))
        (next_id (e\<lparr>next_id := next_id e + 1\<rparr>) + word_of_nat k) = None"
      using Suc.prems by (simp add: ac_simps)
    from Suc.IH [OF this] show ?thesis
      using False by (subst allocate_id.simps) (auto simp: Let_def)
  qed
qed

lemma allocate_id_returns:
  assumes "hm_ok (transactions e)" "hm_len (transactions e) < MAX_TRANSACTIONS"
  shows "\<exists>i. allocate_id e = Some (i, e\<lparr>next_id := i + 1\<rparr>) \<and> hm_get (transactions e) i = None"
proof -
  have "card (dom (hm_get (transactions e))) < card (UNIV :: u16 set)"
    using assms hm.len_card [OF assms(1)] by (simp add: MAX_TRANSACTIONS_def card_word)
  then obtain i where "i \<notin> dom (hm_get (transactions e))"
    by (metis UNIV_eq_I less_irrefl)
  then have "hm_get (transactions e) (next_id e + word_of_nat (unat (i - next_id e))) = None"
    by (simp add: domIff)
  then show ?thesis
    by (rule allocate_id_finds)
qed

lemma dns_ok_insert:
  assumes "dns_ok e" "hm_get (transactions e) i = None" "hm_len (transactions e) < MAX_TRANSACTIONS"
    and "5 \<le> length (question tx)" "length (question tx) \<le> 512" "512 \<le> payload_limit tx"
    and "transactions e' = hm_insert i tx (transactions e)"
  shows "dns_ok e'"
  using assms hm.len_put_new [of "transactions e" i tx] by (auto simp: dns_ok_def)

lemma dns_ok_remove:
  "dns_ok e \<Longrightarrow> dns_ok (e\<lparr>transactions := hm_remove i (transactions e)\<rparr>)"
  using hm.len_del_le [of "transactions e" i] by (auto simp: dns_ok_def)

lemma expire_each_ok:
  assumes "dns_ok e" "distinct ids" "\<forall>i \<in> set ids. hm_get (transactions e) i \<noteq> None"
  shows "\<exists>e'. expire_each ids e = Some (map (\<lambda>i. servfail (the (hm_get (transactions e) i))) ids, e') \<and>
    dns_ok e' \<and> (\<forall>i. hm_get (transactions e') i = (if i \<in> set ids then None else hm_get (transactions e) i))"
  using assms
proof (induction ids arbitrary: e)
  case (Cons i ids)
  let ?e = "e\<lparr>transactions := hm_remove i (transactions e)\<rparr>"
  from Cons.prems obtain tx where tx: "hm_get (transactions e) i = Some tx"
    by auto
  have "\<exists>e'. expire_each ids ?e = Some (map (\<lambda>i. servfail (the (hm_get (transactions ?e) i))) ids, e') \<and>
    dns_ok e' \<and> (\<forall>j. hm_get (transactions e') j = (if j \<in> set ids then None else hm_get (transactions ?e) j))"
    using Cons.prems by (intro Cons.IH dns_ok_remove) auto
  moreover have "map (\<lambda>j. servfail (the (hm_get (transactions ?e) j))) ids =
      map (\<lambda>j. servfail (the (hm_get (transactions e) j))) ids"
    using Cons.prems(2) by auto
  ultimately show ?case
    using tx by auto
qed simp

lemma overdue_ids:
  assumes "dns_ok e"
  shows "distinct (overdue now e)"
    "i \<in> set (overdue now e) \<longleftrightarrow> (\<exists>tx. hm_get (transactions e) i = Some tx \<and> tx_deadline tx \<le> now)"
proof -
  have hm: "hm_ok (transactions e)"
    using assms by (simp add: dns_ok_def)
  then show "distinct (overdue now e)"
    by (simp add: overdue_def hm_ok_def distinct_map_filter)
  show "i \<in> set (overdue now e) \<longleftrightarrow> (\<exists>tx. hm_get (transactions e) i = Some tx \<and> tx_deadline tx \<le> now)"
    using hm_mem [OF hm, of i] by (auto simp: overdue_def image_iff)
qed

lemma dns_expire_ok:
  assumes "dns_ok e"
  shows "\<exists>e'. dns_expire now e = Some (map (\<lambda>i. servfail (the (hm_get (transactions e) i))) (overdue now e), e') \<and>
    dns_ok e' \<and>
    (\<forall>i. hm_get (transactions e') i = (if i \<in> set (overdue now e) then None else hm_get (transactions e) i))"
  unfolding dns_expire_def using overdue_ids [OF assms] by (intro expire_each_ok [OF assms]) auto

text \<open>What a forwarded query leaves behind.\<close>

lemma accept_query_ok:
  assumes ok: "dns_ok e"
  shows "\<exists>d e'. accept_query cl gw m avail now e = Some (d, e') \<and> dns_ok e' \<and>
    (case d of Drop \<Rightarrow> e' = e
     | Respond r \<Rightarrow> e' = e \<and> 12 \<le> length m \<and>
         (\<exists>q rcode. r = synthesize_failure (be16_at m 0) (be16_at m 2) q rcode \<and>
            (q = [] \<or> question_section m = Some q) \<and> rcode \<in> {RCODE_FORMERR, RCODE_SERVFAIL})
     | Forward i \<Rightarrow> 12 \<le> length m \<and> hm_get (transactions e) i = None \<and> hm_len (transactions e) < MAX_TRANSACTIONS \<and>
         (\<exists>tx. hm_get (transactions e') = (hm_get (transactions e))(i \<mapsto> tx) \<and>
            client tx = cl \<and> gateway tx = gw \<and> original_id tx = be16_at m 0 \<and>
            question_section m = Some (question tx) \<and> tx_deadline tx = now + query_timeout e))"
proof (cases "accept_query cl gw m avail now e")
  case None
  then show ?thesis
    using ok allocate_id_returns [of e]
    by (auto simp: accept_query_def dns_ok_def Let_def split: if_splits option.splits)
next
  case (Some p)
  then obtain d e' where p: "accept_query cl gw m avail now e = Some (d, e')"
    by (cases p) simp
  show ?thesis
  proof (cases "\<exists>i. d = Forward i")
    case False
    then show ?thesis
      using p ok
      by (auto simp: accept_query_def Let_def HEADER_LEN_def split: if_splits option.splits prod.splits) blast+
  next
    case True
    then obtain i where d: "d = Forward i" by blast
    from p d obtain q e1 where q: "question_section m = Some q" "length q \<le> 512" "12 \<le> length m"
        "hm_len (transactions e) < MAX_TRANSACTIONS" "allocate_id e = Some (i, e1)"
      and e': "e' = e1\<lparr>transactions := hm_insert i \<lparr>client = cl, gateway = gw, original_id = be16_at m 0,
          query_flags = be16_at m 2, question = q,
          payload_limit = edns_payload_limit m (HEADER_LEN + length q),
          tx_deadline = now + query_timeout e1\<rparr> (transactions e1)\<rparr>"
      by (auto simp: accept_query_def Let_def HEADER_LEN_def MAX_QUESTION_BYTES_def
          split: if_splits option.splits prod.splits)
    have e1: "e1 = e\<lparr>next_id := i + 1\<rparr>" and new: "hm_get (transactions e) i = None"
      using allocate_id_returns [of e] ok q(4,5) by (auto simp: dns_ok_def)
    have "dns_ok e'"
      using question_section_bounds [OF q(1)] q e1
      by (intro dns_ok_insert [OF ok new q(4)]) (auto simp: e' edns_payload_limit_def edns_limit_ge)
    then show ?thesis
      using p d q new e1 e' by auto
  qed
qed

lemma dns_run_ok: "dns_run e \<Longrightarrow> dns_ok e"
proof (induction rule: dns_run.induct)
  case (dns_start t)
  then show ?case
    by (simp add: dns_ok_def with_query_timeout_def)
next
  case (dns_query e cl gw m avail now d e')
  then show ?case
    using accept_query_ok [of e cl gw m avail now] by auto
next
  case (dns_response e m limit r e')
  then show ?case
    using dns_ok_remove [of e]
    by (auto simp: accept_response_def Let_def split: if_splits option.splits)
next
  case (dns_expiry e now rs e')
  then show ?case
    using dns_expire_ok [of e now] by auto
next
  case (dns_aborted e i r e')
  then show ?case
    using dns_ok_remove [of e i] by (auto simp: dns_abort_def split: option.splits)
next
  case (dns_failed e rs e')
  then show ?case
    by (auto simp: fail_all_def dns_ok_def)
qed

section \<open>Properties\<close>

text \<open>
  Classifying a query always returns, and a forwarded query gets an upstream identifier that no
  outstanding transaction uses: the engine then holds exactly one more transaction, with the client's
  address, identifier and question; it never holds more than 512. A query that is answered at once or
  dropped changes nothing, and an answer carries the client's identifier.
\<close>

theorem dns_query_effect:
  assumes "dns_run e"
  shows "\<exists>d e'. accept_query cl gw m avail now e = Some (d, e') \<and> outstanding e' \<le> MAX_TRANSACTIONS \<and>
    (case d of Drop \<Rightarrow> e' = e
     | Respond r \<Rightarrow> e' = e \<and> take 2 r = u16_to_be (be16_at m 0)
     | Forward i \<Rightarrow> hm_get (transactions e) i = None \<and>
         (\<exists>tx. hm_get (transactions e') = (hm_get (transactions e))(i \<mapsto> tx) \<and> client tx = cl \<and>
            original_id tx = be16_at m 0 \<and> question_section m = Some (question tx) \<and>
            tx_deadline tx = now + query_timeout e))"
  using accept_query_ok [OF dns_run_ok [OF assms], of cl gw m avail now]
  by (fastforce simp: dns_ok_def outstanding_def synthesize_failure_shape split: query_disposition.splits)

text \<open>
  C26. A query and its response make a round trip: the response that carries the private identifier
  and the question of a forwarded query is delivered to the client and gateway of that query, under
  the client's own identifier, and afterwards the engine holds the transactions it held before the
  query.
\<close>

theorem dns_query_response_roundtrip:
  assumes run: "dns_run e" and fwd: "accept_query cl gw m avail now e = Some (Forward i, e1)"
    and resp: "12 \<le> length m'" "be16_at m' 0 = i" "be16_at m' 2 AND FLAG_RESPONSE \<noteq> 0"
    and q: "question_section m = Some q" "question_section m' = Some q'" "question_matches q q'"
  shows "\<exists>r e2. accept_response m' limit e1 = (Some r, e2) \<and> client (reply_transaction r) = cl \<and>
    gateway (reply_transaction r) = gw \<and> take 2 (reply_payload r) = u16_to_be (be16_at m 0) \<and>
    hm_get (transactions e2) = hm_get (transactions e)"
proof -
  from accept_query_ok [OF dns_run_ok [OF run], of cl gw m avail now] fwd
  obtain tx where tx: "hm_get (transactions e1) = (hm_get (transactions e))(i \<mapsto> tx)" "client tx = cl"
      "gateway tx = gw" "original_id tx = be16_at m 0" "question tx = q"
    and new: "hm_get (transactions e) i = None"
    using q(1) by auto
  have "accept_response m' limit e1 = (Some (translate_response tx m' q' limit),
      e1\<lparr>transactions := hm_remove i (transactions e1)\<rparr>)"
    using resp q tx by (simp add: accept_response_def HEADER_LEN_def)
  moreover have "take 2 (reply_payload (translate_response tx m' q' limit)) = u16_to_be (original_id tx)"
    by (simp add: translate_response_def Let_def copy_at_def)
  ultimately show ?thesis
    using tx new by (auto simp: translate_response_def Let_def fun_eq_iff)
qed

text \<open>The reply that stands in for a message that does not fit, read back field by field.\<close>

lemma bit_or_truncated: "bit (flags OR FLAG_TRUNCATED) n \<longleftrightarrow> bit flags n \<or> n = 9" for flags :: u16
proof -
  have eq: "FLAG_TRUNCATED = (2 ^ 9 :: u16)"
    by (simp add: FLAG_TRUNCATED_def)
  show ?thesis
    unfolding eq by (auto simp: bit_or_iff bit_exp_iff simp del: power_numeral)
qed

lemma be16_at_pair: "be16_at (as @ u16_to_be v @ bs) (length as) = v"
  by (simp add: be16_at_slice subslice_def)

definition truncated_reply :: "transaction \<Rightarrow> bytes \<Rightarrow> bytes \<Rightarrow> bytes \<Rightarrow> bool" where
  "truncated_reply tx m q p \<longleftrightarrow>
     length p = 12 + length q \<and> be16_at p 0 = original_id tx \<and>
     (\<forall>n < 16. bit (be16_at p 2) n \<longleftrightarrow> bit (be16_at m 2) n \<or> n = 9) \<and>
     be16_at p 4 = 1 \<and> be16_at p 6 = 0 \<and> be16_at p 8 = 0 \<and> be16_at p 10 = 0 \<and> drop 12 p = q"

lemma translate_truncated:
  assumes "truncated (translate_response tx m q limit)"
  shows "truncated_reply tx m q (reply_payload (translate_response tx m q limit))"
proof -
  let ?i = "u16_to_be (original_id tx)" and ?f = "u16_to_be (be16_at m 2 OR FLAG_TRUNCATED)"
  have p: "reply_payload (translate_response tx m q limit) = ?i @ ?f @ u16_to_be 1 @ u16_to_be 0 @ u16_to_be 0 @
      u16_to_be 0 @ q"
  proof -
    have "replicate 6 (0 :: u8) = [0, 0, 0, 0, 0, 0]"
      by (simp add: eval_nat_numeral)
    moreover have "u16_to_be 0 = [0, 0]"
      by (simp add: u16_to_be_pair)
    ultimately show ?thesis
      using assms by (simp only: translate_response_def Let_def) simp
  qed
  show ?thesis
    unfolding truncated_reply_def p
    using be16_at_pair [of "[]" "original_id tx"] be16_at_pair [of ?i "be16_at m 2 OR FLAG_TRUNCATED"]
      be16_at_pair [of "?i @ ?f" 1] be16_at_pair [of "?i @ ?f @ u16_to_be 1" 0]
      be16_at_pair [of "?i @ ?f @ u16_to_be 1 @ u16_to_be 0" 0]
      be16_at_pair [of "?i @ ?f @ u16_to_be 1 @ u16_to_be 0 @ u16_to_be 0" 0]
    by (simp add: bit_or_truncated)
qed


text \<open>
  Expiry settles exactly the overdue transactions: each gets one server-failure reply under its
  client's identifier with its question echoed, and every other transaction stays.
\<close>

theorem dns_expire_exact:
  assumes run: "dns_run e"
  shows "\<exists>rs e'. dns_expire now e = Some (rs, e') \<and>
    set (map fst rs) = {tx. \<exists>i. hm_get (transactions e) i = Some tx \<and> tx_deadline tx \<le> now} \<and>
    (\<forall>(tx, r) \<in> set rs. take 2 r = u16_to_be (original_id tx) \<and> drop 12 r = question tx) \<and>
    (\<forall>i. hm_get (transactions e') i = (case hm_get (transactions e) i of None \<Rightarrow> None
       | Some tx \<Rightarrow> if tx_deadline tx \<le> now then None else Some tx)) \<and>
    length rs + outstanding e' = outstanding e"
proof -
  have ok: "dns_ok e"
    using run by (rule dns_run_ok)
  then have hm: "hm_ok (transactions e)"
    by (simp add: dns_ok_def)
  define ids where "ids = overdue now e"
  note mem = overdue_ids(2) [OF ok, of _ now, folded ids_def]
  have dist: "distinct ids"
    using overdue_ids(1) [OF ok] by (simp add: ids_def)
  from dns_expire_ok [OF ok, of now] obtain e' where
    r: "dns_expire now e = Some (map (\<lambda>i. servfail (the (hm_get (transactions e) i))) ids, e')" "dns_ok e'"
      "\<forall>i. hm_get (transactions e') i = (if i \<in> set ids then None else hm_get (transactions e) i)"
    by (auto simp: ids_def)
  let ?rs = "map (\<lambda>i. servfail (the (hm_get (transactions e) i))) ids"
  have "set (map fst ?rs) = {tx. \<exists>i. hm_get (transactions e) i = Some tx \<and> tx_deadline tx \<le> now}"
    using mem by (force simp: servfail_def image_iff)
  moreover have "\<forall>(tx, b) \<in> set ?rs. take 2 b = u16_to_be (original_id tx) \<and> drop 12 b = question tx"
    by (auto simp: servfail_def synthesize_failure_shape)
  moreover have "hm_get (transactions e') i = (case hm_get (transactions e) i of None \<Rightarrow> None
       | Some tx \<Rightarrow> if tx_deadline tx \<le> now then None else Some tx)" for i
    using r(3) mem [of i] by (auto split: option.splits)
  moreover have "length ?rs + outstanding e' = outstanding e"
  proof -
    have "dom (hm_get (transactions e')) = dom (hm_get (transactions e)) - set ids"
      using r(3) by (auto simp: dom_def split: if_splits)
    moreover have "set ids \<subseteq> dom (hm_get (transactions e))"
      using mem by auto
    moreover have "hm_ok (transactions e')"
      using r(2) by (simp add: dns_ok_def)
    ultimately show ?thesis
      using hm hm.finite_get [of "transactions e"] distinct_card [OF dist]
        card_mono [of "dom (hm_get (transactions e))" "set ids"]
      by (simp add: outstanding_def hm.len_card card_Diff_subset)
  qed
  ultimately show ?thesis
    using r(1) by blast
qed

lemma skip_name_loop_numeral:
  "skip_name_loop (numeral k) message offset =
     (if offset \<ge> length message then None
      else let len = message ! offset
           in if len = 0 then Some (offset + 1)
              else if len AND 0xc0 = 0xc0 then (if offset + 2 \<le> length message then Some (offset + 2) else None)
              else if len AND 0xc0 \<noteq> 0 then None
              else case checked_add_usize offset (unat len + 1) of
                     None \<Rightarrow> None
                   | Some offset \<Rightarrow> skip_name_loop (pred_numeral k) message offset)"
  by (simp only: numeral_eq_Suc skip_name_loop.simps)

lemma allocate_id_hit:
  "hm_get (transactions e) (next_id e) = None \<Longrightarrow> allocate_id e = Some (next_id e, e\<lparr>next_id := next_id e + 1\<rparr>)"
  by (subst allocate_id.simps) (simp add: Let_def)

section \<open>A sample exchange\<close>

definition sample_query :: bytes where
  "sample_query = [0x12, 0x34, 1, 0, 0, 1, 0, 0, 0, 0, 0, 0, 1, 97, 0, 0, 1, 0, 1]"

definition sample_response :: bytes where
  "sample_response = [0, 0, 0x81, 0x80, 0, 1, 0, 0, 0, 0, 0, 0, 1, 65, 0, 0, 1, 0, 1]"

definition sample_client :: socket_addr where
  "sample_client = AddrV4 [192, 0, 2, 2] 40000"

definition sample_pending :: dns_engine where
  "sample_pending = \<lparr>transactions = [(0, \<lparr>client = sample_client, gateway = AddrV4 [192, 0, 2, 1] 53,
     original_id = 0x1234, query_flags = 0x0100, question = [1, 97, 0, 0, 1, 0, 1], payload_limit = 512,
     tx_deadline = 5000000007\<rparr>)], next_id = 1, query_timeout = QUERY_TIMEOUT\<rparr>"

lemma sample_forward:
  "accept_query sample_client (AddrV4 [192, 0, 2, 1] 53) sample_query True 7 (with_query_timeout QUERY_TIMEOUT) =
     Some (Forward 0, sample_pending)"
proof -
  have q: "question_section sample_query = Some [1, 97, 0, 0, 1, 0, 1]"
    by (simp add: question_section_def skip_name_def skip_name_loop_numeral HEADER_LEN_def sample_query_def
        be16_at_def u16_from_be_def checked_add_usize_def subslice_def)
  have "be16_at sample_query 0 = 0x1234" "be16_at sample_query 2 = 0x0100"
    "edns_payload_limit sample_query 19 = 512" "length sample_query = 19"
    by (simp_all add: sample_query_def be16_at_def u16_from_be_def edns_payload_limit_def
        DEFAULT_UDP_PAYLOAD_LIMIT_def)
  then show ?thesis
    using q by (simp add: accept_query_def HEADER_LEN_def FLAG_RESPONSE_def MAX_QUESTION_BYTES_def
        with_query_timeout_def MAX_TRANSACTIONS_def allocate_id_hit sample_pending_def hm_insert_def
        QUERY_TIMEOUT_def from_secs_def nanos_per_sec_def)
qed

lemma sample_pending_run: "dns_run sample_pending"
  using dns_start sample_forward by (rule dns_query)

lemma sample_response_question:
  "question_section sample_response = Some [1, 65, 0, 0, 1, 0, 1]"
  by (simp add: question_section_def skip_name_def skip_name_loop_numeral HEADER_LEN_def sample_response_def
      be16_at_def u16_from_be_def checked_add_usize_def subslice_def)

theorem dns_query_effect_witness:
  "\<exists>d e'. accept_query sample_client (AddrV4 [192, 0, 2, 1] 53) sample_query True 9 sample_pending = Some (d, e') \<and>
     outstanding e' \<le> 512"
  using dns_query_effect [OF sample_pending_run, of sample_client "AddrV4 [192, 0, 2, 1] 53" sample_query True 9]
  by (auto simp: MAX_TRANSACTIONS_def)

theorem dns_query_response_roundtrip_witness:
  "\<exists>r e2. accept_response sample_response 1400 sample_pending = (Some r, e2) \<and>
     client (reply_transaction r) = sample_client \<and> take 2 (reply_payload r) = [0x12, 0x34]"
proof -
  have "12 \<le> length sample_response" "be16_at sample_response 0 = 0"
    "be16_at sample_response 2 AND FLAG_RESPONSE \<noteq> 0"
    "question_section sample_query = Some [1, 97, 0, 0, 1, 0, 1]"
    "question_matches [1, 97, 0, 0, 1, 0, 1] [1, 65, 0, 0, 1, 0, 1]"
    "u16_to_be (be16_at sample_query 0) = [0x12, 0x34]"
    by (simp_all add: sample_response_def sample_query_def be16_at_def u16_from_be_def FLAG_RESPONSE_def
        question_section_def skip_name_def skip_name_loop_numeral HEADER_LEN_def checked_add_usize_def
        subslice_def question_matches_def eq_ignore_ascii_case_def to_ascii_lowercase_def u16_to_be_pair)
  then show ?thesis
    using dns_query_response_roundtrip [OF dns_start sample_forward _ _ _ _ sample_response_question, of _ 1400]
    by auto
qed


theorem dns_expire_exact_witness:
  "\<exists>rs e'. dns_expire 5000000007 sample_pending = Some (rs, e') \<and> length rs + outstanding e' = 1"
  using dns_expire_exact [OF sample_pending_run, of 5000000007]
  by (auto simp: sample_pending_def outstanding_def hm_len_def)

end
