(* ===== verification/Udp_Engine.thy ===== *)
theory Udp_Engine
  imports Flow_Table Hash_Map
begin

text \<open>
  The UDP flow engine of \<open>crates/dataplane/src/udp.rs\<close>: flows keyed by source and target, the
  associations that group the flows of a source, the limits on both, and the idle timeouts. The
  outer \<open>option\<close> of an operation is \<open>None\<close> when an \<open>expect\<close> or an index of the source panics.
\<close>

section \<open>Data\<close>

definition DNS_TIMEOUT :: duration where "DNS_TIMEOUT = from_secs 15"
definition ONE_SHOT_TIMEOUT :: duration where "ONE_SHOT_TIMEOUT = from_secs 30"
definition STREAM_TIMEOUT :: duration where "STREAM_TIMEOUT = from_secs 120"

record association_key =
  ak_source :: socket_addr

record udp_key =
  uk_source :: socket_addr
  uk_target :: socket_addr

definition association :: "udp_key \<Rightarrow> association_key" where
  "association k = \<lparr>ak_source = uk_source k\<rparr>"

datatype timeout_class = Dns | OneShot | Stream

fun class_duration :: "timeout_class \<Rightarrow> duration" where
  "class_duration Dns = DNS_TIMEOUT"
| "class_duration OneShot = ONE_SHOT_TIMEOUT"
| "class_duration Stream = STREAM_TIMEOUT"

record udp_flow =
  uf_key :: udp_key
  reply_source :: socket_addr
  last_activity :: instant
  outbound_datagrams :: u8
  inbound_datagrams :: u8

definition timeout_class_of :: "udp_flow \<Rightarrow> timeout_class" where
  "timeout_class_of f =
     (if addr_port (uk_target (uf_key f)) = 53 then Dns
      else if outbound_datagrams f > 1 \<and> inbound_datagrams f > 1 then Stream else OneShot)"

definition expires_at :: "udp_flow \<Rightarrow> instant" where
  "expires_at f = last_activity f + class_duration (timeout_class_of f)"

record accept =
  accept_id :: flow_id
  created :: bool
  association_created :: bool

datatype accept_error = FamilyMismatch | ReplyRouteConflict | FlowLimit | AssociationLimit

record association_entry =
  flow_count :: usize

record udp_engine =
  flows :: "udp_flow flow_table"
  by_key :: "(udp_key, flow_id) hash_map"
  associations :: "(association_key, association_entry) hash_map"
  max_flows :: usize
  max_associations :: usize

section \<open>Operations\<close>

definition udp_new :: "usize \<Rightarrow> usize \<Rightarrow> udp_engine option" where
  "udp_new mf ma = map_option (\<lambda>t. \<lparr>flows = t, by_key = [], associations = [], max_flows = mf,
     max_associations = ma\<rparr>) (table_with_capacity mf)"

definition record_outbound :: "flow_id \<Rightarrow> instant \<Rightarrow> udp_engine \<Rightarrow> udp_engine" where
  "record_outbound fid now e = e\<lparr>flows := table_modify fid (\<lambda>f. f\<lparr>last_activity := now,
     outbound_datagrams := saturating_add (outbound_datagrams f) 1\<rparr>) (flows e)\<rparr>"

definition record_inbound :: "flow_id \<Rightarrow> instant \<Rightarrow> udp_engine \<Rightarrow> udp_engine" where
  "record_inbound fid now e = e\<lparr>flows := table_modify fid (\<lambda>f. f\<lparr>last_activity := now,
     inbound_datagrams := saturating_add (inbound_datagrams f) 1\<rparr>) (flows e)\<rparr>"

definition new_flow :: "udp_key \<Rightarrow> socket_addr \<Rightarrow> instant \<Rightarrow> udp_flow" where
  "new_flow key reply now = \<lparr>uf_key = key, reply_source = reply, last_activity = now,
     outbound_datagrams = 1, inbound_datagrams = 0\<rparr>"

lemma new_flow_key [simp]: "uf_key (new_flow key reply now) = key"
  by (simp add: new_flow_def)

text \<open>The part of \<open>accept_routed\<close> that creates a flow for a new key.\<close>

definition accept_new ::
  "udp_key \<Rightarrow> socket_addr \<Rightarrow> instant \<Rightarrow> udp_engine \<Rightarrow> ((accept_error + accept) \<times> udp_engine) option" where
  "accept_new key reply now e =
     (if hm_len (by_key e) \<ge> max_flows e then Some (Inl FlowLimit, e)
      else let ak = association key;
               fresh = (hm_get (associations e) ak = None)
           in if fresh \<and> hm_len (associations e) \<ge> max_associations e then Some (Inl AssociationLimit, e)
              else let e = (if fresh then e\<lparr>associations := hm_insert ak \<lparr>flow_count = 0\<rparr> (associations e)\<rparr> else e);
                       f = new_flow key reply now
                   in case table_insert f (flows e) of
                        None \<Rightarrow> None
                      | Some (Inl _, t) \<Rightarrow>
                          let e = e\<lparr>flows := t\<rparr>
                          in Some (Inl FlowLimit,
                               if fresh then e\<lparr>associations := hm_remove ak (associations e)\<rparr> else e)
                      | Some (Inr fid, t) \<Rightarrow>
                          let e = e\<lparr>flows := t, by_key := hm_insert key fid (by_key e)\<rparr>
                          in case hm_get (associations e) ak of
                               None \<Rightarrow> None
                             | Some a \<Rightarrow>
                                 Some (Inr \<lparr>accept_id = fid, created = True, association_created = fresh\<rparr>,
                                   e\<lparr>associations := hm_insert ak (a\<lparr>flow_count := flow_count a + 1\<rparr>) (associations e)\<rparr>))"

definition accept_routed ::
  "udp_key \<Rightarrow> socket_addr \<Rightarrow> instant \<Rightarrow> udp_engine \<Rightarrow> ((accept_error + accept) \<times> udp_engine) option" where
  "accept_routed key reply now e =
     (if is_ipv4 (uk_source key) \<noteq> is_ipv4 (uk_target key) \<or> is_ipv4 (uk_source key) \<noteq> is_ipv4 reply
      then Some (Inl FamilyMismatch, e)
      else case hm_get (by_key e) key of
        Some fid \<Rightarrow>
          (if (case table_get (flows e) fid of None \<Rightarrow> False | Some f \<Rightarrow> reply_source f \<noteq> reply)
           then Some (Inl ReplyRouteConflict, e)
           else Some (Inr \<lparr>accept_id = fid, created = False, association_created = False\<rparr>,
                  record_outbound fid now e))
      | None \<Rightarrow> accept_new key reply now e)"

definition udp_accept ::
  "udp_key \<Rightarrow> instant \<Rightarrow> udp_engine \<Rightarrow> ((accept_error + accept) \<times> udp_engine) option" where
  "udp_accept key now e = accept_routed key (uk_target key) now e"

definition udp_remove :: "flow_id \<Rightarrow> udp_engine \<Rightarrow> (bool \<times> udp_engine) option" where
  "udp_remove fid e =
     (case table_get (flows e) fid of
        None \<Rightarrow> Some (False, e)
      | Some f \<Rightarrow>
          let e = e\<lparr>by_key := hm_remove (uf_key f) (by_key e)\<rparr>;
              ak = association (uf_key f);
              (gone, e) = (case hm_get (associations e) ak of
                  None \<Rightarrow> (False, e)
                | Some a \<Rightarrow>
                    let a = a\<lparr>flow_count := flow_count a - 1\<rparr>
                    in (flow_count a = 0, e\<lparr>associations := hm_insert ak a (associations e)\<rparr>));
              e = (if gone then e\<lparr>associations := hm_remove ak (associations e)\<rparr> else e)
          in case flush_deferred (defer_remove fid (flows e)) of
               None \<Rightarrow> None
             | Some (_, t) \<Rightarrow> Some (True, e\<lparr>flows := t\<rparr>))"

fun remove_each :: "flow_id list \<Rightarrow> udp_engine \<Rightarrow> udp_engine option" where
  "remove_each [] e = Some e"
| "remove_each (fid # rest) e =
     (case udp_remove fid e of None \<Rightarrow> None | Some (_, e) \<Rightarrow> remove_each rest e)"

definition udp_expire :: "instant \<Rightarrow> udp_engine \<Rightarrow> (flow_id list \<times> udp_engine) option" where
  "udp_expire now e =
     (let expired = filter (\<lambda>fid. case table_get (flows e) fid of None \<Rightarrow> False
                                   | Some f \<Rightarrow> expires_at f \<le> now) (active_ids (flows e))
      in map_option (Pair expired) (remove_each expired e))"

definition udp_flow_of :: "udp_engine \<Rightarrow> flow_id \<Rightarrow> udp_flow option" where
  "udp_flow_of e fid = table_get (flows e) fid"

definition id_for_key :: "udp_engine \<Rightarrow> udp_key \<Rightarrow> flow_id option" where
  "id_for_key e key = hm_get (by_key e) key"

definition has_association :: "udp_engine \<Rightarrow> association_key \<Rightarrow> bool" where
  "has_association e key \<longleftrightarrow> hm_get (associations e) key \<noteq> None"

definition active_flows :: "udp_engine \<Rightarrow> usize" where
  "active_flows e = hm_len (by_key e)"

definition active_associations :: "udp_engine \<Rightarrow> usize" where
  "active_associations e = hm_len (associations e)"

section \<open>The engine invariant\<close>

text \<open>
  The index is exact, every association counts the flows of its source and there is one exactly for
  the sources that have flows, and the limits hold.
\<close>

definition keys_of :: "udp_engine \<Rightarrow> association_key \<Rightarrow> udp_key set" where
  "keys_of e a = {k \<in> dom (hm_get (by_key e)). association k = a}"

definition count_ok :: "association_entry option \<Rightarrow> udp_key set \<Rightarrow> bool" where
  "count_ok c keys = (case c of
       None \<Rightarrow> keys = {}
     | Some c \<Rightarrow> flow_count c = card keys \<and> 0 < flow_count c)"

definition counts_ok :: "udp_engine \<Rightarrow> bool" where
  "counts_ok e \<longleftrightarrow> (\<forall>a. count_ok (hm_get (associations e) a) (keys_of e a))"

lemma counts_cong:
  "by_key e' = by_key e \<Longrightarrow> associations e' = associations e \<Longrightarrow> counts_ok e' = counts_ok e"
  by (simp add: counts_ok_def keys_of_def)

definition table_inv :: "udp_flow flow_table \<Rightarrow> bool" where
  "table_inv t \<longleftrightarrow> table_ok t \<and> deferred t = []"

definition engine_ok :: "udp_engine \<Rightarrow> bool" where
  "engine_ok e \<longleftrightarrow> table_inv (flows e) \<and> hm_ok (by_key e) \<and> hm_ok (associations e) \<and>
     indexed (table_get (flows e)) uf_key (hm_get (by_key e)) \<and> counts_ok e \<and>
     hm_len (by_key e) \<le> max_flows e \<and> hm_len (associations e) \<le> max_associations e"

lemma finite_keys [simp]: "finite (keys_of e a)"
  unfolding keys_of_def using hm.finite_get by (rule finite_subset [rotated]) auto

lemma engine_new_ok: "udp_new mf ma = Some e \<Longrightarrow> engine_ok e \<and> table_get (flows e) = (\<lambda>_. None)"
  using table_with_capacity_ok [of mf]
  by (fastforce simp: udp_new_def engine_ok_def table_inv_def counts_ok_def count_ok_def keys_of_def
      indexed_def fun_eq_iff)

lemma engine_modify_ok:
  assumes "engine_ok e" "\<And>f. uf_key (g f) = uf_key f"
  shows "engine_ok (e\<lparr>flows := table_modify fid g (flows e)\<rparr>)"
  using assms ft.upd_look [of "flows e" fid g] ft.upd_indexed [of "flows e" uf_key "hm_get (by_key e)" g fid]
    counts_cong [of "e\<lparr>flows := table_modify fid g (flows e)\<rparr>" e]
  by (simp add: engine_ok_def table_inv_def)

lemma hm_insert_remove_new: "hm_get m k = None \<Longrightarrow> hm_remove k (hm_insert k v m) = m"
  by (simp add: hm_get_def hm_insert_def hm_remove_def delete_update_same map_of_eq_None_iff)

text \<open>Adding a key to the index and counting it in its association.\<close>

lemma counts_insert:
  assumes ok: "counts_ok e" and new: "hm_get (by_key e) key = None"
    and a: "a = (case hm_get (associations e) (association key) of None \<Rightarrow> \<lparr>flow_count = 0\<rparr> | Some a \<Rightarrow> a)"
    and e': "by_key e' = hm_insert key fid (by_key e)"
    "hm_get (associations e') = (hm_get (associations e))(association key \<mapsto> a\<lparr>flow_count := flow_count a + 1\<rparr>)"
  shows "counts_ok e'"
proof -
  have card: "card (keys_of e' b) = card (keys_of e b) + of_bool (association key = b)" for b
    unfolding keys_of_def e'(1) by (rule hm.card_put_filter [OF new])
  have "flow_count a = card (keys_of e (association key))"
    using ok a by (auto simp: counts_ok_def count_ok_def split: option.splits dest: spec [of _ "association key"])
  then have key: "flow_count a + 1 = card (keys_of e' (association key))"
    by (simp add: card)
  have "count_ok (hm_get (associations e') b) (keys_of e' b)" for b
  proof (cases "b = association key")
    case True
    then show ?thesis
      using key by (simp add: e'(2) count_ok_def)
  next
    case False
    then have "keys_of e' b = keys_of e b"
      by (auto simp: keys_of_def e'(1))
    then show ?thesis
      using ok False by (simp add: counts_ok_def e'(2))
  qed
  then show ?thesis
    by (simp add: counts_ok_def)
qed

lemma accept_new_ok:
  assumes ok: "engine_ok e" and new: "hm_get (by_key e) key = None"
  shows "\<exists>r e'. accept_new key reply now e = Some (r, e') \<and> engine_ok e' \<and>
    (case r of Inl err \<Rightarrow> e' = e \<and> err \<in> {FlowLimit, AssociationLimit}
     | Inr a \<Rightarrow> created a \<and> table_get (flows e) (accept_id a) = None \<and>
         table_get (flows e') = (table_get (flows e))(accept_id a \<mapsto> new_flow key reply now) \<and>
         hm_get (by_key e') = (hm_get (by_key e))(key \<mapsto> accept_id a))"
proof -
  let ?ak = "association key"
  let ?fresh = "hm_get (associations e) ?ak = None"
  let ?f = "new_flow key reply now"
  consider (limit) "hm_len (by_key e) \<ge> max_flows e"
    | (alimit) "hm_len (by_key e) < max_flows e" "?fresh" "hm_len (associations e) \<ge> max_associations e"
    | (go) "hm_len (by_key e) < max_flows e" "?fresh \<longrightarrow> hm_len (associations e) < max_associations e"
    by linarith
  then show ?thesis
  proof cases
    case go
    have inv: "table_ok (flows e) \<and> deferred (flows e) = []"
      using ok by (simp add: engine_ok_def table_inv_def)
    obtain r t where ins: "table_insert ?f (flows e) = Some (r, t)"
      using ft.ins_returns [OF inv] by fastforce
    show ?thesis
    proof (cases r)
      case (Inl w)
      then have "t = flows e"
        using ft.ins_full [OF inv] ins by blast
      then have "accept_new key reply now e = Some (Inl FlowLimit, e)"
        using go ins Inl by (auto simp: accept_new_def Let_def hm_insert_remove_new)
      then show ?thesis
        using ok by simp
    next
      case (Inr fid)
      define a where "a = (case hm_get (associations e) ?ak of None \<Rightarrow> \<lparr>flow_count = 0\<rparr> | Some a \<Rightarrow> a)"
      define e1 where "e1 = (if ?fresh then e\<lparr>associations := hm_insert ?ak \<lparr>flow_count = 0\<rparr> (associations e)\<rparr> else e)"
      define e' where "e' = e1\<lparr>flows := t, by_key := hm_insert key fid (by_key e),
          associations := hm_insert ?ak (a\<lparr>flow_count := flow_count a + 1\<rparr>) (associations e1)\<rparr>"
      have e1: "hm_get (associations e1) ?ak = Some a" "flows e1 = flows e" "by_key e1 = by_key e"
          "max_flows e1 = max_flows e" "max_associations e1 = max_associations e"
        by (auto simp: e1_def a_def)
      have run: "accept_new key reply now e =
          Some (Inr \<lparr>accept_id = fid, created = True, association_created = ?fresh\<rparr>, e')"
        using go ins Inr e1 unfolding accept_new_def e1_def [symmetric] Let_def e'_def by auto
      note new_id = ft.ins_new [OF inv ins [unfolded Inr]]
      have idx: "indexed (table_get t) uf_key ((hm_get (by_key e))(key \<mapsto> fid))"
        using ft.ins_indexed [OF inv, of uf_key "hm_get (by_key e)" ?f fid t] ok new ins Inr
        by (simp add: engine_ok_def)
      have assoc: "hm_get (associations e') = (hm_get (associations e))(?ak \<mapsto> a\<lparr>flow_count := flow_count a + 1\<rparr>)"
        by (simp add: e'_def e1_def)
      have "counts_ok e'"
        using ok by (intro counts_insert [OF _ new a_def _ assoc]) (simp_all add: engine_ok_def e'_def)
      moreover have "hm_ok (associations e1)" "hm_ok (associations e)"
        using ok by (simp_all add: engine_ok_def e1_def)
      then have "hm_len (associations e') \<le> max_associations e'"
        using go ok hm.len_put_new [of "associations e" ?ak "\<lparr>flow_count = 0\<rparr>"]
          hm.len_put_old [of "associations e1" ?ak "a\<lparr>flow_count := flow_count a + 1\<rparr>"] e1(1)
        by (auto simp: e'_def e1_def engine_ok_def split: if_splits)
      moreover have "hm_len (by_key e') \<le> max_flows e'"
        using go ok new hm.len_put_new [of "by_key e" key fid] by (simp add: e'_def e1 engine_ok_def)
      ultimately have "engine_ok e'"
        using ok idx new_id by (simp add: engine_ok_def e'_def e1 table_inv_def e1_def)
      then show ?thesis
        using run new_id by (intro exI [of _ e'] exI [of _ "Inr _"] conjI) (auto simp: e'_def)
    qed
  qed (use ok in \<open>auto simp: accept_new_def\<close>)
qed

lemma accept_routed_ok:
  assumes ok: "engine_ok e"
  shows "\<exists>r e'. accept_routed key reply now e = Some (r, e') \<and> engine_ok e' \<and>
    (\<forall>err. r = Inl err \<longrightarrow> e' = e) \<and>
    (\<forall>a. r = Inr a \<longrightarrow> hm_get (by_key e') key = Some (accept_id a) \<and>
       (created a \<longleftrightarrow> hm_get (by_key e) key = None) \<and>
       (\<exists>f. table_get (flows e') (accept_id a) = Some f \<and> uf_key f = key \<and> reply_source f = reply \<and>
          last_activity f = now \<and>
          (\<forall>x. x \<noteq> accept_id a \<longrightarrow> table_get (flows e') x = table_get (flows e) x)))"
proof (cases "is_ipv4 (uk_source key) \<noteq> is_ipv4 (uk_target key) \<or> is_ipv4 (uk_source key) \<noteq> is_ipv4 reply")
  case True
  then show ?thesis
    using ok by (simp add: accept_routed_def)
next
  case family: False
  show ?thesis
  proof (cases "hm_get (by_key e) key")
    case None
    then have "accept_routed key reply now e = accept_new key reply now e"
      using family by (auto simp: accept_routed_def)
    then show ?thesis
      using accept_new_ok [OF ok None, of reply now] None
      by (fastforce simp: new_flow_def split: sum.splits)
  next
    case (Some fid)
    then obtain f where f: "table_get (flows e) fid = Some f" "uf_key f = key"
      using ok indexedD(1) by (fastforce simp: engine_ok_def)
    show ?thesis
    proof (cases "reply_source f = reply")
      case False
      then show ?thesis
        using family Some f ok by (simp add: accept_routed_def)
    next
      case True
      define g where "g = (\<lambda>f :: udp_flow. f\<lparr>last_activity := now,
        outbound_datagrams := saturating_add (outbound_datagrams f) 1\<rparr>)"
      have "accept_routed key reply now e = Some (Inr \<lparr>accept_id = fid, created = False,
          association_created = False\<rparr>, e\<lparr>flows := table_modify fid g (flows e)\<rparr>)"
        using family Some f True by (auto simp: accept_routed_def record_outbound_def g_def)
      moreover have "engine_ok (e\<lparr>flows := table_modify fid g (flows e)\<rparr>)"
        using ok by (rule engine_modify_ok) (simp add: g_def)
      moreover have "table_get (table_modify fid g (flows e)) = (table_get (flows e))(fid \<mapsto> g f)"
        using ft.upd_look [of "flows e" fid g] ok f by (simp add: engine_ok_def table_inv_def)
      ultimately show ?thesis
        using Some f True by (auto simp: g_def)
    qed
  qed
qed

lemma counts_remove:
  assumes ok: "counts_ok e" and old: "hm_get (by_key e) key \<noteq> None"
    and a: "hm_get (associations e) (association key) = Some a"
    and e': "by_key e' = hm_remove key (by_key e)"
    "hm_get (associations e') = (hm_get (associations e))(association key :=
       (if flow_count a = 1 then None else Some (a\<lparr>flow_count := flow_count a - 1\<rparr>)))"
  shows "counts_ok e'"
proof -
  have card: "card (keys_of e' b) = card (keys_of e b) - of_bool (association key = b)" for b
    unfolding keys_of_def e'(1) by (rule hm.card_del_filter [OF old])
  have "count_ok (Some a) (keys_of e (association key))"
    using ok a by (metis counts_ok_def)
  then have cnt: "flow_count a = card (keys_of e (association key))" "0 < flow_count a"
    by (simp_all add: count_ok_def)
  have "count_ok (hm_get (associations e') b) (keys_of e' b)" for b
  proof (cases "b = association key")
    case True
    have "card (keys_of e' b) = flow_count a - 1"
      using card [of b] cnt True by simp
    then show ?thesis
      using True cnt by (auto simp: e'(2) count_ok_def)
  next
    case False
    then have "keys_of e' b = keys_of e b"
      by (auto simp: keys_of_def e'(1))
    then show ?thesis
      using ok False by (simp add: counts_ok_def e'(2))
  qed
  then show ?thesis
    by (simp add: counts_ok_def)
qed

lemma udp_remove_ok:
  assumes ok: "engine_ok e"
  shows "\<exists>e'. udp_remove fid e = Some (table_get (flows e) fid \<noteq> None, e') \<and> engine_ok e' \<and>
    table_get (flows e') = (table_get (flows e))(fid := None) \<and>
    max_flows e' = max_flows e \<and> max_associations e' = max_associations e"
proof (cases "table_get (flows e) fid")
  case None
  then have "(table_get (flows e))(fid := None) = table_get (flows e)"
    by auto
  then show ?thesis
    using ok None by (auto simp: udp_remove_def)
next
  case (Some f)
  let ?k = "uf_key f" let ?ak = "association (uf_key f)"
  have inv: "table_ok (flows e) \<and> deferred (flows e) = []"
    and idx: "indexed (table_get (flows e)) uf_key (hm_get (by_key e))"
    using ok by (simp_all add: engine_ok_def table_inv_def)
  have key: "hm_get (by_key e) ?k = Some fid"
    using indexedD(2) [OF idx Some] .
  then have "?k \<in> keys_of e ?ak"
    by (auto simp: keys_of_def)
  moreover have "count_ok (hm_get (associations e) ?ak) (keys_of e ?ak)"
    using ok by (simp add: engine_ok_def counts_ok_def)
  ultimately obtain a where a: "hm_get (associations e) ?ak = Some a" "0 < flow_count a"
    by (cases "hm_get (associations e) ?ak") (auto simp: count_ok_def)
  from ft.del_look [OF inv, of fid] Some obtain t where
    t: "table_delete fid (flows e) = Some t" "table_ok t" "deferred t = []"
      "table_get t = (table_get (flows e))(fid := None)"
    by auto
  define as where "as = (if flow_count a = 1 then hm_remove ?ak (hm_insert ?ak (a\<lparr>flow_count := 0\<rparr>) (associations e))
      else hm_insert ?ak (a\<lparr>flow_count := flow_count a - 1\<rparr>) (associations e))"
  define e' where "e' = e\<lparr>by_key := hm_remove ?k (by_key e), associations := as, flows := t\<rparr>"
  have "udp_remove fid e = Some (True, e')"
    using Some a t(1)
    by (auto simp: udp_remove_def table_delete_def e'_def as_def Let_def split: option.splits)
  moreover have "engine_ok e'"
  proof -
    have oks: "hm_ok (by_key e)" "hm_ok (associations e)"
      using ok by (simp_all add: engine_ok_def)
    have "counts_ok e'"
    proof (rule counts_remove [OF _ _ a(1)])
      show "counts_ok e"
        using ok by (simp add: engine_ok_def)
      show "hm_get (by_key e) ?k \<noteq> None"
        using key by simp
      show "by_key e' = hm_remove ?k (by_key e)"
        by (simp add: e'_def)
      show "hm_get (associations e') = (hm_get (associations e))(?ak :=
          (if flow_count a = 1 then None else Some (a\<lparr>flow_count := flow_count a - 1\<rparr>)))"
        by (simp add: e'_def as_def)
    qed
    moreover have "indexed (table_get t) uf_key ((hm_get (by_key e))(?k := None))"
      using ft.del_indexed [OF inv idx Some t(1)] .
    moreover have "hm_len as \<le> hm_len (associations e)"
      using hm.len_put_old [OF oks(2), of ?ak] hm.len_del_le [of "hm_insert ?ak (a\<lparr>flow_count := 0\<rparr>) (associations e)" ?ak]
        oks a(1) by (auto simp: as_def)
    moreover have "hm_len (hm_remove ?k (by_key e)) \<le> hm_len (by_key e)"
      using oks(1) by (rule hm.len_del_le)
    moreover have "hm_ok as"
      using oks by (simp add: as_def)
    ultimately show ?thesis
      using ok oks t by (simp add: engine_ok_def e'_def table_inv_def)
  qed
  ultimately show ?thesis
    using Some t by (auto simp: e'_def)
qed

lemma remove_each_ok:
  assumes "engine_ok e"
  shows "\<exists>e'. remove_each ids e = Some e' \<and> engine_ok e' \<and>
    (\<forall>x. table_get (flows e') x = (if x \<in> set ids then None else table_get (flows e) x))"
  using assms
proof (induction ids arbitrary: e)
  case (Cons fid ids)
  from udp_remove_ok [OF Cons.prems, of fid] obtain b e1 where
    e1: "udp_remove fid e = Some (b, e1)" "engine_ok e1" "table_get (flows e1) = (table_get (flows e))(fid := None)"
    by auto
  from Cons.IH [OF e1(2)] show ?case
    using e1 by auto
qed simp

section \<open>Properties\<close>

inductive udp_run :: "udp_engine \<Rightarrow> bool" where
  udp_start: "udp_new mf ma = Some e \<Longrightarrow> udp_run e"
| udp_accepted: "udp_run e \<Longrightarrow> accept_routed key reply now e = Some (r, e') \<Longrightarrow> udp_run e'"
| udp_outbound: "udp_run e \<Longrightarrow> udp_run (record_outbound fid now e)"
| udp_inbound: "udp_run e \<Longrightarrow> udp_run (record_inbound fid now e)"
| udp_removed: "udp_run e \<Longrightarrow> udp_remove fid e = Some (b, e') \<Longrightarrow> udp_run e'"
| udp_expired: "udp_run e \<Longrightarrow> udp_expire now e = Some (ids, e') \<Longrightarrow> udp_run e'"

lemma udp_run_ok: "udp_run e \<Longrightarrow> engine_ok e"
proof (induction rule: udp_run.induct)
  case (udp_start mf ma e)
  then show ?case
    using engine_new_ok by blast
next
  case (udp_accepted e key reply now r e')
  then show ?case
    using accept_routed_ok [of e key reply now] by auto
next
  case (udp_outbound e fid now)
  from udp_outbound.IH show ?case
    unfolding record_outbound_def by (rule engine_modify_ok) simp
next
  case (udp_inbound e fid now)
  from udp_inbound.IH show ?case
    unfolding record_inbound_def by (rule engine_modify_ok) simp
next
  case (udp_removed e fid b e')
  then show ?case
    using udp_remove_ok [of e fid] by auto
next
  case (udp_expired e now ids e')
  then show ?case
    using remove_each_ok [of e ids] by (auto simp: udp_expire_def Let_def)
qed

text \<open>
  C29. The bookkeeping of the UDP engine is exact over all sequences of operations: the key index and
  the flow table describe the same flows, the association of a source exists exactly while the source
  has flows and counts them, and the flow and association limits hold.
\<close>

theorem udp_engine_bookkeeping:
  assumes "udp_run e"
  shows "(\<forall>k fid. hm_get (by_key e) k = Some fid \<longleftrightarrow> (\<exists>f. table_get (flows e) fid = Some f \<and> uf_key f = k)) \<and>
    (\<forall>a. map_option flow_count (hm_get (associations e) a) =
       (let n = card {k. association k = a \<and> hm_get (by_key e) k \<noteq> None} in if n = 0 then None else Some n)) \<and>
    active_flows e = length (active_ids (flows e)) \<and> active_flows e \<le> max_flows e \<and>
    active_associations e \<le> max_associations e"
proof -
  have ok: "engine_ok e"
    using assms by (rule udp_run_ok)
  then have inv: "table_ok (flows e) \<and> deferred (flows e) = []"
    and idx: "indexed (table_get (flows e)) uf_key (hm_get (by_key e))" and m: "hm_ok (by_key e)"
    by (simp_all add: engine_ok_def table_inv_def)
  have "map_option flow_count (hm_get (associations e) a) =
      (if card (keys_of e a) = 0 then None else Some (card (keys_of e a)))" for a
  proof -
    have "count_ok (hm_get (associations e) a) (keys_of e a)"
      using ok by (simp add: engine_ok_def counts_ok_def)
    then show ?thesis
      by (cases "hm_get (associations e) a") (auto simp: count_ok_def)
  qed
  moreover have "keys_of e a = {k. association k = a \<and> hm_get (by_key e) k \<noteq> None}" for a
    by (auto simp: keys_of_def)
  moreover have "active_flows e = length (active_ids (flows e))"
    using hm.len_card [OF m] indexed_card [OF idx] ft.length_ids [OF inv] by (simp add: active_flows_def)
  ultimately show ?thesis
    using ok idx by (simp add: engine_ok_def indexed_def active_flows_def active_associations_def Let_def)
qed

text \<open>
  Accepting a datagram never panics and is all or nothing: on an error the engine is unchanged;
  on success the key resolves to the returned flow, which has the requested reply source and the
  current time as its last activity, it is new exactly when the key was, and no other flow changes.
\<close>

theorem udp_accept_effect:
  assumes "udp_run e"
  shows "\<exists>r e'. accept_routed key reply now e = Some (r, e') \<and>
    (case r of Inl err \<Rightarrow> e' = e
     | Inr a \<Rightarrow> hm_get (by_key e') key = Some (accept_id a) \<and>
         (created a \<longleftrightarrow> hm_get (by_key e) key = None) \<and>
         (\<exists>f. table_get (flows e') (accept_id a) = Some f \<and> uf_key f = key \<and> reply_source f = reply \<and>
            last_activity f = now) \<and>
         (\<forall>x. x \<noteq> accept_id a \<longrightarrow> table_get (flows e') x = table_get (flows e) x))"
  using accept_routed_ok [OF udp_run_ok [OF assms], of key reply now] by (fastforce split: sum.splits)

text \<open>
  Expiry is exact: it returns, without repetition, precisely the flows whose idle deadline has
  passed, removes these and leaves every other flow as it was.
\<close>

theorem udp_expire_exact:
  assumes "udp_run e"
  shows "\<exists>ids e'. udp_expire now e = Some (ids, e') \<and> distinct ids \<and>
    set ids = {fid. \<exists>f. table_get (flows e) fid = Some f \<and> expires_at f \<le> now} \<and>
    (\<forall>fid. table_get (flows e') fid = (if fid \<in> set ids then None else table_get (flows e) fid))"
proof -
  have ok: "engine_ok e"
    using assms by (rule udp_run_ok)
  let ?ids = "filter (\<lambda>fid. case table_get (flows e) fid of None \<Rightarrow> False | Some f \<Rightarrow> expires_at f \<le> now)
    (active_ids (flows e))"
  have "distinct ?ids" "set ?ids = {fid. \<exists>f. table_get (flows e) fid = Some f \<and> expires_at f \<le> now}"
    using ft.ids_dom [of "flows e"] ok
    by (auto simp: engine_ok_def table_inv_def split: option.splits)
  then show ?thesis
    using remove_each_ok [OF ok, of ?ids] unfolding udp_expire_def Let_def by fastforce
qed

definition sample_key :: udp_key where
  "sample_key = \<lparr>uk_source = AddrV4 [192, 0, 2, 2] 40000, uk_target = AddrV4 [198, 51, 100, 1] 7\<rparr>"

definition sample_engine :: udp_engine where
  "sample_engine = \<lparr>flows = \<lparr>slots = [\<lparr>slot_generation = 1, slot_value = None, retired = False\<rparr>],
     free = [0], deferred = []\<rparr>, by_key = [], associations = [], max_flows = 1, max_associations = 1\<rparr>"

lemma sample_engine_run: "udp_run sample_engine"
  by (rule udp_start [of 1 1]) (simp add: udp_new_def table_with_capacity_def sample_engine_def SLOT_BITS_def)

definition sample_busy :: udp_engine where
  "sample_busy = \<lparr>flows = \<lparr>slots = [\<lparr>slot_generation = 1,
       slot_value = Some (new_flow sample_key (uk_target sample_key) 5), retired = False\<rparr>],
     free = [], deferred = []\<rparr>, by_key = [(sample_key, \<lparr>slot = 0, generation = 1\<rparr>)],
     associations = [(association sample_key, \<lparr>flow_count = 1\<rparr>)], max_flows = 1, max_associations = 1\<rparr>"

lemma sample_accept:
  "accept_routed sample_key (uk_target sample_key) 5 sample_engine =
     Some (Inr \<lparr>accept_id = \<lparr>slot = 0, generation = 1\<rparr>, created = True, association_created = True\<rparr>, sample_busy)"
  by (simp add: accept_routed_def accept_new_def sample_engine_def sample_busy_def sample_key_def
      table_insert_def Let_def hm_len_def hm_get_def hm_insert_def)

lemma sample_busy_run: "udp_run sample_busy"
  using sample_engine_run sample_accept by (rule udp_accepted)

lemma sample_busy_get: "table_get (flows sample_busy) fid =
    (if fid = \<lparr>slot = 0, generation = 1\<rparr> then Some (new_flow sample_key (uk_target sample_key) 5) else None)"
  by (cases fid) (auto simp: sample_busy_def table_get_def Let_def unat_eq_0)

theorem udp_engine_bookkeeping_witness:
  "active_flows sample_busy = 1 \<and> active_flows sample_busy = length (active_ids (flows sample_busy))"
  using udp_engine_bookkeeping [OF sample_busy_run]
  by (simp add: sample_busy_def active_flows_def hm_len_def)

theorem udp_accept_effect_witness:
  "\<exists>r e'. accept_routed sample_key (AddrV4 [192, 0, 2, 1] 7) 9 sample_busy = Some (r, e') \<and> r = Inl ReplyRouteConflict \<and>
     e' = sample_busy"
proof -
  have "accept_routed sample_key (AddrV4 [192, 0, 2, 1] 7) 9 sample_busy = Some (Inl ReplyRouteConflict, sample_busy)"
  proof -
    have "hm_get (by_key sample_busy) sample_key = Some \<lparr>slot = 0, generation = 1\<rparr>"
      by (simp add: sample_busy_def hm_get_def)
    then show ?thesis
      by (simp add: accept_routed_def sample_busy_get) (simp add: sample_key_def new_flow_def)
  qed
  then show ?thesis
    using udp_accept_effect [OF sample_busy_run, of sample_key "AddrV4 [192, 0, 2, 1] 7" 9] by auto
qed

theorem udp_expire_exact_witness:
  "\<exists>ids e'. udp_expire 30000000005 sample_busy = Some (ids, e') \<and> set ids = {\<lparr>slot = 0, generation = 1\<rparr>}"
proof -
  have "expires_at (new_flow sample_key (uk_target sample_key) 5) = 30000000005"
    by (simp add: expires_at_def timeout_class_of_def new_flow_def sample_key_def ONE_SHOT_TIMEOUT_def
        from_secs_def nanos_per_sec_def)
  then show ?thesis
    using udp_expire_exact [OF sample_busy_run, of 30000000005] by (fastforce simp: sample_busy_get)
qed

end
