(* ===== verification/Socks5_Udp.thy ===== *)
theory Socks5_Udp
  imports Proxy_Handshake
begin

text \<open>
  The datagram header of SOCKS5 UDP ASSOCIATE, \<open>crates/proxy-proto/src/socks5_udp.rs\<close>. The encoder
  writes into the caller's buffer, which is an argument and part of the result; the decoder is the
  validation that relayed datagrams pass. The borrowed \<open>Address\<close> of the source has the same two
  constructors as \<open>SocksAddress\<close> and is represented by it.
\<close>

section \<open>Definitions\<close>

record socks_datagram =
  destination :: socks_address
  datagram_payload :: bytes

datatype socks_udp_error = Truncated | InvalidReserved | UnsupportedFragment u8 | UnsupportedAddress
  | InvalidDomain | OutputTooSmall

fun address_len :: "socks_address \<Rightarrow> socks_udp_error + usize" where
  "address_len (Socket (AddrV4 ip port)) = Inr (1 + 4 + 2)"
| "address_len (Socket (AddrV6 ip port fl sc)) = Inr (1 + 16 + 2)"
| "address_len (Domain name port) =
     (if name = [] \<or> length name > 255 then Inl InvalidDomain else Inr (1 + 1 + length name + 2))"

text \<open>Writing the address at \<open>offset\<close>; the result is the buffer and the offset after the address.\<close>

fun write_address :: "socks_address \<Rightarrow> usize \<Rightarrow> bytes \<Rightarrow> bytes \<times> usize" where
  "write_address (Socket (AddrV4 ip port)) offset out =
     (let out = out[offset := 1];
          out = copy_at (offset + 1) ip out;
          out = copy_at (offset + 5) (u16_to_be port) out
      in (out, offset + 7))"
| "write_address (Socket (AddrV6 ip port fl sc)) offset out =
     (let out = out[offset := 4];
          out = copy_at (offset + 1) ip out;
          out = copy_at (offset + 17) (u16_to_be port) out
      in (out, offset + 19))"
| "write_address (Domain name port) offset out =
     (let out = out[offset := 3];
          out = out[offset + 1 := word_of_nat (length name)];
          end = offset + 2 + length name;
          out = copy_at (offset + 2) name out;
          out = copy_at end (u16_to_be port) out
      in (out, end + 2))"

definition encode_datagram :: "bytes \<Rightarrow> socks_address \<Rightarrow> bytes \<Rightarrow> (socks_udp_error + usize) \<times> bytes" where
  "encode_datagram out dest payload =
     (case address_len dest of
        Inl e \<Rightarrow> (Inl e, out)
      | Inr alen \<Rightarrow>
          let header_len = 3 + alen
          in case checked_add_usize header_len (length payload) of
               None \<Rightarrow> (Inl OutputTooSmall, out)
             | Some total_len \<Rightarrow>
                 if length out < total_len then (Inl OutputTooSmall, out)
                 else let out = fill out 0 3 0;
                          (out, offset) = write_address dest 3 out;
                          out = copy_at offset payload out
                      in (Inr total_len, out))"

definition decode_destination :: "bytes \<Rightarrow> socks_udp_error + socks_address \<times> usize" where
  "decode_destination input =
     (if input ! 3 = 1 then
        if length input < 10 then Inl Truncated
        else Inr (Socket (AddrV4 [input ! 4, input ! 5, input ! 6, input ! 7] (be16_at input 8)), 10)
      else if input ! 3 = 4 then
        if length input < 22 then Inl Truncated
        else Inr (Socket (AddrV6 (subslice 4 20 input) (be16_at input 20) 0 0), 22)
      else if input ! 3 = 3 then
        if length input < 5 then Inl Truncated
        else let name_len = unat (input ! 4)
             in if name_len = 0 then Inl InvalidDomain
                else let end = 5 + name_len
                     in if length input < end + 2 then Inl Truncated
                        else Inr (Domain (subslice 5 end input) (be16_at input end), end + 2)
      else Inl UnsupportedAddress)"

definition decode_datagram :: "bytes \<Rightarrow> socks_udp_error + socks_datagram" where
  "decode_datagram input =
     (if length input < 4 then Inl Truncated
      else if take 2 input \<noteq> [0, 0] then Inl InvalidReserved
      else if input ! 2 \<noteq> 0 then Inl (UnsupportedFragment (input ! 2))
      else case decode_destination input of
             Inl e \<Rightarrow> Inl e
           | Inr (dest, payload_offset) \<Rightarrow>
               Inr \<lparr>destination = dest, datagram_payload = drop payload_offset input\<rparr>)"

section \<open>What is written\<close>

lemma write_address_bytes:
  assumes "wire_address dest" "address_len dest = Inr alen" "offset + alen \<le> length out"
  shows "write_address dest offset out = (copy_at offset (encode_socks_address dest) out, offset + alen)"
    and "length (encode_socks_address dest) = alen"
proof -
  show "length (encode_socks_address dest) = alen"
    using assms by (cases dest rule: wire_address.cases) (auto split: if_splits)
  show "write_address dest offset out = (copy_at offset (encode_socks_address dest) out, offset + alen)"
    using assms by (cases dest rule: wire_address.cases)
      (auto simp: Let_def update_as_copy copy_at_adjacent split: if_splits)
qed

lemma encode_datagram_bytes:
  assumes "wire_address dest" "address_len dest = Inr alen" "3 + alen + length payload \<le> length out"
    "length out < 2 ^ 64"
  shows "encode_datagram out dest payload =
    (Inr (3 + alen + length payload), copy_at 0 ([0, 0, 0] @ encode_socks_address dest @ payload) out)"
proof -
  have "fill out 0 3 0 = copy_at 0 [0, 0, 0] out"
    by (simp add: fill_def numeral_3_eq_3)
  then show ?thesis
    using assms write_address_bytes [OF assms(1,2), of 3 "fill out 0 3 0"]
    by (simp add: encode_datagram_def checked_add_usize_def Let_def copy_at_adjacent)
qed

lemma be16_at_middle: "i = length xs \<Longrightarrow> be16_at (xs @ u16_to_be v @ ys) i = v"
  using be16_at_slice [of i "xs @ u16_to_be v @ ys"] by (simp add: subslice_def)

lemma decode_encoded:
  assumes "wire_address dest" "address_len dest = Inr alen"
  shows "decode_datagram ([0, 0, 0] @ encode_socks_address dest @ payload) =
    Inr \<lparr>destination = dest, datagram_payload = payload\<rparr>"
  using assms
proof (cases dest rule: wire_address.cases)
  case (1 ip port)
  then have "length ip = 4"
    using assms by simp
  then show ?thesis
    using 1 list4 [of ip] be16_at_middle [of 8 "0 # 0 # 0 # 1 # ip" port payload]
    by (simp add: decode_datagram_def decode_destination_def nth_append)
next
  case (2 ip port fl sc)
  then show ?thesis
    using assms be16_at_middle [of 20 "0 # 0 # 0 # 4 # ip" port payload]
    by (simp add: decode_datagram_def decode_destination_def subslice_def)
next
  case (3 name port)
  then have "length name \<le> 255" "name \<noteq> []"
    using assms by (auto split: if_splits)
  then show ?thesis
    using 3 be16_at_middle [of "5 + length name" "0 # 0 # 0 # 3 # word_of_nat (length name) # name" port payload]
    by (simp add: decode_datagram_def decode_destination_def subslice_def unat_of_small_nat Let_def
        drop_Cons' numeral_eq_Suc)
qed

section \<open>What is accepted\<close>

lemma u16_pair_roundtrip: "u16_to_be (u16_from_be [a, b]) = [a, b]"
proof -
  have "unat (word_of_nat (unat a * 256 + unat b) :: u8) = unat b"
    by (simp only: unat_of_nat) simp
  then have "(word_of_nat (unat a * 256 + unat b) :: u8) = b"
    by (rule unsigned_word_eqI)
  moreover have "(unat a * 256 + unat b) div 256 = unat a"
    by simp
  moreover have "unat (u16_from_be [a, b]) = unat a * 256 + unat b"
    by (simp add: unat_u16_from_be)
  ultimately show ?thesis
    by (simp only: u16_to_be_pair) simp
qed

lemma split_port:
  assumes "n + 2 \<le> length xs"
  shows "\<exists>ys p zs. xs = ys @ u16_to_be p @ zs \<and> length ys = n"
proof -
  from split_at [of n xs] assms obtain ys r where r: "xs = ys @ r" "length ys = n"
    by auto
  then obtain a b zs where "r = [a, b] @ zs"
    using assms by (cases r; cases "tl r") auto
  then show ?thesis
    using r u16_pair_roundtrip [of a b] by metis
qed

lemma decode_accepted:
  assumes "decode_datagram input = Inr d"
  shows "wire_address (destination d) \<and> (\<exists>alen. address_len (destination d) = Inr alen) \<and>
    input = [0, 0, 0] @ encode_socks_address (destination d) @ datagram_payload d"
proof -
  from assms obtain k r where input: "input = [0, 0, 0, k] @ r"
    by (cases input; cases "tl input"; cases "tl (tl input)"; cases "tl (tl (tl input))")
      (auto simp: decode_datagram_def split: if_splits)
  have known: "k \<in> {1, 3, 4}"
    using assms by (auto simp: decode_datagram_def decode_destination_def input split: if_splits)
  consider "k = 1" "6 \<le> length r" | "k = 4" "18 \<le> length r"
    | n r' where "k = 3" "r = n # r'" "n \<noteq> 0" "unat n + 2 \<le> length r'"
  proof (cases "k = 3")
    case True
    then obtain n r' where "r = n # r'"
      using assms by (cases r) (auto simp: decode_datagram_def decode_destination_def input)
    then show ?thesis
      using that(3) [of n r'] True assms
      by (auto simp: decode_datagram_def decode_destination_def input Let_def unat_eq_zero split: if_splits)
  next
    case False
    then show ?thesis
      using that(1,2) known assms
      by (auto simp: decode_datagram_def decode_destination_def input split: if_splits)
  qed
  then show ?thesis
  proof cases
    case 1
    with split_port [of 4 r] obtain ip p zs where "r = ip @ u16_to_be p @ zs" "length ip = 4"
      by auto
    then have "input = [0, 0, 0] @ encode_socks_address (Socket (AddrV4 ip p)) @ zs"
      "wire_address (Socket (AddrV4 ip p))"
      using 1 by (simp_all add: input)
    then show ?thesis
      using decode_encoded [of "Socket (AddrV4 ip p)" 7 zs] assms by auto
  next
    case 2
    with split_port [of 16 r] obtain ip p zs where "r = ip @ u16_to_be p @ zs" "length ip = 16"
      by auto
    then have "input = [0, 0, 0] @ encode_socks_address (Socket (AddrV6 ip p 0 0)) @ zs"
      "wire_address (Socket (AddrV6 ip p 0 0))"
      using 2 by (simp_all add: input)
    then show ?thesis
      using decode_encoded [of "Socket (AddrV6 ip p 0 0)" 19 zs] assms by auto
  next
    case (3 n r')
    with split_port [of "unat n" r'] obtain name p zs where r': "r' = name @ u16_to_be p @ zs" "length name = unat n"
      by auto
    then have "name \<noteq> []" "length name \<le> 255"
      using 3 unat_u8_le [of n] by (auto simp: unat_eq_zero)
    moreover have "input = [0, 0, 0] @ encode_socks_address (Domain name p) @ zs"
      using 3 r' by (simp add: input)
    ultimately show ?thesis
      using decode_encoded [of "Domain name p" "4 + length name" zs] assms by auto
  qed
qed

section \<open>Properties\<close>

text \<open>
  The decoder accepts exactly the datagrams of the standard: three zero bytes, the encoding of an
  IPv4, IPv6 or non-empty domain address, and the payload, which it returns with the address.
  Truncated headers, fragments, reserved bits and unknown address types are all rejected.
\<close>

theorem socks_udp_decode_iff:
  "decode_datagram input = Inr d \<longleftrightarrow>
     wire_address (destination d) \<and> (\<nexists>port. destination d = Domain [] port) \<and>
     input = [0, 0, 0] @ encode_socks_address (destination d) @ datagram_payload d"
proof
  assume "decode_datagram input = Inr d"
  from decode_accepted [OF this] show "wire_address (destination d) \<and>
      (\<nexists>port. destination d = Domain [] port) \<and>
      input = [0, 0, 0] @ encode_socks_address (destination d) @ datagram_payload d"
    by (auto split: if_splits)
next
  assume r: "wire_address (destination d) \<and> (\<nexists>port. destination d = Domain [] port) \<and>
      input = [0, 0, 0] @ encode_socks_address (destination d) @ datagram_payload d"
  then obtain alen where "address_len (destination d) = Inr alen"
    by (cases "destination d" rule: wire_address.cases) auto
  then show "decode_datagram input = Inr d"
    using r decode_encoded [of "destination d" alen "datagram_payload d"] by simp
qed

text \<open>
  A datagram encoded into a buffer decodes to its destination and payload; the bytes of the
  buffer after it are untouched, and when the buffer is too small, by even one byte, or the domain
  is empty or over-long, the encoder fails without writing anything.
\<close>

theorem socks_udp_roundtrip:
  assumes dest: "wire_address dest" and out: "length out < 2 ^ 64"
  shows "case encode_datagram out dest payload of
      (Inr n, out') \<Rightarrow> decode_datagram (take n out') = Inr \<lparr>destination = dest, datagram_payload = payload\<rparr> \<and>
        drop n out' = drop n out \<and> length out' = length out \<and> n = 3 + length (encode_socks_address dest) + length payload
    | (Inl e, out') \<Rightarrow> out' = out \<and>
        (e = InvalidDomain \<and> (\<exists>port. dest = Domain [] port) \<or>
         e = OutputTooSmall \<and> length out < 3 + length (encode_socks_address dest) + length payload)"
proof (cases "address_len dest")
  case (Inl e)
  then show ?thesis
    using dest by (cases dest rule: wire_address.cases) (auto simp: encode_datagram_def split: if_splits)
next
  case (Inr alen)
  have len: "length (encode_socks_address dest) = alen"
    using write_address_bytes(2) [OF dest Inr, of 0 "replicate alen 0"] by simp
  show ?thesis
  proof (cases "3 + alen + length payload \<le> length out")
    case True
    define m where "m = [0, 0, 0] @ encode_socks_address dest @ payload"
    have m: "length m = 3 + alen + length payload" "decode_datagram m = Inr \<lparr>destination = dest, datagram_payload = payload\<rparr>"
      using decode_encoded [OF dest Inr, of payload] len by (simp_all add: m_def)
    then show ?thesis
      using encode_datagram_bytes [OF dest Inr True out, folded m_def] True len by (simp add: copy_at_def)
  next
    case False
    then show ?thesis
      using len Inr by (auto simp: encode_datagram_def checked_add_usize_def Let_def)
  qed
qed

theorem socks_udp_roundtrip_witness:
  "encode_datagram [9, 9, 9, 9, 9, 9, 9, 9, 9, 9, 9, 9] (Socket (AddrV4 [198, 51, 100, 7] 53)) [7] =
     (Inr 11, [0, 0, 0, 1, 198, 51, 100, 7, 0, 53, 7, 9]) \<and>
   decode_datagram [0, 0, 0, 1, 198, 51, 100, 7, 0, 53, 7] =
     Inr \<lparr>destination = Socket (AddrV4 [198, 51, 100, 7] 53), datagram_payload = [7]\<rparr>"
proof -
  have "encode_datagram [9, 9, 9, 9, 9, 9, 9, 9, 9, 9, 9, 9] (Socket (AddrV4 [198, 51, 100, 7] 53)) [7] =
     (Inr 11, [0, 0, 0, 1, 198, 51, 100, 7, 0, 53, 7, 9])"
    using encode_datagram_bytes [of "Socket (AddrV4 [198, 51, 100, 7] 53)" 7 "[7]" "[9, 9, 9, 9, 9, 9, 9, 9, 9, 9, 9, 9]"]
    by (simp add: copy_at_def u16_to_be_pair)
  then show ?thesis
    using socks_udp_roundtrip [of "Socket (AddrV4 [198, 51, 100, 7] 53)" "[9, 9, 9, 9, 9, 9, 9, 9, 9, 9, 9, 9]" "[7]"]
    by simp
qed

end
