(* ===== verification/Icmp.thy ===== *)
theory Icmp
  imports Udp_Datagram
begin

text \<open>
  ICMP errors for namespace UDP datagrams (\<open>crates/packet/src/icmp.rs\<close>). The writers build the
  outer IP header, the ICMP message with its quote of the original headers, and the checksum;
  the quoted IP header writer may still refuse the original length after the outer header has
  been written, and the model keeps the buffer of that error path.
\<close>

section \<open>The code\<close>

definition ICMP_HEADER_LEN :: usize where "ICMP_HEADER_LEN = 8"
definition IPV4_HEADER_LEN :: usize where "IPV4_HEADER_LEN = 20"
definition IPV6_HEADER_LEN :: usize where "IPV6_HEADER_LEN = 40"
definition IPV4_DESTINATION_UNREACHABLE :: u8 where "IPV4_DESTINATION_UNREACHABLE = 3"
definition IPV4_FRAGMENTATION_NEEDED :: u8 where "IPV4_FRAGMENTATION_NEEDED = 4"
definition IPV6_DESTINATION_UNREACHABLE :: u8 where "IPV6_DESTINATION_UNREACHABLE = 1"
definition IPV6_PACKET_TOO_BIG :: u8 where "IPV6_PACKET_TOO_BIG = 2"

datatype udp_error = DestinationUnreachable u8 | PacketTooBig u32

definition write_quoted_udp_header :: "u16 \<Rightarrow> u16 \<Rightarrow> usize \<Rightarrow> bytes \<Rightarrow> bytes" where
  "write_quoted_udp_header source destination len out =
     (let out = copy_at 0 (u16_to_be source) out;
          out = copy_at 2 (u16_to_be destination) out;
          out = copy_at 4 (u16_to_be (word_of_nat len)) out
      in fill out 6 8 0)"

definition ipv4_error_fields :: "udp_error \<Rightarrow> bytes \<Rightarrow> bytes" where
  "ipv4_error_fields error icmp =
     (case error of
        DestinationUnreachable code \<Rightarrow>
          let icmp = icmp[0 := IPV4_DESTINATION_UNREACHABLE] in icmp[1 := code]
      | PacketTooBig mtu \<Rightarrow>
          let icmp = icmp[0 := IPV4_DESTINATION_UNREACHABLE];
              icmp = icmp[1 := IPV4_FRAGMENTATION_NEEDED];
              mtu = (if unat mtu \<le> 65535 then ucast mtu else 0xffff :: u16)
          in copy_at 6 (u16_to_be mtu) icmp)"

definition ipv6_error_fields :: "udp_error \<Rightarrow> bytes \<Rightarrow> bytes" where
  "ipv6_error_fields error icmp =
     (case error of
        DestinationUnreachable code \<Rightarrow>
          let icmp = icmp[0 := IPV6_DESTINATION_UNREACHABLE] in icmp[1 := code]
      | PacketTooBig mtu \<Rightarrow>
          let icmp = icmp[0 := IPV6_PACKET_TOO_BIG] in copy_at 4 (u32_to_be mtu) icmp)"

definition write_ipv4_udp_error ::
  "bytes \<Rightarrow> bytes \<Rightarrow> u16 \<Rightarrow> u16 \<Rightarrow> bytes \<Rightarrow> usize \<Rightarrow> udp_error \<Rightarrow> usize writer" where
  "write_ipv4_udp_error original_source original_destination source_port destination_port
      payload_prefix original_payload_len error out =
     (let quote_len = IPV4_HEADER_LEN + UDP_HEADER_LEN + length payload_prefix;
          icmp_len = ICMP_HEADER_LEN + quote_len;
          total_len = IPV4_HEADER_LEN + icmp_len in
      if length out < total_len then (Inl Truncated, out)
      else case checked_add_usize UDP_HEADER_LEN original_payload_len of
        None \<Rightarrow> (Inl InvalidLength, out)
      | Some udp_len \<Rightarrow>
        if udp_len > 65535 then (Inl InvalidLength, out)
        else case write_ipv4_header original_destination original_source IPPROTO_ICMP icmp_len 0 out of
          (Inl e, out) \<Rightarrow> (Inl e, out)
        | (Inr _, out) \<Rightarrow>
          let icmp = subslice IPV4_HEADER_LEN total_len out;
              icmp = fill icmp 0 icmp_len 0;
              icmp = ipv4_error_fields error icmp;
              quoted_ip = ICMP_HEADER_LEN in
          case write_ipv4_header original_source original_destination IPPROTO_UDP udp_len 0
              (drop quoted_ip icmp) of
            (Inl e, part) \<Rightarrow> (Inl e, copy_at IPV4_HEADER_LEN (take quoted_ip icmp @ part) out)
          | (Inr _, part) \<Rightarrow>
            let icmp = take quoted_ip icmp @ part;
                quoted_udp = quoted_ip + IPV4_HEADER_LEN;
                icmp = copy_at quoted_udp (write_quoted_udp_header source_port destination_port udp_len
                    (subslice quoted_udp (quoted_udp + UDP_HEADER_LEN) icmp)) icmp;
                icmp = copy_at (quoted_udp + UDP_HEADER_LEN) payload_prefix icmp;
                value = checksum icmp;
                icmp = copy_at 2 (u16_to_be value) icmp
            in (Inr total_len, copy_at IPV4_HEADER_LEN icmp out))"

definition write_ipv6_udp_error ::
  "bytes \<Rightarrow> bytes \<Rightarrow> u16 \<Rightarrow> u16 \<Rightarrow> bytes \<Rightarrow> usize \<Rightarrow> udp_error \<Rightarrow> usize writer" where
  "write_ipv6_udp_error original_source original_destination source_port destination_port
      payload_prefix original_payload_len error out =
     (let quote_len = IPV6_HEADER_LEN + UDP_HEADER_LEN + length payload_prefix;
          icmp_len = ICMP_HEADER_LEN + quote_len;
          total_len = IPV6_HEADER_LEN + icmp_len in
      if length out < total_len then (Inl Truncated, out)
      else case checked_add_usize UDP_HEADER_LEN original_payload_len of
        None \<Rightarrow> (Inl InvalidLength, out)
      | Some udp_len \<Rightarrow>
        if udp_len > 65535 then (Inl InvalidLength, out)
        else case write_ipv6_header original_destination original_source IPPROTO_ICMPV6 icmp_len out of
          (Inl e, out) \<Rightarrow> (Inl e, out)
        | (Inr _, out) \<Rightarrow>
          let icmp = subslice IPV6_HEADER_LEN total_len out;
              icmp = fill icmp 0 icmp_len 0;
              icmp = ipv6_error_fields error icmp;
              quoted_ip = ICMP_HEADER_LEN in
          case write_ipv6_header original_source original_destination IPPROTO_UDP udp_len
              (drop quoted_ip icmp) of
            (Inl e, part) \<Rightarrow> (Inl e, copy_at IPV6_HEADER_LEN (take quoted_ip icmp @ part) out)
          | (Inr _, part) \<Rightarrow>
            let icmp = take quoted_ip icmp @ part;
                quoted_udp = quoted_ip + IPV6_HEADER_LEN;
                icmp = copy_at quoted_udp (write_quoted_udp_header source_port destination_port udp_len
                    (subslice quoted_udp (quoted_udp + UDP_HEADER_LEN) icmp)) icmp;
                icmp = copy_at (quoted_udp + UDP_HEADER_LEN) payload_prefix icmp;
                value = ipv6_transport original_destination original_source IPPROTO_ICMPV6 icmp;
                icmp = copy_at 2 (u16_to_be value) icmp
            in (Inr total_len, copy_at IPV6_HEADER_LEN icmp out))"

fun write_udp_error ::
  "socket_addr \<Rightarrow> socket_addr \<Rightarrow> bytes \<Rightarrow> usize \<Rightarrow> udp_error \<Rightarrow> usize writer" where
  "write_udp_error (AddrV4 sip sp) (AddrV4 dip dp) payload_prefix original_payload_len error out =
     write_ipv4_udp_error sip dip sp dp (take (min (length payload_prefix) 8) payload_prefix)
       original_payload_len error out"
| "write_udp_error (AddrV6 sip sp _ _) (AddrV6 dip dp _ _) payload_prefix original_payload_len error out =
     write_ipv6_udp_error sip dip sp dp payload_prefix original_payload_len error out"
| "write_udp_error _ _ payload_prefix original_payload_len error out = (Inl ProtocolMismatch, out)"

section \<open>The messages are valid\<close>

lemma quoted_udp_header_ok:
  assumes "length out = 8"
  shows "length (write_quoted_udp_header sp dp n out) = 8"
    and "be16_at (write_quoted_udp_header sp dp n out) 0 = sp"
    and "be16_at (write_quoted_udp_header sp dp n out) 2 = dp"
  using assms by (simp_all add: write_quoted_udp_header_def Let_def fill_def field_simps_rw)

text \<open>
  The ICMP header of either family: the buffer keeps its length, the checksum field stays zero
  and only the first 8 bytes change.
\<close>

lemma error_fields_ok:
  assumes "8 \<le> n"
  shows "length (ipv4_error_fields e (replicate n 0)) = n"
    and "subslice 2 4 (ipv4_error_fields e (replicate n 0)) = [0, 0]"
    and "ipv4_error_fields e (replicate n 0) ! 0 = 3"
    and "length (ipv6_error_fields e (replicate n 0)) = n"
    and "subslice 2 4 (ipv6_error_fields e (replicate n 0)) = [0, 0]"
    and "ipv6_error_fields e (replicate n 0) ! 0 = (case e of DestinationUnreachable _ \<Rightarrow> 1 | PacketTooBig _ \<Rightarrow> 2)"
proof -
  have z: "subslice 2 4 (replicate n (0 :: u8)) = [0, 0]"
    using assms by (simp add: subslice_def numeral_2_eq_2)
  have p: "0 < n" using assms by simp
  show "length (ipv4_error_fields e (replicate n 0)) = n"
    and "subslice 2 4 (ipv4_error_fields e (replicate n 0)) = [0, 0]"
    and "ipv4_error_fields e (replicate n 0) ! 0 = 3"
    and "length (ipv6_error_fields e (replicate n 0)) = n"
    and "subslice 2 4 (ipv6_error_fields e (replicate n 0)) = [0, 0]"
    and "ipv6_error_fields e (replicate n 0) ! 0 = (case e of DestinationUnreachable _ \<Rightarrow> 1 | PacketTooBig _ \<Rightarrow> 2)"
    using assms z p by (cases e; simp add: ipv4_error_fields_def ipv6_error_fields_def Let_def field_simps_rw
        IPV4_DESTINATION_UNREACHABLE_def IPV6_DESTINATION_UNREACHABLE_def IPV6_PACKET_TOO_BIG_def)+
qed

lemma fill_all: "length xs = n \<Longrightarrow> fill xs 0 n v = replicate n v"
  by (simp add: fill_def copy_at_def)

text \<open>
  The quote of either family: \<open>part\<close> holds the quoted IP header of \<open>h\<close> bytes and room for the UDP
  header and the payload prefix.
\<close>

definition quote_icmp :: "usize \<Rightarrow> u16 \<Rightarrow> u16 \<Rightarrow> usize \<Rightarrow> bytes \<Rightarrow> bytes \<Rightarrow> bytes \<Rightarrow> bytes" where
  "quote_icmp h sp dp n prefix icmp part =
     (let icmp = take 8 icmp @ part;
          icmp = copy_at (8 + h) (write_quoted_udp_header sp dp n (subslice (8 + h) (8 + h + 8) icmp)) icmp
      in copy_at (8 + h + 8) prefix icmp)"

lemma quote_icmp_ok:
  assumes "length icmp = 16 + h + length prefix" and "length part = h + 8 + length prefix" and "20 \<le> h"
  shows "length (quote_icmp h sp dp n prefix icmp part) = 16 + h + length prefix"
    and "subslice 2 4 (quote_icmp h sp dp n prefix icmp part) = subslice 2 4 icmp"
    and "quote_icmp h sp dp n prefix icmp part ! 0 = icmp ! 0"
    and "b \<le> h \<Longrightarrow> subslice (8 + a) (8 + b) (quote_icmp h sp dp n prefix icmp part) = subslice a b part"
    and "be16_at (quote_icmp h sp dp n prefix icmp part) (8 + h) = sp"
    and "be16_at (quote_icmp h sp dp n prefix icmp part) (10 + h) = dp"
    and "drop (16 + h) (quote_icmp h sp dp n prefix icmp part) = prefix"
proof -
  define base where "base = take 8 icmp @ part"
  define udp where "udp = write_quoted_udp_header sp dp n (subslice (8 + h) (8 + h + 8) base)"
  have lb: "length base = 16 + h + length prefix" using assms by (simp add: base_def)
  then have "length (subslice (8 + h) (8 + h + 8) base) = 8" by simp
  note u = quoted_udp_header_ok [OF this, of sp dp n, folded udp_def]
  have q: "quote_icmp h sp dp n prefix icmp part = copy_at (8 + h + 8) prefix (copy_at (8 + h) udp base)"
    by (simp add: quote_icmp_def base_def udp_def Let_def)
  let ?q = "quote_icmp h sp dp n prefix icmp part"
  show "length ?q = 16 + h + length prefix" using q lb u(1) by simp
  have early: "subslice c d ?q = subslice c d base" if "d \<le> 8 + h" for c d
    using q lb u(1) that by (simp add: field_simps_rw)
  show "subslice 2 4 ?q = subslice 2 4 icmp"
    using early [of 4 2] assms by (simp add: base_def subslice_def drop_take)
  have "0 < length icmp" using assms by simp
  then have "base ! 0 = icmp ! 0" by (simp add: base_def nth_append)
  then show "?q ! 0 = icmp ! 0" using q lb u(1) by (simp add: field_simps_rw)
  show "subslice (8 + a) (8 + b) ?q = subslice a b part" if "b \<le> h"
    using early [of "8 + b" "8 + a"] that assms by (simp add: base_def subslice_def)
  show "be16_at ?q (8 + h) = sp" and "be16_at ?q (10 + h) = dp"
    using q lb u by (simp_all add: be16_at_def nth_copy_before nth_copy_same)
  show "drop (16 + h) ?q = prefix"
    using q lb u(1) by (simp add: copy_at_def)
qed

lemma write_ipv4_udp_error_ok:
  assumes "length s = 4" and "length d = 4" and "length prefix \<le> 8" and "n \<le> 65507"
    and "56 + length prefix \<le> length out"
  shows "\<exists>out' p. write_ipv4_udp_error s d sp dp prefix n err out = (Inr (56 + length prefix), out') \<and>
     ipv4_parse (take (56 + length prefix) out') = Inr p \<and>
     ipv4_source p = d \<and> ipv4_destination p = s \<and> ipv4_protocol p = IPPROTO_ICMP \<and>
     checksum (ipv4_payload p) = 0 \<and> ipv4_payload p ! 0 = 3 \<and>
     subslice 20 24 (ipv4_payload p) = s \<and> subslice 24 28 (ipv4_payload p) = d \<and>
     be16_at (ipv4_payload p) 28 = sp \<and> be16_at (ipv4_payload p) 30 = dp \<and>
     drop 36 (ipv4_payload p) = prefix"
proof -
  let ?k = "length prefix"
  obtain o1 where w1: "write_ipv4_header d s IPPROTO_ICMP (36 + ?k) 0 out = (Inr 20, o1)"
    and l1: "length o1 = length out"
    and f1: "o1 ! 0 = 0x45" "be16_at o1 2 = word_of_nat (20 + (36 + ?k))" "be16_at o1 6 = 0x4000"
      "o1 ! 9 = IPPROTO_ICMP" "subslice 12 16 o1 = d" "subslice 16 20 o1 = s" "checksum (take 20 o1) = 0"
    using assms by (auto intro: write_ipv4_header_ok [of out "36 + ?k" d s IPPROTO_ICMP 0])
  define icmp where "icmp = ipv4_error_fields err (replicate (36 + ?k) 0)"
  have e: "length icmp = 36 + ?k" "subslice 2 4 icmp = [0, 0]" "icmp ! 0 = 3"
    using error_fields_ok(1-3) [of "36 + ?k" err] by (simp_all add: icmp_def)
  obtain part where w2: "write_ipv4_header s d IPPROTO_UDP (8 + n) 0 (drop 8 icmp) = (Inr 20, part)"
    and l2: "length part = 28 + ?k" and f2: "subslice 12 16 part = s" "subslice 16 20 part = d"
    using assms e(1) by (auto intro: write_ipv4_header_ok [of "drop 8 icmp" "8 + n" s d IPPROTO_UDP 0])
  define q where "q = quote_icmp 20 sp dp (8 + n) prefix icmp part"
  have hyps: "length icmp = 16 + 20 + ?k" "length part = 20 + 8 + ?k" "20 \<le> (20 :: nat)"
    using e(1) l2 by simp_all
  note q = quote_icmp_ok [OF hyps, where sp = sp and dp = dp and n = "8 + n", folded q_def]
  define body where "body = copy_at 2 (u16_to_be (checksum q)) q"
  have lb: "length body = 36 + ?k" using q(1) by (simp add: body_def)
  have ck: "checksum body = 0"
    using plain_csum.stored_verifies [of q 2] q(1,2) e(2) assms by (simp add: body_def)
  let ?out' = "copy_at 20 body o1"
  have "write_ipv4_udp_error s d sp dp prefix n err out = (Inr (56 + ?k), ?out')"
    using assms w1 w2 l1 e(1)
    by (simp add: write_ipv4_udp_error_def Let_def IPV4_HEADER_LEN_def UDP_HEADER_LEN_def
        ICMP_HEADER_LEN_def checked_add_usize_def fill_all icmp_def [symmetric]
        body_def q_def quote_icmp_def)
  moreover have "ipv4_parse (take (20 + (36 + ?k)) ?out') =
      Inr \<lparr>v4_bytes = take (20 + (36 + ?k)) ?out', v4_header_len = 20, v4_total_len = 20 + (36 + ?k)\<rparr>"
    using assms l1 lb f1 by (intro ipv4_parse_plain) (simp_all add: field_simps_rw del: of_nat_add)
  moreover have "subslice 20 (56 + ?k) ?out' = body"
    using lb l1 assms by (simp add: field_simps_rw)
  moreover have "subslice 12 16 ?out' = d" "subslice 16 20 ?out' = s" "?out' ! 9 = IPPROTO_ICMP"
    using f1 l1 assms by (simp_all add: field_simps_rw)
  moreover have "body ! 0 = 3" "subslice 20 24 body = s" "subslice 24 28 body = d"
    "be16_at body 28 = sp" "be16_at body 30 = dp" "drop 36 body = prefix"
    using q e f2 by (simp_all add: body_def field_simps_rw q(4) [of 16 12, simplified] q(4) [of 20 16, simplified])
  ultimately show ?thesis
    using ck by (auto simp: ipv4_source_def ipv4_destination_def ipv4_protocol_def ipv4_payload_def
        slice_take)
qed

lemma write_ipv6_udp_error_ok:
  assumes "length s = 16" and "length d = 16" and "length prefix \<le> 65479" and "n \<le> 65527"
    and "96 + length prefix \<le> length out"
  shows "\<exists>out' p. write_ipv6_udp_error s d sp dp prefix n err out = (Inr (96 + length prefix), out') \<and>
     ipv6_parse (take (96 + length prefix) out') = Inr p \<and>
     ipv6_source p = d \<and> ipv6_destination p = s \<and> ipv6_next_header p = IPPROTO_ICMPV6 \<and>
     ipv6_transport d s IPPROTO_ICMPV6 (ipv6_payload p) = 0 \<and>
     ipv6_payload p ! 0 = (case err of DestinationUnreachable _ \<Rightarrow> 1 | PacketTooBig _ \<Rightarrow> 2) \<and>
     subslice 16 32 (ipv6_payload p) = s \<and> subslice 32 48 (ipv6_payload p) = d \<and>
     be16_at (ipv6_payload p) 48 = sp \<and> be16_at (ipv6_payload p) 50 = dp \<and>
     drop 56 (ipv6_payload p) = prefix"
proof -
  let ?k = "length prefix" and ?t = "(case err of DestinationUnreachable _ \<Rightarrow> 1 | PacketTooBig _ \<Rightarrow> 2) :: u8"
  obtain o1 where w1: "write_ipv6_header d s IPPROTO_ICMPV6 (56 + ?k) out = (Inr 40, o1)"
    and l1: "length o1 = length out"
    and f1: "o1 ! 0 = 0x60" "be16_at o1 4 = word_of_nat (56 + ?k)" "o1 ! 6 = IPPROTO_ICMPV6"
      "subslice 8 24 o1 = d" "subslice 24 40 o1 = s"
    using assms by (auto intro: write_ipv6_header_ok [of out "56 + ?k" d s IPPROTO_ICMPV6])
  define icmp where "icmp = ipv6_error_fields err (replicate (56 + ?k) 0)"
  have e: "length icmp = 56 + ?k" "subslice 2 4 icmp = [0, 0]" "icmp ! 0 = ?t"
    using error_fields_ok(4-6) [of "56 + ?k" err] by (simp_all add: icmp_def)
  obtain part where w2: "write_ipv6_header s d IPPROTO_UDP (8 + n) (drop 8 icmp) = (Inr 40, part)"
    and l2: "length part = 48 + ?k" and f2: "subslice 8 24 part = s" "subslice 24 40 part = d"
    using assms e(1) by (auto intro: write_ipv6_header_ok [of "drop 8 icmp" "8 + n" s d IPPROTO_UDP])
  define q where "q = quote_icmp 40 sp dp (8 + n) prefix icmp part"
  have hyps: "length icmp = 16 + 40 + ?k" "length part = 40 + 8 + ?k" "20 \<le> (40 :: nat)"
    using e(1) l2 by simp_all
  note q = quote_icmp_ok [OF hyps, where sp = sp and dp = dp and n = "8 + n", folded q_def]
  define body where "body = copy_at 2 (u16_to_be (ipv6_transport d s IPPROTO_ICMPV6 q)) q"
  have lb: "length body = 56 + ?k" using q(1) by (simp add: body_def)
  have ck: "ipv6_transport d s IPPROTO_ICMPV6 body = 0"
    using v6_csum.stored_verifies [of "(d, s, IPPROTO_ICMPV6)" q 2] q(1,2) e(2) assms
    by (simp add: body_def v6_context_def)
  let ?out' = "copy_at 40 body o1"
  have "write_ipv6_udp_error s d sp dp prefix n err out = (Inr (96 + ?k), ?out')"
    using assms w1 w2 l1 e(1)
    by (simp add: write_ipv6_udp_error_def Let_def IPV6_HEADER_LEN_def UDP_HEADER_LEN_def
        ICMP_HEADER_LEN_def checked_add_usize_def fill_all icmp_def [symmetric]
        body_def q_def quote_icmp_def)
  moreover have "ipv6_parse (take (40 + (56 + ?k)) ?out') =
      Inr \<lparr>v6_bytes = take (40 + (56 + ?k)) ?out', v6_payload_offset = 40, v6_total_len = 40 + (56 + ?k),
        v6_next_header = ?out' ! 6\<rparr>"
    using assms l1 lb f1 by (intro ipv6_parse_plain)
      (simp_all add: field_simps_rw is_extension_def IPPROTO_ICMPV6_def del: of_nat_add)
  moreover have "subslice 40 (96 + ?k) ?out' = body"
    using lb l1 assms by (simp add: field_simps_rw)
  moreover have "subslice 8 24 ?out' = d" "subslice 24 40 ?out' = s" "?out' ! 6 = IPPROTO_ICMPV6"
    using f1 l1 assms by (simp_all add: field_simps_rw)
  moreover have "body ! 0 = ?t" "subslice 16 32 body = s" "subslice 32 48 body = d"
    "be16_at body 48 = sp" "be16_at body 50 = dp" "drop 56 body = prefix"
    using q e f2 by (simp_all add: body_def field_simps_rw q(4) [of 24 8, simplified] q(4) [of 40 24, simplified])
  ultimately show ?thesis
    using ck by (auto simp: ipv6_source_def ipv6_destination_def ipv6_next_header_def ipv6_payload_def
        slice_take)
qed

text \<open>
  For a datagram from \<open>s\<close> to \<open>d\<close> that fits its family, \<open>write_udp_error\<close> produces an ICMP error that
  the crate's own parser accepts as a packet from \<open>d\<close> to \<open>s\<close>, with a valid ICMP checksum, the
  error's type, and a quote of the original addresses, ports and payload prefix (at most 8
  bytes over IPv4); datagrams whose endpoints differ in family are refused unwritten.
\<close>

theorem udp_error_valid:
  assumes "length s4 = 4" and "length d4 = 4" and "n \<le> 65507" and "64 \<le> length out"
    and "length s6 = 16" and "length d6 = 16" and "length prefix \<le> 65479"
    and "96 + length prefix \<le> length out"
  shows "(\<exists>len out' p. write_udp_error (AddrV4 s4 sp) (AddrV4 d4 dp) prefix n err out = (Inr len, out') \<and>
      ipv4_parse (take len out') = Inr p \<and> ipv4_source p = d4 \<and> ipv4_destination p = s4 \<and>
      ipv4_protocol p = IPPROTO_ICMP \<and> checksum (ipv4_payload p) = 0 \<and> ipv4_payload p ! 0 = 3 \<and>
      subslice 20 24 (ipv4_payload p) = s4 \<and> subslice 24 28 (ipv4_payload p) = d4 \<and>
      be16_at (ipv4_payload p) 28 = sp \<and> be16_at (ipv4_payload p) 30 = dp \<and>
      drop 36 (ipv4_payload p) = take 8 prefix) \<and>
    (\<exists>len out' p. write_udp_error (AddrV6 s6 sp f1 c1) (AddrV6 d6 dp f2 c2) prefix n err out = (Inr len, out') \<and>
      ipv6_parse (take len out') = Inr p \<and> ipv6_source p = d6 \<and> ipv6_destination p = s6 \<and>
      ipv6_next_header p = IPPROTO_ICMPV6 \<and>
      ipv6_transport d6 s6 IPPROTO_ICMPV6 (ipv6_payload p) = 0 \<and>
      ipv6_payload p ! 0 = (case err of DestinationUnreachable _ \<Rightarrow> 1 | PacketTooBig _ \<Rightarrow> 2) \<and>
      subslice 16 32 (ipv6_payload p) = s6 \<and> subslice 32 48 (ipv6_payload p) = d6 \<and>
      be16_at (ipv6_payload p) 48 = sp \<and> be16_at (ipv6_payload p) 50 = dp \<and>
      drop 56 (ipv6_payload p) = prefix) \<and>
    write_udp_error (AddrV4 s4 sp) (AddrV6 d6 dp f2 c2) prefix n err out = (Inl ProtocolMismatch, out)"
proof (intro conjI)
  have "take (min (length prefix) 8) prefix = take 8 prefix" by (simp add: min_def)
  then show "\<exists>len out' p. write_udp_error (AddrV4 s4 sp) (AddrV4 d4 dp) prefix n err out = (Inr len, out') \<and>
      ipv4_parse (take len out') = Inr p \<and> ipv4_source p = d4 \<and> ipv4_destination p = s4 \<and>
      ipv4_protocol p = IPPROTO_ICMP \<and> checksum (ipv4_payload p) = 0 \<and> ipv4_payload p ! 0 = 3 \<and>
      subslice 20 24 (ipv4_payload p) = s4 \<and> subslice 24 28 (ipv4_payload p) = d4 \<and>
      be16_at (ipv4_payload p) 28 = sp \<and> be16_at (ipv4_payload p) 30 = dp \<and>
      drop 36 (ipv4_payload p) = take 8 prefix"
    using write_ipv4_udp_error_ok [of s4 d4 "take 8 prefix" n out sp dp err] assms
    by (auto simp: min_def split: if_splits)
  show "\<exists>len out' p. write_udp_error (AddrV6 s6 sp f1 c1) (AddrV6 d6 dp f2 c2) prefix n err out = (Inr len, out') \<and>
      ipv6_parse (take len out') = Inr p \<and> ipv6_source p = d6 \<and> ipv6_destination p = s6 \<and>
      ipv6_next_header p = IPPROTO_ICMPV6 \<and>
      ipv6_transport d6 s6 IPPROTO_ICMPV6 (ipv6_payload p) = 0 \<and>
      ipv6_payload p ! 0 = (case err of DestinationUnreachable _ \<Rightarrow> 1 | PacketTooBig _ \<Rightarrow> 2) \<and>
      subslice 16 32 (ipv6_payload p) = s6 \<and> subslice 32 48 (ipv6_payload p) = d6 \<and>
      be16_at (ipv6_payload p) 48 = sp \<and> be16_at (ipv6_payload p) 50 = dp \<and>
      drop 56 (ipv6_payload p) = prefix"
    using write_ipv6_udp_error_ok [of s6 d6 prefix n out sp dp err] assms by auto
qed simp

theorem udp_error_valid_witness:
  "\<exists>len out' p. write_udp_error (AddrV4 [192, 0, 2, 2] 40000) (AddrV4 [198, 51, 100, 7] 9)
       (replicate 11 97) 11 (DestinationUnreachable 3) (replicate 128 0) = (Inr len, out') \<and>
      ipv4_parse (take len out') = Inr p \<and> ipv4_source p = [198, 51, 100, 7] \<and>
      drop 36 (ipv4_payload p) = take 8 (replicate 11 97)"
  using udp_error_valid [of "[192, 0, 2, 2]" "[198, 51, 100, 7]" 11 "replicate 128 0" "replicate 16 1"
      "replicate 16 2" "replicate 11 97" 40000 9 "DestinationUnreachable 3" 0 0 0 0]
  by (simp del: take_replicate write_udp_error.simps) blast

end
