(* ===== verification/Reactor_Core.thy ===== *)
theory Reactor_Core
  imports Reactor_Frames Reactor_Queues Flow_Table Hash_Map Dns_Engine Udp_Engine Socks5_Udp Icmp
begin

text \<open>
  The TCP state of a worker and its TAP queue (\<open>crates/dataplane/src/reactor.rs\<close>): flow entries, queued
  frames, the byte budgets, and the operations that move a frame from a pool to the TAP device. An
  operation is an action on the reactor: \<open>None\<close> is a panic, \<open>Inl\<close> an \<open>Err\<close> that the \<open>?\<close> operator hands
  on. Either way the changes made before it stay, as they do in the source; that matters because
  \<open>handle_tap\<close> drops the errors of a frame and goes on.

  The system calls are scripts: each call takes the next answer of its list, and an exhausted list
  answers \<open>WouldBlock\<close>. The properties hold for all scripts, so for every behaviour of the kernel. What the
  kernel documents is built into the calls: it does not take or return more bytes than it was offered
  or asked for. The bytes given to an upstream socket and to the TAP device are logged. Of the
  metrics only the pool exhaustion counters are kept; the others are reported and never read.
\<close>

named_theorems stable \<open>actions that leave a view of the state as it is\<close>

section \<open>System calls\<close>

datatype 'a io = Complete 'a | WouldBlock | Failed

text \<open>
  On a datagram socket a refused destination (\<open>ECONNREFUSED\<close>) is told from other errors. A message of the
  error queue is what \<open>receive_udp_error\<close> makes of it.
\<close>

datatype 'a datagram_io = Done 'a | Busy | Refused | Broken

record udp_report =
  report_ipv6 :: bool
  report_origin :: u8
  report_kind :: u8
  report_code :: u8
  report_info :: u32
  has_packet_info :: bool

record kernel =
  k_tap_write :: "usize io list"
  k_epoll :: "unit io list"
  k_send :: "usize io list"
  k_peek :: "bytes io list"
  k_discard :: "usize io list"
  k_sockopt :: "unit io list"
  k_error :: "bool io list"
  k_info :: "u64 io list"
  k_drain :: "(usize \<times> usize) io list"
  k_connect :: "(nat \<times> bool) io list"
  k_local :: "socket_addr io list"
  k_sizes :: "(usize \<times> usize) io list"
  k_random :: "u32 io list"
  k_poll :: "bool io list"
  k_tap_read :: "bytes io list"
  k_recv :: "bytes io list"
  k_datagram :: "bytes datagram_io list"
  k_udp_send :: "usize datagram_io list"
  k_udp_connect :: "nat io list"
  k_udp_report :: "udp_report option io list"
  k_jitter :: "duration io list"
  k_control :: "bytes io list"
  k_packet :: "usize io list"
  k_timer :: "unit io list"
  k_clock :: "instant list"
  tap_log :: "bytes list"
  sent_log :: "(nat \<times> bytes) list"
  datagram_log :: "(nat \<times> bytes) list"
  packet_log :: "bytes list"

section \<open>State\<close>

definition TAP_TX_BUDGET :: nat where "TAP_TX_BUDGET = 32"
definition PROXY_RESPONSE_CAPACITY :: usize where "PROXY_RESPONSE_CAPACITY = 8 * 1024"
definition SOCKS_UDP_QUEUE_BYTES :: usize where "SOCKS_UDP_QUEUE_BYTES = 64 * 1024"
definition DNS_WRITE_BUFFER_LIMIT :: usize where "DNS_WRITE_BUFFER_LIMIT = 64 * 1024"
definition DNS_READ_BUFFER_LIMIT :: usize where "DNS_READ_BUFFER_LIMIT = 128 * 1024"

record flow_entry =
  entry_flow :: flow
  construction :: flow_construction
  socket :: nat
  transport_connected :: bool
  armed_socket_interest :: u32
  entry_handshake :: "handshake option"
  pending_socket :: pending_queue
  pending_shutdown :: bool
  sent_segments :: "sent_segment list"
  upstream_window_clamp :: "u32 option"
  entry_probe :: "zero_window_probe option"
  last_namespace_byte :: "u8 option"
  socket_receive_buffer_bytes :: usize
  socket_send_buffer_bytes :: usize

record queued_frame =
  qf_flow :: "flow_id option"
  qf_frame :: pooled_frame
  qf_plan :: "send_plan option"
  reserved_retained :: usize

text \<open>The resolver connection and its buffers.\<close>

datatype dns_connection = DnsIdle | DnsConnecting nat bool "handshake option" | DnsReady nat

record resolver =
  engine :: dns_engine
  connection :: dns_connection
  dns_write_buffer :: bytes
  dns_read_buffer :: bytes
  dns_last_activity :: instant

text \<open>
  Datagram flows: the sockets of the direct ones and the SOCKS5 associations that carry the others. The
  fixed array and length of \<open>UdpSocketEntry::payload_prefix\<close> are one list. The receive buffers of the source
  are scratch space whose length is a function of the configuration.
\<close>

record udp_socket_entry =
  udp_socket :: nat
  payload_prefix :: bytes
  datagram_len :: usize

datatype association_state = SocksBackoff | SocksConnecting | SocksHandshaking | SocksPendingActivation | SocksReady

record socks_association =
  sa_key :: association_key
  sa_state :: association_state
  sa_control :: "nat option"
  sa_relay :: "nat option"
  sa_handshake :: "handshake option"
  sa_response :: bytes
  sa_pending :: "(socket_addr \<times> bytes) list"
  sa_pending_bytes :: usize
  tx_buffer :: bytes
  retry_attempt :: u8
  retry_at :: instant

record datagrams =
  forwarder :: udp_engine
  udp_sockets :: "(flow_id, udp_socket_entry) hash_map"
  socks_associations :: "socks_association flow_table"
  socks_by_key :: "(association_key, flow_id) hash_map"

record reactor =
  r_config :: reactor_config
  big_endian :: bool
  tcp_flows :: "flow_entry flow_table"
  by_key :: "(flow_key, flow_id) hash_map"
  frames :: tap_frames
  tap_queue :: "queued_frame list"
  test_drop_tcp_data :: usize
  test_drop_tcp_retransmit :: usize
  test_drop_tcp_syn_ack :: usize
  test_drop_tcp_fin :: usize
  test_drop_tcp_ack :: usize
  test_drop_tcp_fin_ack :: usize
  test_suppress_event_ack_refresh :: usize
  test_local_isn :: "u32 option"
  pending_socket_bytes :: usize
  retained_socket_bytes :: usize
  pending_pressure :: bool
  pending_pressure_dirty :: bool
  ack_refresh_queue :: "flow_id list"
  timer_cursor_slot :: u32
  resolver :: resolver
  datagrams :: datagrams
  shutting_down :: bool
  kern :: kernel

section \<open>Actions\<close>

type_synonym 'a act = "reactor \<Rightarrow> ((reactor_error + 'a) \<times> reactor) option"

definition ret :: "'a \<Rightarrow> 'a act" where
  "ret x s = Some (Inr x, s)"

definition raise :: "reactor_error \<Rightarrow> 'a act" where
  "raise e s = Some (Inl e, s)"

definition andThen :: "'a act \<Rightarrow> ('a \<Rightarrow> 'b act) \<Rightarrow> 'b act" where
  "andThen m f s =
     (case m s of
        None \<Rightarrow> None
      | Some (Inl e, s) \<Rightarrow> Some (Inl e, s)
      | Some (Inr x, s) \<Rightarrow> f x s)"

definition gets :: "(reactor \<Rightarrow> 'a) \<Rightarrow> 'a act" where
  "gets f s = Some (Inr (f s), s)"

definition change :: "(reactor \<Rightarrow> reactor) \<Rightarrow> unit act" where
  "change f s = Some (Inr (), f s)"

definition only_if :: "bool \<Rightarrow> unit act \<Rightarrow> unit act" where
  "only_if b m = (if b then m else ret ())"

definition expect :: "'a option \<Rightarrow> 'a act" where
  "expect x s = map_option (\<lambda>x. (Inr x, s)) x"

text \<open>\<open>flows.get(id)\<close> and \<open>flows.get_mut(id)\<close> with \<open>expect("flow exists")\<close>.\<close>

definition fetch :: "flow_id \<Rightarrow> flow_entry act" where
  "fetch fid s = map_option (\<lambda>e. (Inr e, s)) (table_get (tcp_flows s) fid)"

definition amend :: "flow_id \<Rightarrow> (flow_entry \<Rightarrow> flow_entry) \<Rightarrow> unit act" where
  "amend fid g s = map_option (\<lambda>_. (Inr (), s\<lparr>tcp_flows := table_modify fid g (tcp_flows s)\<rparr>))
     (table_get (tcp_flows s) fid)"

definition on_frames :: "(tap_frames \<Rightarrow> ((reactor_error + 'a) \<times> tap_frames) option) \<Rightarrow> 'a act" where
  "on_frames g s = map_option (\<lambda>(r, t). (r, s\<lparr>frames := t\<rparr>)) (g (frames s))"

definition release :: "pooled_frame \<Rightarrow> unit act" where
  "release f = on_frames (\<lambda>t. map_option (Pair (Inr ())) (release_frame f t))"

text \<open>One system call: \<open>sel\<close> and \<open>upd\<close> are the script of its answers.\<close>

definition call :: "(kernel \<Rightarrow> 'a io list) \<Rightarrow> (('a io list \<Rightarrow> 'a io list) \<Rightarrow> kernel \<Rightarrow> kernel) \<Rightarrow> 'a io act" where
  "call sel upd s =
     (case sel (kern s) of
        [] \<Rightarrow> Some (Inr WouldBlock, s)
      | a # _ \<Rightarrow> Some (Inr a, s\<lparr>kern := upd tl (kern s)\<rparr>))"

text \<open>A call whose error, whatever it is, goes to the caller.\<close>

definition must :: "'a io act \<Rightarrow> 'a act" where
  "must m = andThen m (\<lambda>r. case r of Complete x \<Rightarrow> ret x | _ \<Rightarrow> raise Io)"

definition now :: "instant act" where
  "now s = (case k_clock (kern s) of
              [] \<Rightarrow> Some (Inr 0, s)
            | t # ts \<Rightarrow> Some (Inr t, s\<lparr>kern := (kern s)\<lparr>k_clock := ts\<rparr>\<rparr>))"

definition sys_tap_write :: "bytes \<Rightarrow> usize io act" where
  "sys_tap_write bs = andThen (call k_tap_write k_tap_write_update)
     (\<lambda>r. case map_io (\<lambda>n. min n (length bs)) r of
            Complete n \<Rightarrow> andThen (change (kern_update (tap_log_update (\<lambda>l. l @ [take n bs])))) (\<lambda>_. ret (Complete n))
          | e \<Rightarrow> ret e)"

definition sys_send :: "nat \<Rightarrow> bytes \<Rightarrow> usize io act" where
  "sys_send fd bs = andThen (call k_send k_send_update)
     (\<lambda>r. case map_io (\<lambda>n. min n (length bs)) r of
            Complete n \<Rightarrow> andThen (change (kern_update (sent_log_update (\<lambda>l. l @ [(fd, take n bs)])))) (\<lambda>_. ret (Complete n))
          | e \<Rightarrow> ret e)"

definition sys_peek :: "usize \<Rightarrow> bytes io act" where
  "sys_peek capacity = andThen (call k_peek k_peek_update) (\<lambda>r. ret (map_io (take capacity) r))"

definition sys_discard :: "usize \<Rightarrow> usize io act" where
  "sys_discard n = andThen (call k_discard k_discard_update) (\<lambda>r. ret (map_io (min n) r))"

definition sys_epoll :: "unit act" where
  "sys_epoll = must (call k_epoll k_epoll_update)"

definition sys_sockopt :: "unit act" where
  "sys_sockopt = must (call k_sockopt k_sockopt_update)"

definition sys_error :: "bool act" where
  "sys_error = must (call k_error k_error_update)"

section \<open>Byte budgets\<close>

definition reserve_retained_bytes :: "usize \<Rightarrow> bool act" where
  "reserve_retained_bytes len =
     andThen (gets (\<lambda>s. max_retained_tcp_bytes (r_config s) - retained_socket_bytes s)) (\<lambda>room.
       if len > room then ret False
       else andThen (change (retained_socket_bytes_update (\<lambda>n. n + len))) (\<lambda>_. ret True))"

definition release_retained_bytes :: "usize \<Rightarrow> unit act" where
  "release_retained_bytes len = change (retained_socket_bytes_update (\<lambda>n. n - len))"

definition update_pending_pressure_state :: "unit act" where
  "update_pending_pressure_state = change (\<lambda>s.
     let pressured = pending_pressure_state (pending_pressure s) (pending_socket_bytes s)
           (max_pending_tcp_bytes (r_config s))
     in if pressured \<noteq> pending_pressure s
        then s\<lparr>pending_pressure := pressured, pending_pressure_dirty := True\<rparr> else s)"

section \<open>The TAP queue\<close>

definition update_tap_interest :: "unit act" where
  "update_tap_interest = andThen (gets (\<lambda>s.
       (if pool_available (frame_pool (frames s)) > 0 then READABLE else 0) OR
       (if tap_queue s \<noteq> [] then WRITABLE else 0))) (\<lambda>events.
     if events = 0 then raise (Invariant ''TAP has neither read nor write capacity'')
     else sys_epoll)"

text \<open>The bookkeeping of a transmission that counts: \<open>commit_tap_send\<close> before it releases the frame.\<close>

definition commit_plan :: "flow_id \<Rightarrow> send_plan \<Rightarrow> unit act" where
  "commit_plan fid plan = andThen (gets (\<lambda>s. table_get (tcp_flows s) fid)) (\<lambda>r.
     case r of
       None \<Rightarrow> raise (Invariant ''flow closed before TAP commit'')
     | Some entry \<Rightarrow>
         let fl = (if plan_length plan > 0 \<or> plan_fin plan then commit_send plan (entry_flow entry)
                   else entry_flow entry);
             sequence_length = distance (plan_sequence plan) (local_next fl);
             expected = word_of_nat (plan_length plan) + of_bool (plan_syn plan) + of_bool (plan_fin plan)
         in andThen (amend fid (entry_flow_update (\<lambda>_. fl))) (\<lambda>_.
              if sequence_length \<noteq> expected \<or> expected = 0
              then raise (Invariant ''TAP transmission sequence commitment mismatch'')
              else andThen now (\<lambda>t. amend fid (sent_segments_update (\<lambda>segs. segs @
                [\<lparr>seg_sequence = plan_sequence plan, payload_len = plan_length plan, seg_syn = plan_syn plan,
                  seg_fin = plan_fin plan, last_sent = t, retransmit_timeout = RETRANSMIT_INITIAL,
                  retries = 0\<rparr>])))))"

definition commit_tap_send :: "flow_id option \<Rightarrow> pooled_frame \<Rightarrow> send_plan option \<Rightarrow> unit act" where
  "commit_tap_send flow_of f plan_of =
     andThen (case (flow_of, plan_of) of (Some fid, Some plan) \<Rightarrow> commit_plan fid plan | _ \<Rightarrow> ret ())
       (\<lambda>_. release f)"

text \<open>The transmissions that the test knobs of a debug build drop: counted down, committed, not written.\<close>

definition injected_drop :: "send_plan option \<Rightarrow> bool act" where
  "injected_drop plan_of = andThen (gets (\<lambda>s. s)) (\<lambda>s.
     case (tap_queue s, plan_of) of
       ([], Some plan) \<Rightarrow>
         (if plan_syn plan \<and> test_drop_tcp_syn_ack s > 0
          then andThen (change (test_drop_tcp_syn_ack_update (\<lambda>n. n - 1))) (\<lambda>_. ret True)
          else if plan_fin plan \<and> test_drop_tcp_fin s > 0
          then andThen (change (test_drop_tcp_fin_update (\<lambda>n. n - 1))) (\<lambda>_. ret True)
          else if plan_length plan > 0 \<and> test_drop_tcp_data s > 0
          then andThen (change (test_drop_tcp_data_update (\<lambda>n. n - 1))) (\<lambda>_. ret True)
          else if \<not> plan_syn plan \<and> \<not> plan_fin plan \<and> plan_length plan = 0 \<and> test_drop_tcp_ack s > 0
          then andThen (change (test_drop_tcp_ack_update (\<lambda>n. n - 1))) (\<lambda>_. ret True)
          else ret False)
     | _ \<Rightarrow> ret False)"

text \<open>A write that failed for good: the reservation and the frame are given back.\<close>

definition abandon :: "usize \<Rightarrow> pooled_frame \<Rightarrow> reactor_error \<Rightarrow> 'a act" where
  "abandon reserved f e = andThen (release_retained_bytes reserved) (\<lambda>_. andThen (release f) (\<lambda>_. raise e))"

definition queue_tap :: "flow_id option \<Rightarrow> pooled_frame \<Rightarrow> send_plan option \<Rightarrow> unit act" where
  "queue_tap flow_of f plan_of =
     (let reserved = (case plan_of of None \<Rightarrow> 0 | Some plan \<Rightarrow> plan_length plan);
          bs = fb_contents (pf_buffer f);
          enqueue = andThen (change (tap_queue_update (\<lambda>q. q @
            [\<lparr>qf_flow = flow_of, qf_frame = f, qf_plan = plan_of, reserved_retained = reserved\<rparr>])))
            (\<lambda>_. update_tap_interest)
      in andThen (reserve_retained_bytes reserved) (\<lambda>reserved_ok.
           if \<not> reserved_ok then
             andThen (release f) (\<lambda>_. raise (Invariant ''retained TCP reservation exceeded hard limit''))
           else andThen (injected_drop plan_of) (\<lambda>dropped.
             if dropped then commit_tap_send flow_of f plan_of
             else andThen (gets tap_queue) (\<lambda>q.
               if q \<noteq> [] then enqueue
               else andThen (sys_tap_write bs) (\<lambda>r.
                 case r of
                   Complete written \<Rightarrow>
                     if written = length bs then commit_tap_send flow_of f plan_of
                     else abandon reserved f (Invariant ''short TAP frame write'')
                 | WouldBlock \<Rightarrow> enqueue
                 | Failed \<Rightarrow> abandon reserved f Io)))))"

text \<open>The loop of \<open>flush_tap_queue\<close>, for at most the given number of frames.\<close>

fun flush_tap_loop :: "nat \<Rightarrow> unit act" where
  "flush_tap_loop 0 = ret ()"
| "flush_tap_loop (Suc n) = andThen (gets tap_queue) (\<lambda>q.
     case q of
       [] \<Rightarrow> ret ()
     | fr # rest \<Rightarrow>
         let bs = fb_contents (pf_buffer (qf_frame fr))
         in andThen (change (tap_queue_update tl)) (\<lambda>_. andThen (sys_tap_write bs) (\<lambda>r.
              case r of
                Complete written \<Rightarrow>
                  if written = length bs
                  then andThen (commit_tap_send (qf_flow fr) (qf_frame fr) (qf_plan fr)) (\<lambda>_. flush_tap_loop n)
                  else abandon (reserved_retained fr) (qf_frame fr) (Invariant ''short TAP frame write'')
              | WouldBlock \<Rightarrow> change (tap_queue_update (\<lambda>q. fr # q))
              | Failed \<Rightarrow> abandon (reserved_retained fr) (qf_frame fr) Io)))"

definition flush_tap_queue :: "unit act" where
  "flush_tap_queue = andThen (flush_tap_loop TAP_TX_BUDGET) (\<lambda>_. update_tap_interest)"

section \<open>Frames for a flow\<close>

text \<open>
  The functions of \<open>Reactor_Frames\<close> on the entry of a flow; \<open>flow_frame_parameters\<close> of the source
  reports a missing flow as an error.
\<close>

definition flow_frame :: "flow_id \<Rightarrow> send_plan \<Rightarrow> bytes \<Rightarrow> tcp_flags \<Rightarrow> pooled_frame act" where
  "flow_frame fid plan payload flags = andThen (gets (\<lambda>s. s)) (\<lambda>s.
     case table_get (tcp_flows s) fid of
       None \<Rightarrow> raise (Invariant ''flow disappeared'')
     | Some e \<Rightarrow> on_frames (build_flow_frame (big_endian s) (r_config s) (entry_flow e) (construction e) plan payload flags))"

definition finish_payload_frame :: "flow_id \<Rightarrow> pooled_frame \<Rightarrow> send_plan \<Rightarrow> tcp_flags \<Rightarrow> usize \<Rightarrow> pooled_frame act" where
  "finish_payload_frame fid f plan flags len = andThen (gets (\<lambda>s. s)) (\<lambda>s.
     case table_get (tcp_flows s) fid of
       None \<Rightarrow> andThen (release f) (\<lambda>_. raise (Invariant ''flow disappeared''))
     | Some e \<Rightarrow> on_frames (finalize_flow_payload_frame (big_endian s) (r_config s) (entry_flow e) (construction e) f plan flags len))"

definition reset_frame :: "flow_key \<Rightarrow> u32 \<Rightarrow> pooled_frame act" where
  "reset_frame key acknowledgment = andThen (gets (\<lambda>s. s)) (\<lambda>s.
     on_frames (build_reset (big_endian s) (r_config s) key acknowledgment))"

text \<open>\<open>active_sides().ok_or(..)?.namespace_key()\<close>.\<close>

definition active_key :: "string \<Rightarrow> flow_entry \<Rightarrow> flow_key act" where
  "active_key msg e = andThen (expect (active_sides (construction e))) (\<lambda>sides.
     case sides of None \<Rightarrow> raise (Invariant msg) | Some sides \<Rightarrow> ret (namespace_key sides))"

definition send_ack_kind :: "flow_id \<Rightarrow> bool \<Rightarrow> unit act" where
  "send_ack_kind fid fin_ack = andThen (fetch fid) (\<lambda>e.
     let plan = \<lparr>plan_sequence = local_next (entry_flow e), plan_acknowledgment = namespace_acked (entry_flow e),
                 plan_length = 0, plan_syn = False, plan_fin = False\<rparr>
     in andThen (flow_frame fid plan [] (no_flags\<lparr>fl_ack := True\<rparr>)) (\<lambda>f.
          andThen (gets test_drop_tcp_fin_ack) (\<lambda>drops.
            if fin_ack \<and> drops > 0
            then andThen (change (test_drop_tcp_fin_ack_update (\<lambda>n. n - 1))) (\<lambda>_. release f)
            else queue_tap None f (Some plan))))"

definition send_ack :: "flow_id \<Rightarrow> unit act" where
  "send_ack fid = send_ack_kind fid False"

definition send_fin_ack :: "flow_id \<Rightarrow> unit act" where
  "send_fin_ack fid = send_ack_kind fid True"

definition send_reset_for_flow :: "flow_id \<Rightarrow> unit act" where
  "send_reset_for_flow fid = andThen (fetch fid) (\<lambda>e.
     andThen (active_key ''inactive flow reached reset builder'' e) (\<lambda>key.
       andThen (reset_frame key (namespace_acked (entry_flow e))) (\<lambda>f. queue_tap None f None)))"

section \<open>Closing a flow\<close>

text \<open>The loop over the TAP queue in \<open>close_flow\<close>; the result is what stays queued.\<close>

fun drop_queued :: "flow_id \<Rightarrow> queued_frame list \<Rightarrow> queued_frame list \<Rightarrow> queued_frame list act" where
  "drop_queued fid [] kept = ret kept"
| "drop_queued fid (fr # rest) kept = andThen (change (tap_queue_update tl)) (\<lambda>_.
     if qf_flow fr = Some fid
     then andThen (release_retained_bytes (reserved_retained fr)) (\<lambda>_.
            andThen (release (qf_frame fr)) (\<lambda>_. drop_queued fid rest kept))
     else drop_queued fid rest (kept @ [fr]))"

definition return_budgets :: "flow_entry \<Rightarrow> unit act" where
  "return_budgets e =
     andThen (change (pending_socket_bytes_update (\<lambda>n. n - queue_len (pending_socket e)))) (\<lambda>_.
     andThen update_pending_pressure_state (\<lambda>_.
       release_retained_bytes (sum_list (map payload_len (sent_segments e)))))"

definition retire_flow :: "flow_id \<Rightarrow> unit act" where
  "retire_flow fid = andThen update_tap_interest (\<lambda>_. andThen (amend fid (entry_flow_update flow_close)) (\<lambda>_.
     change (tcp_flows_update (defer_remove fid))))"

definition close_flow :: "flow_id \<Rightarrow> unit act" where
  "close_flow fid = andThen (gets (\<lambda>s. table_get (tcp_flows s) fid)) (\<lambda>r.
     case r of
       None \<Rightarrow> ret ()
     | Some e \<Rightarrow>
         andThen (active_key ''inactive flow reached cleanup'' e) (\<lambda>key.
         andThen sys_epoll (\<lambda>_.
         andThen (change (by_key_update (hm_remove key))) (\<lambda>_.
         andThen (gets tap_queue) (\<lambda>q.
         andThen (drop_queued fid q []) (\<lambda>retained.
         andThen (change (tap_queue_update (\<lambda>_. retained))) (\<lambda>_.
         andThen (return_budgets e) (\<lambda>_. retire_flow fid))))))))"

definition fail_tcp_flow :: "flow_id \<Rightarrow> unit act" where
  "fail_tcp_flow fid = andThen (send_reset_for_flow fid) (\<lambda>_. close_flow fid)"

definition flow_is_closed :: "flow_id \<Rightarrow> bool act" where
  "flow_is_closed fid = gets (\<lambda>s.
     case table_get (tcp_flows s) fid of None \<Rightarrow> True | Some e \<Rightarrow> state (entry_flow e) = Closed)"

definition cleanup_closed :: "unit act" where
  "cleanup_closed s = map_option (\<lambda>(_, t). (Inr (), s\<lparr>tcp_flows := t\<rparr>)) (flush_deferred (tcp_flows s))"

section \<open>The start\<close>

record test_counts =
  count_data :: usize
  count_retransmit :: usize
  count_syn_ack :: usize
  count_fin :: usize
  count_ack :: usize
  count_fin_ack :: usize
  count_suppress :: usize
  count_isn :: "u32 option"
  dns_timeout :: "duration option"

text \<open>\<open>Reactor::new\<close> after its system calls; \<open>None\<close> where it panics. \<open>start\<close> is the clock.\<close>

definition reactor_new :: "reactor_config \<Rightarrow> bool \<Rightarrow> test_counts \<Rightarrow> instant \<Rightarrow> kernel \<Rightarrow> reactor option" where
  "reactor_new c big tests start k =
     (case (frame_capacity c, table_with_capacity (max_tcp_flows c), gso_pool_frames c,
            udp_new (max_udp_flows c) (max_udp_associations c), table_with_capacity (max_udp_associations c)) of
        (Some capacity, Some table, Some gso_frames, Some udp, Some assocs) \<Rightarrow>
          map_option (\<lambda>pool_frames.
            \<lparr>r_config = c, big_endian = big, tcp_flows = table, by_key = [],
             frames = \<lparr>frame_pool = pool_new pool_frames capacity,
                       gso_pool = pool_new gso_frames (gso_frame_capacity c),
                       mtu_frame_capacity = capacity, frame_pool_exhaustions = 0, gso_pool_exhaustions = 0\<rparr>,
             tap_queue = [], test_drop_tcp_data = count_data tests,
             test_drop_tcp_retransmit = count_retransmit tests, test_drop_tcp_syn_ack = count_syn_ack tests,
             test_drop_tcp_fin = count_fin tests, test_drop_tcp_ack = count_ack tests,
             test_drop_tcp_fin_ack = count_fin_ack tests,
             test_suppress_event_ack_refresh = count_suppress tests, test_local_isn = count_isn tests,
             pending_socket_bytes = 0, retained_socket_bytes = 0, pending_pressure = False,
             pending_pressure_dirty = False, ack_refresh_queue = [], timer_cursor_slot = 0,
             resolver = \<lparr>engine = with_query_timeout (case dns_timeout tests of None \<Rightarrow> QUERY_TIMEOUT | Some t \<Rightarrow> t),
                         connection = DnsIdle, dns_write_buffer = [], dns_read_buffer = [],
                         dns_last_activity = start\<rparr>,
             datagrams = \<lparr>forwarder = udp, udp_sockets = [], socks_associations = assocs, socks_by_key = []\<rparr>,
             shutting_down = False, kern = k\<rparr>)
            (frame_pool_frames c capacity)
      | _ \<Rightarrow> None)"

section \<open>Ownership of frames\<close>

text \<open>
  The frames that are out of their pool and in use: those in the TAP queue and those an operation
  holds. Each has its own slot, and a buffer of the size of its pool.
\<close>

definition owned :: "frame_tier \<Rightarrow> pooled_frame list \<Rightarrow> usize list" where
  "owned tr fs = map pf_index (filter (\<lambda>f. pf_tier f = tr) fs)"

definition tier_ok :: "frame_tier \<Rightarrow> usize \<Rightarrow> buffer_pool \<Rightarrow> pooled_frame list \<Rightarrow> bool" where
  "tier_ok tr cap p fs \<longleftrightarrow>
     (\<exists>n held. pool_ok n p held \<and> distinct (owned tr fs) \<and> set (owned tr fs) \<subseteq> held) \<and>
     (\<forall>b. Some b \<in> set (pool_buffers p) \<longrightarrow> fb_capacity b = cap) \<and>
     (\<forall>f \<in> set fs. pf_tier f = tr \<longrightarrow> fb_capacity (pf_buffer f) = cap)"

definition frames_ok :: "reactor_config \<Rightarrow> tap_frames \<Rightarrow> pooled_frame list \<Rightarrow> bool" where
  "frames_ok c t fs \<longleftrightarrow> frame_capacity c = Some (mtu_frame_capacity t) \<and>
     tier_ok Mtu (mtu_frame_capacity t) (frame_pool t) fs \<and>
     tier_ok Gso (gso_frame_capacity c) (gso_pool t) fs"

lemma owned_simps [simp]:
  "owned tr [] = []"
  "owned tr (f # fs) = (if pf_tier f = tr then pf_index f # owned tr fs else owned tr fs)"
  "owned tr (fs @ gs) = owned tr fs @ owned tr gs"
  by (simp_all add: owned_def)

lemma frames_ok_perm:
  assumes "mset fs = mset gs" "frames_ok c t fs"
  shows "frames_ok c t gs"
proof -
  have "mset (owned tr fs) = mset (owned tr gs)" for tr
    using assms(1) by (simp add: owned_def mset_filter)
  then have "set (owned tr fs) = set (owned tr gs)" "distinct (owned tr fs) = distinct (owned tr gs)" for tr
    by (metis set_mset_mset, metis mset_eq_imp_distinct_iff)
  moreover have "set fs = set gs"
    using assms(1) by (metis set_mset_mset)
  ultimately show ?thesis
    using assms(2) by (simp add: frames_ok_def tier_ok_def)
qed

lemma tier_ok_other: "pf_tier f \<noteq> tr \<Longrightarrow> tier_ok tr cap p (f # fs) = tier_ok tr cap p fs"
  by (auto simp: tier_ok_def)

lemma tier_take:
  assumes ok: "tier_ok tr cap p fs" and a: "pool_acquire p = Some (r, p')"
  shows "case r of None \<Rightarrow> tier_ok tr cap p' fs
    | Some (i, b) \<Rightarrow> tier_ok tr cap p' (\<lparr>pf_tier = tr, pf_index = i, pf_buffer = b\<rparr> # fs)"
proof -
  obtain n held where p: "pool_ok n p held" "distinct (owned tr fs)" "set (owned tr fs) \<subseteq> held"
    using ok by (auto simp: tier_ok_def)
  show ?thesis
  proof (cases rule: pool_acquire_cases [OF p(1)])
    case 1
    then show ?thesis
      using a ok by auto
  next
    case (2 i b)
    then have r: "r = Some (i, b)" "p' = p\<lparr>pool_free := butlast (pool_free p), pool_buffers := (pool_buffers p)[i := None]\<rparr>"
      using a by auto
    have t: "pool_ok n p' (insert i held)" "i \<notin> held" "Some b \<in> set (pool_buffers p)"
      using pool_take_ok [OF p(1), of i b p'] a r(1) by auto
    have "Some b' \<in> set (pool_buffers p') \<Longrightarrow> Some b' \<in> set (pool_buffers p)" for b'
      using set_update_subset_insert [of "pool_buffers p" i None] by (auto simp: r(2))
    then show ?thesis
      using ok t p by (auto simp: r(1) tier_ok_def)
  qed
qed

lemma tier_acquire_returns: "tier_ok tr cap p fs \<Longrightarrow> \<exists>r p'. pool_acquire p = Some (r, p')"
  by (auto simp: tier_ok_def elim: pool_acquire_cases)

lemma tier_give:
  assumes ok: "tier_ok tr cap p (f # fs)" and f: "pf_tier f = tr"
  shows "\<exists>p'. pool_release (pf_index f) (pf_buffer f) p = Some p' \<and> tier_ok tr cap p' fs"
proof -
  have "\<exists>n held. pool_ok n p held \<and> distinct (owned tr (f # fs)) \<and> set (owned tr (f # fs)) \<subseteq> held"
    using ok by (simp add: tier_ok_def)
  then obtain n held where p: "pool_ok n p held" "distinct (owned tr fs)"
      "set (owned tr fs) \<subseteq> held - {pf_index f}" "pf_index f \<in> held"
    using f by (elim exE conjE) (simp add: subset_Diff_insert)
  then have "insert (pf_index f) (held - {pf_index f}) = held"
    by blast
  then obtain p' where r: "pool_release (pf_index f) (pf_buffer f) p = Some p'" "pool_ok n p' (held - {pf_index f})"
    using pool_give_ok [of n p "pf_index f" "held - {pf_index f}" "pf_buffer f"] p(1) by auto
  then have "pool_buffers p' = (pool_buffers p)[pf_index f := Some (pf_buffer f)]"
    by (auto simp: pool_release_def split: if_splits)
  then have "Some b \<in> set (pool_buffers p') \<Longrightarrow> b = pf_buffer f \<or> Some b \<in> set (pool_buffers p)" for b
    using set_update_subset_insert [of "pool_buffers p" "pf_index f" "Some (pf_buffer f)"] by auto
  then show ?thesis
    using ok f p r by (auto simp: tier_ok_def)
qed

lemma acquire_frame_ok:
  assumes "frames_ok c t fs"
  shows "\<exists>r t'. acquire_frame t = Some (r, t') \<and>
    (case r of Inl _ \<Rightarrow> frames_ok c t' fs | Inr f \<Rightarrow> frames_ok c t' (f # fs) \<and> pf_tier f = Mtu)"
proof -
  obtain r p' where a: "pool_acquire (frame_pool t) = Some (r, p')"
    using assms tier_acquire_returns by (force simp: frames_ok_def)
  show ?thesis
    using assms tier_take [OF _ a, of Mtu "mtu_frame_capacity t" fs]
    by (cases r) (auto simp: acquire_frame_def a frames_ok_def note_frame_pool_exhaustion_def tier_ok_other)
qed

lemma acquire_payload_frame_ok:
  assumes "frames_ok c t fs"
  shows "\<exists>r t'. acquire_payload_frame n t = Some (r, t') \<and>
    (case r of Inl _ \<Rightarrow> frames_ok c t' fs | Inr f \<Rightarrow> frames_ok c t' (f # fs))"
proof (cases "n > mtu_frame_capacity t")
  case False
  then show ?thesis
    using acquire_frame_ok [OF assms] by (fastforce simp: acquire_payload_frame_def split: sum.splits)
next
  case True
  obtain r p' where a: "pool_acquire (gso_pool t) = Some (r, p')"
    using assms tier_acquire_returns by (force simp: frames_ok_def)
  show ?thesis
  proof (cases r)
    case None
    then have "frames_ok c (t\<lparr>gso_pool := p', gso_pool_exhaustions := gso_pool_exhaustions t + 1\<rparr>) fs"
      using assms tier_take [OF _ a, of Gso "gso_frame_capacity c" fs] by (auto simp: frames_ok_def)
    then show ?thesis
      using acquire_frame_ok True a None by (fastforce simp: acquire_payload_frame_def split: sum.splits)
  next
    case (Some ib)
    then show ?thesis
      using True a assms tier_take [OF _ a, of Gso "gso_frame_capacity c" fs]
      by (cases ib) (auto simp: acquire_payload_frame_def frames_ok_def tier_ok_other)
  qed
qed

lemma release_frame_ok:
  assumes "frames_ok c t (f # fs)"
  shows "\<exists>t'. release_frame f t = Some t' \<and> frames_ok c t' fs"
  using assms tier_give [of Mtu "mtu_frame_capacity t" "frame_pool t" f fs]
    tier_give [of Gso "gso_frame_capacity c" "gso_pool t" f fs]
  by (cases "pf_tier f") (auto simp: frames_ok_def release_frame_def tier_ok_other)

lemma frames_ok_buffer:
  "frames_ok c t (f # fs) \<Longrightarrow> fb_capacity b = fb_capacity (pf_buffer f) \<Longrightarrow> frames_ok c t (f\<lparr>pf_buffer := b\<rparr> # fs)"
  by (cases "pf_tier f") (simp_all add: frames_ok_def tier_ok_def)

lemma frames_ok_capacity:
  "frames_ok c t (f # fs) \<Longrightarrow>
     fb_capacity (pf_buffer f) = (case pf_tier f of Mtu \<Rightarrow> mtu_frame_capacity t | Gso \<Rightarrow> gso_frame_capacity c) \<and>
     frame_capacity c = Some (mtu_frame_capacity t)"
  by (auto simp: frames_ok_def tier_ok_def split: frame_tier.split)

definition config_ok :: "reactor_config \<Rightarrow> bool" where
  "config_ok c \<longleftrightarrow> 1280 \<le> tap_mtu c \<and> tap_mtu c \<le> 65520 \<and> length (target_mac c) = 6 \<and> length (gateway_mac c) = 6 \<and>
     (\<forall>gateway. gateway_ipv4 c = Some gateway \<longrightarrow> length gateway = 4) \<and>
     (\<forall>gateway. gateway_ipv6 c = Some gateway \<longrightarrow> length gateway = 16) \<and>
     (\<forall>server. dns_upstream c = Some server \<longrightarrow> wf_addr server)"

lemma pooled_frame_fits:
  assumes ok: "frames_ok c t (f # fs)" and c: "config_ok c"
    and n: "tcp_payload_offset c (fs_key s) (fs_mss s) (fs_window_scale s) + k \<le> fb_capacity (pf_buffer f)"
  shows "tcp_header_len (header_spec s) + k \<le> max_transport (key_target (fs_key s))"
proof (cases "pf_tier f")
  case Mtu
  then show ?thesis
    using frames_ok_capacity [OF ok] c n by (intro fits_transport [of c "mtu_frame_capacity t"]) (auto simp: config_ok_def)
next
  case Gso
  then show ?thesis
    using frames_ok_capacity [OF ok] n header_spec_len [of c "fs_key s" s]
    by (simp add: gso_frame_capacity_def GSO_MAX_L3_BYTES_def ETHERNET_HEADER_LEN_def ip_header_len_def
        max_transport_def split: if_splits)
qed

lemma finalize_or_release_ok:
  assumes ok: "frames_ok c t (f # fs)" and c: "config_ok c" and fam: "same_family (fs_key s)"
    and n: "tcp_payload_offset c (fs_key s) (fs_mss s) (fs_window_scale s) + fs_payload_len s \<le> fb_capacity (pf_buffer f)"
  shows "\<exists>f'. finalize_or_release big c s f t = Some (Inr f', t) \<and> frames_ok c t (f' # fs)"
proof -
  let ?off = "tcp_payload_offset c (fs_key s) (fs_mss s) (fs_window_scale s)"
  obtain bs' where r: "finalize_tcp_frame big c s (fb_bytes (pf_buffer f)) = Some (Inr (?off + fs_payload_len s), bs')"
      "length bs' = length (fb_bytes (pf_buffer f))"
    using finalize_tcp_frame_handled [OF fam _ _ refl refl, of c "fb_bytes (pf_buffer f)" big]
      pooled_frame_fits [OF ok c n] c n by (auto simp: config_ok_def fb_capacity_def)
  then show ?thesis
    using n frames_ok_buffer [OF ok, of "\<lparr>fb_bytes = bs', fb_len = ?off + fs_payload_len s\<rparr>"]
    by (cases "pf_buffer f") (auto simp: finalize_or_release_def fb_set_len_def fb_writable_def fb_capacity_def)
qed

lemma give_up_ok:
  "frames_ok c t (f # fs) \<Longrightarrow> \<exists>t'. give_up e f t = Some (Inl e, t') \<and> frames_ok c t' fs"
  using release_frame_ok by (fastforce simp: give_up_def)

lemma build_tcp_frame_ok:
  assumes ok: "frames_ok c t fs" and c: "config_ok c" and fam: "same_family key"
  shows "\<exists>r t'. build_tcp_frame big c key plan payload flags m ws w t = Some (r, t') \<and>
    (case r of Inl _ \<Rightarrow> frames_ok c t' fs | Inr f \<Rightarrow> frames_ok c t' (f # fs))"
proof -
  obtain r t1 where a: "acquire_frame t = Some (r, t1)"
    "case r of Inl _ \<Rightarrow> frames_ok c t1 fs | Inr f \<Rightarrow> frames_ok c t1 (f # fs) \<and> pf_tier f = Mtu"
    using acquire_frame_ok [OF ok] by auto
  show ?thesis
  proof (cases r)
    case (Inl e)
    then show ?thesis
      using a by (simp add: build_tcp_frame_def)
  next
    case (Inr f)
    let ?off = "tcp_payload_offset c key m ws"
    have f: "frames_ok c t1 (f # fs)"
      using a(2) Inr by simp
    show ?thesis
    proof (cases "?off + length payload > fb_capacity (pf_buffer f)")
      case True
      then show ?thesis
        using give_up_ok [OF f, of "Invariant ''TCP frame exceeds buffer capacity''"] a(1) Inr
        by (fastforce simp: build_tcp_frame_def Let_def)
    next
      case False
      define b where "b = fb_writable (copy_at ?off payload) (pf_buffer f)"
      have b: "fb_capacity b = fb_capacity (pf_buffer f)"
        using False by (simp add: b_def fb_writable_def fb_capacity_def)
      show ?thesis
        using finalize_or_release_ok [OF frames_ok_buffer [OF f b] c,
            of "\<lparr>fs_key = key, fs_plan = plan, fs_flags = flags, fs_mss = m, fs_window_scale = ws, fs_window = w,
              fs_payload_len = length payload, fs_gso_size = None\<rparr>" big] fam False a(1) Inr b
        by (auto simp: build_tcp_frame_def b_def)
    qed
  qed
qed

section \<open>Weakest preconditions\<close>

lemma map_io_Complete: "map_io g r = Complete y \<longleftrightarrow> (\<exists>x. r = Complete x \<and> y = g x)"
  by (cases r) auto

text \<open>An action does not panic, and its results satisfy \<open>Q\<close> or, after an error, \<open>E\<close>.\<close>

definition wp :: "'a act \<Rightarrow> ('a \<Rightarrow> reactor \<Rightarrow> bool) \<Rightarrow> (reactor \<Rightarrow> bool) \<Rightarrow> reactor \<Rightarrow> bool" where
  "wp m Q E s \<longleftrightarrow> (case m s of None \<Rightarrow> False | Some (Inl e, s') \<Rightarrow> E s' | Some (Inr x, s') \<Rightarrow> Q x s')"

lemma wp_simps [simp]:
  "wp (ret x) Q E = Q x"
  "wp (raise e) Q E = E"
  "wp (gets f) Q E = (\<lambda>s. Q (f s) s)"
  "wp (expect y) Q E = (case y of None \<Rightarrow> (\<lambda>_. False) | Some x \<Rightarrow> Q x)"
  by (auto simp: fun_eq_iff wp_def ret_def raise_def gets_def expect_def split: option.split)

lemma wp_unit [simp]:
  "wp (change g) Q E = (\<lambda>s. Q () (g s))"
  "wp (only_if b m) Q E = (if b then wp m Q E else Q ())"
  by (auto simp: fun_eq_iff wp_def change_def only_if_def ret_def)

lemma wp_andThen [simp]: "wp (andThen m f) Q E = wp m (\<lambda>x. wp (f x) Q E) E"
  by (auto simp: fun_eq_iff wp_def andThen_def split: option.split sum.split)

lemma wp_mono: "wp m Q E s \<Longrightarrow> (\<And>x s'. Q x s' \<Longrightarrow> Q' x s') \<Longrightarrow> (\<And>s'. E s' \<Longrightarrow> E' s') \<Longrightarrow> wp m Q' E' s"
  by (auto simp: wp_def split: option.splits sum.splits prod.splits)

lemma wp_fetch: "wp (fetch fid) Q E s \<longleftrightarrow> (\<exists>e. table_get (tcp_flows s) fid = Some e \<and> Q e s)"
  by (auto simp: wp_def fetch_def split: option.split)

lemma wp_amend: "wp (amend fid g) Q E s \<longleftrightarrow>
    table_get (tcp_flows s) fid \<noteq> None \<and> Q () (s\<lparr>tcp_flows := table_modify fid g (tcp_flows s)\<rparr>)"
  by (auto simp: wp_def amend_def split: option.split)

section \<open>Successful runs\<close>

text \<open>\<open>succeeds m P s\<close> says what holds when the action \<open>m\<close> succeeds, and \<open>preserves view m\<close> that it then leaves \<open>view\<close> as it was.\<close>

definition succeeds :: "'a act \<Rightarrow> ('a \<Rightarrow> reactor \<Rightarrow> bool) \<Rightarrow> reactor \<Rightarrow> bool" where
  "succeeds m P s \<longleftrightarrow> (\<forall>x s'. m s = Some (Inr x, s') \<longrightarrow> P x s')"

lemma succeeds_basics [simp]:
  "succeeds (ret x) P1 = P1 x"
  "succeeds (raise e) P2 = (\<lambda>_. True)"
  "succeeds (gets f) P3 = (\<lambda>s. P3 (f s) s)"
  "succeeds (expect y) P4 = (\<lambda>s. case y of None \<Rightarrow> True | Some x \<Rightarrow> P4 x s)"
  "succeeds (fetch fid) P5 = (\<lambda>s. case table_get (tcp_flows s) fid of None \<Rightarrow> True | Some e \<Rightarrow> P5 e s)"
  "succeeds (change g) Q = (\<lambda>s. Q () (g s))"
  "succeeds (only_if b m) Q = (if b then succeeds m Q else Q ())"
  "succeeds (amend fid h) Q = (\<lambda>s.
     table_get (tcp_flows s) fid \<noteq> None \<longrightarrow> Q () (s\<lparr>tcp_flows := table_modify fid h (tcp_flows s)\<rparr>))"
  by (auto simp: fun_eq_iff succeeds_def ret_def raise_def gets_def expect_def fetch_def change_def only_if_def amend_def
      split: option.splits sum.splits)

lemma succeeds_andThen [simp]: "succeeds (andThen m k) P = succeeds m (\<lambda>x. succeeds (k x) P)"
  by (auto simp: fun_eq_iff succeeds_def andThen_def split: option.splits sum.splits)

lemma succeeds_true [simp]: "succeeds m (\<lambda>_ _. True) = (\<lambda>_. True)"
  by (simp add: succeeds_def fun_eq_iff)

lemma succeeds_mono: "succeeds m P s \<Longrightarrow> (\<And>x s'. P x s' \<Longrightarrow> Q x s') \<Longrightarrow> succeeds m Q s"
  by (auto simp: succeeds_def)

definition preserves :: "(reactor \<Rightarrow> 'v) \<Rightarrow> 'a act \<Rightarrow> bool" where
  "preserves view m \<longleftrightarrow> (\<forall>s. succeeds m (\<lambda>_ s'. view s' = view s) s)"

lemma preserves_succeeds: "preserves view m \<Longrightarrow> succeeds m (\<lambda>_ s'. view s' = view s) s"
  by (simp add: preserves_def)

lemma preserves_andThen [stable]:
  "preserves view m \<Longrightarrow> (\<And>x. preserves view (k x)) \<Longrightarrow> preserves view (andThen m k)"
  unfolding preserves_def succeeds_def andThen_def by (fastforce split: option.splits sum.splits)

lemma preserves_basics [stable]:
  "preserves view (ret x)" "preserves view (raise e)" "preserves view (gets f)" "preserves view (fetch fid)"
  "(b \<Longrightarrow> preserves view m) \<Longrightarrow> (\<not> b \<Longrightarrow> preserves view m') \<Longrightarrow> preserves view (if b then m else m')"
  "(\<And>y. preserves view (k y)) \<Longrightarrow> preserves view m \<Longrightarrow> preserves view (case z of None \<Rightarrow> m | Some y \<Rightarrow> k y)"
  "(\<And>y y'. preserves view (k' y y')) \<Longrightarrow> preserves view (case p of (y, y') \<Rightarrow> k' y y')"
  by (auto simp: preserves_def split: option.split prod.split)

lemma wp_preserves: "wp m Q E s \<Longrightarrow> preserves view m \<Longrightarrow> wp m (\<lambda>x s'. Q x s' \<and> view s' = view s) E s"
  by (auto simp: wp_def preserves_def succeeds_def split: option.splits sum.splits)

end
