(* ===== verification/Reactor_Tcp.thy ===== *)
theory Reactor_Tcp
  imports Reactor_Core
begin

text \<open>
  The TCP handlers of a worker (\<open>crates/dataplane/src/reactor.rs\<close>), as actions of \<open>Reactor_Core\<close>: namespace
  payload to the upstream socket, acknowledgments and windows, socket data to the namespace,
  retransmission and probes, the proxy handshake on a flow's socket, a new connection, a segment of an
  existing one, a socket event, and the timer scan over the flows. The function \<open>base64\<close> encodes proxy
  credentials.
\<close>

section \<open>Payload from the namespace\<close>

definition enqueue_pending_payload :: "flow_id \<Rightarrow> bytes \<Rightarrow> bool act" where
  "enqueue_pending_payload fid payload = andThen (fetch fid) (\<lambda>e.
     let flow_remaining = queue_remaining (pending_socket e)
     in andThen (gets (\<lambda>s. max_pending_tcp_bytes (r_config s) - pending_socket_bytes s)) (\<lambda>global_remaining.
          if length payload > flow_remaining \<or> length payload > global_remaining
          then andThen (fail_tcp_flow fid) (\<lambda>_. ret False)
          else case queue_push payload (pending_socket e) of
                 None \<Rightarrow> raise (Invariant ''pending socket accounting mismatch'')
               | Some q \<Rightarrow>
                   andThen (amend fid (pending_socket_update (\<lambda>_. q))) (\<lambda>_.
                   andThen (change (pending_socket_bytes_update (\<lambda>n. n + length payload))) (\<lambda>_.
                   andThen update_pending_pressure_state (\<lambda>_. ret True)))))"

definition consume_pending_payload :: "flow_id \<Rightarrow> usize \<Rightarrow> usize act" where
  "consume_pending_payload fid len = andThen (fetch fid) (\<lambda>e.
     let (consumed, q) = queue_consume len (pending_socket e)
     in andThen (amend fid (pending_socket_update (\<lambda>_. q))) (\<lambda>_.
        andThen (change (pending_socket_bytes_update (\<lambda>n. n - consumed))) (\<lambda>_.
        andThen update_pending_pressure_state (\<lambda>_. ret consumed))))"

definition submit_namespace_payload :: "flow_id \<Rightarrow> bytes \<Rightarrow> bool act" where
  "submit_namespace_payload fid payload = andThen (fetch fid) (\<lambda>e.
     andThen (sys_send (socket e) payload) (\<lambda>r.
       case r of
         Complete sent \<Rightarrow>
           andThen (amend fid (entry_flow_update (record_upstream_submitted sent))) (\<lambda>_.
             if sent < length payload then enqueue_pending_payload fid (drop sent payload) else ret True)
       | WouldBlock \<Rightarrow> enqueue_pending_payload fid payload
       | Failed \<Rightarrow> raise Io))"

text \<open>
  One turn of the loop of \<open>flush_socket_queue\<close>, which goes on only when the queue is empty and so ends
  at the next test.
\<close>

definition flush_front :: "flow_id \<Rightarrow> unit act" where
  "flush_front fid = andThen (fetch fid) (\<lambda>e.
     case queue_front (pending_socket e) of
       None \<Rightarrow> ret ()
     | Some bs \<Rightarrow>
         andThen (sys_send (socket e) bs) (\<lambda>r.
           case r of
             Complete sent \<Rightarrow>
               if sent = 0 then raise (Invariant ''socket queue send returned zero'')
               else andThen (consume_pending_payload fid sent) (\<lambda>_.
                      amend fid (entry_flow_update (record_upstream_submitted sent)))
           | WouldBlock \<Rightarrow> ret ()
           | Failed \<Rightarrow> raise Io))"

definition flush_socket_queue :: "flow_id \<Rightarrow> unit act" where
  "flush_socket_queue fid = andThen (flush_front fid) (\<lambda>_. andThen (fetch fid) (\<lambda>e.
     only_if (queue_is_empty (pending_socket e) \<and> pending_shutdown e)
       (andThen sys_sockopt (\<lambda>_. amend fid (pending_shutdown_update (\<lambda>_. False))))))"

section \<open>Acknowledgments and windows\<close>

definition update_namespace_window :: "flow_id \<Rightarrow> bool act" where
  "update_namespace_window fid = andThen (fetch fid) (\<lambda>e. andThen (gets (\<lambda>s. s)) (\<lambda>s.
     let socket_available = socket_send_buffer_bytes e div 2 - unat (upstream_unacked (entry_flow e));
         queue_available = queue_remaining (pending_socket e);
         global_available = (if pending_pressure s then 0
           else max_pending_tcp_bytes (r_config s) - pending_socket_bytes s);
         ack_window = unat (max_advertised_window (entry_flow e));
         available = min (min (min socket_available queue_available) global_available) ack_window;
         window = (if available < 2 ^ 32 then word_of_nat available else - 1);
         (changed, fl) = set_advertised_window window (entry_flow e)
     in andThen (amend fid (entry_flow_update (\<lambda>_. fl))) (\<lambda>_. ret changed)))"

definition refresh_upstream_ack :: "flow_id \<Rightarrow> bool act" where
  "refresh_upstream_ack fid = andThen (fetch fid) (\<lambda>_. andThen (must (call k_info k_info_update)) (\<lambda>acknowledged.
     andThen (fetch fid) (\<lambda>e.
       let (advanced, fl) = record_upstream_ack acknowledged (entry_flow e)
       in andThen (amend fid (entry_flow_update (\<lambda>_. fl))) (\<lambda>_.
          andThen (update_namespace_window fid) (\<lambda>window_changed.
          andThen (only_if (advanced \<or> window_changed) (send_ack fid)) (\<lambda>_. ret advanced))))))"

definition refresh_window_clamp :: "flow_id \<Rightarrow> unit act" where
  "refresh_window_clamp fid = andThen (fetch fid) (\<lambda>e.
     let window = peer_window (entry_flow e)
     in if upstream_window_clamp e = Some window then ret ()
        else andThen sys_sockopt (\<lambda>_. amend fid (upstream_window_clamp_update (\<lambda>_. Some window))))"

definition refresh_zero_window_probe :: "flow_id \<Rightarrow> instant \<Rightarrow> unit act" where
  "refresh_zero_window_probe fid t = amend fid (\<lambda>e.
     let should_probe = peer_window (entry_flow e) = 0 \<and>
           state (entry_flow e) \<in> {Established, NamespaceFinReceived}
     in case (entry_probe e, should_probe) of
          (None, True) \<Rightarrow> e\<lparr>entry_probe := Some (probe_new t)\<rparr>
        | (Some _, False) \<Rightarrow> e\<lparr>entry_probe := None\<rparr>
        | _ \<Rightarrow> e)"

definition desired_socket_interest :: "flow_entry \<Rightarrow> u32" where
  "desired_socket_interest e =
     socket_interest (\<not> transport_connected e)
       (case entry_handshake e of None \<Rightarrow> False | Some h \<Rightarrow> pending_output h \<noteq> [])
       (\<not> queue_is_empty (pending_socket e))"

definition update_socket_interest :: "flow_id \<Rightarrow> unit act" where
  "update_socket_interest fid = andThen (flow_is_closed fid) (\<lambda>closed.
     if closed then ret ()
     else andThen (fetch fid) (\<lambda>e.
       let desired = desired_socket_interest e
       in if desired = armed_socket_interest e then ret ()
          else case token_flow fid UpstreamSocket True of
                 None \<Rightarrow> raise (Invariant ''unable to encode flow token'')
               | Some _ \<Rightarrow> andThen sys_epoll (\<lambda>_. amend fid (armed_socket_interest_update (\<lambda>_. desired)))))"

definition queue_ack_refresh :: "flow_id \<Rightarrow> unit act" where
  "queue_ack_refresh fid =
     change (ack_refresh_queue_update (\<lambda>q. if fid \<in> set q then q else q @ [fid]))"

definition consume_ack_refresh_suppression :: "bool act" where
  "consume_ack_refresh_suppression = andThen (gets test_suppress_event_ack_refresh) (\<lambda>n.
     if n > 0 then andThen (change (test_suppress_event_ack_refresh_update (\<lambda>n. n - 1))) (\<lambda>_. ret True)
     else ret False)"

text \<open>\<open>flush_ack_refresh\<close> pops the queue from its end until it is empty.\<close>

fun flush_ack_loop :: "flow_id list \<Rightarrow> unit act" where
  "flush_ack_loop [] = ret ()"
| "flush_ack_loop (fid # rest) = andThen (change (ack_refresh_queue_update butlast)) (\<lambda>_.
     andThen (flow_is_closed fid) (\<lambda>closed.
       if closed then flush_ack_loop rest
       else andThen consume_ack_refresh_suppression (\<lambda>suppressed.
         andThen (if suppressed then ret () else andThen (refresh_upstream_ack fid) (\<lambda>_. ret ())) (\<lambda>_.
         andThen (update_socket_interest fid) (\<lambda>_. flush_ack_loop rest)))))"

definition flush_ack_refresh :: "unit act" where
  "flush_ack_refresh = andThen (gets ack_refresh_queue) (\<lambda>q. flush_ack_loop (rev q))"

fun pressure_loop :: "flow_id list \<Rightarrow> unit act" where
  "pressure_loop [] = ret ()"
| "pressure_loop (fid # rest) = andThen (flow_is_closed fid) (\<lambda>closed.
     if closed then pressure_loop rest
     else andThen (gets (\<lambda>s. pool_available (frame_pool (frames s)))) (\<lambda>available.
       if available = 0
       then andThen (change (frames_update note_frame_pool_exhaustion)) (\<lambda>_.
              change (pending_pressure_dirty_update (\<lambda>_. True)))
       else andThen (update_namespace_window fid) (\<lambda>window_changed.
              andThen (only_if window_changed (send_ack fid)) (\<lambda>_. pressure_loop rest))))"

definition apply_pending_pressure :: "unit act" where
  "apply_pending_pressure = andThen (gets pending_pressure_dirty) (\<lambda>dirty.
     only_if dirty (andThen (change (pending_pressure_dirty_update (\<lambda>_. False))) (\<lambda>_.
       andThen (gets (\<lambda>s. active_ids (tcp_flows s))) pressure_loop)))"

section \<open>Socket data to the namespace\<close>

datatype peeked_frame = PeekData pooled_frame usize | PeekEof | PeekWouldBlock

text \<open>As in the source, the frame is not given back when \<open>set_peek_offset\<close> fails.\<close>

definition peek_socket_frame :: "flow_id \<Rightarrow> usize \<Rightarrow> usize \<Rightarrow> peeked_frame act" where
  "peek_socket_frame fid offset capacity = andThen (fetch fid) (\<lambda>e.
     andThen (active_key ''inactive flow reached socket reader'' e) (\<lambda>key.
     andThen (gets r_config) (\<lambda>c.
       let payload_offset = tcp_payload_offset c key None None
       in if offset \<ge> 2 ^ 31 then raise (Invariant ''socket peek offset exceeds i32'')
          else andThen (on_frames (acquire_payload_frame (payload_offset + capacity))) (\<lambda>f.
            let room = fb_capacity (pf_buffer f);
                capacity = min capacity (room - payload_offset)
            in if payload_offset + capacity > room then expect None
               else andThen sys_sockopt (\<lambda>_. andThen (sys_peek capacity) (\<lambda>r.
                 case r of
                   Complete bs \<Rightarrow>
                     if bs = [] then andThen (release f) (\<lambda>_. ret (if offset = 0 then PeekEof else PeekWouldBlock))
                     else ret (PeekData (f\<lparr>pf_buffer := fb_writable (copy_at payload_offset bs) (pf_buffer f)\<rparr>)
                                 (length bs))
                 | WouldBlock \<Rightarrow> andThen (release f) (\<lambda>_. ret PeekWouldBlock)
                 | Failed \<Rightarrow> andThen (release f) (\<lambda>_. raise Io)))))))"

definition flow_queued :: "flow_id \<Rightarrow> bool act" where
  "flow_queued fid = gets (\<lambda>s. \<exists>fr \<in> set (tap_queue s). qf_flow fr = Some fid)"

definition max_send_of :: "reactor_config \<Rightarrow> flow_key \<Rightarrow> u16 \<Rightarrow> usize" where
  "max_send_of c key segment_size =
     (if vnet_len_of c > 0 then GSO_MAX_L3_BYTES - ip_header_len (key_target key) - TCP_MIN_HEADER_LEN
      else unat segment_size)"

definition send_peeked :: "flow_id \<Rightarrow> flow_key \<Rightarrow> pooled_frame \<Rightarrow> usize \<Rightarrow> unit act" where
  "send_peeked fid key f len = andThen (fetch fid) (\<lambda>e.
     case plan_send len False (entry_flow e) of
       None \<Rightarrow> raise (Invariant ''unable to plan TCP payload'')
     | Some plan \<Rightarrow> andThen (gets r_config) (\<lambda>c.
         let index = tcp_payload_offset c key None None + len - 1;
             bs = fb_bytes (pf_buffer f)
         in if index \<ge> length bs then expect None
            else andThen (amend fid (last_namespace_byte_update (\<lambda>_. Some (bs ! index)))) (\<lambda>_.
              andThen (finish_payload_frame fid (f\<lparr>pf_buffer := fb_writable id (pf_buffer f)\<rparr>) plan
                (no_flags\<lparr>fl_psh := True, fl_ack := True\<rparr>) len) (\<lambda>f.
                queue_tap (Some fid) f (Some plan)))))"

definition send_eof :: "flow_id \<Rightarrow> unit act" where
  "send_eof fid = andThen (fetch fid) (\<lambda>e.
     case plan_send 0 True (entry_flow e) of
       None \<Rightarrow> raise (Invariant ''unable to plan FIN'')
     | Some plan \<Rightarrow>
         andThen (flow_frame fid plan [] (no_flags\<lparr>fl_fin := True, fl_ack := True\<rparr>)) (\<lambda>f.
           queue_tap (Some fid) f (Some plan)))"

fun send_data_loop :: "nat \<Rightarrow> flow_id \<Rightarrow> unit act" where
  "send_data_loop 0 fid = ret ()"
| "send_data_loop (Suc n) fid =
     andThen (gets (\<lambda>s. pool_available (frame_pool (frames s)))) (\<lambda>available.
       if available = 0 then change (frames_update note_frame_pool_exhaustion)
       else andThen (flow_queued fid) (\<lambda>queued.
         if queued then ret ()
         else andThen (fetch fid) (\<lambda>e.
           andThen (active_key ''inactive flow reached socket reader'' e) (\<lambda>key.
             let window = available_namespace_window (entry_flow e);
                 payload_offset = sum_list (map payload_len (sent_segments e))
             in if state (entry_flow e) \<notin> {Established, NamespaceFinReceived} \<or> window = 0 then ret ()
                else andThen (gets (\<lambda>s. s)) (\<lambda>s.
                  let retained_available = max_retained_tcp_bytes (r_config s) - retained_socket_bytes s;
                      max_send = max_send_of (r_config s) key (mss (entry_flow e))
                  in if retained_available = 0 then ret ()
                     else andThen (peek_socket_frame fid payload_offset (min (min max_send window) retained_available)) (\<lambda>p.
                       case p of
                         PeekEof \<Rightarrow> andThen (send_eof fid) (\<lambda>_. send_data_loop n fid)
                       | PeekData f len \<Rightarrow> andThen (send_peeked fid key f len) (\<lambda>_. send_data_loop n fid)
                       | PeekWouldBlock \<Rightarrow> ret ()))))))"

definition send_socket_data :: "flow_id \<Rightarrow> unit act" where
  "send_socket_data fid = send_data_loop TAP_TX_BUDGET fid"

section \<open>Retransmission and probes\<close>

text \<open>The frame of a retransmission; \<open>None\<close> when the flow had to be given up.\<close>

definition retransmit_frame :: "flow_id \<Rightarrow> sent_segment \<Rightarrow> u32 \<Rightarrow> flow_key \<Rightarrow> pooled_frame option act" where
  "retransmit_frame fid sg acknowledgment key =
     (if payload_len sg > 0 then
        andThen (peek_socket_frame fid 0 (payload_len sg)) (\<lambda>p.
          case p of
            PeekData f len \<Rightarrow> andThen (gets r_config) (\<lambda>c.
              let payload_capacity = fb_capacity (pf_buffer f) - tcp_payload_offset c key None None
              in if len \<noteq> min (payload_len sg) payload_capacity
                 then andThen (release f) (\<lambda>_. andThen (fail_tcp_flow fid) (\<lambda>_. ret None))
                 else let fin = seg_fin sg \<and> \<not> len < payload_len sg;
                          plan = \<lparr>plan_sequence = seg_sequence sg, plan_acknowledgment = acknowledgment,
                                  plan_length = len, plan_syn = seg_syn sg, plan_fin = fin\<rparr>;
                          flags = no_flags\<lparr>fl_syn := seg_syn sg, fl_fin := fin, fl_psh := True, fl_ack := True\<rparr>
                      in andThen (finish_payload_frame fid f plan flags len) (\<lambda>f. ret (Some f)))
          | PeekWouldBlock \<Rightarrow> andThen (fail_tcp_flow fid) (\<lambda>_. ret None)
          | PeekEof \<Rightarrow> andThen (fail_tcp_flow fid) (\<lambda>_. ret None))
      else
        andThen (flow_frame fid \<lparr>plan_sequence = seg_sequence sg, plan_acknowledgment = acknowledgment,
                   plan_length = 0, plan_syn = seg_syn sg, plan_fin = seg_fin sg\<rparr> [] (segment_flags sg))
          (\<lambda>f. ret (Some f)))"

definition retransmit_oldest :: "flow_id \<Rightarrow> bool \<Rightarrow> unit act" where
  "retransmit_oldest fid backoff = andThen (flow_queued fid) (\<lambda>queued.
     if queued then ret ()
     else andThen (fetch fid) (\<lambda>e.
       case sent_segments e of
         [] \<Rightarrow> ret ()
       | sg # _ \<Rightarrow>
           andThen (active_key ''inactive flow reached retransmit'' e) (\<lambda>key.
           andThen (retransmit_frame fid sg (namespace_acked (entry_flow e)) key) (\<lambda>r.
             case r of
               None \<Rightarrow> ret ()
             | Some f \<Rightarrow>
                 andThen (queue_tap (Some fid) f None) (\<lambda>_. andThen (fetch fid) (\<lambda>e.
                   case sent_segments e of
                     [] \<Rightarrow> raise (Invariant ''retransmitted segment disappeared'')
                   | sg # rest \<Rightarrow> andThen now (\<lambda>t.
                       amend fid (sent_segments_update (\<lambda>_.
                         (if backoff then record_timeout_retransmit t sg else sg\<lparr>last_sent := t\<rparr>) # rest)))))))))"

definition advance_probe :: "flow_id \<Rightarrow> instant \<Rightarrow> unit act" where
  "advance_probe fid t = amend fid (entry_probe_update (map_option (probe_advance t)))"

definition send_zero_window_probe :: "flow_id \<Rightarrow> instant \<Rightarrow> unit act" where
  "send_zero_window_probe fid t = andThen (flow_queued fid) (\<lambda>queued.
     if queued then ret ()
     else andThen (fetch fid) (\<lambda>e.
       let retained = (case sent_segments e of sg # _ \<Rightarrow> if payload_len sg > 0 then Some sg else None | [] \<Rightarrow> None);
           sequence = (case retained of None \<Rightarrow> local_next (entry_flow e) - 1 | Some sg \<Rightarrow> seg_sequence sg)
       in andThen sys_sockopt (\<lambda>_. andThen (sys_peek 1) (\<lambda>r.
            case (case r of WouldBlock \<Rightarrow> Complete [] | _ \<Rightarrow> r) of
              Complete [] \<Rightarrow> advance_probe fid t
            | Complete (socket_byte # _) \<Rightarrow>
                let payload = [if retained \<noteq> None then socket_byte
                               else case last_namespace_byte e of None \<Rightarrow> socket_byte | Some b \<Rightarrow> b];
                    plan = \<lparr>plan_sequence = sequence, plan_acknowledgment = namespace_acked (entry_flow e),
                            plan_length = 1, plan_syn = False, plan_fin = False\<rparr>
                in andThen (flow_frame fid plan payload (no_flags\<lparr>fl_psh := True, fl_ack := True\<rparr>)) (\<lambda>f.
                   andThen (gets test_drop_tcp_retransmit) (\<lambda>drops.
                   andThen (if drops > 0
                            then andThen (change (test_drop_tcp_retransmit_update (\<lambda>n. n - 1))) (\<lambda>_. release f)
                            else queue_tap (Some fid) f None) (\<lambda>_. advance_probe fid t)))
            | _ \<Rightarrow> raise Io))))"

section \<open>Activation\<close>

definition activate_flow :: "flow_id \<Rightarrow> unit act" where
  "activate_flow fid = andThen (fetch fid) (\<lambda>_.
     andThen (call k_sockopt k_sockopt_update) (\<lambda>peek_offset. if peek_offset \<noteq> Complete () then fail_tcp_flow fid
     else andThen (call k_sockopt k_sockopt_update) (\<lambda>timestamps. if timestamps \<noteq> Complete () then fail_tcp_flow fid
     else andThen (call k_info k_info_update) (\<lambda>info.
       case info of
         Complete bytes_acked \<Rightarrow>
           andThen (update_namespace_window fid) (\<lambda>_. andThen (fetch fid) (\<lambda>e.
             let (plan, fl) = socket_connected bytes_acked (entry_flow e)
             in andThen (amend fid (entry_flow_update (\<lambda>_. fl))) (\<lambda>_.
                andThen (flow_frame fid plan [] (no_flags\<lparr>fl_syn := True, fl_ack := True\<rparr>)) (\<lambda>f.
                  queue_tap (Some fid) f (Some plan)))))
       | _ \<Rightarrow> fail_tcp_flow fid))))"

definition fail_proxy_handshake :: "flow_id \<Rightarrow> unit act" where
  "fail_proxy_handshake fid = andThen (send_reset_for_flow fid) (\<lambda>_. close_flow fid)"

text \<open>
  The loop of \<open>flush_proxy_output\<close> sends until the output is empty; a sent byte shortens the output, so
  its length bounds the turns.
\<close>

fun flush_output_loop :: "nat \<Rightarrow> flow_id \<Rightarrow> unit act" where
  "flush_output_loop n fid = andThen (fetch fid) (\<lambda>e. andThen (expect (entry_handshake e)) (\<lambda>h.
     if pending_output h = [] then ret ()
     else andThen (sys_send (socket e) (pending_output h)) (\<lambda>r.
       case r of
         Complete 0 \<Rightarrow> fail_proxy_handshake fid
       | Complete sent \<Rightarrow>
           (case advance_output sent h of
              (Inl _, h) \<Rightarrow> andThen (amend fid (entry_handshake_update (\<lambda>_. Some h))) (\<lambda>_. raise Io)
            | (Inr _, h) \<Rightarrow> andThen (amend fid (entry_handshake_update (\<lambda>_. Some h))) (\<lambda>_.
                case n of 0 \<Rightarrow> expect None | Suc n \<Rightarrow> flush_output_loop n fid))
       | WouldBlock \<Rightarrow> ret ()
       | Failed \<Rightarrow> fail_proxy_handshake fid)))"

definition flush_proxy_output :: "flow_id \<Rightarrow> unit act" where
  "flush_proxy_output fid = andThen (fetch fid) (\<lambda>e. andThen (expect (entry_handshake e)) (\<lambda>h.
     flush_output_loop (length (pending_output h)) fid))"

definition receive_proxy_input :: "flow_id \<Rightarrow> unit act" where
  "receive_proxy_input fid = andThen (fetch fid) (\<lambda>_. andThen (sys_peek PROXY_RESPONSE_CAPACITY) (\<lambda>r.
     case r of
       Complete [] \<Rightarrow> fail_proxy_handshake fid
     | Complete response \<Rightarrow>
         andThen (fetch fid) (\<lambda>e. andThen (expect (entry_handshake e)) (\<lambda>h.
           case handshake_receive response h of
             (Inl _, h) \<Rightarrow> andThen (amend fid (entry_handshake_update (\<lambda>_. Some h))) (\<lambda>_. fail_proxy_handshake fid)
           | (Inr consumed, h) \<Rightarrow>
               andThen (amend fid (entry_handshake_update (\<lambda>_. Some h))) (\<lambda>_.
               andThen (if consumed > 0 then sys_discard consumed else ret (Complete 0)) (\<lambda>d.
                 if d \<noteq> Complete consumed then fail_proxy_handshake fid
                 else if is_complete h
                 then andThen (amend fid (entry_handshake_update (\<lambda>_. None))) (\<lambda>_. activate_flow fid)
                 else flush_proxy_output fid))))
     | WouldBlock \<Rightarrow> ret ()
     | Failed \<Rightarrow> fail_proxy_handshake fid))"

definition finish_transport_connect :: "flow_id \<Rightarrow> unit act" where
  "finish_transport_connect fid = andThen (fetch fid) (\<lambda>_. andThen sys_error (\<lambda>broken.
     if broken then andThen (send_reset_for_flow fid) (\<lambda>_. close_flow fid)
     else andThen (amend fid (transport_connected_update (\<lambda>_. True))) (\<lambda>_. andThen (fetch fid) (\<lambda>e.
       if entry_handshake e \<noteq> None then flush_proxy_output fid else activate_flow fid))))"

section \<open>Segments from the namespace\<close>

text \<open>What a segment acknowledges: bytes leave the upstream socket and segments leave the queue.\<close>

definition settle_acknowledged :: "flow_id \<Rightarrow> u32 \<Rightarrow> unit act" where
  "settle_acknowledged fid previous_ack = andThen (fetch fid) (\<lambda>e.
     let current_ack = local_unacked (entry_flow e);
         acked = newly_acked_payload previous_ack (entry_flow e)
     in if current_ack = previous_ack then ret ()
        else andThen (only_if (acked > 0) (andThen (must (sys_discard acked)) (\<lambda>discarded.
               if discarded \<noteq> acked then raise (Invariant ''socket ACK consume length mismatch'')
               else release_retained_bytes acked))) (\<lambda>_.
             amend fid (sent_segments_update (ack_segments current_ack))))"

text \<open>The match on the disposition. The result is whether the handler goes on.\<close>

definition deliver_segment :: "flow_id \<Rightarrow> tcp_segment \<Rightarrow> receive_disposition \<Rightarrow> bool act" where
  "deliver_segment fid sg disposition =
     (case disposition of
        InOrder len fin \<Rightarrow>
          andThen (if len > 0 then submit_namespace_payload fid (tcp_payload sg) else ret True) (\<lambda>submitted.
            if \<not> submitted then ret False
            else if \<not> fin then ret True
            else andThen (fetch fid) (\<lambda>e.
              andThen (if queue_is_empty (pending_socket e) then sys_sockopt
                       else amend fid (pending_shutdown_update (\<lambda>_. True))) (\<lambda>_.
              andThen (send_fin_ack fid) (\<lambda>_. ret True))))
      | Invalid \<Rightarrow> andThen (close_flow fid) (\<lambda>_. ret True)
      | Reset \<Rightarrow> ret True
      | _ \<Rightarrow> andThen (send_ack fid) (\<lambda>_. ret True))"

definition handle_existing_tcp :: "flow_id \<Rightarrow> tcp_segment \<Rightarrow> unit act" where
  "handle_existing_tcp fid sg = andThen (fetch fid) (\<lambda>e.
     let flags = tcp_flags_of sg;
         st = state (entry_flow e);
         previous_ack = local_unacked (entry_flow e);
         (disposition, fl) = receive (tcp_sequence sg)
           (if fl_ack flags then Some (tcp_acknowledgment sg) else None) (tcp_window sg)
           (length (tcp_payload sg)) (fl_fin flags) (fl_rst flags) (entry_flow e)
     in if fl_syn flags \<and> \<not> fl_ack flags \<and> st = Connecting then ret ()
        else if fl_syn flags \<and> \<not> fl_ack flags \<and> st = SynReceived then retransmit_oldest fid False
        else andThen (amend fid (entry_flow_update (\<lambda>_. fl))) (\<lambda>_.
          if disposition = Reset then close_flow fid
          else andThen (refresh_window_clamp fid) (\<lambda>_.
            andThen now (\<lambda>t. andThen (refresh_zero_window_probe fid t) (\<lambda>_.
            andThen (settle_acknowledged fid previous_ack) (\<lambda>_.
            andThen (deliver_segment fid sg disposition) (\<lambda>go_on.
              if \<not> go_on then ret ()
              else andThen (queue_ack_refresh fid) (\<lambda>_.
                andThen (gets (\<lambda>s. table_get (tcp_flows s) fid)) (\<lambda>r.
                  case r of
                    None \<Rightarrow> ret ()
                  | Some e \<Rightarrow> only_if (state (entry_flow e) = TimeWait) (close_flow fid))))))))))"

text \<open>A reset for a SYN that cannot be served.\<close>

definition refuse :: "flow_key \<Rightarrow> tcp_segment \<Rightarrow> unit act" where
  "refuse key sg = andThen (reset_frame key (tcp_sequence sg + 1)) (\<lambda>f. queue_tap None f None)"

definition flow_construction_for :: "flow_key \<Rightarrow> flow_side \<Rightarrow> flow_construction act" where
  "flow_construction_for key side =
     (case set_initiating \<lparr>interface = NamespaceTap, local_endpoint = key_target key,
              logical_peer = key_namespace key, transport_peer = key_namespace key\<rparr> construction_new of
        (Inl _, _) \<Rightarrow> raise (Invariant ''unable to set initiating flow side'')
      | (Inr _, con) \<Rightarrow>
          (case set_target side con of
             (Inl _, _) \<Rightarrow> raise (Invariant ''unable to set target flow side'')
           | (Inr _, con) \<Rightarrow>
               (case set_type Tcp con of
                  (Inl _, _) \<Rightarrow> raise (Invariant ''unable to type TCP flow'')
                | (Inr _, con) \<Rightarrow> ret con)))"

definition new_entry ::
  "flow_construction \<Rightarrow> flow \<Rightarrow> nat \<Rightarrow> handshake option \<Rightarrow> usize \<Rightarrow> usize \<Rightarrow> flow_entry" where
  "new_entry con fl fd h receive_bytes send_bytes =
     \<lparr>entry_flow = fl, construction = con, socket = fd, transport_connected = False,
      armed_socket_interest = socket_interest True False False, entry_handshake = h,
      pending_socket = queue_new MAX_PENDING_SOCKET_BYTES, pending_shutdown = False, sent_segments = [],
      upstream_window_clamp = None, entry_probe = None, last_namespace_byte = None,
      socket_receive_buffer_bytes = receive_bytes, socket_send_buffer_bytes = send_bytes\<rparr>"

text \<open>The end of \<open>handle_tcp\<close>: a flow that has its identifier is registered and activated.\<close>

definition register_flow :: "flow_id \<Rightarrow> bool \<Rightarrow> unit act" where
  "register_flow fid connected =
     (case token_flow fid UpstreamSocket True of
        None \<Rightarrow> raise (Invariant ''unable to encode flow token'')
      | Some _ \<Rightarrow>
          andThen (fetch fid) (\<lambda>_. andThen sys_epoll (\<lambda>_. andThen (fetch fid) (\<lambda>e.
          andThen (expect (activate (construction e))) (\<lambda>(r, con).
          andThen (amend fid (construction_update (\<lambda>_. con))) (\<lambda>_.
            case r of
              Inl _ \<Rightarrow> raise (Invariant ''unable to activate TCP flow'')
            | Inr _ \<Rightarrow>
                andThen (if connected then ret True else must (call k_poll k_poll_update)) (\<lambda>connected.
                only_if connected (andThen (finish_transport_connect fid) (\<lambda>_. update_socket_interest fid)))))))))"

definition handle_new_tcp :: "(bytes \<Rightarrow> bytes) \<Rightarrow> flow_key \<Rightarrow> tcp_segment \<Rightarrow> unit act" where
  "handle_new_tcp base64 key sg = andThen (gets r_config) (\<lambda>c.
     case logical_target c (key_target key) of
       None \<Rightarrow> refuse key sg
     | Some logical \<Rightarrow>
         let (target_interface, peer) = route_target c logical
         in andThen (call k_connect k_connect_update) (\<lambda>r.
              case r of
                Complete (fd, connected) \<Rightarrow>
                  andThen (must (call k_local k_local_update)) (\<lambda>local_address.
                  andThen (must (call k_sizes k_sizes_update)) (\<lambda>(receive_bytes, send_bytes).
                  andThen (must (call k_random k_random_update)) (\<lambda>random.
                  andThen (expect (default_mss c (key_target key))) (\<lambda>local_mss.
                  let segment_size = negotiated_mss local_mss (tcp_mss sg);
                      (peer_shift, local_shift) = window_shifts (tcp_window_scale sg)
                  in andThen (flow_construction_for key \<lparr>interface = target_interface,
                       local_endpoint = local_address, logical_peer = logical, transport_peer = peer\<rparr>) (\<lambda>con.
                     andThen (expect (proxy_handshake base64 c logical)) (\<lambda>h.
                     andThen (gets test_local_isn) (\<lambda>isn.
                     let fl = flow_new (tcp_sequence sg) (case isn of None \<Rightarrow> random | Some i \<Rightarrow> i) segment_size
                           peer_shift local_shift
                     in andThen (gets (\<lambda>s. table_insert (new_entry con fl fd h receive_bytes send_bytes) (tcp_flows s))) (\<lambda>ins.
                        andThen (expect ins) (\<lambda>(r, t).
                        andThen (change (tcp_flows_update (\<lambda>_. t))) (\<lambda>_.
                          case r of
                            Inl _ \<Rightarrow> refuse key sg
                          | Inr fid \<Rightarrow>
                              andThen (change (by_key_update (hm_insert key fid))) (\<lambda>_.
                                register_flow fid connected)))))))))))
              | _ \<Rightarrow> refuse key sg))"

definition handle_tcp :: "(bytes \<Rightarrow> bytes) \<Rightarrow> flow_key \<Rightarrow> tcp_segment \<Rightarrow> unit act" where
  "handle_tcp base64 key sg = andThen (gets (\<lambda>s. hm_get (by_key s) key)) (\<lambda>known.
     case known of
       Some fid \<Rightarrow> handle_existing_tcp fid sg
     | None \<Rightarrow>
         let flags = tcp_flags_of sg
         in if \<not> fl_syn flags \<or> fl_ack flags \<or> fl_rst flags then ret () else handle_new_tcp base64 key sg)"

section \<open>Socket events\<close>

definition reset_and_close :: "flow_id \<Rightarrow> unit act" where
  "reset_and_close fid = andThen (send_reset_for_flow fid) (\<lambda>_. close_flow fid)"

text \<open>The part of \<open>handle_socket_events\<close> for a flow in its proxy handshake. The result is whether to go on.\<close>

definition drive_handshake :: "flow_id \<Rightarrow> u32 \<Rightarrow> bool act" where
  "drive_handshake fid events = andThen (fetch fid) (\<lambda>e.
     if entry_handshake e = None then ret True
     else andThen (only_if (events AND WRITABLE \<noteq> 0) (flush_proxy_output fid)) (\<lambda>_.
       andThen (flow_is_closed fid) (\<lambda>closed.
         if closed then ret False
         else andThen (only_if (events AND (READABLE OR READ_HANGUP) \<noteq> 0) (receive_proxy_input fid)) (\<lambda>_.
           andThen (flow_is_closed fid) (\<lambda>closed.
             if closed then ret False
             else andThen (fetch fid) (\<lambda>e. ret (entry_handshake e = None)))))))"

definition handle_ready_socket :: "flow_id \<Rightarrow> u32 \<Rightarrow> unit act" where
  "handle_ready_socket fid events =
     andThen (only_if (events AND WRITABLE \<noteq> 0) (flush_socket_queue fid)) (\<lambda>_.
     andThen consume_ack_refresh_suppression (\<lambda>suppressed.
     andThen (if suppressed then ret () else andThen (refresh_upstream_ack fid) (\<lambda>_. ret ())) (\<lambda>_.
       only_if (events AND (READABLE OR READ_HANGUP) \<noteq> 0) (send_socket_data fid))))"

text \<open>The test for \<open>EPOLLERR\<close>. The result is whether the flow was closed.\<close>

definition handle_socket_error :: "flow_id \<Rightarrow> bool act" where
  "handle_socket_error fid = andThen (fetch fid) (\<lambda>_. andThen sys_error (\<lambda>broken.
     if broken then andThen (reset_and_close fid) (\<lambda>_. ret True)
     else andThen (must (call k_drain k_drain_update)) (\<lambda>(acknowledgments, foreign_errors).
       if foreign_errors > 0 then andThen (reset_and_close fid) (\<lambda>_. ret True) else ret False)))"

definition handle_socket_events :: "flow_id \<Rightarrow> u32 \<Rightarrow> unit act" where
  "handle_socket_events fid events = andThen (flow_is_closed fid) (\<lambda>closed.
     if closed then ret ()
     else andThen (if events AND ERROR \<noteq> 0 then handle_socket_error fid else ret False) (\<lambda>gone.
       if gone then ret ()
       else andThen (fetch fid) (\<lambda>e.
         andThen (only_if (\<not> transport_connected e \<and> events AND WRITABLE \<noteq> 0) (finish_transport_connect fid)) (\<lambda>_.
         andThen (flow_is_closed fid) (\<lambda>closed.
           if closed then ret ()
           else andThen (drive_handshake fid events) (\<lambda>go_on.
             only_if go_on (handle_ready_socket fid events)))))))"

definition handle_socket :: "flow_id \<Rightarrow> u32 \<Rightarrow> unit act" where
  "handle_socket fid events = andThen (handle_socket_events fid events) (\<lambda>_. update_socket_interest fid)"

section \<open>Timers\<close>

definition watchdog_upstream_ack :: "flow_id \<Rightarrow> unit act" where
  "watchdog_upstream_ack fid = andThen (gets (\<lambda>s. pool_available (frame_pool (frames s)))) (\<lambda>available.
     andThen (flow_is_closed fid) (\<lambda>closed.
       if available = 0 \<or> closed then ret ()
       else andThen (fetch fid) (\<lambda>e.
         if upstream_unacked (entry_flow e) = 0 then ret ()
         else andThen (must (call k_drain k_drain_update)) (\<lambda>(acknowledgments, foreign_errors).
           if foreign_errors > 0 then reset_and_close fid
           else andThen (refresh_upstream_ack fid) (\<lambda>advanced.
             if \<not> advanced then ret ()
             else andThen (flow_is_closed fid) (\<lambda>closed.
               if acknowledgments > 0 \<or> closed then ret ()
               else andThen (fetch fid) (\<lambda>e.
                 if upstream_unacked (entry_flow e) > 0 then ret ()
                 else andThen (must (call k_drain k_drain_update)) (\<lambda>(_, foreign_errors).
                   only_if (foreign_errors > 0) (reset_and_close fid)))))))))"

definition serve_timer :: "instant \<Rightarrow> flow_id \<Rightarrow> unit act" where
  "serve_timer t fid = andThen (fetch fid) (\<lambda>e.
     let retransmit = (entry_probe e = None \<and>
           (case sent_segments e of [] \<Rightarrow> False | sg # _ \<Rightarrow> t - last_sent sg \<ge> retransmit_timeout sg));
         exhausted = (case sent_segments e of [] \<Rightarrow> False | sg # _ \<Rightarrow> retries_exhausted sg)
     in if retransmit \<and> exhausted then reset_and_close fid
        else andThen (only_if retransmit (retransmit_oldest fid True)) (\<lambda>_.
          andThen (gets (\<lambda>s. table_get (tcp_flows s) fid)) (\<lambda>r.
            let probe_due = (case r of None \<Rightarrow> False | Some e \<Rightarrow>
                  (case entry_probe e of None \<Rightarrow> False | Some p \<Rightarrow> probe_deadline p \<le> t))
            in andThen (only_if probe_due (send_zero_window_probe fid t)) (\<lambda>_. watchdog_upstream_ack fid))))"

fun timer_loop :: "instant \<Rightarrow> flow_id list \<Rightarrow> unit act" where
  "timer_loop t [] = ret ()"
| "timer_loop t (fid # rest) = andThen (gets (\<lambda>s. pool_available (frame_pool (frames s)))) (\<lambda>available.
     if available = 0
     then andThen (change (frames_update note_frame_pool_exhaustion)) (\<lambda>_.
            change (timer_cursor_slot_update (\<lambda>_. slot fid)))
     else andThen (serve_timer t fid) (\<lambda>_. timer_loop t rest))"

text \<open>
  \<open>handle_timers\<close> for the TCP flows: the scan starts at the first flow whose slot is not below the cursor
  and goes round.
\<close>

definition timer_order :: "u32 \<Rightarrow> flow_id list \<Rightarrow> flow_id list" where
  "timer_order cursor ids =
     (let start = length (takeWhile (\<lambda>fid. slot fid < cursor) ids) mod length ids
      in drop start ids @ take start ids)"

definition handle_tcp_timers :: "instant \<Rightarrow> unit act" where
  "handle_tcp_timers t = andThen (gets (\<lambda>s. timer_order (timer_cursor_slot s) (active_ids (tcp_flows s)))) (timer_loop t)"

end
