(* ===== verification/Reactor_Invariant.thy ===== *)
theory Reactor_Invariant
  imports Reactor_Tcp
begin

text \<open>
  The invariant of a worker's TCP state and the proof that every handler keeps it, whatever the kernel
  answers and whatever the namespace sends. The handlers are taken apart by rules for \<open>keeps\<close>, one per
  operation and one per control construct.
\<close>

named_theorems keeps \<open>rules that take a handler apart\<close>

section \<open>The invariant\<close>

definition entry_key :: "flow_entry \<Rightarrow> flow_key" where
  "entry_key e = (let side = the (initiating (construction e))
     in \<lparr>key_namespace = logical_peer side, key_target = local_endpoint side\<rparr>)"

definition entry_ok :: "flow_entry \<Rightarrow> bool" where
  "entry_ok e \<longleftrightarrow> construction_ok (construction e) \<and> cstate (construction e) \<in> {Typed, Active} \<and>
     same_family (entry_key e) \<and> queue_ok (pending_socket e) \<and>
     (\<forall>h. entry_handshake e = Some h \<longrightarrow> handshake_ok h)"

definition dns_wf :: "dns_engine \<Rightarrow> bool" where
  "dns_wf e \<longleftrightarrow> dns_ok e \<and>
     (\<forall>i tx. hm_get (transactions e) i = Some tx \<longrightarrow> wf_addr (client tx) \<and> wf_addr (gateway tx))"

definition resolver_ok :: "resolver \<Rightarrow> bool" where
  "resolver_ok r \<longleftrightarrow> dns_wf (engine r) \<and> length (dns_write_buffer r) \<le> DNS_WRITE_BUFFER_LIMIT \<and>
     length (dns_read_buffer r) \<le> DNS_READ_BUFFER_LIMIT \<and>
     (\<forall>fd connected h. connection r = DnsConnecting fd connected (Some h) \<longrightarrow> handshake_ok h)"

text \<open>
  The datagram flows and the SOCKS5 associations. An association has sockets only under a SOCKS5 proxy; a
  relay socket is there from the start of a handshake until the association fails.
\<close>

definition forwarder_ok :: "udp_engine \<Rightarrow> bool" where
  "forwarder_ok e \<longleftrightarrow> engine_ok e \<and>
     (\<forall>fid f. table_get (flows e) fid = Some f \<longrightarrow> wf_addr (uk_source (uf_key f)) \<and> wf_addr (uk_target (uf_key f)) \<and>
        wf_addr (reply_source f))"

definition socks_upstream :: "reactor_config \<Rightarrow> bool" where
  "socks_upstream c \<longleftrightarrow> (\<exists>proxy cr. upstream_of c = Proxy Socks5 proxy cr)"

definition association_ok :: "reactor_config \<Rightarrow> socks_association \<Rightarrow> bool" where
  "association_ok c a \<longleftrightarrow> wf_addr (ak_source (sa_key a)) \<and>
     (\<forall>h. sa_handshake a = Some h \<longrightarrow> handshake_ok h \<and> sa_control a \<noteq> None) \<and>
     (sa_state a \<in> {SocksPendingActivation, SocksReady} \<longrightarrow> sa_relay a \<noteq> None) \<and>
     (sa_control a \<noteq> None \<or> sa_relay a \<noteq> None \<longrightarrow> socks_upstream c) \<and>
     length (sa_response a) \<le> PROXY_RESPONSE_CAPACITY \<and> sa_pending_bytes a \<le> SOCKS_UDP_QUEUE_BYTES \<and>
     sum_list (map (\<lambda>(_, payload). length payload + 22) (sa_pending a)) \<le> sa_pending_bytes a"

definition datagrams_ok :: "reactor_config \<Rightarrow> datagrams \<Rightarrow> bool" where
  "datagrams_ok c d \<longleftrightarrow> forwarder_ok (forwarder d) \<and> table_ok (socks_associations d) \<and> deferred (socks_associations d) = [] \<and>
     indexed (table_get (socks_associations d)) sa_key (hm_get (socks_by_key d)) \<and>
     (\<forall>fid a. table_get (socks_associations d) fid = Some a \<longrightarrow> association_ok c a)"

text \<open>
  What an operation knows of the current state and what the operations it calls do not undo: a flow
  is in the table, it is in its proxy handshake, its key, the configuration.
\<close>

datatype state_fact = Live flow_id | InHandshake flow_id | HasKey flow_id flow_key | Config reactor_config
  | Associated flow_id

fun fact_holds :: "flow_entry flow_table \<Rightarrow> reactor_config \<Rightarrow> socks_association flow_table \<Rightarrow> state_fact \<Rightarrow> bool" where
  "fact_holds t c g (Live fid) \<longleftrightarrow> table_get t fid \<noteq> None"
| "fact_holds t c g (InHandshake fid) \<longleftrightarrow> (\<exists>e. table_get t fid = Some e \<and> entry_handshake e \<noteq> None)"
| "fact_holds t c g (HasKey fid key) \<longleftrightarrow> (\<exists>e. table_get t fid = Some e \<and> entry_key e = key)"
| "fact_holds t c g (Config c') \<longleftrightarrow> c = c'"
| "fact_holds t c g (Associated fid) \<longleftrightarrow> table_get g fid \<noteq> None"

text \<open>\<open>F\<close> are known facts and \<open>hand\<close> the frames an operation holds.\<close>

definition rinv :: "state_fact set \<Rightarrow> pooled_frame list \<Rightarrow> reactor \<Rightarrow> bool" where
  "rinv F hand s \<longleftrightarrow> config_ok (r_config s) \<and> table_ok (tcp_flows s) \<and>
     frames_ok (r_config s) (frames s) (hand @ map qf_frame (tap_queue s)) \<and>
     (\<forall>fid e. table_get (tcp_flows s) fid = Some e \<longrightarrow> entry_ok e) \<and>
     (\<forall>key fid. hm_get (by_key s) key = Some fid \<longrightarrow> fid \<notin> set (deferred (tcp_flows s)) \<and>
        (\<exists>e. table_get (tcp_flows s) fid = Some e \<and> entry_key e = key)) \<and>
     (\<forall>a \<in> F. fact_holds (tcp_flows s) (r_config s) (socks_associations (datagrams s)) a) \<and>
     resolver_ok (resolver s) \<and> datagrams_ok (r_config s) (datagrams s) \<and>
     retained_socket_bytes s \<le> max_retained_tcp_bytes (r_config s) \<and>
     pending_socket_bytes s \<le> max_pending_tcp_bytes (r_config s)"

lemma rinv_fact: "rinv F hand s \<Longrightarrow> a \<in> F \<Longrightarrow> fact_holds (tcp_flows s) (r_config s) (socks_associations (datagrams s)) a"
  by (simp add: rinv_def)

text \<open>
  An action that starts with the frames \<open>hand\<close> and ends with the frames \<open>hand'\<close>; after an error the frames
  in hand may be lost to the pools.
\<close>

definition keeps_inv :: "state_fact set \<Rightarrow> pooled_frame list \<Rightarrow> pooled_frame list \<Rightarrow> 'a act \<Rightarrow> bool" where
  "keeps_inv F hand hand' m \<longleftrightarrow> (\<forall>s. rinv F hand s \<longrightarrow> wp m (\<lambda>_. rinv F hand') (rinv F []) s)"

lemma rinv_more: "rinv F hand s \<Longrightarrow> F' \<subseteq> F \<Longrightarrow> rinv F' hand s"
  unfolding rinv_def by blast

lemma rinv_live: "rinv F hand s \<Longrightarrow> Live fid \<in> F \<Longrightarrow> table_get (tcp_flows s) fid \<noteq> None"
  using rinv_fact [of F hand s "Live fid"] by simp

lemma frames_ok_drop:
  assumes "frames_ok c t (f # fs)"
  shows "frames_ok c t fs"
proof -
  have "tier_ok tr cap p (f # fs) \<Longrightarrow> tier_ok tr cap p fs" for tr cap p
    by (cases "pf_tier f = tr") (auto simp: tier_ok_def)
  then show ?thesis
    using assms by (simp add: frames_ok_def)
qed

lemma rinv_leak: "rinv F hand s \<Longrightarrow> rinv F [] s"
proof -
  have "frames_ok c t (hand @ fs) \<Longrightarrow> frames_ok c t fs" for c t fs
    by (induction hand) (auto dest: frames_ok_drop)
  then show "rinv F hand s \<Longrightarrow> rinv F [] s"
    by (simp add: rinv_def)
qed

lemma rinv_fields [simp]:
  "rinv F hand (kern_update a s) = rinv F hand s"
  "rinv F hand (test_drop_tcp_data_update b s) = rinv F hand s"
  "rinv F hand (test_drop_tcp_retransmit_update b s) = rinv F hand s"
  "rinv F hand (test_drop_tcp_syn_ack_update b s) = rinv F hand s"
  "rinv F hand (test_drop_tcp_fin_update b s) = rinv F hand s"
  "rinv F hand (test_drop_tcp_ack_update b s) = rinv F hand s"
  "rinv F hand (test_drop_tcp_fin_ack_update b s) = rinv F hand s"
  "rinv F hand (test_suppress_event_ack_refresh_update b s) = rinv F hand s"
  "rinv F hand (ack_refresh_queue_update c s) = rinv F hand s"
  "rinv F hand (timer_cursor_slot_update d s) = rinv F hand s"
  "rinv F hand (pending_pressure_update g s) = rinv F hand s"
  "rinv F hand (pending_pressure_dirty_update g s) = rinv F hand s"
  "rinv F hand (shutting_down_update g s) = rinv F hand s"
  by (simp_all add: rinv_def)

section \<open>Rules for the control constructs\<close>

lemma keeps_ret [keeps]: "keeps_inv F hand hand (ret x)"
  by (simp add: keeps_inv_def)

lemma keeps_raise [keeps]: "keeps_inv F hand hand' (raise e)" "keeps_inv F hand hand' (andThen (raise e) k)"
  by (auto simp: keeps_inv_def rinv_leak)

lemma keeps_ret_then [keeps]: "keeps_inv F hand hand' (k x) \<Longrightarrow> keeps_inv F hand hand' (andThen (ret x) k)"
  by (simp add: keeps_inv_def)

lemma keeps_gets_then: "(\<And>x. keeps_inv F hand hand' (k x)) \<Longrightarrow> keeps_inv F hand hand' (andThen (gets f) k)"
  by (simp add: keeps_inv_def)

lemma keeps_gets_inv:
  "(\<And>s. rinv F hand s \<Longrightarrow> keeps_inv F hand hand' (k (f s))) \<Longrightarrow> keeps_inv F hand hand' (andThen (gets f) k)"
  by (simp add: keeps_inv_def)

lemma keeps_assoc [keeps]:
  "keeps_inv F hand hand' (andThen a (\<lambda>x. andThen (b x) c)) \<Longrightarrow> keeps_inv F hand hand' (andThen (andThen a b) c)"
  by (simp add: keeps_inv_def)

lemma keeps_if [keeps]:
  "(b \<Longrightarrow> keeps_inv F hand hand' m) \<Longrightarrow> (\<not> b \<Longrightarrow> keeps_inv F hand hand' m') \<Longrightarrow> keeps_inv F hand hand' (if b then m else m')"
  "(b \<Longrightarrow> keeps_inv F hand hand' (andThen a k)) \<Longrightarrow> (\<not> b \<Longrightarrow> keeps_inv F hand hand' (andThen a' k)) \<Longrightarrow>
     keeps_inv F hand hand' (andThen (if b then a else a') k)"
  by auto

lemma keeps_only_if [keeps]:
  "(b \<Longrightarrow> keeps_inv F hand hand m) \<Longrightarrow> keeps_inv F hand hand (only_if b m)"
  "(b \<Longrightarrow> keeps_inv F hand hand' (andThen m k)) \<Longrightarrow> (\<not> b \<Longrightarrow> keeps_inv F hand hand' (k ())) \<Longrightarrow>
     keeps_inv F hand hand' (andThen (only_if b m) k)"
  by (auto simp: keeps_inv_def)

lemma keeps_option [keeps]:
  "(x = None \<Longrightarrow> keeps_inv F hand hand' m) \<Longrightarrow> (\<And>y. x = Some y \<Longrightarrow> keeps_inv F hand hand' (f y)) \<Longrightarrow>
     keeps_inv F hand hand' (case x of None \<Rightarrow> m | Some y \<Rightarrow> f y)"
  by (cases x) auto

lemma keeps_sum [keeps]:
  "(\<And>a. x = Inl a \<Longrightarrow> keeps_inv F hand hand' (f a)) \<Longrightarrow> (\<And>b. x = Inr b \<Longrightarrow> keeps_inv F hand hand' (g b)) \<Longrightarrow>
     keeps_inv F hand hand' (case x of Inl a \<Rightarrow> f a | Inr b \<Rightarrow> g b)"
  by (cases x) auto

lemma keeps_prod [keeps]:
  "(\<And>a b. x = (a, b) \<Longrightarrow> keeps_inv F hand hand' (f a b)) \<Longrightarrow> keeps_inv F hand hand' (case x of (a, b) \<Rightarrow> f a b)"
  by (cases x) auto

lemma keeps_io [keeps]:
  "(\<And>a. x = Complete a \<Longrightarrow> keeps_inv F hand hand' (f a)) \<Longrightarrow> keeps_inv F hand hand' m \<Longrightarrow> keeps_inv F hand hand' m' \<Longrightarrow>
     keeps_inv F hand hand' (case x of Complete a \<Rightarrow> f a | WouldBlock \<Rightarrow> m | Failed \<Rightarrow> m')"
  by (cases x) auto

lemma keeps_list [keeps]:
  "(x = [] \<Longrightarrow> keeps_inv F hand hand' m) \<Longrightarrow> (\<And>a r. x = a # r \<Longrightarrow> keeps_inv F hand hand' (f a r)) \<Longrightarrow>
     keeps_inv F hand hand' (case x of [] \<Rightarrow> m | a # r \<Rightarrow> f a r)"
  by (cases x) auto

lemma keeps_nat [keeps]:
  "(x = 0 \<Longrightarrow> keeps_inv F hand hand' m) \<Longrightarrow> (\<And>n. x = Suc n \<Longrightarrow> keeps_inv F hand hand' (f n)) \<Longrightarrow>
     keeps_inv F hand hand' (case x of 0 \<Rightarrow> m | Suc n \<Rightarrow> f n)"
  by (cases x) auto

lemma keeps_cases_then [keeps]:
  "(x = None \<Longrightarrow> keeps_inv F hand hand' (andThen m k)) \<Longrightarrow> (\<And>y. x = Some y \<Longrightarrow> keeps_inv F hand hand' (andThen (f y) k)) \<Longrightarrow>
     keeps_inv F hand hand' (andThen (case x of None \<Rightarrow> m | Some y \<Rightarrow> f y) k)"
  "(\<And>a b. p = (a, b) \<Longrightarrow> keeps_inv F hand hand' (andThen (g a b) k)) \<Longrightarrow>
     keeps_inv F hand hand' (andThen (case p of (a, b) \<Rightarrow> g a b) k)"
  "(\<And>a. r = Complete a \<Longrightarrow> keeps_inv F hand hand' (andThen (h a) k)) \<Longrightarrow> keeps_inv F hand hand' (andThen m k) \<Longrightarrow>
     keeps_inv F hand hand' (andThen m' k) \<Longrightarrow>
     keeps_inv F hand hand' (andThen (case r of Complete a \<Rightarrow> h a | WouldBlock \<Rightarrow> m | Failed \<Rightarrow> m') k)"
  "(xs = [] \<Longrightarrow> keeps_inv F hand hand' (andThen m k)) \<Longrightarrow> (\<And>a l. xs = a # l \<Longrightarrow> keeps_inv F hand hand' (andThen (j a l) k)) \<Longrightarrow>
     keeps_inv F hand hand' (andThen (case xs of [] \<Rightarrow> m | a # l \<Rightarrow> j a l) k)"
  by (cases x; cases p; cases r; cases xs; simp)+

lemma keeps_expect [keeps]: "keeps_inv F hand hand' (k x) \<Longrightarrow> keeps_inv F hand hand' (andThen (expect (Some x)) k)"
  by (simp add: keeps_inv_def)

lemma keeps_seq:
  "keeps_inv F hand mid m \<Longrightarrow> (\<And>x. keeps_inv F mid hand' (k x)) \<Longrightarrow> keeps_inv F hand hand' (andThen m k)"
  by (auto simp: keeps_inv_def intro: wp_mono)

section \<open>Rules for the primitives\<close>

lemma keeps_change:
  assumes "\<And>s. rinv F hand s \<Longrightarrow> rinv F hand' (g s)"
  shows "keeps_inv F hand hand' (change g)"
  using assms by (auto simp: keeps_inv_def)

lemma keeps_fetch [keeps]:
  assumes "Live fid \<in> F"
    and "\<And>e. entry_ok e \<Longrightarrow> (InHandshake fid \<in> F \<Longrightarrow> entry_handshake e \<noteq> None) \<Longrightarrow>
      (\<And>key. HasKey fid key \<in> F \<Longrightarrow> entry_key e = key) \<Longrightarrow> keeps_inv F hand hand' (k e)"
  shows "keeps_inv F hand hand' (andThen (fetch fid) k)"
proof (unfold keeps_inv_def wp_andThen wp_fetch, intro allI impI)
  fix s
  assume s: "rinv F hand s"
  then obtain e where e: "table_get (tcp_flows s) fid = Some e"
    using rinv_live [OF _ assms(1)] by blast
  moreover have "entry_ok e" "InHandshake fid \<in> F \<Longrightarrow> entry_handshake e \<noteq> None"
    "HasKey fid key \<in> F \<Longrightarrow> entry_key e = key" for key
    using s e rinv_fact [OF s, of "InHandshake fid"] rinv_fact [OF s, of "HasKey fid key"]
    unfolding rinv_def by (blast, simp, simp)
  ultimately show "\<exists>e. table_get (tcp_flows s) fid = Some e \<and> wp (k e) (\<lambda>_. rinv F hand') (rinv F []) s"
    using assms(2) s unfolding keeps_inv_def by blast
qed

text \<open>\<open>flows.get\<close> without \<open>expect\<close>: a flow that is found is in the table.\<close>

lemma keeps_look [keeps]:
  assumes "keeps_inv F hand hand' (k None)" "\<And>e. entry_ok e \<Longrightarrow> keeps_inv (insert (Live fid) F) hand hand' (k (Some e))"
  shows "keeps_inv F hand hand' (andThen (gets (\<lambda>s. table_get (tcp_flows s) fid)) k)"
proof (unfold keeps_inv_def wp_andThen wp_simps, intro allI impI)
  fix s
  assume s: "rinv F hand s"
  show "wp (k (table_get (tcp_flows s) fid)) (\<lambda>_. rinv F hand') (rinv F []) s"
  proof (cases "table_get (tcp_flows s) fid")
    case None
    then show ?thesis
      using assms(1) s by (simp add: keeps_inv_def)
  next
    case (Some e)
    then have "rinv (insert (Live fid) F) hand s" "entry_ok e"
      using s unfolding rinv_def by (simp, blast)
    then have "wp (k (Some e)) (\<lambda>_. rinv (insert (Live fid) F) hand') (rinv (insert (Live fid) F) []) s"
      using assms(2) unfolding keeps_inv_def by blast
    then show ?thesis
      using Some by (auto intro: wp_mono rinv_more)
  qed
qed

text \<open>What a change of an entry has to respect.\<close>

definition entry_step :: "flow_id \<Rightarrow> state_fact set \<Rightarrow> (flow_entry \<Rightarrow> flow_entry) \<Rightarrow> bool" where
  "entry_step fid F g \<longleftrightarrow> (\<forall>e. entry_ok e \<and> (\<forall>key. HasKey fid key \<in> F \<longrightarrow> entry_key e = key) \<longrightarrow> entry_ok (g e) \<and> entry_key (g e) = entry_key e \<and>
     (InHandshake fid \<in> F \<and> entry_handshake e \<noteq> None \<longrightarrow> entry_handshake (g e) \<noteq> None))"

lemma rinv_modify:
  assumes s: "rinv F hand s" and g: "entry_step fid F g"
  shows "rinv F hand (s\<lparr>tcp_flows := table_modify fid g (tcp_flows s)\<rparr>)"
proof (cases "table_get (tcp_flows s) fid")
  case None
  then show ?thesis
    using s by (simp add: table_modify_def)
next
  case (Some e)
  have ok: "table_ok (tcp_flows s)" "entry_ok e"
    using s Some unfolding rinv_def by blast+
  note t = table_modify_ok [OF ok(1), of fid g]
  have get: "table_get (table_modify fid g (tcp_flows s)) = (table_get (tcp_flows s))(fid \<mapsto> g e)"
    using t Some by simp
  have "HasKey fid key \<in> F \<Longrightarrow> entry_key e = key" for key
    using rinv_fact [OF s, of "HasKey fid key"] Some by simp
  then have e: "entry_ok (g e)" "entry_key (g e) = entry_key e"
    "InHandshake fid \<in> F \<Longrightarrow> entry_handshake e \<noteq> None \<Longrightarrow> entry_handshake (g e) \<noteq> None"
    using g ok(2) by (auto simp: entry_step_def)
  moreover have "hm_get (by_key s) key = Some fid \<Longrightarrow> entry_key e = key" for key
    using s Some unfolding rinv_def by fastforce
  moreover have "fact_holds (table_modify fid g (tcp_flows s)) (r_config s) (socks_associations (datagrams s)) a" if "a \<in> F" for a
    using rinv_fact [OF s that] that e Some by (cases a) (auto simp: get)
  ultimately show ?thesis
    using s t Some unfolding rinv_def by (auto simp: get split: if_splits)
qed

lemma keeps_amend [keeps]:
  assumes "Live fid \<in> F" "entry_step fid F g"
  shows "keeps_inv F hand hand' (k ()) \<Longrightarrow> keeps_inv F hand hand' (andThen (amend fid g) k)"
    and "keeps_inv F hand hand (amend fid g)"
  using rinv_modify [OF _ assms(2)] rinv_live [OF _ assms(1)] unfolding keeps_inv_def wp_andThen wp_amend
  by (blast, blast)

lemma keeps_call [keeps]:
  assumes "\<And>r. keeps_inv F hand hand' (k r)"
  shows "keeps_inv F hand hand' (andThen (call sel upd) k)"
  using assms by (auto simp: keeps_inv_def wp_def call_def andThen_def split: list.split)

lemma keeps_must [keeps]:
  assumes "\<And>r. keeps_inv F hand hand' (k r)"
  shows "keeps_inv F hand hand' (andThen (must (call sel upd)) k)"
  unfolding must_def by (intro keeps assms)

lemma keeps_now [keeps]:
  assumes "\<And>t. keeps_inv F hand hand' (k t)"
  shows "keeps_inv F hand hand' (andThen now k)"
  using assms by (auto simp: keeps_inv_def wp_def now_def andThen_def split: list.split)

lemma keeps_log [keeps]:
  "keeps_inv F hand hand' (k ()) \<Longrightarrow> keeps_inv F hand hand' (andThen (change (kern_update g)) k)"
  by (simp add: keeps_inv_def)

lemma keeps_tap_write [keeps]:
  assumes "\<And>r. keeps_inv F hand hand' (k r)"
  shows "keeps_inv F hand hand' (andThen (sys_tap_write bs) k)"
  unfolding sys_tap_write_def by (intro keeps assms)

lemma keeps_send [keeps]:
  assumes "\<And>r. (\<And>n. r = Complete n \<Longrightarrow> n \<le> length bs) \<Longrightarrow> keeps_inv F hand hand' (k r)"
  shows "keeps_inv F hand hand' (andThen (sys_send fd bs) k)"
  unfolding sys_send_def by (intro keeps assms) (auto simp: map_io_Complete)

lemma keeps_peek [keeps]:
  assumes "\<And>r. (\<And>b. r = Complete b \<Longrightarrow> length b \<le> n) \<Longrightarrow> keeps_inv F hand hand' (k r)"
  shows "keeps_inv F hand hand' (andThen (sys_peek n) k)"
  unfolding sys_peek_def by (intro keeps assms) (auto simp: map_io_Complete)

lemma keeps_discard [keeps]:
  assumes "\<And>r. keeps_inv F hand hand' (k r)"
  shows "keeps_inv F hand hand' (andThen (sys_discard n) k)"
  unfolding sys_discard_def by (intro keeps assms)

lemma keeps_must_discard [keeps]:
  assumes "\<And>r. keeps_inv F hand hand' (k r)"
  shows "keeps_inv F hand hand' (andThen (must (sys_discard n)) k)"
  unfolding must_def by (intro keeps assms)

lemma keeps_unit_calls [keeps]:
  assumes "keeps_inv F hand hand' (k ())"
  shows "keeps_inv F hand hand' (andThen sys_epoll k)" "keeps_inv F hand hand' (andThen sys_sockopt k)"
  unfolding sys_epoll_def sys_sockopt_def using assms by (intro keeps; simp)+

lemma keeps_unit_calls_last [keeps]: "keeps_inv F hand hand sys_epoll" "keeps_inv F hand hand sys_sockopt"
  unfolding sys_epoll_def sys_sockopt_def must_def by (intro keeps)+

lemma keeps_error_call [keeps]:
  assumes "\<And>b. keeps_inv F hand hand' (k b)"
  shows "keeps_inv F hand hand' (andThen sys_error k)"
  unfolding sys_error_def by (intro keeps assms)

section \<open>Rules for frames\<close>

lemma rinv_frames:
  "rinv F hand s \<Longrightarrow> frames_ok (r_config s) t (hand' @ map qf_frame (tap_queue s)) \<Longrightarrow> rinv F hand' (s\<lparr>frames := t\<rparr>)"
  by (simp add: rinv_def)

lemma wp_release:
  assumes "rinv F (f # hand) s"
  shows "wp (release f) (\<lambda>_ s'. rinv F hand s' \<and> tap_queue s' = tap_queue s \<and> by_key s' = by_key s) E s"
proof -
  have "frames_ok (r_config s) (frames s) (f # hand @ map qf_frame (tap_queue s))"
    using assms by (simp add: rinv_def)
  then obtain t where "release_frame f (frames s) = Some t"
      "frames_ok (r_config s) t (hand @ map qf_frame (tap_queue s))"
    using release_frame_ok by blast
  then show ?thesis
    using rinv_frames [OF assms, of t hand] by (simp add: wp_def release_def on_frames_def)
qed

lemma keeps_release [keeps]:
  "keeps_inv F hand hand' (k ()) \<Longrightarrow> keeps_inv F (f # hand) hand' (andThen (release f) k)"
  "keeps_inv F (f # hand) hand (release f)"
  using wp_release [of F f hand] unfolding keeps_inv_def wp_andThen by (auto intro: wp_mono)

text \<open>An operation on the pools that yields a frame.\<close>

lemma wp_on_frames:
  assumes s: "rinv F hand s"
    and g: "\<And>fs. frames_ok (r_config s) (frames s) (hand @ fs) \<Longrightarrow> \<exists>r t'. g (frames s) = Some (r, t') \<and>
      (case r of Inl _ \<Rightarrow> frames_ok (r_config s) t' fs | Inr f \<Rightarrow> frames_ok (r_config s) t' (f # fs))"
  shows "wp (on_frames g) (\<lambda>f. rinv F [f]) (rinv F []) s"
proof -
  obtain r t' where "g (frames s) = Some (r, t')"
    "case r of Inl _ \<Rightarrow> frames_ok (r_config s) t' (map qf_frame (tap_queue s))
     | Inr f \<Rightarrow> frames_ok (r_config s) t' (f # map qf_frame (tap_queue s))"
    using g s unfolding rinv_def by blast
  then show ?thesis
    using rinv_frames [OF s, of t'] by (cases r) (auto simp: wp_def on_frames_def)
qed

lemma keeps_frame:
  assumes "\<And>s. rinv F hand s \<Longrightarrow> wp m (\<lambda>f. rinv F [f]) (rinv F []) s" "\<And>f. keeps_inv F [f] hand' (k f)"
  shows "keeps_inv F hand hand' (andThen m k)"
proof (unfold keeps_inv_def wp_andThen, intro allI impI)
  fix s
  assume "rinv F hand s"
  then show "wp m (\<lambda>x. wp (k x) (\<lambda>_. rinv F hand') (rinv F [])) (rinv F []) s"
    by (rule wp_mono [OF assms(1)]) (use assms(2) in \<open>simp_all add: keeps_inv_def\<close>)
qed

lemma entry_sides:
  assumes "entry_ok e"
  obtains "active_sides (construction e) = Some None"
  | sides where "active_sides (construction e) = Some (Some sides)" "namespace_key sides = entry_key e"
  using assms that
  by (auto simp: entry_ok_def active_sides_def namespace_key_def entry_key_def split: option.splits if_splits)

lemma keeps_active_key [keeps]:
  assumes "entry_ok e" "keeps_inv F hand hand' (k (entry_key e))"
  shows "keeps_inv F hand hand' (andThen (active_key msg e) k)"
  using assms(1)
proof (cases rule: entry_sides)
  case 1
  then show ?thesis
    by (simp add: active_key_def keeps_inv_def rinv_leak)
next
  case (2 sides)
  then show ?thesis
    using assms(2) by (simp add: active_key_def keeps_inv_def)
qed

lemma build_flow_frame_ok:
  assumes "frames_ok c t fs" "config_ok c" "entry_ok e"
  shows "\<exists>r t'. build_flow_frame big c (entry_flow e) (construction e) plan payload flags t = Some (r, t') \<and>
    (case r of Inl _ \<Rightarrow> frames_ok c t' fs | Inr f \<Rightarrow> frames_ok c t' (f # fs))"
  using assms(3)
proof (cases rule: entry_sides)
  case 1
  then show ?thesis
    using assms(1) by (simp add: build_flow_frame_def flow_frame_parameters_def)
next
  case (2 sides)
  moreover have "same_family (entry_key e)"
    using assms(3) by (simp add: entry_ok_def)
  ultimately show ?thesis
    using build_tcp_frame_ok [OF assms(1,2)] by (simp add: build_flow_frame_def flow_frame_parameters_def)
qed

lemma keeps_flow_frame [keeps]:
  assumes "\<And>f. keeps_inv F [f] hand' (k f)"
  shows "keeps_inv F [] hand' (andThen (flow_frame fid plan payload flags) k)"
proof (rule keeps_frame [OF _ assms])
  fix s
  assume s: "rinv F [] s"
  have ok: "config_ok (r_config s)" "table_get (tcp_flows s) fid = Some e \<Longrightarrow> entry_ok e" for e
    using s unfolding rinv_def by blast+
  show "wp (flow_frame fid plan payload flags) (\<lambda>f. rinv F [f]) (rinv F []) s"
    using s ok build_flow_frame_ok
    by (auto simp: flow_frame_def split: option.split intro!: wp_on_frames [OF s])
qed

lemma keeps_reset_frame [keeps]:
  assumes "same_family key" "\<And>f. keeps_inv F [f] hand' (k f)"
  shows "keeps_inv F [] hand' (andThen (reset_frame key ack) k)"
proof (rule keeps_frame [OF _ assms(2)])
  fix s
  assume s: "rinv F [] s"
  then have "config_ok (r_config s)"
    by (simp add: rinv_def)
  then show "wp (reset_frame key ack) (\<lambda>f. rinv F [f]) (rinv F []) s"
    using build_tcp_frame_ok assms(1) by (auto simp: reset_frame_def build_reset_def intro!: wp_on_frames [OF s])
qed

section \<open>Rules for the state\<close>

lemma keeps_gets [keeps]:
  "(\<And>x. keeps_inv F hand hand' (k x)) \<Longrightarrow> keeps_inv F hand hand' (andThen (gets (\<lambda>s. s)) k)"
  "(\<And>x. keeps_inv F hand hand' (k1 x)) \<Longrightarrow> keeps_inv F hand hand' (andThen (gets tap_queue) k1)"
  "(\<And>x. keeps_inv F hand hand' (k3 x)) \<Longrightarrow> keeps_inv F hand hand' (andThen (gets test_local_isn) k3)"
  "(\<And>x. keeps_inv F hand hand' (k2 x)) \<Longrightarrow> keeps_inv F hand hand' (andThen (gets test_drop_tcp_fin_ack) k2)"
  "(\<And>x. keeps_inv F hand hand' (k2 x)) \<Longrightarrow> keeps_inv F hand hand' (andThen (gets test_drop_tcp_retransmit) k2)"
  "(\<And>x. keeps_inv F hand hand' (k2 x)) \<Longrightarrow> keeps_inv F hand hand' (andThen (gets test_suppress_event_ack_refresh) k2)"
  "(\<And>x. keeps_inv F hand hand' (k2 x)) \<Longrightarrow> keeps_inv F hand hand' (andThen (gets (\<lambda>s. pool_available (frame_pool (frames s)))) k2)"
  by (simp_all add: keeps_inv_def)

lemma keeps_config [keeps]:
  assumes "\<And>c. config_ok c \<Longrightarrow> (\<And>c'. Config c' \<in> F \<Longrightarrow> c = c') \<Longrightarrow> keeps_inv F hand hand' (k c)"
  shows "keeps_inv F hand hand' (andThen (gets r_config) k)"
  unfolding keeps_inv_def
proof (intro allI impI)
  fix s
  assume s: "rinv F hand s"
  have "config_ok (r_config s)" "Config c' \<in> F \<Longrightarrow> r_config s = c'" for c'
    using s rinv_fact [OF s, of "Config c'"] by (simp_all add: rinv_def)
  then show "wp (andThen (gets r_config) k) (\<lambda>_. rinv F hand') (rinv F []) s"
    using assms s by (simp add: keeps_inv_def)
qed

lemma keeps_fields [keeps]:
  "keeps_inv F hand hand' (k ()) \<Longrightarrow> keeps_inv F hand hand' (andThen (change (test_drop_tcp_data_update b)) k)"
  "keeps_inv F hand hand' (k ()) \<Longrightarrow> keeps_inv F hand hand' (andThen (change (test_drop_tcp_retransmit_update b)) k)"
  "keeps_inv F hand hand' (k ()) \<Longrightarrow> keeps_inv F hand hand' (andThen (change (test_drop_tcp_syn_ack_update b)) k)"
  "keeps_inv F hand hand' (k ()) \<Longrightarrow> keeps_inv F hand hand' (andThen (change (test_drop_tcp_fin_update b)) k)"
  "keeps_inv F hand hand' (k ()) \<Longrightarrow> keeps_inv F hand hand' (andThen (change (test_drop_tcp_ack_update b)) k)"
  "keeps_inv F hand hand' (k ()) \<Longrightarrow> keeps_inv F hand hand' (andThen (change (test_drop_tcp_fin_ack_update b)) k)"
  "keeps_inv F hand hand' (k ()) \<Longrightarrow> keeps_inv F hand hand' (andThen (change (test_suppress_event_ack_refresh_update b)) k)"
  "keeps_inv F hand hand' (k ()) \<Longrightarrow> keeps_inv F hand hand' (andThen (change (ack_refresh_queue_update c)) k)"
  "keeps_inv F hand hand' (k ()) \<Longrightarrow> keeps_inv F hand hand' (andThen (change (timer_cursor_slot_update d)) k)"
  "keeps_inv F hand hand' (k ()) \<Longrightarrow> keeps_inv F hand hand' (andThen (change (pending_pressure_dirty_update g)) k)"
  by (simp_all add: keeps_inv_def)

lemma keeps_fields_last [keeps]:
  "keeps_inv F hand hand (change (test_drop_tcp_data_update b))"
  "keeps_inv F hand hand (change (test_drop_tcp_retransmit_update b))"
  "keeps_inv F hand hand (change (test_drop_tcp_syn_ack_update b))"
  "keeps_inv F hand hand (change (test_drop_tcp_fin_update b))"
  "keeps_inv F hand hand (change (test_drop_tcp_ack_update b))"
  "keeps_inv F hand hand (change (test_drop_tcp_fin_ack_update b))"
  "keeps_inv F hand hand (change (test_suppress_event_ack_refresh_update b))"
  "keeps_inv F hand hand (change (ack_refresh_queue_update c))"
  "keeps_inv F hand hand (change (timer_cursor_slot_update d))"
  "keeps_inv F hand hand (change (pending_pressure_dirty_update g))"
  "keeps_inv F hand hand (change (shutting_down_update g))"
  by (simp_all add: keeps_inv_def)

lemma keeps_exhaustion [keeps]:
  "keeps_inv F hand hand' (k ()) \<Longrightarrow> keeps_inv F hand hand' (andThen (change (frames_update note_frame_pool_exhaustion)) k)"
  "keeps_inv F hand hand (change (frames_update note_frame_pool_exhaustion))"
proof -
  have "rinv F hand s \<Longrightarrow> rinv F hand (frames_update note_frame_pool_exhaustion s)" for s hand
    by (simp add: rinv_def frames_ok_def note_frame_pool_exhaustion_def)
  then show "keeps_inv F hand hand' (k ()) \<Longrightarrow> keeps_inv F hand hand' (andThen (change (frames_update note_frame_pool_exhaustion)) k)"
    "keeps_inv F hand hand (change (frames_update note_frame_pool_exhaustion))"
    by (simp_all add: keeps_inv_def)
qed

lemma keeps_reserve [keeps]:
  "(\<And>b. keeps_inv F hand hand' (k b)) \<Longrightarrow> keeps_inv F hand hand' (andThen (reserve_retained_bytes n) k)"
proof -
  have "rinv F hand s \<Longrightarrow> \<not> n > max_retained_tcp_bytes (r_config s) - retained_socket_bytes s \<Longrightarrow>
      rinv F hand (retained_socket_bytes_update (\<lambda>m. m + n) s)" for s
    by (auto simp: rinv_def)
  then show "(\<And>b. keeps_inv F hand hand' (k b)) \<Longrightarrow> keeps_inv F hand hand' (andThen (reserve_retained_bytes n) k)"
    by (simp add: keeps_inv_def reserve_retained_bytes_def)
qed

lemma keeps_release_retained [keeps]:
  "keeps_inv F hand hand' (k ()) \<Longrightarrow> keeps_inv F hand hand' (andThen (release_retained_bytes n) k)"
  "keeps_inv F hand hand (release_retained_bytes n)"
  by (auto simp: keeps_inv_def release_retained_bytes_def rinv_def)

lemma keeps_pressure [keeps]:
  "keeps_inv F hand hand' (k ()) \<Longrightarrow> keeps_inv F hand hand' (andThen update_pending_pressure_state k)"
  by (simp add: keeps_inv_def update_pending_pressure_state_def Let_def)

lemma keeps_queued_test [keeps]:
  "(\<And>b. keeps_inv F hand hand' (k b)) \<Longrightarrow> keeps_inv F hand hand' (andThen (flow_queued fid) k)"
  by (simp add: keeps_inv_def flow_queued_def)

text \<open>A flow that is not closed is in the table.\<close>

lemma keeps_closed_test [keeps]:
  assumes "keeps_inv F hand hand' (k True)" "keeps_inv (insert (Live fid) F) hand hand' (k False)"
  shows "keeps_inv F hand hand' (andThen (flow_is_closed fid) k)"
  unfolding keeps_inv_def
proof (intro allI impI)
  fix s
  assume s: "rinv F hand s"
  define closed where "closed = (case table_get (tcp_flows s) fid of None \<Rightarrow> True | Some e \<Rightarrow> state (entry_flow e) = Closed)"
  have "wp (k closed) (\<lambda>_. rinv F hand') (rinv F []) s"
  proof (cases closed)
    case True
    then show ?thesis
      using assms(1) s by (simp add: keeps_inv_def)
  next
    case False
    then have "rinv (insert (Live fid) F) hand s"
      using s by (auto simp: closed_def rinv_def split: option.splits)
    then show ?thesis
      using assms(2) False unfolding keeps_inv_def by (auto intro: wp_mono rinv_more)
  qed
  then show "wp (andThen (flow_is_closed fid) k) (\<lambda>_. rinv F hand') (rinv F []) s"
    by (simp add: flow_is_closed_def closed_def)
qed

text \<open>Which changes of an entry are steps.\<close>

lemma entry_steps [keeps]:
  "entry_step fid F (entry_flow_update a)" "entry_step fid F (sent_segments_update b)"
  "entry_step fid F (upstream_window_clamp_update c)" "entry_step fid F (entry_probe_update d)"
  "entry_step fid F (last_namespace_byte_update e)" "entry_step fid F (pending_shutdown_update f)"
  "entry_step fid F (transport_connected_update f)" "entry_step fid F (armed_socket_interest_update g)"
  by (simp_all add: entry_step_def entry_ok_def entry_key_def)

lemma entry_step_pending [keeps]: "queue_ok q \<Longrightarrow> entry_step fid F (pending_socket_update (\<lambda>_. q))"
  by (simp add: entry_step_def entry_ok_def entry_key_def)

lemma entry_step_handshake [keeps]: "handshake_ok h \<Longrightarrow> entry_step fid F (entry_handshake_update (\<lambda>_. Some h))"
  "InHandshake fid \<notin> F \<Longrightarrow> entry_step fid F (entry_handshake_update (\<lambda>_. None))"
  by (simp_all add: entry_step_def entry_ok_def entry_key_def)

section \<open>The TAP queue\<close>

lemma keeps_tap_interest [keeps]: "keeps_inv F hand hand update_tap_interest"
  unfolding update_tap_interest_def by (rule keeps_gets_then) (intro keeps)

lemma keeps_injected_drop [keeps]:
  "(\<And>b. keeps_inv F hand hand' (k b)) \<Longrightarrow> keeps_inv F hand hand' (andThen (injected_drop plan) k)"
  unfolding injected_drop_def by (intro keeps) simp_all

lemma keeps_commit_plan: "keeps_inv F hand hand (commit_plan fid plan)"
  unfolding commit_plan_def Let_def by (intro keeps) simp_all

lemma keeps_commit_tap_send [keeps]: "keeps_inv F (f # hand) hand (commit_tap_send flow_of f plan_of)"
  unfolding commit_tap_send_def
  by (rule keeps_seq [where mid = "f # hand"]) (intro keeps keeps_commit_plan)+

lemma keeps_abandon [keeps]: "keeps_inv F (f # hand) hand' (abandon n f e)"
  unfolding abandon_def by (intro keeps)

text \<open>A frame moves from the hand to the end of the queue.\<close>

lemma keeps_enqueue:
  assumes "qf_frame fr = f"
  shows "keeps_inv F [f] [] (change (tap_queue_update (\<lambda>q. q @ [fr])))"
proof (rule keeps_change)
  fix s
  assume s: "rinv F [f] s"
  then have "frames_ok (r_config s) (frames s) (map qf_frame (tap_queue s @ [fr]))"
    using assms by (auto simp: rinv_def intro: frames_ok_perm [rotated])
  then show "rinv F [] (tap_queue_update (\<lambda>q. q @ [fr]) s)"
    using s by (simp add: rinv_def)
qed

lemma keeps_queue_tap [keeps]: "keeps_inv F [f] [] (queue_tap flow_of f plan_of)"
  unfolding queue_tap_def Let_def by (intro keeps keeps_seq [OF keeps_enqueue]) simp_all

text \<open>The front of the queue moves into the hand.\<close>

lemma keeps_pop:
  assumes "\<And>fr rest. keeps_inv F [qf_frame fr] hand' (k fr rest)" "keeps_inv F [] hand' m"
  shows "keeps_inv F [] hand' (andThen (gets tap_queue) (\<lambda>q.
    case q of [] \<Rightarrow> m | fr # rest \<Rightarrow> andThen (change (tap_queue_update tl)) (\<lambda>_. k fr rest)))"
  unfolding keeps_inv_def
proof (intro allI impI)
  fix s
  assume s: "rinv F [] s"
  moreover have "tap_queue s = fr # rest \<Longrightarrow> rinv F [qf_frame fr] (tap_queue_update tl s)" for fr rest
    using s by (simp add: rinv_def)
  ultimately show "wp (andThen (gets tap_queue) (\<lambda>q. case q of [] \<Rightarrow> m
      | fr # rest \<Rightarrow> andThen (change (tap_queue_update tl)) (\<lambda>_. k fr rest))) (\<lambda>_. rinv F hand') (rinv F []) s"
    using assms unfolding keeps_inv_def by (auto split: list.split)
qed

lemma keeps_push_front: "keeps_inv F [qf_frame fr] [] (change (tap_queue_update ((#) fr)))"
  by (rule keeps_change) (simp add: rinv_def)

lemma keeps_flush_loop: "keeps_inv F [] [] (flush_tap_loop n)"
proof (induction n)
  case (Suc n)
  show ?case
    unfolding flush_tap_loop.simps Let_def
    by (intro keeps_pop keeps keeps_push_front keeps_seq [OF keeps_commit_tap_send] Suc)
qed (simp add: keeps_ret)

lemma keeps_flush_tap_queue [keeps]: "keeps_inv F [] [] flush_tap_queue"
  unfolding flush_tap_queue_def by (rule keeps_seq [OF keeps_flush_loop]) (intro keeps)

lemmas keeps_then_tap [keeps] = keeps_seq [OF keeps_queue_tap] keeps_seq [OF keeps_tap_interest]
  keeps_seq [OF keeps_flush_tap_queue]

section \<open>Closing a flow\<close>

definition unmapped :: "flow_id \<Rightarrow> reactor \<Rightarrow> bool" where
  "unmapped fid s \<longleftrightarrow> (\<forall>key. hm_get (by_key s) key \<noteq> Some fid)"

lemma rinv_defer:
  assumes s: "rinv F hand s" and u: "unmapped fid s"
  shows "rinv F hand (tcp_flows_update (defer_remove fid) s)"
proof -
  have ok: "table_ok (tcp_flows s)"
    using s by (simp add: rinv_def)
  have "set (deferred (defer_remove fid (tcp_flows s))) \<subseteq> insert fid (set (deferred (tcp_flows s)))"
    by (auto simp: defer_remove_def)
  moreover have "fact_holds (defer_remove fid (tcp_flows s)) c g a = fact_holds (tcp_flows s) c g a" for c g a
    using defer_remove_ok [OF ok, of fid] by (cases a) simp_all
  ultimately show ?thesis
    using s u defer_remove_ok [OF ok, of fid] unfolding rinv_def unmapped_def by auto
qed

lemma rinv_unmap:
  assumes s: "rinv F hand s" and e: "table_get (tcp_flows s) fid = Some e"
  shows "rinv F hand (by_key_update (hm_remove (entry_key e)) s)"
    and "unmapped fid (by_key_update (hm_remove (entry_key e)) s)"
  using s e unfolding rinv_def unmapped_def by (auto split: if_splits) fastforce+

lemma wp_epoll: "(\<And>k. Q () (s\<lparr>kern := k\<rparr>)) \<Longrightarrow> (\<And>k. E (s\<lparr>kern := k\<rparr>)) \<Longrightarrow> wp sys_epoll Q E s"
proof -
  assume Q: "\<And>k. Q () (s\<lparr>kern := k\<rparr>)" and E: "\<And>k. E (s\<lparr>kern := k\<rparr>)"
  show "wp sys_epoll Q E s"
    using Q [of "kern s"] E [of "kern s"] Q E
    by (auto simp: wp_def sys_epoll_def must_def call_def andThen_def ret_def raise_def split: list.split io.split)
qed

lemma wp_drop_queued:
  assumes "rinv F (map qf_frame kept) s" "tap_queue s = fs" "unmapped fid' s"
  shows "wp (drop_queued fid fs kept)
    (\<lambda>kept' s'. rinv F (map qf_frame kept') s' \<and> tap_queue s' = [] \<and> unmapped fid' s') (rinv F []) s"
  using assms
proof (induction fs arbitrary: kept s)
  case Nil
  then show ?case
    by simp
next
  case (Cons fr rest)
  have "frames_ok (r_config s) (frames s) (qf_frame fr # map qf_frame kept @ map qf_frame rest)"
    using Cons.prems by (auto simp: rinv_def intro: frames_ok_perm [rotated])
  then have pop: "rinv F (qf_frame fr # map qf_frame kept) (tap_queue_update tl s)"
    using Cons.prems by (simp add: rinv_def)
  have perm: "rinv F (map qf_frame (kept @ [fr])) (tap_queue_update tl s)"
    using pop by (auto simp: rinv_def intro: frames_ok_perm [rotated])
  show ?case
  proof (cases "qf_flow fr = Some fid")
    case False
    then show ?thesis
      using Cons.IH [OF perm] Cons.prems by (simp add: unmapped_def)
  next
    case True
    have "rinv F (qf_frame fr # map qf_frame kept)
        (retained_socket_bytes_update (\<lambda>n. n - reserved_retained fr) (tap_queue_update tl s))"
      using pop by (auto simp: rinv_def)
    then show ?thesis
      using True Cons.prems by (auto simp: release_retained_bytes_def unmapped_def
          intro!: wp_mono [OF wp_release] Cons.IH [unfolded unmapped_def])
  qed
qed

lemma wp_return_budgets:
  assumes "rinv F hand s" "unmapped fid s"
  shows "wp (return_budgets e) (\<lambda>_ s'. rinv F hand s' \<and> unmapped fid s') E s"
  using assms
  by (auto simp: return_budgets_def update_pending_pressure_state_def release_retained_bytes_def Let_def
      unmapped_def rinv_def)

lemma wp_retire:
  assumes s: "rinv F [] s" and u: "unmapped fid s" and d: "Live fid \<in> F"
  shows "wp (retire_flow fid) (\<lambda>_. rinv F []) (rinv F []) s"
proof -
  have "rinv F [] (tcp_flows_update (defer_remove fid)
      (s\<lparr>kern := k, tcp_flows := table_modify fid (entry_flow_update flow_close) (tcp_flows s)\<rparr>))" for k
    using rinv_modify [of F "[]" "s\<lparr>kern := k\<rparr>" fid] s u
    by (intro rinv_defer) (simp_all add: unmapped_def entry_steps)
  then show ?thesis
    using s rinv_live [OF s d] by (auto simp: retire_flow_def update_tap_interest_def wp_amend intro!: wp_epoll)
qed

text \<open>\<open>close_flow\<close> once the key of the flow is out of the index.\<close>

lemma wp_close_unmapped:
  assumes "rinv F [] s" "unmapped fid s" "Live fid \<in> F"
  shows "wp (andThen (gets tap_queue) (\<lambda>q. andThen (drop_queued fid q []) (\<lambda>retained.
    andThen (change (tap_queue_update (\<lambda>_. retained))) (\<lambda>_. andThen (return_budgets e) (\<lambda>_. retire_flow fid)))))
    (\<lambda>_. rinv F []) (rinv F []) s"
proof -
  have "wp (return_budgets e) (\<lambda>_. wp (retire_flow fid) (\<lambda>_. rinv F []) (rinv F [])) (rinv F []) (tap_queue_update (\<lambda>_. kept) s')"
    if "rinv F (map qf_frame kept) s'" "tap_queue s' = []" "unmapped fid s'" for kept s'
  proof -
    have "rinv F [] (tap_queue_update (\<lambda>_. kept) s')" "unmapped fid (tap_queue_update (\<lambda>_. kept) s')"
      using that by (simp_all add: rinv_def unmapped_def)
    then show ?thesis
      using wp_retire [OF _ _ assms(3)] by (auto intro: wp_mono [OF wp_return_budgets])
  qed
  then show ?thesis
    using assms by (auto intro: wp_mono [OF wp_drop_queued [where kept = "[]" and fid' = fid]])
qed

lemma keeps_close_flow [keeps]: "keeps_inv F [] [] (close_flow fid)"
  unfolding keeps_inv_def
proof (intro allI impI)
  fix s
  assume s: "rinv F [] s"
  show "wp (close_flow fid) (\<lambda>_. rinv F []) (rinv F []) s"
  proof (cases "table_get (tcp_flows s) fid")
    case None
    then show ?thesis
      using s by (simp add: close_flow_def)
  next
    case (Some e)
    let ?D = "insert (Live fid) F"
    have s': "rinv ?D [] (s\<lparr>kern := k\<rparr>)" "table_get (tcp_flows (s\<lparr>kern := k\<rparr>)) fid = Some e"
      and e: "entry_ok e" for k
      using s Some unfolding rinv_def by auto
    have "wp (close_flow fid) (\<lambda>_. rinv ?D []) (rinv ?D []) s"
      using e
    proof (cases rule: entry_sides)
      case 1
      then show ?thesis
        using s' [of "kern s"] Some by (simp add: close_flow_def active_key_def)
    next
      case (2 sides)
      then show ?thesis
        using Some s' wp_close_unmapped [OF rinv_unmap [OF s']]
        by (auto simp: close_flow_def active_key_def intro!: wp_epoll)
    qed
    then show ?thesis
      by (auto intro: wp_mono rinv_more)
  qed
qed

end
