(* ===== verification/Reactor_Reply.thy ===== *)
theory Reactor_Reply
  imports Reactor_Invariant
begin

text \<open>
  Frames that carry datagrams, ICMP errors and answers to address resolution into the namespace
  (\<open>queue_udp_frame\<close>, \<open>queue_udp_icmp_for\<close>, \<open>handle_arp\<close> and \<open>handle_icmpv6\<close> of \<open>crates/dataplane/src/reactor.rs\<close>). The
  writers of \<open>crates/packet\<close> work in place, so a pooled buffer keeps its capacity.
\<close>

section \<open>Datagrams\<close>

text \<open>The result is whether the frame was built; a dry pool drops it.\<close>

definition queue_udp_frame :: "socket_addr \<Rightarrow> socket_addr \<Rightarrow> bytes \<Rightarrow> bool act" where
  "queue_udp_frame receiver sender payload = andThen (gets r_config) (\<lambda>c.
     andThen (on_frames (build_udp_frame c receiver sender payload)) (\<lambda>r.
       case r of
         None \<Rightarrow> ret False
       | Some f \<Rightarrow> andThen (queue_tap None f None) (\<lambda>_. ret True)))"

section \<open>ICMP errors\<close>

text \<open>\<open>queue_udp_icmp_for\<close> up to the hand-over to the TAP queue; \<open>Inr None\<close> is the counted drop when the pool is dry.\<close>

definition build_udp_icmp ::
  "reactor_config \<Rightarrow> socket_addr \<Rightarrow> socket_addr \<Rightarrow> bytes \<Rightarrow> usize \<Rightarrow> udp_error \<Rightarrow> tap_frames \<Rightarrow>
     ((reactor_error + pooled_frame option) \<times> tap_frames) option" where
  "build_udp_icmp c sender receiver payload original_payload_len error t =
     (case pool_acquire (frame_pool t) of
        None \<Rightarrow> None
      | Some (None, pool) \<Rightarrow> Some (Inr None, note_frame_pool_exhaustion (t\<lparr>frame_pool := pool\<rparr>))
      | Some (Some (index, buffer), pool) \<Rightarrow>
          let f = \<lparr>pf_tier = Mtu, pf_index = index, pf_buffer = buffer\<rparr>;
              t = t\<lparr>frame_pool := pool\<rparr>;
              vnet_len = vnet_len_of c;
              ip_offset = vnet_len + ETHERNET_HEADER_LEN;
              bs = fb_bytes buffer;
              put = (\<lambda>bs. fb_writable (\<lambda>_. bs) buffer)
          in if ip_offset > length bs then None
             else (case on_slice vnet_len (length bs)
                     (eth_write_header (target_mac c) (gateway_mac c) (frame_ether_type sender)) (fill bs 0 vnet_len 0) of
                (Inl e, bs) \<Rightarrow> give_up (PacketError e) (f\<lparr>pf_buffer := put bs\<rparr>) t
              | (Inr _, bs) \<Rightarrow>
                  (case on_slice ip_offset (length bs)
                      (write_udp_error sender receiver (take (min (length payload) 8) payload) original_payload_len error) bs of
                     (Inl e, bs) \<Rightarrow> give_up (PacketError e) (f\<lparr>pf_buffer := put bs\<rparr>) t
                   | (Inr ip_length, bs) \<Rightarrow>
                       (case fb_set_len (ip_offset + ip_length) (put bs) of
                          None \<Rightarrow> None
                        | Some buffer \<Rightarrow> Some (Inr (Some (f\<lparr>pf_buffer := buffer\<rparr>)), t)))))"

definition queue_udp_icmp_for :: "socket_addr \<Rightarrow> socket_addr \<Rightarrow> bytes \<Rightarrow> usize \<Rightarrow> udp_error \<Rightarrow> unit act" where
  "queue_udp_icmp_for sender receiver payload original_payload_len error = andThen (gets r_config) (\<lambda>c.
     andThen (on_frames (build_udp_icmp c sender receiver payload original_payload_len error)) (\<lambda>r.
       case r of
         None \<Rightarrow> ret ()
       | Some f \<Rightarrow> queue_tap None f None))"

section \<open>Writers in place\<close>

definition in_place :: "('a list \<Rightarrow> 'r \<times> 'a list) \<Rightarrow> bool" where
  "in_place w \<longleftrightarrow> (\<forall>out. length (snd (w out)) = length out)"

lemma in_place_length: "in_place w \<Longrightarrow> w out = (r, out') \<Longrightarrow> length out' = length out"
  unfolding in_place_def by (metis snd_conv)

lemma in_place_slice:
  assumes "on_slice a b w out = (r, out')" "in_place w" "a \<le> b" "b \<le> length out"
  shows "length out' = length out"
  using assms in_place_length [OF assms(2), of "subslice a b out"]
  by (auto simp: on_slice_def split: prod.splits)

lemma in_place_ethernet: "length d = 6 \<Longrightarrow> length s = 6 \<Longrightarrow> in_place (eth_write_header d s t)"
  by (auto simp: in_place_def eth_write_header_def Let_def ETHERNET_HEADER_LEN_def)

lemma in_place_udp: "in_place (udp_write_header sp dp n)"
  by (auto simp: in_place_def udp_write_header_def Let_def checked_add_usize_def UDP_HEADER_LEN_def split: option.split)

lemma in_place_udp_checksum: "in_place (udp_set_ipv4_checksum s d)" "in_place (udp_set_ipv6_checksum s d)"
  by (auto simp: in_place_def udp_set_ipv4_checksum_def udp_set_ipv6_checksum_def Let_def UDP_HEADER_LEN_def)

lemma in_place_ip:
  "length s = 4 \<Longrightarrow> length d = 4 \<Longrightarrow> in_place (write_ipv4_header s d p n i)"
  "length s' = 16 \<Longrightarrow> length d' = 16 \<Longrightarrow> in_place (write_ipv6_header s' d' p n)"
  by (auto simp: in_place_def write_ipv4_header_def write_ipv6_header_def Let_def checked_add_usize_def)

lemma in_place_finish:
  assumes "in_place ip" "in_place cs" "a \<le> b" "b \<le> n" "n \<le> length out" "finish_packet a b n ip cs out = (r, out')"
  shows "length out' = length out"
  using assms in_place_slice [of a n ip out] in_place_slice [of b n cs]
  by (fastforce simp: finish_packet_def split: prod.splits sum.splits)

lemma in_place_udp_ip:
  assumes "wf_addr sender" "wf_addr receiver" "a \<le> b" "b \<le> n" "n \<le> length out"
    "udp_write_ip sender receiver a b n len out = (r, out')"
  shows "length out' = length out"
proof -
  have v4: "length out' = length out"
    if "length s = 4" "length d = 4" "finish_packet a b n (write_ipv4_header s d p l i) (udp_set_ipv4_checksum s d) out = (r, out')" for s d p l i
    using in_place_finish [OF in_place_ip(1) in_place_udp_checksum(1) assms(3-5)] that by blast
  have v6: "length out' = length out"
    if "length s = 16" "length d = 16" "finish_packet a b n (write_ipv6_header s d p l) (udp_set_ipv6_checksum s d) out = (r, out')" for s d p l
    using in_place_finish [OF in_place_ip(2) in_place_udp_checksum(2) assms(3-5)] that by blast
  show ?thesis
    using assms(1,2,6) by (cases sender; cases receiver) (auto simp: udp_write_ip_def wf_addr_def intro: v4 v6)
qed

lemma write_udp_frame_length:
  assumes "write_udp_frame c receiver sender payload bs = (r, bs')" "config_ok c" "wf_addr receiver" "wf_addr sender"
    and n: "n = vnet_len_of c + ETHERNET_HEADER_LEN + ip_header_len receiver + UDP_HEADER_LEN + length payload" "n \<le> length bs"
  shows "length bs' = length bs \<and> (\<forall>m. r = Inr m \<longrightarrow> m = n)"
proof -
  let ?v = "vnet_len_of c" and ?u = "vnet_len_of c + ETHERNET_HEADER_LEN + ip_header_len receiver"
  obtain r1 b1 where 1: "on_slice ?v (length bs) (eth_write_header (target_mac c) (gateway_mac c) (frame_ether_type receiver))
      (fill bs 0 ?v 0) = (r1, b1)"
    by fastforce
  have l1: "length b1 = length bs"
    using in_place_slice [OF 1 in_place_ethernet] assms(2) n by (simp add: config_ok_def)
  let ?b = "copy_at (?u + UDP_HEADER_LEN) payload b1"
  have b: "length ?b = length bs"
    using n l1 by simp
  obtain r2 b2 where 2: "on_slice ?u n (udp_write_header (addr_port sender) (addr_port receiver) (length payload)) ?b = (r2, b2)"
    by fastforce
  have l2: "length b2 = length bs"
    using in_place_slice [OF 2 in_place_udp] b n by simp
  obtain r3 b3 where 3: "udp_write_ip sender receiver (?v + ETHERNET_HEADER_LEN) ?u n (UDP_HEADER_LEN + length payload) b2 = (r3, b3)"
    by fastforce
  have l3: "length b3 = length bs"
    using in_place_udp_ip [OF assms(4,3) _ _ _ 3] l2 n by simp
  have len: "length (fill bs 0 ?v 0) = length bs"
    using n by simp
  show ?thesis
    using assms(1) 1 2 3 n l1 l2 l3
    by (auto simp: write_udp_frame_def Let_def len split: sum.splits)
qed

section \<open>Frames and the pool\<close>

text \<open>A written buffer keeps its capacity, so its frame may be kept or handed back.\<close>

lemma written_frame:
  assumes "frames_ok c t (f # fs)" "length bs = fb_capacity (pf_buffer f)"
  shows "frames_ok c t (f\<lparr>pf_buffer := fb_writable (\<lambda>_. bs) (pf_buffer f)\<rparr> # fs)"
    and "n \<le> length bs \<Longrightarrow> \<exists>b. fb_set_len n (fb_writable (\<lambda>_. bs) (pf_buffer f)) = Some b \<and> frames_ok c t (f\<lparr>pf_buffer := b\<rparr> # fs)"
  using assms(2) frames_ok_buffer [OF assms(1)]
  by (auto simp: fb_writable_def fb_capacity_def fb_set_len_def)

lemma give_up_builder:
  assumes "frames_ok c t (f # fs)"
  shows "\<exists>r t'. give_up e f t = Some (r :: reactor_error + pooled_frame option, t') \<and>
    (case r of Inr (Some f) \<Rightarrow> frames_ok c t' (f # fs) | _ \<Rightarrow> frames_ok c t' fs)"
  using give_up_ok [OF assms] by (metis sum.case(1))

lemma written_give_up:
  assumes "frames_ok c t (f # fs)" "length bs = fb_capacity (pf_buffer f)"
  shows "\<exists>r t'. give_up e (f\<lparr>pf_buffer := fb_writable (\<lambda>_. bs) (pf_buffer f)\<rparr>) t = Some (r :: reactor_error + pooled_frame option, t') \<and>
    (case r of Inr (Some f) \<Rightarrow> frames_ok c t' (f # fs) | _ \<Rightarrow> frames_ok c t' fs)"
  using give_up_builder [OF written_frame(1) [OF assms]] .

lemma pool_acquire_frame:
  assumes "frames_ok c t fs"
  obtains (dry) p where "pool_acquire (frame_pool t) = Some (None, p)" "frames_ok c (note_frame_pool_exhaustion (t\<lparr>frame_pool := p\<rparr>)) fs"
  | (frame) i b p where "pool_acquire (frame_pool t) = Some (Some (i, b), p)"
      "frames_ok c (t\<lparr>frame_pool := p\<rparr>) (\<lparr>pf_tier = Mtu, pf_index = i, pf_buffer = b\<rparr> # fs)"
  using acquire_frame_ok [OF assms] that
  by (auto simp: acquire_frame_def split: option.splits)

lemma build_udp_frame_ok:
  assumes ok: "frames_ok c t fs" and c: "config_ok c" and wf: "wf_addr receiver" "wf_addr sender"
  shows "\<exists>r t'. build_udp_frame c receiver sender payload t = Some (r, t') \<and>
    (case r of Inr (Some f) \<Rightarrow> frames_ok c t' (f # fs) | _ \<Rightarrow> frames_ok c t' fs)"
  using ok
proof (cases rule: pool_acquire_frame)
  case (dry p)
  then show ?thesis
    by (simp add: build_udp_frame_def Let_def)
next
  case (frame i b p)
  let ?n = "vnet_len_of c + ETHERNET_HEADER_LEN + ip_header_len receiver + UDP_HEADER_LEN + length payload"
  show ?thesis
  proof (cases "?n > fb_capacity b")
    case True
    then show ?thesis
      using frame(1) give_up_builder [OF frame(2), of "Invariant ''DNS reply exceeds frame capacity''"]
      by (simp add: build_udp_frame_def Let_def)
  next
    case False
    obtain r bs where w: "write_udp_frame c receiver sender payload (fb_bytes b) = (r, bs)"
      by fastforce
    then have bs: "length bs = fb_capacity b" "\<And>m. r = Inr m \<Longrightarrow> m = ?n"
      using write_udp_frame_length [OF w c wf refl] False by (auto simp: fb_capacity_def)
    show ?thesis
    proof (cases r)
      case (Inl e)
      then show ?thesis
        using frame(1) False w written_give_up [OF frame(2), of bs e] bs(1) by (auto simp: build_udp_frame_def Let_def)
    next
      case (Inr m)
      then show ?thesis
        using frame(1) False w written_frame(2) [OF frame(2), of bs m] bs by (auto simp: build_udp_frame_def Let_def)
    qed
  qed
qed

text \<open>A builder that yields a frame or, when the pool is dry, none.\<close>

lemma keeps_build:
  assumes "\<And>s fs. rinv F [] s \<Longrightarrow> frames_ok (r_config s) (frames s) fs \<Longrightarrow> \<exists>r t'. g (r_config s) (frames s) = Some (r, t') \<and>
      (case r of Inr (Some f) \<Rightarrow> frames_ok (r_config s) t' (f # fs) | _ \<Rightarrow> frames_ok (r_config s) t' fs)"
    and "keeps_inv F [] hand' (k None)" "\<And>f. keeps_inv F [f] hand' (k (Some f))"
  shows "keeps_inv F [] hand' (andThen (gets r_config) (\<lambda>c. andThen (on_frames (g c)) k))"
  unfolding keeps_inv_def
proof (intro allI impI)
  fix s
  assume s: "rinv F [] s"
  then have "frames_ok (r_config s) (frames s) (map qf_frame (tap_queue s))"
    by (simp add: rinv_def)
  from assms(1) [OF s this] obtain r t' where g: "g (r_config s) (frames s) = Some (r, t')"
    "case r of Inr (Some f) \<Rightarrow> frames_ok (r_config s) t' (f # map qf_frame (tap_queue s))
      | _ \<Rightarrow> frames_ok (r_config s) t' (map qf_frame (tap_queue s))"
    by blast
  have "wp (on_frames (g (r_config s))) (\<lambda>x. wp (k x) (\<lambda>_. rinv F hand') (rinv F [])) (rinv F []) s"
    using g rinv_frames [OF s, of t' "[]"] rinv_frames [OF s, of t' "[f]" for f] assms(2,3)
    by (auto simp: wp_def [of "on_frames g" for g] on_frames_def keeps_inv_def split: sum.splits option.splits)
  then show "wp (andThen (gets r_config) (\<lambda>c. andThen (on_frames (g c)) k)) (\<lambda>_. rinv F hand') (rinv F []) s"
    by simp
qed

lemma keeps_queue_udp [keeps]:
  assumes "wf_addr receiver" "wf_addr sender"
  shows "keeps_inv F [] [] (queue_udp_frame receiver sender payload)"
  unfolding queue_udp_frame_def
  by (rule keeps_build) (use assms build_udp_frame_ok in \<open>auto simp: rinv_def intro!: keeps\<close>)

lemma length_error_fields [simp]:
  "8 \<le> length icmp \<Longrightarrow> length (ipv4_error_fields e icmp) = length icmp"
  "8 \<le> length icmp \<Longrightarrow> length (ipv6_error_fields e icmp) = length icmp"
  by (auto simp: ipv4_error_fields_def ipv6_error_fields_def Let_def split: udp_error.split)

lemma in_place_icmp4:
  assumes "length s = 4" "length d = 4" "write_ipv4_udp_error s d sp dp payload n e out = (r, out')"
  shows "length out' = length out \<and> (\<forall>m. r = Inr m \<longrightarrow> m \<le> length out)"
proof (cases "length out < 20 + (8 + (20 + 8 + length payload))")
  case False
  let ?n = "8 + (20 + 8 + length payload)"
  obtain r1 o1 where 1: "write_ipv4_header d s IPPROTO_ICMP ?n 0 out = (r1, o1)"
    by fastforce
  have l1: "length o1 = length out"
    using in_place_length [OF in_place_ip(1) 1] assms(1,2) by simp
  define icmp where "icmp = ipv4_error_fields e (fill (subslice 20 (56 + length payload) o1) 0 (36 + length payload) 0)"
  have li: "length icmp = ?n"
    using l1 False by (simp add: icmp_def)
  obtain r2 part where 2: "write_ipv4_header s d IPPROTO_UDP (8 + n) 0 (drop 8 icmp) = (r2, part)"
    by fastforce
  have l2: "length part = ?n - 8"
    using in_place_length [OF in_place_ip(1) 2] assms(1,2) li by simp
  show ?thesis
    using assms(3) False 1 2 l1 l2 li
    by (cases r1; cases r2) (auto simp: write_ipv4_udp_error_def Let_def IPV4_HEADER_LEN_def UDP_HEADER_LEN_def
        ICMP_HEADER_LEN_def checked_add_usize_def quoted_udp_header_ok simp flip: icmp_def split: if_splits)
qed (use assms(3) in \<open>auto simp: write_ipv4_udp_error_def Let_def IPV4_HEADER_LEN_def UDP_HEADER_LEN_def ICMP_HEADER_LEN_def\<close>)

lemma in_place_icmp6:
  assumes "length s = 16" "length d = 16" "write_ipv6_udp_error s d sp dp payload n e out = (r, out')"
  shows "length out' = length out \<and> (\<forall>m. r = Inr m \<longrightarrow> m \<le> length out)"
proof (cases "length out < 40 + (8 + (40 + 8 + length payload))")
  case False
  let ?n = "8 + (40 + 8 + length payload)"
  obtain r1 o1 where 1: "write_ipv6_header d s IPPROTO_ICMPV6 ?n out = (r1, o1)"
    by fastforce
  have l1: "length o1 = length out"
    using in_place_length [OF in_place_ip(2) 1] assms(1,2) by simp
  define icmp where "icmp = ipv6_error_fields e (fill (subslice 40 (96 + length payload) o1) 0 (56 + length payload) 0)"
  have li: "length icmp = ?n"
    using l1 False by (simp add: icmp_def)
  obtain r2 part where 2: "write_ipv6_header s d IPPROTO_UDP (8 + n) (drop 8 icmp) = (r2, part)"
    by fastforce
  have l2: "length part = ?n - 8"
    using in_place_length [OF in_place_ip(2) 2] assms(1,2) li by simp
  show ?thesis
    using assms(3) False 1 2 l1 l2 li
    by (cases r1; cases r2) (auto simp: write_ipv6_udp_error_def Let_def IPV6_HEADER_LEN_def UDP_HEADER_LEN_def
        ICMP_HEADER_LEN_def checked_add_usize_def quoted_udp_header_ok simp flip: icmp_def split: if_splits)
qed (use assms(3) in \<open>auto simp: write_ipv6_udp_error_def Let_def IPV6_HEADER_LEN_def UDP_HEADER_LEN_def ICMP_HEADER_LEN_def\<close>)

lemma in_place_udp_error:
  assumes "wf_addr sender" "wf_addr receiver" "write_udp_error sender receiver payload n e out = (r, out')"
  shows "length out' = length out \<and> (\<forall>m. r = Inr m \<longrightarrow> m \<le> length out)"
  using assms(1,2,3)
proof (cases sender; cases receiver)
  fix s sp d dp
  assume "sender = AddrV4 s sp" "receiver = AddrV4 d dp"
  then show ?thesis
    using assms in_place_icmp4 [of s d] by (simp add: wf_addr_def)
next
  fix s sp f sc d dp f' sc'
  assume "sender = AddrV6 s sp f sc" "receiver = AddrV6 d dp f' sc'"
  then show ?thesis
    using assms in_place_icmp6 [of s d] by (simp add: wf_addr_def)
qed auto

lemma on_slice_end:
  assumes "a \<le> length out" "on_slice a (length out) w out = (r, out')"
  shows "\<exists>part. w (drop a out) = (r, part) \<and> out' = take a out @ part"
  using assms by (auto simp: on_slice_def subslice_def split: prod.splits)

lemma build_udp_icmp_ok:
  assumes ok: "frames_ok c t fs" and c: "config_ok c" and wf: "wf_addr sender" "wf_addr receiver"
    and room: "vnet_len_of c + ETHERNET_HEADER_LEN \<le> mtu_frame_capacity t"
  shows "\<exists>r t'. build_udp_icmp c sender receiver payload n e t = Some (r, t') \<and>
    (case r of Inr (Some f) \<Rightarrow> frames_ok c t' (f # fs) | _ \<Rightarrow> frames_ok c t' fs)"
  using ok
proof (cases rule: pool_acquire_frame)
  case (dry p)
  then show ?thesis
    by (simp add: build_udp_icmp_def Let_def)
next
  case (frame i b p)
  let ?v = "vnet_len_of c" and ?i = "vnet_len_of c + ETHERNET_HEADER_LEN"
  have cap: "length (fb_bytes b) = fb_capacity b" "?i \<le> fb_capacity b"
    using frames_ok_capacity [OF frame(2)] room by (simp_all add: fb_capacity_def)
  obtain r1 b1 where 1: "on_slice ?v (length (fb_bytes b)) (eth_write_header (target_mac c) (gateway_mac c) (frame_ether_type sender))
      (fill (fb_bytes b) 0 ?v 0) = (r1, b1)"
    by fastforce
  have l1: "length b1 = fb_capacity b"
    using in_place_slice [OF 1 in_place_ethernet] c cap by (simp add: config_ok_def)
  obtain r2 b2 where 2: "on_slice ?i (length b1) (write_udp_error sender receiver (take (min (length payload) 8) payload) n e) b1 = (r2, b2)"
    by fastforce
  then obtain part where "write_udp_error sender receiver (take (min (length payload) 8) payload) n e (drop ?i b1) = (r2, part)"
    "b2 = take ?i b1 @ part"
    using on_slice_end l1 cap by metis
  then have l2: "length b2 = fb_capacity b" "\<And>m. r2 = Inr m \<Longrightarrow> ?i + m \<le> length b2"
    using in_place_udp_error [OF wf] l1 cap by fastforce+
  show ?thesis
  proof (cases r1)
    case (Inl x)
    then show ?thesis
      using frame(1) 1 cap written_give_up [OF frame(2), of b1] l1 by (auto simp: build_udp_icmp_def Let_def)
  next
    case (Inr u)
    show ?thesis
    proof (cases r2)
      case (Inl x)
      then show ?thesis
        using frame(1) 1 2 cap \<open>r1 = Inr u\<close> written_give_up [OF frame(2), of b2] l2 by (auto simp: build_udp_icmp_def Let_def)
    next
      case (Inr m)
      then show ?thesis
        using frame(1) 1 2 cap \<open>r1 = Inr u\<close> written_frame(2) [OF frame(2), of b2 "?i + m"] l2 by (auto simp: build_udp_icmp_def Let_def)
    qed
  qed
qed

lemma frame_room_headers:
  assumes "config_ok c" "frames_ok c t fs"
  shows "vnet_len_of c + ETHERNET_HEADER_LEN + 1280 \<le> mtu_frame_capacity t"
proof -
  have "1280 \<le> unat (tap_mtu c)"
    using assms(1) by (simp add: config_ok_def word_le_nat_alt)
  then show ?thesis
    using assms(2) by (auto simp: frames_ok_def frame_capacity_def checked_add_usize_def split: if_splits)
qed

lemma keeps_udp_icmp [keeps]:
  assumes "wf_addr sender" "wf_addr receiver"
  shows "keeps_inv F [] [] (queue_udp_icmp_for sender receiver payload n e)"
  unfolding queue_udp_icmp_for_def
proof (rule keeps_build)
  fix s fs
  assume "rinv F [] s" "frames_ok (r_config s) (frames s) fs"
  moreover from this have "config_ok (r_config s)"
    by (simp add: rinv_def)
  ultimately show "\<exists>r t'. build_udp_icmp (r_config s) sender receiver payload n e (frames s) = Some (r, t') \<and>
      (case r of Inr (Some f) \<Rightarrow> frames_ok (r_config s) t' (f # fs) | _ \<Rightarrow> frames_ok (r_config s) t' fs)"
    using frame_room_headers [of "r_config s" "frames s" fs] by (intro build_udp_icmp_ok assms) simp_all
qed (auto intro: keeps)

section \<open>Answers to address resolution\<close>

definition send_answer :: "(reactor_config \<Rightarrow> tap_frames \<Rightarrow> ((reactor_error + pooled_frame) \<times> tap_frames) option) \<Rightarrow> unit act" where
  "send_answer build = andThen (gets r_config) (\<lambda>c. andThen (on_frames (build c)) (\<lambda>f. queue_tap None f None))"

text \<open>The writers of answers, given addresses of the right size.\<close>

lemma in_place_arp:
  assumes "length gm = 6" "length gi = 4" "parse_arp_request bs = Inr req"
    and "write_arp_reply gm gi req out = (r, out')"
  shows "length out' = length out \<and> (\<forall>n. r = Inr n \<longrightarrow> n \<le> length out)"
proof (cases "42 \<le> length out")
  case True
  then show ?thesis
    using write_arp_reply_ok [OF _ assms(1-3)] assms(4) by fastforce
qed (use assms(4) in \<open>auto simp: write_arp_reply_def Let_def ETHERNET_HEADER_LEN_def ARP_PACKET_LEN_def\<close>)

lemma in_place_advertisement:
  assumes "length gm = 6" "length tm = 6" "length gi = 16" "length ti = 16"
    and "write_neighbor_advertisement gm tm gi ti out = (r, out')"
  shows "length out' = length out \<and> (\<forall>n. r = Inr n \<longrightarrow> n \<le> length out)"
proof (cases "length out < 86")
  case False
  obtain r1 o1 where 1: "eth_write_header tm gm Ipv6 out = (r1, o1)"
    by fastforce
  have l1: "length o1 = length out"
    using in_place_length [OF in_place_ethernet 1] assms(1,2) by simp
  obtain r2 part where 2: "write_ipv6_header gi ti IPPROTO_ICMPV6 32 (drop 14 o1) = (r2, part)"
    by fastforce
  have l2: "length part = length out - 14"
    using in_place_length [OF in_place_ip(2) 2] assms(3,4) l1 by simp
  let ?icmp = "subslice 54 86 ((take 14 o1 @ part)[21 := 255])"
  have "length (advertisement_body gm gi ti ?icmp) = 32"
    using l1 l2 False by (intro advertisement_body_ok(1) assms(1,3,4)) simp
  then show ?thesis
    using assms(5) False 1 2 l1 l2
    by (cases r1; cases r2) (auto simp: write_neighbor_advertisement_def Let_def ETHERNET_HEADER_LEN_def)
qed (use assms(5) in \<open>auto simp: write_neighbor_advertisement_def Let_def ETHERNET_HEADER_LEN_def\<close>)

lemma answer_frame_ok:
  assumes ok: "frames_ok c t fs" and c: "config_ok c"
    and w: "\<And>out r out'. write out = (r, out') \<Longrightarrow> length out' = length out \<and> (\<forall>n. r = Inr n \<longrightarrow> n \<le> length out)"
  shows "\<exists>r t'. answer_frame c write t = Some (r, t') \<and>
    (case r of Inl _ \<Rightarrow> frames_ok c t' fs | Inr f \<Rightarrow> frames_ok c t' (f # fs))"
proof -
  obtain r t1 where a: "acquire_frame t = Some (r, t1)"
    "case r of Inl _ \<Rightarrow> frames_ok c t1 fs | Inr f \<Rightarrow> frames_ok c t1 (f # fs) \<and> pf_tier f = Mtu"
    using acquire_frame_ok [OF ok] by auto
  show ?thesis
  proof (cases r)
    case (Inl e)
    then show ?thesis
      using a by (simp add: answer_frame_def)
  next
    case (Inr f)
    let ?v = "vnet_len_of c" and ?bs = "fb_bytes (pf_buffer f)"
    have f: "frames_ok c t1 (f # fs)" "pf_tier f = Mtu"
      using a(2) Inr by simp_all
    have cap: "length ?bs = fb_capacity (pf_buffer f)" "?v \<le> length ?bs"
      using frames_ok_capacity [OF f(1)] f(2) frame_room_headers [OF c f(1)] by (simp_all add: fb_capacity_def)
    obtain r2 b2 where 2: "on_slice ?v (length ?bs) write (fill ?bs 0 ?v 0) = (r2, b2)"
      by fastforce
    then obtain part where part: "write (drop ?v (fill ?bs 0 ?v 0)) = (r2, part)" "b2 = take ?v (fill ?bs 0 ?v 0) @ part"
      using on_slice_end [of ?v "fill ?bs 0 ?v 0" "write" r2 b2] cap by auto
    then have l2: "length b2 = fb_capacity (pf_buffer f)" "\<And>m. r2 = Inr m \<Longrightarrow> ?v + m \<le> length b2"
      using w [OF part(1)] cap by auto
    show ?thesis
    proof (cases r2)
      case (Inl e)
      then show ?thesis
        using a(1) \<open>r = Inr f\<close> 2 cap give_up_ok [OF written_frame(1) [OF f(1) l2(1)], of "PacketError e"]
        by (fastforce simp: answer_frame_def Let_def)
    next
      case (Inr m)
      then show ?thesis
        using a(1) \<open>r = Inr f\<close> 2 cap written_frame(2) [OF f(1), of b2 "?v + m"] l2 by (auto simp: answer_frame_def Let_def)
    qed
  qed
qed

lemma keeps_answer:
  assumes "\<And>c t fs. config_ok c \<Longrightarrow> frames_ok c t fs \<Longrightarrow> \<exists>r t'. build c t = Some (r, t') \<and>
      (case r of Inl _ \<Rightarrow> frames_ok c t' fs | Inr f \<Rightarrow> frames_ok c t' (f # fs))"
  shows "keeps_inv F [] [] (send_answer build)"
  unfolding send_answer_def keeps_inv_def
proof (intro allI impI)
  fix s
  assume s: "rinv F [] s"
  then have "config_ok (r_config s)"
    by (simp add: rinv_def)
  then have "wp (on_frames (build (r_config s))) (\<lambda>f. rinv F [f]) (rinv F []) s"
    using assms by (intro wp_on_frames [OF s]) simp
  then show "wp (andThen (gets r_config) (\<lambda>c. andThen (on_frames (build c)) (\<lambda>f. queue_tap None f None))) (\<lambda>_. rinv F []) (rinv F []) s"
    using keeps_queue_tap unfolding keeps_inv_def by (auto intro: wp_mono)
qed

section \<open>What the parsers deliver\<close>

fun rx_ok :: "rx_event \<Rightarrow> bool" where
  "rx_ok RxIgnored = True"
| "rx_ok (RxArp request) = (\<exists>bs. parse_arp_request bs = Inr request)"
| "rx_ok (RxSolicitation mac ip) = (length mac = 6 \<and> length ip = 16)"
| "rx_ok (RxUdp sender receiver payload) = (wf_addr sender \<and> wf_addr receiver \<and> is_ipv4 sender = is_ipv4 receiver)"
| "rx_ok (RxTcp key segment) = same_family key"

lemma handle_ipv4_ok:
  assumes "handle_ipv4 ethernet verify = Inr ev"
  shows "rx_ok ev"
proof -
  have "length (ipv4_source p) = 4" "length (ipv4_destination p) = 4" if "ipv4_parse bs = Inr p" for bs p
    using ipv4_ok_lengths ipv4_parse_ok [OF that] by auto
  then show ?thesis
    using assms by (auto simp: handle_ipv4_def wf_addr_def same_family_def split: sum.splits if_splits)
qed

lemma handle_ipv6_ok:
  assumes "handle_ipv6 c ethernet verify = Inr ev" "14 \<le> length (eth_bytes ethernet)"
  shows "rx_ok ev"
proof -
  have "length (ipv6_source p) = 16" "length (ipv6_destination p) = 16" if "ipv6_parse bs = Inr p" for bs p
    using ipv6_parse_ok [OF that] by (auto simp: ipv6_ok_def ipv6_source_def ipv6_destination_def)
  then show ?thesis
    using assms by (auto simp: handle_ipv6_def wf_addr_def same_family_def eth_source_def split: sum.splits if_splits option.splits)
qed

lemma handle_frame_ok:
  assumes "handle_frame big c bs = Inr ev"
  shows "rx_ok ev"
proof -
  obtain body verify gso ethernet where f: "split_rx_vnet big (vnet_len_of c) bs = Inr (body, verify, gso)" "eth_parse body = Inr ethernet"
    using assms by (auto simp: handle_frame_def split: sum.splits)
  then have "14 \<le> length (eth_bytes ethernet)"
    by (auto simp: eth_parse_Inr_iff)
  then show ?thesis
    using assms f handle_ipv4_ok handle_ipv6_ok
    by (cases "eth_ether_type ethernet")
      (auto simp: handle_frame_def handle_arp_def split: option.splits sum.splits if_splits)
qed

end
