(* ===== verification/Reactor_Handlers.thy ===== *)
theory Reactor_Handlers
  imports Reactor_Invariant
begin

text \<open>
  Every TCP handler of a worker keeps the invariant of \<open>Reactor_Invariant\<close> and does not panic, whatever the
  kernel answers: the rules of \<open>keeps\<close> take each handler apart, and each handler that is done becomes
  a rule.
\<close>

section \<open>Handlers\<close>

lemma entry_family: "entry_ok e \<Longrightarrow> same_family (entry_key e)"
  by (simp add: entry_ok_def)

lemma keeps_send_ack_kind: "Live fid \<in> F \<Longrightarrow> keeps_inv F [] [] (send_ack_kind fid fin)"
  unfolding send_ack_kind_def Let_def by (intro keeps)

lemma keeps_send_ack [keeps]: "Live fid \<in> F \<Longrightarrow> keeps_inv F [] [] (send_ack fid)"
  "Live fid \<in> F \<Longrightarrow> keeps_inv F [] [] (send_fin_ack fid)"
  unfolding send_ack_def send_fin_ack_def by (rule keeps_send_ack_kind; assumption)+

lemma keeps_send_reset [keeps]: "Live fid \<in> F \<Longrightarrow> keeps_inv F [] [] (send_reset_for_flow fid)"
  unfolding send_reset_for_flow_def by (intro keeps entry_family)

lemmas keeps_then_send [keeps] = keeps_seq [OF keeps_send_ack(1)] keeps_seq [OF keeps_send_ack(2)]
  keeps_seq [OF keeps_send_reset] keeps_seq [OF keeps_close_flow]

lemma keeps_fail_flow [keeps]: "Live fid \<in> F \<Longrightarrow> keeps_inv F [] [] (fail_tcp_flow fid)"
  "Live fid \<in> F \<Longrightarrow> keeps_inv F [] [] (reset_and_close fid)"
  "Live fid \<in> F \<Longrightarrow> keeps_inv F [] [] (fail_proxy_handshake fid)"
  unfolding fail_tcp_flow_def reset_and_close_def fail_proxy_handshake_def by (intro keeps; assumption)+

lemmas keeps_then_fail [keeps] = keeps_seq [OF keeps_fail_flow(1)] keeps_seq [OF keeps_fail_flow(2)]
  keeps_seq [OF keeps_fail_flow(3)]

lemma keeps_window [keeps]: "Live fid \<in> F \<Longrightarrow> keeps_inv F hand hand (update_namespace_window fid)"
  unfolding update_namespace_window_def Let_def by (intro keeps; assumption?)

lemmas keeps_then_window [keeps] = keeps_seq [OF keeps_window]

lemma keeps_refresh_ack [keeps]: "Live fid \<in> F \<Longrightarrow> keeps_inv F [] [] (refresh_upstream_ack fid)"
  unfolding refresh_upstream_ack_def Let_def by (intro keeps; assumption?)

lemma keeps_clamp [keeps]: "Live fid \<in> F \<Longrightarrow> keeps_inv F [] [] (refresh_window_clamp fid)"
  unfolding refresh_window_clamp_def Let_def by (intro keeps; assumption?)

lemma keeps_refresh_probe [keeps]: "Live fid \<in> F \<Longrightarrow> keeps_inv F hand hand (refresh_zero_window_probe fid t)"
  unfolding refresh_zero_window_probe_def
  by (rule keeps_amend(2)) (auto simp: entry_step_def entry_ok_def entry_key_def Let_def split: option.split bool.split)

lemma keeps_interest [keeps]: "keeps_inv F [] [] (update_socket_interest fid)"
  unfolding update_socket_interest_def Let_def by (intro keeps) auto

lemma keeps_ack_queue [keeps]:
  "keeps_inv F hand hand' (k ()) \<Longrightarrow> keeps_inv F hand hand' (andThen (queue_ack_refresh fid) k)"
  unfolding queue_ack_refresh_def by (intro keeps)

lemma keeps_suppression [keeps]:
  "(\<And>b. keeps_inv F hand hand' (k b)) \<Longrightarrow> keeps_inv F hand hand' (andThen consume_ack_refresh_suppression k)"
  unfolding consume_ack_refresh_suppression_def by (intro keeps)

lemmas keeps_then_refresh [keeps] = keeps_seq [OF keeps_refresh_ack] keeps_seq [OF keeps_clamp]
  keeps_seq [OF keeps_refresh_probe] keeps_seq [OF keeps_interest]

lemma keeps_flush_ack_loop: "keeps_inv F [] [] (flush_ack_loop ids)"
proof (induction ids arbitrary: F)
  case (Cons fid ids)
  show ?case
    unfolding flush_ack_loop.simps by (intro keeps Cons) auto
qed (simp add: keeps_ret)

lemma keeps_flush_ack_refresh: "keeps_inv F [] [] flush_ack_refresh"
  unfolding flush_ack_refresh_def by (intro keeps_gets_then keeps_flush_ack_loop)

lemma keeps_pressure_loop: "keeps_inv F [] [] (pressure_loop ids)"
proof (induction ids arbitrary: F)
  case (Cons fid ids)
  show ?case
    unfolding pressure_loop.simps by (intro keeps Cons) auto
qed (simp add: keeps_ret)

lemma keeps_apply_pressure: "keeps_inv F [] [] apply_pending_pressure"
  unfolding apply_pending_pressure_def
  by (rule keeps_gets_then) (intro keeps keeps_gets_then keeps_pressure_loop)

section \<open>Payload from the namespace\<close>

lemma wp_enqueue:
  assumes s: "rinv F [] s" and d: "Live fid \<in> F"
  shows "wp (enqueue_pending_payload fid payload) (\<lambda>_. rinv F []) (rinv F []) s"
proof -
  from rinv_live [OF s d] obtain e where e: "table_get (tcp_flows s) fid = Some e"
    by blast
  have ok: "queue_ok (pending_socket e)"
    using s e unfolding rinv_def entry_ok_def by blast
  have fail: "keeps_inv F [] [] (andThen (fail_tcp_flow fid) (\<lambda>_. ret False))"
    using d by (intro keeps)
  have "rinv F [] (pending_socket_bytes_update (\<lambda>n. n + length payload)
      (s\<lparr>tcp_flows := table_modify fid (pending_socket_update (\<lambda>_. q)) (tcp_flows s)\<rparr>))"
    if "queue_push payload (pending_socket e) = Some q"
      "\<not> length payload > max_pending_tcp_bytes (r_config s) - pending_socket_bytes s" for q
    using rinv_modify [OF s entry_step_pending, of q fid] pq.put_some [OF ok that(1)] that(2) s
    by (auto simp: rinv_def)
  then show ?thesis
    using e s fail unfolding keeps_inv_def
    by (auto simp: enqueue_pending_payload_def wp_fetch wp_amend Let_def update_pending_pressure_state_def
        split: option.split)
qed

lemma keeps_enqueue_pending [keeps]: "Live fid \<in> F \<Longrightarrow> keeps_inv F [] [] (enqueue_pending_payload fid payload)"
  using wp_enqueue by (simp add: keeps_inv_def)

lemma keeps_return_pending [keeps]:
  "keeps_inv F hand hand' (k ()) \<Longrightarrow>
     keeps_inv F hand hand' (andThen (change (pending_socket_bytes_update (\<lambda>n. n - m))) k)"
  by (auto simp: keeps_inv_def rinv_def)

lemma entry_queue: "entry_ok e \<Longrightarrow> queue_consume n (pending_socket e) = (m, q) \<Longrightarrow> queue_ok q"
  using pq.take_some [of "pending_socket e" n m q] by (simp add: entry_ok_def)

lemma keeps_consume [keeps]: "Live fid \<in> F \<Longrightarrow> keeps_inv F hand hand (consume_pending_payload fid n)"
  unfolding consume_pending_payload_def Let_def by (intro keeps entry_queue; assumption?)

lemmas keeps_then_consume [keeps] = keeps_seq [OF keeps_consume]

lemma keeps_submit [keeps]: "Live fid \<in> F \<Longrightarrow> keeps_inv F [] [] (submit_namespace_payload fid payload)"
  unfolding submit_namespace_payload_def by (intro keeps; assumption?)

lemma keeps_flush_socket_queue [keeps]: "Live fid \<in> F \<Longrightarrow> keeps_inv F [] [] (flush_socket_queue fid)"
  unfolding flush_socket_queue_def flush_front_def by (intro keeps; assumption?)

lemmas keeps_then_submit [keeps] = keeps_seq [OF keeps_submit] keeps_seq [OF keeps_flush_socket_queue]

section \<open>Frames with socket data\<close>

text \<open>Facts that an operation may assume because they hold now and stay.\<close>

lemma keeps_know_config:
  assumes "\<And>c. config_ok c \<Longrightarrow> keeps_inv (insert (Config c) F) hand hand' m"
  shows "keeps_inv F hand hand' m"
  unfolding keeps_inv_def
proof (intro allI impI)
  fix s
  assume "rinv F hand s"
  then have "rinv (insert (Config (r_config s)) F) hand s" "config_ok (r_config s)"
    by (simp_all add: rinv_def)
  then show "wp m (\<lambda>_. rinv F hand') (rinv F []) s"
    using assms unfolding keeps_inv_def by (blast intro: wp_mono rinv_more)
qed

lemma keeps_know_key:
  assumes "Live fid \<in> F" "\<And>key. same_family key \<Longrightarrow> keeps_inv (insert (HasKey fid key) F) hand hand' m"
  shows "keeps_inv F hand hand' m"
  unfolding keeps_inv_def
proof (intro allI impI)
  fix s
  assume s: "rinv F hand s"
  then obtain e where e: "table_get (tcp_flows s) fid = Some e"
    using rinv_live [OF _ assms(1)] by blast
  then have "rinv (insert (HasKey fid (entry_key e)) F) hand s" "same_family (entry_key e)"
    using s unfolding rinv_def by (simp, blast intro: entry_family)
  then show "wp m (\<lambda>_. rinv F hand') (rinv F []) s"
    using assms(2) unfolding keeps_inv_def by (blast intro: wp_mono rinv_more)
qed

definition frame_room :: "reactor_config \<Rightarrow> pooled_frame \<Rightarrow> bool" where
  "frame_room c f \<longleftrightarrow> (\<exists>cap. frame_capacity c = Some cap \<and>
     fb_capacity (pf_buffer f) = (case pf_tier f of Mtu \<Rightarrow> cap | Gso \<Rightarrow> gso_frame_capacity c))"

lemma keeps_room:
  assumes "Config c \<in> F" "frame_room c f \<Longrightarrow> keeps_inv F (f # hand) hand' m"
  shows "keeps_inv F (f # hand) hand' m"
  unfolding keeps_inv_def
proof (intro allI impI)
  fix s
  assume s: "rinv F (f # hand) s"
  then have "frames_ok c (frames s) (f # hand @ map qf_frame (tap_queue s))"
    using rinv_fact [OF s assms(1)] by (simp add: rinv_def)
  then have "frame_room c f"
    using frames_ok_capacity by (fastforce simp: frame_room_def)
  then show "wp m (\<lambda>_. rinv F hand') (rinv F []) s"
    using assms(2) s by (simp add: keeps_inv_def)
qed

lemma keeps_swap:
  assumes "fb_capacity b = fb_capacity (pf_buffer f)" "keeps_inv F (f\<lparr>pf_buffer := b\<rparr> # hand) hand' m"
  shows "keeps_inv F (f # hand) hand' m"
proof -
  have "rinv F (f # hand) s \<Longrightarrow> rinv F (f\<lparr>pf_buffer := b\<rparr> # hand) s" for s
    using frames_ok_buffer [OF _ assms(1)] by (simp add: rinv_def)
  then show ?thesis
    using assms(2) by (simp add: keeps_inv_def)
qed

lemma payload_offset_room: "config_ok c \<Longrightarrow> frame_room c f \<Longrightarrow> tcp_payload_offset c key None None \<le> fb_capacity (pf_buffer f)"
  by (auto simp: config_ok_def frame_room_def tcp_payload_offset_def frame_capacity_def checked_add_usize_def
      gso_frame_capacity_def GSO_MAX_L3_BYTES_def ETHERNET_HEADER_LEN_def TCP_MIN_HEADER_LEN_def ip_header_len_def
      word_le_nat_alt split: if_splits frame_tier.splits)

lemma keeps_acquire_payload:
  assumes "\<And>f. keeps_inv F [f] hand' (k f)"
  shows "keeps_inv F [] hand' (andThen (on_frames (acquire_payload_frame n)) k)"
  by (rule keeps_frame [OF wp_on_frames assms]) (use acquire_payload_frame_ok in auto)

text \<open>The rules for \<open>fetch\<close>, the key and the configuration when they are known.\<close>

lemma keeps_fetch_known:
  "Live fid \<in> F \<Longrightarrow> HasKey fid key \<in> F \<Longrightarrow> (\<And>e. entry_ok e \<Longrightarrow> entry_key e = key \<Longrightarrow> keeps_inv F hand hand' (k e)) \<Longrightarrow>
     keeps_inv F hand hand' (andThen (fetch fid) k)"
  by (rule keeps_fetch) auto

lemma keeps_peeked [keeps]:
  "keeps_inv F hand hand' (d f len) \<Longrightarrow>
     keeps_inv F hand hand' (case PeekData f len of PeekData f len \<Rightarrow> d f len | PeekEof \<Rightarrow> e | PeekWouldBlock \<Rightarrow> b)"
  "keeps_inv F hand hand' e \<Longrightarrow>
     keeps_inv F hand hand' (case PeekEof of PeekData f len \<Rightarrow> d f len | PeekEof \<Rightarrow> e | PeekWouldBlock \<Rightarrow> b)"
  "keeps_inv F hand hand' b \<Longrightarrow>
     keeps_inv F hand hand' (case PeekWouldBlock of PeekData f len \<Rightarrow> d f len | PeekEof \<Rightarrow> e | PeekWouldBlock \<Rightarrow> b)"
  "keeps_inv F hand hand' (andThen (d f len) k) \<Longrightarrow>
     keeps_inv F hand hand' (andThen (case PeekData f len of PeekData f len \<Rightarrow> d f len | PeekEof \<Rightarrow> e | PeekWouldBlock \<Rightarrow> b) k)"
  "keeps_inv F hand hand' (andThen e k) \<Longrightarrow>
     keeps_inv F hand hand' (andThen (case PeekEof of PeekData f len \<Rightarrow> d f len | PeekEof \<Rightarrow> e | PeekWouldBlock \<Rightarrow> b) k)"
  "keeps_inv F hand hand' (andThen b k) \<Longrightarrow>
     keeps_inv F hand hand' (andThen (case PeekWouldBlock of PeekData f len \<Rightarrow> d f len | PeekEof \<Rightarrow> e | PeekWouldBlock \<Rightarrow> b) k)"
  by simp_all

lemma keeps_active_key_known:
  "entry_ok e \<Longrightarrow> entry_key e = key \<Longrightarrow> keeps_inv F hand hand' (k key) \<Longrightarrow>
     keeps_inv F hand hand' (andThen (active_key msg e) k)"
  using keeps_active_key by auto

lemma keeps_config_known:
  "Config c \<in> F \<Longrightarrow> (config_ok c \<Longrightarrow> keeps_inv F hand hand' (k c)) \<Longrightarrow>
     keeps_inv F hand hand' (andThen (gets r_config) k)"
  by (rule keeps_config) auto

lemma keeps_peek_frame:
  assumes facts: "Live fid \<in> F" "HasKey fid key \<in> F" "Config c \<in> F"
    and data: "\<And>f len. 1 \<le> len \<Longrightarrow> tcp_payload_offset c key None None + len \<le> fb_capacity (pf_buffer f) \<Longrightarrow>
      keeps_inv F [f] hand' (k (PeekData f len))"
    and other: "keeps_inv F [] hand' (k PeekEof)" "keeps_inv F [] hand' (k PeekWouldBlock)"
  shows "keeps_inv F [] hand' (andThen (peek_socket_frame fid offset capacity) k)"
proof -
  let ?off = "tcp_payload_offset c key None None"
  let ?read = "\<lambda>f. let room = fb_capacity (pf_buffer f); capacity = min capacity (room - ?off)
    in if ?off + capacity > room then expect None
       else andThen sys_sockopt (\<lambda>_. andThen (sys_peek capacity) (\<lambda>r.
         case r of
           Complete bs \<Rightarrow>
             if bs = [] then andThen (release f) (\<lambda>_. ret (if offset = 0 then PeekEof else PeekWouldBlock))
             else ret (PeekData (f\<lparr>pf_buffer := fb_writable (copy_at ?off bs) (pf_buffer f)\<rparr>) (length bs))
         | WouldBlock \<Rightarrow> andThen (release f) (\<lambda>_. ret PeekWouldBlock)
         | Failed \<Rightarrow> andThen (release f) (\<lambda>_. raise Io)))"
  have read: "keeps_inv F [f] hand' (andThen (?read f) k)" if c: "config_ok c" for f
  proof (rule keeps_room [OF facts(3)])
    assume "frame_room c f"
    then have off: "?off \<le> fb_capacity (pf_buffer f)"
      using c by (rule payload_offset_room [rotated])
    have data': "keeps_inv F [f] hand' (k (PeekData (f\<lparr>pf_buffer := fb_writable (copy_at ?off bs) (pf_buffer f)\<rparr>) (length bs)))"
      if "bs \<noteq> []" "length bs \<le> min capacity (fb_capacity (pf_buffer f) - ?off)" for bs
    proof -
      have fit: "?off + length bs \<le> fb_capacity (pf_buffer f)"
        using that(2) off by auto
      then have "fb_capacity (fb_writable (copy_at ?off bs) (pf_buffer f)) = fb_capacity (pf_buffer f)"
        by (simp add: fb_writable_def fb_capacity_def)
      then show ?thesis
        by (rule keeps_swap, intro data) (use that fit in \<open>auto simp: Suc_le_eq fb_writable_def fb_capacity_def\<close>)
    qed
    show "keeps_inv F [f] hand' (andThen (?read f) k)"
      unfolding Let_def using off other by (intro keeps data') auto
  qed
  show ?thesis
    unfolding peek_socket_frame_def Let_def
    by (intro keeps_assoc keeps_fetch_known [OF facts(1,2)] keeps_active_key_known keeps_config_known [OF facts(3)],
        assumption+, rule keeps_if, rule keeps_raise, rule keeps_assoc, rule keeps_acquire_payload,
        rule read [unfolded Let_def])
qed

lemma keeps_finish_payload:
  assumes facts: "HasKey fid key \<in> F" "Config c \<in> F"
    and room: "tcp_payload_offset c key None None + len \<le> fb_capacity (pf_buffer f)"
    and k: "\<And>f. keeps_inv F [f] hand' (k f)"
  shows "keeps_inv F [f] hand' (andThen (finish_payload_frame fid f plan flags len) k)"
proof (rule keeps_frame [OF _ k])
  fix s
  assume s: "rinv F [f] s"
  obtain e where e: "table_get (tcp_flows s) fid = Some e" "entry_key e = key" and c: "r_config s = c" "config_ok c"
    using rinv_fact [OF s facts(1)] rinv_fact [OF s facts(2)] s by (auto simp: rinv_def)
  have ok: "entry_ok e"
    using s e unfolding rinv_def by blast
  have "\<exists>r t'. finalize_flow_payload_frame (big_endian s) c (entry_flow e) (construction e) f plan flags len (frames s) =
      Some (r, t') \<and> (case r of Inl _ \<Rightarrow> frames_ok c t' fs | Inr f \<Rightarrow> frames_ok c t' (f # fs))"
    if fs: "frames_ok c (frames s) (f # fs)" for fs
    using ok
  proof (cases rule: entry_sides)
    case 1
    then show ?thesis
      using give_up_ok [OF fs] by (fastforce simp: finalize_flow_payload_frame_def flow_frame_parameters_def)
  next
    case (2 sides)
    then show ?thesis
      using finalize_or_release_ok [OF fs c(2), of "\<lparr>fs_key = key, fs_plan = plan, fs_flags = flags, fs_mss = None,
          fs_window_scale = None, fs_window = window_field False (entry_flow e), fs_payload_len = len,
          fs_gso_size = Some (mss (entry_flow e))\<rparr>" "big_endian s"] entry_family [OF ok] e(2) room
      by (auto simp: finalize_flow_payload_frame_def flow_frame_parameters_def)
  qed
  then show "wp (finish_payload_frame fid f plan flags len) (\<lambda>f. rinv F [f]) (rinv F []) s"
    using e(1) c(1) by (auto simp: finish_payload_frame_def intro!: wp_on_frames [OF s])
qed

lemma keeps_send_peeked:
  assumes facts: "Live fid \<in> F" "HasKey fid key \<in> F" "Config c \<in> F"
    and len: "1 \<le> len" "tcp_payload_offset c key None None + len \<le> fb_capacity (pf_buffer f)"
  shows "keeps_inv F [f] [] (send_peeked fid key f len)"
proof -
  have "fb_capacity (fb_writable id (pf_buffer f)) = fb_capacity (pf_buffer f)"
    by (simp add: fb_writable_def fb_capacity_def)
  then have finish: "keeps_inv F [f] [] (andThen (finish_payload_frame fid
      (f\<lparr>pf_buffer := fb_writable id (pf_buffer f)\<rparr>) plan flags len) (\<lambda>f. queue_tap (Some fid) f plan_of))" for plan flags plan_of
    by (rule keeps_swap, intro keeps_finish_payload [OF facts(2,3)] keeps) (use len in \<open>simp add: fb_writable_def fb_capacity_def\<close>)
  show ?thesis
    unfolding send_peeked_def Let_def
    by (intro keeps_fetch [OF facts(1)] keeps_config_known [OF facts(3)] keeps finish facts)
      (use len in \<open>simp add: fb_capacity_def\<close>)
qed

lemma keeps_send_eof: "Live fid \<in> F \<Longrightarrow> keeps_inv F [] [] (send_eof fid)"
  unfolding send_eof_def by (intro keeps)

lemma keeps_send_loop:
  assumes "Live fid \<in> F" "HasKey fid key \<in> F" "Config c \<in> F"
  shows "keeps_inv F [] [] (send_data_loop n fid)"
proof (induction n)
  case (Suc n)
  have peeked: "keeps_inv F [f] [] (andThen (send_peeked fid key f len) (\<lambda>_. send_data_loop n fid))"
    if "1 \<le> len" "tcp_payload_offset c key None None + len \<le> fb_capacity (pf_buffer f)" for f len
    by (rule keeps_seq [OF keeps_send_peeked [OF assms that] Suc])
  show ?case
    unfolding send_data_loop.simps Let_def
    by (intro keeps_fetch_known [OF assms(1,2)] keeps_active_key_known keeps_peek_frame [OF assms] keeps
        keeps_seq [OF keeps_send_eof [OF assms(1)]] Suc; assumption?) (rule peeked)
qed (simp add: keeps_ret)

lemma keeps_send_socket_data [keeps]: "Live fid \<in> F \<Longrightarrow> keeps_inv F [] [] (send_socket_data fid)"
  unfolding send_socket_data_def
  by (rule keeps_know_config, rule keeps_know_key [where fid = fid]) (auto intro: keeps_send_loop)

section \<open>Retransmission and probes\<close>

lemma keeps_retransmit_frame:
  assumes facts: "Live fid \<in> F" "HasKey fid key \<in> F" "Config c \<in> F"
    and k: "\<And>f. keeps_inv F [f] hand' (k (Some f))" "keeps_inv F [] hand' (k None)"
  shows "keeps_inv F [] hand' (andThen (retransmit_frame fid sg ack key) k)"
proof -
  have resend: "keeps_inv F [f] hand' (andThen (finish_payload_frame fid f plan flags len) (\<lambda>f. andThen (ret (Some f)) k))"
    if "tcp_payload_offset c key None None + len \<le> fb_capacity (pf_buffer f)" for f len plan flags
    by (intro keeps_finish_payload [OF facts(2,3) that] keeps k)
  show ?thesis
    unfolding retransmit_frame_def Let_def
    by (intro keeps_peek_frame [OF facts] keeps facts k; (rule resend)?; assumption?)
qed

lemma keeps_retransmit_known:
  assumes facts: "Live fid \<in> F" "HasKey fid key \<in> F" "Config c \<in> F"
  shows "keeps_inv F [] [] (retransmit_oldest fid backoff)"
  unfolding retransmit_oldest_def
  by (intro keeps_fetch_known [OF facts(1,2)] keeps_active_key_known keeps facts; assumption?)
    (rule keeps_retransmit_frame [OF facts]; simp only: option.case; intro keeps facts)

lemma keeps_retransmit [keeps]: "Live fid \<in> F \<Longrightarrow> keeps_inv F [] [] (retransmit_oldest fid backoff)"
  by (rule keeps_know_config, rule keeps_know_key [where fid = fid]) (auto intro: keeps_retransmit_known)

lemma keeps_advance_probe [keeps]: "Live fid \<in> F \<Longrightarrow> keeps_inv F hand hand (advance_probe fid t)"
  unfolding advance_probe_def by (intro keeps)

lemma keeps_probe [keeps]: "Live fid \<in> F \<Longrightarrow> keeps_inv F [] [] (send_zero_window_probe fid t)"
  unfolding send_zero_window_probe_def Let_def by (intro keeps; assumption?)

lemmas keeps_then_retransmit [keeps] = keeps_seq [OF keeps_retransmit] keeps_seq [OF keeps_probe]

section \<open>Activation\<close>

lemma keeps_activate_flow [keeps]: "Live fid \<in> F \<Longrightarrow> keeps_inv F [] [] (activate_flow fid)"
  unfolding activate_flow_def Let_def by (intro keeps; assumption?)

lemma wp_send:
  assumes "\<And>r k. (\<And>n. r = Complete n \<Longrightarrow> n \<le> length bs) \<Longrightarrow> Q r (s\<lparr>kern := k\<rparr>)"
  shows "wp (sys_send fd bs) Q E s"
proof (cases "k_send (kern s)")
  case Nil
  then show ?thesis
    using assms [of WouldBlock "kern s"] by (simp add: wp_def sys_send_def call_def andThen_def ret_def)
next
  case (Cons a as)
  have Q: "Q r (kern_update g s)" if "\<And>n. r = Complete n \<Longrightarrow> n \<le> length bs" for r g
    using assms [of r "g (kern s)"] that by (cases s) simp
  then show ?thesis
    using Cons Q [of WouldBlock] Q [of Failed] Q [of "Complete (min n (length bs))" for n] assms [of WouldBlock] assms [of Failed]
    by (cases a) (simp_all add: wp_def sys_send_def call_def andThen_def ret_def change_def)
qed

lemma advance_output_shorter:
  assumes "handshake_ok h" "0 < n" "n \<le> length (pending_output h)"
  shows "\<exists>h'. advance_output n h = (Inr (), h') \<and> handshake_ok h' \<and> length (pending_output h') < length (pending_output h)"
proof -
  have w: "writing h"
    using assms by (auto simp: handshake_ok_def pending_output_def split: if_splits)
  show ?thesis
  proof (cases "n = length (pending_output h)")
    case True
    then show ?thesis
      using advance_output_full [OF assms(1) w] assms(2) by (simp add: pending_output_def clear_output_def)
  next
    case False
    then show ?thesis
      using advance_output_partial [OF assms(1) w, of n] assms by simp
  qed
qed

declare flush_output_loop.simps [simp del]

lemma wp_flush_output:
  assumes "rinv F [] s" "Live fid \<in> F" "table_get (tcp_flows s) fid = Some e" "entry_handshake e = Some h"
    "length (pending_output h) \<le> n"
  shows "wp (flush_output_loop n fid) (\<lambda>_. rinv F []) (rinv F []) s"
  using assms
proof (induction n arbitrary: s e h)
  case 0
  then show ?case
    by (subst flush_output_loop.simps) (simp add: wp_fetch)
next
  case (Suc n)
  have h: "handshake_ok h"
    using Suc.prems unfolding rinv_def entry_ok_def by blast
  have fail: "keeps_inv F [] [] (fail_proxy_handshake fid)"
    using Suc.prems(2) by (rule keeps_fail_flow)
  have step: "wp (flush_output_loop n fid) (\<lambda>_. rinv F []) (rinv F [])
      (s\<lparr>kern := k, tcp_flows := table_modify fid (entry_handshake_update (\<lambda>_. Some h')) (tcp_flows s)\<rparr>)"
    if "handshake_ok h'" "length (pending_output h') \<le> n" for k h'
  proof (rule Suc.IH [OF _ Suc.prems(2)])
    show "rinv F [] (s\<lparr>kern := k, tcp_flows := table_modify fid (entry_handshake_update (\<lambda>_. Some h')) (tcp_flows s)\<rparr>)"
      using rinv_modify [of F "[]" "s\<lparr>kern := k\<rparr>" fid] Suc.prems(1) entry_step_handshake(1) [OF that(1)] by simp
    show "table_get (tcp_flows (s\<lparr>kern := k, tcp_flows := table_modify fid (entry_handshake_update (\<lambda>_. Some h')) (tcp_flows s)\<rparr>)) fid =
        Some (e\<lparr>entry_handshake := Some h'\<rparr>)"
      using table_modify_ok [of "tcp_flows s" fid] Suc.prems(1,3) by (simp add: rinv_def)
  qed (use that in simp_all)
  show ?case
  proof (cases "pending_output h = []")
    case True
    then show ?thesis
      using Suc.prems by (subst flush_output_loop.simps) (simp add: wp_fetch)
  next
    case False
    have body: "wp (case r of Complete 0 \<Rightarrow> fail_proxy_handshake fid
        | Complete (Suc m) \<Rightarrow> (case advance_output (Suc m) h of
            (Inl _, h) \<Rightarrow> andThen (amend fid (entry_handshake_update (\<lambda>_. Some h))) (\<lambda>_. raise Io)
          | (Inr _, h) \<Rightarrow> andThen (amend fid (entry_handshake_update (\<lambda>_. Some h))) (\<lambda>_. flush_output_loop n fid))
        | WouldBlock \<Rightarrow> ret () | Failed \<Rightarrow> fail_proxy_handshake fid) (\<lambda>_. rinv F []) (rinv F []) (s\<lparr>kern := k\<rparr>)"
      if r: "\<And>n. r = Complete n \<Longrightarrow> n \<le> length (pending_output h)" for r k
    proof -
      have "\<exists>h'. advance_output (Suc m) h = (Inr (), h') \<and> handshake_ok h' \<and> length (pending_output h') \<le> n"
        if "r = Complete (Suc m)" for m
        using advance_output_shorter [OF h _ r [OF that]] Suc.prems(5) by fastforce
      then show ?thesis
        using fail Suc.prems(1,3) step
        by (auto simp: keeps_inv_def wp_amend split: io.split nat.split)
    qed
    show ?thesis
      unfolding flush_output_loop.simps [of "Suc n"] nat.case
      using Suc.prems(3,4) False by (simp add: wp_fetch) (rule wp_send, rule body)
  qed
qed

text \<open>
  An action that may use the facts \<open>G\<close> and leaves the facts \<open>F\<close>: the end of a proxy handshake gives up
  the fact that the flow is in one.
\<close>

definition keeps_from :: "state_fact set \<Rightarrow> state_fact set \<Rightarrow> 'a act \<Rightarrow> bool" where
  "keeps_from G F m \<longleftrightarrow> (\<forall>s. rinv G [] s \<longrightarrow> wp m (\<lambda>_. rinv F []) (rinv F []) s)"

lemma from_weaken: "keeps_inv F [] [] m \<Longrightarrow> F \<subseteq> G \<Longrightarrow> keeps_from G F m"
  "keeps_inv G [] [] m' \<Longrightarrow> F \<subseteq> G \<Longrightarrow> keeps_from G F m'"
  unfolding keeps_inv_def keeps_from_def by (blast intro: rinv_more wp_mono)+

lemma from_seq:
  "keeps_inv G [] [] m \<Longrightarrow> (\<And>x. keeps_from G F (k x)) \<Longrightarrow> F \<subseteq> G \<Longrightarrow> keeps_from G F (andThen m k)"
  "keeps_from G F m \<Longrightarrow> (\<And>x. keeps_inv F [] [] (k x)) \<Longrightarrow> keeps_from G F (andThen m k)"
  unfolding keeps_inv_def keeps_from_def wp_andThen by (blast intro: rinv_more wp_mono)+

lemma from_if:
  "(b \<Longrightarrow> keeps_from G F m) \<Longrightarrow> (\<not> b \<Longrightarrow> keeps_from G F m') \<Longrightarrow> keeps_from G F (if b then m else m')"
  "(b \<Longrightarrow> keeps_from G F a) \<Longrightarrow> keeps_from G F (ret ()) \<Longrightarrow> keeps_from G F (only_if b a)"
  by (simp_all add: only_if_def)

lemma keeps_fetch_cases:
  assumes "Live fid \<in> F" "\<And>e. entry_ok e \<Longrightarrow> entry_handshake e = None \<Longrightarrow> keeps_inv F [] [] (k e)"
    and "\<And>e. entry_ok e \<Longrightarrow> entry_handshake e \<noteq> None \<Longrightarrow> keeps_from (insert (InHandshake fid) F) F (k e)"
  shows "keeps_inv F [] [] (andThen (fetch fid) k)"
  unfolding keeps_inv_def wp_andThen wp_fetch
proof (intro allI impI)
  fix s
  assume s: "rinv F [] s"
  then obtain e where e: "table_get (tcp_flows s) fid = Some e"
    using rinv_live [OF _ assms(1)] by blast
  have ok: "entry_ok e"
    using s e unfolding rinv_def by blast
  have "wp (k e) (\<lambda>_. rinv F []) (rinv F []) s"
  proof (cases "entry_handshake e")
    case None
    then show ?thesis
      using assms(2) [OF ok] s by (simp add: keeps_inv_def)
  next
    case (Some h)
    then have "rinv (insert (InHandshake fid) F) [] s"
      using s e by (simp add: rinv_def)
    then show ?thesis
      using assms(3) [OF ok] Some by (simp add: keeps_from_def)
  qed
  then show "\<exists>e. table_get (tcp_flows s) fid = Some e \<and> wp (k e) (\<lambda>_. rinv F []) (rinv F []) s"
    using e by blast
qed

text \<open>A flow in its handshake has one to fetch.\<close>

lemma from_fetch_handshake:
  assumes "\<And>e h. handshake_ok h \<Longrightarrow> keeps_from (insert (InHandshake fid) F) F (k e h)"
  shows "keeps_from (insert (InHandshake fid) F) F (andThen (fetch fid) (\<lambda>e. andThen (expect (entry_handshake e)) (k e)))"
  unfolding keeps_from_def wp_andThen wp_fetch
proof (intro allI impI)
  fix s
  assume s: "rinv (insert (InHandshake fid) F) [] s"
  then obtain e h where e: "table_get (tcp_flows s) fid = Some e" "entry_handshake e = Some h"
    using rinv_fact [OF s, of "InHandshake fid"] by auto
  then have "handshake_ok h"
    using s unfolding rinv_def entry_ok_def by blast
  then show "\<exists>e. table_get (tcp_flows s) fid = Some e \<and>
      wp (expect (entry_handshake e)) (\<lambda>x. wp (k e x) (\<lambda>_. rinv F []) (rinv F [])) (rinv F []) s"
    using e s assms by (simp add: keeps_from_def)
qed

lemma keeps_flush_output:
  assumes "Live fid \<in> F" "InHandshake fid \<in> F"
  shows "keeps_inv F [] [] (flush_proxy_output fid)"
  unfolding keeps_inv_def flush_proxy_output_def wp_andThen wp_fetch
proof (intro allI impI)
  fix s
  assume s: "rinv F [] s"
  obtain e h where e: "table_get (tcp_flows s) fid = Some e" "entry_handshake e = Some h"
    using rinv_fact [OF s assms(2)] by auto
  then show "\<exists>e. table_get (tcp_flows s) fid = Some e \<and> wp (expect (entry_handshake e))
      (\<lambda>h. wp (flush_output_loop (length (pending_output h)) fid) (\<lambda>_. rinv F []) (rinv F [])) (rinv F []) s"
    using wp_flush_output [OF s assms(1)] by simp
qed

text \<open>What a received answer leads to.\<close>

lemma from_fed:
  assumes F: "Live fid \<in> F" "InHandshake fid \<notin> F" and h: "handshake_ok h"
  shows "keeps_from (insert (InHandshake fid) F) F (case handshake_receive bs h of
      (Inl _, h) \<Rightarrow> andThen (amend fid (entry_handshake_update (\<lambda>_. Some h))) (\<lambda>_. fail_proxy_handshake fid)
    | (Inr consumed, h) \<Rightarrow>
        andThen (amend fid (entry_handshake_update (\<lambda>_. Some h))) (\<lambda>_.
        andThen (if consumed > 0 then sys_discard consumed else ret (Complete 0)) (\<lambda>d.
          if d \<noteq> Complete consumed then fail_proxy_handshake fid
          else if is_complete h
          then andThen (amend fid (entry_handshake_update (\<lambda>_. None))) (\<lambda>_. activate_flow fid)
          else flush_proxy_output fid)))"
proof -
  let ?G = "insert (InHandshake fid) F"
  obtain r h' where r: "handshake_receive bs h = (r, h')"
    by fastforce
  have h': "handshake_ok h'"
    using Proxy_Handshake.receive_ok [OF h r] .
  have G: "Live fid \<in> ?G" "InHandshake fid \<in> ?G" "F \<subseteq> ?G"
    using F by auto
  have amend: "keeps_inv ?G [] [] (amend fid (entry_handshake_update (\<lambda>_. Some h')))"
    using G h' by (intro keeps)
  have fail: "keeps_from ?G F (fail_proxy_handshake fid)"
    using F by (intro from_weaken(1) keeps) auto
  have finish: "keeps_from ?G F (if d \<noteq> Complete consumed then fail_proxy_handshake fid
      else if is_complete h'
      then andThen (amend fid (entry_handshake_update (\<lambda>_. None))) (\<lambda>_. activate_flow fid)
      else flush_proxy_output fid)" for d consumed
    using F by (intro from_if fail from_weaken(2) [OF keeps_flush_output [OF G(1,2)] G(3)] from_weaken(1) [OF _ G(3)] keeps; assumption?)
  have discard: "keeps_inv ?G [] [] (if 0 < consumed then sys_discard consumed else ret (Complete 0))" for consumed
    using keeps_discard [of ?G "[]" "[]" ret consumed] by (auto simp: keeps_inv_def)
  show ?thesis
    unfolding r by (cases r; simp only: prod.case sum.case; intro from_seq(1) [OF amend] from_seq(1) [OF discard] finish fail G(3))
qed

lemma from_receive_input:
  assumes F: "Live fid \<in> F" "InHandshake fid \<notin> F"
  shows "keeps_from (insert (InHandshake fid) F) F (receive_proxy_input fid)"
proof -
  let ?G = "insert (InHandshake fid) F"
  have G: "Live fid \<in> ?G" "F \<subseteq> ?G"
    using F by auto
  have "keeps_inv ?G [] [] (fetch fid)" "keeps_inv ?G [] [] (sys_peek n)" for n
    using keeps_fetch [OF G(1), of "[]" "[]" ret] keeps_peek [of n ?G "[]" "[]" ret] keeps_ret [of ?G]
    by (auto simp: keeps_inv_def)
  moreover have "keeps_from ?G F (fail_proxy_handshake fid)" "keeps_from ?G F (ret ())"
    using F by (intro from_weaken(1) keeps; auto)+
  ultimately show ?thesis
    unfolding receive_proxy_input_def
    by (intro from_seq(1) G) (auto split: io.split list.split intro!: from_fetch_handshake from_fed F)
qed

lemma keeps_finish_connect [keeps]:
  assumes "Live fid \<in> F"
  shows "keeps_inv F [] [] (finish_transport_connect fid)"
proof -
  have "keeps_from (insert (InHandshake fid) F) F (flush_proxy_output fid)"
    using assms by (intro from_weaken(2) keeps_flush_output) auto
  then show ?thesis
    unfolding finish_transport_connect_def using assms
    by (intro keeps keeps_fetch_cases; simp add: keeps)
qed

lemmas keeps_then_connect [keeps] = keeps_seq [OF keeps_finish_connect]

section \<open>Segments from the namespace\<close>

lemma keeps_settle [keeps]: "Live fid \<in> F \<Longrightarrow> keeps_inv F [] [] (settle_acknowledged fid previous)"
  unfolding settle_acknowledged_def Let_def by (intro keeps; assumption?)

lemma keeps_deliver [keeps]: "Live fid \<in> F \<Longrightarrow> keeps_inv F [] [] (deliver_segment fid sg d)"
  unfolding deliver_segment_def by (cases d; simp only: receive_disposition.case; (intro keeps; assumption?))

lemmas keeps_then_settle [keeps] = keeps_seq [OF keeps_settle] keeps_seq [OF keeps_deliver]

lemma keeps_existing: "Live fid \<in> F \<Longrightarrow> keeps_inv F [] [] (handle_existing_tcp fid sg)"
  unfolding handle_existing_tcp_def Let_def by (intro keeps; assumption?)

lemma keeps_refuse: "same_family key \<Longrightarrow> keeps_inv F [] [] (refuse key sg)"
  unfolding refuse_def by (intro keeps; assumption?)

section \<open>Socket events\<close>

lemma keeps_drive:
  assumes F: "Live fid \<in> F" "InHandshake fid \<notin> F"
  shows "keeps_inv F [] [] (drive_handshake fid events)"
proof -
  let ?G = "insert (InHandshake fid) F"
  have G: "F \<subseteq> ?G"
    by auto
  have flush: "keeps_inv ?G [] [] (only_if b (flush_proxy_output fid))" for b
    using F by (intro keeps keeps_flush_output) auto
  have closed: "keeps_inv ?G [] [] (flow_is_closed fid)"
    by (simp add: flow_is_closed_def keeps_inv_def)
  have receive: "keeps_from ?G F (only_if b (receive_proxy_input fid))" for b
    by (intro from_if from_receive_input [OF F] from_weaken(1) [OF keeps_ret G])
  have rest: "keeps_inv F [] [] (andThen (flow_is_closed fid) (\<lambda>closed.
      if closed then ret False else andThen (fetch fid) (\<lambda>e. ret (entry_handshake e = None))))"
    by (intro keeps) auto
  show ?thesis
    unfolding drive_handshake_def
    by (intro keeps_fetch_cases F from_if from_seq(1) [OF flush] from_seq(1) [OF closed] from_seq(2) [OF receive]
        from_weaken(1) [OF keeps_ret G] G rest; simp add: keeps_ret)
qed

lemma keeps_ready [keeps]: "Live fid \<in> F \<Longrightarrow> keeps_inv F [] [] (handle_ready_socket fid events)"
  unfolding handle_ready_socket_def by (intro keeps; assumption?)

lemma keeps_socket_error: "Live fid \<in> F \<Longrightarrow> keeps_inv F [] [] (handle_socket_error fid)"
  unfolding handle_socket_error_def by (intro keeps; assumption?)

lemma keeps_socket_events: "keeps_inv {} [] [] (handle_socket_events fid events)"
  unfolding handle_socket_events_def
  by (intro keeps keeps_seq [OF keeps_socket_error] keeps_seq [OF keeps_drive]) auto

lemma keeps_handle_socket: "keeps_inv {} [] [] (handle_socket fid events)"
  unfolding handle_socket_def by (rule keeps_seq [OF keeps_socket_events]) (intro keeps)

section \<open>Timers\<close>

lemma keeps_watchdog [keeps]: "keeps_inv F [] [] (watchdog_upstream_ack fid)"
  unfolding watchdog_upstream_ack_def by (intro keeps; (assumption | simp)?)

lemmas keeps_then_watchdog [keeps] = keeps_seq [OF keeps_watchdog]

text \<open>A flow that was in the table stays there until \<open>cleanup_closed\<close>.\<close>

lemma keeps_serve_timer [keeps]: "Live fid \<in> F \<Longrightarrow> keeps_inv F [] [] (serve_timer t fid)"
  unfolding serve_timer_def Let_def by (intro keeps; (assumption | simp)?)

lemma keeps_timer_loop:
  assumes "Live ` set ids \<subseteq> F"
  shows "keeps_inv F [] [] (timer_loop t ids)"
  using assms
proof (induction ids)
  case (Cons fid ids)
  then show ?case
    unfolding timer_loop.simps by (intro keeps keeps_seq [OF keeps_serve_timer]) auto
qed (simp add: keeps_ret)

lemma timer_order_set: "set (timer_order cursor ids) = set ids"
  using set_append [of "take n ids" "drop n ids" for n] by (simp add: timer_order_def Let_def Un_commute flip: set_append)

lemma keeps_handle_timers: "keeps_inv {} [] [] (handle_tcp_timers t)"
  unfolding keeps_inv_def handle_tcp_timers_def
proof (intro allI impI)
  fix s
  assume s: "rinv {} [] s"
  let ?ids = "timer_order (timer_cursor_slot s) (active_ids (tcp_flows s))"
  have "table_get (tcp_flows s) fid \<noteq> None" if "fid \<in> set ?ids" for fid
    using that s active_ids_ok [of "tcp_flows s"] by (auto simp: timer_order_set rinv_def)
  then have "rinv (Live ` set ?ids) [] s"
    using s by (simp add: rinv_def)
  then show "wp (andThen (gets (\<lambda>s. timer_order (timer_cursor_slot s) (active_ids (tcp_flows s)))) (timer_loop t))
      (\<lambda>_. rinv {} []) (rinv {} []) s"
    using keeps_timer_loop [of ?ids "Live ` set ?ids" t] unfolding keeps_inv_def
    by (auto intro: wp_mono rinv_more)
qed

section \<open>Removing closed flows\<close>

lemma keeps_cleanup: "keeps_inv {} [] [] cleanup_closed"
  unfolding keeps_inv_def
proof (intro allI impI)
  fix s
  assume s: "rinv {} [] s"
  then obtain vs t' where t: "flush_deferred (tcp_flows s) = Some (vs, t')" "table_ok t'" "deferred t' = []"
      "\<And>x. table_get t' x = (if x \<in> set (deferred (tcp_flows s)) then None else table_get (tcp_flows s) x)"
    using flush_deferred_ok [of "tcp_flows s"] by (auto simp: rinv_def)
  have "rinv {} [] (s\<lparr>tcp_flows := t'\<rparr>)"
    using s t(2-4) by (simp add: rinv_def)
  then show "wp cleanup_closed (\<lambda>_. rinv {} []) (rinv {} []) s"
    using t(1) by (simp add: wp_def cleanup_closed_def)
qed

section \<open>A new connection\<close>

lemma keeps_mss: "config_ok c \<Longrightarrow> (\<And>m. keeps_inv F hand hand' (k m)) \<Longrightarrow>
    keeps_inv F hand hand' (andThen (expect (default_mss c t)) k)"
  using default_mss_defined [of c t] by (auto simp: config_ok_def keeps_inv_def)

lemma keeps_proxy:
  assumes "\<And>h. (\<And>x. h = Some x \<Longrightarrow> handshake_ok x) \<Longrightarrow> keeps_inv F hand hand' (k h)"
  shows "keeps_inv F hand hand' (andThen (expect (proxy_handshake base64 c t)) k)"
proof -
  obtain h where h: "proxy_handshake base64 c t = Some h"
    using proxy_handshake_defined [of base64 c t] by auto
  have "h = Some x \<Longrightarrow> handshake_ok x" for x
    using h by (auto simp: proxy_handshake_def split: upstream.splits sum.splits
        intro: handshake_run_ok [OF handshake_run.hs_start])
  then show ?thesis
    using assms by (simp add: h keeps_expect)
qed

lemma keeps_construction:
  assumes "\<And>con. construction_ok con \<Longrightarrow> cstate con = Typed \<Longrightarrow>
      (\<exists>side. initiating con = Some side \<and> logical_peer side = key_namespace key \<and> local_endpoint side = key_target key) \<Longrightarrow>
      keeps_inv F hand hand' (k con)"
  shows "keeps_inv F hand hand' (andThen (flow_construction_for key side) k)"
  unfolding flow_construction_for_def
  by (simp add: construction_defs, rule keeps_ret_then, rule assms) simp_all

lemma new_entry_ok:
  assumes "construction_ok con" "cstate con = Typed" "same_family key"
    "\<exists>side. initiating con = Some side \<and> logical_peer side = key_namespace key \<and> local_endpoint side = key_target key"
    "\<And>x. h = Some x \<Longrightarrow> handshake_ok x"
  shows "entry_ok (new_entry con fl fd h rb sb)" "entry_key (new_entry con fl fd h rb sb) = key"
proof -
  show key: "entry_key (new_entry con fl fd h rb sb) = key"
    using assms(4) by (auto simp: entry_key_def new_entry_def)
  then show "entry_ok (new_entry con fl fd h rb sb)"
    using assms(1-3,5) by (auto simp: entry_ok_def) (auto simp: new_entry_def queue_ok_def queue_new_def)
qed

lemma keeps_activate:
  assumes "entry_ok e" "HasKey fid (entry_key e) \<in> F"
    and k: "\<And>r con. entry_step fid F (construction_update (\<lambda>_. con)) \<Longrightarrow> keeps_inv F hand hand' (k (r, con))"
  shows "keeps_inv F hand hand' (andThen (expect (activate (construction e))) k)"
proof -
  have "\<exists>r con. activate (construction e) = Some (r, con) \<and> construction_ok con \<and> cstate con \<in> {Typed, Active} \<and>
      initiating con = initiating (construction e)"
    using assms(1) by (cases "cstate (construction e) = Typed") (auto simp: entry_ok_def activate_def)
  then obtain r con where a: "activate (construction e) = Some (r, con)" "construction_ok con"
      "cstate con \<in> {Typed, Active}" "initiating con = initiating (construction e)"
    by blast
  then have key: "entry_key (e'\<lparr>construction := con\<rparr>) = entry_key e" for e'
    by (simp add: entry_key_def)
  have "entry_step fid F (construction_update (\<lambda>_. con))"
    unfolding entry_step_def using assms(2) a(2,3) key by (auto simp: entry_ok_def)
  then show ?thesis
    using k by (simp add: a(1) keeps_expect)
qed

lemma keeps_register:
  assumes "Live fid \<in> F" "HasKey fid key \<in> F"
  shows "keeps_inv F [] [] (register_flow fid connected)"
  unfolding register_flow_def
  by (intro keeps_option keeps_raise keeps_fetch_known [OF assms] keeps_unit_calls keeps_activate [where fid = fid]; (simp add: assms; fail)?)
    (simp only: prod.case, intro keeps assms; assumption?)

lemma keeps_insert:
  assumes e: "entry_ok e" "entry_key e = key"
  shows "keeps_inv {} [] [] (andThen (gets (\<lambda>s. table_insert e (tcp_flows s))) (\<lambda>ins. andThen (expect ins) (\<lambda>(r, t).
    andThen (change (tcp_flows_update (\<lambda>_. t))) (\<lambda>_.
      case r of Inl _ \<Rightarrow> refuse key sg
      | Inr fid \<Rightarrow> andThen (change (by_key_update (hm_insert key fid))) (\<lambda>_. register_flow fid connected)))))"
  unfolding keeps_inv_def
proof (intro allI impI)
  fix s
  assume s: "rinv {} [] s"
  have t: "table_ok (tcp_flows s)"
    using s by (simp add: rinv_def)
  obtain r t' where i: "table_insert e (tcp_flows s) = Some (r, t')"
    using table_insert_full [OF t, of e] by fastforce
  show "wp (andThen (gets (\<lambda>s. table_insert e (tcp_flows s))) (\<lambda>ins. andThen (expect ins) (\<lambda>(r, t).
    andThen (change (tcp_flows_update (\<lambda>_. t))) (\<lambda>_.
      case r of Inl _ \<Rightarrow> refuse key sg
      | Inr fid \<Rightarrow> andThen (change (by_key_update (hm_insert key fid))) (\<lambda>_. register_flow fid connected)))))
    (\<lambda>_. rinv {} []) (rinv {} []) s"
  proof (cases r)
    case (Inl v)
    then have "t' = tcp_flows s"
      using table_insert_full [OF t, of e v t'] i by simp
    then show ?thesis
      using keeps_refuse [of key "{}" sg] entry_family [OF e(1)] e(2) s i Inl by (simp add: keeps_inv_def)
  next
    case (Inr fid)
    note new = table_insert_ok [OF t i [unfolded Inr]]
    have "fid \<notin> set (deferred (tcp_flows s))" "hm_get (by_key s) key' \<noteq> Some fid" for key'
      using t new s unfolding table_ok_def rinv_def by (blast, fastforce)
    then have "rinv {Live fid, HasKey fid key} [] (by_key_update (hm_insert key fid) (s\<lparr>tcp_flows := t'\<rparr>))"
      using s new e unfolding rinv_def by (auto split: if_splits)
    then have "wp (register_flow fid connected) (\<lambda>_. rinv {Live fid, HasKey fid key} []) (rinv {Live fid, HasKey fid key} [])
        (by_key_update (hm_insert key fid) (s\<lparr>tcp_flows := t'\<rparr>))"
      using keeps_register [of fid "{Live fid, HasKey fid key}" key connected] by (simp add: keeps_inv_def)
    then show ?thesis
      using i Inr by (auto intro: wp_mono rinv_more)
  qed
qed

lemma keeps_new_tcp:
  assumes "same_family key"
  shows "keeps_inv {} [] [] (handle_new_tcp base64 key sg)"
  unfolding handle_new_tcp_def Let_def
  by (intro keeps keeps_refuse assms keeps_mss keeps_proxy keeps_construction keeps_insert new_entry_ok; (assumption | rule assms)?)

lemma keeps_handle_tcp:
  assumes "same_family key"
  shows "keeps_inv {} [] [] (handle_tcp base64 key sg)"
  unfolding keeps_inv_def
proof (intro allI impI)
  fix s
  assume s: "rinv {} [] s"
  show "wp (handle_tcp base64 key sg) (\<lambda>_. rinv {} []) (rinv {} []) s"
  proof (cases "hm_get (by_key s) key")
    case None
    then show ?thesis
      using s keeps_new_tcp [OF assms] by (simp add: handle_tcp_def Let_def keeps_inv_def)
  next
    case (Some fid)
    then have "rinv {Live fid} [] s"
      using s unfolding rinv_def by fastforce
    then show ?thesis
      using keeps_existing [of fid "{Live fid}" sg] Some
      by (auto simp: handle_tcp_def keeps_inv_def intro: wp_mono rinv_more)
  qed
qed

end
