(* ===== verification/Reactor_Dns.thy ===== *)
theory Reactor_Dns
  imports Reactor_Reply Reactor_Handlers
begin

text \<open>
  DNS interception in the worker (\<open>crates/dataplane/src/reactor.rs\<close>): queries that the namespace sends to its
  gateway go through the DNS engine and over one resolver connection, direct or through the proxy; the
  length-prefixed answers are cut out of the stream and go back as UDP frames.

  A loop that calls the kernel until it would block is bounded by the answers left in the script of that
  call: each turn takes one, and with none left the call would block.
\<close>

definition DNS_IDLE_TIMEOUT :: duration where "DNS_IDLE_TIMEOUT = from_secs 15"

section \<open>Replies to the namespace\<close>

definition queue_dns_reply :: "socket_addr \<Rightarrow> socket_addr \<Rightarrow> bytes \<Rightarrow> unit act" where
  "queue_dns_reply receiver sender payload = andThen (queue_udp_frame receiver sender payload) (\<lambda>_. ret ())"

fun reply_each :: "(transaction \<times> bytes) list \<Rightarrow> unit act" where
  "reply_each [] = ret ()"
| "reply_each ((tx, payload) # rest) =
     andThen (queue_dns_reply (client tx) (gateway tx) payload) (\<lambda>_. reply_each rest)"

section \<open>The resolver connection\<close>

definition fail_dns_connection :: "unit act" where
  "fail_dns_connection = andThen (gets (\<lambda>s. fail_all (engine (resolver s)))) (\<lambda>(replies, e).
     andThen (change (resolver_update (\<lambda>r. r\<lparr>engine := e, connection := DnsIdle, dns_write_buffer := [],
       dns_read_buffer := []\<rparr>))) (\<lambda>_. reply_each replies))"

definition ensure_dns_connection :: "(bytes \<Rightarrow> bytes) \<Rightarrow> unit act" where
  "ensure_dns_connection base64 = andThen (gets (\<lambda>s. s)) (\<lambda>s.
     if connection (resolver s) \<noteq> DnsIdle then ret ()
     else case dns_upstream (r_config s) of
       None \<Rightarrow> raise (Invariant ''DNS forward without a resolver'')
     | Some address \<Rightarrow>
         andThen (case upstream_of (r_config s) of
                    Proxy pr proxy cr \<Rightarrow>
                      (case handshake_new base64 pr Connect address cr of Inl e \<Rightarrow> expect None | Inr h \<Rightarrow> ret (Some h))
                  | Direct lb \<Rightarrow> ret None) (\<lambda>h.
         andThen (call k_connect k_connect_update) (\<lambda>r.
           case r of
             Complete (fd, connected) \<Rightarrow>
               andThen sys_epoll (\<lambda>_. change (resolver_update (connection_update (\<lambda>_. DnsConnecting fd connected h))))
           | _ \<Rightarrow> fail_dns_connection)))"

text \<open>
  The front slice of the ring buffer is a prefix of its contents; the kernel takes a prefix of that, so a
  prefix of the contents.
\<close>

fun dns_write_loop :: "nat \<Rightarrow> nat \<Rightarrow> unit act" where
  "dns_write_loop n fd = andThen (gets (\<lambda>s. dns_write_buffer (resolver s))) (\<lambda>buffer.
     if buffer = [] then ret ()
     else case n of
       0 \<Rightarrow> ret ()
     | Suc n \<Rightarrow>
         andThen (sys_send fd buffer) (\<lambda>r.
           case r of
             Complete sent \<Rightarrow>
               if sent = 0 then fail_dns_connection
               else andThen (change (resolver_update (dns_write_buffer_update (drop sent)))) (\<lambda>_. dns_write_loop n fd)
           | WouldBlock \<Rightarrow> ret ()
           | Failed \<Rightarrow> fail_dns_connection))"

definition flush_dns_write :: "unit act" where
  "flush_dns_write = andThen (gets (\<lambda>s. s)) (\<lambda>s.
     case connection (resolver s) of
       DnsReady fd \<Rightarrow> dns_write_loop (length (k_send (kern s))) fd
     | _ \<Rightarrow> ret ())"

definition update_dns_interest :: "unit act" where
  "update_dns_interest = andThen (gets (\<lambda>s. connection (resolver s))) (\<lambda>con.
     if con = DnsIdle then ret () else sys_epoll)"

definition forward_dns_query :: "(bytes \<Rightarrow> bytes) \<Rightarrow> u16 \<Rightarrow> bytes \<Rightarrow> unit act" where
  "forward_dns_query base64 upstream_id message = andThen (gets resolver) (\<lambda>r.
     if length message \<ge> 65536 \<or> length (dns_write_buffer r) + 2 + length message > DNS_WRITE_BUFFER_LIMIT
     then case dns_abort upstream_id (engine r) of
            (None, e) \<Rightarrow> change (resolver_update (engine_update (\<lambda>_. e)))
          | (Some (tx, payload), e) \<Rightarrow>
              andThen (change (resolver_update (engine_update (\<lambda>_. e)))) (\<lambda>_.
                queue_dns_reply (client tx) (gateway tx) payload)
     else if length message < 2 then expect None
     else andThen (change (resolver_update (dns_write_buffer_update (\<lambda>_.
              dns_write_buffer r @ u16_to_be (word_of_nat (length message)) @ u16_to_be upstream_id @ drop 2 message)))) (\<lambda>_.
          andThen now (\<lambda>t. andThen (change (resolver_update (dns_last_activity_update (\<lambda>_. t)))) (\<lambda>_.
          andThen (ensure_dns_connection base64) (\<lambda>_.
          andThen flush_dns_write (\<lambda>_. update_dns_interest))))))"

definition handle_dns_udp :: "(bytes \<Rightarrow> bytes) \<Rightarrow> socket_addr \<Rightarrow> socket_addr \<Rightarrow> bytes \<Rightarrow> unit act" where
  "handle_dns_udp base64 asker server message = andThen now (\<lambda>t. andThen (gets (\<lambda>s. s)) (\<lambda>s.
     andThen (expect (accept_query asker server message (dns_upstream (r_config s) \<noteq> None) t (engine (resolver s))))
       (\<lambda>(disposition, e). andThen (change (resolver_update (engine_update (\<lambda>_. e)))) (\<lambda>_.
         case disposition of
           Drop \<Rightarrow> ret ()
         | Respond payload \<Rightarrow> queue_dns_reply asker server payload
         | Forward upstream_id \<Rightarrow> forward_dns_query base64 upstream_id message))))"

section \<open>The proxy handshake\<close>

text \<open>
  The inner loop of \<open>drive_dns_handshake\<close>: the handshake's output goes out. The result is whether all of it did
  and the connection still stands.
\<close>

fun dns_output_loop :: "nat \<Rightarrow> bool act" where
  "dns_output_loop n = andThen (gets (\<lambda>s. connection (resolver s))) (\<lambda>con.
     case con of
       DnsConnecting fd connected (Some h) \<Rightarrow>
         if pending_output h = [] then ret True
         else (case n of
           0 \<Rightarrow> ret False
         | Suc n \<Rightarrow>
             andThen (sys_send fd (pending_output h)) (\<lambda>r.
               case r of
                 Complete sent \<Rightarrow>
                   if sent = 0 then andThen fail_dns_connection (\<lambda>_. ret False)
                   else (case advance_output sent h of
                     (Inl _, h) \<Rightarrow> andThen fail_dns_connection (\<lambda>_. ret False)
                   | (Inr _, h) \<Rightarrow>
                       andThen (change (resolver_update (connection_update (\<lambda>_. DnsConnecting fd connected (Some h))))) (\<lambda>_.
                         dns_output_loop n))
               | WouldBlock \<Rightarrow> ret False
               | Failed \<Rightarrow> andThen fail_dns_connection (\<lambda>_. ret False)))
     | _ \<Rightarrow> ret False)"

text \<open>
  The outer loop; the result is whether the handshake is over. A turn that neither has output nor wants
  input would repeat for ever: that is \<open>None\<close>.
\<close>

fun dns_handshake_loop :: "nat \<Rightarrow> bool act" where
  "dns_handshake_loop n = andThen (gets (\<lambda>s. connection (resolver s))) (\<lambda>con.
     case con of
       DnsConnecting fd connected None \<Rightarrow> ret True
     | DnsConnecting fd connected (Some h) \<Rightarrow>
         if is_complete h then ret True
         else andThen (gets (\<lambda>s. length (k_send (kern s)))) (\<lambda>sends.
           andThen (dns_output_loop sends) (\<lambda>go_on.
           if \<not> go_on then ret False
           else andThen (gets (\<lambda>s. connection (resolver s))) (\<lambda>con.
             case con of
               DnsConnecting fd connected (Some h) \<Rightarrow>
                 if \<not> wants_input h then expect None
                 else (case n of
                   0 \<Rightarrow> ret False
                 | Suc n \<Rightarrow>
                     andThen (sys_peek PROXY_RESPONSE_CAPACITY) (\<lambda>r.
                       case r of
                         Complete response \<Rightarrow>
                           if response = [] then andThen fail_dns_connection (\<lambda>_. ret False)
                           else let (received, h) = handshake_receive response h
                             in andThen (change (resolver_update (connection_update (\<lambda>_. DnsConnecting fd connected (Some h))))) (\<lambda>_.
                                case received of
                                  Inl _ \<Rightarrow> andThen fail_dns_connection (\<lambda>_. ret False)
                                | Inr consumed \<Rightarrow>
                                    if consumed = 0 then ret False
                                    else andThen (must (sys_discard consumed)) (\<lambda>discarded.
                                      if discarded \<noteq> consumed then andThen fail_dns_connection (\<lambda>_. ret False)
                                      else dns_handshake_loop n))
                       | WouldBlock \<Rightarrow> ret False
                       | Failed \<Rightarrow> andThen fail_dns_connection (\<lambda>_. ret False)))
             | _ \<Rightarrow> ret False)))
     | _ \<Rightarrow> ret False)"

definition drive_dns_handshake :: "unit act" where
  "drive_dns_handshake = andThen (gets (\<lambda>s. length (k_peek (kern s)))) (\<lambda>n.
     andThen (dns_handshake_loop n) (\<lambda>complete.
       if \<not> complete then ret ()
       else andThen (gets (\<lambda>s. connection (resolver s))) (\<lambda>con.
         case con of
           DnsConnecting fd connected h \<Rightarrow>
             andThen (change (resolver_update (connection_update (\<lambda>_. DnsReady fd)))) (\<lambda>_. flush_dns_write)
         | _ \<Rightarrow> ret ())))"

section \<open>The response stream\<close>

text \<open>The reply must fit one TAP frame; the subtractions of the source panic on underflow.\<close>

definition dns_frame_limit :: "reactor_config \<Rightarrow> tap_frames \<Rightarrow> usize option" where
  "dns_frame_limit c t =
     (let overhead = vnet_len_of c + ETHERNET_HEADER_LEN + 40 + UDP_HEADER_LEN
      in if mtu_frame_capacity t < overhead then None else Some (mtu_frame_capacity t - overhead))"

text \<open>The loop of \<open>process_dns_frames\<close>; a turn takes at least two bytes from the buffer.\<close>

fun dns_frames_loop :: "nat \<Rightarrow> unit act" where
  "dns_frames_loop n = andThen (gets (\<lambda>s. s)) (\<lambda>s.
     let buffer = dns_read_buffer (resolver s);
         frame_len = unat (be16_at buffer 0)
     in if length buffer < 2 \<or> length buffer < 2 + frame_len then ret ()
        else case n of
          0 \<Rightarrow> expect None
        | Suc n \<Rightarrow>
            andThen (change (resolver_update (dns_read_buffer_update (drop (2 + frame_len))))) (\<lambda>_.
            andThen (expect (dns_frame_limit (r_config s) (frames s))) (\<lambda>frame_limit.
              case accept_response (subslice 2 (2 + frame_len) buffer) frame_limit (engine (resolver s)) of
                (None, e) \<Rightarrow> andThen (change (resolver_update (engine_update (\<lambda>_. e)))) (\<lambda>_. dns_frames_loop n)
              | (Some reply, e) \<Rightarrow>
                  andThen (change (resolver_update (engine_update (\<lambda>_. e)))) (\<lambda>_.
                  andThen now (\<lambda>t. andThen (change (resolver_update (dns_last_activity_update (\<lambda>_. t)))) (\<lambda>_.
                  andThen (queue_dns_reply (client (reply_transaction reply)) (gateway (reply_transaction reply))
                    (reply_payload reply)) (\<lambda>_. dns_frames_loop n)))))))"

definition process_dns_frames :: "unit act" where
  "process_dns_frames = andThen (gets (\<lambda>s. length (dns_read_buffer (resolver s)))) dns_frames_loop"

definition sys_recv :: "usize \<Rightarrow> bytes io act" where
  "sys_recv capacity = andThen (call k_recv k_recv_update) (\<lambda>r. ret (map_io (take capacity) r))"

fun dns_read_loop :: "nat \<Rightarrow> bool act" where
  "dns_read_loop 0 = ret True"
| "dns_read_loop (Suc n) = andThen (sys_recv 4096) (\<lambda>r.
     case r of
       Complete bs \<Rightarrow>
         if bs = [] then ret False
         else andThen (gets (\<lambda>s. dns_read_buffer (resolver s))) (\<lambda>buffer.
           if length buffer + length bs > DNS_READ_BUFFER_LIMIT then ret False
           else andThen (change (resolver_update (dns_read_buffer_update (\<lambda>_. buffer @ bs)))) (\<lambda>_. dns_read_loop n))
     | WouldBlock \<Rightarrow> ret True
     | Failed \<Rightarrow> ret False)"

definition read_dns_stream :: "bool act" where
  "read_dns_stream = andThen (gets (\<lambda>s. s)) (\<lambda>s.
     case connection (resolver s) of
       DnsReady fd \<Rightarrow>
         andThen (dns_read_loop (length (k_recv (kern s)))) (\<lambda>alive. andThen process_dns_frames (\<lambda>_. ret alive))
     | _ \<Rightarrow> ret True)"

section \<open>Events\<close>

text \<open>The step of a connection that is not up yet. The result is whether the handler goes on.\<close>

definition dns_connect_step :: "u32 \<Rightarrow> bool act" where
  "dns_connect_step events = andThen (gets (\<lambda>s. connection (resolver s))) (\<lambda>con.
     case con of
       DnsConnecting fd connected h \<Rightarrow>
         if connected then andThen drive_dns_handshake (\<lambda>_. ret True)
         else if events AND WRITABLE = 0 then ret False
         else andThen sys_error (\<lambda>broken.
           if broken then andThen fail_dns_connection (\<lambda>_. ret False)
           else andThen (change (resolver_update (connection_update (\<lambda>_. DnsConnecting fd True h)))) (\<lambda>_.
                  andThen drive_dns_handshake (\<lambda>_. ret True)))
     | _ \<Rightarrow> ret True)"

definition dns_data_step :: "u32 \<Rightarrow> bool act" where
  "dns_data_step events = andThen (gets (\<lambda>s. connection (resolver s))) (\<lambda>con.
     case con of
       DnsReady fd \<Rightarrow>
         andThen (only_if (events AND WRITABLE \<noteq> 0) flush_dns_write) (\<lambda>_.
         andThen (if events AND (READABLE OR READ_HANGUP) \<noteq> 0 then read_dns_stream else ret True) (\<lambda>alive.
           if alive then ret True else andThen fail_dns_connection (\<lambda>_. ret False)))
     | _ \<Rightarrow> ret True)"

definition handle_dns_upstream :: "u32 \<Rightarrow> unit act" where
  "handle_dns_upstream events = andThen (gets (\<lambda>s. connection (resolver s))) (\<lambda>con.
     if con = DnsIdle then ret ()
     else andThen (if events AND ERROR \<noteq> 0 then sys_error else ret False) (\<lambda>broken.
       if broken then fail_dns_connection
       else andThen (dns_connect_step events) (\<lambda>go_on.
         if \<not> go_on then ret ()
         else andThen (dns_data_step events) (\<lambda>go_on.
           only_if go_on update_dns_interest))))"

definition handle_dns_timers :: "instant \<Rightarrow> unit act" where
  "handle_dns_timers t = andThen (gets (\<lambda>s. dns_expire t (engine (resolver s)))) (\<lambda>r.
     andThen (expect r) (\<lambda>(expired, e).
     andThen (change (resolver_update (engine_update (\<lambda>_. e)))) (\<lambda>_.
     andThen (reply_each expired) (\<lambda>_.
     andThen (gets resolver) (\<lambda>r.
       only_if (is_idle (engine r) \<and> dns_write_buffer r = [] \<and> connection r \<noteq> DnsIdle \<and>
                t - dns_last_activity r \<ge> DNS_IDLE_TIMEOUT)
         (change (resolver_update (\<lambda>r. r\<lparr>connection := DnsIdle, dns_read_buffer := []\<rparr>))))))))"

section \<open>The engine\<close>

definition replies_wf :: "(transaction \<times> bytes) list \<Rightarrow> bool" where
  "replies_wf replies \<longleftrightarrow> (\<forall>(tx, _) \<in> set replies. wf_addr (client tx) \<and> wf_addr (gateway tx))"

lemma dns_wf_smaller:
  "dns_wf e \<Longrightarrow> dns_ok e' \<Longrightarrow> (\<And>i tx. hm_get (transactions e') i = Some tx \<Longrightarrow> hm_get (transactions e) i = Some tx) \<Longrightarrow> dns_wf e'"
  by (auto simp: dns_wf_def)

lemma accept_query_wf:
  assumes e: "dns_wf e" and wf: "wf_addr asker" "wf_addr server"
  shows "\<exists>d e'. accept_query asker server m avail t e = Some (d, e') \<and> dns_wf e' \<and> (\<forall>i. d = Forward i \<longrightarrow> 12 \<le> length m)"
proof -
  obtain d e' where q: "accept_query asker server m avail t e = Some (d, e')" "dns_ok e'"
    "case d of Forward i \<Rightarrow> 12 \<le> length m \<and>
      (\<exists>tx. hm_get (transactions e') = (hm_get (transactions e))(i \<mapsto> tx) \<and> client tx = asker \<and> gateway tx = server)
     | _ \<Rightarrow> e' = e"
    using accept_query_ok [of e asker server m avail t] e
    by (fastforce simp: dns_wf_def split: query_disposition.splits)
  then show ?thesis
    using e wf by (cases d) (auto simp: dns_wf_def split: if_splits)
qed

lemma dns_abort_wf:
  assumes "dns_wf e" "dns_abort i e = (r, e')"
  shows "dns_wf e' \<and> (\<forall>tx payload. r = Some (tx, payload) \<longrightarrow> wf_addr (client tx) \<and> wf_addr (gateway tx))"
  using assms dns_ok_remove [of e i]
  by (auto simp: dns_abort_def dns_wf_def servfail_def split: option.splits if_splits)

lemma fail_all_wf:
  assumes "dns_wf e" "fail_all e = (replies, e')"
  shows "dns_wf e' \<and> replies_wf replies"
proof -
  have "hm_get (transactions e) i = Some tx" if "(i, tx) \<in> set (transactions e)" for i tx
    using assms(1) that by (auto simp: dns_wf_def dns_ok_def hm_ok_def hm_get_def)
  then show ?thesis
    using assms by (fastforce simp: fail_all_def dns_wf_def dns_ok_def replies_wf_def servfail_def)
qed

lemma dns_expire_wf:
  assumes e: "dns_wf e"
  shows "\<exists>replies e'. dns_expire t e = Some (replies, e') \<and> dns_wf e' \<and> replies_wf replies"
  using dns_expire_ok [of e t] overdue_ids(2) [of e _ t] e
  by (fastforce simp: dns_wf_def replies_wf_def servfail_def)

lemma accept_response_wf:
  assumes "dns_wf e" "accept_response m limit e = (r, e')"
  shows "dns_wf e' \<and> (\<forall>reply. r = Some reply \<longrightarrow> wf_addr (client (reply_transaction reply)) \<and> wf_addr (gateway (reply_transaction reply)))"
  using assms dns_ok_remove [of e]
  by (auto simp: accept_response_def translate_response_def dns_wf_def Let_def split: option.splits if_splits)

section \<open>Replies\<close>

lemma keeps_dns_reply [keeps]:
  "wf_addr receiver \<Longrightarrow> wf_addr sender \<Longrightarrow> keeps_inv F [] [] (queue_dns_reply receiver sender payload)"
  unfolding queue_dns_reply_def by (intro keeps keeps_seq [OF keeps_queue_udp])

lemma keeps_reply_each [keeps]: "replies_wf replies \<Longrightarrow> keeps_inv F [] [] (reply_each replies)"
  by (induction replies rule: reply_each.induct) (auto simp: replies_wf_def intro!: keeps keeps_seq [OF keeps_dns_reply])

section \<open>The resolver connection\<close>

lemma keeps_resolver:
  assumes "\<And>r. resolver_ok r \<Longrightarrow> resolver_ok (g r)"
  shows "keeps_inv F hand hand' (k ()) \<Longrightarrow> keeps_inv F hand hand' (andThen (change (resolver_update g)) k)"
    and "keeps_inv F hand hand (change (resolver_update g))"
  using assms by (auto simp: keeps_inv_def rinv_def)

lemma resolver_steps:
  "resolver_ok r \<Longrightarrow> resolver_ok (r\<lparr>dns_last_activity := t\<rparr>)"
  "resolver_ok r \<Longrightarrow> resolver_ok (dns_write_buffer_update (drop n) r)"
  "resolver_ok r \<Longrightarrow> resolver_ok (dns_read_buffer_update (drop n) r)"
  "resolver_ok r \<Longrightarrow> dns_wf e \<Longrightarrow> resolver_ok (r\<lparr>engine := e\<rparr>)"
  "resolver_ok r \<Longrightarrow> resolver_ok (r\<lparr>connection := DnsReady fd\<rparr>)"
  "resolver_ok r \<Longrightarrow> (\<And>h'. h = Some h' \<Longrightarrow> handshake_ok h') \<Longrightarrow> resolver_ok (r\<lparr>connection := DnsConnecting fd b h\<rparr>)"
  "resolver_ok r \<Longrightarrow> length bs \<le> DNS_WRITE_BUFFER_LIMIT \<Longrightarrow> resolver_ok (r\<lparr>dns_write_buffer := bs\<rparr>)"
  "resolver_ok r \<Longrightarrow> length bs \<le> DNS_READ_BUFFER_LIMIT \<Longrightarrow> resolver_ok (r\<lparr>dns_read_buffer := bs\<rparr>)"
  by (auto simp: resolver_ok_def)

lemmas keeps_resolver_steps [keeps] =
  keeps_resolver(1) [where g = "dns_last_activity_update (\<lambda>_. t)" for t, OF resolver_steps(1)]
  keeps_resolver(1) [where g = "dns_write_buffer_update (drop n)" for n, OF resolver_steps(2)]
  keeps_resolver(1) [where g = "dns_read_buffer_update (drop n)" for n, OF resolver_steps(3)]
  keeps_resolver(1) [where g = "engine_update (\<lambda>_. e)" for e, OF resolver_steps(4)]
  keeps_resolver(2) [where g = "engine_update (\<lambda>_. e)" for e, OF resolver_steps(4)]
  keeps_resolver(1) [where g = "connection_update (\<lambda>_. DnsReady fd)" for fd, OF resolver_steps(5)]
  keeps_resolver(1) [where g = "connection_update (\<lambda>_. DnsConnecting fd b h)" for fd b h, OF resolver_steps(6)]
  keeps_resolver(2) [where g = "connection_update (\<lambda>_. DnsConnecting fd b h)" for fd b h, OF resolver_steps(6)]
  keeps_resolver(1) [where g = "dns_write_buffer_update (\<lambda>_. bs)" for bs, OF resolver_steps(7)]
  keeps_resolver(1) [where g = "dns_read_buffer_update (\<lambda>_. bs)" for bs, OF resolver_steps(8)]

lemma rinv_resolver: "rinv F hand s \<Longrightarrow> resolver_ok (resolver s)" "rinv F hand s \<Longrightarrow> dns_wf (engine (resolver s))"
  by (simp_all add: rinv_def resolver_ok_def)

lemma keeps_fail_dns [keeps]: "keeps_inv F [] [] fail_dns_connection"
  unfolding fail_dns_connection_def
proof (intro keeps_gets_inv keeps_prod keeps_resolver(1) keeps_reply_each)
  fix s r replies e
  assume s: "rinv F [] s" "fail_all (engine (resolver s)) = (replies, e)"
  then show "replies_wf replies"
    using fail_all_wf rinv_resolver(2) by blast
  assume "resolver_ok r"
  then show "resolver_ok (r\<lparr>engine := e, connection := DnsIdle, dns_write_buffer := [], dns_read_buffer := []\<rparr>)"
    using s fail_all_wf [OF rinv_resolver(2)] by (auto simp: resolver_ok_def)
qed

lemmas keeps_then_dns [keeps] = keeps_seq [OF keeps_dns_reply] keeps_seq [OF keeps_reply_each] keeps_seq [OF keeps_fail_dns]

lemma handshake_new_ok: "handshake_new base64 pr c t cr = Inr h \<Longrightarrow> handshake_ok h"
  using handshake_run_ok [OF hs_start] .

lemma handshake_new_total: "\<exists>h. handshake_new base64 pr Connect t cr = Inr h"
  by (auto simp: handshake_new_def Let_def split: protocol.split)

lemma keeps_ensure_dns [keeps]: "keeps_inv F [] [] (ensure_dns_connection base64)"
proof -
  have con: "keeps_inv F [] [] (andThen (call k_connect k_connect_update) (\<lambda>r.
      case r of
        Complete (fd, connected) \<Rightarrow>
          andThen sys_epoll (\<lambda>_. change (resolver_update (connection_update (\<lambda>_. DnsConnecting fd connected h))))
      | _ \<Rightarrow> fail_dns_connection))" if "\<And>h'. h = Some h' \<Longrightarrow> handshake_ok h'" for h
    using that by (intro keeps)
  have new: "keeps_inv F [] [] (andThen (case handshake_new base64 pr Connect address cr of Inl e \<Rightarrow> expect None | Inr h \<Rightarrow> ret (Some h)) k)"
    if "\<And>h. handshake_ok h \<Longrightarrow> keeps_inv F [] [] (k (Some h))" for pr cr address and k :: "handshake option \<Rightarrow> unit act"
    using handshake_new_total [of base64 pr address cr] handshake_new_ok that by (force intro: keeps)
  show ?thesis
    unfolding ensure_dns_connection_def
    by (intro keeps_gets_then keeps) (auto intro!: con new keeps_ret_then split: upstream.split)
qed

declare dns_write_loop.simps [simp del] dns_output_loop.simps [simp del] dns_handshake_loop.simps [simp del]
  dns_frames_loop.simps [simp del]

lemma keeps_dns_write_loop: "keeps_inv F [] [] (dns_write_loop n fd)"
proof (induction n)
  case 0
  show ?case
    unfolding dns_write_loop.simps [of 0] nat.case by (intro keeps_gets_then keeps)
next
  case (Suc n)
  show ?case
    unfolding dns_write_loop.simps [of "Suc n"] nat.case by (intro keeps_gets_then keeps Suc)
qed

lemma keeps_flush_dns [keeps]: "keeps_inv F [] [] flush_dns_write"
  unfolding flush_dns_write_def by (intro keeps_gets_then) (auto intro!: keeps keeps_dns_write_loop split: dns_connection.split)

lemma keeps_dns_interest [keeps]: "keeps_inv F [] [] update_dns_interest"
  unfolding update_dns_interest_def by (intro keeps_gets_then keeps)

lemmas keeps_then_flush_dns [keeps] = keeps_seq [OF keeps_ensure_dns] keeps_seq [OF keeps_flush_dns] keeps_seq [OF keeps_dns_interest]

lemma keeps_forward_dns: "2 \<le> length message \<Longrightarrow> keeps_inv F [] [] (forward_dns_query base64 upstream_id message)"
  unfolding forward_dns_query_def
proof (intro keeps_gets_inv)
  fix s
  assume s: "rinv F [] s" and m: "2 \<le> length message"
  let ?r = "resolver s"
  have abort: "keeps_inv F [] [] (case dns_abort upstream_id (engine ?r) of
      (None, e) \<Rightarrow> change (resolver_update (engine_update (\<lambda>_. e)))
    | (Some (tx, payload), e) \<Rightarrow> andThen (change (resolver_update (engine_update (\<lambda>_. e)))) (\<lambda>_.
        queue_dns_reply (client tx) (gateway tx) payload))"
    using dns_abort_wf [OF rinv_resolver(2) [OF s], of upstream_id]
    by (auto split: prod.split option.split intro!: keeps)
  show "keeps_inv F [] [] (if length message \<ge> 65536 \<or> length (dns_write_buffer ?r) + 2 + length message > DNS_WRITE_BUFFER_LIMIT
     then case dns_abort upstream_id (engine ?r) of
            (None, e) \<Rightarrow> change (resolver_update (engine_update (\<lambda>_. e)))
          | (Some (tx, payload), e) \<Rightarrow>
              andThen (change (resolver_update (engine_update (\<lambda>_. e)))) (\<lambda>_.
                queue_dns_reply (client tx) (gateway tx) payload)
     else if length message < 2 then expect None
     else andThen (change (resolver_update (dns_write_buffer_update (\<lambda>_.
              dns_write_buffer ?r @ u16_to_be (word_of_nat (length message)) @ u16_to_be upstream_id @ drop 2 message)))) (\<lambda>_.
          andThen now (\<lambda>t. andThen (change (resolver_update (dns_last_activity_update (\<lambda>_. t)))) (\<lambda>_.
          andThen (ensure_dns_connection base64) (\<lambda>_.
          andThen flush_dns_write (\<lambda>_. update_dns_interest))))))"
    using m abort by (auto intro!: keeps)
qed

lemma keeps_handle_dns_udp:
  "wf_addr asker \<Longrightarrow> wf_addr server \<Longrightarrow> keeps_inv F [] [] (handle_dns_udp base64 asker server message)"
  unfolding handle_dns_udp_def
proof (intro keeps_now keeps_gets_inv)
  fix t s
  assume s: "rinv F [] s" and wf: "wf_addr asker" "wf_addr server"
  obtain d e where q: "accept_query asker server message (dns_upstream (r_config s) \<noteq> None) t (engine (resolver s)) = Some (d, e)"
      "dns_wf e" "\<And>i. d = Forward i \<Longrightarrow> 12 \<le> length message"
    using accept_query_wf [OF rinv_resolver(2) [OF s] wf] by blast
  have "keeps_inv F [] [] (case d of Drop \<Rightarrow> ret () | Respond payload \<Rightarrow> queue_dns_reply asker server payload
      | Forward upstream_id \<Rightarrow> forward_dns_query base64 upstream_id message)"
    using q(3) wf by (cases d) (auto intro!: keeps keeps_forward_dns)
  then show "keeps_inv F [] [] (andThen (expect (accept_query asker server message (dns_upstream (r_config s) \<noteq> None) t (engine (resolver s))))
      (\<lambda>(disposition, e). andThen (change (resolver_update (engine_update (\<lambda>_. e)))) (\<lambda>_.
         case disposition of
           Drop \<Rightarrow> ret ()
         | Respond payload \<Rightarrow> queue_dns_reply asker server payload
         | Forward upstream_id \<Rightarrow> forward_dns_query base64 upstream_id message)))"
    unfolding q(1) prod.case using q(2) by (intro keeps) simp_all
qed

section \<open>The proxy handshake\<close>

lemma handshake_turn:
  assumes "handshake_ok h" "\<not> is_complete h"
  shows "pending_output h = [] \<Longrightarrow> wants_input h"
    and "advance_output n h = (r, h') \<Longrightarrow> handshake_ok h' \<and> \<not> is_complete h'"
proof -
  show "pending_output h = [] \<Longrightarrow> wants_input h"
    using assms by (cases "hs_state h") (auto simp: handshake_ok_def writing_def is_complete_def wants_input_def pending_output_def)
  show "advance_output n h = (r, h') \<Longrightarrow> handshake_ok h' \<and> \<not> is_complete h'"
    using assms advance_output_ok [of h n r h']
    by (cases "hs_state h") (auto simp: advance_output_def is_complete_def clear_output_def Let_def split: if_splits)
qed

definition in_dns_handshake :: "reactor \<Rightarrow> bool" where
  "in_dns_handshake s \<longleftrightarrow> (\<exists>fd connected h. connection (resolver s) = DnsConnecting fd connected (Some h) \<and> \<not> is_complete h)"

text \<open>When all output is out, the handshake waits for input.\<close>

lemma wp_fail_dns: "rinv F [] s \<Longrightarrow> wp fail_dns_connection (\<lambda>_. rinv F []) (rinv F []) s"
  using keeps_fail_dns by (simp add: keeps_inv_def)

lemma wp_dns_output:
  assumes "rinv F [] s" "in_dns_handshake s"
  shows "wp (dns_output_loop n) (\<lambda>go_on s'. rinv F [] s' \<and>
    (go_on \<longrightarrow> (\<exists>fd connected h. connection (resolver s') = DnsConnecting fd connected (Some h) \<and> wants_input h))) (rinv F []) s"
  (is "wp _ ?Q _ _")
  using assms
proof (induction n arbitrary: s)
  case 0
  then show ?case
    using handshake_turn(1)
    by (auto simp: dns_output_loop.simps [of 0] in_dns_handshake_def rinv_def resolver_ok_def)
next
  case (Suc n)
  obtain fd connected h where con: "connection (resolver s) = DnsConnecting fd connected (Some h)" "\<not> is_complete h"
    using Suc.prems(2) by (auto simp: in_dns_handshake_def)
  have h: "handshake_ok h"
    using Suc.prems(1) con(1) unfolding rinv_def resolver_ok_def by blast
  have fail: "wp (andThen fail_dns_connection (\<lambda>_. ret False)) ?Q (rinv F []) (s\<lparr>kern := k\<rparr>)" for k
    using wp_fail_dns [of F "s\<lparr>kern := k\<rparr>"] Suc.prems(1) by (auto intro: wp_mono)
  have step: "wp (dns_output_loop n) ?Q (rinv F [])
      (resolver_update (connection_update (\<lambda>_. DnsConnecting fd connected (Some h'))) (s\<lparr>kern := k\<rparr>))"
    if "advance_output m h = (r, h')" for m r h' k
  proof (rule Suc.IH)
    have "handshake_ok h'" "\<not> is_complete h'"
      using handshake_turn(2) [OF h con(2) that] by auto
    then show "rinv F [] (resolver_update (connection_update (\<lambda>_. DnsConnecting fd connected (Some h'))) (s\<lparr>kern := k\<rparr>))"
      "in_dns_handshake (resolver_update (connection_update (\<lambda>_. DnsConnecting fd connected (Some h'))) (s\<lparr>kern := k\<rparr>))"
      using Suc.prems(1) by (auto simp: rinv_def in_dns_handshake_def intro: resolver_steps)
  qed
  show ?case
  proof (cases "pending_output h = []")
    case True
    then show ?thesis
      using Suc.prems(1) con handshake_turn(1) [OF h con(2)] by (simp add: dns_output_loop.simps [of "Suc n"])
  next
    case False
    have "wp (case r of
        Complete sent \<Rightarrow>
          if sent = 0 then andThen fail_dns_connection (\<lambda>_. ret False)
          else (case advance_output sent h of
            (Inl _, h) \<Rightarrow> andThen fail_dns_connection (\<lambda>_. ret False)
          | (Inr _, h) \<Rightarrow>
              andThen (change (resolver_update (connection_update (\<lambda>_. DnsConnecting fd connected (Some h))))) (\<lambda>_. dns_output_loop n))
      | WouldBlock \<Rightarrow> ret False
      | Failed \<Rightarrow> andThen fail_dns_connection (\<lambda>_. ret False)) ?Q (rinv F []) (s\<lparr>kern := k\<rparr>)" for r k
      using fail [of k] step [of _ _ _ k] Suc.prems(1) by (auto split: io.split sum.split prod.split)
    then show ?thesis
      unfolding dns_output_loop.simps [of "Suc n"] nat.case using con False by simp (rule wp_send)
  qed
qed

text \<open>The part of a turn that reads.\<close>

lemma keeps_dns_input:
  assumes "handshake_ok h" "\<And>m. n = Suc m \<Longrightarrow> keeps_inv F [] [] (dns_handshake_loop m)"
  shows "keeps_inv F [] [] (case n of
      0 \<Rightarrow> ret False
    | Suc n \<Rightarrow>
        andThen (sys_peek PROXY_RESPONSE_CAPACITY) (\<lambda>r.
          case r of
            Complete response \<Rightarrow>
              if response = [] then andThen fail_dns_connection (\<lambda>_. ret False)
              else let (received, h) = handshake_receive response h
                in andThen (change (resolver_update (connection_update (\<lambda>_. DnsConnecting fd connected (Some h))))) (\<lambda>_.
                   case received of
                     Inl _ \<Rightarrow> andThen fail_dns_connection (\<lambda>_. ret False)
                   | Inr consumed \<Rightarrow>
                       if consumed = 0 then ret False
                       else andThen (must (sys_discard consumed)) (\<lambda>discarded.
                         if discarded \<noteq> consumed then andThen fail_dns_connection (\<lambda>_. ret False)
                         else dns_handshake_loop n))
          | WouldBlock \<Rightarrow> ret False
          | Failed \<Rightarrow> andThen fail_dns_connection (\<lambda>_. ret False)))"
  unfolding Let_def using receive_ok [OF assms(1)] by (intro keeps assms(2)) auto

lemma keeps_dns_handshake_step:
  assumes IH: "\<And>m. n = Suc m \<Longrightarrow> keeps_inv F [] [] (dns_handshake_loop m)"
  shows "keeps_inv F [] [] (dns_handshake_loop n)"
  unfolding keeps_inv_def
proof (intro allI impI)
  fix s
  assume s: "rinv F [] s"
  show "wp (dns_handshake_loop n) (\<lambda>_. rinv F []) (rinv F []) s"
  proof (cases "in_dns_handshake s")
    case False
    then show ?thesis
      using s by (auto simp: dns_handshake_loop.simps [of n] in_dns_handshake_def split: dns_connection.split option.split)
  next
    case True
    then obtain fd connected h where con: "connection (resolver s) = DnsConnecting fd connected (Some h)" "\<not> is_complete h"
      by (auto simp: in_dns_handshake_def)
    show ?thesis
      unfolding dns_handshake_loop.simps [of n] wp_andThen wp_simps con(1) dns_connection.case option.case if_not_P [OF con(2)]
    proof (rule wp_mono [OF wp_dns_output [OF s True]], goal_cases)
      case (1 go_on s')
      note s' = 1
      show ?case
      proof (cases go_on)
        case True
        then obtain fd connected h where con: "connection (resolver s') = DnsConnecting fd connected (Some h)" "wants_input h"
          using s' by blast
        then have "handshake_ok h"
          using s' unfolding rinv_def resolver_ok_def by blast
        then show ?thesis
          using True con s' keeps_dns_input [OF _ IH, of h n] by (simp add: keeps_inv_def)
      qed (use s' in simp)
    qed simp
  qed
qed

lemma keeps_dns_handshake: "keeps_inv F [] [] (dns_handshake_loop n)"
  by (induction n) (rule keeps_dns_handshake_step, simp)+

lemma keeps_drive_dns [keeps]: "keeps_inv F [] [] drive_dns_handshake"
  unfolding drive_dns_handshake_def
  by (intro keeps_gets_then keeps keeps_seq [OF keeps_dns_handshake]) (auto intro!: keeps split: dns_connection.split)

lemmas keeps_then_drive_dns [keeps] = keeps_seq [OF keeps_drive_dns]

section \<open>The response stream\<close>

lemma preserves_resolver_basics [stable]:
  "preserves resolver (release f)" "preserves resolver now" "preserves resolver sys_epoll" "preserves resolver (amend fid g)"
  "preserves resolver (sys_tap_write bs)" "preserves resolver (change (tap_queue_update h))"
  "preserves resolver (reserve_retained_bytes n)" "preserves resolver (release_retained_bytes n)"
  "preserves resolver (injected_drop plan_of)" "preserves resolver (on_frames b)"
  by (auto simp: preserves_def succeeds_def release_def on_frames_def now_def sys_epoll_def must_def call_def
      andThen_def ret_def raise_def amend_def sys_tap_write_def change_def gets_def reserve_retained_bytes_def
      release_retained_bytes_def injected_drop_def
      split: list.splits option.splits io.splits sum.splits if_splits)

lemma preserves_io [stable]:
  "(\<And>x. preserves view (f x)) \<Longrightarrow> preserves view m \<Longrightarrow> preserves view m' \<Longrightarrow>
     preserves view (case r of Complete x \<Rightarrow> f x | WouldBlock \<Rightarrow> m | Failed \<Rightarrow> m')"
  by (cases r) simp_all

lemma preserves_resolver_tap [stable]: "preserves resolver (queue_tap flow_of f plan_of)"
  unfolding queue_tap_def Let_def abandon_def commit_tap_send_def commit_plan_def update_tap_interest_def
  by (intro stable)

lemma preserves_dns_reply: "preserves resolver (queue_dns_reply receiver sender payload)"
  unfolding queue_dns_reply_def queue_udp_frame_def by (intro stable)

lemma dns_frame_limit_defined:
  assumes "config_ok c" "frames_ok c t fs"
  shows "dns_frame_limit c t \<noteq> None"
  using frame_room_headers [OF assms] by (simp add: dns_frame_limit_def Let_def UDP_HEADER_LEN_def)

lemma wp_dns_frames:
  assumes "rinv F [] s" "length (dns_read_buffer (resolver s)) \<le> n"
  shows "wp (dns_frames_loop n) (\<lambda>_ s'. rinv F [] s' \<and> (length (dns_read_buffer (resolver s')) < 2 \<or>
    length (dns_read_buffer (resolver s')) < 2 + unat (be16_at (dns_read_buffer (resolver s')) 0))) (rinv F []) s"
  (is "wp _ ?Q _ _")
  using assms
proof (induction n arbitrary: s)
  case 0
  then show ?case
    by (simp add: dns_frames_loop.simps [of 0] Let_def)
next
  case (Suc n)
  let ?b = "dns_read_buffer (resolver s)"
  let ?len = "unat (be16_at ?b 0)"
  show ?case
  proof (cases "length ?b < 2 \<or> length ?b < 2 + ?len")
    case True
    then show ?thesis
      using Suc.prems(1) by (auto simp: dns_frames_loop.simps [of "Suc n"] Let_def)
  next
    case False
    obtain limit where limit: "dns_frame_limit (r_config s) (frames s) = Some limit"
      using dns_frame_limit_defined Suc.prems(1) unfolding rinv_def by blast
    obtain r e where a: "accept_response (subslice 2 (2 + ?len) ?b) limit (engine (resolver s)) = (r, e)"
      by fastforce
    note wf = accept_response_wf [OF rinv_resolver(2) [OF Suc.prems(1)] a]
    let ?s = "resolver_update (engine_update (\<lambda>_. e)) (resolver_update (dns_read_buffer_update (drop (2 + ?len))) s)"
    have s: "rinv F [] (?s\<lparr>kern := k\<rparr>)" "rinv F [] (resolver_update (dns_last_activity_update (\<lambda>_. t)) (?s\<lparr>kern := k\<rparr>))" for k t
      using Suc.prems(1) wf by (auto simp: rinv_def intro: resolver_steps)
    show ?thesis
    proof (cases r)
      case None
      then show ?thesis
        using Suc.IH [of ?s] s(1) [of "kern s"] Suc.prems(2) False limit a
        by (simp add: dns_frames_loop.simps [of "Suc n"] Let_def)
    next
      case (Some reply)
      let ?m = "queue_dns_reply (client (reply_transaction reply)) (gateway (reply_transaction reply)) (reply_payload reply)"
      have "wp ?m (\<lambda>_ s''. rinv F [] s'' \<and> resolver s'' = resolver s') (rinv F []) s'" if "rinv F [] s'" for s'
        using that keeps_dns_reply wf Some by (intro wp_preserves preserves_dns_reply) (auto simp: keeps_inv_def)
      then have onward: "wp ?m (\<lambda>_. wp (dns_frames_loop n) ?Q (rinv F [])) (rinv F [])
          (resolver_update (dns_last_activity_update (\<lambda>_. t)) (?s\<lparr>kern := k\<rparr>))" for t k
        using s(2) [of t k] False Suc.prems(2) by (fastforce intro: wp_mono Suc.IH)
      show ?thesis
        using onward onward [of _ "kern s"] limit a False Some
        by (auto simp: dns_frames_loop.simps [of "Suc n"] Let_def wp_def [of now] now_def split: list.split)
    qed
  qed
qed

lemma keeps_process_frames: "keeps_inv F [] [] process_dns_frames"
  unfolding process_dns_frames_def keeps_inv_def by (auto intro: wp_mono [OF wp_dns_frames])

lemma keeps_recv [keeps]:
  assumes "\<And>r. (\<And>b. r = Complete b \<Longrightarrow> length b \<le> n) \<Longrightarrow> keeps_inv F hand hand' (k r)"
  shows "keeps_inv F hand hand' (andThen (sys_recv n) k)"
  unfolding sys_recv_def by (intro keeps assms) (auto simp: map_io_Complete)

lemma keeps_dns_read_loop: "keeps_inv F [] [] (dns_read_loop n)"
proof (induction n)
  case (Suc n)
  then show ?case
    unfolding dns_read_loop.simps by (intro keeps keeps_gets_then) auto
qed (auto intro: keeps)

lemma keeps_read_dns: "keeps_inv F [] [] read_dns_stream"
  unfolding read_dns_stream_def
  by (intro keeps_gets_then)
    (auto intro!: keeps keeps_seq [OF keeps_dns_read_loop] keeps_seq [OF keeps_process_frames] split: dns_connection.split)

section \<open>Events\<close>

lemma keeps_dns_connect: "keeps_inv F [] [] (dns_connect_step events)"
  unfolding dns_connect_step_def
proof (intro keeps_gets_inv)
  fix s
  assume s: "rinv F [] s"
  show "keeps_inv F [] [] (case connection (resolver s) of
       DnsConnecting fd connected h \<Rightarrow>
         if connected then andThen drive_dns_handshake (\<lambda>_. ret True)
         else if events AND WRITABLE = 0 then ret False
         else andThen sys_error (\<lambda>broken.
           if broken then andThen fail_dns_connection (\<lambda>_. ret False)
           else andThen (change (resolver_update (connection_update (\<lambda>_. DnsConnecting fd True h)))) (\<lambda>_.
                  andThen drive_dns_handshake (\<lambda>_. ret True)))
     | _ \<Rightarrow> ret True)"
    using rinv_resolver(1) [OF s] by (auto simp: resolver_ok_def intro!: keeps split: dns_connection.split)
qed

lemma keeps_dns_data: "keeps_inv F [] [] (dns_data_step events)"
  unfolding dns_data_step_def
  by (intro keeps_gets_then) (auto intro!: keeps keeps_seq [OF keeps_read_dns] split: dns_connection.split)

lemma keeps_handle_dns_upstream: "keeps_inv F [] [] (handle_dns_upstream events)"
  unfolding handle_dns_upstream_def
  by (intro keeps_gets_then keeps keeps_seq [OF keeps_dns_connect] keeps_seq [OF keeps_dns_data])

lemma keeps_dns_timers: "keeps_inv F [] [] (handle_dns_timers t)"
  unfolding handle_dns_timers_def
proof (intro keeps_gets_inv)
  fix s
  assume s: "rinv F [] s"
  obtain expired e where x: "dns_expire t (engine (resolver s)) = Some (expired, e)" "dns_wf e" "replies_wf expired"
    using dns_expire_wf [OF rinv_resolver(2) [OF s]] by blast
  have idle: "keeps_inv F [] [] (change (resolver_update (\<lambda>r. r\<lparr>connection := DnsIdle, dns_read_buffer := []\<rparr>)))"
    by (rule keeps_resolver) (simp add: resolver_ok_def)
  show "keeps_inv F [] [] (andThen (expect (dns_expire t (engine (resolver s)))) (\<lambda>(expired, e).
     andThen (change (resolver_update (engine_update (\<lambda>_. e)))) (\<lambda>_.
     andThen (reply_each expired) (\<lambda>_.
     andThen (gets resolver) (\<lambda>r.
       only_if (is_idle (engine r) \<and> dns_write_buffer r = [] \<and> connection r \<noteq> DnsIdle \<and>
                t - dns_last_activity r \<ge> DNS_IDLE_TIMEOUT)
         (change (resolver_update (\<lambda>r. r\<lparr>connection := DnsIdle, dns_read_buffer := []\<rparr>))))))))"
    unfolding x(1) using x(2,3) by (intro keeps keeps_gets_then idle) auto
qed

end
