(* ===== verification/Reactor_Socks.thy ===== *)
theory Reactor_Socks
  imports Reactor_Dns
begin

text \<open>
  UDP through a SOCKS5 proxy (\<open>crates/dataplane/src/reactor.rs\<close>): an association is a control connection with its
  handshake and a relay socket; it is built, used, torn down and rebuilt after a delay that doubles with every
  failure.
\<close>

definition UDP_RX_BUDGET :: nat where "UDP_RX_BUDGET = 32"
definition SOCKS_REBUILD_INITIAL :: duration where "SOCKS_REBUILD_INITIAL = from_millis 100"
definition SOCKS_REBUILD_MAX :: duration where "SOCKS_REBUILD_MAX = from_secs 5"

section \<open>System calls on datagram sockets\<close>

definition call_datagram ::
  "(kernel \<Rightarrow> 'a datagram_io list) \<Rightarrow> (('a datagram_io list \<Rightarrow> 'a datagram_io list) \<Rightarrow> kernel \<Rightarrow> kernel) \<Rightarrow> 'a datagram_io act" where
  "call_datagram sel upd s =
     (case sel (kern s) of
        [] \<Rightarrow> Some (Inr Busy, s)
      | a # _ \<Rightarrow> Some (Inr a, s\<lparr>kern := upd tl (kern s)\<rparr>))"

definition sys_udp_send :: "nat \<Rightarrow> bytes \<Rightarrow> usize datagram_io act" where
  "sys_udp_send fd bs = andThen (call_datagram k_udp_send k_udp_send_update) (\<lambda>r.
     case map_datagram_io (\<lambda>n. min n (length bs)) r of
       Done n \<Rightarrow> andThen (change (kern_update (datagram_log_update (\<lambda>l. l @ [(fd, take n bs)])))) (\<lambda>_. ret (Done n))
     | e \<Rightarrow> ret e)"

text \<open>The whole datagram; the caller compares its length with its buffer.\<close>

definition sys_datagram :: "bytes datagram_io act" where
  "sys_datagram = call_datagram k_datagram k_datagram_update"

section \<open>Associations\<close>

definition association_of :: "flow_id \<Rightarrow> reactor \<Rightarrow> socks_association option" where
  "association_of fid s = table_get (socks_associations (datagrams s)) fid"

text \<open>\<open>get_mut(id).expect("association exists")\<close>.\<close>

definition altered :: "flow_id \<Rightarrow> (socks_association \<Rightarrow> socks_association) \<Rightarrow> reactor \<Rightarrow> reactor" where
  "altered fid g = datagrams_update (socks_associations_update (table_modify fid g))"

definition alter_association :: "flow_id \<Rightarrow> (socks_association \<Rightarrow> socks_association) \<Rightarrow> unit act" where
  "alter_association fid g s = map_option (\<lambda>_. (Inr (), altered fid g s)) (association_of fid s)"

definition new_association :: "reactor_config \<Rightarrow> association_key \<Rightarrow> instant \<Rightarrow> socks_association" where
  "new_association c key t = \<lparr>sa_key = key, sa_state = SocksBackoff, sa_control = None, sa_relay = None, sa_handshake = None,
     sa_response = [], sa_pending = [], sa_pending_bytes = 0, tx_buffer = replicate (unat (tap_mtu c) + 22) 0,
     retry_attempt = 0, retry_at = t\<rparr>"

definition rebuild_base :: "u8 \<Rightarrow> duration" where
  "rebuild_base attempt = min (SOCKS_REBUILD_INITIAL * 2 ^ unat (min (saturating_sub attempt 1) 6)) SOCKS_REBUILD_MAX"

text \<open>The random jitter is a fraction of the base.\<close>

definition schedule_socks_rebuild :: "flow_id \<Rightarrow> unit act" where
  "schedule_socks_rebuild fid = andThen (gets (association_of fid)) (\<lambda>r.
     case r of
       None \<Rightarrow> ret ()
     | Some a \<Rightarrow>
         let attempt = saturating_add (retry_attempt a) 1;
             base = rebuild_base attempt
         in andThen (alter_association fid (\<lambda>a. a\<lparr>retry_attempt := attempt, sa_state := SocksBackoff, sa_handshake := None,
              sa_response := [], sa_control := None, sa_relay := None\<rparr>)) (\<lambda>_.
            andThen (only_if (sa_control a \<noteq> None) sys_epoll) (\<lambda>_.
            andThen (only_if (sa_relay a \<noteq> None) sys_epoll) (\<lambda>_.
            andThen (must (call k_jitter k_jitter_update)) (\<lambda>jitter.
            andThen now (\<lambda>t. alter_association fid (retry_at_update (\<lambda>_. t + base + min jitter base))))))))"

text \<open>The assertion of a debug build that exactly one association is removed counts as a panic.\<close>

definition forget_association :: "flow_id \<Rightarrow> unit act" where
  "forget_association fid = andThen (gets (\<lambda>s. flush_deferred (defer_remove fid (socks_associations (datagrams s))))) (\<lambda>r.
     andThen (expect r) (\<lambda>(removed, t).
       if length removed \<noteq> 1 then expect None
       else change (datagrams_update (socks_associations_update (\<lambda>_. t)))))"

definition remove_socks_association :: "flow_id \<Rightarrow> unit act" where
  "remove_socks_association fid = andThen (gets (association_of fid)) (\<lambda>r.
     case r of
       None \<Rightarrow> ret ()
     | Some a \<Rightarrow>
         andThen (alter_association fid (\<lambda>a. a\<lparr>sa_control := None, sa_relay := None\<rparr>)) (\<lambda>_.
         andThen (only_if (sa_control a \<noteq> None) sys_epoll) (\<lambda>_.
         andThen (only_if (sa_relay a \<noteq> None) sys_epoll) (\<lambda>_.
         andThen (change (datagrams_update (socks_by_key_update (hm_remove (sa_key a))))) (\<lambda>_.
         forget_association fid)))))"

section \<open>Datagrams to the proxy\<close>

definition queue_socks_datagram :: "flow_id \<Rightarrow> socket_addr \<Rightarrow> bytes \<Rightarrow> unit act" where
  "queue_socks_datagram fid receiver payload = andThen (gets (association_of fid)) (\<lambda>r.
     case r of
       None \<Rightarrow> raise (Invariant ''SOCKS association disappeared'')
     | Some a \<Rightarrow>
         let queued = length payload + 22
         in if queued > SOCKS_UDP_QUEUE_BYTES - sa_pending_bytes a then ret ()
            else alter_association fid (\<lambda>b. b\<lparr>sa_pending := sa_pending a @ [(receiver, payload)],
              sa_pending_bytes := sa_pending_bytes a + queued\<rparr>))"

definition send_socks_datagram :: "flow_id \<Rightarrow> socket_addr \<Rightarrow> bytes \<Rightarrow> unit act" where
  "send_socks_datagram fid receiver payload = andThen (gets (association_of fid)) (\<lambda>r.
     case r of
       None \<Rightarrow> raise (Invariant ''SOCKS association disappeared'')
     | Some a \<Rightarrow>
         if sa_state a \<noteq> SocksReady then queue_socks_datagram fid receiver payload
         else case sa_relay a of
           None \<Rightarrow> raise (Invariant ''ready SOCKS association has no relay'')
         | Some relay \<Rightarrow>
             (case encode_datagram (tx_buffer a) (Socket receiver) payload of
                (Inl _, buffer) \<Rightarrow>
                  andThen (alter_association fid (tx_buffer_update (\<lambda>_. buffer))) (\<lambda>_.
                    raise (Invariant ''SOCKS UDP datagram exceeds relay buffer''))
              | (Inr len, buffer) \<Rightarrow>
                  andThen (alter_association fid (tx_buffer_update (\<lambda>_. buffer))) (\<lambda>_.
                  andThen (sys_udp_send relay (take len buffer)) (\<lambda>sent.
                    case sent of
                      Done n \<Rightarrow> ret ()
                    | Busy \<Rightarrow> ret ()
                    | _ \<Rightarrow> schedule_socks_rebuild fid))))"

section \<open>The control connection\<close>

fun is_unspecified :: "socket_addr \<Rightarrow> bool" where
  "is_unspecified (AddrV4 ip port) = (ip = [0, 0, 0, 0])"
| "is_unspecified (AddrV6 ip port fl sc) = (ip = replicate 16 0)"

text \<open>\<open>SocketAddr::new(address.ip(), port)\<close>.\<close>

fun with_port :: "socket_addr \<Rightarrow> u16 \<Rightarrow> socket_addr" where
  "with_port (AddrV4 ip _) port = AddrV4 ip port"
| "with_port (AddrV6 ip _ _ _) port = AddrV6 ip port 0 0"

text \<open>The loop of \<open>consume_socks_response\<close>; the result is whether it went on to the test for completion.\<close>

fun socks_response_loop :: "nat \<Rightarrow> flow_id \<Rightarrow> bool act" where
  "socks_response_loop n fid = andThen (gets (association_of fid)) (\<lambda>r.
     case r of
       None \<Rightarrow> raise (Invariant ''SOCKS association disappeared'')
     | Some a \<Rightarrow>
         case sa_handshake a of
           None \<Rightarrow> raise (Invariant ''SOCKS association has no handshake'')
         | Some h \<Rightarrow>
             if \<not> wants_input h then ret True
             else let (received, h') = handshake_receive (sa_response a) h
               in andThen (alter_association fid (sa_handshake_update (map_option (\<lambda>_. h')))) (\<lambda>_.
                  case received of
                    Inl _ \<Rightarrow> andThen (schedule_socks_rebuild fid) (\<lambda>_. ret False)
                  | Inr consumed \<Rightarrow>
                      if consumed = 0 then ret True
                      else case n of
                        0 \<Rightarrow> expect None
                      | Suc n \<Rightarrow>
                          andThen (alter_association fid (sa_response_update (drop consumed))) (\<lambda>_. socks_response_loop n fid)))"

text \<open>The rest of it, once the handshake is complete.\<close>

definition finish_socks_handshake :: "flow_id \<Rightarrow> socks_association \<Rightarrow> handshake \<Rightarrow> unit act" where
  "finish_socks_handshake fid a h = andThen (gets r_config) (\<lambda>c.
     case bound_address h of
       None \<Rightarrow> raise (Invariant ''SOCKS ASSOCIATE response has no BND address'')
     | Some bound \<Rightarrow>
         (case upstream_of c of
            Direct _ \<Rightarrow> raise (Invariant ''SOCKS association without proxy'')
          | Proxy _ proxy _ \<Rightarrow>
              (case bound of
                 Domain _ _ \<Rightarrow> schedule_socks_rebuild fid
               | Socket address \<Rightarrow>
                   let relay_endpoint = (if is_unspecified address then with_port proxy (addr_port address) else address)
                   in if sa_relay a = None then raise (Invariant ''SOCKS association has no relay socket'')
                      else if is_ipv4 relay_endpoint \<noteq> is_ipv4 proxy then schedule_socks_rebuild fid
                      else andThen (call k_sockopt k_sockopt_update) (\<lambda>r.
                        case r of
                          Complete _ \<Rightarrow>
                            andThen (expect (sa_control a)) (\<lambda>_.
                            andThen (expect (token_flow fid SocksControl True)) (\<lambda>_.
                            andThen sys_epoll (\<lambda>_.
                            alter_association fid (\<lambda>a. a\<lparr>sa_handshake := None, sa_response := [],
                              sa_state := SocksPendingActivation\<rparr>))))
                        | _ \<Rightarrow> schedule_socks_rebuild fid))))"

definition consume_socks_response :: "flow_id \<Rightarrow> unit act" where
  "consume_socks_response fid = andThen (gets (\<lambda>s. case association_of fid s of None \<Rightarrow> 0 | Some a \<Rightarrow> length (sa_response a))) (\<lambda>n.
     andThen (socks_response_loop n fid) (\<lambda>go_on.
       if \<not> go_on then ret ()
       else andThen (gets (association_of fid)) (\<lambda>r.
         case r of
           None \<Rightarrow> ret ()
         | Some a \<Rightarrow>
             (case sa_handshake a of
                None \<Rightarrow> ret ()
              | Some h \<Rightarrow> if is_complete h then finish_socks_handshake fid a h else ret ()))))"

text \<open>The steps of \<open>drive_socks_control\<close>; each tells whether the next one follows.\<close>

definition socks_connect_step :: "flow_id \<Rightarrow> u32 \<Rightarrow> association_state \<Rightarrow> bool act" where
  "socks_connect_step fid events st =
     (if st \<noteq> SocksConnecting then ret True
      else if events AND WRITABLE = 0 then ret False
      else andThen sys_error (\<lambda>broken.
        if broken then andThen (schedule_socks_rebuild fid) (\<lambda>_. ret False)
        else andThen (alter_association fid (sa_state_update (\<lambda>_. SocksHandshaking))) (\<lambda>_. ret True)))"

definition socks_send_step :: "flow_id \<Rightarrow> nat \<Rightarrow> u32 \<Rightarrow> bool act" where
  "socks_send_step fid fd events =
     (if events AND WRITABLE = 0 then ret True
      else andThen (gets (association_of fid)) (\<lambda>r. andThen (expect r) (\<lambda>a.
        case sa_handshake a of
          None \<Rightarrow> raise (Invariant ''SOCKS association has no handshake'')
        | Some h \<Rightarrow>
            if pending_output h = [] then ret True
            else andThen (sys_send fd (pending_output h)) (\<lambda>r.
              case r of
                Complete n \<Rightarrow>
                  if n = 0 then andThen (schedule_socks_rebuild fid) (\<lambda>_. ret False)
                  else let (advanced, h') = advance_output n h
                    in andThen (alter_association fid (sa_handshake_update (map_option (\<lambda>_. h')))) (\<lambda>_.
                       case advanced of
                         Inl _ \<Rightarrow> andThen (schedule_socks_rebuild fid) (\<lambda>_. ret False)
                       | Inr _ \<Rightarrow> ret True)
              | WouldBlock \<Rightarrow> ret True
              | Failed \<Rightarrow> andThen (schedule_socks_rebuild fid) (\<lambda>_. ret False)))))"

fun socks_recv_loop :: "nat \<Rightarrow> flow_id \<Rightarrow> bool act" where
  "socks_recv_loop 0 fid = ret True"
| "socks_recv_loop (Suc n) fid = andThen (sys_recv 4096) (\<lambda>r.
     case r of
       Complete bs \<Rightarrow>
         if bs = [] then andThen (schedule_socks_rebuild fid) (\<lambda>_. ret False)
         else andThen (gets (association_of fid)) (\<lambda>r. andThen (expect r) (\<lambda>a.
           if length (sa_response a) + length bs > PROXY_RESPONSE_CAPACITY
           then andThen (schedule_socks_rebuild fid) (\<lambda>_. ret False)
           else andThen (alter_association fid (sa_response_update (\<lambda>_. sa_response a @ bs))) (\<lambda>_. socks_recv_loop n fid)))
     | WouldBlock \<Rightarrow> ret True
     | Failed \<Rightarrow> andThen (schedule_socks_rebuild fid) (\<lambda>_. ret False))"

definition drive_socks_control :: "flow_id \<Rightarrow> u32 \<Rightarrow> unit act" where
  "drive_socks_control fid events = andThen (gets (association_of fid)) (\<lambda>r.
     case r of
       None \<Rightarrow> raise (Invariant ''SOCKS association disappeared'')
     | Some a \<Rightarrow>
         (case sa_control a of
            None \<Rightarrow> raise (Invariant ''SOCKS association has no control socket'')
          | Some fd \<Rightarrow>
              andThen (socks_connect_step fid events (sa_state a)) (\<lambda>go_on.
              if \<not> go_on then ret ()
              else andThen (socks_send_step fid fd events) (\<lambda>go_on.
              if \<not> go_on then ret ()
              else andThen (gets (\<lambda>s. length (k_recv (kern s)))) (\<lambda>n.
              andThen (if events AND READABLE \<noteq> 0 then socks_recv_loop n fid else ret True) (\<lambda>go_on.
              if \<not> go_on then ret ()
              else andThen (consume_socks_response fid) (\<lambda>_.
              andThen (gets (association_of fid)) (\<lambda>r.
                only_if (map_option sa_state r = Some SocksHandshaking)
                  (andThen (expect (token_flow fid SocksControl True)) (\<lambda>_. sys_epoll))))))))))"

text \<open>The sockets and the handshake of a new attempt; \<open>None\<close> when one of the calls fails.\<close>

definition socks_resources :: "(bytes \<Rightarrow> bytes) \<Rightarrow> credentials option \<Rightarrow> (nat \<times> nat \<times> bool \<times> handshake) option act" where
  "socks_resources base64 cr = andThen (call k_udp_connect k_udp_connect_update) (\<lambda>r.
     case r of
       Complete relay \<Rightarrow>
         andThen (call k_local k_local_update) (\<lambda>r.
         case r of
           Complete relay_local \<Rightarrow>
             andThen (call k_connect k_connect_update) (\<lambda>r.
             case r of
               Complete (control, connected) \<Rightarrow>
                 andThen (call k_local k_local_update) (\<lambda>r.
                 case r of
                   Complete control_local \<Rightarrow>
                     (case handshake_new base64 Socks5 UdpAssociate (with_port control_local (addr_port relay_local)) cr of
                        Inl _ \<Rightarrow> ret None
                      | Inr h \<Rightarrow> ret (Some (control, relay, connected, h)))
                 | _ \<Rightarrow> ret None)
             | _ \<Rightarrow> ret None)
         | _ \<Rightarrow> ret None)
     | _ \<Rightarrow> ret None)"

definition rebuild_socks_association :: "(bytes \<Rightarrow> bytes) \<Rightarrow> flow_id \<Rightarrow> unit act" where
  "rebuild_socks_association base64 fid = andThen (gets r_config) (\<lambda>c.
     case upstream_of c of
       Proxy Socks5 proxy cr \<Rightarrow>
         andThen (socks_resources base64 cr) (\<lambda>resources.
           case resources of
             None \<Rightarrow> schedule_socks_rebuild fid
           | Some (control, relay, connected, h) \<Rightarrow>
               if token_flow fid SocksControl True = None
               then raise (Invariant ''SOCKS association does not fit epoll token'')
               else andThen sys_epoll (\<lambda>_. andThen (gets (association_of fid)) (\<lambda>r.
                 case r of
                   None \<Rightarrow> raise (Invariant ''SOCKS association disappeared'')
                 | Some _ \<Rightarrow>
                     andThen (alter_association fid (\<lambda>a. a\<lparr>sa_control := Some control, sa_relay := Some relay,
                       sa_handshake := Some h, sa_response := [],
                       sa_state := (if connected then SocksHandshaking else SocksConnecting)\<rparr>)) (\<lambda>_.
                     only_if connected (drive_socks_control fid WRITABLE)))))
     | _ \<Rightarrow> raise (Invariant ''SOCKS rebuild without SOCKS upstream''))"

text \<open>The read of a ready control connection: only its end matters.\<close>

definition watch_ready_control :: "flow_id \<Rightarrow> u32 \<Rightarrow> unit act" where
  "watch_ready_control fid events =
     only_if (events AND (READABLE OR HANGUP OR READ_HANGUP) \<noteq> 0)
       (andThen (sys_recv 1) (\<lambda>r.
          case r of
            Complete bs \<Rightarrow> only_if (bs = []) (schedule_socks_rebuild fid)
          | WouldBlock \<Rightarrow> ret ()
          | Failed \<Rightarrow> schedule_socks_rebuild fid))"

definition handle_socks_control :: "flow_id \<Rightarrow> u32 \<Rightarrow> unit act" where
  "handle_socks_control fid events = andThen (gets (association_of fid)) (\<lambda>r.
     case r of
       None \<Rightarrow> ret ()
     | Some a \<Rightarrow>
         if sa_state a = SocksBackoff \<or> sa_control a = None then ret ()
         else andThen (if events AND ERROR \<noteq> 0 then sys_error else ret False) (\<lambda>broken.
           if broken then schedule_socks_rebuild fid
           else if sa_state a = SocksReady then watch_ready_control fid events
           else drive_socks_control fid events))"

section \<open>Activation\<close>

fun send_pending :: "flow_id \<Rightarrow> (socket_addr \<times> bytes) list \<Rightarrow> unit act" where
  "send_pending fid [] = ret ()"
| "send_pending fid ((receiver, payload) # rest) = andThen (gets (association_of fid)) (\<lambda>r.
     if map_option sa_state r \<noteq> Some SocksReady then ret ()
     else andThen (send_socks_datagram fid receiver payload) (\<lambda>_. send_pending fid rest))"

definition activate_association :: "flow_id \<Rightarrow> unit act" where
  "activate_association fid = andThen (gets (association_of fid)) (\<lambda>r.
     andThen (expect (case r of None \<Rightarrow> None | Some a \<Rightarrow> map_option (\<lambda>_. a) (sa_relay a))) (\<lambda>a.
     andThen (expect (token_flow fid SocksRelay True)) (\<lambda>_.
     andThen sys_epoll (\<lambda>_.
     andThen (alter_association fid (\<lambda>a. a\<lparr>sa_state := SocksReady, retry_attempt := 0, sa_pending_bytes := 0,
       sa_pending := []\<rparr>)) (\<lambda>_.
     send_pending fid (sa_pending a))))))"

fun activate_each :: "flow_id list \<Rightarrow> unit act" where
  "activate_each [] = ret ()"
| "activate_each (fid # rest) = andThen (activate_association fid) (\<lambda>_. activate_each rest)"

definition in_state :: "association_state \<Rightarrow> reactor \<Rightarrow> flow_id \<Rightarrow> bool" where
  "in_state st s fid \<longleftrightarrow> (case association_of fid s of None \<Rightarrow> False | Some a \<Rightarrow> sa_state a = st)"

definition activate_socks_associations :: "unit act" where
  "activate_socks_associations = andThen (gets (\<lambda>s.
     filter (in_state SocksPendingActivation s) (active_ids (socks_associations (datagrams s))))) activate_each"

section \<open>Datagrams from the proxy\<close>

text \<open>\<open>receive_udp_error\<close> reports an empty queue as \<open>None\<close>.\<close>

definition sys_udp_report :: "udp_report option io act" where
  "sys_udp_report = andThen (call k_udp_report k_udp_report_update) (\<lambda>r.
     ret (case r of WouldBlock \<Rightarrow> Complete None | r \<Rightarrow> r))"

fun drain_reports :: "nat \<Rightarrow> unit act" where
  "drain_reports 0 = ret ()"
| "drain_reports (Suc n) = andThen (must sys_udp_report) (\<lambda>r. if r = None then ret () else drain_reports n)"

definition relayed_datagram :: "association_key \<Rightarrow> bytes \<Rightarrow> unit act" where
  "relayed_datagram key bs =
     (case decode_datagram bs of
        Inl _ \<Rightarrow> ret ()
      | Inr d \<Rightarrow>
          (case destination d of
             Domain _ _ \<Rightarrow> ret ()
           | Socket sender \<Rightarrow>
               andThen (gets (\<lambda>s. id_for_key (forwarder (datagrams s)) \<lparr>uk_source = ak_source key, uk_target = sender\<rparr>)) (\<lambda>found.
                 case found of
                   None \<Rightarrow> ret ()
                 | Some fid \<Rightarrow>
                     andThen now (\<lambda>t.
                     andThen (change (datagrams_update (forwarder_update (record_inbound fid t)))) (\<lambda>_.
                     andThen (gets (\<lambda>s. udp_flow_of (forwarder (datagrams s)) fid)) (\<lambda>r.
                     andThen (expect r) (\<lambda>f.
                     andThen (queue_udp_frame (ak_source key) (reply_source f) (datagram_payload d)) (\<lambda>_. ret ()))))))))"

fun relay_rx_loop :: "nat \<Rightarrow> flow_id \<Rightarrow> association_key \<Rightarrow> unit act" where
  "relay_rx_loop 0 fid key = ret ()"
| "relay_rx_loop (Suc n) fid key = andThen (gets r_config) (\<lambda>c. andThen sys_datagram (\<lambda>r.
     case r of
       Done bs \<Rightarrow>
         andThen (only_if (length bs \<le> unat (tap_mtu c) + 22) (relayed_datagram key bs)) (\<lambda>_. relay_rx_loop n fid key)
     | Busy \<Rightarrow> ret ()
     | _ \<Rightarrow> schedule_socks_rebuild fid))"

definition handle_socks_relay :: "flow_id \<Rightarrow> u32 \<Rightarrow> unit act" where
  "handle_socks_relay fid events = andThen (gets (association_of fid)) (\<lambda>r.
     case r of
       None \<Rightarrow> ret ()
     | Some a \<Rightarrow>
         if sa_state a \<noteq> SocksReady then ret ()
         else andThen (expect (sa_relay a)) (\<lambda>_.
           if events AND ERROR \<noteq> 0 then
             andThen (gets (\<lambda>s. length (k_udp_report (kern s)))) (\<lambda>n.
             andThen (drain_reports n) (\<lambda>_. schedule_socks_rebuild fid))
           else only_if (events AND READABLE \<noteq> 0) (relay_rx_loop UDP_RX_BUDGET fid (sa_key a))))"

section \<open>Datagrams from the namespace\<close>

text \<open>The association of a source, built when there is none.\<close>

definition association_for :: "(bytes \<Rightarrow> bytes) \<Rightarrow> association_key \<Rightarrow> instant \<Rightarrow> flow_id act" where
  "association_for base64 key t = andThen (gets (\<lambda>s. s)) (\<lambda>s.
     case hm_get (socks_by_key (datagrams s)) key of
       Some fid \<Rightarrow> ret fid
     | None \<Rightarrow>
         andThen (expect (table_insert (new_association (r_config s) key t) (socks_associations (datagrams s)))) (\<lambda>(r, table).
           andThen (change (datagrams_update (socks_associations_update (\<lambda>_. table)))) (\<lambda>_.
           case r of
             Inl _ \<Rightarrow> raise (Invariant ''SOCKS association table exhausted'')
           | Inr fid \<Rightarrow>
               andThen (change (datagrams_update (socks_by_key_update (hm_insert key fid)))) (\<lambda>_.
               andThen (rebuild_socks_association base64 fid) (\<lambda>_. ret fid)))))"

definition handle_socks_udp_routed :: "(bytes \<Rightarrow> bytes) \<Rightarrow> socket_addr \<Rightarrow> socket_addr \<Rightarrow> socket_addr \<Rightarrow> bytes \<Rightarrow> unit act" where
  "handle_socks_udp_routed base64 sender receiver reply message = andThen now (\<lambda>t. andThen (gets datagrams) (\<lambda>d.
     andThen (expect (accept_routed \<lparr>uk_source = sender, uk_target = receiver\<rparr> reply t (forwarder d))) (\<lambda>(r, e).
     andThen (change (datagrams_update (forwarder_update (\<lambda>_. e)))) (\<lambda>_.
       case r of
         Inl _ \<Rightarrow> ret ()
       | Inr _ \<Rightarrow>
           andThen (association_for base64 \<lparr>ak_source = sender\<rparr> t) (\<lambda>fid.
           andThen (gets (association_of fid)) (\<lambda>a.
             if map_option sa_state a = Some SocksReady then send_socks_datagram fid receiver message
             else queue_socks_datagram fid receiver message))))))"

definition handle_socks_udp :: "(bytes \<Rightarrow> bytes) \<Rightarrow> socket_addr \<Rightarrow> socket_addr \<Rightarrow> bytes \<Rightarrow> unit act" where
  "handle_socks_udp base64 sender receiver message = handle_socks_udp_routed base64 sender receiver receiver message"

section \<open>Rules for associations\<close>

definition association_step :: "state_fact set \<Rightarrow> (socks_association \<Rightarrow> socks_association) \<Rightarrow> bool" where
  "association_step F g \<longleftrightarrow> (\<forall>c a. association_ok c a \<and> (\<forall>c'. Config c' \<in> F \<longrightarrow> c = c') \<longrightarrow>
     association_ok c (g a) \<and> sa_key (g a) = sa_key a)"

lemma rinv_associations:
  assumes s: "rinv F hand s" and t: "table_ok t" "deferred t = []" "indexed (table_get t) sa_key (hm_get (socks_by_key (datagrams s)))"
    and a: "\<And>fid a. table_get t fid = Some a \<Longrightarrow> association_ok (r_config s) a"
    and live: "\<And>fid. Associated fid \<in> F' \<Longrightarrow> table_get t fid \<noteq> None" and sub: "F' \<subseteq> F"
  shows "rinv F' hand (datagrams_update (socks_associations_update (\<lambda>_. t)) s)"
proof -
  have "fact_holds (tcp_flows s) (r_config s) t x" if "x \<in> F'" for x
    using rinv_fact [OF s, of x] that live sub by (cases x) auto
  then show ?thesis
    using s t a unfolding rinv_def datagrams_ok_def by auto
qed

lemma rinv_alter:
  assumes s: "rinv F hand s" and g: "\<And>a. association_of fid s = Some a \<Longrightarrow> association_ok (r_config s) (g a) \<and> sa_key (g a) = sa_key a"
  shows "rinv F hand (altered fid g s)"
proof (cases "association_of fid s")
  case None
  then have "altered fid g s = s"
    by (cases s; cases "datagrams s") (simp add: table_modify_def association_of_def altered_def)
  then show ?thesis
    using s by simp
next
  case (Some a)
  let ?t = "table_modify fid g (socks_associations (datagrams s))"
  have d: "datagrams_ok (r_config s) (datagrams s)"
    using s by (simp add: rinv_def)
  then have t: "table_ok ?t" "deferred ?t = []" "table_get ?t = (table_get (socks_associations (datagrams s)))(fid \<mapsto> g a)"
    using ft.upd_look [of "socks_associations (datagrams s)" fid g] Some by (auto simp: datagrams_ok_def association_of_def)
  have "indexed (table_get ?t) sa_key (hm_get (socks_by_key (datagrams s)))"
    using d Some g [OF Some] indexed_modify [of "table_get (socks_associations (datagrams s))" sa_key _ fid a "g a"]
    by (simp add: t(3) datagrams_ok_def association_of_def)
  moreover have "table_get ?t x = Some b \<Longrightarrow> association_ok (r_config s) b" for x b
    using d g [OF Some] unfolding t(3) datagrams_ok_def by (auto split: if_splits)
  moreover have "table_get ?t x \<noteq> None" if "Associated x \<in> F" for x
    using rinv_fact [OF s that] by (simp add: t(3))
  ultimately have "rinv F hand (datagrams_update (socks_associations_update (\<lambda>_. ?t)) s)"
    using t by (intro rinv_associations [OF s]) auto
  then show ?thesis
    by (cases s; cases "datagrams s") (simp add: altered_def)
qed

lemma wp_alter: "wp (alter_association fid g) Q E s \<longleftrightarrow> association_of fid s \<noteq> None \<and>
    Q () (altered fid g s)"
  by (auto simp: wp_def alter_association_def split: option.split)

lemma rinv_association:
  "rinv F hand s \<Longrightarrow> association_of fid s = Some a \<Longrightarrow> association_ok (r_config s) a"
  unfolding rinv_def datagrams_ok_def association_of_def by blast

lemma keeps_look_association [keeps]:
  assumes "keeps_inv F hand hand' (k None)"
    and "\<And>a c. association_ok c a \<Longrightarrow> (\<And>c'. Config c' \<in> F \<Longrightarrow> c = c') \<Longrightarrow> keeps_inv (insert (Associated fid) F) hand hand' (k (Some a))"
  shows "keeps_inv F hand hand' (andThen (gets (association_of fid)) k)"
  unfolding keeps_inv_def
proof (intro allI impI)
  fix s
  assume s: "rinv F hand s"
  show "wp (andThen (gets (association_of fid)) k) (\<lambda>_. rinv F hand') (rinv F []) s"
  proof (cases "association_of fid s")
    case None
    then show ?thesis
      using assms(1) s by (simp add: keeps_inv_def)
  next
    case (Some a)
    then have "rinv (insert (Associated fid) F) hand s"
      using s by (simp add: rinv_def association_of_def)
    moreover have "keeps_inv (insert (Associated fid) F) hand hand' (k (Some a))"
      using rinv_fact [OF s, of "Config c'" for c'] by (intro assms(2) [OF rinv_association [OF s Some]]) auto
    ultimately have "wp (k (Some a)) (\<lambda>_. rinv (insert (Associated fid) F) hand') (rinv (insert (Associated fid) F) []) s"
      by (simp add: keeps_inv_def)
    then show ?thesis
      using Some by (auto intro: wp_mono rinv_more)
  qed
qed

lemma keeps_alter [keeps]:
  assumes "Associated fid \<in> F" "association_step F g"
  shows "keeps_inv F hand hand' (k ()) \<Longrightarrow> keeps_inv F hand hand' (andThen (alter_association fid g) k)"
    and "keeps_inv F hand hand (alter_association fid g)"
proof -
  have "association_of fid s \<noteq> None" "rinv F hand (altered fid g s)"
    if s: "rinv F hand s" for s
  proof -
    show "association_of fid s \<noteq> None"
      using rinv_fact [OF s assms(1)] by (simp add: association_of_def)
    show "rinv F hand (altered fid g s)"
      using assms(2) rinv_association [OF s] rinv_fact [OF s, of "Config c'" for c']
      by (intro rinv_alter [OF s]) (auto simp: association_step_def)
  qed
  then show "keeps_inv F hand hand' (k ()) \<Longrightarrow> keeps_inv F hand hand' (andThen (alter_association fid g) k)"
    and "keeps_inv F hand hand (alter_association fid g)"
    by (simp_all add: keeps_inv_def wp_alter)
qed

lemma association_steps [keeps]:
  "association_step F (\<lambda>a. a\<lparr>retry_attempt := n, sa_state := SocksBackoff, sa_handshake := None, sa_response := [],
     sa_control := None, sa_relay := None\<rparr>)"
  "association_step F (retry_at_update u)" "association_step F (tx_buffer_update v)"
  "association_step F (sa_response_update (drop m))" "association_step F (sa_state_update (\<lambda>_. SocksHandshaking))"
  by (auto simp: association_step_def association_ok_def)

lemma association_step_handshake [keeps]: "handshake_ok h \<Longrightarrow> association_step F (sa_handshake_update (map_option (\<lambda>_. h)))"
  by (auto simp: association_step_def association_ok_def)

lemma association_step_response [keeps]: "length bs \<le> PROXY_RESPONSE_CAPACITY \<Longrightarrow> association_step F (sa_response_update (\<lambda>_. bs))"
  by (auto simp: association_step_def association_ok_def)

lemma keeps_schedule [keeps]: "keeps_inv F hand hand (schedule_socks_rebuild fid)"
  unfolding schedule_socks_rebuild_def Let_def by (intro keeps) simp_all

lemmas keeps_then_schedule [keeps] = keeps_seq [OF keeps_schedule]

lemma keeps_queue_socks [keeps]: "keeps_inv F hand hand (queue_socks_datagram fid receiver payload)"
  unfolding queue_socks_datagram_def Let_def
proof (intro keeps)
  fix b c a
  assume "association_ok c b" "Some b = Some a" "\<not> length payload + 22 > SOCKS_UDP_QUEUE_BYTES - sa_pending_bytes a"
  then show "association_step (insert (Associated fid) F) (\<lambda>b. b\<lparr>sa_pending := sa_pending a @ [(receiver, payload)],
      sa_pending_bytes := sa_pending_bytes a + (length payload + 22)\<rparr>)"
    by (auto simp: association_step_def association_ok_def)
qed simp_all

lemma keeps_datagram [keeps]:
  assumes "\<And>x. r = Done x \<Longrightarrow> keeps_inv F hand hand' (f x)" "keeps_inv F hand hand' m" "keeps_inv F hand hand' m'" "keeps_inv F hand hand' m''"
  shows "keeps_inv F hand hand' (case r of Done x \<Rightarrow> f x | Busy \<Rightarrow> m | Refused \<Rightarrow> m' | Broken \<Rightarrow> m'')"
  using assms by (cases r) simp_all

lemma keeps_datagram_then [keeps]:
  assumes "\<And>x. r = Done x \<Longrightarrow> keeps_inv F hand hand' (andThen (f x) k)" "keeps_inv F hand hand' (andThen m k)"
    "keeps_inv F hand hand' (andThen m' k)" "keeps_inv F hand hand' (andThen m'' k)"
  shows "keeps_inv F hand hand' (andThen (case r of Done x \<Rightarrow> f x | Busy \<Rightarrow> m | Refused \<Rightarrow> m' | Broken \<Rightarrow> m'') k)"
  using assms by (cases r) simp_all

lemma keeps_call_datagram [keeps]:
  assumes "\<And>r. keeps_inv F hand hand' (k r)"
  shows "keeps_inv F hand hand' (andThen (call_datagram sel upd) k)"
  using assms by (auto simp: keeps_inv_def wp_def call_datagram_def andThen_def split: list.split)

lemma keeps_udp_send [keeps]:
  assumes "\<And>r. keeps_inv F hand hand' (k r)"
  shows "keeps_inv F hand hand' (andThen (sys_udp_send fd bs) k)"
  unfolding sys_udp_send_def by (intro keeps assms)

lemma keeps_sys_datagram [keeps]:
  assumes "\<And>r. keeps_inv F hand hand' (k r)"
  shows "keeps_inv F hand hand' (andThen sys_datagram k)"
  unfolding sys_datagram_def by (intro keeps assms)

lemma keeps_send_socks [keeps]: "keeps_inv F hand hand (send_socks_datagram fid receiver payload)"
  unfolding send_socks_datagram_def by (intro keeps) simp_all

section \<open>The handshake of an association\<close>

lemma keeps_associated:
  assumes "Associated fid \<in> F" "\<And>a c. association_ok c a \<Longrightarrow> keeps_inv F hand hand' (k a)"
  shows "keeps_inv F hand hand' (andThen (gets (association_of fid)) (\<lambda>r. andThen (expect r) k))"
  unfolding keeps_inv_def
proof (intro allI impI)
  fix s
  assume s: "rinv F hand s"
  then obtain a where "association_of fid s = Some a"
    using rinv_fact [OF s assms(1)] by (auto simp: association_of_def)
  then show "wp (andThen (gets (association_of fid)) (\<lambda>r. andThen (expect r) k)) (\<lambda>_. rinv F hand') (rinv F []) s"
    using assms(2) [OF rinv_association [OF s]] s by (simp add: keeps_inv_def)
qed

lemma association_handshake: "association_ok c a \<Longrightarrow> sa_handshake a = Some h \<Longrightarrow> handshake_ok h"
  by (simp add: association_ok_def)

lemma keeps_socks_connect: "Associated fid \<in> F \<Longrightarrow> keeps_inv F hand hand (socks_connect_step fid events st)"
  unfolding socks_connect_step_def by (intro keeps) assumption

lemma keeps_socks_send: "Associated fid \<in> F \<Longrightarrow> keeps_inv F hand hand (socks_send_step fid fd events)"
  unfolding socks_send_step_def Let_def
  by (intro keeps keeps_associated) (auto dest: association_handshake advance_output_ok)

lemma keeps_socks_recv: "Associated fid \<in> F \<Longrightarrow> keeps_inv F hand hand (socks_recv_loop n fid)"
proof (induction n)
  case (Suc n)
  then show ?case
    unfolding socks_recv_loop.simps by (intro keeps keeps_associated Suc) auto
qed (auto intro: keeps)

declare socks_response_loop.simps [simp del]

lemma association_of_kern [simp]: "association_of fid (kern_update g s) = association_of fid s"
  by (simp add: association_of_def)

lemma association_of_alter:
  assumes "rinv F hand s" "association_of fid s = Some a"
  shows "association_of fid (altered fid g s) = Some (g a)"
  using assms table_modify_ok [of "socks_associations (datagrams s)" fid g]
  by (simp add: rinv_def datagrams_ok_def association_of_def altered_def)

lemma wp_schedule: "rinv F [] s \<Longrightarrow> wp (schedule_socks_rebuild fid) (\<lambda>_. rinv F []) (rinv F []) s"
  using keeps_schedule by (simp add: keeps_inv_def)

lemma wp_socks_response_step:
  assumes s: "rinv F [] s" and a: "association_of fid s = Some a" and n: "length (sa_response a) \<le> n"
    and IH: "\<And>m s a. n = Suc m \<Longrightarrow> rinv F [] s \<Longrightarrow> association_of fid s = Some a \<Longrightarrow> length (sa_response a) \<le> m \<Longrightarrow>
      wp (socks_response_loop m fid) (\<lambda>_. rinv F []) (rinv F []) s"
  shows "wp (socks_response_loop n fid) (\<lambda>_. rinv F []) (rinv F []) s"
proof (cases "\<exists>h. sa_handshake a = Some h \<and> wants_input h")
  case False
  then show ?thesis
    using s a by (auto simp: socks_response_loop.simps [of n] split: option.split)
next
  case True
  then obtain h where h: "sa_handshake a = Some h" "wants_input h"
    by blast
  obtain received h' where r: "handshake_receive (sa_response a) h = (received, h')"
    by fastforce
  let ?s = "altered fid (sa_handshake_update (map_option (\<lambda>_. h'))) s"
  have h': "handshake_ok h'"
    using receive_ok [OF association_handshake [OF rinv_association [OF s a] h(1)] r] .
  have s1: "rinv F [] ?s"
    using rinv_association [OF s a] a h' by (intro rinv_alter [OF s]) (auto simp: association_ok_def)
  note a1 = association_of_alter [OF s a, of "sa_handshake_update (map_option (\<lambda>_. h'))"]
  let ?s2 = "\<lambda>k. altered fid (sa_response_update (drop k)) ?s"
  have s2: "rinv F [] (?s2 k)" "association_of fid (?s2 k) = Some (sa_response_update (drop k) (sa_handshake_update (map_option (\<lambda>_. h')) a))" for k
    using rinv_association [OF s1 a1] a1 association_of_alter [OF s1 a1]
    by (auto simp: association_ok_def intro!: rinv_alter [OF s1])
  have go_on: "wp (case n of 0 \<Rightarrow> expect None
      | Suc n \<Rightarrow> andThen (alter_association fid (sa_response_update (drop consumed))) (\<lambda>_. socks_response_loop n fid))
      (\<lambda>_. rinv F []) (rinv F []) ?s" if "received = Inr consumed" "consumed \<noteq> 0" for consumed
    using receive_consumes [of "sa_response a" h consumed h'] r that n a1 IH [OF _ s2, of _ consumed]
    by (cases n) (auto simp: wp_alter)
  show ?thesis
    using s a h r s1 a1 go_on wp_schedule [OF s1, of fid]
    by (cases received) (auto simp: socks_response_loop.simps [of n] wp_alter intro: wp_mono)
qed

lemma wp_socks_response:
  assumes "rinv F [] s" "association_of fid s = Some a" "length (sa_response a) \<le> n"
  shows "wp (socks_response_loop n fid) (\<lambda>_. rinv F []) (rinv F []) s"
  using assms
proof (induction n arbitrary: s a)
  case 0
  then show ?case
    by (rule wp_socks_response_step) simp
next
  case (Suc n)
  show ?case
    by (rule wp_socks_response_step [OF Suc.prems]) (use Suc.IH in auto)
qed

lemma wp_call: "(\<And>r k. Q r (s\<lparr>kern := k\<rparr>)) \<Longrightarrow> wp (call sel upd) Q E s"
proof -
  assume Q: "\<And>r k. Q r (s\<lparr>kern := k\<rparr>)"
  show "wp (call sel upd) Q E s"
    using Q Q [of _ "kern s"] by (auto simp: wp_def call_def split: list.split)
qed

lemma token_live:
  assumes "table_ok t" "table_get t fid = Some v"
  shows "token_flow fid r side \<noteq> None"
proof -
  have v: "unat (slot fid) < length (slots t)" "generation fid = slot_generation (slots t ! unat (slot fid))"
    using get_slot [OF assms(2)] by auto
  then have "generation fid \<noteq> 0" "unat (slot fid) < 2 ^ 20"
    using assms(1) table_slot_ok [OF assms(1) v(1)] by (auto simp: table_ok_def slot_ok_def)
  then show ?thesis
    by (simp add: token_flow_def token_consts word_less_nat_alt unsigned_ucast_eq take_bit_nat_eq_self)
qed

lemma wp_epoll_keeps:
  assumes "rinv F [] s" "\<And>k. Q () (s\<lparr>kern := k\<rparr>)"
  shows "wp sys_epoll Q (rinv F []) s"
  using assms by (intro wp_epoll) simp_all

lemma rinv_token: "rinv F hand s \<Longrightarrow> association_of fid s = Some a \<Longrightarrow> \<exists>v. token_flow fid r side = Some v"
  using token_live [of "socks_associations (datagrams s)" fid a r side]
  by (auto simp: rinv_def datagrams_ok_def association_of_def)

text \<open>The last step of a handshake: the relay socket is there, so the association may wait for activation.\<close>

lemma wp_pend_activation:
  assumes s: "rinv F [] s" and a: "association_of fid s = Some a" "sa_handshake a = Some h" "sa_relay a \<noteq> None"
  shows "wp (andThen (expect (sa_control a)) (\<lambda>_. andThen (expect (token_flow fid SocksControl True)) (\<lambda>_.
    andThen sys_epoll (\<lambda>_. alter_association fid (\<lambda>a. a\<lparr>sa_handshake := None, sa_response := [],
      sa_state := SocksPendingActivation\<rparr>))))) (\<lambda>_. rinv F []) (rinv F []) s"
proof -
  have ok: "association_ok (r_config s) a"
    using rinv_association [OF s a(1)] .
  then obtain control where control: "sa_control a = Some control"
    using a(2) by (auto simp: association_ok_def)
  obtain v where token: "token_flow fid SocksControl True = Some v"
    using rinv_token [OF s a(1)] by blast
  have "rinv F [] (altered fid (\<lambda>a. a\<lparr>sa_handshake := None, sa_response := [], sa_state := SocksPendingActivation\<rparr>) (s\<lparr>kern := k\<rparr>))" for k
    using s a(1,3) ok by (intro rinv_alter) (auto simp: association_ok_def)
  then show ?thesis
    using s a(1) by (auto simp: control token wp_alter intro!: wp_epoll_keeps)
qed

lemma wp_finish_socks:
  assumes s: "rinv F [] s" and a: "association_of fid s = Some a" "sa_handshake a = Some h"
  shows "wp (finish_socks_handshake fid a h) (\<lambda>_. rinv F []) (rinv F []) s"
proof -
  have s': "rinv F [] (s\<lparr>kern := k\<rparr>)" "association_of fid (s\<lparr>kern := k\<rparr>) = Some a" for k
    using s a by simp_all
  show ?thesis
    using s wp_schedule [OF s, of fid] wp_schedule [OF s'(1), of fid] wp_pend_activation [OF s' a(2)]
    by (auto simp: finish_socks_handshake_def Let_def split: option.split upstream.split socks_address.split io.split intro!: wp_call)
qed

lemma keeps_consume_response: "Associated fid \<in> F \<Longrightarrow> keeps_inv F [] [] (consume_socks_response fid)"
  unfolding keeps_inv_def
proof (intro allI impI)
  fix s
  assume live: "Associated fid \<in> F" and s: "rinv F [] s"
  then obtain a where a: "association_of fid s = Some a"
    using rinv_fact [OF s live] by (auto simp: association_of_def)
  have "wp (if \<not> go_on then ret ()
       else andThen (gets (association_of fid)) (\<lambda>r.
         case r of
           None \<Rightarrow> ret ()
         | Some a \<Rightarrow>
             (case sa_handshake a of
                None \<Rightarrow> ret ()
              | Some h \<Rightarrow> if is_complete h then finish_socks_handshake fid a h else ret ()))) (\<lambda>_. rinv F []) (rinv F []) s'"
    if "rinv F [] s'" for go_on s'
    using that wp_finish_socks [OF that] by (auto split: option.split)
  then show "wp (consume_socks_response fid) (\<lambda>_. rinv F []) (rinv F []) s"
    using a by (auto simp: consume_socks_response_def intro!: wp_mono [OF wp_socks_response [OF s a]])
qed

lemma keeps_rearm:
  "keeps_inv F [] [] (andThen (gets (association_of fid)) (\<lambda>r. only_if (map_option sa_state r = Some SocksHandshaking)
     (andThen (expect (token_flow fid SocksControl True)) (\<lambda>_. sys_epoll))))"
  unfolding keeps_inv_def
proof (intro allI impI)
  fix s
  assume s: "rinv F [] s"
  then show "wp (andThen (gets (association_of fid)) (\<lambda>r. only_if (map_option sa_state r = Some SocksHandshaking)
     (andThen (expect (token_flow fid SocksControl True)) (\<lambda>_. sys_epoll)))) (\<lambda>_. rinv F []) (rinv F []) s"
    using rinv_token [OF s, of fid _ SocksControl True] by (auto intro!: wp_epoll_keeps)
qed

lemma keeps_drive_socks [keeps]: "keeps_inv F [] [] (drive_socks_control fid events)"
  unfolding drive_socks_control_def
  by (intro keeps keeps_gets_then keeps_rearm keeps_seq [OF keeps_socks_connect] keeps_seq [OF keeps_socks_send]
      keeps_seq [OF keeps_socks_recv] keeps_seq [OF keeps_consume_response]) simp_all

lemma keeps_resources [keeps]:
  assumes "keeps_inv F hand hand' (k None)" "\<And>control relay connected h. handshake_ok h \<Longrightarrow> keeps_inv F hand hand' (k (Some (control, relay, connected, h)))"
  shows "keeps_inv F hand hand' (andThen (socks_resources base64 cr) k)"
proof -
  have "keeps_inv F hand hand' (andThen (case handshake_new base64 Socks5 UdpAssociate address cr of
      Inl _ \<Rightarrow> ret None | Inr h \<Rightarrow> ret (Some (control, relay, connected, h))) k)" for address control relay connected
    using assms handshake_new_ok by (auto split: sum.split intro!: keeps_ret_then)
  then show ?thesis
    unfolding socks_resources_def by (intro keeps assms(1))
qed

lemma association_step_rebuilt:
  assumes "Config c \<in> F" "socks_upstream c" "handshake_ok h"
  shows "association_step F (\<lambda>a. a\<lparr>sa_control := Some control, sa_relay := Some relay, sa_handshake := Some h, sa_response := [],
    sa_state := (if connected then SocksHandshaking else SocksConnecting)\<rparr>)"
  using assms by (auto simp: association_step_def association_ok_def)

lemma keeps_rebuild [keeps]: "keeps_inv F [] [] (rebuild_socks_association base64 fid)"
proof (rule keeps_know_config)
  fix c
  let ?F = "insert (Config c) F"
  have "keeps_inv ?F [] [] (andThen (socks_resources base64 cr) (\<lambda>resources.
           case resources of
             None \<Rightarrow> schedule_socks_rebuild fid
           | Some (control, relay, connected, h) \<Rightarrow>
               if token_flow fid SocksControl True = None
               then raise (Invariant ''SOCKS association does not fit epoll token'')
               else andThen sys_epoll (\<lambda>_. andThen (gets (association_of fid)) (\<lambda>r.
                 case r of
                   None \<Rightarrow> raise (Invariant ''SOCKS association disappeared'')
                 | Some _ \<Rightarrow>
                     andThen (alter_association fid (\<lambda>a. a\<lparr>sa_control := Some control, sa_relay := Some relay,
                       sa_handshake := Some h, sa_response := [],
                       sa_state := (if connected then SocksHandshaking else SocksConnecting)\<rparr>)) (\<lambda>_.
                     only_if connected (drive_socks_control fid WRITABLE))))))"
    if "upstream_of c = Proxy Socks5 proxy cr" for proxy cr
    using that by (intro keeps association_step_rebuilt [of c]) (auto simp: socks_upstream_def)
  then show "keeps_inv ?F [] [] (rebuild_socks_association base64 fid)"
    unfolding rebuild_socks_association_def
    by (intro keeps_config_known [of c]) (auto split: upstream.split protocol.split intro!: keeps)
qed

lemma keeps_handle_control: "keeps_inv F [] [] (handle_socks_control fid events)"
  unfolding handle_socks_control_def watch_ready_control_def by (intro keeps)

lemma keeps_send_pending [keeps]: "keeps_inv F hand hand (send_pending fid pending)"
proof (induction pending arbitrary: F)
  case (Cons p pending)
  then show ?case
    by (cases p) (auto intro!: keeps keeps_seq [OF keeps_send_socks])
qed (simp add: keeps_ret)

section \<open>Activation\<close>

lemma table_modify_other: "fid' \<noteq> fid \<Longrightarrow> table_get (table_modify fid g t) fid' = table_get t fid'"
  by (auto simp: table_modify_def table_get_def Let_def nth_list_update unat_eq_word flow_id_eq_iff split: option.splits if_splits)

lemma preserves_other_alter [stable]: "fid' \<noteq> fid \<Longrightarrow> preserves (association_of fid') (alter_association fid g)"
  by (auto simp: preserves_def succeeds_def alter_association_def association_of_def altered_def table_modify_other)

lemma preserves_other_calls [stable]:
  "preserves (association_of fid') sys_epoll" "preserves (association_of fid') now"
  "preserves (association_of fid') (must (call sel upd))" "preserves (association_of fid') (sys_udp_send fd bs)"
  by (auto simp: preserves_def succeeds_def association_of_def sys_epoll_def must_def call_def now_def andThen_def ret_def raise_def
      sys_udp_send_def call_datagram_def change_def split: list.splits io.splits option.splits sum.splits datagram_io.splits)

lemma preserves_cases [stable]:
  "(b \<Longrightarrow> preserves view m) \<Longrightarrow> preserves view (only_if b m)"
  "(\<And>x. preserves view (f x)) \<Longrightarrow> preserves view m1 \<Longrightarrow> preserves view m2 \<Longrightarrow> preserves view m3 \<Longrightarrow>
     preserves view (case r of Done x \<Rightarrow> f x | Busy \<Rightarrow> m1 | Refused \<Rightarrow> m2 | Broken \<Rightarrow> m3)"
  "(\<And>a. preserves view (p a)) \<Longrightarrow> (\<And>b. preserves view (q b)) \<Longrightarrow> preserves view (case z of Inl a \<Rightarrow> p a | Inr b \<Rightarrow> q b)"
  "preserves view (expect y)"
  by (auto simp: preserves_def only_if_def split: datagram_io.split sum.split option.split)

lemma preserves_other_schedule [stable]: "fid' \<noteq> fid \<Longrightarrow> preserves (association_of fid') (schedule_socks_rebuild fid)"
  unfolding schedule_socks_rebuild_def Let_def by (intro stable)

lemma preserves_other_send [stable]: "fid' \<noteq> fid \<Longrightarrow> preserves (association_of fid') (send_socks_datagram fid receiver payload)"
  unfolding send_socks_datagram_def queue_socks_datagram_def Let_def by (intro stable)

lemma preserves_other_pending [stable]: "fid' \<noteq> fid \<Longrightarrow> preserves (association_of fid') (send_pending fid pending)"
proof (induction pending)
  case (Cons p pending)
  then show ?case
    by (cases p) (auto intro!: stable)
qed (simp add: stable)

lemma preserves_other_activate [stable]: "fid' \<noteq> fid \<Longrightarrow> preserves (association_of fid') (activate_association fid)"
  unfolding activate_association_def by (intro stable)

lemma wp_activate:
  assumes s: "rinv F [] s" and a: "association_of fid s = Some a" "sa_relay a \<noteq> None"
  shows "wp (activate_association fid) (\<lambda>_. rinv F []) (rinv F []) s"
proof -
  obtain v relay where v: "token_flow fid SocksRelay True = Some v" "sa_relay a = Some relay"
    using rinv_token [OF s a(1)] a(2) by blast
  have "rinv F [] (altered fid (\<lambda>a. a\<lparr>sa_state := SocksReady, retry_attempt := 0, sa_pending_bytes := 0, sa_pending := []\<rparr>) (s\<lparr>kern := k\<rparr>))" for k
    using s a rinv_association [OF s a(1)] by (intro rinv_alter) (auto simp: association_ok_def)
  then have "wp (send_pending fid (sa_pending a)) (\<lambda>_. rinv F []) (rinv F [])
      (altered fid (\<lambda>a. a\<lparr>sa_state := SocksReady, retry_attempt := 0, sa_pending_bytes := 0, sa_pending := []\<rparr>) (s\<lparr>kern := k\<rparr>))" for k
    using keeps_send_pending by (auto simp: keeps_inv_def)
  then show ?thesis
    using s a(1) by (auto simp: activate_association_def v wp_alter intro!: wp_epoll_keeps)
qed

lemma wp_activate_each:
  assumes "rinv F [] s" "distinct ids" "\<And>fid. fid \<in> set ids \<Longrightarrow> \<exists>a. association_of fid s = Some a \<and> sa_relay a \<noteq> None"
  shows "wp (activate_each ids) (\<lambda>_. rinv F []) (rinv F []) s"
  using assms
proof (induction ids arbitrary: s)
  case (Cons fid ids)
  obtain a where a: "association_of fid s = Some a" "sa_relay a \<noteq> None"
    using Cons.prems(3) [of fid] by auto
  have "wp (activate_association fid) (\<lambda>_ s'. rinv F [] s' \<and> (\<forall>fid' \<in> set ids. association_of fid' s' = association_of fid' s)) (rinv F []) s"
  proof -
    have "\<forall>fid' \<in> set ids. preserves (association_of fid') (activate_association fid)"
      using Cons.prems(2) preserves_other_activate [of _ fid] by fastforce
    then show ?thesis
      using wp_activate [OF Cons.prems(1) a] by (auto simp: wp_def preserves_def succeeds_def split: option.splits sum.splits)
  qed
  then show ?case
    using Cons by (auto intro: wp_mono)
qed simp

lemma keeps_activate_socks: "keeps_inv F [] [] activate_socks_associations"
  unfolding keeps_inv_def
proof (intro allI impI)
  fix s
  assume s: "rinv F [] s"
  let ?ids = "filter (in_state SocksPendingActivation s) (active_ids (socks_associations (datagrams s)))"
  have "distinct ?ids"
    using active_ids_ok [of "socks_associations (datagrams s)"] s by (simp add: rinv_def datagrams_ok_def)
  moreover have "\<exists>a. association_of fid s = Some a \<and> sa_relay a \<noteq> None" if "fid \<in> set ?ids" for fid
    using that rinv_association [OF s, of fid] by (auto simp: in_state_def association_ok_def split: option.splits)
  ultimately have "wp (activate_each ?ids) (\<lambda>_. rinv F []) (rinv F []) s"
    by (rule wp_activate_each [OF s])
  then show "wp activate_socks_associations (\<lambda>_. rinv F []) (rinv F []) s"
    by (simp add: activate_socks_associations_def)
qed

section \<open>Datagrams from the proxy\<close>

lemma keeps_drain_reports: "keeps_inv F hand hand (drain_reports n)"
proof (induction n)
  case (Suc n)
  then show ?case
    unfolding drain_reports.simps sys_udp_report_def must_def by (intro keeps)
qed (simp add: keeps_ret)

lemma rinv_datagrams:
  assumes s: "rinv F hand s" and d: "datagrams_ok (r_config s) d" and sub: "F' \<subseteq> F"
    and live: "\<And>fid. Associated fid \<in> F' \<Longrightarrow> table_get (socks_associations d) fid \<noteq> None"
  shows "rinv F' hand (s\<lparr>datagrams := d\<rparr>)"
proof -
  have "fact_holds (tcp_flows s) (r_config s) (socks_associations d) x" if "x \<in> F'" for x
    using rinv_fact [OF s, of x] that live sub by (cases x) auto
  then show ?thesis
    using s d unfolding rinv_def by auto
qed

lemma rinv_forwarder:
  assumes "rinv F hand s" "forwarder_ok (g (forwarder (datagrams s)))"
  shows "rinv F hand (datagrams_update (forwarder_update g) s)"
proof -
  have "rinv F hand (s\<lparr>datagrams := (datagrams s)\<lparr>forwarder := g (forwarder (datagrams s))\<rparr>\<rparr>)"
    using assms rinv_fact [OF assms(1), of "Associated fid" for fid]
    by (intro rinv_datagrams [OF assms(1)]) (auto simp: rinv_def datagrams_ok_def)
  then show ?thesis
    by (cases s; cases "datagrams s") simp
qed

lemma forwarder_modify:
  assumes e: "forwarder_ok e" and g: "\<And>f. uf_key (g f) = uf_key f \<and> reply_source (g f) = reply_source f"
  shows "forwarder_ok (e\<lparr>flows := table_modify fid g (flows e)\<rparr>)"
  using e engine_modify_ok [of e g fid] g ft.upd_look [of "flows e" fid g]
  by (auto simp: forwarder_ok_def engine_ok_def table_inv_def split: option.splits if_splits)

lemma forwarder_records: "forwarder_ok e \<Longrightarrow> forwarder_ok (record_inbound fid t e)" "forwarder_ok e \<Longrightarrow> forwarder_ok (record_outbound fid t e)"
  unfolding record_inbound_def record_outbound_def by (rule forwarder_modify; simp)+

lemma wp_now: "(\<And>t k. Q t (s\<lparr>kern := k\<rparr>)) \<Longrightarrow> wp now Q E s"
proof -
  assume Q: "\<And>t k. Q t (s\<lparr>kern := k\<rparr>)"
  show "wp now Q E s"
    using Q Q [of _ "kern s"] by (auto simp: wp_def now_def split: list.split)
qed

lemma rinv_flow:
  assumes "rinv F hand s" "table_get (flows (forwarder (datagrams s))) fid = Some f"
  shows "wf_addr (uk_source (uf_key f))" "wf_addr (uk_target (uf_key f))" "wf_addr (reply_source f)"
  using assms unfolding rinv_def datagrams_ok_def forwarder_ok_def by blast+

lemma keeps_gets_state:
  "(\<And>s. rinv F hand s \<Longrightarrow> wp (k (f s)) (\<lambda>_. rinv F hand') (rinv F []) s) \<Longrightarrow> keeps_inv F hand hand' (andThen (gets f) k)"
  by (simp add: keeps_inv_def)

lemma keeps_relayed:
  assumes "wf_addr (ak_source key)"
  shows "keeps_inv F [] [] (relayed_datagram key bs)"
proof -
  have reply: "wp (andThen now (\<lambda>t.
      andThen (change (datagrams_update (forwarder_update (record_inbound fid t)))) (\<lambda>_.
      andThen (gets (\<lambda>s. udp_flow_of (forwarder (datagrams s)) fid)) (\<lambda>r.
      andThen (expect r) (\<lambda>f.
      andThen (queue_udp_frame (ak_source key) (reply_source f) payload) (\<lambda>_. ret ())))))) (\<lambda>_. rinv F []) (rinv F []) s"
    if s: "rinv F [] s" and found: "id_for_key (forwarder (datagrams s)) k = Some fid" for s k fid payload
  proof -
    have e: "forwarder_ok (forwarder (datagrams s))"
      using s by (simp add: rinv_def datagrams_ok_def)
    then obtain f where "table_get (flows (forwarder (datagrams s))) fid = Some f"
      using found by (auto simp: forwarder_ok_def engine_ok_def id_for_key_def dest: indexedD(1))
    then have get: "\<exists>f. table_get (flows (record_inbound fid t (forwarder (datagrams s)))) fid = Some f" for t
      using e ft.upd_look [of "flows (forwarder (datagrams s))" fid]
      by (simp add: record_inbound_def forwarder_ok_def engine_ok_def table_inv_def)
    let ?s = "\<lambda>t kk. datagrams_update (forwarder_update (record_inbound fid t)) (s\<lparr>kern := kk\<rparr>)"
    have s1: "rinv F [] (?s t kk)" for t kk
      using forwarder_records(1) [OF e] s by (intro rinv_forwarder) simp_all
    have frame: "wp (queue_udp_frame (ak_source key) (reply_source f) payload) (\<lambda>_. rinv F []) (rinv F []) (?s t kk)"
      if "table_get (flows (forwarder (datagrams (?s t kk)))) fid = Some f" for f t kk
      using keeps_queue_udp [OF assms rinv_flow(3) [OF s1 that]] s1 [of t kk] unfolding keeps_inv_def by blast
    show ?thesis
      unfolding wp_andThen
    proof (rule wp_now, goal_cases)
      case (1 t kk)
      obtain f where "table_get (flows (record_inbound fid t (forwarder (datagrams s)))) fid = Some f"
        using get by blast
      then show ?case
        using frame [of t kk f] by (simp add: udp_flow_of_def)
    qed
  qed
  have "wp (case id_for_key (forwarder (datagrams s)) k of None \<Rightarrow> ret ()
      | Some fid \<Rightarrow>
          andThen now (\<lambda>t.
          andThen (change (datagrams_update (forwarder_update (record_inbound fid t)))) (\<lambda>_.
          andThen (gets (\<lambda>s. udp_flow_of (forwarder (datagrams s)) fid)) (\<lambda>r.
          andThen (expect r) (\<lambda>f.
          andThen (queue_udp_frame (ak_source key) (reply_source f) payload) (\<lambda>_. ret ())))))) (\<lambda>_. rinv F []) (rinv F []) s"
    if "rinv F [] s" for s k payload
    using that by (cases "id_for_key (forwarder (datagrams s)) k") (simp_all only: option.case wp_simps reply)
  then show ?thesis
    unfolding relayed_datagram_def
    by (auto split: sum.split socks_address.split intro!: keeps_ret keeps_gets_state simp del: wp_andThen)
qed

lemma keeps_relay_rx: "wf_addr (ak_source key) \<Longrightarrow> keeps_inv F [] [] (relay_rx_loop n fid key)"
proof (induction n)
  case (Suc n)
  then show ?case
    unfolding relay_rx_loop.simps by (intro keeps keeps_relayed keeps_seq [OF keeps_relayed]) auto
qed (simp add: keeps_ret)

lemma keeps_handle_relay: "keeps_inv F [] [] (handle_socks_relay fid events)"
proof -
  have "keeps_inv G [] [] (andThen (expect (sa_relay a)) (\<lambda>_.
      if events AND ERROR \<noteq> 0 then
        andThen (gets (\<lambda>s. length (k_udp_report (kern s)))) (\<lambda>n.
        andThen (drain_reports n) (\<lambda>_. schedule_socks_rebuild fid))
      else only_if (events AND READABLE \<noteq> 0) (relay_rx_loop UDP_RX_BUDGET fid (sa_key a))))"
    if a: "association_ok c a" "sa_state a = SocksReady" for a c G
  proof -
    obtain relay where relay: "sa_relay a = Some relay"
      using a by (auto simp: association_ok_def)
    have "wf_addr (ak_source (sa_key a))"
      using a(1) by (simp add: association_ok_def)
    then show ?thesis
      unfolding relay by (intro keeps keeps_gets_then keeps_seq [OF keeps_drain_reports] keeps_relay_rx)
  qed
  then show ?thesis
    unfolding handle_socks_relay_def by (intro keeps) auto
qed

section \<open>Datagrams from the namespace\<close>

lemma new_association_ok: "wf_addr (ak_source key) \<Longrightarrow> association_ok c (new_association c key t)"
  by (simp add: new_association_def association_ok_def)

lemma accept_routed_wf:
  assumes e: "forwarder_ok e" and wf: "wf_addr sender" "wf_addr receiver" "wf_addr reply"
  shows "\<exists>r e'. accept_routed \<lparr>uk_source = sender, uk_target = receiver\<rparr> reply t e = Some (r, e') \<and> forwarder_ok e'"
proof -
  obtain r e' where r: "accept_routed \<lparr>uk_source = sender, uk_target = receiver\<rparr> reply t e = Some (r, e')" "engine_ok e'"
    "\<And>err. r = Inl err \<Longrightarrow> e' = e"
    "\<And>a. r = Inr a \<Longrightarrow> \<exists>f. table_get (flows e') (accept_id a) = Some f \<and> uf_key f = \<lparr>uk_source = sender, uk_target = receiver\<rparr> \<and>
       reply_source f = reply \<and> (\<forall>x. x \<noteq> accept_id a \<longrightarrow> table_get (flows e') x = table_get (flows e) x)"
    using accept_routed_ok [of e "\<lparr>uk_source = sender, uk_target = receiver\<rparr>" reply t] e unfolding forwarder_ok_def by blast
  have "forwarder_ok e'"
  proof (cases r)
    case (Inr a)
    then obtain f where f: "table_get (flows e') (accept_id a) = Some f" "uf_key f = \<lparr>uk_source = sender, uk_target = receiver\<rparr>"
      "reply_source f = reply" "\<And>x. x \<noteq> accept_id a \<Longrightarrow> table_get (flows e') x = table_get (flows e) x"
      using r(4) by blast
    have "wf_addr (uk_source (uf_key g)) \<and> wf_addr (uk_target (uf_key g)) \<and> wf_addr (reply_source g)"
      if "table_get (flows e') x = Some g" for x g
      using that e wf f by (cases "x = accept_id a") (auto simp: forwarder_ok_def)
    then show ?thesis
      using r(2) unfolding forwarder_ok_def by blast
  qed (use r e in auto)
  then show ?thesis
    using r(1) by blast
qed

lemma wp_association_for:
  assumes s: "rinv F [] s" and key: "wf_addr (ak_source key)"
  shows "wp (association_for base64 key t) (\<lambda>_. rinv F []) (rinv F []) s"
proof (cases "hm_get (socks_by_key (datagrams s)) key")
  case (Some fid)
  then show ?thesis
    using s by (simp add: association_for_def)
next
  case None
  let ?d = "datagrams s" and ?a = "new_association (r_config s) key t"
  have d: "datagrams_ok (r_config s) ?d"
    using s by (simp add: rinv_def)
  then have inv: "table_ok (socks_associations ?d) \<and> deferred (socks_associations ?d) = []"
    by (simp add: datagrams_ok_def)
  obtain r table where ins: "table_insert ?a (socks_associations ?d) = Some (r, table)"
    using ft.ins_returns [OF inv, of ?a] by fastforce
  show ?thesis
  proof (cases r)
    case (Inl x)
    then have "table = socks_associations ?d"
      using ft.ins_full [OF inv] ins by auto
    then have "datagrams_update (socks_associations_update (\<lambda>_. table)) s = s"
      by (cases s; cases ?d) simp
    then show ?thesis
      using None ins Inl s by (simp add: association_for_def)
  next
    case (Inr fid)
    have new: "table_ok table" "deferred table = []" "table_get (socks_associations ?d) fid = None"
      "table_get table = (table_get (socks_associations ?d))(fid \<mapsto> ?a)"
      using ft.ins_new [OF inv] ins Inr by auto
    have "sa_key ?a = key"
      by (simp add: new_association_def)
    then have "indexed (table_get table) sa_key (hm_get (hm_insert key fid (socks_by_key ?d)))"
      using ft.ins_indexed [OF inv, of sa_key "hm_get (socks_by_key ?d)" ?a fid table] d None ins Inr by (simp add: datagrams_ok_def)
    then have "datagrams_ok (r_config s) (?d\<lparr>socks_associations := table, socks_by_key := hm_insert key fid (socks_by_key ?d)\<rparr>)"
      using d new new_association_ok [OF key] unfolding datagrams_ok_def by auto
    then have "rinv F [] (s\<lparr>datagrams := ?d\<lparr>socks_associations := table, socks_by_key := hm_insert key fid (socks_by_key ?d)\<rparr>\<rparr>)"
      using rinv_fact [OF s, of "Associated x" for x] new by (intro rinv_datagrams [OF s]) auto
    moreover have "datagrams_update (socks_by_key_update (hm_insert key fid) \<circ> socks_associations_update (\<lambda>_. table)) s =
        s\<lparr>datagrams := ?d\<lparr>socks_associations := table, socks_by_key := hm_insert key fid (socks_by_key ?d)\<rparr>\<rparr>"
      by (cases s; cases ?d) simp
    ultimately have "rinv F [] (datagrams_update (socks_by_key_update (hm_insert key fid) \<circ> socks_associations_update (\<lambda>_. table)) s)"
      by (simp only:)
    then show ?thesis
      using None ins Inr keeps_rebuild [of F base64 fid] by (auto simp: association_for_def keeps_inv_def intro: wp_mono)
  qed
qed

lemma keeps_association_for: "wf_addr (ak_source key) \<Longrightarrow> keeps_inv F [] [] (association_for base64 key t)"
  using wp_association_for by (simp add: keeps_inv_def)

lemma keeps_set_forwarder [keeps]:
  assumes "forwarder_ok e"
  shows "keeps_inv F hand hand' (k ()) \<Longrightarrow> keeps_inv F hand hand' (andThen (change (datagrams_update (forwarder_update (\<lambda>_. e)))) k)"
    and "keeps_inv F hand hand (change (datagrams_update (forwarder_update (\<lambda>_. e))))"
  using assms rinv_forwarder [of F hand _ "\<lambda>_. e"] by (auto simp: keeps_inv_def)

lemma rinv_forwarder_ok: "rinv F hand s \<Longrightarrow> forwarder_ok (forwarder (datagrams s))"
  by (simp add: rinv_def datagrams_ok_def)

lemma keeps_socks_routed:
  assumes "wf_addr sender" "wf_addr receiver" "wf_addr reply"
  shows "keeps_inv F [] [] (handle_socks_udp_routed base64 sender receiver reply message)"
  unfolding handle_socks_udp_routed_def
proof (intro keeps_now keeps_gets_inv)
  fix t s
  assume s: "rinv F [] s"
  obtain r e where r: "accept_routed \<lparr>uk_source = sender, uk_target = receiver\<rparr> reply t (forwarder (datagrams s)) = Some (r, e)" "forwarder_ok e"
    using accept_routed_wf [OF rinv_forwarder_ok [OF s] assms] by blast
  show "keeps_inv F [] [] (andThen (expect (accept_routed \<lparr>uk_source = sender, uk_target = receiver\<rparr> reply t (forwarder (datagrams s)))) (\<lambda>(r, e).
     andThen (change (datagrams_update (forwarder_update (\<lambda>_. e)))) (\<lambda>_.
       case r of
         Inl _ \<Rightarrow> ret ()
       | Inr _ \<Rightarrow>
           andThen (association_for base64 \<lparr>ak_source = sender\<rparr> t) (\<lambda>fid.
           andThen (gets (association_of fid)) (\<lambda>a.
             if map_option sa_state a = Some SocksReady then send_socks_datagram fid receiver message
             else queue_socks_datagram fid receiver message)))))"
    unfolding r(1) using r(2) assms(1) by (intro keeps keeps_seq [OF keeps_association_for]) auto
qed

end
