(* ===== verification/Reactor_Udp.thy ===== *)
theory Reactor_Udp
  imports Reactor_Socks
begin

text \<open>
  UDP in the worker (\<open>crates/dataplane/src/reactor.rs\<close>): datagrams of the namespace go through a socket per flow, through
  a SOCKS5 association or to the DNS engine; answers and ICMP errors come back as frames; idle flows expire.
\<close>

section \<open>Closing a flow\<close>

definition drop_udp_socket :: "flow_id \<Rightarrow> unit act" where
  "drop_udp_socket fid = andThen (gets (\<lambda>s. hm_get (udp_sockets (datagrams s)) fid)) (\<lambda>r.
     case r of
       None \<Rightarrow> ret ()
     | Some _ \<Rightarrow> andThen (change (datagrams_update (udp_sockets_update (hm_remove fid)))) (\<lambda>_. sys_epoll))"

definition close_udp_flow :: "flow_id \<Rightarrow> unit act" where
  "close_udp_flow fid = andThen (gets (\<lambda>s. forwarder (datagrams s))) (\<lambda>e.
     andThen (expect (udp_remove fid e)) (\<lambda>(removed, e').
     andThen (change (datagrams_update (forwarder_update (\<lambda>_. e')))) (\<lambda>_.
       if \<not> removed then ret ()
       else andThen (drop_udp_socket fid) (\<lambda>_.
         case udp_flow_of e fid of
           None \<Rightarrow> ret ()
         | Some f \<Rightarrow>
             let key = association (uf_key f)
             in if has_association e' key then ret ()
                else andThen (gets (\<lambda>s. hm_get (socks_by_key (datagrams s)) key)) (\<lambda>r.
                  case r of None \<Rightarrow> ret () | Some association_id \<Rightarrow> remove_socks_association association_id)))))"

section \<open>Errors of a socket\<close>

definition queue_udp_icmp_error :: "flow_id \<Rightarrow> udp_error \<Rightarrow> unit act" where
  "queue_udp_icmp_error fid error = andThen (gets datagrams) (\<lambda>d.
     case (udp_flow_of (forwarder d) fid, hm_get (udp_sockets d) fid) of
       (Some f, Some entry) \<Rightarrow>
         queue_udp_icmp_for (uk_source (uf_key f)) (uk_target (uf_key f)) (payload_prefix entry) (datagram_len entry) error
     | _ \<Rightarrow> ret ())"

text \<open>Whether the report concerns a datagram of this flow, and the error it stands for.\<close>

definition report_accepted :: "udp_flow \<Rightarrow> udp_report \<Rightarrow> bool" where
  "report_accepted f r \<longleftrightarrow> is_ipv4 (uk_source (uf_key f)) = (\<not> report_ipv6 r) \<and>
     report_origin r = (if report_ipv6 r then 3 else 2) \<and> has_packet_info r"

definition report_error :: "udp_report \<Rightarrow> udp_error option" where
  "report_error r =
     (if \<not> report_ipv6 r then
        if report_kind r = 3 then
          if report_code r = 4 then Some (PacketTooBig (report_info r)) else Some (DestinationUnreachable (report_code r))
        else None
      else if report_kind r = 2 then Some (PacketTooBig (report_info r))
      else if report_kind r = 1 then Some (DestinationUnreachable (report_code r))
      else None)"

fun udp_error_loop :: "nat \<Rightarrow> flow_id \<Rightarrow> unit act" where
  "udp_error_loop 0 fid = ret ()"
| "udp_error_loop (Suc n) fid = andThen sys_udp_report (\<lambda>r.
     case r of
       Complete None \<Rightarrow> ret ()
     | Complete (Some report) \<Rightarrow>
         andThen (gets (\<lambda>s. udp_flow_of (forwarder (datagrams s)) fid)) (\<lambda>r.
           case r of
             None \<Rightarrow> ret ()
           | Some f \<Rightarrow>
               andThen (if \<not> report_accepted f report then ret ()
                        else case report_error report of
                          None \<Rightarrow> ret ()
                        | Some error \<Rightarrow> queue_udp_icmp_error fid error) (\<lambda>_. udp_error_loop n fid))
     | _ \<Rightarrow> close_udp_flow fid)"

definition handle_udp_errors :: "flow_id \<Rightarrow> unit act" where
  "handle_udp_errors fid = andThen (gets (\<lambda>s. s)) (\<lambda>s.
     if hm_get (udp_sockets (datagrams s)) fid = None then ret ()
     else udp_error_loop (length (k_udp_report (kern s))) fid)"

section \<open>Datagrams from a socket\<close>

definition udp_rx_capacity :: "reactor_config \<Rightarrow> usize" where
  "udp_rx_capacity c = unat (tap_mtu c) - (40 + UDP_HEADER_LEN)"

fun udp_rx_loop :: "nat \<Rightarrow> flow_id \<Rightarrow> unit act" where
  "udp_rx_loop 0 fid = ret ()"
| "udp_rx_loop (Suc n) fid = andThen (gets r_config) (\<lambda>c. andThen sys_datagram (\<lambda>r.
     case r of
       Done bs \<Rightarrow>
         if length bs > udp_rx_capacity c then udp_rx_loop n fid
         else andThen (gets (\<lambda>s. udp_flow_of (forwarder (datagrams s)) fid)) (\<lambda>r.
           case r of
             None \<Rightarrow> ret ()
           | Some f \<Rightarrow>
               andThen now (\<lambda>t.
               andThen (change (datagrams_update (forwarder_update (record_inbound fid t)))) (\<lambda>_.
               andThen (queue_udp_frame (uk_source (uf_key f)) (reply_source f) bs) (\<lambda>_. udp_rx_loop n fid))))
     | Busy \<Rightarrow> ret ()
     | Refused \<Rightarrow> handle_udp_errors fid
     | Broken \<Rightarrow> close_udp_flow fid))"

definition handle_udp_socket :: "flow_id \<Rightarrow> u32 \<Rightarrow> unit act" where
  "handle_udp_socket fid events = andThen (gets (\<lambda>s. udp_flow_of (forwarder (datagrams s)) fid)) (\<lambda>flow.
     if flow = None then ret ()
     else andThen (only_if (events AND ERROR \<noteq> 0) (handle_udp_errors fid)) (\<lambda>_.
       andThen (gets datagrams) (\<lambda>d.
         if udp_flow_of (forwarder d) fid = None \<or> events AND READABLE = 0 \<or> hm_get (udp_sockets d) fid = None then ret ()
         else udp_rx_loop UDP_RX_BUDGET fid)))"

section \<open>Datagrams from the namespace\<close>

definition unreachable :: "socket_addr \<Rightarrow> udp_error" where
  "unreachable sender = DestinationUnreachable (if is_ipv4 sender then 3 else 4)"

text \<open>The socket of a new flow. The result is whether the handler goes on.\<close>

definition open_udp_socket :: "flow_id \<Rightarrow> bool act" where
  "open_udp_socket fid = andThen (call k_udp_connect k_udp_connect_update) (\<lambda>r.
     case r of
       Complete fd \<Rightarrow>
         if token_flow fid UdpSocket True = None then raise (Invariant ''UDP flow does not fit epoll token'')
         else andThen sys_epoll (\<lambda>_.
           andThen (change (datagrams_update (udp_sockets_update (hm_insert fid
             \<lparr>udp_socket = fd, payload_prefix = [], datagram_len = 0\<rparr>)))) (\<lambda>_. ret True))
     | _ \<Rightarrow>
         andThen (gets (\<lambda>s. udp_remove fid (forwarder (datagrams s)))) (\<lambda>r. andThen (expect r) (\<lambda>(_, e).
           andThen (change (datagrams_update (forwarder_update (\<lambda>_. e)))) (\<lambda>_. ret False))))"

definition send_udp_datagram :: "flow_id \<Rightarrow> socket_addr \<Rightarrow> bytes \<Rightarrow> unit act" where
  "send_udp_datagram fid sender message = andThen (gets (\<lambda>s. hm_get (udp_sockets (datagrams s)) fid)) (\<lambda>r.
     case r of
       None \<Rightarrow> raise (Invariant ''UDP engine has no socket'')
     | Some entry \<Rightarrow>
         andThen (change (datagrams_update (udp_sockets_update (hm_insert fid
           (entry\<lparr>payload_prefix := take (min (length message) 8) message, datagram_len := length message\<rparr>))))) (\<lambda>_.
         andThen (sys_udp_send (udp_socket entry) message) (\<lambda>r.
           case r of
             Done _ \<Rightarrow> ret ()
           | Busy \<Rightarrow> ret ()
           | Refused \<Rightarrow> queue_udp_icmp_error fid (unreachable sender)
           | Broken \<Rightarrow> close_udp_flow fid)))"

text \<open>
  The address that the socket of a direct flow is connected to (\<open>transport_target\<close>) concerns only the kernel:
  \<open>connect_udp\<close> answers with a descriptor or an error.
\<close>

definition handle_forward_udp :: "(bytes \<Rightarrow> bytes) \<Rightarrow> socket_addr \<Rightarrow> socket_addr \<Rightarrow> bytes \<Rightarrow> unit act" where
  "handle_forward_udp base64 sender receiver message = andThen (gets r_config) (\<lambda>c.
     if \<not> udp_enabled c then ret ()
     else case upstream_of c of
       Proxy Socks5 _ _ \<Rightarrow> handle_socks_udp base64 sender receiver message
     | Proxy HttpConnect _ _ \<Rightarrow> queue_udp_icmp_for sender receiver message (length message) (unreachable sender)
     | Direct _ \<Rightarrow>
         andThen now (\<lambda>t. andThen (gets datagrams) (\<lambda>d.
         andThen (expect (udp_accept \<lparr>uk_source = sender, uk_target = receiver\<rparr> t (forwarder d))) (\<lambda>(r, e).
         andThen (change (datagrams_update (forwarder_update (\<lambda>_. e)))) (\<lambda>_.
           case r of
             Inl _ \<Rightarrow> ret ()
           | Inr accepted \<Rightarrow>
               andThen (if created accepted then open_udp_socket (accept_id accepted) else ret True) (\<lambda>go_on.
                 if \<not> go_on then ret () else send_udp_datagram (accept_id accepted) sender message))))))"

definition handle_udp :: "(bytes \<Rightarrow> bytes) \<Rightarrow> socket_addr \<Rightarrow> socket_addr \<Rightarrow> bytes \<Rightarrow> unit act" where
  "handle_udp base64 sender receiver message = andThen (gets r_config) (\<lambda>c.
     if dns_proxy_tcp_intercepts c receiver then handle_dns_udp base64 sender receiver message
     else if dns_proxy_udp_intercepts c receiver then
       (case dns_upstream c of
          None \<Rightarrow> handle_dns_udp base64 sender receiver message
        | Some server \<Rightarrow> handle_socks_udp_routed base64 sender server receiver message)
     else handle_forward_udp base64 sender receiver message)"

section \<open>Timers\<close>

fun drop_each :: "flow_id list \<Rightarrow> unit act" where
  "drop_each [] = ret ()"
| "drop_each (fid # rest) = andThen (drop_udp_socket fid) (\<lambda>_. drop_each rest)"

fun rebuild_each :: "(bytes \<Rightarrow> bytes) \<Rightarrow> flow_id list \<Rightarrow> unit act" where
  "rebuild_each base64 [] = ret ()"
| "rebuild_each base64 (fid # rest) = andThen (rebuild_socks_association base64 fid) (\<lambda>_. rebuild_each base64 rest)"

fun remove_associations :: "flow_id list \<Rightarrow> unit act" where
  "remove_associations [] = ret ()"
| "remove_associations (fid # rest) = andThen (remove_socks_association fid) (\<lambda>_. remove_associations rest)"

definition rebuild_due :: "instant \<Rightarrow> reactor \<Rightarrow> flow_id \<Rightarrow> bool" where
  "rebuild_due t s fid \<longleftrightarrow> (case association_of fid s of None \<Rightarrow> False
     | Some a \<Rightarrow> sa_state a = SocksBackoff \<and> retry_at a \<le> t)"

definition association_stale :: "reactor \<Rightarrow> flow_id \<Rightarrow> bool" where
  "association_stale s fid \<longleftrightarrow> (case association_of fid s of None \<Rightarrow> False
     | Some a \<Rightarrow> \<not> has_association (forwarder (datagrams s)) (sa_key a))"

definition handle_udp_timers :: "(bytes \<Rightarrow> bytes) \<Rightarrow> instant \<Rightarrow> unit act" where
  "handle_udp_timers base64 t = andThen (gets (\<lambda>s. udp_expire t (forwarder (datagrams s)))) (\<lambda>r.
     andThen (expect r) (\<lambda>(expired, e).
     andThen (change (datagrams_update (forwarder_update (\<lambda>_. e)))) (\<lambda>_.
     andThen (drop_each expired) (\<lambda>_.
     andThen (gets (\<lambda>s. filter (rebuild_due t s) (active_ids (socks_associations (datagrams s))))) (\<lambda>due.
     andThen (rebuild_each base64 due) (\<lambda>_.
     andThen (gets (\<lambda>s. filter (association_stale s) (active_ids (socks_associations (datagrams s)))))
       remove_associations))))))"

section \<open>The invariant\<close>

text \<open>
  Under a SOCKS5 proxy an operation that fails may leave a half-removed association behind; the worker does not go
  on after such an error.
\<close>

definition after_error :: "state_fact set \<Rightarrow> reactor \<Rightarrow> bool" where
  "after_error F s \<longleftrightarrow> rinv F [] s \<or> socks_upstream (r_config s) \<and> (\<forall>c. Config c \<in> F \<longrightarrow> r_config s = c)"

definition keeps_until :: "state_fact set \<Rightarrow> 'a act \<Rightarrow> bool" where
  "keeps_until F m \<longleftrightarrow> (\<forall>s. rinv F [] s \<longrightarrow> wp m (\<lambda>_. rinv F []) (after_error F) s)"

lemma until_keeps: "keeps_inv F [] [] m \<Longrightarrow> keeps_until F m"
  by (auto simp: keeps_inv_def keeps_until_def after_error_def intro: wp_mono)

lemma until_direct: "keeps_until F m \<Longrightarrow> Config c \<in> F \<Longrightarrow> \<not> socks_upstream c \<Longrightarrow> keeps_inv F [] [] m"
  unfolding keeps_inv_def keeps_until_def after_error_def by (fastforce intro: wp_mono)

lemma until_seq: "keeps_until F m \<Longrightarrow> (\<And>x. keeps_until F (k x)) \<Longrightarrow> keeps_until F (andThen m k)"
  by (auto simp: keeps_until_def intro: wp_mono)

lemma until_gets:
  "(\<And>s. rinv F [] s \<Longrightarrow> keeps_until F (k (f s))) \<Longrightarrow> keeps_until F (andThen (gets f) k)"
  by (simp add: keeps_until_def)

lemma until_expect: "keeps_until F (k x) \<Longrightarrow> keeps_until F (andThen (expect (Some x)) k)"
  by (simp add: keeps_until_def)

lemmas until_ret = until_keeps [OF keeps_ret]
lemmas until_then = until_seq [OF until_keeps]

lemma rinv_sockets [simp]: "rinv F hand (datagrams_update (udp_sockets_update g) s) = rinv F hand s"
  by (simp add: rinv_def datagrams_ok_def)

lemma wp_forget:
  assumes t: "table_ok (socks_associations (datagrams s))" "deferred (socks_associations (datagrams s)) = []"
      "association_of fid s \<noteq> None"
    and Q: "\<And>t. table_ok t \<Longrightarrow> deferred t = [] \<Longrightarrow> table_get t = (table_get (socks_associations (datagrams s)))(fid := None) \<Longrightarrow>
      Q () (datagrams_update (socks_associations_update (\<lambda>_. t)) s)"
  shows "wp (forget_association fid) Q E s"
proof -
  let ?t = "defer_remove fid (socks_associations (datagrams s))"
  have d: "table_ok ?t" "deferred ?t = [fid]" "table_get ?t = table_get (socks_associations (datagrams s))"
    using t defer_remove_ok [OF t(1), of fid] by (auto simp: defer_remove_def association_of_def fun_eq_iff)
  then obtain t' where "flush_deferred ?t = Some ([the (table_get ?t fid)], t')" "table_ok t'" "deferred t' = []"
      "table_get t' = (table_get (socks_associations (datagrams s)))(fid := None)"
    using flush_deferred_ok [OF d(1)] by (auto simp: fun_eq_iff)
  then show ?thesis
    using Q by (simp add: forget_association_def)
qed

text \<open>The table and the index without the association.\<close>

lemma rinv_forget:
  assumes s: "rinv F [] s" and a: "association_of fid s = Some a" and F: "\<And>fid. Associated fid \<notin> F"
    and t: "table_ok t" "deferred t = []" "table_get t = (table_get (socks_associations (datagrams s)))(fid := None)"
  shows "rinv F [] (s\<lparr>kern := k, datagrams := (datagrams s)\<lparr>socks_associations := t, socks_by_key := hm_remove (sa_key a) (socks_by_key (datagrams s))\<rparr>\<rparr>)"
proof -
  have d: "datagrams_ok (r_config s) (datagrams s)"
    using s by (simp add: rinv_def)
  then have "indexed (table_get t) sa_key (hm_get (hm_remove (sa_key a) (socks_by_key (datagrams s))))"
    using indexed_delete [of "table_get (socks_associations (datagrams s))" sa_key _ fid a] a
    by (simp add: t(3) datagrams_ok_def association_of_def)
  then have "datagrams_ok (r_config s) ((datagrams s)\<lparr>socks_associations := t, socks_by_key := hm_remove (sa_key a) (socks_by_key (datagrams s))\<rparr>)"
    using d t unfolding datagrams_ok_def by auto
  then have "rinv F [] ((s\<lparr>kern := k\<rparr>)\<lparr>datagrams := (datagrams s)\<lparr>socks_associations := t, socks_by_key := hm_remove (sa_key a) (socks_by_key (datagrams s))\<rparr>\<rparr>)"
    using F s by (intro rinv_datagrams [where F = F]) auto
  then show ?thesis
    by simp
qed

lemma until_remove_association:
  assumes F: "\<And>fid. Associated fid \<notin> F"
  shows "keeps_until F (remove_socks_association fid)"
  unfolding keeps_until_def
proof (intro allI impI)
  fix s
  assume s: "rinv F [] s"
  show "wp (remove_socks_association fid) (\<lambda>_. rinv F []) (after_error F) s"
  proof (cases "association_of fid s")
    case None
    then show ?thesis
      using s by (simp add: remove_socks_association_def)
  next
    case (Some a)
    let ?g = "\<lambda>a. a\<lparr>sa_control := None, sa_relay := None\<rparr>"
    let ?t = "table_modify fid ?g (socks_associations (datagrams s))"
    have t: "table_ok ?t" "deferred ?t = []" "table_get ?t = (table_get (socks_associations (datagrams s)))(fid \<mapsto> ?g a)"
      using s Some ft.upd_look [of "socks_associations (datagrams s)" fid ?g] by (auto simp: rinv_def datagrams_ok_def association_of_def)
    have err: "after_error F (altered fid ?g s\<lparr>kern := k\<rparr>)" if "sa_control a \<noteq> None \<or> sa_relay a \<noteq> None" for k
      using that rinv_association [OF s Some] rinv_fact [OF s, of "Config c" for c]
      by (auto simp: after_error_def association_ok_def altered_def)
    have forget: "wp (andThen (change (datagrams_update (socks_by_key_update (hm_remove (sa_key a))))) (\<lambda>_. forget_association fid))
        (\<lambda>_. rinv F []) (after_error F) (altered fid ?g s\<lparr>kern := k\<rparr>)" for k
    proof -
      have "rinv F [] (datagrams_update (socks_associations_update (\<lambda>_. t'))
          (datagrams_update (socks_by_key_update (hm_remove (sa_key a))) (altered fid ?g s\<lparr>kern := k\<rparr>)))"
        if "table_ok t'" "deferred t' = []" "table_get t' = (table_get ?t)(fid := None)" for t'
      proof -
        have "table_get t' = (table_get (socks_associations (datagrams s)))(fid := None)"
          using that(3) by (simp add: t(3))
        then show ?thesis
          using rinv_forget [OF s Some F that(1,2), of k] by (cases s; cases "datagrams s") (simp add: altered_def)
      qed
      then show ?thesis
        using t by (simp, intro wp_forget) (auto simp: altered_def association_of_def)
    qed
    have "altered fid ?g s\<lparr>kern := kern s\<rparr> = altered fid ?g s"
      by (simp add: altered_def)
    then show ?thesis
      using err forget forget [of "kern s"] by (auto simp: remove_socks_association_def Some wp_alter intro!: wp_epoll)
  qed
qed

lemma udp_remove_wf:
  assumes "forwarder_ok e"
  shows "\<exists>removed e'. udp_remove fid e = Some (removed, e') \<and> forwarder_ok e'"
  using assms udp_remove_ok [of e fid] by (auto simp: forwarder_ok_def)

lemma udp_expire_wf:
  assumes "forwarder_ok e"
  shows "\<exists>expired e'. udp_expire t e = Some (expired, e') \<and> forwarder_ok e'"
proof -
  have "\<exists>e'. remove_each ids e = Some e' \<and> forwarder_ok e'" for ids
    using assms remove_each_ok [of e ids] by (auto simp: forwarder_ok_def)
  then show ?thesis
    by (fastforce simp: udp_expire_def Let_def)
qed

lemma keeps_sockets [keeps]:
  "keeps_inv F hand hand' (k ()) \<Longrightarrow> keeps_inv F hand hand' (andThen (change (datagrams_update (udp_sockets_update g))) k)"
  by (simp add: keeps_inv_def)

lemma keeps_drop_socket: "keeps_inv F [] [] (drop_udp_socket fid)"
  unfolding drop_udp_socket_def by (intro keeps_gets_then keeps)

lemma until_close_udp:
  assumes F: "\<And>fid. Associated fid \<notin> F"
  shows "keeps_until F (close_udp_flow fid)"
  unfolding close_udp_flow_def
proof (rule until_gets)
  fix s
  assume s: "rinv F [] s"
  obtain removed e where e: "udp_remove fid (forwarder (datagrams s)) = Some (removed, e)" "forwarder_ok e"
    using udp_remove_wf [OF rinv_forwarder_ok [OF s]] by blast
  have close: "keeps_until F (andThen (drop_udp_socket fid) (\<lambda>_. case r of None \<Rightarrow> ret ()
      | Some f \<Rightarrow>
          let key = association (uf_key f)
          in if has_association e key then ret ()
             else andThen (gets (\<lambda>s. hm_get (socks_by_key (datagrams s)) key)) (\<lambda>r.
               case r of None \<Rightarrow> ret () | Some association_id \<Rightarrow> remove_socks_association association_id)))" for r
    by (auto simp: Let_def split: option.split intro!: until_then [OF keeps_drop_socket] until_gets until_ret
        until_remove_association F)
  show "keeps_until F (andThen (expect (udp_remove fid (forwarder (datagrams s)))) (\<lambda>(removed, e').
     andThen (change (datagrams_update (forwarder_update (\<lambda>_. e')))) (\<lambda>_.
       if \<not> removed then ret ()
       else andThen (drop_udp_socket fid) (\<lambda>_.
         case udp_flow_of (forwarder (datagrams s)) fid of
           None \<Rightarrow> ret ()
         | Some f \<Rightarrow>
             let key = association (uf_key f)
             in if has_association e' key then ret ()
                else andThen (gets (\<lambda>s. hm_get (socks_by_key (datagrams s)) key)) (\<lambda>r.
                  case r of None \<Rightarrow> ret () | Some association_id \<Rightarrow> remove_socks_association association_id)))))"
    unfolding e(1)
    by (rule until_expect) (use close in \<open>auto intro!: until_then [OF keeps_set_forwarder(2) [OF e(2)]] until_ret\<close>)
qed

lemma keeps_icmp_error: "keeps_inv F [] [] (queue_udp_icmp_error fid error)"
  unfolding queue_udp_icmp_error_def
proof (rule keeps_gets_inv)
  fix s
  assume s: "rinv F [] s"
  show "keeps_inv F [] [] (case (udp_flow_of (forwarder (datagrams s)) fid, hm_get (udp_sockets (datagrams s)) fid) of
       (Some f, Some entry) \<Rightarrow>
         queue_udp_icmp_for (uk_source (uf_key f)) (uk_target (uf_key f)) (payload_prefix entry) (datagram_len entry) error
     | _ \<Rightarrow> ret ())"
    using rinv_flow [OF s, of fid] by (auto simp: udp_flow_of_def split: option.split intro!: keeps)
qed

lemma andThen_ret: "andThen m ret = m"
  by (auto simp: fun_eq_iff andThen_def ret_def split: option.split sum.split)

lemma keeps_calls_last: "keeps_inv F [] [] now" "keeps_inv F [] [] sys_datagram"
  using keeps_now [of F "[]" "[]" ret] keeps_sys_datagram [of F "[]" "[]" ret] by (simp_all add: keeps_ret andThen_ret)

lemma until_report: "(\<And>r. keeps_until F (k r)) \<Longrightarrow> keeps_until F (andThen sys_udp_report k)"
  using keeps_call [where F = F and hand = "[]" and hand' = "[]"]
  by (intro until_then) (auto simp: sys_udp_report_def intro!: keeps)

lemma until_error_loop: "(\<And>fid. Associated fid \<notin> F) \<Longrightarrow> keeps_until F (udp_error_loop n fid)"
proof (induction n)
  case (Suc n)
  then show ?case
    by (auto split: io.split option.split intro!: until_report until_gets until_ret until_close_udp
        until_then [OF keeps_icmp_error] until_then [OF keeps_ret])
qed (simp add: until_ret)

lemma until_udp_errors: "(\<And>fid. Associated fid \<notin> F) \<Longrightarrow> keeps_until F (handle_udp_errors fid)"
  unfolding handle_udp_errors_def by (auto intro!: until_gets until_ret until_error_loop)

lemma keeps_record_inbound: "keeps_inv F [] [] (change (datagrams_update (forwarder_update (record_inbound fid t))))"
  by (rule keeps_change) (simp add: rinv_forwarder forwarder_records rinv_forwarder_ok)

lemma until_rx_loop:
  assumes F: "\<And>fid. Associated fid \<notin> F"
  shows "keeps_until F (udp_rx_loop n fid)"
proof (induction n)
  case (Suc n)
  have "keeps_until F (case udp_flow_of (forwarder (datagrams s)) fid of None \<Rightarrow> ret ()
      | Some f \<Rightarrow> andThen now (\<lambda>t.
          andThen (change (datagrams_update (forwarder_update (record_inbound fid t)))) (\<lambda>_.
          andThen (queue_udp_frame (uk_source (uf_key f)) (reply_source f) bs) (\<lambda>_. udp_rx_loop n fid))))"
    if "rinv F [] s" for s bs
    using rinv_flow [OF that, of fid] Suc
    by (auto simp: udp_flow_of_def split: option.split intro!: until_ret until_then [OF keeps_calls_last(1)]
        until_then [OF keeps_record_inbound] until_then [OF keeps_queue_udp])
  then show ?case
    using Suc F by (auto split: datagram_io.split intro!: until_gets until_ret until_close_udp until_udp_errors
        until_then [OF keeps_calls_last(2)])
qed (simp add: until_ret)

lemma until_udp_socket: "(\<And>fid. Associated fid \<notin> F) \<Longrightarrow> keeps_until F (handle_udp_socket fid events)"
  unfolding handle_udp_socket_def only_if_def
  by (auto intro!: until_gets until_ret until_seq [OF until_udp_errors] until_then [OF keeps_ret] until_rx_loop)

lemma keeps_open_socket: "keeps_inv F [] [] (open_udp_socket fid)"
proof -
  have remove: "keeps_inv F [] [] (andThen (gets (\<lambda>s. udp_remove fid (forwarder (datagrams s)))) (\<lambda>r. andThen (expect r) (\<lambda>(_, e).
      andThen (change (datagrams_update (forwarder_update (\<lambda>_. e)))) (\<lambda>_. ret False))))"
  proof (rule keeps_gets_inv)
    fix s
    assume s: "rinv F [] s"
    obtain removed e where e: "udp_remove fid (forwarder (datagrams s)) = Some (removed, e)" "forwarder_ok e"
      using udp_remove_wf [OF rinv_forwarder_ok [OF s]] by blast
    show "keeps_inv F [] [] (andThen (expect (udp_remove fid (forwarder (datagrams s)))) (\<lambda>(_, e).
        andThen (change (datagrams_update (forwarder_update (\<lambda>_. e)))) (\<lambda>_. ret False)))"
      unfolding e(1) using e(2) by (intro keeps) auto
  qed
  show ?thesis
    unfolding open_udp_socket_def by (intro keeps remove)
qed

lemma keeps_send_datagram:
  assumes "Config c \<in> F" "\<not> socks_upstream c" "\<And>fid. Associated fid \<notin> F"
  shows "keeps_inv F [] [] (send_udp_datagram fid sender message)"
  using until_direct [OF until_close_udp [OF assms(3)] assms(1,2)]
  unfolding send_udp_datagram_def by (intro keeps_gets_then keeps keeps_icmp_error)

lemma keeps_forward_direct:
  assumes F: "Config c \<in> F" "\<not> socks_upstream c" "\<And>fid. Associated fid \<notin> F" and wf: "wf_addr sender" "wf_addr receiver"
  shows "keeps_inv F [] [] (andThen now (\<lambda>t. andThen (gets datagrams) (\<lambda>d.
    andThen (expect (udp_accept \<lparr>uk_source = sender, uk_target = receiver\<rparr> t (forwarder d))) (\<lambda>(r, e).
    andThen (change (datagrams_update (forwarder_update (\<lambda>_. e)))) (\<lambda>_.
      case r of
        Inl _ \<Rightarrow> ret ()
      | Inr accepted \<Rightarrow>
          andThen (if created accepted then open_udp_socket (accept_id accepted) else ret True) (\<lambda>go_on.
            if \<not> go_on then ret () else send_udp_datagram (accept_id accepted) sender message))))))"
proof (intro keeps_now keeps_gets_inv)
  fix t s
  assume s: "rinv F [] s"
  obtain r e where r: "udp_accept \<lparr>uk_source = sender, uk_target = receiver\<rparr> t (forwarder (datagrams s)) = Some (r, e)" "forwarder_ok e"
    using accept_routed_wf [OF rinv_forwarder_ok [OF s] wf wf(2), of t] by (auto simp: udp_accept_def)
  show "keeps_inv F [] [] (andThen (expect (udp_accept \<lparr>uk_source = sender, uk_target = receiver\<rparr> t (forwarder (datagrams s)))) (\<lambda>(r, e).
    andThen (change (datagrams_update (forwarder_update (\<lambda>_. e)))) (\<lambda>_.
      case r of
        Inl _ \<Rightarrow> ret ()
      | Inr accepted \<Rightarrow>
          andThen (if created accepted then open_udp_socket (accept_id accepted) else ret True) (\<lambda>go_on.
            if \<not> go_on then ret () else send_udp_datagram (accept_id accepted) sender message))))"
    unfolding r(1) using r(2) F by (intro keeps keeps_seq [OF keeps_open_socket] keeps_send_datagram [of c]) auto
qed

lemma keeps_forward_udp:
  assumes F: "\<And>fid. Associated fid \<notin> F" and wf: "wf_addr sender" "wf_addr receiver"
  shows "keeps_inv F [] [] (handle_forward_udp base64 sender receiver message)"
proof (rule keeps_know_config)
  fix c
  have "keeps_inv (insert (Config c) F) [] [] (case upstream_of c of
       Proxy Socks5 _ _ \<Rightarrow> handle_socks_udp base64 sender receiver message
     | Proxy HttpConnect _ _ \<Rightarrow> queue_udp_icmp_for sender receiver message (length message) (unreachable sender)
     | Direct _ \<Rightarrow> m)" if "\<not> socks_upstream c \<Longrightarrow> keeps_inv (insert (Config c) F) [] [] m" for m
    using that wf unfolding handle_socks_udp_def
    by (auto simp: socks_upstream_def split: upstream.split protocol.split intro!: keeps keeps_socks_routed)
  then show "keeps_inv (insert (Config c) F) [] [] (handle_forward_udp base64 sender receiver message)"
    unfolding handle_forward_udp_def using F wf
    by (intro keeps_config_known [of c] keeps_if keeps_ret) (auto intro!: keeps_forward_direct [of c])
qed

lemma keeps_handle_udp:
  assumes F: "\<And>fid. Associated fid \<notin> F" and wf: "wf_addr sender" "wf_addr receiver"
  shows "keeps_inv F [] [] (handle_udp base64 sender receiver message)"
  unfolding handle_udp_def
  using F wf by (intro keeps_config keeps_if keeps_option keeps_handle_dns_udp keeps_socks_routed keeps_forward_udp) (auto simp: config_ok_def)

section \<open>Timers\<close>

lemma keeps_drop_each: "keeps_inv F [] [] (drop_each ids)"
  by (induction ids) (auto intro: keeps_ret keeps_seq [OF keeps_drop_socket])

lemma keeps_rebuild_each: "keeps_inv F [] [] (rebuild_each base64 ids)"
  by (induction ids) (auto intro: keeps_ret keeps_seq [OF keeps_rebuild])

lemma until_remove_associations: "(\<And>fid. Associated fid \<notin> F) \<Longrightarrow> keeps_until F (remove_associations ids)"
  by (induction ids) (auto intro: until_ret until_seq [OF until_remove_association])

lemma until_udp_timers:
  assumes F: "\<And>fid. Associated fid \<notin> F"
  shows "keeps_until F (handle_udp_timers base64 t)"
  unfolding handle_udp_timers_def
proof (rule until_gets)
  fix s
  assume s: "rinv F [] s"
  obtain expired e where e: "udp_expire t (forwarder (datagrams s)) = Some (expired, e)" "forwarder_ok e"
    using udp_expire_wf [OF rinv_forwarder_ok [OF s]] by blast
  show "keeps_until F (andThen (expect (udp_expire t (forwarder (datagrams s)))) (\<lambda>(expired, e).
     andThen (change (datagrams_update (forwarder_update (\<lambda>_. e)))) (\<lambda>_.
     andThen (drop_each expired) (\<lambda>_.
     andThen (gets (\<lambda>s. filter (rebuild_due t s) (active_ids (socks_associations (datagrams s))))) (\<lambda>due.
     andThen (rebuild_each base64 due) (\<lambda>_.
     andThen (gets (\<lambda>s. filter (association_stale s) (active_ids (socks_associations (datagrams s)))))
       remove_associations))))))"
    unfolding e(1) using F e(2)
    by (auto intro!: until_expect until_then [OF keeps_set_forwarder(2)] until_then [OF keeps_drop_each] until_gets
        until_then [OF keeps_rebuild_each] until_remove_associations)
qed

end
