(* ===== verification/Reactor_Order.thy ===== *)
theory Reactor_Order
  imports Reactor_Tcp
begin

text \<open>
  The order of bytes and frames: what was queued for the TAP device is written in the order it was
  queued, and what the namespace sent is submitted to the upstream socket in order as long as nothing
  is queued for the socket.
\<close>

section \<open>The TAP device\<close>

definition tap_stream :: "reactor \<Rightarrow> bytes list" where
  "tap_stream s = tap_log (kern s) @ map (\<lambda>fr. fb_contents (pf_buffer (qf_frame fr))) (tap_queue s)"

lemma preserves_tap_basics [stable]:
  "preserves tap_stream (release f)" "preserves tap_stream now" "preserves tap_stream sys_epoll"
  "preserves tap_stream (amend fid g)"
  by (auto simp: preserves_def succeeds_def release_def on_frames_def now_def sys_epoll_def must_def call_def
      andThen_def ret_def raise_def amend_def tap_stream_def split: list.splits option.splits io.splits)

lemma preserves_tap_interest [stable]: "preserves tap_stream update_tap_interest"
  unfolding update_tap_interest_def by (intro stable)

lemma preserves_tap_commit [stable]: "preserves tap_stream (commit_tap_send flow_of f plan_of)"
  unfolding commit_tap_send_def commit_plan_def Let_def by (intro stable)

lemma tap_stream_fields [simp]: "tap_stream (retained_socket_bytes_update g s) = tap_stream s"
  by (simp add: tap_stream_def)

lemma succeeds_tap_write:
  "succeeds (sys_tap_write bs) (\<lambda>r s'. (case r of
      Complete n \<Rightarrow> tap_log (kern s') = tap_log (kern s) @ [take n bs] \<and> n \<le> length bs
    | _ \<Rightarrow> tap_log (kern s') = tap_log (kern s)) \<and> tap_queue s' = tap_queue s) s"
  by (auto simp: succeeds_def sys_tap_write_def call_def andThen_def ret_def change_def map_io_Complete
      split: list.splits io.splits option.splits sum.splits)

definition no_drops :: "reactor \<Rightarrow> bool" where
  "no_drops s \<longleftrightarrow> test_drop_tcp_syn_ack s = 0 \<and> test_drop_tcp_fin s = 0 \<and> test_drop_tcp_data s = 0 \<and> test_drop_tcp_ack s = 0"

lemma no_injected_drop: "no_drops s \<Longrightarrow> injected_drop plan_of s = Some (Inr False, s)"
  by (auto simp: injected_drop_def no_drops_def andThen_def gets_def ret_def split: list.split option.split)

text \<open>A write takes the whole frame, or the frame is not written, or the action fails.\<close>

lemma succeeds_write_all:
  assumes "\<And>s'. tap_log (kern s') = tap_log (kern s) @ [bs] \<Longrightarrow> tap_queue s' = tap_queue s \<Longrightarrow> P (Complete (length bs)) s'"
    and "\<And>s' n. n \<noteq> length bs \<Longrightarrow> P (Complete n) s'" "\<And>s'. P Failed s'"
    and "\<And>s'. tap_log (kern s') = tap_log (kern s) \<Longrightarrow> tap_queue s' = tap_queue s \<Longrightarrow> P WouldBlock s'"
  shows "succeeds (sys_tap_write bs) P s"
proof (rule succeeds_mono [OF succeeds_tap_write])
  fix r and s' :: reactor
  assume w: "(case r of Complete n \<Rightarrow> tap_log (kern s') = tap_log (kern s) @ [take n bs] \<and> n \<le> length bs
    | _ \<Rightarrow> tap_log (kern s') = tap_log (kern s)) \<and> tap_queue s' = tap_queue s"
  show "P r s'"
  proof (cases r)
    case (Complete n)
    then show ?thesis
      using w assms(1) [of s'] assms(2) [of n s'] by (cases "n = length bs") auto
  qed (use w assms(3,4) in auto)
qed

lemma succeeds_view: "preserves view m \<Longrightarrow> view s = X \<Longrightarrow> (\<And>x s'. view s' = X \<Longrightarrow> P x s') \<Longrightarrow> succeeds m P s"
  using preserves_succeeds [of view m s] by (auto intro: succeeds_mono)

lemma queue_tap_appends:
  assumes "no_drops s"
  shows "succeeds (queue_tap flow_of f plan_of) (\<lambda>_ s'. tap_stream s' = tap_stream s @ [fb_contents (pf_buffer f)]) s"
proof -
  have drop: "succeeds (injected_drop plan_of) P (retained_socket_bytes_update g s) = P False (retained_socket_bytes_update g s)" for P g
    using no_injected_drop [of "retained_socket_bytes_update g s" plan_of] assms by (auto simp: succeeds_def no_drops_def)
  show ?thesis
    by (auto simp: queue_tap_def Let_def reserve_retained_bytes_def drop abandon_def tap_stream_def
        intro!: succeeds_write_all succeeds_view [OF preserves_tap_commit] succeeds_view [OF preserves_tap_interest])
qed

lemma flush_tap_keeps: "preserves tap_stream flush_tap_queue"
proof -
  have "preserves tap_stream (flush_tap_loop n)" for n
  proof (induction n)
    case (Suc n)
    show ?case
      unfolding preserves_def
    proof
      fix s
      show "succeeds (flush_tap_loop (Suc n)) (\<lambda>_ s'. tap_stream s' = tap_stream s) s"
        by (cases "tap_queue s") (auto simp: Let_def abandon_def tap_stream_def
            intro!: succeeds_write_all succeeds_view [OF preserves_tap_commit] succeeds_view [OF Suc])
    qed
  qed (simp add: stable)
  then show ?thesis
    unfolding flush_tap_queue_def by (intro stable)
qed

text \<open>
  C4. The TAP device gets frames in the order in which they were queued. A successful \<open>queue_tap\<close> adds its frame
  at the end of what is written or waiting, and a successful \<open>flush_tap_queue\<close> changes nothing in that
  sequence: no frame is lost, doubled or overtaken.
\<close>

theorem tap_frames_in_order:
  assumes "no_drops s"
  shows "(queue_tap flow_of f plan_of s = Some (Inr (), s1) \<longrightarrow>
      tap_stream s1 = tap_stream s @ [fb_contents (pf_buffer f)]) \<and>
    (flush_tap_queue s = Some (Inr (), s2) \<longrightarrow> tap_stream s2 = tap_stream s)"
  using queue_tap_appends [OF assms, of flow_of f plan_of] preserves_succeeds [OF flush_tap_keeps, of s]
  by (simp add: succeeds_def)

section \<open>The upstream socket\<close>

text \<open>The bytes that a flow's socket has taken, followed by those that wait for it.\<close>

definition taken_by :: "nat \<Rightarrow> reactor \<Rightarrow> bytes" where
  "taken_by fd s = concat (map snd (filter (\<lambda>(fd', _). fd' = fd) (sent_log (kern s))))"

definition upstream_stream :: "flow_id \<Rightarrow> reactor \<Rightarrow> bytes" where
  "upstream_stream fid s =
     (case table_get (tcp_flows s) fid of
        None \<Rightarrow> []
      | Some e \<Rightarrow> taken_by (socket e) s @ queue_contents (pending_socket e))"

definition flow_ready :: "flow_id \<Rightarrow> reactor \<Rightarrow> bool" where
  "flow_ready fid s \<longleftrightarrow> table_ok (tcp_flows s) \<and>
     (\<exists>e. table_get (tcp_flows s) fid = Some e \<and> queue_ok (pending_socket e))"

definition stream_is :: "flow_id \<Rightarrow> bytes \<Rightarrow> reactor \<Rightarrow> bool" where
  "stream_is fid bs s \<longleftrightarrow> flow_ready fid s \<and> upstream_stream fid s = bs"

lemma stream_fields [simp]:
  "stream_is fid bs (pending_socket_bytes_update g s) = stream_is fid bs s"
  "stream_is fid bs (pending_pressure_update h s) = stream_is fid bs s"
  "stream_is fid bs (pending_pressure_dirty_update h s) = stream_is fid bs s"
  by (simp_all add: stream_is_def flow_ready_def upstream_stream_def taken_by_def split: option.split)

lemma stream_modify:
  assumes ok: "table_ok (tcp_flows s)" and e: "table_get (tcp_flows s) fid = Some e"
    and g: "socket (g e) = socket e" "queue_ok (pending_socket (g e))"
  shows "stream_is fid (taken_by (socket e) s @ queue_contents (pending_socket (g e))) (s\<lparr>tcp_flows := table_modify fid g (tcp_flows s)\<rparr>)"
  using table_modify_ok [OF ok, of fid g] e g by (simp add: stream_is_def flow_ready_def upstream_stream_def taken_by_def)

lemma stream_amend:
  assumes "stream_is fid bs s" "\<And>e. socket (g e) = socket e \<and> pending_socket (g e) = pending_socket e"
  shows "succeeds (amend fid g) (\<lambda>_. stream_is fid bs) s"
proof -
  obtain e where e: "table_ok (tcp_flows s)" "table_get (tcp_flows s) fid = Some e" "queue_ok (pending_socket e)"
    using assms(1) by (auto simp: stream_is_def flow_ready_def)
  have g: "socket (g e) = socket e" "pending_socket (g e) = pending_socket e"
    using assms(2) by auto
  then show ?thesis
    using stream_modify [OF e(1,2), of g] assms(1) e by (simp add: stream_is_def upstream_stream_def g)
qed

text \<open>The socket takes a prefix of what it is offered.\<close>

lemma succeeds_send:
  assumes "\<And>s' n. n \<le> length bs \<Longrightarrow> sent_log (kern s') = sent_log (kern s) @ [(fd, take n bs)] \<Longrightarrow>
      tcp_flows s' = tcp_flows s \<Longrightarrow> P (Complete n) s'"
    and "\<And>s'. P Failed s'"
    and "\<And>s'. sent_log (kern s') = sent_log (kern s) \<Longrightarrow> tcp_flows s' = tcp_flows s \<Longrightarrow> P WouldBlock s'"
  shows "succeeds (sys_send fd bs) P s"
  using assms by (auto simp: succeeds_def sys_send_def call_def andThen_def ret_def change_def map_io_Complete
      split: list.splits io.splits option.splits sum.splits)

lemma enqueue_extends:
  assumes "stream_is fid bs s"
  shows "succeeds (enqueue_pending_payload fid payload) (\<lambda>ok s'. ok \<longrightarrow> stream_is fid (bs @ payload) s') s"
proof -
  obtain e where e: "table_ok (tcp_flows s)" "table_get (tcp_flows s) fid = Some e" "queue_ok (pending_socket e)"
    "bs = taken_by (socket e) s @ queue_contents (pending_socket e)"
    using assms by (auto simp: stream_is_def flow_ready_def upstream_stream_def)
  have "stream_is fid (bs @ payload) (s\<lparr>tcp_flows := table_modify fid (pending_socket_update (\<lambda>_. q)) (tcp_flows s)\<rparr>)"
    if "queue_push payload (pending_socket e) = Some q" for q
    using stream_modify [OF e(1,2), of "pending_socket_update (\<lambda>_. q)"] pq.put_some [OF e(3) that] by (simp add: e(4))
  then show ?thesis
    using e(2) by (auto simp: enqueue_pending_payload_def Let_def update_pending_pressure_state_def split: option.split)
qed

lemma taken_more: "sent_log (kern s') = sent_log (kern s) @ [(fd, bs)] \<Longrightarrow> taken_by fd s' = taken_by fd s @ bs"
  "sent_log (kern s') = sent_log (kern s) \<Longrightarrow> taken_by fd s' = taken_by fd s"
  by (simp_all add: taken_by_def)

lemma succeeds_seq:
  "succeeds m Q s \<Longrightarrow> (\<And>x s'. Q x s' \<Longrightarrow> succeeds (k x) P s') \<Longrightarrow> succeeds (andThen m k) P s"
  by (auto intro: succeeds_mono)

lemma submit_extends:
  assumes s: "stream_is fid bs s" and e: "table_get (tcp_flows s) fid = Some e" "queue_contents (pending_socket e) = []"
  shows "succeeds (submit_namespace_payload fid payload) (\<lambda>ok s'. ok \<longrightarrow> stream_is fid (bs @ payload) s') s"
proof -
  let ?P = "\<lambda>ok s'. ok \<longrightarrow> stream_is fid (bs @ payload) s'"
  have taken: "succeeds (andThen (amend fid (entry_flow_update g)) (\<lambda>_.
      if n < length payload then enqueue_pending_payload fid (drop n payload) else ret True)) ?P s'"
    if n: "n \<le> length payload" "sent_log (kern s') = sent_log (kern s) @ [(socket e, take n payload)]"
      "tcp_flows s' = tcp_flows s" for s' n g
  proof (rule succeeds_seq [OF stream_amend])
    show "stream_is fid (bs @ take n payload) s'"
      using s e n(3) taken_more(1) [OF n(2)] by (simp add: stream_is_def flow_ready_def upstream_stream_def)
    fix s''
    assume s'': "stream_is fid (bs @ take n payload) s''"
    then show "succeeds (if n < length payload then enqueue_pending_payload fid (drop n payload) else ret True) ?P s''"
      using enqueue_extends [OF s'', of "drop n payload"] n(1) by auto
  qed simp_all
  have blocked: "succeeds (enqueue_pending_payload fid payload) ?P s'"
    if "sent_log (kern s') = sent_log (kern s)" "tcp_flows s' = tcp_flows s" for s'
    using s e that taken_more(2) [OF that(1)]
    by (intro enqueue_extends) (simp add: stream_is_def flow_ready_def upstream_stream_def)
  show ?thesis
    unfolding submit_namespace_payload_def succeeds_andThen succeeds_basics e(1) option.case
    by (rule succeeds_send) (use taken blocked in simp_all)
qed

lemma flush_front_keeps:
  assumes s: "stream_is fid bs s"
  shows "succeeds (flush_front fid) (\<lambda>_. stream_is fid bs) s"
proof -
  obtain e where e: "table_ok (tcp_flows s)" "table_get (tcp_flows s) fid = Some e" "queue_ok (pending_socket e)"
    "bs = taken_by (socket e) s @ queue_contents (pending_socket e)"
    using s by (auto simp: stream_is_def flow_ready_def upstream_stream_def)
  have consume: "succeeds (andThen (consume_pending_payload fid n) (\<lambda>_. amend fid (entry_flow_update g))) (\<lambda>_. stream_is fid bs) s'"
    if f: "queue_front (pending_socket e) = Some chunk" and n: "n \<le> length chunk"
      "sent_log (kern s') = sent_log (kern s) @ [(socket e, take n chunk)]" "tcp_flows s' = tcp_flows s" for s' n g chunk
  proof (rule succeeds_seq [OF _ stream_amend])
    obtain k q where q: "queue_consume n (pending_socket e) = (k, q)"
      by fastforce
    have "queue_ok q" "take n chunk @ queue_contents q = queue_contents (pending_socket e)"
      using pq.take_some [OF e(3) q] pq.send_front [OF e(3) f n(1) q] by auto
    then have "stream_is fid bs (s'\<lparr>tcp_flows := table_modify fid (pending_socket_update (\<lambda>_. q)) (tcp_flows s')\<rparr>)"
      using stream_modify [of s' fid e "pending_socket_update (\<lambda>_. q)"] e n(3) taken_more(1) [OF n(2)] by simp
    then show "succeeds (consume_pending_payload fid n) (\<lambda>_. stream_is fid bs) s'"
      using e(2) n(3) q by (simp add: consume_pending_payload_def update_pending_pressure_state_def Let_def)
  qed simp_all
  have blocked: "stream_is fid bs s'"
    if "sent_log (kern s') = sent_log (kern s)" "tcp_flows s' = tcp_flows s" for s'
    using s e(2) that taken_more(2) [OF that(1)] by (simp add: stream_is_def flow_ready_def upstream_stream_def)
  show ?thesis
  proof (cases "queue_front (pending_socket e)")
    case None
    then show ?thesis
      using s e(2) by (simp add: flush_front_def)
  next
    case (Some chunk)
    then show ?thesis
      unfolding flush_front_def succeeds_andThen succeeds_basics e(2) option.case
      by simp (rule succeeds_send; use consume blocked in \<open>auto split: if_splits\<close>)
  qed
qed

lemma flush_socket_keeps:
  assumes "stream_is fid bs s"
  shows "succeeds (flush_socket_queue fid) (\<lambda>_. stream_is fid bs) s"
  unfolding flush_socket_queue_def
proof (rule succeeds_seq [OF flush_front_keeps [OF assms]])
  fix s'
  assume s': "stream_is fid bs s'"
  have "succeeds sys_sockopt (\<lambda>_. stream_is fid bs) s'"
    using s' by (auto simp: succeeds_def sys_sockopt_def must_def call_def andThen_def ret_def raise_def stream_is_def
        flow_ready_def upstream_stream_def taken_by_def split: list.splits io.splits option.splits)
  then have "succeeds (andThen sys_sockopt (\<lambda>_. amend fid (pending_shutdown_update g))) (\<lambda>_. stream_is fid bs) s'" for g
    by (rule succeeds_seq) (rule stream_amend, simp_all)
  then show "succeeds (andThen (fetch fid) (\<lambda>e. only_if (queue_is_empty (pending_socket e) \<and> pending_shutdown e)
      (andThen sys_sockopt (\<lambda>_. amend fid (pending_shutdown_update (\<lambda>_. False)))))) (\<lambda>_. stream_is fid bs) s'"
    using s' by (simp split: option.split)
qed

text \<open>
  C5. The bytes that the namespace sends reach the upstream socket in order: when nothing waits for the socket,
  a successful \<open>submit_namespace_payload\<close> appends exactly the payload to the bytes that the socket has taken
  or will be given, and a successful \<open>flush_socket_queue\<close> moves waiting bytes to the socket without losing,
  doubling or reordering any.
\<close>

theorem upstream_bytes_in_order:
  assumes "table_ok (tcp_flows s)" "table_get (tcp_flows s) fid = Some e" "queue_ok (pending_socket e)"
  shows "(queue_contents (pending_socket e) = [] \<and> submit_namespace_payload fid payload s = Some (Inr True, s1) \<longrightarrow>
      upstream_stream fid s1 = upstream_stream fid s @ payload) \<and>
    (flush_socket_queue fid s = Some (Inr (), s2) \<longrightarrow> upstream_stream fid s2 = upstream_stream fid s)"
proof -
  have s: "stream_is fid (upstream_stream fid s) s"
    using assms by (simp add: stream_is_def flow_ready_def)
  show ?thesis
    using submit_extends [OF s assms(2), of payload] flush_socket_keeps [OF s]
    by (auto simp: succeeds_def stream_is_def)
qed

text \<open>
  C38. When bytes already wait for the socket, new payload overtakes them: \<open>submit_namespace_payload\<close> offers the new
  payload to the socket without looking at the queue, so if the socket takes it, it is sent before the older bytes.
\<close>

theorem submit_overtakes_pending:
  assumes "table_ok (tcp_flows s)" "table_get (tcp_flows s) fid = Some e"
    and "k_send (kern s) = Complete n # answers" "length payload \<le> n"
  shows "\<exists>s' e'. submit_namespace_payload fid payload s = Some (Inr True, s') \<and>
    table_get (tcp_flows s') fid = Some e' \<and> pending_socket e' = pending_socket e \<and>
    sent_log (kern s') = sent_log (kern s) @ [(socket e, payload)]"
  using assms table_modify_ok [OF assms(1), of fid]
  by (simp add: submit_namespace_payload_def sys_send_def call_def andThen_def fetch_def amend_def change_def ret_def)

definition sample_kernel :: kernel where
  "sample_kernel = \<lparr>k_tap_write = [], k_epoll = [Complete ()], k_send = [Complete 2], k_peek = [], k_discard = [],
     k_sockopt = [], k_error = [], k_info = [], k_drain = [], k_connect = [], k_local = [], k_sizes = [],
     k_random = [], k_poll = [], k_tap_read = [], k_recv = [], k_datagram = [], k_udp_send = [], k_udp_connect = [],
     k_udp_report = [], k_jitter = [], k_control = [], k_packet = [], k_timer = [], k_clock = [], tap_log = [], sent_log = [], datagram_log = [], packet_log = []\<rparr>"

definition sample_entry :: "bytes list \<Rightarrow> flow_entry" where
  "sample_entry waiting = (new_entry construction_new (flow_new 0 0 1460 0 0) 7 None 4096 4096)
     \<lparr>pending_socket := \<lparr>chunks = waiting, queued_bytes = length (concat waiting), queue_limit = 100\<rparr>\<rparr>"

definition sample_reactor :: "bytes list \<Rightarrow> reactor" where
  "sample_reactor waiting = \<lparr>r_config = sample_config, big_endian = False,
     tcp_flows = \<lparr>slots = [\<lparr>slot_generation = 1, slot_value = Some (sample_entry waiting), retired = False\<rparr>],
       free = [], deferred = []\<rparr>,
     by_key = [], frames = sample_frames, tap_queue = [], test_drop_tcp_data = 0, test_drop_tcp_retransmit = 0,
     test_drop_tcp_syn_ack = 0, test_drop_tcp_fin = 0, test_drop_tcp_ack = 0, test_drop_tcp_fin_ack = 0,
     test_suppress_event_ack_refresh = 0, test_local_isn = None, pending_socket_bytes = length (concat waiting),
     retained_socket_bytes = 0, pending_pressure = False, pending_pressure_dirty = False,
     ack_refresh_queue = [], timer_cursor_slot = 0,
     resolver = \<lparr>engine = with_query_timeout 5, connection = DnsIdle, dns_write_buffer = [], dns_read_buffer = [],
       dns_last_activity = 0\<rparr>,
     datagrams = \<lparr>forwarder = sample_engine, udp_sockets = [],
       socks_associations = \<lparr>slots = [], free = [], deferred = []\<rparr>, socks_by_key = []\<rparr>,
     shutting_down = False, kern = sample_kernel\<rparr>"

abbreviation "sample_fid \<equiv> \<lparr>slot = 0, generation = 1\<rparr> :: flow_id"

lemma sample_table:
  "table_ok (tcp_flows (sample_reactor w))" "table_get (tcp_flows (sample_reactor w)) sample_fid = Some (sample_entry w)"
  by (simp_all add: sample_reactor_def table_ok_def slot_ok_def table_get_def Let_def)

lemmas action_evaluation = andThen_def fetch_def amend_def change_def ret_def gets_def raise_def call_def must_def

theorem tap_frames_in_order_witness:
  "\<exists>s1. queue_tap None \<lparr>pf_tier = Mtu, pf_index = 0, pf_buffer = \<lparr>fb_bytes = [1, 2, 3], fb_len = 2\<rparr>\<rparr> None (sample_reactor []) =
      Some (Inr (), s1) \<and> tap_stream s1 = tap_stream (sample_reactor []) @ [[1, 2]]"
proof -
  let ?f = "\<lparr>pf_tier = Mtu, pf_index = 0, pf_buffer = \<lparr>fb_bytes = [1, 2, 3], fb_len = 2\<rparr>\<rparr>"
  have "\<exists>s1. queue_tap None ?f None (sample_reactor []) = Some (Inr (), s1)"
    by (simp add: queue_tap_def reserve_retained_bytes_def injected_drop_def action_evaluation sys_tap_write_def
        sample_reactor_def sample_kernel_def update_tap_interest_def sys_epoll_def READABLE_def WRITABLE_def Let_def)
  then obtain s1 where s1: "queue_tap None ?f None (sample_reactor []) = Some (Inr (), s1)"
    by blast
  have "no_drops (sample_reactor [])"
    by (simp add: no_drops_def sample_reactor_def)
  then have "tap_stream s1 = tap_stream (sample_reactor []) @ [[1, 2]]"
    using tap_frames_in_order [of "sample_reactor []" None ?f None s1] s1 by (simp add: fb_contents_def)
  then show ?thesis
    using s1 by blast
qed

theorem upstream_bytes_in_order_witness:
  "\<exists>s1. submit_namespace_payload sample_fid [1, 2, 3] (sample_reactor []) = Some (Inr True, s1) \<and>
     upstream_stream sample_fid s1 = [1, 2, 3]"
proof -
  have "\<exists>s1. submit_namespace_payload sample_fid [1, 2, 3] (sample_reactor []) = Some (Inr True, s1)"
    by (simp add: submit_namespace_payload_def sys_send_def enqueue_pending_payload_def update_pending_pressure_state_def
        action_evaluation sample_reactor_def sample_kernel_def sample_entry_def new_entry_def table_get_def table_modify_def
        queue_push_def queue_remaining_def sample_config_def Let_def)
  then obtain s1 where s1: "submit_namespace_payload sample_fid [1, 2, 3] (sample_reactor []) = Some (Inr True, s1)"
    by blast
  have q: "queue_ok (pending_socket (sample_entry []))" "queue_contents (pending_socket (sample_entry [])) = []"
    by (simp_all add: sample_entry_def queue_ok_def queue_contents_def)
  have "upstream_stream sample_fid (sample_reactor []) = []"
    using sample_table(2) [of "[]"] q(2) by (simp add: upstream_stream_def taken_by_def sample_reactor_def sample_kernel_def)
  then have "upstream_stream sample_fid s1 = [1, 2, 3]"
    using upstream_bytes_in_order [OF sample_table q(1), of "[1, 2, 3]" s1] s1 q(2) by simp
  then show ?thesis
    using s1 by blast
qed

theorem submit_overtakes_pending_witness:
  "\<exists>s' e'. submit_namespace_payload sample_fid [3, 4] (sample_reactor [[1, 2]]) = Some (Inr True, s') \<and>
     table_get (tcp_flows s') sample_fid = Some e' \<and> queue_contents (pending_socket e') = [1, 2] \<and>
     sent_log (kern s') = [(7, [3, 4])]"
proof -
  have "k_send (kern (sample_reactor [[1, 2]])) = Complete 2 # []" "sent_log (kern (sample_reactor [[1, 2]])) = []"
    by (simp_all add: sample_reactor_def sample_kernel_def)
  moreover have "queue_contents (pending_socket (sample_entry [[1, 2]])) = [1, 2]" "socket (sample_entry [[1, 2]]) = 7"
    by (simp_all add: sample_entry_def queue_contents_def new_entry_def)
  ultimately show ?thesis
    using submit_overtakes_pending [OF sample_table, of "[[1, 2]]" 2 "[]" "[3, 4]"] by auto
qed

end
