(* ===== verification/Control_Message.thy ===== *)
theory Control_Message
  imports Prelude
begin

text \<open>
  Messages of the control channel between the processes of an instance (\<open>crates/sys/src/control.rs\<close>): a fixed header in
  little-endian order, then the payload.
\<close>

definition VERSION :: u16 where "VERSION = 1"
definition MAX_PAYLOAD :: usize where "MAX_PAYLOAD = 4096"
definition MAGIC :: bytes where "MAGIC = [0x59, 0x41, 0x59, 0x41]"
definition CONTROL_HEADER_LEN :: usize where "CONTROL_HEADER_LEN = 20"

datatype control_kind = MapsReady | Ready | Exec | Shutdown | Exit | Error | Status

fun kind_code :: "control_kind \<Rightarrow> u16" where
  "kind_code MapsReady = 1"
| "kind_code Ready = 2"
| "kind_code Exec = 3"
| "kind_code Shutdown = 4"
| "kind_code Exit = 5"
| "kind_code Error = 6"
| "kind_code Status = 7"

definition kind_from_raw :: "u16 \<Rightarrow> control_kind option" where
  "kind_from_raw raw =
     (if raw = 1 then Some MapsReady else if raw = 2 then Some Ready else if raw = 3 then Some Exec
      else if raw = 4 then Some Shutdown else if raw = 5 then Some Exit else if raw = 6 then Some Error
      else if raw = 7 then Some Status else None)"

record control_message =
  msg_kind :: control_kind
  request_id :: u64
  msg_payload :: bytes

datatype control_error = PayloadTooLarge | InvalidHeader | UnsupportedVersion | UnknownKind | InvalidPayloadLength

text \<open>\<open>to_le_bytes\<close> and \<open>from_le_bytes\<close> of a number of \<open>n\<close> bytes.\<close>

definition to_le :: "nat \<Rightarrow> 'w::len word \<Rightarrow> bytes" where
  "to_le n w = rev (to_be n (unat w))"

definition from_le :: "bytes \<Rightarrow> 'w::len word" where
  "from_le bs = word_of_nat (be_nat (rev bs))"

definition control_encode :: "control_kind \<Rightarrow> u64 \<Rightarrow> bytes \<Rightarrow> control_error + bytes" where
  "control_encode k rid body =
     (if length body > MAX_PAYLOAD then Inl PayloadTooLarge
      else Inr (MAGIC @ to_le 2 VERSION @ to_le 2 (kind_code k) @ to_le 4 (word_of_nat (length body) :: u32) @ to_le 8 rid @ body))"

definition control_decode :: "bytes \<Rightarrow> control_error + control_message" where
  "control_decode bs =
     (if length bs < CONTROL_HEADER_LEN \<or> take 4 bs \<noteq> MAGIC then Inl InvalidHeader
      else if (from_le (subslice 4 6 bs) :: u16) \<noteq> VERSION then Inl UnsupportedVersion
      else case kind_from_raw (from_le (subslice 6 8 bs)) of
        None \<Rightarrow> Inl UnknownKind
      | Some k \<Rightarrow>
          let len = unat (from_le (subslice 8 12 bs) :: u32)
          in if len > MAX_PAYLOAD \<or> CONTROL_HEADER_LEN + len \<noteq> length bs then Inl InvalidPayloadLength
             else Inr \<lparr>msg_kind = k, request_id = from_le (subslice 12 20 bs), msg_payload = drop CONTROL_HEADER_LEN bs\<rparr>)"

section \<open>Little-endian numbers\<close>

lemma length_to_le [simp]: "length (to_le n w) = n"
  by (simp add: to_le_def)

lemma from_to_le: "8 * n = LENGTH('w) \<Longrightarrow> from_le (to_le n (w :: 'w::len word)) = w"
proof -
  assume n: "8 * n = LENGTH('w)"
  have "unat w < 256 ^ n"
    using unsigned_less [of w, where 'a = nat] by (simp add: n [symmetric] power_mult)
  then show ?thesis
    by (simp add: from_le_def to_le_def be_nat_to_be)
qed

lemma be_nat_inj: "length xs = length ys \<Longrightarrow> be_nat xs = be_nat ys \<Longrightarrow> xs = ys"
proof (induction xs ys rule: list_induct2)
  case (Cons x xs y ys)
  let ?n = "256 ^ length ys :: nat"
  have b: "be_nat xs < ?n" "be_nat ys < ?n"
    using be_nat_bound [of xs] be_nat_bound [of ys] Cons.hyps by simp_all
  have e: "unat x * ?n + be_nat xs = unat y * ?n + be_nat ys"
    using Cons.prems Cons.hyps by simp
  have "(unat x * ?n + be_nat xs) div ?n = unat x" "(unat y * ?n + be_nat ys) div ?n = unat y"
    using b by simp_all
  then have "unat x = unat y"
    using e by simp
  then show ?case
    using e Cons.IH by (simp add: word_unat_eq_iff)
qed simp

lemma to_from_le:
  assumes "8 * length bs = LENGTH('w)"
  shows "to_le (length bs) (from_le bs :: 'w::len word) = bs"
proof -
  have "be_nat (rev bs) < 256 ^ length bs"
    using be_nat_bound [of "rev bs"] by simp
  then have u: "unat (from_le bs :: 'w word) = be_nat (rev bs)"
    by (simp add: from_le_def unat_of_nat assms [symmetric] power_mult)
  have "to_be (length bs) (be_nat (rev bs)) = rev bs"
    using be_nat_bound [of "rev bs"] by (intro be_nat_inj) (simp_all add: be_nat_to_be)
  then show ?thesis
    by (simp add: to_le_def u)
qed

lemma le_field:
  assumes "a \<le> b" "b \<le> length bs" "8 * (b - a) = LENGTH('w)"
  shows "to_le (b - a) (from_le (subslice a b bs) :: 'w::len word) = subslice a b bs"
  using to_from_le [of "subslice a b bs", where 'w = 'w] assms by (simp add: subslice_def)

lemma subslice_rest: "a \<le> b \<Longrightarrow> subslice a b bs @ drop b bs = drop a bs"
  using append_take_drop_id [of "b - a" "drop a bs"] by (simp add: subslice_def)

lemma kind_from_raw_code: "kind_from_raw raw = Some k \<longleftrightarrow> raw = kind_code k"
  by (cases k) (auto simp: kind_from_raw_def)

section \<open>The codec\<close>

lemma decode_of_encode:
  assumes e: "control_encode (msg_kind m) (request_id m) (msg_payload m) = Inr bs"
  shows "control_decode bs = Inr m"
proof -
  from e have len: "length (msg_payload m) \<le> MAX_PAYLOAD" and bs: "bs = MAGIC @ to_le 2 VERSION @ to_le 2 (kind_code (msg_kind m)) @
      to_le 4 (word_of_nat (length (msg_payload m)) :: u32) @ to_le 8 (request_id m) @ msg_payload m"
    by (auto simp: control_encode_def split: if_splits)
  have "unat (word_of_nat (length (msg_payload m)) :: u32) = length (msg_payload m)"
    using len by (simp add: unat_of_nat MAX_PAYLOAD_def)
  then show ?thesis
    using len kind_from_raw_code [of "kind_code (msg_kind m)" "msg_kind m"]
    by (cases m) (simp add: bs control_decode_def MAGIC_def subslice_def CONTROL_HEADER_LEN_def from_to_le)
qed

lemma encode_of_decode:
  assumes d: "control_decode bs = Inr m"
  shows "control_encode (msg_kind m) (request_id m) (msg_payload m) = Inr bs"
proof -
  from d have len: "20 \<le> length bs" "take 4 bs = MAGIC" "(from_le (subslice 4 6 bs) :: u16) = VERSION"
    "from_le (subslice 6 8 bs) = kind_code (msg_kind m)" "request_id m = from_le (subslice 12 20 bs)" "msg_payload m = drop 20 bs"
    "unat (from_le (subslice 8 12 bs) :: u32) \<le> MAX_PAYLOAD" "length bs = 20 + unat (from_le (subslice 8 12 bs) :: u32)"
    by (auto simp: control_decode_def kind_from_raw_code CONTROL_HEADER_LEN_def Let_def split: if_splits option.splits)
  have parts: "to_le 2 VERSION = subslice 4 6 bs" "to_le 2 (kind_code (msg_kind m)) = subslice 6 8 bs"
    "to_le 8 (request_id m) = subslice 12 20 bs" "to_le 4 (from_le (subslice 8 12 bs) :: u32) = subslice 8 12 bs"
    using len(1) le_field [of 4 6 bs, where 'w = 16] le_field [of 6 8 bs, where 'w = 16]
      le_field [of 12 20 bs, where 'w = 64] le_field [of 8 12 bs, where 'w = 32]
    by (simp_all add: len(3-5))
  have "(word_of_nat (length (drop 20 bs)) :: u32) = from_le (subslice 8 12 bs)"
    using len(8) by simp
  moreover have "take 4 bs @ subslice 4 6 bs @ subslice 6 8 bs @ subslice 8 12 bs @ subslice 12 20 bs @ drop 20 bs = bs"
    by (simp add: subslice_rest)
  ultimately show ?thesis
    using len(2,6-8) parts by (simp add: control_encode_def)
qed

section \<open>Properties\<close>

text \<open>
  C36. The two sides of the control channel agree: decoding inverts encoding, and a byte string that decodes is the one
  and only encoding of the message it decodes to. So nothing but the messages of \<open>encode\<close> is accepted, and no
  message has two forms.
\<close>

theorem control_message_codec:
  "control_decode bs = Inr m \<longleftrightarrow> control_encode (msg_kind m) (request_id m) (msg_payload m) = Inr bs"
  using decode_of_encode encode_of_decode by blast

end
