(* ===== verification/Reactor_Loop.thy ===== *)
theory Reactor_Loop
  imports Reactor_Udp Reactor_Order Control_Message
begin

text \<open>
  The event loop of a worker (\<open>Reactor::run\<close> of \<open>crates/dataplane/src/reactor.rs\<close>): a batch of epoll events is dispatched
  by token, then the deferred work follows. An error of a frame is dropped by \<open>handle_tap\<close>; any other error ends the
  loop. \<open>epoll_wait\<close> itself is not modelled: the batches are inputs, of any length.
\<close>

definition TAP_BUDGET :: nat where "TAP_BUDGET = 32"

section \<open>Frames from the namespace\<close>

text \<open>The result of a frame is dropped; what it did before an error stays.\<close>

definition attempt :: "unit act \<Rightarrow> unit act" where
  "attempt m s = map_option (\<lambda>(_, s'). (Inr (), s')) (m s)"

definition deliver :: "(bytes \<Rightarrow> bytes) \<Rightarrow> rx_event \<Rightarrow> unit act" where
  "deliver base64 ev = andThen (gets r_config) (\<lambda>c.
     case ev of
       RxIgnored \<Rightarrow> ret ()
     | RxArp request \<Rightarrow>
         (case gateway_ipv4 c of None \<Rightarrow> ret () | Some gw \<Rightarrow> send_answer (\<lambda>c. arp_answer c gw request))
     | RxSolicitation mac ip \<Rightarrow>
         (case gateway_ipv6 c of None \<Rightarrow> ret () | Some gw \<Rightarrow> send_answer (\<lambda>c. solicitation_answer c gw mac ip))
     | RxUdp sender receiver message \<Rightarrow> handle_udp base64 sender receiver message
     | RxTcp key segment \<Rightarrow> handle_tcp base64 key segment)"

definition receive_frame :: "(bytes \<Rightarrow> bytes) \<Rightarrow> bytes \<Rightarrow> unit act" where
  "receive_frame base64 bs = andThen (gets (\<lambda>s. handle_frame (big_endian s) (r_config s) bs)) (\<lambda>r.
     case r of Inl e \<Rightarrow> raise e | Inr ev \<Rightarrow> deliver base64 ev)"

definition sys_tap_read :: "bytes io act" where
  "sys_tap_read = andThen (gets (\<lambda>s. tap_rx_capacity (r_config s) (mtu_frame_capacity (frames s)))) (\<lambda>n.
     andThen (call k_tap_read k_tap_read_update) (\<lambda>r. ret (map_io (take n) r)))"

fun tap_loop :: "(bytes \<Rightarrow> bytes) \<Rightarrow> nat \<Rightarrow> unit act" where
  "tap_loop base64 0 = ret ()"
| "tap_loop base64 (Suc n) = andThen (gets (\<lambda>s. pool_available (frame_pool (frames s)))) (\<lambda>available.
     if available = 0 then andThen (change (frames_update note_frame_pool_exhaustion)) (\<lambda>_. update_tap_interest)
     else andThen sys_tap_read (\<lambda>r.
       case r of
         Complete bs \<Rightarrow>
           if bs = [] then raise (Invariant ''TAP returned EOF'')
           else andThen (attempt (receive_frame base64 bs)) (\<lambda>_. tap_loop base64 n)
       | WouldBlock \<Rightarrow> ret ()
       | Failed \<Rightarrow> raise Io))"

definition handle_tap :: "(bytes \<Rightarrow> bytes) \<Rightarrow> unit act" where
  "handle_tap base64 = andThen (tap_loop base64 TAP_BUDGET) (\<lambda>_. flush_ack_refresh)"

section \<open>Timers and control messages\<close>

definition sys_timer_consume :: "unit act" where
  "sys_timer_consume = andThen (call k_timer k_timer_update) (\<lambda>r. case r of Failed \<Rightarrow> raise Io | _ \<Rightarrow> ret ())"

definition handle_timers :: "(bytes \<Rightarrow> bytes) \<Rightarrow> unit act" where
  "handle_timers base64 = andThen now (\<lambda>t.
     andThen (handle_dns_timers t) (\<lambda>_. andThen (handle_udp_timers base64 t) (\<lambda>_. handle_tcp_timers t)))"

definition send_packet :: "bytes \<Rightarrow> unit act" where
  "send_packet packet = andThen (must (call k_packet k_packet_update)) (\<lambda>n.
     andThen (change (kern_update (packet_log_update (\<lambda>l. l @ [take n packet])))) (\<lambda>_.
       if min n (length packet) \<noteq> length packet then raise Io else ret ()))"

text \<open>\<open>to_vec\<close> stands for \<open>serde_json::to_vec\<close> of the metrics.\<close>

definition handle_control :: "(reactor \<Rightarrow> bytes option) \<Rightarrow> unit act" where
  "handle_control to_vec = andThen (call k_control k_control_update) (\<lambda>r.
     case r of
       Complete bs \<Rightarrow>
         if bs = [] then change (shutting_down_update (\<lambda>_. True))
         else (case control_decode (take (MAX_PAYLOAD + 20) bs) of
           Inl _ \<Rightarrow> raise Io
         | Inr m \<Rightarrow>
             (case msg_kind m of
                Shutdown \<Rightarrow> change (shutting_down_update (\<lambda>_. True))
              | Status \<Rightarrow> andThen (gets to_vec) (\<lambda>body.
                  case body of
                    None \<Rightarrow> raise Io
                  | Some body \<Rightarrow>
                      (case control_encode Status (request_id m) body of
                         Inl _ \<Rightarrow> raise Io
                       | Inr response \<Rightarrow> send_packet response))
              | _ \<Rightarrow> ret ()))
     | WouldBlock \<Rightarrow> ret ()
     | Failed \<Rightarrow> raise Io)"

section \<open>The loop\<close>

type_synonym epoll_event = "u64 \<times> u32"

fun dispatch :: "(bytes \<Rightarrow> bytes) \<Rightarrow> (reactor \<Rightarrow> bytes option) \<Rightarrow> epoll_event \<Rightarrow> unit act" where
  "dispatch base64 to_vec (token, events) =
     (case token_decode token of
        Some (None, Tap, _) \<Rightarrow>
          andThen (only_if (events AND READABLE \<noteq> 0) (handle_tap base64)) (\<lambda>_.
            only_if (events AND WRITABLE \<noteq> 0) flush_tap_queue)
      | Some (None, Timer, _) \<Rightarrow> andThen sys_timer_consume (\<lambda>_. handle_timers base64)
      | Some (None, Control, _) \<Rightarrow> handle_control to_vec
      | Some (None, DnsUpstream, _) \<Rightarrow> handle_dns_upstream events
      | Some (Some fid, UpstreamSocket, _) \<Rightarrow> handle_socket fid events
      | Some (Some fid, UdpSocket, _) \<Rightarrow> handle_udp_socket fid events
      | Some (Some fid, SocksControl, _) \<Rightarrow> handle_socks_control fid events
      | Some (Some fid, SocksRelay, _) \<Rightarrow> handle_socks_relay fid events
      | _ \<Rightarrow> ret ())"

fun dispatch_all :: "(bytes \<Rightarrow> bytes) \<Rightarrow> (reactor \<Rightarrow> bytes option) \<Rightarrow> epoll_event list \<Rightarrow> unit act" where
  "dispatch_all base64 to_vec [] = ret ()"
| "dispatch_all base64 to_vec (e # es) = andThen (dispatch base64 to_vec e) (\<lambda>_. dispatch_all base64 to_vec es)"

fun close_each :: "flow_id list \<Rightarrow> unit act" where
  "close_each [] = ret ()"
| "close_each (fid # rest) = andThen (close_flow fid) (\<lambda>_. close_each rest)"

fun close_udp_each :: "flow_id list \<Rightarrow> unit act" where
  "close_udp_each [] = ret ()"
| "close_udp_each (fid # rest) = andThen (close_udp_flow fid) (\<lambda>_. close_udp_each rest)"

definition close_all :: "unit act" where
  "close_all =
     andThen (gets (\<lambda>s. active_ids (tcp_flows s))) (\<lambda>ids. andThen (close_each ids) (\<lambda>_.
     andThen (gets (\<lambda>s. active_ids (flows (forwarder (datagrams s))))) (\<lambda>ids. andThen (close_udp_each ids) (\<lambda>_.
     andThen (gets (\<lambda>s. active_ids (socks_associations (datagrams s)))) remove_associations))))"

definition run_round :: "(bytes \<Rightarrow> bytes) \<Rightarrow> (reactor \<Rightarrow> bytes option) \<Rightarrow> epoll_event list \<Rightarrow> unit act" where
  "run_round base64 to_vec batch =
     andThen (dispatch_all base64 to_vec batch) (\<lambda>_.
     andThen activate_socks_associations (\<lambda>_.
     andThen apply_pending_pressure (\<lambda>_.
     andThen cleanup_closed (\<lambda>_.
     andThen (gets shutting_down) (\<lambda>b. only_if b close_all)))))"

definition running :: "reactor \<Rightarrow> bool" where
  "running s \<longleftrightarrow> \<not> shutting_down s \<or> active_ids (tcp_flows s) \<noteq> [] \<or> active_flows (forwarder (datagrams s)) > 0"

text \<open>The loop for the batches that \<open>epoll_wait\<close> delivers; after the last one it waits.\<close>

fun run :: "(bytes \<Rightarrow> bytes) \<Rightarrow> (reactor \<Rightarrow> bytes option) \<Rightarrow> epoll_event list list \<Rightarrow> unit act" where
  "run base64 to_vec [] = ret ()"
| "run base64 to_vec (batch # rest) = andThen (gets running) (\<lambda>go_on.
     if \<not> go_on then ret ()
     else andThen (run_round base64 to_vec batch) (\<lambda>_. run base64 to_vec rest))"

section \<open>The invariant\<close>

lemma keeps_attempt:
  assumes "keeps_inv F [] [] m"
  shows "keeps_inv F [] [] (attempt m)"
  unfolding keeps_inv_def
proof (intro allI impI)
  fix s
  assume "rinv F [] s"
  then have "wp m (\<lambda>_. rinv F []) (rinv F []) s"
    using assms by (simp add: keeps_inv_def)
  then show "wp (attempt m) (\<lambda>_. rinv F []) (rinv F []) s"
    by (auto simp: wp_def attempt_def split: option.splits sum.splits)
qed

lemma keeps_arp:
  assumes "length gw = 4" "rx_ok (RxArp request)"
  shows "keeps_inv F [] [] (send_answer (\<lambda>c. arp_answer c gw request))"
proof (rule keeps_answer)
  fix c t fs
  assume c: "config_ok c" "frames_ok c t fs"
  obtain bs where "parse_arp_request bs = Inr request"
    using assms by auto
  then show "\<exists>r t'. arp_answer c gw request t = Some (r, t') \<and> (case r of Inl _ \<Rightarrow> frames_ok c t' fs | Inr f \<Rightarrow> frames_ok c t' (f # fs))"
    unfolding arp_answer_def using c assms(1) by (intro answer_frame_ok in_place_arp) (auto simp: config_ok_def)
qed

lemma keeps_solicitation:
  assumes "length gw = 16" "rx_ok (RxSolicitation mac ip)"
  shows "keeps_inv F [] [] (send_answer (\<lambda>c. solicitation_answer c gw mac ip))"
  unfolding solicitation_answer_def
  by (rule keeps_answer, rule answer_frame_ok, assumption+, rule in_place_advertisement)
    (use assms in \<open>auto simp: config_ok_def\<close>)

lemma keeps_deliver_event:
  assumes "rx_ok ev"
  shows "keeps_inv {} [] [] (deliver base64 ev)"
  unfolding deliver_def
  by (rule keeps_config, cases ev)
    (use assms in \<open>auto simp: config_ok_def split: option.split intro!: keeps_ret keeps_arp keeps_solicitation keeps_handle_udp keeps_handle_tcp\<close>)

lemma keeps_receive_frame: "keeps_inv {} [] [] (receive_frame base64 bs)"
  unfolding receive_frame_def
  by (rule keeps_gets_inv) (auto split: sum.split intro!: keeps_raise keeps_deliver_event handle_frame_ok)

lemma keeps_tap_loop: "keeps_inv {} [] [] (tap_loop base64 n)"
proof (induction n)
  case (Suc n)
  have read: "keeps_inv {} [] [] (andThen sys_tap_read k)" if "\<And>r. keeps_inv {} [] [] (k r)" for k
    unfolding sys_tap_read_def by (intro keeps keeps_gets_then that)
  show ?case
    unfolding tap_loop.simps
    by (intro keeps_gets_then keeps read keeps_seq [OF keeps_attempt [OF keeps_receive_frame]] Suc)
qed (simp add: keeps_ret)

lemma keeps_handle_tap: "keeps_inv {} [] [] (handle_tap base64)"
  unfolding handle_tap_def by (intro keeps_seq [OF keeps_tap_loop] keeps_flush_ack_refresh)

lemma until_handle_timers: "keeps_until {} (handle_timers base64)"
  unfolding handle_timers_def
  by (intro until_then [OF keeps_calls_last(1)] until_then [OF keeps_dns_timers] until_seq [OF until_udp_timers]
      until_keeps [OF keeps_handle_timers]) simp

lemma keeps_control: "keeps_inv {} [] [] (handle_control to_vec)"
  unfolding handle_control_def send_packet_def
  by (intro keeps keeps_gets_then) (auto split: control_kind.split intro!: keeps keeps_gets_then)

lemma until_dispatch: "keeps_until {} (dispatch base64 to_vec e)"
proof -
  have timer: "keeps_inv {} [] [] sys_timer_consume"
    unfolding sys_timer_consume_def by (intro keeps)
  have tap: "keeps_inv {} [] [] (andThen (only_if b (handle_tap base64)) (\<lambda>_. only_if b' flush_tap_queue))" for b b'
    by (intro keeps keeps_seq [OF keeps_handle_tap])
  show ?thesis
    using until_keeps [OF tap] until_then [OF timer until_handle_timers]
    by (cases e) (auto split: option.split resource.split intro: until_ret until_keeps [OF keeps_control] until_keeps [OF keeps_handle_dns_upstream]
        until_keeps [OF keeps_handle_socket] until_udp_socket until_keeps [OF keeps_handle_control] until_keeps [OF keeps_handle_relay])
qed

lemma until_dispatch_all: "keeps_until {} (dispatch_all base64 to_vec batch)"
  by (induction batch) (auto intro: until_ret until_seq [OF until_dispatch])

lemma until_close_all: "keeps_until {} close_all"
proof -
  have "keeps_inv {} [] [] (close_each ids)" for ids
    by (induction ids) (auto intro: keeps_ret keeps_seq [OF keeps_close_flow])
  moreover have "keeps_until {} (close_udp_each ids)" for ids
    by (induction ids) (auto intro: until_ret until_seq [OF until_close_udp])
  ultimately show ?thesis
    unfolding close_all_def by (auto intro!: until_gets until_then until_seq [where m = "close_udp_each _"] until_remove_associations)
qed

lemma until_round: "keeps_until {} (run_round base64 to_vec batch)"
  unfolding run_round_def only_if_def
  by (auto intro!: until_seq [OF until_dispatch_all] until_then [OF keeps_activate_socks] until_then [OF keeps_apply_pressure]
      until_then [OF keeps_cleanup] until_gets until_close_all until_ret)

lemma until_run: "keeps_until {} (run base64 to_vec batches)"
  by (induction batches) (auto intro!: until_gets until_ret until_seq [OF until_round])

end
