(* ===== verification/Reactor_Worker.thy ===== *)
theory Reactor_Worker
  imports Reactor_Loop
begin

text \<open>
  Runs of a worker: any sequence of events from the state of \<open>Reactor::new\<close>, with any answers of the kernel.
\<close>

section \<open>Runs of a worker\<close>

text \<open>
  The states between two handlers: each follows from the previous one by a handler, or by one of the steps that end a
  round, that returned \<open>Ok\<close>. The steps may come in any order, so the states of \<open>run\<close> are among them.
\<close>

datatype loop_step = Dispatch epoll_event | Activate | Pressure | Cleanup | CloseAll

fun step_action :: "(bytes \<Rightarrow> bytes) \<Rightarrow> (reactor \<Rightarrow> bytes option) \<Rightarrow> loop_step \<Rightarrow> unit act" where
  "step_action base64 to_vec (Dispatch e) = dispatch base64 to_vec e"
| "step_action base64 to_vec Activate = activate_socks_associations"
| "step_action base64 to_vec Pressure = apply_pending_pressure"
| "step_action base64 to_vec Cleanup = cleanup_closed"
| "step_action base64 to_vec CloseAll = close_all"

inductive worker_run :: "(bytes \<Rightarrow> bytes) \<Rightarrow> (reactor \<Rightarrow> bytes option) \<Rightarrow> reactor \<Rightarrow> bool" for base64 to_vec where
  worker_start: "config_ok c \<Longrightarrow> reactor_new c big tests start k = Some s \<Longrightarrow> worker_run base64 to_vec s"
| worker_step: "worker_run base64 to_vec s \<Longrightarrow> step_action base64 to_vec st s = Some (Inr (), s') \<Longrightarrow> worker_run base64 to_vec s'"

lemma until_step: "keeps_until {} (step_action base64 to_vec st)"
  by (cases st) (simp_all add: until_dispatch until_keeps keeps_activate_socks keeps_apply_pressure keeps_cleanup until_close_all)

lemma start_datagrams:
  assumes "udp_new m n = Some e" "table_with_capacity n' = Some t"
  shows "datagrams_ok c \<lparr>forwarder = e, udp_sockets = [], socks_associations = t, socks_by_key = []\<rparr>"
  using engine_new_ok [OF assms(1)] table_with_capacity_ok [OF assms(2)]
  by (simp add: datagrams_ok_def forwarder_ok_def indexed_def)

lemma start_resolver:
  "resolver_ok \<lparr>engine = with_query_timeout t, connection = DnsIdle, dns_write_buffer = [], dns_read_buffer = [], dns_last_activity = u\<rparr>"
  by (simp add: resolver_ok_def dns_wf_def dns_ok_def with_query_timeout_def)

lemma reactor_new_inv:
  assumes "config_ok c" "reactor_new c big tests start k = Some s"
  shows "rinv {} [] s"
proof -
  obtain capacity table gso_frames pool_frames udp assocs where new: "frame_capacity c = Some capacity"
      "table_with_capacity (max_tcp_flows c) = Some table"
      "r_config s = c" "tcp_flows s = table" "by_key s = []" "tap_queue s = []" "pending_socket_bytes s = 0"
      "retained_socket_bytes s = 0"
      "frames s = \<lparr>frame_pool = pool_new pool_frames capacity, gso_pool = pool_new gso_frames (gso_frame_capacity c),
         mtu_frame_capacity = capacity, frame_pool_exhaustions = 0, gso_pool_exhaustions = 0\<rparr>"
    and parts: "udp_new (max_udp_flows c) (max_udp_associations c) = Some udp"
      "table_with_capacity (max_udp_associations c) = Some assocs"
      "resolver s = \<lparr>engine = with_query_timeout (case dns_timeout tests of None \<Rightarrow> QUERY_TIMEOUT | Some t \<Rightarrow> t),
         connection = DnsIdle, dns_write_buffer = [], dns_read_buffer = [], dns_last_activity = start\<rparr>"
      "datagrams s = \<lparr>forwarder = udp, udp_sockets = [], socks_associations = assocs, socks_by_key = []\<rparr>"
    using assms(2) by (auto simp: reactor_new_def split: option.splits)
  have "tier_ok tr cap (pool_new n cap) []" for tr cap n
    using pool_run_ok [OF pool_start] by (fastforce simp: tier_ok_def pool_new_def fb_new_def fb_capacity_def)
  then show ?thesis
    using assms(1) new parts(3,4) start_resolver start_datagrams [OF parts(1,2)] table_with_capacity_ok [OF new(2)]
    by (simp add: rinv_def frames_ok_def)
qed

lemma worker_run_inv: "worker_run base64 to_vec s \<Longrightarrow> rinv {} [] s"
proof (induction rule: worker_run.induct)
  case (worker_step s st s')
  then have "wp (step_action base64 to_vec st) (\<lambda>_. rinv {} []) (after_error {}) s"
    using until_step by (simp add: keeps_until_def)
  then show ?case
    using worker_step.hyps(2) by (simp add: wp_def)
qed (rule reactor_new_inv)

lemma andThen_ok: "andThen m k s = Some (Inr y, s') \<longleftrightarrow> (\<exists>x t. m s = Some (Inr x, t) \<and> k x t = Some (Inr y, s'))"
  by (auto simp: andThen_def split: option.split sum.split)

lemma run_reachable:
  assumes "worker_run base64 to_vec s" "run base64 to_vec batches s = Some (Inr (), s')"
  shows "worker_run base64 to_vec s'"
proof -
  have all: "worker_run base64 to_vec t'"
    if "worker_run base64 to_vec t" "dispatch_all base64 to_vec batch t = Some (Inr (), t')" for batch t t'
    using that
  proof (induction batch arbitrary: t)
    case (Cons e batch)
    then show ?case
      using worker_step [of base64 to_vec t "Dispatch e"] by (auto simp: andThen_ok)
  qed (simp add: ret_def)
  have round: "worker_run base64 to_vec t'"
    if t: "worker_run base64 to_vec t" "run_round base64 to_vec batch t = Some (Inr (), t')" for batch t t'
  proof -
    obtain t1 t2 t3 t4 where steps: "dispatch_all base64 to_vec batch t = Some (Inr (), t1)"
        "step_action base64 to_vec Activate t1 = Some (Inr (), t2)" "step_action base64 to_vec Pressure t2 = Some (Inr (), t3)"
        "step_action base64 to_vec Cleanup t3 = Some (Inr (), t4)"
      and close: "only_if (shutting_down t4) close_all t4 = Some (Inr (), t')"
      using t(2) by (auto simp: run_round_def andThen_ok gets_def)
    then have "worker_run base64 to_vec t4"
      using all [OF t(1)] worker_step by blast
    then show ?thesis
      using close worker_step [of base64 to_vec t4 CloseAll t'] by (auto simp: only_if_def ret_def split: if_splits)
  qed
  show ?thesis
    using assms
  proof (induction batches arbitrary: s)
    case (Cons batch batches)
    then show ?case
      using round [OF Cons.prems(1), of batch] by (auto simp: andThen_ok gets_def ret_def split: if_splits)
  qed (simp add: ret_def)
qed

lemma owned_distinct:
  assumes "frames_ok c t fs"
  shows "distinct (map (\<lambda>f. (pf_tier f, pf_index f)) fs)"
proof -
  have "distinct (owned tr fs)" for tr
    using assms by (cases tr) (auto simp: frames_ok_def tier_ok_def)
  then have "distinct (map (\<lambda>f. (pf_tier f, pf_index f)) fs)"
  proof (induction fs)
    case (Cons f fs)
    have "distinct (owned tr fs)" for tr
      using Cons.prems [of tr] by (auto split: if_splits)
    moreover have "pf_index f \<notin> set (owned (pf_tier f) fs)"
      using Cons.prems [of "pf_tier f"] by simp
    ultimately show ?case
      using Cons.IH by (auto simp: owned_def)
  qed simp
  then show ?thesis .
qed

lemma rinv_frames_distinct:
  "rinv F [] s \<Longrightarrow> distinct (map (\<lambda>fr. (pf_tier (qf_frame fr), pf_index (qf_frame fr))) (tap_queue s))"
  using owned_distinct [of "r_config s" "frames s" "map qf_frame (tap_queue s)"] by (simp add: rinv_def comp_def)

lemma step_after:
  assumes "keeps_until {} m" "rinv {} [] s"
  shows "\<exists>r s'. m s = Some (r, s') \<and> (r = Inr () \<longrightarrow> rinv {} [] s')"
  using assms by (auto simp: keeps_until_def wp_def split: option.splits sum.splits)

text \<open>
  C1. A worker does not panic: from the state of \<open>Reactor::new\<close>, for every sequence of batches of epoll events and whatever
  the kernel answers to the system calls, the event loop returns, with \<open>Ok\<close> or an error. As long as no
  handler fails, the byte budgets of the configuration are respected, and the frames that wait for the TAP
  device have distinct pool slots, so no buffer is given out twice.
\<close>

theorem worker_never_panics:
  assumes "config_ok c" "reactor_new c big tests start k = Some s"
  shows "\<exists>r s'. run base64 to_vec batches s = Some (r, s') \<and> (r = Inr () \<longrightarrow>
    retained_socket_bytes s' \<le> max_retained_tcp_bytes (r_config s') \<and>
    pending_socket_bytes s' \<le> max_pending_tcp_bytes (r_config s') \<and>
    distinct (map (\<lambda>fr. (pf_tier (qf_frame fr), pf_index (qf_frame fr))) (tap_queue s')))"
proof -
  obtain r s' where "run base64 to_vec batches s = Some (r, s')" "r = Inr () \<longrightarrow> rinv {} [] s'"
    using step_after [OF until_run reactor_new_inv [OF assms]] by blast
  then show ?thesis
    using rinv_frames_distinct [of "{}" s'] by (auto simp: rinv_def)
qed

text \<open>
  C2. The buffers that a worker keeps for other parties are bounded in every reachable state: the two stream buffers of
  the resolver connection, the outstanding DNS queries, and for each SOCKS5 association the proxy answer and the
  datagrams that wait for the proxy, with their headers.
\<close>

theorem worker_buffers_bounded:
  assumes "worker_run base64 to_vec s"
  shows "length (dns_write_buffer (resolver s)) \<le> 64 * 1024 \<and> length (dns_read_buffer (resolver s)) \<le> 128 * 1024 \<and>
    hm_len (transactions (engine (resolver s))) \<le> MAX_TRANSACTIONS \<and>
    (\<forall>fid a. association_of fid s = Some a \<longrightarrow> length (sa_response a) \<le> 8 * 1024 \<and>
       sum_list (map (\<lambda>(_, message). length message + 22) (sa_pending a)) \<le> 64 * 1024)"
proof -
  have s: "rinv {} [] s"
    using worker_run_inv [OF assms] .
  then have "resolver_ok (resolver s)"
    by (simp add: rinv_def)
  moreover have "length (sa_response a) \<le> 8 * 1024 \<and> sum_list (map (\<lambda>(_, message). length message + 22) (sa_pending a)) \<le> 64 * 1024"
    if "association_of fid s = Some a" for fid a
    using rinv_association [OF s that] by (simp add: association_ok_def PROXY_RESPONSE_CAPACITY_def SOCKS_UDP_QUEUE_BYTES_def)
  ultimately show ?thesis
    by (auto simp: resolver_ok_def dns_wf_def dns_ok_def DNS_WRITE_BUFFER_LIMIT_def DNS_READ_BUFFER_LIMIT_def)
qed

text \<open>
  C3. The SOCKS5 associations of a reachable state are consistent: the index leads from each source to its association and
  back; an association that is ready or about to be has a relay socket; one with a handshake has a control
  connection; and sockets exist only when the upstream is a SOCKS5 proxy.
\<close>

theorem worker_associations_consistent:
  assumes "worker_run base64 to_vec s"
  shows "(\<forall>key fid. hm_get (socks_by_key (datagrams s)) key = Some fid \<longleftrightarrow>
      (\<exists>a. association_of fid s = Some a \<and> sa_key a = key)) \<and>
    (\<forall>fid a. association_of fid s = Some a \<longrightarrow>
      (sa_state a \<in> {SocksPendingActivation, SocksReady} \<longrightarrow> sa_relay a \<noteq> None) \<and>
      (sa_handshake a \<noteq> None \<longrightarrow> sa_control a \<noteq> None) \<and>
      (sa_control a \<noteq> None \<or> sa_relay a \<noteq> None \<longrightarrow> (\<exists>proxy cr. upstream_of (r_config s) = Proxy Socks5 proxy cr)))"
proof (intro conjI allI impI)
  have s: "rinv {} [] s"
    using worker_run_inv [OF assms] .
  show "hm_get (socks_by_key (datagrams s)) key = Some fid \<longleftrightarrow> (\<exists>a. association_of fid s = Some a \<and> sa_key a = key)" for key fid
    using s by (simp add: rinv_def datagrams_ok_def indexed_def association_of_def)
  show "sa_relay a \<noteq> None" if "association_of fid s = Some a" "sa_state a \<in> {SocksPendingActivation, SocksReady}" for fid a
    using that rinv_association [OF s that(1)] by (simp add: association_ok_def)
  show "sa_control a \<noteq> None" if "association_of fid s = Some a" "sa_handshake a \<noteq> None" for fid a
    using that rinv_association [OF s that(1)] by (auto simp: association_ok_def)
  show "\<exists>proxy cr. upstream_of (r_config s) = Proxy Socks5 proxy cr"
    if "association_of fid s = Some a" "sa_control a \<noteq> None \<or> sa_relay a \<noteq> None" for fid a
    using that rinv_association [OF s that(1)] by (auto simp: association_ok_def socks_upstream_def)
qed

text \<open>
  C6. The index of connections and the flow table agree in every reachable state of a worker: a key leads to a flow
  that is in the table, that is not waiting to be removed, and whose own addresses are the key; so two keys
  do not share a flow.
\<close>

theorem worker_index_consistent:
  assumes "worker_run base64 to_vec s" "hm_get (by_key s) key = Some fid"
  shows "fid \<notin> set (deferred (tcp_flows s)) \<and>
    (\<exists>e side. table_get (tcp_flows s) fid = Some e \<and> initiating (construction e) = Some side \<and>
       key = \<lparr>key_namespace = logical_peer side, key_target = local_endpoint side\<rparr>) \<and>
    (\<forall>key'. hm_get (by_key s) key' = Some fid \<longrightarrow> key' = key)"
proof -
  have s: "rinv {} [] s"
    using worker_run_inv [OF assms(1)] .
  then obtain e where e: "fid \<notin> set (deferred (tcp_flows s))" "table_get (tcp_flows s) fid = Some e" "entry_key e = key"
    using assms(2) unfolding rinv_def by blast
  then have "entry_ok e"
    using s unfolding rinv_def by blast
  then obtain side where "initiating (construction e) = Some side"
    by (auto simp: entry_ok_def)
  moreover have "key' = key" if "hm_get (by_key s) key' = Some fid" for key'
    using s e that unfolding rinv_def by fastforce
  ultimately show ?thesis
    using e by (auto simp: entry_key_def Let_def)
qed

text \<open>
  C7. Every flow entry of a reachable state is well formed: its construction is complete (both sides and the type are
  set), the two addresses of its key are of one family, its queue of waiting bytes keeps its own count and
  limit, and its proxy handshake is in a state from which it can go on.
\<close>

theorem worker_entries_well_formed:
  assumes "worker_run base64 to_vec s" "table_get (tcp_flows s) fid = Some e"
  shows "construction_ok (construction e) \<and> cstate (construction e) \<in> {Typed, Active} \<and>
    active_sides (construction e) \<noteq> None \<and> same_family (entry_key e) \<and> queue_ok (pending_socket e) \<and>
    (\<forall>h. entry_handshake e = Some h \<longrightarrow> handshake_ok h)"
proof -
  have e: "entry_ok e"
    using worker_run_inv [OF assms(1)] assms(2) unfolding rinv_def by blast
  then have "active_sides (construction e) \<noteq> None"
    by (cases rule: entry_sides) simp_all
  then show ?thesis
    using e by (simp add: entry_ok_def)
qed

section \<open>A worker at work\<close>

text \<open>A SYN for a new connection comes from the TAP device, and the worker starts to connect upstream.\<close>

definition no_tests :: test_counts where
  "no_tests = \<lparr>count_data = 0, count_retransmit = 0, count_syn_ack = 0, count_fin = 0, count_ack = 0, count_fin_ack = 0,
     count_suppress = 0, count_isn = None, dns_timeout = None\<rparr>"

definition syn_segment :: bytes where
  "syn_segment = [156, 64, 1, 187, 0, 0, 0, 5, 0, 0, 0, 0, 80, 2, 16, 0, 21, 165, 0, 0]"

definition syn_header :: bytes where
  "syn_header = [69, 0, 0, 40, 0, 0, 64, 0, 64, 6, 78, 147, 192, 0, 2, 2, 198, 51, 100, 7]"

definition syn_frame :: bytes where
  "syn_frame = [1, 0, 0, 0, 0, 0, 0, 0, 0, 0] @ [2, 0x79, 0x61, 0x79, 0x61, 1, 2, 0x79, 0x61, 0x79, 0x61, 2, 8, 0] @
     syn_header @ syn_segment"

definition sample_syn :: tcp_segment where
  "sample_syn = \<lparr>seg_bytes = syn_segment, seg_header_len = 20\<rparr>"

lemma syn_header_sum: "checksum syn_header = 0"
  by (simp add: checksum_def syn_header_def u16_from_be_def csum_fold_def fold_sum.simps [of "0x2fffd"] fold_sum.simps [of "0xffff"])

lemma syn_packet: "ipv4_parse (syn_header @ syn_segment) = Inr \<lparr>v4_bytes = syn_header @ syn_segment, v4_header_len = 20, v4_total_len = 40\<rparr>"
  using syn_header_sum by (simp add: ipv4_parse_def Let_def syn_header_def syn_segment_def be16_at_def u16_from_be_def)

lemma syn_body: "split_rx_vnet False 10 syn_frame = Inr (drop 10 syn_frame, False, False)"
  by (simp add: split_rx_vnet_def vnet_parse_def VNET_HEADER_LEN_def syn_frame_def FLAG_NEEDS_CSUM_def FLAG_DATA_VALID_def GSO_NONE_def)

lemma syn_ethernet:
  "eth_parse (drop 10 syn_frame) = Inr \<lparr>eth_bytes = drop 10 syn_frame\<rparr>" "eth_ether_type \<lparr>eth_bytes = drop 10 syn_frame\<rparr> = Ipv4"
  "eth_payload \<lparr>eth_bytes = drop 10 syn_frame\<rparr> = syn_header @ syn_segment"
  by (simp_all add: eth_parse_def ETHERNET_HEADER_LEN_def eth_ether_type_def eth_payload_def syn_frame_def be16_at_def u16_from_be_def ether_type_from_raw_def)

lemma syn_parsed: "tcp_parse syn_segment = Inr sample_syn" "tcp_source_port sample_syn = 40000" "tcp_destination_port sample_syn = 443"
  by (simp_all add: tcp_parse_def syn_segment_def TCP_MIN_HEADER_LEN_def sample_syn_def tcp_source_port_def tcp_destination_port_def be16_at_def u16_from_be_def)

lemma syn_addresses:
  "ipv4_source \<lparr>v4_bytes = syn_header @ syn_segment, v4_header_len = 20, v4_total_len = 40\<rparr> = [192, 0, 2, 2]"
  "ipv4_destination \<lparr>v4_bytes = syn_header @ syn_segment, v4_header_len = 20, v4_total_len = 40\<rparr> = [198, 51, 100, 7]"
  "ipv4_protocol \<lparr>v4_bytes = syn_header @ syn_segment, v4_header_len = 20, v4_total_len = 40\<rparr> = 6"
  "ipv4_payload \<lparr>v4_bytes = syn_header @ syn_segment, v4_header_len = 20, v4_total_len = 40\<rparr> = syn_segment"
  by (simp_all add: ipv4_source_def ipv4_destination_def ipv4_protocol_def ipv4_payload_def syn_header_def subslice_def syn_segment_def)

lemma syn_arrives: "handle_frame False sample_config syn_frame = Inr (RxTcp Reactor_Frames.sample_key sample_syn)"
proof -
  have "vnet_len_of sample_config = 10"
    by (simp add: vnet_len_of_def sample_config_def VNET_HEADER_LEN_def)
  then show ?thesis
    by (simp add: handle_frame_def syn_body syn_ethernet handle_ipv4_def syn_packet syn_addresses syn_parsed tcp_parse_ipv4_def
        IPPROTO_UDP_def IPPROTO_TCP_def Reactor_Frames.sample_key_def)
qed

definition connect_kernel :: kernel where
  "connect_kernel = sample_kernel\<lparr>k_tap_read := [Complete syn_frame], k_connect := [Complete (7, False)],
     k_local := [Complete (AddrV4 [10, 0, 0, 1] 50000)], k_sizes := [Complete (65536, 65536)], k_random := [Complete 9],
     k_poll := [Complete False]\<rparr>"

abbreviation "tap_readable \<equiv> (token_global Tap, READABLE) :: epoll_event"

lemma sample_config_ok: "config_ok sample_config"
  by (simp add: config_ok_def sample_config_def)

lemma sample_start:
  "\<exists>s. reactor_new sample_config False no_tests 0 connect_kernel = Some s \<and> kern s = connect_kernel \<and> r_config s = sample_config \<and>
     table_with_capacity 4 = Some (tcp_flows s) \<and> by_key s = [] \<and> test_local_isn s = None \<and> big_endian s = False \<and>
     pool_available (frame_pool (frames s)) > 0 \<and> ack_refresh_queue s = [] \<and> 74 \<le> mtu_frame_capacity (frames s)"
  by (simp add: reactor_new_def udp_new_def frame_capacity_def checked_add_usize_def sample_config_def table_with_capacity_def SLOT_BITS_def
      gso_pool_frames_def frame_pool_frames_def vnet_len_of_def VNET_HEADER_LEN_def ETHERNET_HEADER_LEN_def no_tests_def Let_def
      pool_new_def pool_available_def)

text \<open>A batch with one readable event and one frame to read.\<close>

lemma tap_token: "token_decode (token_global Tap) = Some (None, Tap, False)"
  by code_simp

lemma one_frame:
  assumes "k_tap_read (kern s) = [Complete bs]" "bs \<noteq> []" "length bs \<le> tap_rx_capacity (r_config s) (mtu_frame_capacity (frames s))"
    and "pool_available (frame_pool (frames s)) > 0"
    and "receive_frame base64 bs (s\<lparr>kern := (kern s)\<lparr>k_tap_read := []\<rparr>\<rparr>) = Some (r, s')"
    and "k_tap_read (kern s') = []" "pool_available (frame_pool (frames s')) > 0" "ack_refresh_queue s' = []"
  shows "dispatch base64 to_vec tap_readable s = Some (Inr (), s')"
proof -
  have loop: "tap_loop base64 (Suc n) s' = Some (Inr (), s')" for n
    using assms(6,7) by (simp add: action_evaluation sys_tap_read_def)
  have read: "k_tap_read_update tl (kern s) = (kern s)\<lparr>k_tap_read := []\<rparr>"
    using assms(1) by (cases "kern s") simp
  have "tap_loop base64 (Suc (Suc n)) s = Some (Inr (), s')" for n
    using assms(1-5) loop [of n]
    by (simp only: tap_loop.simps(2) [of base64 "Suc n"]) (simp add: action_evaluation sys_tap_read_def attempt_def read del: tap_loop.simps)
  then have "tap_loop base64 TAP_BUDGET s = Some (Inr (), s')"
    by (simp add: TAP_BUDGET_def numeral_eq_Suc)
  then have "handle_tap base64 s = Some (Inr (), s')"
    using assms(8) by (simp add: handle_tap_def action_evaluation flush_ack_refresh_def)
  then show ?thesis
    by (simp add: tap_token action_evaluation only_if_def READABLE_def WRITABLE_def)
qed

lemma sample_connects:
  assumes "kern s = connect_kernel\<lparr>k_tap_read := []\<rparr>" "r_config s = sample_config" "table_with_capacity 4 = Some (tcp_flows s)"
    "by_key s = []" "test_local_isn s = None"
  shows "\<exists>s' e. handle_tcp base64 Reactor_Frames.sample_key sample_syn s = Some (Inr (), s') \<and>
    hm_get (by_key s') Reactor_Frames.sample_key = Some sample_fid \<and> table_get (tcp_flows s') sample_fid = Some e \<and>
    k_tap_read (kern s') = [] \<and> frames s' = frames s \<and> ack_refresh_queue s' = ack_refresh_queue s"
proof -
  have flags: "fl_syn (tcp_flags_of sample_syn)" "\<not> fl_ack (tcp_flags_of sample_syn)" "\<not> fl_rst (tcp_flags_of sample_syn)"
    by (simp_all add: tcp_flags_of_def sample_syn_def syn_segment_def)
  have route: "logical_target sample_config (key_target Reactor_Frames.sample_key) = Some (key_target Reactor_Frames.sample_key)"
    "route_target sample_config (key_target Reactor_Frames.sample_key) = (HostSocket, key_target Reactor_Frames.sample_key)"
    "proxy_handshake base64 sample_config (key_target Reactor_Frames.sample_key) = Some None"
    by (simp_all add: logical_target_def dns_proxy_tcp_intercepts_def route_target_def proxy_handshake_def sample_config_def Reactor_Frames.sample_key_def)
  obtain m where m: "default_mss sample_config (key_target Reactor_Frames.sample_key) = Some m"
    using default_mss_defined [of sample_config "key_target Reactor_Frames.sample_key"] sample_config_ok by (auto simp: config_ok_def)
  obtain ps ls where w: "window_shifts (tcp_window_scale sample_syn) = (ps, ls)"
    by fastforce
  have t: "tcp_flows s = \<lparr>slots = replicate 4 \<lparr>slot_generation = 1, slot_value = None, retired = False\<rparr>,
      free = [3, 2, 1, 0], deferred = []\<rparr>"
    using assms(3) by (simp add: table_with_capacity_def SLOT_BITS_def upt_rec)
  have tok: "token_flow sample_fid UpstreamSocket True \<noteq> None"
    by (simp add: token_flow_def)
  then obtain k where k: "token_flow sample_fid UpstreamSocket True = Some k"
    by blast
  show ?thesis
    using assms(1,2,4,5)
    by (simp add: handle_tcp_def handle_new_tcp_def flags route m w t k action_evaluation connect_kernel_def sample_kernel_def
        Let_def expect_def flow_construction_for_def construction_defs table_insert_def register_flow_def only_if_def
        table_get_def table_modify_def new_entry_def sys_epoll_def)
qed

lemma sample_worker:
  "\<exists>s e. worker_run base64 to_vec s \<and> hm_get (by_key s) Reactor_Frames.sample_key = Some sample_fid \<and> table_get (tcp_flows s) sample_fid = Some e"
proof -
  obtain s where s: "reactor_new sample_config False no_tests 0 connect_kernel = Some s" "kern s = connect_kernel"
    "r_config s = sample_config" "table_with_capacity 4 = Some (tcp_flows s)" "by_key s = []" "test_local_isn s = None" "big_endian s = False"
    "pool_available (frame_pool (frames s)) > 0" "ack_refresh_queue s = []" "74 \<le> mtu_frame_capacity (frames s)"
    using sample_start by blast
  let ?s = "s\<lparr>kern := (kern s)\<lparr>k_tap_read := []\<rparr>\<rparr>"
  obtain s' e where s': "handle_tcp base64 Reactor_Frames.sample_key sample_syn ?s = Some (Inr (), s')"
    "hm_get (by_key s') Reactor_Frames.sample_key = Some sample_fid" "table_get (tcp_flows s') sample_fid = Some e"
    "k_tap_read (kern s') = []" "frames s' = frames s" "ack_refresh_queue s' = []"
    using sample_connects [of ?s base64] s by auto
  have "receive_frame base64 syn_frame ?s = Some (Inr (), s')"
    using s s'(1) by (simp add: receive_frame_def deliver_def action_evaluation syn_arrives)
  moreover have "k_tap_read (kern s) = [Complete syn_frame]" "syn_frame \<noteq> []" "length syn_frame = 64"
    using s(2) by (simp_all add: connect_kernel_def syn_frame_def syn_header_def syn_segment_def)
  moreover have "74 \<le> tap_rx_capacity (r_config s) (mtu_frame_capacity (frames s))"
    using s by (simp add: tap_rx_capacity_def gso_frame_capacity_def sample_config_def GSO_MAX_L3_BYTES_def)
  ultimately have "dispatch base64 to_vec tap_readable s = Some (Inr (), s')"
    using s s' by (intro one_frame [of s syn_frame base64 "Inr ()"]) auto
  then have "worker_run base64 to_vec s'"
    using worker_step [OF worker_start [OF sample_config_ok s(1)], where st = "Dispatch tap_readable"] by simp
  then show ?thesis
    using s' by blast
qed

theorem worker_never_panics_witness:
  "\<exists>s. reactor_new sample_config False no_tests 0 connect_kernel = Some s \<and>
     (\<exists>r s'. run id (\<lambda>_. None) [[tap_readable], [(token_global Timer, READABLE)]] s = Some (r, s') \<and>
        (r = Inr () \<longrightarrow> pending_socket_bytes s' \<le> max_pending_tcp_bytes (r_config s')))"
proof -
  obtain s where s: "reactor_new sample_config False no_tests 0 connect_kernel = Some s"
    using sample_start by blast
  then show ?thesis
    using worker_never_panics [OF sample_config_ok s] by blast
qed

theorem worker_index_consistent_witness:
  "\<exists>s e side. worker_run id (\<lambda>_. None) s \<and> hm_get (by_key s) Reactor_Frames.sample_key = Some sample_fid \<and> table_get (tcp_flows s) sample_fid = Some e \<and>
     initiating (construction e) = Some side \<and>
     Reactor_Frames.sample_key = \<lparr>key_namespace = logical_peer side, key_target = local_endpoint side\<rparr>"
proof -
  obtain s e where s: "worker_run id (\<lambda>_. None) s" "hm_get (by_key s) Reactor_Frames.sample_key = Some sample_fid"
    "table_get (tcp_flows s) sample_fid = Some e"
    using sample_worker by blast
  then show ?thesis
    using worker_index_consistent [OF s(1,2)] by (auto intro!: exI [of _ s])
qed

theorem worker_entries_well_formed_witness:
  "\<exists>s e. worker_run id (\<lambda>_. None) s \<and> table_get (tcp_flows s) sample_fid = Some e \<and> queue_ok (pending_socket e)"
proof -
  obtain s e where s: "worker_run id (\<lambda>_. None) s" "table_get (tcp_flows s) sample_fid = Some e"
    using sample_worker by blast
  then show ?thesis
    using worker_entries_well_formed [OF s] by blast
qed

text \<open>A datagram for a worker behind a SOCKS5 proxy: the association is created, its first attempt fails, and the datagram waits.\<close>

definition socks_config :: reactor_config where
  "socks_config = sample_config\<lparr>upstream_of := Proxy Socks5 (AddrV4 [127, 0, 0, 1] 1080) None\<rparr>"

definition udp_packet :: bytes where
  "udp_packet = [69, 0, 0, 31, 0, 0, 64, 0, 64, 17, 78, 145, 192, 0, 2, 2, 198, 51, 100, 7, 156, 64, 0, 123, 0, 11, 0, 0, 1, 2, 3]"

definition udp_frame :: bytes where
  "udp_frame = [1, 0, 0, 0, 0, 0, 0, 0, 0, 0] @ [2, 0x79, 0x61, 0x79, 0x61, 1, 2, 0x79, 0x61, 0x79, 0x61, 2, 8, 0] @ udp_packet"

definition socks_kernel :: kernel where
  "socks_kernel = sample_kernel\<lparr>k_tap_read := [Complete udp_frame], k_jitter := [Complete 5]\<rparr>"

lemma udp_header_sum: "checksum (take 20 udp_packet) = 0"
  by (simp add: checksum_def udp_packet_def u16_from_be_def csum_fold_def fold_sum.simps [of "0x2fffd"] fold_sum.simps [of "0xffff"])

lemma udp_arrives: "handle_frame False socks_config udp_frame =
  Inr (RxUdp (AddrV4 [192, 0, 2, 2] 40000) (AddrV4 [198, 51, 100, 7] 123) [1, 2, 3])"
proof -
  have p: "ipv4_parse udp_packet = Inr \<lparr>v4_bytes = udp_packet, v4_header_len = 20, v4_total_len = 31\<rparr>"
    using udp_header_sum by (simp add: ipv4_parse_def Let_def udp_packet_def be16_at_def u16_from_be_def)
  have d: "udp_parse (drop 20 udp_packet) = Inr \<lparr>dg_bytes = drop 20 udp_packet\<rparr>"
    by (simp add: udp_parse_def udp_packet_def UDP_HEADER_LEN_def be16_at_def u16_from_be_def)
  have v: "split_rx_vnet False (vnet_len_of socks_config) udp_frame = Inr (drop 10 udp_frame, False, False)"
    by (simp add: split_rx_vnet_def vnet_parse_def vnet_len_of_def socks_config_def sample_config_def VNET_HEADER_LEN_def udp_frame_def
        FLAG_NEEDS_CSUM_def FLAG_DATA_VALID_def GSO_NONE_def)
  have e: "eth_parse (drop 10 udp_frame) = Inr \<lparr>eth_bytes = drop 10 udp_frame\<rparr>" "eth_ether_type \<lparr>eth_bytes = drop 10 udp_frame\<rparr> = Ipv4"
    "eth_payload \<lparr>eth_bytes = drop 10 udp_frame\<rparr> = udp_packet"
    by (simp_all add: eth_parse_def ETHERNET_HEADER_LEN_def eth_ether_type_def eth_payload_def udp_frame_def be16_at_def u16_from_be_def ether_type_from_raw_def)
  have a: "ipv4_source \<lparr>v4_bytes = udp_packet, v4_header_len = 20, v4_total_len = 31\<rparr> = [192, 0, 2, 2]"
    "ipv4_destination \<lparr>v4_bytes = udp_packet, v4_header_len = 20, v4_total_len = 31\<rparr> = [198, 51, 100, 7]"
    "ipv4_protocol \<lparr>v4_bytes = udp_packet, v4_header_len = 20, v4_total_len = 31\<rparr> = 17"
    "ipv4_payload \<lparr>v4_bytes = udp_packet, v4_header_len = 20, v4_total_len = 31\<rparr> = drop 20 udp_packet"
    by (simp_all add: ipv4_source_def ipv4_destination_def ipv4_protocol_def ipv4_payload_def subslice_def udp_packet_def)
  have u: "udp_source_port \<lparr>dg_bytes = drop 20 udp_packet\<rparr> = 40000" "udp_destination_port \<lparr>dg_bytes = drop 20 udp_packet\<rparr> = 123"
    "udp_payload \<lparr>dg_bytes = drop 20 udp_packet\<rparr> = [1, 2, 3]"
    by (simp_all add: udp_source_port_def udp_destination_port_def udp_payload_def udp_packet_def UDP_HEADER_LEN_def be16_at_def u16_from_be_def)
  show ?thesis
    by (simp add: handle_frame_def v e handle_ipv4_def p a u d udp_parse_ipv4_def IPPROTO_UDP_def)
qed

lemma socks_config_ok: "config_ok socks_config"
  using sample_config_ok by (simp add: socks_config_def config_ok_def)

lemma socks_start:
  "\<exists>s udp assocs. reactor_new socks_config False no_tests 0 socks_kernel = Some s \<and> kern s = socks_kernel \<and> r_config s = socks_config \<and>
     udp_new 4 4 = Some udp \<and> table_with_capacity 4 = Some assocs \<and>
     datagrams s = \<lparr>forwarder = udp, udp_sockets = [], socks_associations = assocs, socks_by_key = []\<rparr> \<and> big_endian s = False \<and>
     pool_available (frame_pool (frames s)) > 0 \<and> ack_refresh_queue s = [] \<and> 74 \<le> mtu_frame_capacity (frames s)"
  by (simp add: reactor_new_def udp_new_def frame_capacity_def checked_add_usize_def socks_config_def sample_config_def table_with_capacity_def SLOT_BITS_def
      gso_pool_frames_def frame_pool_frames_def vnet_len_of_def VNET_HEADER_LEN_def ETHERNET_HEADER_LEN_def no_tests_def Let_def
      pool_new_def pool_available_def)

abbreviation "socks_fid \<equiv> \<lparr>slot = 0, generation = 1\<rparr> :: flow_id"

lemma socks_waits:
  assumes "kern s = socks_kernel\<lparr>k_tap_read := []\<rparr>" "r_config s = socks_config" "udp_new 4 4 = Some udp" "table_with_capacity 4 = Some assocs"
    "datagrams s = \<lparr>forwarder = udp, udp_sockets = [], socks_associations = assocs, socks_by_key = []\<rparr>"
  shows "\<exists>s' a. handle_udp base64 (AddrV4 [192, 0, 2, 2] 40000) (AddrV4 [198, 51, 100, 7] 123) [1, 2, 3] s = Some (Inr (), s') \<and>
    association_of socks_fid s' = Some a \<and> sa_pending a = [(AddrV4 [198, 51, 100, 7] 123, [1, 2, 3])] \<and>
    k_tap_read (kern s') = [] \<and> frames s' = frames s \<and> ack_refresh_queue s' = ack_refresh_queue s"
proof -
  have t: "assocs = \<lparr>slots = replicate 4 \<lparr>slot_generation = 1, slot_value = None, retired = False\<rparr>, free = [3, 2, 1, 0], deferred = []\<rparr>"
    "udp = \<lparr>flows = \<lparr>slots = replicate 4 \<lparr>slot_generation = 1, slot_value = None, retired = False\<rparr>, free = [3, 2, 1, 0], deferred = []\<rparr>,
       by_key = [], associations = [], max_flows = 4, max_associations = 4\<rparr>"
    using assms(3,4) by (auto simp: udp_new_def table_with_capacity_def SLOT_BITS_def upt_rec)
  have c: "dns_proxy_tcp_intercepts socks_config r = False" "dns_proxy_udp_intercepts socks_config r = False" "udp_enabled socks_config"
    "upstream_of socks_config = Proxy Socks5 (AddrV4 [127, 0, 0, 1] 1080) None" for r
    by (simp_all add: dns_proxy_tcp_intercepts_def dns_proxy_udp_intercepts_def socks_config_def sample_config_def)
  show ?thesis
    using assms(1,2,5)
    by (simp add: handle_udp_def c handle_forward_udp_def handle_socks_udp_def handle_socks_udp_routed_def accept_routed_def accept_new_def
        t action_evaluation Let_def expect_def now_def socks_kernel_def sample_kernel_def hm_len_def hm_get_def hm_insert_def table_insert_def association_def
        association_for_def new_association_def rebuild_socks_association_def socks_resources_def schedule_socks_rebuild_def
        association_of_def alter_association_def altered_def table_get_def table_modify_def only_if_def queue_socks_datagram_def SOCKS_UDP_QUEUE_BYTES_def)
qed

lemma socks_worker:
  "\<exists>s a. worker_run base64 to_vec s \<and> association_of socks_fid s = Some a \<and> sa_pending a = [(AddrV4 [198, 51, 100, 7] 123, [1, 2, 3])]"
proof -
  obtain s udp assocs where s: "reactor_new socks_config False no_tests 0 socks_kernel = Some s" "kern s = socks_kernel"
    "r_config s = socks_config" "udp_new 4 4 = Some udp" "table_with_capacity 4 = Some assocs"
    "datagrams s = \<lparr>forwarder = udp, udp_sockets = [], socks_associations = assocs, socks_by_key = []\<rparr>" "big_endian s = False"
    "pool_available (frame_pool (frames s)) > 0" "ack_refresh_queue s = []" "74 \<le> mtu_frame_capacity (frames s)"
    using socks_start by blast
  let ?s = "s\<lparr>kern := (kern s)\<lparr>k_tap_read := []\<rparr>\<rparr>"
  obtain s' a where s': "handle_udp base64 (AddrV4 [192, 0, 2, 2] 40000) (AddrV4 [198, 51, 100, 7] 123) [1, 2, 3] ?s = Some (Inr (), s')"
    "association_of socks_fid s' = Some a" "sa_pending a = [(AddrV4 [198, 51, 100, 7] 123, [1, 2, 3])]"
    "k_tap_read (kern s') = []" "frames s' = frames s" "ack_refresh_queue s' = []"
    using socks_waits [of ?s udp assocs base64] s by auto
  have "receive_frame base64 udp_frame ?s = Some (Inr (), s')"
    using s s'(1) by (simp add: receive_frame_def deliver_def action_evaluation udp_arrives)
  moreover have "k_tap_read (kern s) = [Complete udp_frame]" "udp_frame \<noteq> []" "length udp_frame = 55"
    using s(2) by (simp_all add: socks_kernel_def udp_frame_def udp_packet_def)
  moreover have "74 \<le> tap_rx_capacity (r_config s) (mtu_frame_capacity (frames s))"
    using s by (simp add: tap_rx_capacity_def gso_frame_capacity_def socks_config_def sample_config_def GSO_MAX_L3_BYTES_def)
  ultimately have "dispatch base64 to_vec tap_readable s = Some (Inr (), s')"
    using s s' by (intro one_frame [of s udp_frame base64 "Inr ()"]) auto
  then have "worker_run base64 to_vec s'"
    using worker_step [OF worker_start [OF socks_config_ok s(1)], where st = "Dispatch tap_readable"] by simp
  then show ?thesis
    using s' by blast
qed

theorem worker_buffers_bounded_witness:
  "\<exists>s a. worker_run id (\<lambda>_. None) s \<and> association_of socks_fid s = Some a \<and> sa_pending a \<noteq> [] \<and>
     sum_list (map (\<lambda>(_, message). length message + 22) (sa_pending a)) \<le> 64 * 1024"
proof -
  obtain s a where s: "worker_run id (\<lambda>_. None) s" "association_of socks_fid s = Some a"
    "sa_pending a = [(AddrV4 [198, 51, 100, 7] 123, [1, 2, 3])]"
    using socks_worker by blast
  then show ?thesis
    using worker_buffers_bounded [OF s(1)] by (metis list.distinct(1))
qed

theorem worker_associations_consistent_witness:
  "\<exists>s a. worker_run id (\<lambda>_. None) s \<and> association_of socks_fid s = Some a \<and>
     hm_get (socks_by_key (datagrams s)) (sa_key a) = Some socks_fid"
proof -
  obtain s a where s: "worker_run id (\<lambda>_. None) s" "association_of socks_fid s = Some a"
    using socks_worker by blast
  then show ?thesis
    using worker_associations_consistent [OF s(1)] by blast
qed

end
