(* ===== verification/Flow_Run.thy ===== *)
theory Flow_Run
  imports Flow
begin

text \<open>
  What holds of a TCP flow over the sequences of operations that the data plane performs on it
  (\<open>crates/tcp-adapter/src/flow.rs\<close>, driven by \<open>crates/dataplane/src/reactor.rs\<close>). The sequence
  numbers of the flow are related to unbounded stream positions kept in a \<open>history\<close> beside the flow.
\<close>

section \<open>Runs of a flow\<close>

text \<open>
  The history of a flow, counted in unbounded stream positions: the payload bytes and FINs accepted
  from the namespace, and the positions of the local stream (SYN, payload, FIN) that have been
  acknowledged and sent. \<open>misjudged\<close> records whether the flow has ever accepted, with nothing in
  flight, the acknowledgment number opposite to \<open>local_unacked\<close>: the serial comparison of 32-bit
  numbers takes it to be both after \<open>local_unacked\<close> and at or before \<open>local_next\<close>, so the flow then
  counts \<open>2 ^ 31\<close> positions as acknowledged that were never sent.
\<close>

record history =
  received :: nat
  fins :: nat
  acked :: nat
  sent :: nat
  misjudged :: bool

definition track_receive :: "receive_disposition \<Rightarrow> flow \<Rightarrow> flow \<Rightarrow> history \<Rightarrow> history" where
  "track_receive d f f' h =
     (let h1 = h\<lparr>acked := acked h + unat (local_unacked f' - local_unacked f),
        misjudged := (misjudged h \<or>
          local_unacked f = local_next f \<and> local_unacked f' = local_unacked f + 2 ^ 31)\<rparr>
      in case d of InOrder len fin \<Rightarrow>
           h1\<lparr>received := received h + len, fins := fins h + of_bool fin\<rparr>
         | _ \<Rightarrow> h1)"

definition max_peer_window :: nat where
  "max_peer_window = 65535 * 2 ^ 14"

text \<open>
  The runs are the sequences of operations the data plane performs on a flow, with any segment from
  the namespace at any time. What they take from the data plane: the peer's window shift is at most
  14 (larger ones are cut down when the flow is created), the socket connects once, only payload that
  was received is submitted upstream, and data is sent to the namespace only once the socket is
  connected and in the two states in which the data plane reads the socket.
\<close>

inductive flow_run :: "flow \<Rightarrow> history \<Rightarrow> bool" where
  run_new: "unat peer_shift \<le> 14 \<Longrightarrow>
    flow_run (flow_new ns loc m peer_shift local_shift) \<lparr>received = 0, fins = 0, acked = 0, sent = 0, misjudged = False\<rparr>"
| run_connected: "flow_run f h \<Longrightarrow> sent h = 0 \<Longrightarrow>
    flow_run (snd (socket_connected b f)) (h\<lparr>sent := 1\<rparr>)"
| run_receive: "flow_run f h \<Longrightarrow>
    receive sq ack w len fin rst f = (d, f') \<Longrightarrow> flow_run f' (track_receive d f f' h)"
| run_submit: "flow_run f h \<Longrightarrow> unat (upstream_submitted f) + len \<le> received h \<Longrightarrow>
    flow_run (record_upstream_submitted len f) h"
| run_ack: "flow_run f h \<Longrightarrow> flow_run (snd (record_upstream_ack b f)) h"
| run_window: "flow_run f h \<Longrightarrow> flow_run (snd (set_advertised_window b f)) h"
| run_send: "flow_run f h \<Longrightarrow> 0 < sent h \<Longrightarrow> state f \<in> {Established, NamespaceFinReceived} \<Longrightarrow>
    plan_send len fin f = Some plan \<Longrightarrow>
    flow_run (commit_send plan f) (h\<lparr>sent := sent h + len + of_bool fin\<rparr>)"
| run_mark: "flow_run f h \<Longrightarrow> flow_run (mark_socket_fin f) h"
| run_close: "flow_run f h \<Longrightarrow> flow_run (flow_close f) h"

text \<open>
  The invariant, in four groups: what came in, what went out, what of it is in flight, and the closing
  states.
\<close>

definition inbound_ok :: "flow \<Rightarrow> history \<Rightarrow> bool" where
  "inbound_ok f h \<longleftrightarrow>
     namespace_next f = seq_at (namespace_initial f + 1) (received h + fins h) \<and>
     (namespace_fin f \<longleftrightarrow> 0 < fins h) \<and>
     upstream_acked f \<le> upstream_submitted f \<and> unat (upstream_submitted f) \<le> received h \<and>
     (\<exists>p \<le> received h + fins h. namespace_acked f = seq_at (namespace_initial f + 1) p \<and>
        (fins h = 0 \<longrightarrow> p = unat (upstream_acked f)))"

definition sent_ok :: "flow \<Rightarrow> history \<Rightarrow> bool" where
  "sent_ok f h \<longleftrightarrow> local_next f = seq_at (local_initial f) (sent h) \<and>
     (local_fin_sequence f \<noteq> None \<longrightarrow> 1 < sent h)"

definition outbound_ok :: "flow \<Rightarrow> history \<Rightarrow> bool" where
  "outbound_ok f h \<longleftrightarrow>
     unat (peer_window_shift f) \<le> 14 \<and> unat (peer_window f) \<le> max_peer_window \<and>
     local_unacked f = seq_at (local_initial f) (acked h) \<and>
     local_next f = seq_at (local_initial f) (sent h) \<and> acked h \<le> sent h \<and>
     sent h \<le> acked h + max_peer_window + 1 + of_bool (local_fin_sequence f \<noteq> None) \<and>
     (\<forall>s. local_fin_sequence f = Some s \<longrightarrow> 1 < sent h \<and> s = seq_at (local_initial f) (sent h - 1))"

definition closing_ok :: "flow \<Rightarrow> bool" where
  "closing_ok f \<longleftrightarrow>
     (local_fin_sequence f \<noteq> None \<longrightarrow>
        socket_fin f \<and> state f \<in> {SocketFinReceived, Closing, TimeWait, Closed}) \<and>
     (state f = TimeWait \<longrightarrow> namespace_fin f \<and> socket_fin f)"

section \<open>The invariant is preserved\<close>

lemma unat_shl_le:
  assumes "unat s \<le> 14"
  shows "unat (shl (ucast (w :: u16)) s) = unat w * 2 ^ unat s"
proof -
  have w: "unat (ucast w :: u32) = unat w"
    by (simp add: unat_ucast_widen)
  have "unat w * 2 ^ unat s \<le> 65535 * 2 ^ 14"
    using unat_u16_le [of w] assms by (intro mult_le_mono power_increasing) simp_all
  then have "unat w * 2 ^ unat s < 2 ^ 32"
    by simp
  then show ?thesis
    using assms unfolding shl_def unsigned_push_bit_eq w by (simp add: push_bit_eq_mult take_bit_eq_mod)
qed

lemma shl_window_le:
  "unat s \<le> 14 \<Longrightarrow> unat (shl (ucast (w :: u16)) s) \<le> max_peer_window"
  using unat_u16_le [of w]
  by (simp add: unat_shl_le max_peer_window_def mult_le_mono power_increasing del: power_numeral)

lemma receive_ack_inbound [simp]:
  "namespace_initial (receive_ack a w f) = namespace_initial f"
  "namespace_next (receive_ack a w f) = namespace_next f"
  "namespace_acked (receive_ack a w f) = namespace_acked f"
  "namespace_fin (receive_ack a w f) = namespace_fin f"
  "upstream_acked (receive_ack a w f) = upstream_acked f"
  "upstream_submitted (receive_ack a w f) = upstream_submitted f"
  "receive_edge (receive_ack a w f) = receive_edge f"
  "socket_fin (receive_ack a w f) = socket_fin f"
  "local_fin_sequence (receive_ack a w f) = local_fin_sequence f"
  "local_initial (receive_ack a w f) = local_initial f"
  "local_next (receive_ack a w f) = local_next f"
  "peer_window_shift (receive_ack a w f) = peer_window_shift f"
  "local_window_shift (receive_ack a w f) = local_window_shift f"
  "peer_window (receive_ack a w f) = shl (ucast w) (peer_window_shift f)"
  by (simp_all add: receive_ack_def acknowledge_local_def Let_def split: option.splits)

lemma receive_segment_outbound:
  assumes "receive_segment sq len fin f = (d, f')"
  shows "local_unacked f' = local_unacked f" "local_next f' = local_next f"
    "local_initial f' = local_initial f" "peer_window f' = peer_window f"
    "peer_window_shift f' = peer_window_shift f" "local_fin_sequence f' = local_fin_sequence f"
    "namespace_initial f' = namespace_initial f" "receive_edge f' = receive_edge f"
    "upstream_acked f' = upstream_acked f" "upstream_submitted f' = upstream_submitted f"
    "socket_fin f' = socket_fin f"
  using assms
  by (auto simp: receive_segment_def receive_fin_def Let_def split: if_splits)

text \<open>Either the segment is in order and advances the flow, or it changes nothing.\<close>

definition receive_advances :: "u32 \<Rightarrow> usize \<Rightarrow> bool \<Rightarrow> flow \<Rightarrow> bool" where
  "receive_advances sq len fin f \<longleftrightarrow> sq = namespace_next f \<and> len \<le> unat (advertised_window f) \<and>
     (0 < len \<or> fin) \<and> len < 2 ^ 32"

lemma receive_segment_cases:
  assumes "receive_segment sq len fin f = (d, f')"
  obtains (advance) "d = InOrder len fin"
      "namespace_next f' = namespace_next f + word_of_nat len + of_bool fin"
      "namespace_fin f' = (fin \<or> namespace_fin f)"
      "namespace_acked f' = (if fin \<and> upstream_acked f = upstream_submitted f
                             then namespace_next f' else namespace_acked f)"
      "state f' = (if fin then if socket_fin f \<and> local_unacked f = local_next f then TimeWait
                     else if socket_fin f then Closing else NamespaceFinReceived
                   else state f)"
    | (keep) "f' = f" "d \<in> {Duplicate, OutOfOrder, OutsideWindow, Invalid}"
proof (cases "receive_advances sq len fin f")
  case True
  then have eq: "d = InOrder len fin" "f' = (let f1 = f\<lparr>namespace_next := namespace_next f + word_of_nat len\<rparr>
      in if fin then receive_fin f1 else f1)"
    using assms by (auto simp: receive_segment_def receive_advances_def Let_def)
  show ?thesis
    by (rule advance) (simp_all add: eq receive_fin_def Let_def)
next
  case False
  then have "f' = f \<and> (d \<in> {Duplicate, OutOfOrder, OutsideWindow, Invalid} \<or>
      d = InOrder len fin \<and> len = 0 \<and> \<not> fin)"
    using assms by (auto simp: receive_segment_def receive_advances_def Let_def split: if_splits)
  then show ?thesis
    by (elim conjE disjE) (rule keep advance; simp)+
qed

lemma inbound_receive:
  assumes ok: "inbound_ok f h" and r: "receive sq ack w len fin rst f = (d, f')"
  shows "inbound_ok f' (track_receive d f f' h)"
proof (cases rst)
  case True
  then show ?thesis
    using assms by (auto simp: receive_def inbound_ok_def track_receive_def simp del: One_nat_def)
next
  case False
  define g where "g = receive_ack ack w f"
  have seg: "receive_segment sq len fin g = (d, f')"
    using r False by (simp add: receive_def g_def)
  note f' = receive_segment_outbound [OF seg]
  have ok: "inbound_ok g h"
    using ok by (simp add: inbound_ok_def g_def)
  from seg show ?thesis
  proof (cases rule: receive_segment_cases)
    case advance
    let ?n = "received h + len + fins h + of_bool fin"
    have next': "namespace_next f' = seq_at (namespace_initial g + 1) ?n"
      using ok advance by (simp add: inbound_ok_def seq_at_def ac_simps)
    from ok obtain p where p: "p \<le> received h + fins h"
        "namespace_acked g = seq_at (namespace_initial g + 1) p"
        "fins h = 0 \<longrightarrow> p = unat (upstream_acked g)"
      by (auto simp: inbound_ok_def)
    define q where "q = (if fin \<and> upstream_acked g = upstream_submitted g then ?n else p)"
    have "q \<le> ?n" "namespace_acked f' = seq_at (namespace_initial g + 1) q"
        "\<not> fin \<longrightarrow> fins h = 0 \<longrightarrow> q = unat (upstream_acked g)"
      using p advance next' by (auto simp: q_def)
    then show ?thesis
      using ok advance next' f'
      by (auto simp: inbound_ok_def track_receive_def add.assoc intro!: exI [of _ q])
  next
    case keep
    then show ?thesis
      using ok f' by (auto simp: inbound_ok_def track_receive_def)
  qed
qed

lemma inbound_submit:
  assumes ok: "inbound_ok f h" and le: "unat (upstream_submitted f) + len \<le> received h"
  shows "inbound_ok (record_upstream_submitted len f) h"
proof -
  let ?s = "saturating_add (upstream_submitted f) (word_of_nat len)"
  have "unat ?s \<le> unat (upstream_submitted f) + unat (word_of_nat len :: u64)"
    by (simp add: unat_saturating_add)
  then have "unat ?s \<le> received h"
    using le unat_of_nat_le [of len, where 'a = 64] by linarith
  moreover have "upstream_submitted f \<le> ?s"
    using unsigned_less [where 'a = nat, of "upstream_submitted f"]
    by (simp add: word_le_nat_alt unat_saturating_add)
  ultimately show ?thesis
    using ok by (auto simp: inbound_ok_def record_upstream_submitted_def)
qed

lemma inbound_ack:
  assumes "inbound_ok f h"
  shows "inbound_ok (snd (record_upstream_ack b f)) h"
proof -
  define a where "a = min (saturating_sub b (upstream_ack_baseline f)) (upstream_submitted f)"
  show ?thesis
  proof (cases "a \<le> upstream_acked f")
    case True
    then show ?thesis
      using assms by (simp add: record_upstream_ack_def a_def Let_def)
  next
    case False
    have le: "a \<le> upstream_submitted f"
      by (simp add: a_def)
    then have le': "unat a \<le> received h"
      using assms by (auto simp: inbound_ok_def word_le_nat_alt)
    have pos: "namespace_initial f + 1 + ucast a = seq_at (namespace_initial f + 1) (unat a)"
      by (simp add: seq_at_def)
    let ?q = "unat a + of_bool (namespace_fin f \<and> a = upstream_submitted f)"
    have "snd (record_upstream_ack b f) = f\<lparr>upstream_acked := a,
        namespace_acked := seq_at (namespace_initial f + 1) ?q\<rparr>"
      using False by (simp add: record_upstream_ack_def a_def [symmetric] Let_def pos seq_at_Suc)
    then show ?thesis
      using assms le le' by (auto simp: inbound_ok_def intro!: exI [of _ ?q])
  qed
qed

lemma local_unacked_receive_ack:
  "local_unacked (receive_ack a w f) =
     (case a of None \<Rightarrow> local_unacked f
      | Some ack \<Rightarrow> if after ack (local_unacked f) \<and> before_or_equal ack (local_next f) then ack
                    else local_unacked f)"
  by (cases a; cases "local_fin_sequence f") (auto simp: receive_ack_def acknowledge_local_def Let_def)

lemma outbound_span: "outbound_ok f h \<Longrightarrow> sent h < acked h + 2 ^ 31"
  by (cases "local_fin_sequence f") (simp_all add: outbound_ok_def max_peer_window_def)

text \<open>
  The acknowledged position only moves forward, and never past what was sent, unless the
  acknowledgment is the misjudged one.
\<close>

definition misjudges :: "flow \<Rightarrow> flow \<Rightarrow> bool" where
  "misjudges f f' \<longleftrightarrow> local_unacked f = local_next f \<and> local_unacked f' = local_unacked f + 2 ^ 31"

lemma receive_ack_position:
  assumes ok: "outbound_ok f h"
    and idle: "\<not> misjudges f (receive_ack a w f)"
  obtains k where "acked h \<le> k" "k \<le> sent h"
    "local_unacked (receive_ack a w f) = seq_at (local_initial f) k"
    "unat (local_unacked (receive_ack a w f) - local_unacked f) = k - acked h"
proof -
  have u: "local_unacked f = seq_at (local_initial f) (acked h)" and le: "acked h \<le> sent h"
    and n: "local_next f = seq_at (local_initial f) (sent h)"
    using ok by (auto simp: outbound_ok_def)
  show ?thesis
  proof (cases "local_unacked (receive_ack a w f) = local_unacked f")
    case True
    then show ?thesis
      using u le by (intro that [of "acked h"]) simp_all
  next
    case False
    define x where "x = local_unacked (receive_ack a w f)"
    have "a = Some x" "after x (local_unacked f)" "before_or_equal x (local_next f)"
      using False by (auto simp: x_def local_unacked_receive_ack split: option.splits if_splits)
    then have "\<exists>k. acked h < k \<and> k \<le> sent h \<and> x = seq_at (local_initial f) k"
      using idle [unfolded misjudges_def, folded x_def] le outbound_span [OF ok] u n
      by (intro seq.between_position) (auto simp: after_def before_or_equal_def)
    then obtain k where k: "acked h < k" "k \<le> sent h" "x = seq_at (local_initial f) k"
      by blast
    moreover have "unat (x - local_unacked f) = k - acked h"
      using k outbound_span [OF ok] unfolding u k(3) by (intro unat_seq_diff_ge) auto
    ultimately show ?thesis
      by (intro that [of k]) (simp_all add: x_def)
  qed
qed

lemma acked_track [simp]:
  "acked (track_receive d f f' h) = acked h + unat (local_unacked f' - local_unacked f)"
  "sent (track_receive d f f' h) = sent h"
  "misjudged (track_receive d f f' h) \<longleftrightarrow> misjudged h \<or> misjudges f f'"
  by (simp_all add: track_receive_def misjudges_def Let_def split: receive_disposition.splits)

lemma outbound_receive:
  assumes ok: "outbound_ok f h"
    and idle: "\<not> misjudges f f'" and r: "receive sq ack w len fin rst f = (d, f')"
  shows "outbound_ok f' (track_receive d f f' h)"
proof (cases rst)
  case True
  then show ?thesis
    using ok r by (auto simp: receive_def outbound_ok_def)
next
  case False
  define g where "g = receive_ack ack w f"
  have seg: "receive_segment sq len fin g = (d, f')"
    using r False by (simp add: receive_def g_def)
  note f' = receive_segment_outbound [OF seg]
  have "\<not> misjudges f g"
    using idle f' by (simp add: misjudges_def)
  from receive_ack_position [OF ok this [unfolded g_def]]
  obtain k where k: "acked h \<le> k" "k \<le> sent h" "local_unacked g = seq_at (local_initial f) k"
      "unat (local_unacked g - local_unacked f) = k - acked h"
    unfolding g_def by blast
  have "acked (track_receive d f f' h) = k"
    using k f' by simp
  then show ?thesis
    using ok k f' by (auto simp: outbound_ok_def g_def shl_window_le)
qed

lemma in_flight:
  assumes "outbound_ok f h"
  shows "unat (unacked_to_namespace f) = sent h - acked h"
  using assms outbound_span [OF assms]
  by (auto simp: outbound_ok_def unacked_to_namespace_def intro!: unat_distance)

lemma outbound_send:
  assumes ok: "outbound_ok f h" and cl: "closing_ok f"
    and st: "state f \<in> {Established, NamespaceFinReceived}" and "0 < sent h"
    and plan: "plan_send len fin f = Some p"
  shows "outbound_ok (commit_send p f) (h\<lparr>sent := sent h + len + of_bool fin\<rparr>)"
proof -
  have nofin: "local_fin_sequence f = None"
    using cl st by (auto simp: closing_ok_def)
  have p: "plan_length p = len" "plan_fin p = fin" and len: "len \<le> available_namespace_window f"
    using plan by (auto simp: plan_send_def split: if_splits)
  then have "sent h + len \<le> acked h + max_peer_window + 1"
    using ok nofin in_flight [OF ok]
    by (auto simp: outbound_ok_def available_namespace_window_def)
  then show ?thesis
    using ok nofin p \<open>0 < sent h\<close>
    by (auto simp: outbound_ok_def commit_send_def Let_def seq_at_def)
qed

lemma closing_receive_ack: "closing_ok f \<Longrightarrow> closing_ok (receive_ack a w f)"
  by (auto simp: closing_ok_def receive_ack_def acknowledge_local_def Let_def split: option.splits)

lemma closing_receive:
  assumes "closing_ok f" "receive sq ack w len fin rst f = (d, f')"
  shows "closing_ok f'"
proof (cases rst)
  case True
  then show ?thesis
    using assms by (auto simp: receive_def closing_ok_def)
next
  case False
  define g where "g = receive_ack ack w f"
  have seg: "receive_segment sq len fin g = (d, f')" and ok: "closing_ok g"
    using assms False closing_receive_ack by (simp_all add: receive_def g_def)
  note f' = receive_segment_outbound [OF seg]
  from seg show ?thesis
  proof (cases rule: receive_segment_cases)
    case advance
    then show ?thesis
      using ok f' by (auto simp: closing_ok_def)
  qed (use ok in simp)
qed

lemma sent_receive:
  "sent_ok f h \<Longrightarrow> receive sq ack w len fin rst f = (d, f') \<Longrightarrow> sent_ok f' (track_receive d f f' h)"
  using receive_segment_outbound [of sq len fin "receive_ack ack w f"]
  by (auto simp: sent_ok_def receive_def split: if_splits)

lemma sent_send:
  assumes "sent_ok f h" "0 < sent h" "plan_send len fin f = Some plan"
  shows "sent_ok (commit_send plan f) (h\<lparr>sent := sent h + len + of_bool fin\<rparr>)"
proof -
  have "plan_length plan = len" "plan_fin plan = fin"
    using assms by (auto simp: plan_send_def split: if_splits)
  then show ?thesis
    using assms by (auto simp: sent_ok_def commit_send_def Let_def seq_at_def ac_simps)
qed

theorem flow_run_ok: "flow_run f h \<Longrightarrow>
  inbound_ok f h \<and> sent_ok f h \<and> (misjudged h \<or> outbound_ok f h) \<and> closing_ok f"
proof (induction rule: flow_run.induct)
  case (run_new peer_shift ns loc m local_shift)
  then show ?case
    by (simp add: inbound_ok_def sent_ok_def outbound_ok_def closing_ok_def flow_new_def max_peer_window_def)
next
  case (run_connected f h b)
  then show ?case
    by (auto simp: inbound_ok_def sent_ok_def outbound_ok_def closing_ok_def socket_connected_def Let_def
        seq_at_Suc max_peer_window_def)
next
  case (run_receive f h sq ack w len fin rst d f')
  then show ?case
    using inbound_receive [of f h] outbound_receive [of f h f' sq ack w len fin rst d] closing_receive [of f]
      sent_receive [of f h] by auto
next
  case (run_submit f h len)
  then show ?case
    using inbound_submit [of f h len] by (auto simp: sent_ok_def outbound_ok_def closing_ok_def record_upstream_submitted_def)
next
  case (run_ack f h b)
  then show ?case
    using inbound_ack
    by (auto simp: sent_ok_def outbound_ok_def closing_ok_def record_upstream_ack_def Let_def)
next
  case (run_window f h b)
  then show ?case
    by (auto simp: inbound_ok_def sent_ok_def outbound_ok_def closing_ok_def set_advertised_window_def Let_def)
next
  case (run_send f h len fin plan)
  then have "inbound_ok (commit_send plan f) (h\<lparr>sent := sent h + len + of_bool fin\<rparr>)"
    by (auto simp: inbound_ok_def commit_send_def Let_def)
  moreover have "closing_ok (commit_send plan f)"
    using run_send by (auto simp: closing_ok_def commit_send_def Let_def)
  ultimately show ?case
    using run_send outbound_send [of f h len fin plan] sent_send [of f h len fin plan] by auto
next
  case (run_mark f h)
  then show ?case
    by (auto simp: inbound_ok_def sent_ok_def outbound_ok_def closing_ok_def mark_socket_fin_def)
next
  case (run_close f h)
  then show ?case
    by (auto simp: inbound_ok_def sent_ok_def outbound_ok_def closing_ok_def flow_close_def)
qed

section \<open>A sample run\<close>

text \<open>
  Two runs used as concrete instances below: a flow that has received eight payload bytes across the
  wrap of the sequence space, and the same flow once these have been submitted.
\<close>

lemma unat_minus_one_u32: "unat (- 1 :: u32) = 4294967295"
  by (simp add: unsigned_minus_1_eq_mask mask_eq_exp_minus_1)

lemmas flow_eval = unat_minus_one_u32 Let_def flow_new_def socket_connected_def receive_def receive_ack_def receive_segment_def
  receive_fin_def acknowledge_local_def advertised_window_def after_def before_def before_or_equal_def
  sint_neg_iff distance_def shl_def shr_def track_receive_def record_upstream_submitted_def
  record_upstream_ack_def saturating_add_def saturating_sub_def plan_send_def commit_send_def
  available_namespace_window_def unacked_to_namespace_def newly_acked_payload_def

definition sample_connected :: flow where
  "sample_connected = snd (socket_connected 10 (flow_new 4294967291 100 1460 0 0))"

definition sample_received :: flow where
  "sample_received = snd (receive 4294967292 (Some 101) 65535 8 False False sample_connected)"

definition sample_history :: history where
  "sample_history = \<lparr>received = 8, fins = 0, acked = 1, sent = 1, misjudged = False\<rparr>"

lemma sample_connected_eq: "sample_connected =
  \<lparr>state = SynReceived, namespace_initial = 4294967291, namespace_next = 4294967292,
   namespace_acked = 4294967292, local_initial = 100, local_unacked = 100, local_next = 101,
   peer_window = 65535, peer_window_shift = 0, receive_edge = 65531, local_window_shift = 0,
   mss = 1460, upstream_ack_baseline = 10, upstream_submitted = 0, upstream_acked = 0,
   namespace_fin = False, socket_fin = False, local_fin_sequence = None\<rparr>"
  by (simp add: sample_connected_def flow_eval)

lemma sample_received_step:
  "receive 4294967292 (Some 101) 65535 8 False False sample_connected =
     (InOrder 8 False, sample_connected\<lparr>state := Established, namespace_next := 4, local_unacked := 101\<rparr>)"
  by (simp add: sample_connected_eq flow_eval)

lemma sample_received_eq:
  "sample_received = sample_connected\<lparr>state := Established, namespace_next := 4, local_unacked := 101\<rparr>"
  by (simp add: sample_received_def sample_received_step)

lemma sample_connected_run:
  "flow_run sample_connected \<lparr>received = 0, fins = 0, acked = 0, sent = 1, misjudged = False\<rparr>"
proof -
  have "flow_run (flow_new 4294967291 100 1460 0 0) \<lparr>received = 0, fins = 0, acked = 0, sent = 0, misjudged = False\<rparr>"
    by (rule run_new) simp
  from run_connected [OF this, of 10] show ?thesis
    by (simp add: sample_connected_def)
qed

lemma sample_received_run: "flow_run sample_received sample_history"
  using run_receive [OF sample_connected_run sample_received_step]
  by (simp add: sample_received_eq [symmetric] sample_history_def)
    (simp add: sample_received_eq sample_connected_eq track_receive_def)

section \<open>Properties\<close>



text \<open>
  C9. In a flow whose socket is connected and in the two states in which the data plane reads the
  socket, a planned send starts at the first unsent position, and a payload together with what the
  flow counts as unacknowledged fits the window the namespace advertised last. As long as the flow
  has not accepted the opposite of \<open>local_unacked\<close> as an acknowledgment while nothing was in flight,
  which the serial comparison misjudges, that count is exact, before and after the send, however
  often the sequence numbers have wrapped.
\<close>

theorem flow_send_within_window:
  assumes "flow_run f h" "0 < sent h" "state f \<in> {Established, NamespaceFinReceived}"
    and "plan_send len fin f = Some plan"
  shows "plan_sequence plan = seq_at (local_initial f) (sent h) \<and>
    (0 < len \<longrightarrow> unat (unacked_to_namespace f) + len \<le> unat (peer_window f)) \<and>
    (\<not> misjudged h \<longrightarrow> unat (unacked_to_namespace f) = sent h - acked h \<and>
      unat (unacked_to_namespace (commit_send plan f)) = sent h - acked h + len + of_bool fin)"
proof (intro conjI impI)
  show "plan_sequence plan = seq_at (local_initial f) (sent h)"
    using flow_run_ok [OF assms(1)] assms(4) by (auto simp: sent_ok_def plan_send_def split: if_splits)
  show "unat (unacked_to_namespace f) + len \<le> unat (peer_window f)" if "0 < len"
    using that assms(4) by (auto simp: plan_send_def available_namespace_window_def split: if_splits)
next
  assume ok: "\<not> misjudged h"
  have "flow_run (commit_send plan f) (h\<lparr>sent := sent h + len + of_bool fin\<rparr>)"
    using assms by (rule run_send)
  from flow_run_ok [OF this] flow_run_ok [OF assms(1)] ok
  have "outbound_ok f h" "outbound_ok (commit_send plan f) (h\<lparr>sent := sent h + len + of_bool fin\<rparr>)"
    by simp_all
  note this [THEN in_flight] and this(1) [unfolded outbound_ok_def]
  then show "unat (unacked_to_namespace f) = sent h - acked h"
    and "unat (unacked_to_namespace (commit_send plan f)) = sent h - acked h + len + of_bool fin"
    by auto
qed

theorem flow_send_within_window_witness:
  "unat (unacked_to_namespace (commit_send
     \<lparr>plan_sequence = 101, plan_acknowledgment = - 4, plan_length = 1460, plan_syn = False, plan_fin = False\<rparr>
     sample_received)) = 1460"
proof -
  have "plan_send 1460 False sample_received = Some \<lparr>plan_sequence = 101, plan_acknowledgment = - 4,
      plan_length = 1460, plan_syn = False, plan_fin = False\<rparr>"
    "state sample_received = Established" "sent sample_history = 1" "acked sample_history = 1"
    "\<not> misjudged sample_history"
    by (simp_all add: sample_received_eq sample_connected_eq sample_history_def flow_eval)
  then show ?thesis
    using flow_send_within_window [OF sample_received_run, of 1460 False] by simp
qed

text \<open>
  The payload bytes of the local stream before position \<open>k\<close>: position 0 is the SYN, and a sent FIN
  takes the last position.
\<close>

definition payload_before :: "flow \<Rightarrow> history \<Rightarrow> nat \<Rightarrow> nat" where
  "payload_before f h k = min k (sent h - of_bool (local_fin_sequence f \<noteq> None)) - 1"

lemma newly_acked_payload_at:
  assumes ok: "outbound_ok f h" and a: "a \<le> acked h" and small: "sent h \<le> 2 ^ 31"
  shows "newly_acked_payload (seq_at (local_initial f) a) f =
    payload_before f h (acked h) - payload_before f h a"
proof -
  let ?at = "seq_at (local_initial f)"
  define e where "e = sent h - of_bool (local_fin_sequence f \<noteq> None)"
  have u: "local_unacked f = ?at (acked h)" "acked h \<le> sent h"
    and fin_end: "(case local_fin_sequence f of Some s \<Rightarrow> s | None \<Rightarrow> local_next f) = ?at e"
    using ok by (auto simp: outbound_ok_def e_def split: option.split)
  have start: "local_initial f + 1 = ?at 1"
    by (simp add: seq_at_def)
  have e: "e \<le> sent h" "sent h \<le> e + 1"
    by (auto simp: e_def)
  have "before (?at a) (?at 1) \<longleftrightarrow> a < 1"
    using a u e small by (intro before_at) simp_all
  moreover have "after (?at (acked h)) (?at e) \<longleftrightarrow> e < acked h"
    unfolding after_def using a u e small outbound_span [OF ok] by (intro before_at) simp_all
  moreover have "(if a < 1 then ?at 1 else ?at a) = ?at (max a 1)"
    "(if e < acked h then ?at e else ?at (acked h)) = ?at (min (acked h) e)"
    by (cases a) (auto simp: min_def)
  ultimately have "newly_acked_payload (?at a) f =
      (if after (?at (min (acked h) e)) (?at (max a 1))
       then unat (distance (?at (max a 1)) (?at (min (acked h) e))) else 0)"
    by (simp only: newly_acked_payload_def Let_def start u fin_end)
  also have "after (?at (min (acked h) e)) (?at (max a 1)) \<longleftrightarrow> max a 1 < min (acked h) e"
    unfolding after_def using a u e small by (intro before_at) (auto simp: min_def max_def)
  also have "(if max a 1 < min (acked h) e
       then unat (distance (?at (max a 1)) (?at (min (acked h) e))) else 0) = min (acked h) e - max a 1"
  proof (cases "max a 1 < min (acked h) e")
    case True
    then have "unat (distance (?at (max a 1)) (?at (min (acked h) e))) = min (acked h) e - max a 1"
      using e small by (intro unat_distance) auto
    then show ?thesis
      using True by simp
  next
    case False
    then have "min (acked h) e - max a 1 = 0"
      by linarith
    then show ?thesis
      by (simp only: False if_False)
  qed
  also have "\<dots> = (min (acked h) e - 1) - (min a e - 1)"
    using a by (auto simp: min_def max_def)
  finally show ?thesis
    by (simp add: payload_before_def e_def)
qed

text \<open>
  C31. While at most \<open>2 ^ 31\<close> stream positions have been sent to the namespace, the byte count by
  which the data plane advances the upstream socket after an acknowledgment is exact: it is the
  payload between the old and the new acknowledged position, with the SYN and FIN left out, and the
  acknowledged position never passes what was sent. Left out are only the flows that have accepted
  the misjudged acknowledgment, the opposite of \<open>local_unacked\<close> with nothing in flight.
\<close>

theorem flow_newly_acked_exact:
  assumes "flow_run f h" "receive sq ack w len fin rst f = (d, f')" "sent h \<le> 2 ^ 31"
    and "\<not> misjudged (track_receive d f f' h)"
  shows "\<exists>k. acked h \<le> k \<and> k \<le> sent h \<and> local_unacked f' = seq_at (local_initial f) k \<and>
    newly_acked_payload (local_unacked f) f' = payload_before f h k - payload_before f h (acked h)"
proof -
  define h' where "h' = track_receive d f f' h"
  have ok: "outbound_ok f h" and ok': "outbound_ok f' h'"
    using flow_run_ok [OF assms(1)] flow_run_ok [OF run_receive [OF assms(1,2)]] assms(4)
    by (auto simp: h'_def)
  have same: "local_initial f' = local_initial f" "local_fin_sequence f' = local_fin_sequence f"
    using assms(2) receive_segment_outbound by (auto simp: receive_def split: if_splits)
  have "sent h' = sent h" "acked h \<le> acked h'"
    by (simp_all add: h'_def)
  then show ?thesis
    using ok ok' newly_acked_payload_at [OF ok', of "acked h"] same assms(3)
    by (intro exI [of _ "acked h'"]) (simp add: outbound_ok_def payload_before_def)
qed

definition sample_sent :: flow where
  "sample_sent = commit_send \<lparr>plan_sequence = 101, plan_acknowledgment = 4294967292,
     plan_length = 1460, plan_syn = False, plan_fin = False\<rparr> sample_received"

lemma sample_sent_eq: "sample_sent = sample_received\<lparr>local_next := 1561\<rparr>"
  by (simp add: sample_sent_def sample_received_eq sample_connected_eq flow_eval)

lemma sample_sent_run: "flow_run sample_sent \<lparr>received = 8, fins = 0, acked = 1, sent = 1461, misjudged = False\<rparr>"
proof -
  have "plan_send 1460 False sample_received = Some \<lparr>plan_sequence = 101,
      plan_acknowledgment = 4294967292, plan_length = 1460, plan_syn = False, plan_fin = False\<rparr>"
    by (simp add: sample_received_eq sample_connected_eq flow_eval)
  from run_send [OF sample_received_run _ _ this] show ?thesis
    by (simp add: sample_sent_def sample_history_def) (simp add: sample_received_eq)
qed

theorem flow_newly_acked_exact_witness:
  "\<exists>f'. receive 4 (Some 1101) 65535 0 False False sample_sent = (InOrder 0 False, f') \<and>
    newly_acked_payload (local_unacked sample_sent) f' = 1000"
proof -
  define f' where "f' = sample_sent\<lparr>local_unacked := 1101\<rparr>"
  have r: "receive 4 (Some 1101) 65535 0 False False sample_sent = (InOrder 0 False, f')"
    and u: "local_unacked f' = 1101" "local_initial sample_sent = 100"
    "local_fin_sequence sample_sent = None" "\<not> misjudges sample_sent f'"
    by (simp_all add: misjudges_def f'_def sample_sent_eq sample_received_eq sample_connected_eq flow_eval)
  from flow_newly_acked_exact [OF sample_sent_run r] u
  obtain k where k: "k \<le> 1461" "(1101 :: u32) = seq_at 100 k"
      "newly_acked_payload (local_unacked sample_sent) f' = min k 1461 - 1"
    by (auto simp: payload_before_def)
  have "seq_at 100 k = seq_at 100 1001"
    using k(2) by (simp add: seq_at_def)
  then have "k = 1001"
    using k(1) by (subst (asm) seq_at_eq_iff) simp_all
  then show ?thesis
    using r k(3) by auto
qed

text \<open>
  C39. Beyond \<open>2 ^ 31\<close> positions the count is lost. \<open>newly_acked_payload\<close> compares the previous
  acknowledgment with the start of the payload, and once these are \<open>2 ^ 31\<close> apart the serial
  comparison takes the acknowledgment to be before the start: an acknowledgment of new payload in
  the second half of the sequence space yields 0 bytes instead of their number. The flow is one that
  has accepted only justified acknowledgments.
\<close>

theorem flow_newly_acked_lost:
  assumes run: "flow_run f h" "\<not> misjudged h" and fin: "local_fin_sequence f = None"
    and a: "2 ^ 31 < a" "a < acked h" "acked h \<le> 2 ^ 32"
  shows "newly_acked_payload (seq_at (local_initial f) a) f = 0 \<and>
    payload_before f h (acked h) - payload_before f h a = acked h - a"
proof -
  let ?at = "seq_at (local_initial f)"
  have ok: "outbound_ok f h"
    using flow_run_ok [OF run(1)] run(2) by simp
  then have u: "local_unacked f = ?at (acked h)" "local_next f = ?at (sent h)" "acked h \<le> sent h"
    by (simp_all add: outbound_ok_def)
  have start: "local_initial f + 1 = ?at 1"
    by (simp add: seq_at_def)
  have "before (?at a) (?at 1)"
    using a unat_seq_diff_ge [of 1 a "local_initial f"] by (simp add: before_def sint_neg_iff)
  moreover have "\<not> after (?at (acked h)) (?at (sent h))"
    unfolding after_def using u outbound_span [OF ok] by (subst before_at) simp_all
  moreover have "\<not> after (?at (acked h)) (?at 1)"
    using a unat_seq_diff_less [of 1 "acked h" "local_initial f"]
    by (simp add: after_def before_def sint_neg_iff)
  ultimately have "newly_acked_payload (?at a) f = 0"
    by (simp add: newly_acked_payload_def Let_def start u fin)
  then show ?thesis
    using a u fin by (simp add: payload_before_def)
qed

text \<open>A send of \<open>len\<close> bytes from an idle established flow, and the acknowledgment of all of them.\<close>

lemma run_round:
  assumes run: "flow_run f h" and ok: "\<not> misjudged h" and st: "state f = Established" and idle: "acked h = sent h" "0 < sent h"
    and len: "0 < len" "len \<le> unat (peer_window f)" "len < 2 ^ 31"
    and w: "peer_window f = shl (ucast (w :: u16)) (peer_window_shift f)"
  defines "x \<equiv> local_next f + word_of_nat len"
  shows "flow_run (f\<lparr>local_next := x, local_unacked := x\<rparr>) (h\<lparr>sent := sent h + len, acked := acked h + len\<rparr>)"
proof -
  have ok: "outbound_ok f h" "closing_ok f" "\<not> misjudged h"
    using flow_run_ok [OF run] ok by simp_all
  have nofin: "local_fin_sequence f = None"
    using ok st by (auto simp: closing_ok_def)
  let ?at = "seq_at (local_initial f)"
  have u: "local_unacked f = ?at (sent h)" "local_next f = ?at (sent h)" "x = ?at (sent h + len)"
    using ok idle by (simp_all add: outbound_ok_def x_def seq_at_add del: of_nat_add)
  have "plan_send len False f \<noteq> None"
    using len u by (simp add: plan_send_def available_namespace_window_def unacked_to_namespace_def
        distance_def)
  then obtain p where p: "plan_send len False f = Some p"
    by auto
  have "flow_run (commit_send p f) (h\<lparr>sent := sent h + len + of_bool False\<rparr>)"
    using run_send [OF run _ _ p] st idle by simp
  moreover have c: "commit_send p f = f\<lparr>local_next := x\<rparr>"
    using p by (auto simp: plan_send_def commit_send_def Let_def x_def split: if_splits)
  ultimately have run1: "flow_run (f\<lparr>local_next := x\<rparr>) (h\<lparr>sent := sent h + len\<rparr>)"
    by simp
  have ne: "x \<noteq> local_unacked f" and d: "unat (x - local_unacked f) = len"
    and acc: "after x (local_unacked f)"
    using len seq_at_eq_iff [of "sent h + len" "sent h" "local_initial f"]
      unat_seq_diff_ge [of "sent h" "sent h + len" "local_initial f"]
      before_at [of "sent h" "sent h + len" "local_initial f"] by (auto simp: u after_def)
  have upd: "g = g\<lparr>peer_window := peer_window g\<rparr>" for g :: flow
    by simp
  have "receive (namespace_next f) (Some x) w 0 False False (f\<lparr>local_next := x\<rparr>) =
      (InOrder 0 False, f\<lparr>local_next := x, local_unacked := x\<rparr>)"
    using acc nofin st w upd [of f]
    by (simp add: receive_def receive_ack_def acknowledge_local_def receive_segment_def Let_def
        before_or_equal_def)
  from run_receive [OF run1 this] ne d ok show ?thesis
    by (cases h) (simp add: track_receive_def ac_simps idle)
qed

definition large_flow :: "nat \<Rightarrow> flow" where
  "large_flow n = \<lparr>state = Established, namespace_initial = 0, namespace_next = 1,
   namespace_acked = 1, local_initial = 0, local_unacked = word_of_nat (1 + n),
   local_next = word_of_nat (1 + n), peer_window = 1073725440, peer_window_shift = 14,
   receive_edge = 65536, local_window_shift = 0, mss = 1460, upstream_ack_baseline = 0,
   upstream_submitted = 0, upstream_acked = 0, namespace_fin = False, socket_fin = False,
   local_fin_sequence = None\<rparr>"

definition large_history :: "nat \<Rightarrow> history" where
  "large_history n = \<lparr>received = 0, fins = 0, acked = 1 + n, sent = 1 + n, misjudged = False\<rparr>"

lemma large_flow_start: "flow_run (large_flow 0) (large_history 0)"
proof -
  let ?c = "snd (socket_connected 0 (flow_new 0 0 1460 14 0))"
  have "flow_run (flow_new 0 0 1460 14 0) \<lparr>received = 0, fins = 0, acked = 0, sent = 0, misjudged = False\<rparr>"
    by (rule run_new) simp
  from run_connected [OF this, of 0]
  have c: "flow_run ?c \<lparr>received = 0, fins = 0, acked = 0, sent = 1, misjudged = False\<rparr>"
    by simp
  have r: "receive 1 (Some 1) 65535 0 False False ?c = (InOrder 0 False, large_flow 0)"
    by (simp add: flow_eval large_flow_def)
  from run_receive [OF c r] show ?thesis
    by (simp add: track_receive_def large_flow_def large_history_def flow_new_def socket_connected_def Let_def)
qed

lemma large_flow_step:
  assumes "flow_run (large_flow n) (large_history n)"
  shows "flow_run (large_flow (n + 1073725440)) (large_history (n + 1073725440))"
proof -
  let ?x = "local_next (large_flow n) + word_of_nat 1073725440"
  have "flow_run (large_flow n\<lparr>local_next := ?x, local_unacked := ?x\<rparr>)
      (large_history n\<lparr>sent := sent (large_history n) + 1073725440,
        acked := acked (large_history n) + 1073725440\<rparr>)"
    by (rule run_round [OF assms, where w = 65535])
      (simp_all add: large_flow_def large_history_def shl_def)
  also have "large_flow n\<lparr>local_next := ?x, local_unacked := ?x\<rparr> = large_flow (n + 1073725440)"
    by (simp add: large_flow_def)
  also have "large_history n\<lparr>sent := sent (large_history n) + 1073725440,
        acked := acked (large_history n) + 1073725440\<rparr> = large_history (n + 1073725440)"
    by (simp add: large_history_def)
  finally show ?thesis .
qed

theorem flow_newly_acked_lost_witness:
  "newly_acked_payload (seq_at 0 3221176321) (large_flow 4294901760) = 0"
proof -
  have "flow_run (large_flow 4294901760) (large_history 4294901760)"
    using large_flow_step [OF large_flow_step [OF large_flow_step [OF large_flow_step [OF large_flow_start]]]]
    by simp
  moreover have "local_fin_sequence (large_flow 4294901760) = None" "local_initial (large_flow 4294901760) = 0"
    "acked (large_history 4294901760) = 4294901761" "\<not> misjudged (large_history 4294901760)"
    by (simp_all add: large_flow_def large_history_def)
  ultimately show ?thesis
    using flow_newly_acked_lost [of "large_flow 4294901760" "large_history 4294901760" 3221176321] by simp
qed

section \<open>The receive window\<close>

text \<open>
  The promised right edge of the receive window never moves backwards: a segment leaves it alone,
  and \<open>set_advertised_window\<close> either changes nothing or moves it forward to at most the requested
  budget beyond \<open>namespace_next\<close>, and then the flow grants exactly that budget.
\<close>

theorem receive_edge_never_retreats:
  assumes shift: "unat (local_window_shift f) \<le> 14"
    and next_pos: "namespace_next f = seq_at b n" and edge: "receive_edge f = seq_at b e"
    and span: "e < n + 2 ^ 30" "n < e + 2 ^ 30"
  shows "receive_edge (snd (receive sq ack w len fin rst f)) = receive_edge f \<and>
    receive_edge (snd (set_advertised_window budget f)) =
      seq_at b (max e (n + unat (min budget (max_advertised_window f)))) \<and>
    unat (advertised_window (snd (set_advertised_window budget f))) =
      max e (n + unat (min budget (max_advertised_window f))) - n"
proof -
  define f1 where "f1 = snd (set_advertised_window budget f)"
  define f2 where "f2 = snd (receive sq ack w len fin rst f)"
  define m where "m = unat (min budget (max_advertised_window f))"
  have "unat (max_advertised_window f) = 65535 * 2 ^ unat (local_window_shift f)"
    using unat_shl_le [OF shift, of 65535] by (simp add: max_advertised_window_def)
  also have "\<dots> \<le> 65535 * 2 ^ 14"
    using shift by (intro mult_le_mono power_increasing) simp_all
  finally have m: "m < 2 ^ 30"
    by (simp add: m_def unat_min_word)
  have cand: "namespace_next f + min budget (max_advertised_window f) = seq_at b (n + m)"
    by (simp add: m_def next_pos seq_at_add del: of_nat_add)
  have "after (seq_at b (n + m)) (seq_at b e) \<longleftrightarrow> e < n + m"
    unfolding after_def using span m by (intro before_at) simp_all
  then have f1: "f1 = f\<lparr>receive_edge := seq_at b (max e (n + m))\<rparr>"
    using edge by (simp add: f1_def set_advertised_window_def Let_def cand max_def not_less)
  have "after (seq_at b (max e (n + m))) (seq_at b n) \<longleftrightarrow> n < max e (n + m)"
    unfolding after_def using span m by (intro before_at) (auto simp: max_def)
  moreover have "n < max e (n + m) \<Longrightarrow>
      unat (distance (seq_at b n) (seq_at b (max e (n + m)))) = max e (n + m) - n"
    using span m by (intro unat_distance) (auto simp: max_def)
  ultimately have "unat (advertised_window f1) = max e (n + m) - n"
    by (auto simp: advertised_window_def f1 next_pos)
  moreover have "receive_edge f2 = receive_edge f"
    using receive_segment_outbound [OF surjective_pairing, of sq len fin "receive_ack ack w f"]
    by (simp add: f2_def receive_def)
  ultimately show ?thesis
    by (simp add: f1_def [symmetric] f2_def [symmetric] m_def [symmetric]) (simp add: f1)
qed

theorem receive_edge_never_retreats_witness:
  "receive_edge (snd (set_advertised_window 4 sample_received)) = seq_at 4294967291 65536"
proof -
  have "local_window_shift sample_received = 0" "namespace_next sample_received = seq_at 4294967291 9"
    "receive_edge sample_received = seq_at 4294967291 65536"
    "max_advertised_window sample_received = 65535"
    by (simp_all add: sample_received_eq sample_connected_eq seq_at_def max_advertised_window_def shl_def)
  then show ?thesis
    using receive_edge_never_retreats [of sample_received "4294967291" 9 65536 _ _ _ _ _ _ 4]
    by (simp add: min_def)
qed

lemma unat_window_field:
  assumes "unat (local_window_shift f) \<le> 14"
    and "namespace_acked f = seq_at b p" "receive_edge f = seq_at b e" "p \<le> e" "e < p + 2 ^ 31"
  shows "unat (window_field False f) = min 65535 ((e - p) div 2 ^ unat (local_window_shift f))"
proof -
  let ?from = "if after (receive_edge f) (namespace_acked f)
    then distance (namespace_acked f) (receive_edge f) else 0"
  have "unat ?from = e - p"
    using assms before_at [of p e b] unat_distance [of p e b] by (auto simp: after_def)
  then have "unat (shr ?from (local_window_shift f)) = (e - p) div 2 ^ unat (local_window_shift f)"
    using assms by (simp only: shr_def unat_drop_bit_eq) (simp add: drop_bit_eq_div)
  then show ?thesis
    by (simp add: window_field_def Let_def unsigned_ucast_eq take_bit_eq_mod min_def)
qed

text \<open>
  C30. The window field on the wire is a promise the flow keeps. Measured from the acknowledgment, the
  scaled field never reaches beyond the receive edge, and a segment that starts at the next expected
  number and ends within the promised window is accepted in order and advances the flow by its
  length.
\<close>

theorem window_promise_honoured:
  assumes "unat (local_window_shift f) \<le> 14"
    and pos: "namespace_acked f = seq_at b p" "namespace_next f = seq_at b n" "receive_edge f = seq_at b e"
    and order: "p \<le> n" "n \<le> e" "e < p + 2 ^ 31"
    and fits: "n + len \<le> p + unat (window_field False f) * 2 ^ unat (local_window_shift f)"
  shows "p + unat (window_field False f) * 2 ^ unat (local_window_shift f) \<le> e \<and>
    fst (receive (namespace_next f) ack w len False False f) = InOrder len False \<and>
    namespace_next (snd (receive (namespace_next f) ack w len False False f)) = seq_at b (n + len)"
proof -
  have "unat (window_field False f) * 2 ^ unat (local_window_shift f) \<le>
      (e - p) div 2 ^ unat (local_window_shift f) * 2 ^ unat (local_window_shift f)"
    using unat_window_field [OF assms(1) pos(1,3)] order by (intro mult_le_mono1) simp
  also have "\<dots> \<le> e - p"
    by (rule div_times_less_eq_dividend)
  finally have w: "p + unat (window_field False f) * 2 ^ unat (local_window_shift f) \<le> e"
    using order by linarith
  have "unat (advertised_window (receive_ack ack w f)) = e - n"
    using order before_at [of n e b] unat_distance [of n e b]
    by (auto simp: advertised_window_def after_def pos)
  moreover have "len \<le> e - n"
    using w fits by linarith
  ultimately show ?thesis
    using w order pos
    by (simp add: receive_def receive_segment_def Let_def seq_at_add del: of_nat_add)
qed

theorem window_promise_honoured_witness:
  "fst (receive 4 None 65535 1460 False False sample_received) = InOrder 1460 False"
proof -
  have f: "local_window_shift sample_received = 0" "namespace_next sample_received = 4"
    "namespace_acked sample_received = seq_at 4294967291 1" "window_field False sample_received = 65535"
    "(4 :: u32) = seq_at 4294967291 9" "receive_edge sample_received = seq_at 4294967291 65536"
    by (simp_all add: sample_received_eq sample_connected_eq seq_at_def window_field_def flow_eval)
  show ?thesis
    using window_promise_honoured [of sample_received "4294967291" 1 9 65536 1460 None 65535] f by simp
qed

text \<open>
  Nothing is accepted twice: once a segment with payload or FIN has been accepted in order, a
  retransmission of it, with whatever payload, window and acknowledgment, is a duplicate and
  advances nothing.
\<close>

theorem receive_replay_is_duplicate:
  assumes "receive sq ack w len fin False f = (InOrder len fin, f')" and "0 < len \<or> fin" "len < 2 ^ 31"
  shows "fst (receive sq ack' w' len' fin' False f') = Duplicate \<and>
    namespace_next (snd (receive sq ack' w' len' fin' False f')) = namespace_next f'"
proof -
  define g where "g = receive_ack ack w f"
  have seg: "receive_segment sq len fin g = (InOrder len fin, f')"
    using assms by (simp add: receive_def g_def)
  then have sq: "sq = namespace_next g"
    by (auto simp: receive_segment_def split: if_splits)
  define m where "m = len + of_bool fin"
  have m: "0 < m" "m \<le> 2 ^ 31"
    using assms by (auto simp: m_def)
  have next': "namespace_next f' = seq_at sq m"
    using seg by (cases rule: receive_segment_cases) (auto simp: sq m_def seq_at_def)
  have d: "unat (sq - seq_at sq m) = 2 ^ 32 - m"
    using unat_seq_diff_less [of 0 m sq] m by simp
  then have "before sq (seq_at sq m)"
    using m by (simp add: before_def sint_neg_iff)
  moreover have "sq \<noteq> seq_at sq m"
    using d m by auto
  ultimately show ?thesis
    using next' by (simp add: receive_def receive_segment_def)
qed

theorem receive_replay_is_duplicate_witness:
  "fst (receive 4294967292 None 0 8 True False sample_received) = Duplicate"
  using receive_replay_is_duplicate [OF sample_received_step, of None 0 8 True]
  by (simp add: sample_received_eq)

section \<open>Closing\<close>

text \<open>
  A flow is in \<open>TimeWait\<close> only after both directions have been closed, and once its own FIN is
  committed it is in a closing state in which the data plane reads and sends no more payload.
\<close>

theorem time_wait_after_both_fins:
  assumes "flow_run f h"
  shows "(state f = TimeWait \<longrightarrow> 0 < fins h \<and> socket_fin f) \<and>
    (local_fin_sequence f \<noteq> None \<longrightarrow>
       socket_fin f \<and> state f \<in> {SocketFinReceived, Closing, TimeWait, Closed})"
  using flow_run_ok [OF assms] by (auto simp: closing_ok_def inbound_ok_def)

theorem time_wait_after_both_fins_witness:
  "state sample_received \<noteq> TimeWait"
  using time_wait_after_both_fins [OF sample_received_run] by (simp add: sample_history_def)

lemma record_upstream_ack_at:
  assumes "upstream_acked f < a" "a \<le> upstream_submitted f"
    and "unat (upstream_ack_baseline f) + unat a < 2 ^ 64"
  shows "namespace_acked (snd (record_upstream_ack (upstream_ack_baseline f + a) f)) =
    seq_at (namespace_initial f + 1) (unat a + of_bool (namespace_fin f \<and> a = upstream_submitted f))"
proof -
  have "upstream_ack_baseline f \<le> upstream_ack_baseline f + a"
    using assms by (simp add: word_le_nat_alt unat_word_ariths)
  then have "\<not> upstream_ack_baseline f + a < upstream_ack_baseline f"
    by (simp add: not_less)
  then have "min (saturating_sub (upstream_ack_baseline f + a) (upstream_ack_baseline f)) (upstream_submitted f) = a"
    using assms by (simp add: saturating_sub_def min_def)
  moreover have "\<not> a \<le> upstream_acked f"
    using assms(1) by (simp add: not_le)
  ultimately show ?thesis
    by (simp add: record_upstream_ack_def Let_def seq_at_def)
qed

lemma receive_first_fin:
  assumes ok: "inbound_ok f h" and "fins h = 0" "upstream_acked f = upstream_submitted f"
    and "0 < len" "len \<le> unat (advertised_window f)"
  obtains f1 where "receive (namespace_next f) ack w len True False f = (InOrder len True, f1)"
    "namespace_acked f1 = seq_at (namespace_initial f + 1) (received h + len + 1)"
    "upstream_submitted f1 = upstream_submitted f" "upstream_acked f1 = upstream_submitted f"
    "upstream_ack_baseline f1 = upstream_ack_baseline f" "namespace_initial f1 = namespace_initial f"
proof -
  define g where "g = receive_ack ack w f"
  define f1 where "f1 = receive_fin (g\<lparr>namespace_next := namespace_next g + word_of_nat len\<rparr>)"
  have g: "namespace_next g = namespace_next f" "advertised_window g = advertised_window f"
    by (simp_all add: g_def advertised_window_def)
  have "len < 2 ^ 32"
    using le_less_trans [OF assms(5) unsigned_less [of "advertised_window f"]] by simp
  then have r: "receive (namespace_next f) ack w len True False f = (InOrder len True, f1)"
    using assms(4,5) by (simp add: receive_def g_def [symmetric] receive_segment_def g Let_def f1_def)
  have acked: "namespace_acked f1 = seq_at (namespace_initial f + 1) (received h + len + 1)"
  proof -
    have "namespace_acked f1 = namespace_next f + word_of_nat len + 1"
      using assms(3) by (simp add: f1_def receive_fin_def Let_def g_def)
    moreover have "namespace_next f = seq_at (namespace_initial f + 1) (received h)"
      using ok assms(2) by (simp add: inbound_ok_def)
    ultimately show ?thesis
      by (simp add: seq_at_def add.assoc)
  qed
  have same: "upstream_submitted f1 = upstream_submitted f" "upstream_acked f1 = upstream_submitted f"
    "upstream_ack_baseline f1 = upstream_ack_baseline f" "namespace_initial f1 = namespace_initial f"
    using assms(3) by (simp_all add: f1_def receive_fin_def Let_def g_def receive_ack_def acknowledge_local_def
        split: option.splits)
  show thesis
    by (rule that [OF r acked same])
qed

text \<open>
  C40. A FIN that carries payload is acknowledged too early. In every run in which the upstream kernel
  has acknowledged everything submitted to it so far, an in-order segment with payload and the first
  FIN of the namespace moves the acknowledgment over the whole stream and the FIN, although nothing
  of the segment has been submitted; and when \<open>n\<close> further bytes are then submitted and the upstream
  kernel acknowledges \<open>k < n\<close> of them, the acknowledgment number moves back to the position after
  these \<open>k\<close> bytes.
\<close>

theorem fin_acknowledges_unsubmitted_payload:
  assumes "flow_run f h" "fins h = 0" "upstream_acked f = upstream_submitted f"
    and "0 < len" "len \<le> unat (advertised_window f)"
    and "0 < k" "k < n" "unat (upstream_submitted f) + n \<le> received h + len"
    and "unat (upstream_ack_baseline f) + received h + len < 2 ^ 64"
  shows "\<exists>f1. receive (namespace_next f) ack w len True False f = (InOrder len True, f1) \<and>
    upstream_submitted f1 = upstream_submitted f \<and> unat (upstream_submitted f1) \<le> received h \<and>
    namespace_acked f1 = seq_at (namespace_initial f + 1) (received h + len + 1) \<and>
    namespace_acked (snd (record_upstream_ack
        (upstream_ack_baseline f + upstream_submitted f + word_of_nat k) (record_upstream_submitted n f1))) =
      seq_at (namespace_initial f + 1) (unat (upstream_submitted f) + k)"
proof -
  have ok: "inbound_ok f h"
    using flow_run_ok [OF assms(1)] by simp
  obtain f1 where r: "receive (namespace_next f) ack w len True False f = (InOrder len True, f1)"
    and acked: "namespace_acked f1 = seq_at (namespace_initial f + 1) (received h + len + 1)"
    and same: "upstream_submitted f1 = upstream_submitted f" "upstream_acked f1 = upstream_submitted f"
      "upstream_ack_baseline f1 = upstream_ack_baseline f" "namespace_initial f1 = namespace_initial f"
    using receive_first_fin [OF ok assms(2-5)] by blast
  have small: "n < 2 ^ 64" "unat (upstream_submitted f) + n < 2 ^ 64"
    "unat (upstream_ack_baseline f) + unat (upstream_submitted f) + k < 2 ^ 64"
    using assms(7-9) by linarith+
  define f2 where "f2 = record_upstream_submitted n f1"
  define a where "a = upstream_submitted f + word_of_nat k"
  have a: "unat a = unat (upstream_submitted f) + k"
    using small assms(7) by (simp add: a_def unat_word_ariths unsigned_of_nat take_bit_eq_mod)
  have sub: "unat (upstream_submitted f2) = unat (upstream_submitted f) + n"
    using small by (simp add: f2_def record_upstream_submitted_def same unat_saturating_add unsigned_of_nat take_bit_eq_mod)
  have "namespace_acked (snd (record_upstream_ack (upstream_ack_baseline f2 + a) f2)) =
    seq_at (namespace_initial f2 + 1) (unat a + of_bool (namespace_fin f2 \<and> a = upstream_submitted f2))"
    using small assms(6,7) a sub
    by (intro record_upstream_ack_at) (simp_all add: word_le_nat_alt word_less_nat_alt, simp_all add: f2_def record_upstream_submitted_def same)
  moreover have "a \<noteq> upstream_submitted f2"
    using a sub assms(7) by auto
  ultimately have "namespace_acked (snd (record_upstream_ack (upstream_ack_baseline f + a) f2)) =
      seq_at (namespace_initial f + 1) (unat (upstream_submitted f) + k)"
    by (simp add: a) (simp add: f2_def record_upstream_submitted_def same)
  then show ?thesis
    using r acked same ok by (auto simp: a_def f2_def add.assoc inbound_ok_def)
qed

theorem fin_acknowledges_unsubmitted_payload_witness:
  "\<exists>f1. receive 4294967292 (Some 101) 65535 8 True False sample_connected = (InOrder 8 True, f1) \<and>
    upstream_submitted f1 = 0 \<and> namespace_acked f1 = seq_at 4294967292 9 \<and>
    namespace_acked (snd (record_upstream_ack 13 (record_upstream_submitted 8 f1))) = seq_at 4294967292 3"
proof -
  have "namespace_next sample_connected = 4294967292" "upstream_submitted sample_connected = 0"
    "upstream_acked sample_connected = 0" "upstream_ack_baseline sample_connected = 10"
    "unat (advertised_window sample_connected) = 65535" "namespace_initial sample_connected + 1 = 4294967292"
    by (simp_all add: sample_connected_eq flow_eval)
  then show ?thesis
    using fin_acknowledges_unsubmitted_payload [OF sample_connected_run, of 8 3 8 "Some 101" 65535] by auto
qed

text \<open>
  Two acknowledgments the flow accepts although nothing justifies them. With nothing in flight, the
  number opposite to \<open>local_unacked\<close> moves \<open>local_unacked\<close> \<open>2 ^ 31\<close> positions past \<open>local_next\<close> and
  leaves no send window; and once the namespace's FIN has arrived, any number after the local FIN
  moves the flow to \<open>TimeWait\<close>, even one beyond everything that was sent, which leaves the local FIN
  unacknowledged.
\<close>

theorem unjustified_acknowledgments:
  "(\<forall>f. local_unacked f = local_next f \<and> local_fin_sequence f = None \<longrightarrow>
      available_namespace_window (acknowledge_local (local_next f + 2 ^ 31) f) = unat (peer_window f) - 2 ^ 31 \<and>
      local_unacked (acknowledge_local (local_next f + 2 ^ 31) f) = local_next f + 2 ^ 31) \<and>
   (\<forall>f s. local_fin_sequence f = Some s \<and> namespace_fin f \<and> local_next f = s + 1 \<and> local_unacked f = s \<longrightarrow>
      state (acknowledge_local (s + 1000) f) = TimeWait \<and>
      local_unacked (acknowledge_local (s + 1000) f) = s)"
proof (intro conjI allI impI)
  fix f :: flow
  assume "local_unacked f = local_next f \<and> local_fin_sequence f = None"
  then show "available_namespace_window (acknowledge_local (local_next f + 2 ^ 31) f) =
      unat (peer_window f) - 2 ^ 31"
    and "local_unacked (acknowledge_local (local_next f + 2 ^ 31) f) = local_next f + 2 ^ 31"
    by (simp_all add: flow_eval)
next
  fix f :: flow and s :: u32
  assume "local_fin_sequence f = Some s \<and> namespace_fin f \<and> local_next f = s + 1 \<and> local_unacked f = s"
  then show "state (acknowledge_local (s + 1000) f) = TimeWait"
    and "local_unacked (acknowledge_local (s + 1000) f) = s"
    by (simp_all add: flow_eval)
qed

theorem unjustified_acknowledgments_witness:
  "available_namespace_window (acknowledge_local (101 + 2 ^ 31) sample_received) = 0 \<and>
   state (acknowledge_local 1101 (sample_received\<lparr>local_next := 102, namespace_fin := True,
     local_fin_sequence := Some 101\<rparr>)) = TimeWait"
  using conjunct1 [OF unjustified_acknowledgments, rule_format, of sample_received]
    conjunct2 [OF unjustified_acknowledgments, rule_format,
      of "sample_received\<lparr>local_next := 102, namespace_fin := True, local_fin_sequence := Some 101\<rparr>" 101]
  by (simp add: sample_received_eq sample_connected_eq)

end
