(* ===== verification/Timer_Wheel.thy ===== *)
theory Timer_Wheel
  imports Prelude
begin

text \<open>
  The hashed timer wheel of \<open>crates/tcp-adapter/src/timer.rs\<close>. Instants and durations are counted in
  nanoseconds. The drain loop of \<open>expire\<close> runs over a saturating \<open>u64\<close> cursor and does not end when
  the target tick is \<open>u64::MAX\<close>, so it is a partial function whose value is \<open>None\<close> when the loop
  does not return; \<open>timer_expire_returns\<close> shows that it returns for every other target.
\<close>

section \<open>Data and operations\<close>

datatype timer_kind = Retransmit | Connect | Idle | TimeWaitTimer | ZeroWindowProbeTimer

record 'k timer_entry =
  timer_key :: 'k
  kind :: timer_kind
  deadline :: instant
  timer_sequence :: u32

record 'k timer_wheel =
  epoch :: instant
  tick :: duration
  cursor :: u64
  buckets :: "'k timer_entry list list"

definition timer_new :: "instant \<Rightarrow> duration \<Rightarrow> usize \<Rightarrow> 'k timer_wheel option" where
  "timer_new e t n =
     (if n > 0 then Some \<lparr>epoch = e, tick = t, cursor = 0, buckets = replicate n []\<rparr> else None)"

text \<open>\<open>saturating_duration_since\<close> is truncated subtraction; the quotient is cut to 64 bits.\<close>

definition tick_of :: "'k timer_wheel \<Rightarrow> instant \<Rightarrow> u64" where
  "tick_of wh at = word_of_nat ((at - epoch wh) div max (tick wh) 1)"

definition slot_of :: "'k timer_wheel \<Rightarrow> u64 \<Rightarrow> nat" where
  "slot_of wh ticks = unat ticks mod length (buckets wh)"

definition schedule :: "'k timer_entry \<Rightarrow> 'k timer_wheel \<Rightarrow> 'k timer_wheel" where
  "schedule entry wh =
     (let slot = slot_of wh (tick_of wh (deadline entry))
      in wh\<lparr>buckets := (buckets wh)[slot := buckets wh ! slot @ [entry]]\<rparr>)"

text \<open>
  The inner loop pops \<open>count\<close> entries of one bucket; \<open>None\<close> is the panic of its \<open>expect\<close>.
\<close>

fun drain_bucket ::
  "nat \<Rightarrow> instant \<Rightarrow> nat \<Rightarrow> 'k timer_wheel \<Rightarrow> 'k timer_entry list \<Rightarrow>
     ('k timer_wheel \<times> 'k timer_entry list) option" where
  "drain_bucket 0 now slot wh out = Some (wh, out)"
| "drain_bucket (Suc n) now slot wh out =
     (case buckets wh ! slot of
        [] \<Rightarrow> None
      | entry # rest \<Rightarrow>
          let wh = wh\<lparr>buckets := (buckets wh)[slot := rest]\<rparr>
          in if deadline entry \<le> now then drain_bucket n now slot wh (out @ [entry])
             else drain_bucket n now slot (schedule entry wh) out)"

partial_function (option) expire_loop ::
  "u64 \<Rightarrow> instant \<Rightarrow> 'k timer_wheel \<Rightarrow> 'k timer_entry list \<Rightarrow>
     ('k timer_wheel \<times> 'k timer_entry list) option" where
  "expire_loop target now wh out =
     (if cursor wh \<le> target then
        let slot = slot_of wh (cursor wh)
        in Option.bind (drain_bucket (length (buckets wh ! slot)) now slot wh out)
             (\<lambda>(wh, out). expire_loop target now (wh\<lparr>cursor := saturating_add (cursor wh) 1\<rparr>) out)
      else Some (wh, out))"

definition timer_expire ::
  "instant \<Rightarrow> 'k timer_wheel \<Rightarrow> 'k timer_entry list \<Rightarrow>
     ('k timer_wheel \<times> 'k timer_entry list) option" where
  "timer_expire now wh out = expire_loop (tick_of wh now) now wh out"

section \<open>The wheel invariant\<close>

text \<open>Every entry sits in the bucket of its own deadline.\<close>

definition wheel_ok :: "'k timer_wheel \<Rightarrow> bool" where
  "wheel_ok wh \<longleftrightarrow> buckets wh \<noteq> [] \<and>
     (\<forall>i < length (buckets wh). \<forall>e \<in> set (buckets wh ! i). slot_of wh (tick_of wh (deadline e)) = i)"

definition pending :: "'k timer_wheel \<Rightarrow> 'k timer_entry multiset" where
  "pending wh = mset (concat (buckets wh))"

lemma slot_in_range: "wheel_ok wh \<Longrightarrow> slot_of wh t < length (buckets wh)"
  by (simp add: slot_of_def wheel_ok_def)

lemma slot_of_update [simp]:
  "length bs = length (buckets wh) \<Longrightarrow> slot_of (wh\<lparr>buckets := bs\<rparr>) t = slot_of wh t"
  "tick_of (wh\<lparr>buckets := bs\<rparr>) at = tick_of wh at"
  "slot_of (wh\<lparr>cursor := c\<rparr>) t = slot_of wh t"
  "tick_of (wh\<lparr>cursor := c\<rparr>) at = tick_of wh at"
  by (simp_all add: slot_of_def tick_of_def)

lemma timer_new_ok: "timer_new e t n = Some wh \<Longrightarrow> wheel_ok wh \<and> pending wh = {#} \<and> cursor wh = 0"
  by (auto simp: timer_new_def wheel_ok_def pending_def split: if_splits)

lemma mset_concat_update:
  "i < length bs \<Longrightarrow> mset (concat (bs[i := b])) + mset (bs ! i) = mset (concat bs) + mset b"
proof (induction bs arbitrary: i)
  case (Cons x xs)
  then show ?case
    by (cases i) (auto simp: ac_simps)
qed simp

lemma schedule_ok:
  assumes "wheel_ok wh"
  shows "wheel_ok (schedule entry wh) \<and> pending (schedule entry wh) = add_mset entry (pending wh)"
proof -
  let ?s = "slot_of wh (tick_of wh (deadline entry))"
  have s: "?s < length (buckets wh)"
    using assms by (rule slot_in_range)
  have "mset (concat ((buckets wh)[?s := buckets wh ! ?s @ [entry]])) = add_mset entry (mset (concat (buckets wh)))"
    using mset_concat_update [OF s, of "buckets wh ! ?s @ [entry]"] by simp
  then show ?thesis
    using assms s by (auto simp: schedule_def Let_def wheel_ok_def pending_def nth_list_update)
qed

text \<open>
  Draining a bucket splits it: the due entries move to the output in order, the others stay in the
  bucket in order, and no other bucket changes.
\<close>

lemma drain_bucket_ok:
  assumes "slot < length (buckets wh)" "buckets wh ! slot = todo @ done"
    and "\<forall>e \<in> set todo. slot_of wh (tick_of wh (deadline e)) = slot"
  shows "drain_bucket (length todo) now slot wh out =
    Some (wh\<lparr>buckets := (buckets wh)[slot := done @ filter (\<lambda>e. now < deadline e) todo]\<rparr>,
          out @ filter (\<lambda>e. deadline e \<le> now) todo)"
  using assms
proof (induction todo arbitrary: wh "done" out)
  case Nil
  then have "(buckets wh)[slot := done] = buckets wh"
    by (simp add: list_update_same_conv)
  then show ?case
    by simp
next
  case (Cons e es)
  then show ?case
    by (simp add: schedule_def Let_def not_le [symmetric])
qed

text \<open>The buckets that the cursor passes on its way from \<open>a\<close> up to and including \<open>b\<close>.\<close>

definition visited :: "'k timer_wheel \<Rightarrow> nat \<Rightarrow> nat \<Rightarrow> nat \<Rightarrow> bool" where
  "visited wh a b i \<longleftrightarrow> (\<exists>t. a \<le> t \<and> t \<le> b \<and> t mod length (buckets wh) = i)"

definition expired_to :: "'k timer_wheel \<Rightarrow> instant \<Rightarrow> nat \<Rightarrow> nat \<Rightarrow> 'k timer_wheel \<Rightarrow> bool" where
  "expired_to wh now a b wh' \<longleftrightarrow>
     length (buckets wh') = length (buckets wh) \<and> epoch wh' = epoch wh \<and> tick wh' = tick wh \<and>
     (\<forall>i < length (buckets wh). buckets wh' ! i =
        (if visited wh a b i then filter (\<lambda>e. now < deadline e) (buckets wh ! i) else buckets wh ! i))"

lemma visited_step:
  assumes "a \<le> b"
  shows "visited wh a b i \<longleftrightarrow> i = a mod length (buckets wh) \<or> visited wh (Suc a) b i"
proof -
  have "(a \<le> t \<and> t \<le> b) \<longleftrightarrow> t = a \<or> (Suc a \<le> t \<and> t \<le> b)" for t
    using assms by auto
  then show ?thesis
    unfolding visited_def by metis
qed

lemma visited_cong: "length (buckets w2) = length (buckets wh) \<Longrightarrow> visited w2 a b i = visited wh a b i"
  by (simp add: visited_def)

lemma expired_to_step:
  assumes a: "a \<le> b" and s: "s = a mod length (buckets wh)" "s < length (buckets wh)"
    and wn: "wn = wh\<lparr>buckets := (buckets wh)[s := filter (\<lambda>e. now < deadline e) (buckets wh ! s)], cursor := c\<rparr>"
    and rest: "expired_to wn now (Suc a) b wh'"
  shows "expired_to wh now a b wh'"
proof -
  have "visited wn (Suc a) b i = visited wh (Suc a) b i" for i
    by (rule visited_cong) (simp add: wn)
  then show ?thesis
    using rest s by (simp add: expired_to_def visited_step [OF a] wn nth_list_update)
qed

lemma expire_loop_ok:
  assumes "wheel_ok wh" "unat target < 2 ^ 64 - 1" "unat (cursor wh) \<le> unat target + 1"
  shows "\<exists>wh' new. expire_loop target now wh out = Some (wh', out @ new) \<and>
    cursor wh' = target + 1 \<and> expired_to wh now (unat (cursor wh)) (unat target) wh' \<and>
    wheel_ok wh' \<and> pending wh = pending wh' + mset new \<and> (\<forall>e \<in> set new. deadline e \<le> now)"
  using assms
proof (induction "unat target + 1 - unat (cursor wh)" arbitrary: wh out)
  case 0
  then have "unat (cursor wh) = unat target + 1" "unat (target + 1) = unat target + 1"
    by (simp_all add: unat_word_ariths)
  then have "cursor wh = target + 1" "\<not> cursor wh \<le> target"
    by (auto simp: word_le_nat_alt word_unat_eq_iff)
  then show ?case
    using 0 by (subst expire_loop.simps) (auto simp: expired_to_def visited_def)
next
  case (Suc k)
  define s where "s = slot_of wh (cursor wh)"
  define keep where "keep = filter (\<lambda>e. now < deadline e) (buckets wh ! s)"
  define due where "due = filter (\<lambda>e. deadline e \<le> now) (buckets wh ! s)"
  define w1 where "w1 = wh\<lparr>buckets := (buckets wh)[s := keep]\<rparr>"
  define w2 where "w2 = w1\<lparr>cursor := saturating_add (cursor wh) 1\<rparr>"
  have s: "s < length (buckets wh)"
    using Suc.prems by (simp add: s_def slot_in_range)
  have drain: "drain_bucket (length (buckets wh ! s)) now s wh out = Some (w1, out @ due)"
    using drain_bucket_ok [of s wh "buckets wh ! s" "[]" now out] s Suc.prems
    by (simp add: w1_def keep_def due_def wheel_ok_def)
  have le: "cursor wh \<le> target"
    using Suc by (simp add: word_le_nat_alt)
  then have c: "unat (cursor w2) = unat (cursor wh) + 1"
    using Suc.prems by (simp add: w2_def unat_saturating_add word_le_nat_alt)
  have ok: "wheel_ok w2"
    using Suc.prems s by (auto simp: wheel_ok_def w1_def w2_def keep_def nth_list_update)
  have "\<exists>wh' new. expire_loop target now w2 (out @ due) = Some (wh', (out @ due) @ new) \<and>
    cursor wh' = target + 1 \<and> expired_to w2 now (unat (cursor w2)) (unat target) wh' \<and>
    wheel_ok wh' \<and> pending w2 = pending wh' + mset new \<and> (\<forall>e \<in> set new. deadline e \<le> now)"
    using Suc.hyps(2) Suc.prems le c ok by (intro Suc.hyps(1)) (auto simp: word_le_nat_alt)
  then obtain wh' new where step: "expire_loop target now w2 (out @ due) = Some (wh', (out @ due) @ new)"
    "cursor wh' = target + 1" "expired_to w2 now (unat (cursor w2)) (unat target) wh'"
    "wheel_ok wh'" "pending w2 = pending wh' + mset new" "\<forall>e \<in> set new. deadline e \<le> now"
    by blast
  have "expire_loop target now wh out = Some (wh', out @ due @ new)"
    using le drain step(1) by (subst expire_loop.simps) (simp add: s_def [symmetric] w2_def w1_def Let_def)
  moreover have "expired_to wh now (unat (cursor wh)) (unat target) wh'"
  proof (rule expired_to_step [OF _ _ s])
    show "unat (cursor wh) \<le> unat target"
      using le by (simp add: word_le_nat_alt)
    show "s = unat (cursor wh) mod length (buckets wh)"
      by (simp add: s_def slot_of_def)
    show "w2 = wh\<lparr>buckets := (buckets wh)[s := filter (\<lambda>e. now < deadline e) (buckets wh ! s)],
        cursor := saturating_add (cursor wh) 1\<rparr>"
      by (simp add: w2_def w1_def keep_def)
    show "expired_to w2 now (Suc (unat (cursor wh))) (unat target) wh'"
      using step(3) c by simp
  qed
  moreover have "pending wh = pending wh' + mset (due @ new)"
  proof -
    have "mset (buckets wh ! s) = mset keep + mset due"
      by (simp add: keep_def due_def not_le [symmetric] mset_filter flip: multiset_partition)
    then show ?thesis
      using mset_concat_update [OF s, of keep] step(5)
      by (simp add: pending_def w2_def w1_def ac_simps)
  qed
  ultimately show ?case
    using step by (intro exI [of _ wh'] exI [of _ "due @ new"]) (auto simp: due_def)
qed

section \<open>Properties\<close>

text \<open>
  C35. Expiry conserves timers and is never early. \<open>expire\<close> returns (for every target below
  \<open>u64::MAX\<close>), the entries it appends together with those left in the wheel are exactly those that
  were in the wheel, every appended entry is due, and every due entry whose tick the cursor had not
  passed is appended.
\<close>

theorem timer_expire_conserves:
  assumes ok: "wheel_ok wh" and t: "unat (tick_of wh now) < 2 ^ 64 - 1"
    and c: "unat (cursor wh) \<le> unat (tick_of wh now) + 1"
  shows "\<exists>wh' new. timer_expire now wh out = Some (wh', out @ new) \<and> wheel_ok wh' \<and>
    cursor wh' = tick_of wh now + 1 \<and> pending wh = pending wh' + mset new \<and>
    (\<forall>e \<in> set new. deadline e \<le> now) \<and>
    (\<forall>e \<in># pending wh'. deadline e \<le> now \<longrightarrow>
       (\<forall>k. unat (cursor wh) \<le> k \<and> k \<le> unat (tick_of wh now) \<longrightarrow>
          k mod length (buckets wh) \<noteq> slot_of wh (tick_of wh (deadline e))))"
proof -
  from expire_loop_ok [OF ok t c, of now out] obtain wh' new where
    r: "timer_expire now wh out = Some (wh', out @ new)" "cursor wh' = tick_of wh now + 1"
      "expired_to wh now (unat (cursor wh)) (unat (tick_of wh now)) wh'" "wheel_ok wh'"
      "pending wh = pending wh' + mset new" "\<forall>e \<in> set new. deadline e \<le> now"
    by (auto simp: timer_expire_def)
  have "k mod length (buckets wh) \<noteq> slot_of wh (tick_of wh (deadline e))"
    if e: "e \<in># pending wh'" "deadline e \<le> now" and k: "unat (cursor wh) \<le> k" "k \<le> unat (tick_of wh now)"
    for e k
  proof
    assume hit: "k mod length (buckets wh) = slot_of wh (tick_of wh (deadline e))"
    from e(1) obtain i where i: "i < length (buckets wh')" "e \<in> set (buckets wh' ! i)"
      by (auto simp: pending_def) (metis in_set_conv_nth)
    have same: "tick_of wh' = tick_of wh" "slot_of wh' = slot_of wh"
      using r(3) by (auto simp: expired_to_def tick_of_def slot_of_def fun_eq_iff)
    then have "i = slot_of wh (tick_of wh (deadline e))"
      using r(4) i by (simp add: wheel_ok_def)
    then have "visited wh (unat (cursor wh)) (unat (tick_of wh now)) i"
      using hit k by (auto simp: visited_def)
    then have "e \<in> set (filter (\<lambda>e. now < deadline e) (buckets wh ! i))"
      using r(3) i by (simp add: expired_to_def)
    then show False
      using e(2) by simp
  qed
  then show ?thesis
    using r by blast
qed

definition sample_entry :: "nat \<Rightarrow> nat timer_entry" where
  "sample_entry d = \<lparr>timer_key = 7, kind = Connect, deadline = d, timer_sequence = 0\<rparr>"

definition sample_wheel :: "nat timer_wheel" where
  "sample_wheel = schedule (sample_entry 25) \<lparr>epoch = 0, tick = 10, cursor = 0, buckets = replicate 4 []\<rparr>"

lemma sample_wheel_ok: "wheel_ok sample_wheel"
  unfolding sample_wheel_def by (rule conjunct1 [OF schedule_ok]) (simp add: wheel_ok_def)

theorem timer_expire_conserves_witness:
  "\<exists>wh' new. timer_expire 40 sample_wheel [] = Some (wh', new) \<and> pending sample_wheel = pending wh' + mset new"
proof -
  have "tick_of sample_wheel 40 = 4" "cursor sample_wheel = 0"
    by (simp_all add: sample_wheel_def sample_entry_def tick_of_def schedule_def Let_def)
  then show ?thesis
    using timer_expire_conserves [OF sample_wheel_ok, of 40 "[]"] by auto
qed

text \<open>
  A timer can be overslept by a whole turn of the wheel. After \<open>expire\<close> the cursor is past the
  current tick, so an entry whose deadline lies later in that tick, whether it was already in the
  wheel or is scheduled afterwards, is skipped by every expiry until the cursor comes round to its
  bucket again: with a 10 ns tick and four buckets, an entry due at 8 that is in the wheel during an
  expiry at 5 is not returned by the expiry at 39.
\<close>

theorem timer_overslept:
  "\<exists>wh1 wh2. timer_expire 5 \<lparr>epoch = 0, tick = 10, cursor = 0, buckets = [[sample_entry 8], [], [], []]\<rparr> [] =
       Some (wh1, []) \<and>
     timer_expire 39 wh1 [] = Some (wh2, []) \<and> sample_entry 8 \<in># pending wh2"
proof (intro exI conjI)
  show "timer_expire 5 \<lparr>epoch = 0, tick = 10, cursor = 0, buckets = [[sample_entry 8], [], [], []]\<rparr> [] =
       Some (\<lparr>epoch = 0, tick = 10, cursor = 1, buckets = [[sample_entry 8], [], [], []]\<rparr>, [])"
    by (simp add: timer_expire_def expire_loop.simps tick_of_def slot_of_def schedule_def sample_entry_def
        saturating_add_def)
  show "timer_expire 39 \<lparr>epoch = 0, tick = 10, cursor = 1, buckets = [[sample_entry 8], [], [], []]\<rparr> [] =
       Some (\<lparr>epoch = 0, tick = 10, cursor = 4, buckets = [[sample_entry 8], [], [], []]\<rparr>, [])"
    by (simp add: timer_expire_def expire_loop.simps tick_of_def slot_of_def saturating_add_def)
qed (simp add: pending_def)

end
