(* ===== verification/Launch_Config.thy ===== *)
theory Launch_Config
  imports Reactor_Config
begin

text \<open>
  The launch configuration of \<open>crates/namespace/src/config.rs\<close>: its validation, and the split of the
  global limits over the workers that \<open>dataplane\<close> passes to each reactor. The command is a list of
  byte strings, paths are byte strings.
\<close>

section \<open>Data\<close>

definition MAX_WORKERS :: usize where "MAX_WORKERS = 256"
definition MIN_TAP_MTU :: u32 where "MIN_TAP_MTU = 1280"
definition MAX_TAP_MTU :: u32 where "MAX_TAP_MTU = 65520"

datatype sandbox_config = On | Off

definition sandbox_enabled :: "sandbox_config \<Rightarrow> bool" where
  "sandbox_enabled s \<longleftrightarrow> s = On"

datatype dns_mode = ProxyTcp | ProxyUdp | DnsOff

record dns_config =
  dns_mode_of :: dns_mode
  dns_resolver :: "socket_addr option"

definition dns_off :: dns_config where
  "dns_off = \<lparr>dns_mode_of = DnsOff, dns_resolver = None\<rparr>"

record network_config =
  interface_name :: string
  net_tap_mtu :: u32
  net_tap_offload :: bool
  net_target_mac :: bytes
  net_gateway_mac :: bytes
  net_target_ipv4 :: "(bytes \<times> u8) option"
  net_gateway_ipv4 :: "bytes option"
  net_target_ipv6 :: "(bytes \<times> u8) option"
  net_gateway_ipv6 :: "bytes option"

definition network_synthetic :: "bool \<Rightarrow> bool \<Rightarrow> u32 \<Rightarrow> bool \<Rightarrow> network_config" where
  "network_synthetic ipv4 ipv6 mtu offload =
     \<lparr>interface_name = ''eth0'', net_tap_mtu = mtu, net_tap_offload = offload,
      net_target_mac = [0x02, 0x79, 0x61, 0x79, 0x61, 0x02],
      net_gateway_mac = [0x02, 0x79, 0x61, 0x79, 0x61, 0x01],
      net_target_ipv4 = (if ipv4 then Some ([192, 0, 2, 2], 24) else None),
      net_gateway_ipv4 = (if ipv4 then Some [192, 0, 2, 1] else None),
      net_target_ipv6 =
        (if ipv6 then Some ([0xfd, 0x79, 0x61, 0x79, 0x61, 0x74, 0x68, 0x74, 0, 0, 0, 0, 0, 0, 0, 2], 64) else None),
      net_gateway_ipv6 =
        (if ipv6 then Some [0xfd, 0x79, 0x61, 0x79, 0x61, 0x74, 0x68, 0x74, 0, 0, 0, 0, 0, 0, 0, 1] else None)\<rparr>"

datatype upstream_config = DirectUpstream bool | ProxyUpstream protocol socket_addr "credentials option"

record launch_config =
  launch_command :: "bytes list"
  instance_name :: "bytes option"
  runtime_root :: "bytes option"
  network :: network_config
  launch_upstream :: upstream_config
  dns :: dns_config
  sandbox :: sandbox_config
  total_tcp_flows :: usize
  launch_udp_enabled :: bool
  total_udp_flows :: usize
  total_udp_associations :: usize
  workers :: usize
  total_pending_bytes :: usize
  total_retained_bytes :: usize
  receive_buffer_bytes :: usize
  send_buffer_bytes :: usize

datatype config_error = EmptyCommand | NoIpFamily | InvalidFlowLimit | InvalidUdpFlowLimit
  | InvalidUdpAssociationLimit | InvalidGlobalByteLimit | InvalidSocketBufferLimit | InvalidTapMtu
  | InvalidName | InvalidProxyUdp | InvalidWorkerCount | InsufficientWorkerFlows | InsufficientWorkerBytes

section \<open>Operations\<close>

text \<open>\<open>None\<close> is the panic of a division by zero.\<close>

definition worker_share :: "usize \<Rightarrow> usize \<Rightarrow> usize \<Rightarrow> usize option" where
  "worker_share total_limit n i =
     (if n = 0 then None else Some (total_limit div n + (if i < total_limit mod n then 1 else 0)))"

definition dataplane_upstream :: "upstream_config \<Rightarrow> upstream" where
  "dataplane_upstream u =
     (case u of DirectUpstream lb \<Rightarrow> Direct lb | ProxyUpstream pr a cr \<Rightarrow> Proxy pr a cr)"

definition dataplane :: "launch_config \<Rightarrow> usize \<Rightarrow> reactor_config option" where
  "dataplane l i =
     (case worker_share (total_tcp_flows l) (workers l) i of None \<Rightarrow> None | Some tcp \<Rightarrow>
      case worker_share (total_udp_flows l) (workers l) i of None \<Rightarrow> None | Some udp \<Rightarrow>
      case worker_share (total_udp_associations l) (workers l) i of None \<Rightarrow> None | Some assoc \<Rightarrow>
      case worker_share (total_pending_bytes l) (workers l) i of None \<Rightarrow> None | Some pending \<Rightarrow>
      case worker_share (total_retained_bytes l) (workers l) i of None \<Rightarrow> None | Some retained \<Rightarrow>
        Some \<lparr>target_mac = net_target_mac (network l), gateway_mac = net_gateway_mac (network l),
          target_ipv4 = map_option fst (net_target_ipv4 (network l)),
          gateway_ipv4 = net_gateway_ipv4 (network l),
          target_ipv6 = map_option fst (net_target_ipv6 (network l)),
          gateway_ipv6 = net_gateway_ipv6 (network l),
          tap_mtu = net_tap_mtu (network l), tap_offload = net_tap_offload (network l),
          upstream_of = dataplane_upstream (launch_upstream l),
          dns_proxy_tcp = (dns_mode_of (dns l) = ProxyTcp), dns_proxy_udp = (dns_mode_of (dns l) = ProxyUdp),
          dns_upstream = dns_resolver (dns l),
          max_tcp_flows = tcp, udp_enabled = launch_udp_enabled l, max_udp_flows = udp,
          max_udp_associations = assoc, worker_count = workers l, max_pending_tcp_bytes = pending,
          max_retained_tcp_bytes = retained, tcp_receive_buffer_bytes = receive_buffer_bytes l,
          tcp_send_buffer_bytes = send_buffer_bytes l\<rparr>)"

definition name_byte :: "u8 \<Rightarrow> bool" where
  "name_byte b \<longleftrightarrow> (48 \<le> b \<and> b \<le> 57) \<or> (65 \<le> b \<and> b \<le> 90) \<or> (97 \<le> b \<and> b \<le> 122) \<or> b \<in> set (ascii ''_.-'')"

definition saturating_mul_usize :: "usize \<Rightarrow> usize \<Rightarrow> usize" where
  "saturating_mul_usize a b = min (a * b) (2 ^ 64 - 1)"

definition in_range :: "usize \<Rightarrow> usize \<Rightarrow> usize \<Rightarrow> bool" where
  "in_range lo hi n \<longleftrightarrow> lo \<le> n \<and> n \<le> hi"

definition socks_upstream :: "upstream_config \<Rightarrow> bool" where
  "socks_upstream u = (case u of ProxyUpstream pr a cr \<Rightarrow> pr = Socks5 | DirectUpstream lb \<Rightarrow> False)"

definition validate :: "launch_config \<Rightarrow> config_error + unit" where
  "validate l =
     (if launch_command l = [] then Inl EmptyCommand
      else if net_target_ipv4 (network l) = None \<and> net_target_ipv6 (network l) = None then Inl NoIpFamily
      else if \<not> (MIN_TAP_MTU \<le> net_tap_mtu (network l) \<and> net_tap_mtu (network l) \<le> MAX_TAP_MTU)
      then Inl InvalidTapMtu
      else if \<not> in_range 1 1048576 (total_tcp_flows l) then Inl InvalidFlowLimit
      else if \<not> in_range 1 1048576 (total_udp_flows l) then Inl InvalidUdpFlowLimit
      else if \<not> in_range 1 1048576 (total_udp_associations l) then Inl InvalidUdpAssociationLimit
      else if \<not> in_range 1 MAX_WORKERS (workers l) then Inl InvalidWorkerCount
      else if \<exists>limit \<in> set [total_tcp_flows l, total_udp_flows l, total_udp_associations l]. limit < workers l
      then Inl InsufficientWorkerFlows
      else if dns_mode_of (dns l) = ProxyUdp \<and> (\<not> launch_udp_enabled l \<or> \<not> socks_upstream (launch_upstream l))
      then Inl InvalidProxyUdp
      else if \<not> in_range (16 * 1024) (1024 ^ 4) (total_pending_bytes l) \<or>
              \<not> in_range (16 * 1024) (1024 ^ 4) (total_retained_bytes l)
      then Inl InvalidGlobalByteLimit
      else let worker_byte_floor = saturating_mul_usize (workers l) (16 * 1024)
           in if total_pending_bytes l < worker_byte_floor \<or> total_retained_bytes l < worker_byte_floor
              then Inl InsufficientWorkerBytes
              else if \<not> in_range (16 * 1024) (16 * 1024 * 1024) (receive_buffer_bytes l) \<or>
                      \<not> in_range (16 * 1024) (16 * 1024 * 1024) (send_buffer_bytes l)
              then Inl InvalidSocketBufferLimit
              else if (case instance_name l of None \<Rightarrow> False | Some n \<Rightarrow> n = [] \<or> \<not> list_all name_byte n)
              then Inl InvalidName
              else Inr ())"

definition clear_proxy_credentials :: "launch_config \<Rightarrow> launch_config" where
  "clear_proxy_credentials l =
     (case launch_upstream l of
        ProxyUpstream pr a cr \<Rightarrow> l\<lparr>launch_upstream := ProxyUpstream pr a None\<rparr>
      | DirectUpstream lb \<Rightarrow> l)"

section \<open>Worker shares\<close>

lemma worker_share_bounds:
  assumes "0 < n" "worker_share t n i = Some s"
  shows "t div n \<le> s" "s \<le> t div n + 1"
  using assms by (auto simp: worker_share_def)

lemma sum_first: "(\<Sum>i<n. if i < m then 1 else 0 :: nat) = min n m"
  by (induction n) auto

lemma worker_share_total:
  assumes "0 < n"
  shows "(\<Sum>i<n. the (worker_share t n i)) = t"
proof -
  have "(\<Sum>i<n. the (worker_share t n i)) = n * (t div n) + (\<Sum>i<n. if i < t mod n then 1 else 0)"
    using assms by (simp add: worker_share_def sum.distrib)
  also have "(\<Sum>i<n. if i < t mod n then 1 else 0 :: nat) = t mod n"
    using assms by (simp only: sum_first) simp
  finally show ?thesis
    by simp
qed

lemma share_floor:
  assumes "0 < n" "n * k \<le> t" "worker_share t n i = Some s"
  shows "k \<le> s"
proof -
  have "k \<le> t div n"
    using assms(1,2) by (simp add: less_eq_div_iff_mult_less_eq mult.commute)
  then show ?thesis
    using worker_share_bounds(1) [OF assms(1,3)] by simp
qed

lemma validate_limits:
  assumes "validate l = Inr ()"
  shows "0 < workers l" "workers l \<le> 256"
    and "workers l \<le> total_tcp_flows l" "workers l \<le> total_udp_flows l" "workers l \<le> total_udp_associations l"
    and "workers l * 16384 \<le> total_pending_bytes l" "workers l * 16384 \<le> total_retained_bytes l"
    and "1280 \<le> net_tap_mtu (network l)" "net_tap_mtu (network l) \<le> 65520"
proof -
  have w: "in_range 1 MAX_WORKERS (workers l)"
    using assms by (simp add: validate_def Let_def split: if_splits)
  then show "0 < workers l" "workers l \<le> 256"
    by (simp_all add: in_range_def MAX_WORKERS_def)
  then have "workers l * 16384 \<le> 18446744073709551615"
    by linarith
  then have floor: "saturating_mul_usize (workers l) (16 * 1024) = workers l * 16384"
    by (simp add: saturating_mul_usize_def)
  show "workers l * 16384 \<le> total_pending_bytes l" "workers l * 16384 \<le> total_retained_bytes l"
    using assms by (simp_all add: validate_def Let_def floor [simplified] split: if_splits)
  show "workers l \<le> total_tcp_flows l" "workers l \<le> total_udp_flows l" "workers l \<le> total_udp_associations l"
    "1280 \<le> net_tap_mtu (network l)" "net_tap_mtu (network l) \<le> 65520"
    using assms by (simp_all add: validate_def Let_def MIN_TAP_MTU_def MAX_TAP_MTU_def split: if_splits)
qed

lemma dataplane_shares:
  assumes "0 < workers l"
  shows "\<exists>c. dataplane l i = Some c \<and>
    worker_share (total_tcp_flows l) (workers l) i = Some (max_tcp_flows c) \<and>
    worker_share (total_udp_flows l) (workers l) i = Some (max_udp_flows c) \<and>
    worker_share (total_udp_associations l) (workers l) i = Some (max_udp_associations c) \<and>
    worker_share (total_pending_bytes l) (workers l) i = Some (max_pending_tcp_bytes c) \<and>
    worker_share (total_retained_bytes l) (workers l) i = Some (max_retained_tcp_bytes c) \<and>
    worker_count c = workers l \<and> tap_mtu c = net_tap_mtu (network l) \<and>
    tap_offload c = net_tap_offload (network l)"
  using assms by (simp add: dataplane_def worker_share_def)

section \<open>Properties\<close>

lemma gso_pool_budget:
  assumes "0 < worker_count c"
  shows "\<exists>k. gso_pool_frames c = Some k \<and> (if tap_offload c
    then 1 \<le> k \<and> (k = 1 \<or> k * gso_frame_capacity c \<le> TAP_GSO_POOL_BYTES div worker_count c) else k = 0)"
proof (cases "tap_offload c")
  case True
  let ?b = "TAP_GSO_POOL_BYTES div worker_count c" and ?n = "gso_frame_capacity c"
  have "max 1 (?b div ?n) = 1 \<or> max 1 (?b div ?n) * ?n \<le> ?b"
    by (cases "?b div ?n \<le> 1") (simp_all add: max_def)
  then show ?thesis
    using True assms by (simp add: gso_pool_frames_def)
qed (simp add: gso_pool_frames_def)

lemma worker_config:
  assumes ok: "validate l = Inr ()"
  shows "\<exists>c capacity frames gso.
    dataplane l i = Some c \<and> 1 \<le> max_tcp_flows c \<and> 1 \<le> max_udp_flows c \<and> 1 \<le> max_udp_associations c \<and>
    16384 \<le> max_pending_tcp_bytes c \<and> 16384 \<le> max_retained_tcp_bytes c \<and>
    frame_capacity c = Some capacity \<and> unat (net_tap_mtu (network l)) + 14 \<le> capacity \<and>
      frame_pool_frames c capacity = Some frames \<and> 1 \<le> frames \<and>
    (frames = 1 \<or> frames * capacity \<le> TAP_FRAME_POOL_BYTES div workers l) \<and>
    gso_pool_frames c = Some gso \<and> tap_offload c = net_tap_offload (network l) \<and>
    (if tap_offload c then 1 \<le> gso \<and> (gso = 1 \<or> gso * gso_frame_capacity c \<le> TAP_GSO_POOL_BYTES div workers l)
     else gso = 0) \<and> (\<forall>t. \<exists>m. default_mss c t = Some m \<and>
        unat m = unat (net_tap_mtu (network l)) - (if is_ipv4 t then 40 else 60))"
proof -
  note v = validate_limits [OF ok]
  from dataplane_shares [OF v(1), of i] obtain c where c: "dataplane l i = Some c"
    "worker_share (total_tcp_flows l) (workers l) i = Some (max_tcp_flows c)"
    "worker_share (total_udp_flows l) (workers l) i = Some (max_udp_flows c)"
    "worker_share (total_udp_associations l) (workers l) i = Some (max_udp_associations c)"
    "worker_share (total_pending_bytes l) (workers l) i = Some (max_pending_tcp_bytes c)"
    "worker_share (total_retained_bytes l) (workers l) i = Some (max_retained_tcp_bytes c)"
    "worker_count c = workers l" "tap_mtu c = net_tap_mtu (network l)"
    "tap_offload c = net_tap_offload (network l)"
    by blast
  obtain capacity where cap: "frame_capacity c = Some capacity" "0 < capacity"
      "unat (net_tap_mtu (network l)) + 14 \<le> capacity"
    using frame_capacity_defined [of c] c(8) by (auto simp: ETHERNET_HEADER_LEN_def)
  then obtain frames where f: "frame_pool_frames c capacity = Some frames" "1 \<le> frames"
    using v(1) c(7) by (auto simp: frame_pool_frames_def Let_def)
  have mss: "\<exists>m. default_mss c t = Some m \<and>
      unat m = unat (net_tap_mtu (network l)) - (if is_ipv4 t then 40 else 60)" for t
    using default_mss_defined [of c t] v(8,9) c(8) by auto
  have "\<exists>gso. gso_pool_frames c = Some gso \<and> (if tap_offload c
      then 1 \<le> gso \<and> (gso = 1 \<or> gso * gso_frame_capacity c \<le> TAP_GSO_POOL_BYTES div workers l) else gso = 0)"
    using gso_pool_budget [of c] v(1) c(7) by auto
  then show ?thesis
    using c(1,9) cap(1,3) f frame_pool_budget [OF f(1)] c(7) mss
      share_floor [OF v(1), of 1, OF _ c(2)] share_floor [OF v(1), of 1, OF _ c(3)]
      share_floor [OF v(1), of 1, OF _ c(4)] share_floor [OF v(1) v(6) c(5)] share_floor [OF v(1) v(7) c(6)]
      v(3,4,5) by auto
qed

text \<open>
  C33. A validated configuration is one every worker can run: each worker's share of the flow limits
  is at least one and of the byte limits at least 16 KiB, the shares of each of the five limits add
  up to the configured total, and in each worker the sizes that the reactor computes from the
  configuration exist: the frame capacity does not overflow and holds a packet of the MTU with its
  Ethernet header; the frame pool, and with offload the
  pool of large frames too, is not empty and stays within the worker's part of the pool budget
  unless a single frame exceeds it; without offload there are no large frames; and the segment size,
  the MTU less 40 bytes of headers over IPv4 and 60 over IPv6, fits its 16 bits.
\<close>

theorem validated_config_runs:
  assumes ok: "validate l = Inr ()"
  shows "(\<forall>i < workers l. \<exists>c capacity frames gso.
      dataplane l i = Some c \<and> 1 \<le> max_tcp_flows c \<and> 1 \<le> max_udp_flows c \<and> 1 \<le> max_udp_associations c \<and>
      16384 \<le> max_pending_tcp_bytes c \<and> 16384 \<le> max_retained_tcp_bytes c \<and>
      frame_capacity c = Some capacity \<and> unat (net_tap_mtu (network l)) + 14 \<le> capacity \<and>
      frame_pool_frames c capacity = Some frames \<and> 1 \<le> frames \<and>
      (frames = 1 \<or> frames * capacity \<le> TAP_FRAME_POOL_BYTES div workers l) \<and>
      gso_pool_frames c = Some gso \<and> tap_offload c = net_tap_offload (network l) \<and>
      (if tap_offload c then 1 \<le> gso \<and> (gso = 1 \<or> gso * gso_frame_capacity c \<le> TAP_GSO_POOL_BYTES div workers l)
       else gso = 0) \<and> (\<forall>t. \<exists>m. default_mss c t = Some m \<and>
        unat m = unat (net_tap_mtu (network l)) - (if is_ipv4 t then 40 else 60))) \<and>
    (\<Sum>i < workers l. max_tcp_flows (the (dataplane l i))) = total_tcp_flows l \<and>
    (\<Sum>i < workers l. max_udp_flows (the (dataplane l i))) = total_udp_flows l \<and>
    (\<Sum>i < workers l. max_udp_associations (the (dataplane l i))) = total_udp_associations l \<and>
    (\<Sum>i < workers l. max_pending_tcp_bytes (the (dataplane l i))) = total_pending_bytes l \<and>
    (\<Sum>i < workers l. max_retained_tcp_bytes (the (dataplane l i))) = total_retained_bytes l"
proof -
  note v = validate_limits [OF ok]
  have shares: "(\<Sum>i < workers l. f (the (dataplane l i))) = t"
    if "\<And>i. worker_share t (workers l) i = map_option f (dataplane l i)" for f :: "reactor_config \<Rightarrow> nat" and t
  proof -
    have "f (the (dataplane l i)) = the (worker_share t (workers l) i)" for i
      using dataplane_shares [OF v(1), of i] by (auto simp: that)
    then show ?thesis
      using worker_share_total [OF v(1)] by simp
  qed
  have "(\<Sum>i < workers l. max_tcp_flows (the (dataplane l i))) = total_tcp_flows l"
    "(\<Sum>i < workers l. max_udp_flows (the (dataplane l i))) = total_udp_flows l"
    "(\<Sum>i < workers l. max_udp_associations (the (dataplane l i))) = total_udp_associations l"
    "(\<Sum>i < workers l. max_pending_tcp_bytes (the (dataplane l i))) = total_pending_bytes l"
    "(\<Sum>i < workers l. max_retained_tcp_bytes (the (dataplane l i))) = total_retained_bytes l"
    by (rule shares; metis dataplane_shares [OF v(1)] option.simps(9))+
  then show ?thesis
    using worker_config [OF ok] by simp
qed

definition sample_launch :: launch_config where
  "sample_launch = \<lparr>launch_command = [[115, 104]], instance_name = Some [97], runtime_root = None,
     network = network_synthetic True False 1500 False, launch_upstream = DirectUpstream False, dns = dns_off,
     sandbox = On, total_tcp_flows = 5, launch_udp_enabled = True, total_udp_flows = 4,
     total_udp_associations = 4, workers = 2, total_pending_bytes = 32769, total_retained_bytes = 32768,
     receive_buffer_bytes = 65536, send_buffer_bytes = 65536\<rparr>"

lemma sample_launch_valid: "validate sample_launch = Inr ()"
  by (simp add: sample_launch_def validate_def in_range_def MAX_WORKERS_def MIN_TAP_MTU_def MAX_TAP_MTU_def
      network_synthetic_def dns_off_def saturating_mul_usize_def name_byte_def Let_def)

theorem validated_config_runs_witness:
  "\<exists>c. dataplane sample_launch 1 = Some c \<and> 16384 \<le> max_pending_tcp_bytes c \<and>
     (\<Sum>i < 2. max_tcp_flows (the (dataplane sample_launch i))) = 5 \<and>
     (\<Sum>i < 2. max_udp_associations (the (dataplane sample_launch i))) = 4"
proof -
  have "1 < workers sample_launch" "workers sample_launch = 2" "total_tcp_flows sample_launch = 5"
    "total_udp_associations sample_launch = 4"
    by (simp_all add: sample_launch_def)
  then show ?thesis
    using validated_config_runs [OF sample_launch_valid] by metis
qed

end
