(* ===== verification/Sys_Call.thy ===== *)
theory Sys_Call
  imports Prelude
begin

text \<open>
  Programs that consist of system calls (\<open>crates/sys\<close>, \<open>crates/namespace\<close>, \<open>crates/cli\<close>). A program acts on the
  system: the kernel, which answers every call as a function of all calls made so far, and the record of
  these calls. The kernel is arbitrary, so what is proved of a program holds for every behaviour of it.
  \<open>Inl\<close> is an \<open>Err\<close>, and \<open>None\<close> says that the program does not return: a loop that goes on for ever.

  A call answers with a return value or an \<open>errno\<close>, and beside it with what the kernel stores through the
  pointers of the call: bytes, the status of a child, or control messages. Calls of \<open>std\<close> that wrap
  system calls (files, the listening socket, the clock) are calls of the same kind.
\<close>

named_theorems issued \<open>which calls a program adds to the record\<close>
named_theorems outcome \<open>when a program returns a given outcome\<close>
named_theorems running \<open>the outcome of a program\<close>

section \<open>Errors\<close>

text \<open>
  An error of the kernel is its number; one made by the program is a kind and the fixed part of its message.
  \<open>IoOther\<close> stands for the kinds that the code never tests.
\<close>

datatype io_kind = IoNotFound | IoPermissionDenied | IoAlreadyExists | IoWouldBlock | IoInterrupted | IoInvalidInput
  | IoInvalidData | IoTimedOut | IoWriteZero | IoUnexpectedEof | IoUnsupported | IoOther

datatype io_error = Os int | Custom io_kind string

definition EPERM :: int where "EPERM = 1"
definition ENOENT :: int where "ENOENT = 2"
definition ESRCH :: int where "ESRCH = 3"
definition EINTR :: int where "EINTR = 4"
definition ECHILD :: int where "ECHILD = 10"
definition EAGAIN :: int where "EAGAIN = 11"
definition EACCES :: int where "EACCES = 13"
definition EEXIST :: int where "EEXIST = 17"
definition EINVAL :: int where "EINVAL = 22"
definition ENOTCONN :: int where "ENOTCONN = 107"
definition ETIMEDOUT :: int where "ETIMEDOUT = 110"
definition EINPROGRESS :: int where "EINPROGRESS = 115"

lemmas errno_defs = EPERM_def ENOENT_def ESRCH_def EINTR_def ECHILD_def EAGAIN_def EACCES_def EEXIST_def EINVAL_def
  ENOTCONN_def ETIMEDOUT_def EINPROGRESS_def

fun error_kind :: "io_error \<Rightarrow> io_kind" where
  "error_kind (Custom k s) = k"
| "error_kind (Os e) =
     (if e = EAGAIN then IoWouldBlock else if e = EINTR then IoInterrupted else if e = ENOENT then IoNotFound
      else if e = EPERM \<or> e = EACCES then IoPermissionDenied else if e = EEXIST then IoAlreadyExists
      else if e = EINVAL then IoInvalidInput else if e = ETIMEDOUT then IoTimedOut else IoOther)"

fun raw_os_error :: "io_error \<Rightarrow> int option" where
  "raw_os_error (Os e) = Some e"
| "raw_os_error (Custom k s) = None"

section \<open>Calls\<close>

type_synonym fd = int
type_synonym pid = int

text \<open>What \<open>WIFEXITED\<close>, \<open>WEXITSTATUS\<close>, \<open>WIFSIGNALED\<close> and \<open>WTERMSIG\<close> make of a status of \<open>waitpid\<close>.\<close>

datatype child_status = ExitedWith int | KilledBy int | OtherChange

text \<open>A control message of \<open>recvmsg\<close>: level, type and data.\<close>

type_synonym cmsg = "int \<times> int \<times> bytes"

text \<open>One instruction of a cBPF program: code, the two jump offsets and the operand.\<close>

record sock_filter =
  bpf_code :: u16
  bpf_jt :: u8
  bpf_jf :: u8
  bpf_k :: u32

datatype process_call = Clone3 u64 | Fork | Execvp "bytes list" | Waitpid pid int | Kill pid int | PidfdSendSignal fd int
  | ExitProcess int | Getpid | Getppid | Getuid | Getgid | Setpgid pid pid | Sleep duration

datatype limit_call = Prctl int int | Capset u32 "(u32 \<times> u32 \<times> u32) list" | Sigmask int "int list" | Signalfd "int list" int
  | Getrlimit int | Setrlimit int u64 u64 | SeccompFilter "sock_filter list" | GetEnv bytes | Getrandom nat

datatype mount_call = Mount "bytes option" bytes "bytes option" int "bytes option" | Umount2 bytes int | Mkdir bytes int
  | Chdir bytes | PivotRoot bytes bytes | Rmdir bytes

datatype file_call = FsExists bytes | FsStat bytes bool | FsFstat fd | FsCreateDir bytes | FsSetPermissions bytes int
  | FsOpen bytes int int | FsWrite bytes bytes | FsReadAll bytes | FsRename bytes bytes | FsRemove bytes | FsRemoveDir bytes | FsSync fd

datatype io_call = Open bytes int | Ioctl fd int bytes | Fcntl fd int int | Read fd nat | Write fd bytes | Dup fd
  | EpollCreate int | EpollCtl fd int fd "(u32 \<times> u64) option" | EpollWait fd nat int | TimerfdCreate int int
  | TimerfdSettime fd int int

datatype socket_call = Socketpair int int | NewSocket int int int | Bind fd bytes | ConnectTo fd bytes | Getsockname fd
  | Setsockopt fd int int int | Getsockopt fd int int | ShutdownSocket fd int | Poll fd int int | IfNametoindex bytes

datatype message_call = Send fd bytes int | Sendto fd bytes int bytes | Recv fd nat int | SendMsg fd bytes "cmsg list" int
  | RecvMsg fd nat nat int | RecvMmsg fd nat nat int | Accept fd | SetReadTimeout fd duration | UnixConnect bytes | UnixBind bytes
  | SetNonblocking fd bool

datatype syscall = Proc process_call | Limit limit_call | Mnt mount_call | File file_call | Io io_call | Sock socket_call
  | Msg message_call

text \<open>What \<open>stat\<close> reports of a file.\<close>

record file_stat =
  st_directory :: bool
  st_symlink :: bool
  st_regular :: bool
  st_uid :: int
  st_mode :: int
  st_ino :: u64

record system =
  sys_big :: bool
  sys_ret :: "syscall list \<Rightarrow> syscall \<Rightarrow> int + int"
  sys_out :: "syscall list \<Rightarrow> syscall \<Rightarrow> bytes"
  sys_status :: "syscall list \<Rightarrow> syscall \<Rightarrow> child_status"
  sys_cmsgs :: "syscall list \<Rightarrow> syscall \<Rightarrow> cmsg list list"
  sys_stat :: "syscall list \<Rightarrow> syscall \<Rightarrow> file_stat"
  sys_clock :: "syscall list \<Rightarrow> instant"
  calls :: "syscall list"

section \<open>Programs\<close>

type_synonym ('e, 'a) prog = "system \<Rightarrow> (('e + 'a) \<times> system) option"

definition ok :: "'a \<Rightarrow> ('e, 'a) prog" where
  "ok a = (\<lambda>w. Some (Inr a, w))"

definition err :: "'e \<Rightarrow> ('e, 'a) prog" where
  "err e = (\<lambda>w. Some (Inl e, w))"

text \<open>\<open>bnd m f\<close> is \<open>let x = m?; f(x)\<close>, \<open>attempt m\<close> hands the \<open>Result\<close> of \<open>m\<close> on as a value, and \<open>convert\<close> is \<open>map_err\<close>.\<close>

definition bnd :: "('e, 'a) prog \<Rightarrow> ('a \<Rightarrow> ('e, 'b) prog) \<Rightarrow> ('e, 'b) prog" where
  "bnd m f = (\<lambda>w. case m w of None \<Rightarrow> None | Some (r, w') \<Rightarrow> (case r of Inl e \<Rightarrow> Some (Inl e, w') | Inr a \<Rightarrow> f a w'))"

definition attempt :: "('e, 'a) prog \<Rightarrow> ('f, 'e + 'a) prog" where
  "attempt m = (\<lambda>w. case m w of None \<Rightarrow> None | Some (r, w') \<Rightarrow> Some (Inr r, w'))"

definition convert :: "('e \<Rightarrow> 'f) \<Rightarrow> ('e, 'a) prog \<Rightarrow> ('f, 'a) prog" where
  "convert g m = (\<lambda>w. case m w of None \<Rightarrow> None | Some (r, w') \<Rightarrow> Some (map_sum g id r, w'))"

definition and_then :: "('e, unit) prog \<Rightarrow> ('e, 'b) prog \<Rightarrow> ('e, 'b) prog" where
  "and_then m k = bnd m (\<lambda>_. k)"

text \<open>\<open>ignoring m\<close> is \<open>let _ = m;\<close>.\<close>

definition ignoring :: "('e, 'a) prog \<Rightarrow> ('f, unit) prog" where
  "ignoring m = bnd (attempt m) (\<lambda>_. ok ())"

definition lift_result :: "'e + 'a \<Rightarrow> ('e, 'a) prog" where
  "lift_result r = (case r of Inl e \<Rightarrow> err e | Inr a \<Rightarrow> ok a)"

definition invoke :: "syscall \<Rightarrow> (io_error, int) prog" where
  "invoke c = (\<lambda>w. let w' = w\<lparr>calls := calls w @ [c]\<rparr>
     in case sys_ret w (calls w) c of Inl e \<Rightarrow> Some (Inl (Os e), w') | Inr v \<Rightarrow> Some (Inr v, w'))"

text \<open>A call that returns nothing of interest.\<close>

definition perform :: "syscall \<Rightarrow> (io_error, unit) prog" where
  "perform c = bnd (invoke c) (\<lambda>_. ok ())"

text \<open>A call with the bytes, the child status or the control messages that it delivers.\<close>

definition invoke_out :: "syscall \<Rightarrow> (io_error, int \<times> bytes) prog" where
  "invoke_out c = (\<lambda>w. bnd (invoke c) (\<lambda>v. ok (v, sys_out w (calls w) c)) w)"

definition invoke_status :: "syscall \<Rightarrow> (io_error, int \<times> child_status) prog" where
  "invoke_status c = (\<lambda>w. bnd (invoke c) (\<lambda>v. ok (v, sys_status w (calls w) c)) w)"

definition invoke_cmsgs :: "syscall \<Rightarrow> (io_error, int \<times> bytes \<times> cmsg list list) prog" where
  "invoke_cmsgs c = (\<lambda>w. bnd (invoke c) (\<lambda>v. ok (v, sys_out w (calls w) c, sys_cmsgs w (calls w) c)) w)"

definition invoke_stat :: "syscall \<Rightarrow> (io_error, file_stat) prog" where
  "invoke_stat c = (\<lambda>w. bnd (invoke c) (\<lambda>v. ok (sys_stat w (calls w) c)) w)"

text \<open>A call that cannot fail, such as \<open>getuid\<close>.\<close>

definition infallible :: "syscall \<Rightarrow> ('e, int) prog" where
  "infallible c = bnd (attempt (invoke c)) (\<lambda>r. ok (case r of Inl e \<Rightarrow> 0 | Inr v \<Rightarrow> v))"

text \<open>\<open>ensuring m cleanup\<close> runs \<open>cleanup\<close> however \<open>m\<close> returns, as a destructor does.\<close>

definition ensuring :: "('e, 'a) prog \<Rightarrow> ('f, unit) prog \<Rightarrow> ('e, 'a) prog" where
  "ensuring m cleanup = (\<lambda>w. case m w of None \<Rightarrow> None
     | Some (r, w1) \<Rightarrow> (case cleanup w1 of None \<Rightarrow> None | Some (_, w2) \<Rightarrow> Some (r, w2)))"

definition now :: "('e, instant) prog" where
  "now = (\<lambda>w. Some (Inr (sys_clock w (calls w)), w))"

text \<open>The byte order of the target, and the bytes of a string literal.\<close>

definition byte_order :: "('e, bool) prog" where
  "byte_order = (\<lambda>w. Some (Inr (sys_big w), w))"

definition lit :: "string \<Rightarrow> bytes" where
  "lit s = map of_char s"

text \<open>
  A receiving call whose buffer has \<open>len\<close> bytes: the kernel stores at most that many and returns their number.
\<close>

definition receive_bytes :: "syscall \<Rightarrow> usize \<Rightarrow> (io_error, bytes) prog" where
  "receive_bytes c len = bnd (invoke_out c) (\<lambda>(n, bs). ok (take len bs))"

text \<open>The process ends and the program does not return.\<close>

definition never :: "('e, 'a) prog" where
  "never = (\<lambda>w. None)"

text \<open>\<open>for x in xs\<close> with \<open>?\<close> in the body, and \<open>map\<close> with \<open>collect\<close> into a \<open>Result\<close>.\<close>

fun for_each :: "('a \<Rightarrow> ('e, unit) prog) \<Rightarrow> 'a list \<Rightarrow> ('e, unit) prog" where
  "for_each f [] = ok ()"
| "for_each f (x # xs) = and_then (f x) (for_each f xs)"

fun collect :: "('a \<Rightarrow> ('e, 'b) prog) \<Rightarrow> 'a list \<Rightarrow> ('e, 'b list) prog" where
  "collect f [] = ok []"
| "collect f (x # xs) = bnd (f x) (\<lambda>y. bnd (collect f xs) (\<lambda>ys. ok (y # ys)))"

text \<open>
  \<open>loop\<close>: the body takes the loop's variables and either leaves the loop with a value (\<open>Inl\<close>) or goes on
  with new variables (\<open>Inr\<close>).
\<close>

partial_function (option) looping :: "('s \<Rightarrow> ('e, 'r + 's) prog) \<Rightarrow> 's \<Rightarrow> ('e, 'r) prog" where
  "looping body s w =
     (case body s w of None \<Rightarrow> None
      | Some (r, w') \<Rightarrow> (case r of Inl e \<Rightarrow> Some (Inl e, w')
          | Inr step \<Rightarrow> (case step of Inl v \<Rightarrow> Some (Inr v, w') | Inr s' \<Rightarrow> looping body s' w')))"

lemmas prog_defs = ok_def err_def bnd_def attempt_def convert_def and_then_def ignoring_def lift_result_def invoke_def
  perform_def invoke_out_def invoke_status_def invoke_cmsgs_def now_def byte_order_def receive_bytes_def never_def
  invoke_stat_def infallible_def ensuring_def

section \<open>Outcomes\<close>

lemma ok_run [running]: "ok a w = Some (Inr a, w)"
  by (simp add: ok_def)

lemma err_run [running]: "err e w = Some (Inl e, w)"
  by (simp add: err_def)

lemma lift_result_run [running]: "lift_result r w = Some (r, w)"
  by (simp add: lift_result_def ok_def err_def split: sum.split)

lemma bnd_run:
  "bnd m f w = Some (r, w') \<longleftrightarrow>
     (\<exists>e. m w = Some (Inl e, w') \<and> r = Inl e) \<or> (\<exists>a w1. m w = Some (Inr a, w1) \<and> f a w1 = Some (r, w'))"
  by (auto simp: bnd_def split: option.splits sum.splits)

lemma bnd_ok [running]: "m w = Some (Inr a, w1) \<Longrightarrow> bnd m f w = f a w1"
  by (simp add: bnd_def)

lemma bnd_err [running]: "m w = Some (Inl e, w1) \<Longrightarrow> bnd m f w = Some (Inl e, w1)"
  by (simp add: bnd_def)

lemma and_then_ok [running]: "m w = Some (Inr a, w1) \<Longrightarrow> and_then m k w = k w1"
  by (simp add: and_then_def bnd_def)

lemma and_then_err [running]: "m w = Some (Inl e, w1) \<Longrightarrow> and_then m k w = Some (Inl e, w1)"
  by (simp add: and_then_def bnd_def)

lemma attempt_run [running]: "m w = Some (r, w1) \<Longrightarrow> attempt m w = Some (Inr r, w1)"
  by (simp add: attempt_def)

lemma convert_run [running]: "m w = Some (r, w1) \<Longrightarrow> convert g m w = Some (map_sum g id r, w1)"
  by (simp add: convert_def)

lemma ignoring_run [running]: "m w = Some (r, w1) \<Longrightarrow> ignoring m w = Some (Inr (), w1)"
  by (simp add: ignoring_def bnd_def attempt_def ok_def)

text \<open>The system after further calls.\<close>

definition after_calls :: "system \<Rightarrow> syscall list \<Rightarrow> system" where
  "after_calls w cs = w\<lparr>calls := calls w @ cs\<rparr>"

lemma after_calls_simps [simp]:
  "after_calls w [] = w" "after_calls (after_calls w cs) ds = after_calls w (cs @ ds)" "calls (after_calls w cs) = calls w @ cs"
  "sys_big (after_calls w cs) = sys_big w" "sys_ret (after_calls w cs) = sys_ret w" "sys_out (after_calls w cs) = sys_out w" "sys_status (after_calls w cs) = sys_status w"
  "sys_cmsgs (after_calls w cs) = sys_cmsgs w" "sys_stat (after_calls w cs) = sys_stat w" "sys_clock (after_calls w cs) = sys_clock w"
  by (simp_all add: after_calls_def)

lemma after_calls_inject [simp]: "after_calls w cs = after_calls w ds \<longleftrightarrow> cs = ds"
proof
  assume "after_calls w cs = after_calls w ds"
  then have "calls (after_calls w cs) = calls (after_calls w ds)"
    by simp
  then show "cs = ds"
    by simp
qed simp

lemma invoke_run [running]:
  "invoke c w = Some (case sys_ret w (calls w) c of Inl e \<Rightarrow> Inl (Os e) | Inr v \<Rightarrow> Inr v, after_calls w [c])"
  by (simp add: invoke_def after_calls_def split: sum.split)

lemma perform_run [running]:
  "perform c w = Some (case sys_ret w (calls w) c of Inl e \<Rightarrow> Inl (Os e) | Inr v \<Rightarrow> Inr (), after_calls w [c])"
  by (simp add: perform_def bnd_def invoke_run ok_def split: sum.split)

lemma invoke_out_run [running]:
  "invoke_out c w =
     Some (case sys_ret w (calls w) c of Inl e \<Rightarrow> Inl (Os e) | Inr v \<Rightarrow> Inr (v, sys_out w (calls w) c), after_calls w [c])"
  by (simp add: invoke_out_def bnd_def invoke_run ok_def split: sum.split)

lemma invoke_status_run [running]:
  "invoke_status c w =
     Some (case sys_ret w (calls w) c of Inl e \<Rightarrow> Inl (Os e) | Inr v \<Rightarrow> Inr (v, sys_status w (calls w) c), after_calls w [c])"
  by (simp add: invoke_status_def bnd_def invoke_run ok_def split: sum.split)

lemma invoke_cmsgs_run [running]:
  "invoke_cmsgs c w =
     Some (case sys_ret w (calls w) c of Inl e \<Rightarrow> Inl (Os e)
       | Inr v \<Rightarrow> Inr (v, sys_out w (calls w) c, sys_cmsgs w (calls w) c), after_calls w [c])"
  by (simp add: invoke_cmsgs_def bnd_def invoke_run ok_def split: sum.split)

lemma receive_bytes_run [running]:
  "receive_bytes c len w =
     Some (case sys_ret w (calls w) c of Inl e \<Rightarrow> Inl (Os e) | Inr v \<Rightarrow> Inr (take len (sys_out w (calls w) c)), after_calls w [c])"
  by (simp add: receive_bytes_def bnd_def invoke_out_run ok_def split: sum.split)

lemma invoke_stat_run [running]:
  "invoke_stat c w = Some (case sys_ret w (calls w) c of Inl e \<Rightarrow> Inl (Os e) | Inr v \<Rightarrow> Inr (sys_stat w (calls w) c), after_calls w [c])"
  by (simp add: invoke_stat_def bnd_def invoke_run ok_def split: sum.split)

lemma infallible_run [running]:
  "infallible c w = Some (Inr (case sys_ret w (calls w) c of Inl e \<Rightarrow> 0 | Inr v \<Rightarrow> v), after_calls w [c])"
  by (simp add: infallible_def bnd_def attempt_def invoke_run ok_def split: sum.split)

lemma byte_order_run [running]: "byte_order w = Some (Inr (sys_big w), w)"
  by (simp add: byte_order_def)

lemma never_run [running]: "never w = None"
  by (simp add: never_def)

lemma now_run [running]: "now w = Some (Inr (sys_clock w (calls w)), w)"
  by (simp add: now_def)

lemma invoke_outcome [outcome]:
  "invoke c w = Some (Inr v, w') \<longleftrightarrow> sys_ret w (calls w) c = Inr v \<and> w' = after_calls w [c]"
  "invoke c w = Some (Inl e, w') \<longleftrightarrow> (\<exists>n. sys_ret w (calls w) c = Inl n \<and> e = Os n) \<and> w' = after_calls w [c]"
  by (auto simp: invoke_run split: sum.splits)

lemma perform_outcome [outcome]:
  "perform c w = Some (Inr u, w') \<longleftrightarrow> (\<exists>v. sys_ret w (calls w) c = Inr v) \<and> w' = after_calls w [c]"
  "perform c w = Some (Inl e, w') \<longleftrightarrow> (\<exists>n. sys_ret w (calls w) c = Inl n \<and> e = Os n) \<and> w' = after_calls w [c]"
  by (auto simp: perform_run split: sum.splits)

lemma invoke_out_outcome [outcome]:
  "invoke_out c w = Some (Inr y, w') \<longleftrightarrow>
     (\<exists>v. sys_ret w (calls w) c = Inr v \<and> y = (v, sys_out w (calls w) c)) \<and> w' = after_calls w [c]"
  "invoke_out c w = Some (Inl e, w') \<longleftrightarrow> (\<exists>n. sys_ret w (calls w) c = Inl n \<and> e = Os n) \<and> w' = after_calls w [c]"
  by (auto simp: invoke_out_run split: sum.splits)

lemma invoke_status_outcome [outcome]:
  "invoke_status c w = Some (Inr y, w') \<longleftrightarrow>
     (\<exists>v. sys_ret w (calls w) c = Inr v \<and> y = (v, sys_status w (calls w) c)) \<and> w' = after_calls w [c]"
  "invoke_status c w = Some (Inl e, w') \<longleftrightarrow> (\<exists>n. sys_ret w (calls w) c = Inl n \<and> e = Os n) \<and> w' = after_calls w [c]"
  by (auto simp: invoke_status_run split: sum.splits)

lemma receive_bytes_outcome [outcome]:
  "receive_bytes c len w = Some (Inr bs, w') \<longleftrightarrow>
     (\<exists>v. sys_ret w (calls w) c = Inr v) \<and> bs = take len (sys_out w (calls w) c) \<and> w' = after_calls w [c]"
  "receive_bytes c len w = Some (Inl e, w') \<longleftrightarrow> (\<exists>n. sys_ret w (calls w) c = Inl n \<and> e = Os n) \<and> w' = after_calls w [c]"
  by (auto simp: receive_bytes_run split: sum.splits)

lemma invoke_stat_outcome [outcome]:
  "invoke_stat c w = Some (Inr y, w') \<longleftrightarrow>
     (\<exists>v. sys_ret w (calls w) c = Inr v) \<and> y = sys_stat w (calls w) c \<and> w' = after_calls w [c]"
  "invoke_stat c w = Some (Inl e, w') \<longleftrightarrow> (\<exists>n. sys_ret w (calls w) c = Inl n \<and> e = Os n) \<and> w' = after_calls w [c]"
  by (auto simp: invoke_stat_run split: sum.splits)

lemma infallible_outcome [outcome]:
  "infallible c w = Some (r, w') \<longleftrightarrow> r = Inr (case sys_ret w (calls w) c of Inl e \<Rightarrow> 0 | Inr v \<Rightarrow> v) \<and> w' = after_calls w [c]"
  by (auto simp: infallible_run)

lemma ensuring_outcome [outcome]:
  "ensuring m cleanup w = Some (r, w') \<longleftrightarrow> (\<exists>w1 x. m w = Some (r, w1) \<and> cleanup w1 = Some (x, w'))"
  by (auto simp: ensuring_def split: option.splits)

lemma invoke_cmsgs_outcome [outcome]:
  "invoke_cmsgs c w = Some (Inr y, w') \<longleftrightarrow>
     (\<exists>v. sys_ret w (calls w) c = Inr v \<and> y = (v, sys_out w (calls w) c, sys_cmsgs w (calls w) c)) \<and> w' = after_calls w [c]"
  "invoke_cmsgs c w = Some (Inl e, w') \<longleftrightarrow> (\<exists>n. sys_ret w (calls w) c = Inl n \<and> e = Os n) \<and> w' = after_calls w [c]"
  by (auto simp: invoke_cmsgs_run split: sum.splits)

lemma never_outcome [outcome]: "never w = Some y \<longleftrightarrow> False"
  by (simp add: never_def)

lemma byte_order_outcome [outcome]: "byte_order w = Some (r, w') \<longleftrightarrow> r = Inr (sys_big w) \<and> w' = w"
  by (auto simp: byte_order_def)

lemma now_outcome [outcome]: "now w = Some (r, w') \<longleftrightarrow> r = Inr (sys_clock w (calls w)) \<and> w' = w"
  by (auto simp: now_def)

lemma ok_outcome [outcome]: "ok a w = Some (r, w') \<longleftrightarrow> r = Inr a \<and> w' = w" "err e w = Some (r, w') \<longleftrightarrow> r = Inl e \<and> w' = w"
  "lift_result x w = Some (r, w') \<longleftrightarrow> x = r \<and> w' = w"
  by (auto simp: running)

lemma bnd_outcome [outcome]:
  "bnd m f w = Some (r, w') \<longleftrightarrow>
     (\<exists>e. m w = Some (Inl e, w') \<and> r = Inl e) \<or> (\<exists>a w1. m w = Some (Inr a, w1) \<and> f a w1 = Some (r, w'))"
  by (rule bnd_run)

lemma and_then_outcome [outcome]:
  "and_then m k w = Some (r, w') \<longleftrightarrow>
     (\<exists>e. m w = Some (Inl e, w') \<and> r = Inl e) \<or> (\<exists>w1. m w = Some (Inr (), w1) \<and> k w1 = Some (r, w'))"
  by (simp add: and_then_def bnd_run)

lemma attempt_outcome [outcome]: "attempt m w = Some (r, w') \<longleftrightarrow> (\<exists>x. m w = Some (x, w') \<and> r = Inr x)"
  by (auto simp: attempt_def split: option.splits)

lemma convert_outcome [outcome]: "convert g m w = Some (r, w') \<longleftrightarrow> (\<exists>x. m w = Some (x, w') \<and> r = map_sum g id x)"
  by (auto simp: convert_def split: option.splits)

lemma ignoring_outcome [outcome]: "ignoring m w = Some (r, w') \<longleftrightarrow> (\<exists>x. m w = Some (x, w') \<and> r = Inr ())"
  by (auto simp: ignoring_def outcome)

text \<open>How a program comes to succeed.\<close>

lemma success:
  "bnd m f w = Some (Inr x, w') \<longleftrightarrow> (\<exists>a w1. m w = Some (Inr a, w1) \<and> f a w1 = Some (Inr x, w'))"
  "and_then n k w = Some (Inr x, w') \<longleftrightarrow> (\<exists>w1. n w = Some (Inr (), w1) \<and> k w1 = Some (Inr x, w'))"
  "attempt p w = Some (Inr r, w') \<longleftrightarrow> p w = Some (r, w')"
  "convert g q w = Some (Inr y, w') \<longleftrightarrow> q w = Some (Inr y, w')"
  by (auto simp: outcome) (case_tac x; auto)+

text \<open>A kernel that answers 0 to every call.\<close>

definition quiet_system :: system where
  "quiet_system = \<lparr>sys_big = False, sys_ret = \<lambda>_ _. Inr 0, sys_out = \<lambda>_ _. [], sys_status = \<lambda>_ _. OtherChange, sys_cmsgs = \<lambda>_ _. [],
     sys_stat = \<lambda>_ _. \<lparr>st_directory = True, st_symlink = False, st_regular = False, st_uid = 0, st_mode = 448, st_ino = 1\<rparr>,
     sys_clock = \<lambda>_. 0, calls = []\<rparr>"

section \<open>Which calls a program makes\<close>

text \<open>Every call that \<open>m\<close> makes satisfies \<open>P\<close>; in particular the record only grows and the kernel stays the same.\<close>

definition issues :: "(syscall \<Rightarrow> bool) \<Rightarrow> ('e, 'a) prog \<Rightarrow> bool" where
  "issues P m \<longleftrightarrow> (\<forall>w r w'. m w = Some (r, w') \<longrightarrow> (\<exists>cs. w' = after_calls w cs \<and> list_all P cs))"

lemma issuesI: "(\<And>w r w'. m w = Some (r, w') \<Longrightarrow> \<exists>cs. w' = after_calls w cs \<and> list_all P cs) \<Longrightarrow> issues P m"
  by (auto simp: issues_def)

lemma issuesD: "issues P m \<Longrightarrow> m w = Some (r, w') \<Longrightarrow> \<exists>cs. w' = after_calls w cs \<and> list_all P cs"
  by (auto simp: issues_def)

lemma issues_weaken: "issues P m \<Longrightarrow> (\<And>c. P c \<Longrightarrow> Q c) \<Longrightarrow> issues Q m"
  unfolding issues_def list_all_iff by meson

lemma issues_none: "(\<And>w r w'. m w = Some (r, w') \<Longrightarrow> w' = w) \<Longrightarrow> issues P m"
  by (rule issuesI) (auto intro!: exI [where x = "[]"])

lemma issues_ok [issued]: "issues P (ok a)"
  by (rule issues_none) (simp add: ok_def)

lemma issues_err [issued]: "issues P (err e)"
  by (rule issues_none) (simp add: err_def)

lemma issues_now [issued]: "issues P now" "issues P byte_order" "issues P never"
  by (rule issues_none, simp add: now_def byte_order_def never_def)+

lemma issues_lift_result [issued]: "issues P (lift_result r)"
  by (rule issues_none) (simp add: lift_result_run)

lemma issues_bnd [issued]:
  assumes "issues P m" "\<And>a. issues P (f a)"
  shows "issues P (bnd m f)"
proof (rule issuesI)
  fix w r w'
  assume "bnd m f w = Some (r, w')"
  then consider e where "m w = Some (Inl e, w')" | a w1 where "m w = Some (Inr a, w1)" "f a w1 = Some (r, w')"
    unfolding bnd_run by blast
  then show "\<exists>cs. w' = after_calls w cs \<and> list_all P cs"
  proof cases
    case 1
    then show ?thesis
      using issuesD [OF assms(1)] by blast
  next
    case 2
    obtain cs ds where "w1 = after_calls w cs" "list_all P cs" "w' = after_calls w1 ds" "list_all P ds"
      using issuesD [OF assms(1) 2(1)] issuesD [OF assms(2) 2(2)] by blast
    then have "w' = after_calls w (cs @ ds) \<and> list_all P (cs @ ds)"
      by simp
    then show ?thesis
      by blast
  qed
qed

lemma issues_and_then [issued]: "issues P m \<Longrightarrow> issues P k \<Longrightarrow> issues P (and_then m k)"
  by (simp add: and_then_def issues_bnd)

lemma issues_attempt [issued]: "issues P m \<Longrightarrow> issues P (attempt m)"
  by (auto simp: issues_def attempt_def split: option.splits)

lemma issues_convert [issued]: "issues P m \<Longrightarrow> issues P (convert g m)"
  by (auto simp: issues_def convert_def split: option.splits)

lemma issues_ignoring [issued]: "issues P m \<Longrightarrow> issues P (ignoring m)"
  unfolding ignoring_def by (intro issued)

lemma issues_invoke [issued]: "P c \<Longrightarrow> issues P (invoke c)" "P c \<Longrightarrow> issues P (perform c)"
  "P c \<Longrightarrow> issues P (invoke_out c)" "P c \<Longrightarrow> issues P (invoke_status c)" "P c \<Longrightarrow> issues P (invoke_cmsgs c)"
  "P c \<Longrightarrow> issues P (invoke_stat c)" "P c \<Longrightarrow> issues P (infallible c)"
  by (rule issuesI, auto simp: running intro!: exI [where x = "[c]"])+

lemma issues_receive_bytes [issued]: "P c \<Longrightarrow> issues P (receive_bytes c len)"
  unfolding receive_bytes_def by (auto intro!: issued split: prod.split)

lemma issues_ensuring [issued]: "issues P m \<Longrightarrow> issues P k \<Longrightarrow> issues P (ensuring m k)"
proof (rule issuesI)
  fix w r w'
  assume m: "issues P m" and k: "issues P k" and "ensuring m k w = Some (r, w')"
  then obtain w1 x where "m w = Some (r, w1)" "k w1 = Some (x, w')"
    by (auto simp: outcome)
  from issuesD [OF m this(1)] issuesD [OF k this(2)] obtain cs ds
    where "w1 = after_calls w cs" "list_all P cs" "w' = after_calls w1 ds" "list_all P ds"
    by blast
  then have "w' = after_calls w (cs @ ds) \<and> list_all P (cs @ ds)"
    by simp
  then show "\<exists>cs. w' = after_calls w cs \<and> list_all P cs"
    by blast
qed

lemma issues_for_each [issued]: "(\<And>x. issues P (f x)) \<Longrightarrow> issues P (for_each f xs)"
  by (induction xs) (auto intro: issued)

lemma issues_collect [issued]: "(\<And>x. issues P (f x)) \<Longrightarrow> issues P (collect f xs)"
  by (induction xs) (auto intro!: issued)

text \<open>An invariant of a loop: it holds at every iteration, and what the body says of the two ways out.\<close>

lemma looping_rule:
  assumes run: "looping body s w = Some (r, w')"
    and init: "I s w"
    and step: "\<And>s w s' w1. I s w \<Longrightarrow> body s w = Some (Inr (Inr s'), w1) \<Longrightarrow> I s' w1"
    and leave: "\<And>s w v w1. I s w \<Longrightarrow> body s w = Some (Inr (Inl v), w1) \<Longrightarrow> Q (Inr v) w1"
    and fails: "\<And>s w e w1. I s w \<Longrightarrow> body s w = Some (Inl e, w1) \<Longrightarrow> Q (Inl e) w1"
  shows "Q r w'"
proof -
  have "looping body s w = Some y \<Longrightarrow> body = body \<longrightarrow> I s w \<longrightarrow> Q (fst y) (snd y)" for y
  proof (rule looping.raw_induct [of "\<lambda>b s w y. b = body \<longrightarrow> I s w \<longrightarrow> Q (fst y) (snd y)"])
    fix loop b s w y
    assume IH: "\<And>b s w y. loop b s w = Some y \<Longrightarrow> b = body \<longrightarrow> I s w \<longrightarrow> Q (fst y) (snd y)"
      and y: "(case b s w of None \<Rightarrow> None
        | Some (r, w') \<Rightarrow> (case r of Inl e \<Rightarrow> Some (Inl e, w')
            | Inr step \<Rightarrow> (case step of Inl v \<Rightarrow> Some (Inr v, w') | Inr s' \<Rightarrow> loop b s' w'))) = Some y"
    show "b = body \<longrightarrow> I s w \<longrightarrow> Q (fst y) (snd y)"
    proof (intro impI)
      assume b: "b = body" and i: "I s w"
      show "Q (fst y) (snd y)"
        using y IH step [OF i] leave [OF i] fails [OF i] unfolding b by (fastforce split: option.splits sum.splits)
    qed
  qed
  from this [OF run] show ?thesis
    using init by simp
qed

lemma issues_looping [issued]:
  assumes "\<And>s. issues P (body s)"
  shows "issues P (looping body s)"
proof (rule issuesI)
  fix w r w'
  assume "looping body s w = Some (r, w')"
  then show "\<exists>cs. w' = after_calls w cs \<and> list_all P cs"
  proof (rule looping_rule [where I = "\<lambda>_ w'. \<exists>cs. w' = after_calls w cs \<and> list_all P cs"])
    show "\<exists>cs. w = after_calls w cs \<and> list_all P cs"
      by (auto intro!: exI [where x = "[]"])
    fix s v r w1
    assume "\<exists>cs. v = after_calls w cs \<and> list_all P cs"
    then obtain cs where cs: "v = after_calls w cs" "list_all P cs"
      by blast
    have more: "\<exists>ds. w1 = after_calls w ds \<and> list_all P ds" if b: "body s v = Some (x, w1)" for x
    proof -
      obtain ds where "w1 = after_calls v ds" "list_all P ds"
        using issuesD [OF assms b] by blast
      then have "w1 = after_calls w (cs @ ds) \<and> list_all P (cs @ ds)"
        using cs by simp
      then show ?thesis
        by blast
    qed
    show "body s v = Some (Inr (Inr x), w1) \<Longrightarrow> \<exists>ds. w1 = after_calls w ds \<and> list_all P ds" for x
      by (rule more)
    show "body s v = Some (Inr (Inl x), w1) \<Longrightarrow> \<exists>ds. w1 = after_calls w ds \<and> list_all P ds" for x
      by (rule more)
    show "body s v = Some (Inl x, w1) \<Longrightarrow> \<exists>ds. w1 = after_calls w ds \<and> list_all P ds" for x
      by (rule more)
  qed
qed

text \<open>A loop returns where its body returns and some measure falls with every further iteration.\<close>

lemma looping_returns:
  assumes body: "\<And>s w. I s w \<Longrightarrow> \<exists>r w1. body s w = Some (r, w1) \<and>
      (case r of Inl e \<Rightarrow> True | Inr x \<Rightarrow> (case x of Inl v \<Rightarrow> True | Inr s' \<Rightarrow> I s' w1 \<and> (measure_of s' w1 :: nat) < measure_of s w))"
  shows "I s w \<Longrightarrow> \<exists>y. looping body s w = Some y"
proof (induction "measure_of s w" arbitrary: s w rule: less_induct)
  case less
  obtain r w1 where r: "body s w = Some (r, w1)"
    and next_one: "case r of Inl e \<Rightarrow> True
      | Inr x \<Rightarrow> (case x of Inl v \<Rightarrow> True | Inr s' \<Rightarrow> I s' w1 \<and> measure_of s' w1 < measure_of s w)"
    using body [OF less.prems] by blast
  then show ?case
    using less.hyps by (subst looping.simps) (auto split: sum.splits)
qed

section \<open>Which calls were made\<close>

definition follows :: "system \<Rightarrow> system \<Rightarrow> bool" where
  "follows v w \<longleftrightarrow> (\<exists>cs. w = after_calls v cs)"

text \<open>Between \<open>v\<close> and \<open>w\<close> the call was made and the kernel reported success.\<close>

definition performed :: "system \<Rightarrow> system \<Rightarrow> syscall \<Rightarrow> bool" where
  "performed v w c \<longleftrightarrow> (\<exists>ds es n. w = after_calls v (ds @ c # es) \<and> sys_ret v (calls v @ ds) c = Inr n)"

lemma follows_refl [simp]: "follows v v"
  by (auto simp: follows_def intro!: exI [of _ "[]"])

lemma follows_trans [trans]: "follows u v \<Longrightarrow> follows v w \<Longrightarrow> follows u w"
  by (auto simp: follows_def)

lemma follows_issues: "issues P m \<Longrightarrow> m w = Some (r, w') \<Longrightarrow> follows w w'"
  using issuesD unfolding follows_def by blast

lemma performed_around:
  assumes "follows u v" "performed v w c" "follows w z"
  shows "performed u z c"
proof -
  obtain cs ds es n fs where "v = after_calls u cs" "w = after_calls v (ds @ c # es)" "sys_ret v (calls v @ ds) c = Inr n" "z = after_calls w fs"
    using assms by (auto simp: follows_def performed_def)
  then have "z = after_calls u ((cs @ ds) @ c # (es @ fs)) \<and> sys_ret u (calls u @ (cs @ ds)) c = Inr n"
    by simp
  then show ?thesis
    unfolding performed_def by blast
qed

lemma perform_performed: "perform c w = Some (Inr (), w') \<Longrightarrow> performed w w' c"
  by (auto simp: perform_outcome performed_def intro!: exI [of _ "[]"])

lemma performed_in_sequence: "for_each perform cs w = Some (Inr (), w') \<Longrightarrow> c \<in> set cs \<Longrightarrow> performed w w' c"
proof (induction cs arbitrary: w)
  case (Cons d cs)
  obtain w1 where w1: "perform d w = Some (Inr (), w1)" "for_each perform cs w1 = Some (Inr (), w')"
    using Cons.prems(1) by (auto simp: success)
  have l: "follows w w1" "follows w1 w'"
    using follows_issues [OF issues_invoke(2) w1(1), of "\<lambda>_. True"] follows_issues [OF issues_for_each [OF issues_invoke(2)] w1(2), of "\<lambda>_. True"]
    by simp_all
  show ?case
    using Cons.IH [OF w1(2)] Cons.prems(2) performed_around [OF l(1) _ follows_refl] performed_around [OF follows_refl perform_performed [OF w1(1)] l(2)]
    by auto
qed simp

end
