(* ===== verification/Netlink.thy ===== *)
theory Netlink
  imports Sys_Call Control_Message
begin

text \<open>
  The routing socket that configures the network of the namespace (\<open>crates/sys/src/netlink.rs\<close>): request packets with their
  attributes, the wait for an acknowledgment, and the sequence of requests of \<open>configure_namespace\<close>. The structures of
  the kernel are written field by field in the target's byte order; none of them has padding.
\<close>

section \<open>Packets\<close>

text \<open>\<open>to_ne_bytes\<close> and \<open>from_ne_bytes\<close> of a number of \<open>n\<close> bytes; \<open>big\<close> says whether the target is big-endian.\<close>

definition to_ne :: "bool \<Rightarrow> nat \<Rightarrow> 'w::len word \<Rightarrow> bytes" where
  "to_ne big n w = (if big then rev (to_le n w) else to_le n w)"

definition from_ne :: "bool \<Rightarrow> bytes \<Rightarrow> 'w::len word" where
  "from_ne big bs = from_le (if big then rev bs else bs)"

definition NLMSG_ALIGNTO :: usize where "NLMSG_ALIGNTO = 4"
definition RTA_ALIGNTO :: usize where "RTA_ALIGNTO = 4"
definition NLM_F_REQUEST :: u16 where "NLM_F_REQUEST = 0x0001"
definition NLM_F_ACK :: u16 where "NLM_F_ACK = 0x0004"
definition NLM_F_EXCL :: u16 where "NLM_F_EXCL = 0x0200"
definition NLM_F_CREATE :: u16 where "NLM_F_CREATE = 0x0400"
definition NLMSG_ERROR :: u16 where "NLMSG_ERROR = 2"
definition RTM_NEWLINK :: u16 where "RTM_NEWLINK = 16"
definition RTM_NEWADDR :: u16 where "RTM_NEWADDR = 20"
definition RTM_NEWROUTE :: u16 where "RTM_NEWROUTE = 24"
definition IFLA_ADDRESS :: u16 where "IFLA_ADDRESS = 1"
definition IFLA_MTU :: u16 where "IFLA_MTU = 4"
definition IFA_ADDRESS :: u16 where "IFA_ADDRESS = 1"
definition IFA_LOCAL :: u16 where "IFA_LOCAL = 2"
definition RTA_OIF :: u16 where "RTA_OIF = 4"
definition RTA_GATEWAY :: u16 where "RTA_GATEWAY = 5"

record nl_header =
  nl_length :: u32
  message_type :: u16
  nl_flags :: u16
  nl_sequence :: u32
  nl_pid :: u32

record if_info =
  info_family :: u8
  info_pad :: u8
  info_kind :: u16
  info_index :: u32
  info_flags :: u32
  info_change :: u32

record if_addr =
  addr_family :: u8
  prefix_len :: u8
  addr_flags :: u8
  addr_scope :: u8
  addr_index :: u32

record route_message =
  route_family :: u8
  destination_len :: u8
  source_len :: u8
  route_tos :: u8
  route_table :: u8
  route_protocol :: u8
  route_scope :: u8
  route_kind :: u8
  route_flags :: u32

record rt_attr =
  rta_length :: u16
  rta_kind :: u16

text \<open>\<open>append_struct\<close> for each structure: the bytes that it adds.\<close>

definition nl_header_bytes :: "bool \<Rightarrow> nl_header \<Rightarrow> bytes" where
  "nl_header_bytes big h = to_ne big 4 (nl_length h) @ to_ne big 2 (message_type h) @ to_ne big 2 (nl_flags h) @
     to_ne big 4 (nl_sequence h) @ to_ne big 4 (nl_pid h)"

definition if_info_bytes :: "bool \<Rightarrow> if_info \<Rightarrow> bytes" where
  "if_info_bytes big b = [info_family b, info_pad b] @ to_ne big 2 (info_kind b) @ to_ne big 4 (info_index b) @
     to_ne big 4 (info_flags b) @ to_ne big 4 (info_change b)"

definition if_addr_bytes :: "bool \<Rightarrow> if_addr \<Rightarrow> bytes" where
  "if_addr_bytes big b = [addr_family b, prefix_len b, addr_flags b, addr_scope b] @ to_ne big 4 (addr_index b)"

definition route_message_bytes :: "bool \<Rightarrow> route_message \<Rightarrow> bytes" where
  "route_message_bytes big b = [route_family b, destination_len b, source_len b, route_tos b, route_table b, route_protocol b,
     route_scope b, route_kind b] @ to_ne big 4 (route_flags b)"

definition rt_attr_bytes :: "bool \<Rightarrow> rt_attr \<Rightarrow> bytes" where
  "rt_attr_bytes big a = to_ne big 2 (rta_length a) @ to_ne big 2 (rta_kind a)"

definition align :: "usize \<Rightarrow> usize \<Rightarrow> usize" where
  "align v boundary = unat ((word_of_nat (v + boundary - 1) :: u64) AND NOT (word_of_nat (boundary - 1)))"

text \<open>\<open>Vec::resize\<close> with zeros.\<close>

definition resize :: "bytes \<Rightarrow> usize \<Rightarrow> bytes" where
  "resize out n = take n out @ replicate (n - length out) 0"

definition append_attr :: "bool \<Rightarrow> bytes \<Rightarrow> u16 \<Rightarrow> bytes \<Rightarrow> io_error + bytes" where
  "append_attr big out kind v =
     (let len = 4 + length v
      in if \<not> len < 2 ^ 16 then Inl (Custom IoInvalidInput ''netlink attribute too large'')
         else let out = out @ rt_attr_bytes big \<lparr>rta_length = word_of_nat len, rta_kind = kind\<rparr> @ v
              in Inr (resize out (align (length out) RTA_ALIGNTO)))"

fun append_attrs :: "bool \<Rightarrow> bytes \<Rightarrow> (u16 \<times> bytes) list \<Rightarrow> io_error + bytes" where
  "append_attrs big out [] = Inr out"
| "append_attrs big out ((kind, v) # rest) =
     (case append_attr big out kind v of Inl e \<Rightarrow> Inl e | Inr out' \<Rightarrow> append_attrs big out' rest)"

lemma align_4: "v + 3 < 2 ^ 64 \<Longrightarrow> align v 4 = (v + 3) div 4 * 4"
proof -
  assume v: "v + 3 < 2 ^ 64"
  have "w AND NOT (mask 2) = push_bit 2 (drop_bit 2 w)" for w :: u64
    by (rule bit_eqI) (auto simp: bit_push_bit_iff bit_drop_bit_eq bit_and_iff bit_not_iff bit_mask_iff not_less dest!: le_Suc_ex)
  then have "align v 4 = unat (push_bit 2 (drop_bit 2 (word_of_nat (v + 3) :: u64)))"
    by (simp add: align_def mask_eq_exp_minus_1 add.commute)
  also have "\<dots> = (v + 3) div 4 * 4"
  proof -
    have u: "unat (word_of_nat (v + 3) :: u64) = v + 3"
      using v by (simp only: unsigned_of_nat) (simp add: take_bit_nat_eq_self)
    have "(v + 3) div 4 * 4 < 2 ^ 64"
      using v by simp
    then show ?thesis
      using u by (simp add: push_bit_eq_mult drop_bit_eq_div unat_word_ariths(2) unat_div_distrib)
  qed
  finally show ?thesis .
qed

lemma align_bounds: "v + 3 < 2 ^ 64 \<Longrightarrow> v \<le> align v 4 \<and> align v 4 < v + 4 \<and> 4 dvd align v 4"
  by (simp add: align_4) linarith

section \<open>Requests\<close>

definition AF_UNSPEC :: int where "AF_UNSPEC = 0"
definition AF_INET :: int where "AF_INET = 2"
definition AF_INET6 :: int where "AF_INET6 = 10"
definition AF_NETLINK :: int where "AF_NETLINK = 16"
definition SOCK_RAW_CLOEXEC :: int where "SOCK_RAW_CLOEXEC = 0x80003"
definition NETLINK_ROUTE :: int where "NETLINK_ROUTE = 0"

record route_socket =
  route_fd :: fd
  route_sequence :: u32

text \<open>A \<open>sockaddr_nl\<close> that is zero but for its family.\<close>

definition netlink_address :: "bool \<Rightarrow> bytes" where
  "netlink_address big = to_ne big 2 (word_of_int AF_NETLINK :: u16) @ replicate 10 0"

definition route_open :: "bool \<Rightarrow> (io_error, route_socket) prog" where
  "route_open big =
     bnd (invoke (Sock (NewSocket AF_NETLINK SOCK_RAW_CLOEXEC NETLINK_ROUTE))) (\<lambda>raw.
     and_then (perform (Sock (Bind raw (netlink_address big))))
       (ok \<lparr>route_fd = raw, route_sequence = 0\<rparr>))"

definition request_packet :: "bool \<Rightarrow> u32 \<Rightarrow> u16 \<Rightarrow> u16 \<Rightarrow> bytes \<Rightarrow> (u16 \<times> bytes) list \<Rightarrow> io_error + bytes" where
  "request_packet big seq mtype flags body attributes =
     (let packet = nl_header_bytes big \<lparr>nl_length = 0, message_type = mtype, nl_flags = NLM_F_REQUEST OR NLM_F_ACK OR flags,
            nl_sequence = seq, nl_pid = 0\<rparr> @ body
      in case append_attrs big packet attributes of Inl e \<Rightarrow> Inl e
         | Inr packet \<Rightarrow>
             let packet = resize packet (align (length packet) NLMSG_ALIGNTO)
             in if \<not> length packet < 2 ^ 32 then Inl (Custom IoInvalidInput ''netlink message too large'')
                else Inr (copy_at 0 (to_ne big 4 (word_of_nat (length packet) :: u32)) packet))"

text \<open>
  The inner loop of \<open>wait_ack\<close> over the messages of one datagram. \<open>None\<close> says that the datagram holds no answer
  to the request.
\<close>

function scan_acks :: "bool \<Rightarrow> u32 \<Rightarrow> bytes \<Rightarrow> usize \<Rightarrow> (io_error + unit) option" where
  "scan_acks big seq buffer offset =
     (if \<not> offset + 16 \<le> length buffer then None
      else let len = unat (from_ne big (subslice offset (offset + 4) buffer) :: u32)
           in if len < 16 \<or> offset + len > length buffer then Some (Inl (Custom IoInvalidData ''invalid netlink reply''))
              else if from_ne big (subslice (offset + 8) (offset + 12) buffer) = seq \<and>
                      from_ne big (subslice (offset + 4) (offset + 6) buffer) = NLMSG_ERROR
              then (if offset + 16 + 4 > offset + len then Some (Inl (Custom IoInvalidData ''short netlink error''))
                    else let e = from_ne big (subslice (offset + 16) (offset + 20) buffer) :: u32
                         in Some (if e = 0 then Inr () else Inl (Os (sint (- e)))))
              else scan_acks big seq buffer (offset + align len NLMSG_ALIGNTO))"
  by pat_completeness auto

termination
proof (relation "measure (\<lambda>(_, _, buffer, offset). length buffer - offset)")
  fix big :: bool and seq :: u32 and buffer :: bytes and offset len :: nat
  assume a: "\<not> \<not> offset + 16 \<le> length buffer" "len = unat (from_ne big (subslice offset (offset + 4) buffer) :: u32)"
    "\<not> (len < 16 \<or> offset + len > length buffer)"
  have "len < 4294967296"
    by (simp add: a(2))
  then have "len + 3 < 2 ^ 64"
    by simp
  then have "len \<le> align len NLMSG_ALIGNTO"
    using align_bounds by (simp add: NLMSG_ALIGNTO_def)
  then show "((big, seq, buffer, offset + align len NLMSG_ALIGNTO), big, seq, buffer, offset) \<in> measure (\<lambda>(_, _, buffer, offset). length buffer - offset)"
    using a(1,3) by simp linarith
qed simp

declare scan_acks.simps [simp del]

text \<open>
  \<open>recv\<close> stores at most as many bytes as the buffer holds and returns their number. The messages of earlier
  datagrams that stay in the buffer are never looked at.
\<close>

definition wait_ack :: "bool \<Rightarrow> route_socket \<Rightarrow> (io_error, unit) prog" where
  "wait_ack big s =
     looping (\<lambda>_. bnd (invoke_out (Msg (Recv (route_fd s) 8192 0))) (\<lambda>(count, bs).
       case scan_acks big (route_sequence s) (take 8192 bs) 0 of
         Some r \<Rightarrow> bnd (lift_result r) (\<lambda>_. ok (Inl ()))
       | None \<Rightarrow> ok (Inr ()))) ()"

text \<open>On success the socket with its new sequence number is returned; after an error no caller uses it again.\<close>

definition route_request ::
    "bool \<Rightarrow> route_socket \<Rightarrow> u16 \<Rightarrow> u16 \<Rightarrow> bytes \<Rightarrow> (u16 \<times> bytes) list \<Rightarrow> (io_error, route_socket) prog" where
  "route_request big s mtype flags body attributes =
     (let s = s\<lparr>route_sequence := route_sequence s + 1\<rparr>
      in bnd (lift_result (request_packet big (route_sequence s) mtype flags body attributes)) (\<lambda>packet.
         and_then (perform (Msg (Sendto (route_fd s) packet 0 (netlink_address big))))
        (and_then (wait_ack big s) (ok s))))"

definition interface_index :: "bytes \<Rightarrow> (io_error, u32) prog" where
  "interface_index name =
     (if 0 \<in> set name then err (Custom IoInvalidInput ''interface contains NUL'')
      else bnd (invoke (Sock (IfNametoindex name))) (\<lambda>index. ok (word_of_int index)))"

definition IFF_UP :: u32 where "IFF_UP = 1"

definition set_link_up :: "bool \<Rightarrow> route_socket \<Rightarrow> u32 \<Rightarrow> bytes option \<Rightarrow> u32 option \<Rightarrow> (io_error, route_socket) prog" where
  "set_link_up big s index mac mtu =
     (let body = \<lparr>info_family = word_of_int AF_UNSPEC, info_pad = 0, info_kind = 0, info_index = index,
            info_flags = IFF_UP, info_change = IFF_UP\<rparr>;
          attributes = (case mac of None \<Rightarrow> [] | Some m \<Rightarrow> [(IFLA_ADDRESS, m)]) @
            (case mtu of None \<Rightarrow> [] | Some n \<Rightarrow> [(IFLA_MTU, to_ne big 4 n)])
      in route_request big s RTM_NEWLINK 0 (if_info_bytes big body) attributes)"

definition add_address :: "bool \<Rightarrow> route_socket \<Rightarrow> u32 \<Rightarrow> u8 \<Rightarrow> u8 \<Rightarrow> bytes \<Rightarrow> (io_error, route_socket) prog" where
  "add_address big s index family prefix address =
     (let body = \<lparr>addr_family = family, prefix_len = prefix,
            addr_flags = (if family = word_of_int AF_INET6 then 0x02 else 0), addr_scope = 0, addr_index = index\<rparr>
      in route_request big s RTM_NEWADDR (NLM_F_CREATE OR NLM_F_EXCL) (if_addr_bytes big body)
           [(IFA_LOCAL, address), (IFA_ADDRESS, address)])"

definition add_default_route :: "bool \<Rightarrow> route_socket \<Rightarrow> u32 \<Rightarrow> u8 \<Rightarrow> bytes \<Rightarrow> (io_error, route_socket) prog" where
  "add_default_route big s index family gateway =
     (let body = \<lparr>route_family = family, destination_len = 0, source_len = 0, route_tos = 0, route_table = 254,
            route_protocol = 3, route_scope = 0, route_kind = 1, route_flags = 0\<rparr>
      in route_request big s RTM_NEWROUTE (NLM_F_CREATE OR NLM_F_EXCL) (route_message_bytes big body)
           [(RTA_GATEWAY, gateway), (RTA_OIF, to_ne big 4 index)])"

text \<open>The steps of one address family: its address, then its default route.\<close>

definition configure_family :: "bool \<Rightarrow> u32 \<Rightarrow> int \<Rightarrow> (bytes \<times> u8 \<times> bytes) option \<Rightarrow> route_socket \<Rightarrow> (io_error, route_socket) prog" where
  "configure_family big tap family spec s =
     (case spec of None \<Rightarrow> ok s
      | Some (address, prefix, gateway) \<Rightarrow>
          bnd (add_address big s tap (word_of_int family) prefix address) (\<lambda>s.
          add_default_route big s tap (word_of_int family) gateway))"

definition configure_namespace ::
    "bool \<Rightarrow> bytes \<Rightarrow> bytes \<Rightarrow> u32 \<Rightarrow> (bytes \<times> u8 \<times> bytes) option \<Rightarrow> (bytes \<times> u8 \<times> bytes) option \<Rightarrow> (io_error, unit) prog" where
  "configure_namespace big tap_name tap_mac mtu ipv4 ipv6 =
     bnd (route_open big) (\<lambda>s.
     bnd (interface_index [108, 111]) (\<lambda>loopback.
     bnd (set_link_up big s loopback None None) (\<lambda>s.
     bnd (interface_index tap_name) (\<lambda>tap.
     bnd (set_link_up big s tap (Some tap_mac) (Some mtu)) (\<lambda>s.
     bnd (configure_family big tap AF_INET ipv4 s) (\<lambda>s.
     bnd (configure_family big tap AF_INET6 ipv6 s) (\<lambda>_.
       ok ())))))))"

section \<open>Numbers and attributes\<close>

lemma length_to_ne [simp]: "length (to_ne big n w) = n"
  by (simp add: to_ne_def)

lemma from_to_ne: "8 * n = LENGTH('w) \<Longrightarrow> from_ne big (to_ne big n (w :: 'w::len word)) = w"
  by (simp add: from_ne_def to_ne_def from_to_le)

text \<open>The bytes of an attribute with its padding, and of a whole message as the kernel sends it.\<close>

definition padding :: "usize \<Rightarrow> bytes" where
  "padding n = replicate (align n 4 - n) 0"

definition attr_bytes :: "bool \<Rightarrow> u16 \<times> bytes \<Rightarrow> bytes" where
  "attr_bytes big a = rt_attr_bytes big \<lparr>rta_length = word_of_nat (4 + length (snd a)), rta_kind = fst a\<rparr> @ snd a @
     padding (4 + length (snd a))"

definition attr_ok :: "u16 \<times> bytes \<Rightarrow> bool" where
  "attr_ok a \<longleftrightarrow> length (snd a) < 2 ^ 16 - 4"

lemma align_shift: "4 dvd n \<Longrightarrow> n + v + 3 < 2 ^ 64 \<Longrightarrow> align (n + v) 4 = n + align v 4"
  by (simp add: align_4; presburger)

lemma align_dvd: "4 dvd n \<Longrightarrow> n + 3 < 2 ^ 64 \<Longrightarrow> align n 4 = n"
  by (auto simp: align_4 elim!: dvdE)

lemma resize_longer: "length out \<le> n \<Longrightarrow> resize out n = out @ replicate (n - length out) 0"
  by (simp add: resize_def)

lemma length_attr_bytes: "attr_ok a \<Longrightarrow> length (attr_bytes big a) = align (4 + length (snd a)) 4"
  using align_bounds [of "4 + length (snd a)"] by (simp add: attr_bytes_def rt_attr_bytes_def padding_def attr_ok_def; linarith)

lemma append_attr_bytes:
  assumes "4 dvd length out" "attr_ok a" "length out < 2 ^ 63"
  shows "append_attr big out (fst a) (snd a) = Inr (out @ attr_bytes big a)"
proof -
  let ?v = "4 + length (snd a)"
  have "length out + ?v + 3 < 2 ^ 64"
    using assms(2,3) by (simp add: attr_ok_def)
  then have al: "align (length out + ?v) 4 = length out + align ?v 4" "?v \<le> align ?v 4"
    using align_shift [OF assms(1)] align_bounds [of ?v] by simp_all
  let ?new = "out @ rt_attr_bytes big \<lparr>rta_length = word_of_nat ?v, rta_kind = fst a\<rparr> @ snd a"
  have "length ?new = length out + ?v"
    by (simp add: rt_attr_bytes_def)
  then have "resize ?new (align (length ?new) 4) = out @ attr_bytes big a"
    using al by (simp only: resize_longer) (simp add: attr_bytes_def padding_def)
  then show ?thesis
    using assms(2) by (simp add: append_attr_def attr_ok_def RTA_ALIGNTO_def)
qed

lemma attr_bytes_4: "attr_ok a \<Longrightarrow> 4 dvd length (attr_bytes big a) \<and> length (attr_bytes big a) < 2 ^ 17"
  using align_bounds [of "4 + length (snd a)"] by (auto simp: length_attr_bytes attr_ok_def)

lemma append_attrs_bytes:
  "list_all attr_ok attrs \<Longrightarrow> 4 dvd length out \<Longrightarrow> length out + 2 ^ 17 * length attrs < 2 ^ 63 \<Longrightarrow>
     append_attrs big out attrs = Inr (out @ concat (map (attr_bytes big) attrs)) \<and>
     4 dvd length (out @ concat (map (attr_bytes big) attrs)) \<and>
     length (out @ concat (map (attr_bytes big) attrs)) \<le> length out + 2 ^ 17 * length attrs"
proof (induction attrs arbitrary: out)
  case (Cons a attrs)
  then have a: "attr_ok a" "length out < 2 ^ 63"
    by simp_all
  note l = attr_bytes_4 [OF a(1), of big]
  have "append_attr big out (fst a) (snd a) = Inr (out @ attr_bytes big a)"
    by (rule append_attr_bytes [OF Cons.prems(2) a])
  then show ?case
    using Cons.IH [of "out @ attr_bytes big a"] Cons.prems l by (cases a) simp
qed simp

section \<open>How the kernel reads a request\<close>

text \<open>
  The documented walk over attributes (\<open>RTA_OK\<close>, \<open>RTA_NEXT\<close>): a length that covers at least the attribute's header and
  stays within the message, the value, and the next attribute at the next multiple of four.
\<close>

function parse_attrs :: "bool \<Rightarrow> bytes \<Rightarrow> (u16 \<times> bytes) list option" where
  "parse_attrs big bs =
     (if bs = [] then Some []
      else let len = unat (from_ne big (take 2 bs) :: u16)
           in if length bs < 4 \<or> len < 4 \<or> length bs < len then None
              else map_option (Cons (from_ne big (subslice 2 4 bs), subslice 4 len bs)) (parse_attrs big (drop (align len 4) bs)))"
  by pat_completeness auto
termination
proof (relation "measure (\<lambda>(_, bs). length bs)")
  fix big bs and len :: nat
  assume a: "bs \<noteq> []" "len = unat (from_ne big (take 2 bs) :: u16)" "\<not> (length bs < 4 \<or> len < 4 \<or> length bs < len)"
  have "len < 65536"
    by (simp add: a(2))
  then show "((big, drop (align len 4) bs), big, bs) \<in> measure (\<lambda>(_, bs). length bs)"
    using a(1,3) align_bounds [of len] by simp
qed simp

declare parse_attrs.simps [simp del]

definition nl_header_at :: "bool \<Rightarrow> bytes \<Rightarrow> nl_header" where
  "nl_header_at big bs = \<lparr>nl_length = from_ne big (subslice 0 4 bs), message_type = from_ne big (subslice 4 6 bs),
     nl_flags = from_ne big (subslice 6 8 bs), nl_sequence = from_ne big (subslice 8 12 bs), nl_pid = from_ne big (subslice 12 16 bs)\<rparr>"

lemma nl_header_roundtrip: "nl_header_at big (nl_header_bytes big h @ rest) = h"
  by (simp add: nl_header_at_def nl_header_bytes_def subslice_def from_to_ne)

lemma length_nl_header_bytes [simp]: "length (nl_header_bytes big h) = 16"
  by (simp add: nl_header_bytes_def)

lemma parse_attr_first:
  assumes "attr_ok a"
  shows "parse_attrs big (attr_bytes big a @ rest) = map_option (Cons a) (parse_attrs big rest)"
proof -
  let ?v = "4 + length (snd a)"
  have v: "unat (word_of_nat ?v :: u16) = ?v"
    using assms by (simp only: unsigned_of_nat) (simp add: take_bit_nat_eq_self attr_ok_def)
  define bs where "bs = attr_bytes big a @ rest"
  have len: "unat (from_ne big (take 2 bs) :: u16) = ?v"
    by (simp add: bs_def attr_bytes_def rt_attr_bytes_def from_to_ne v del: of_nat_add)
  have rest: "drop (align ?v 4) bs = rest"
    by (simp add: bs_def length_attr_bytes [OF assms])
  have parts: "subslice 2 4 bs = to_ne big 2 (fst a)" "subslice 4 ?v bs = snd a"
    by (simp_all add: bs_def attr_bytes_def rt_attr_bytes_def subslice_def)
  have "bs \<noteq> []" "?v \<le> length bs"
    using length_attr_bytes [OF assms, of big] align_bounds [of ?v] assms by (auto simp: bs_def attr_ok_def)
  then have "parse_attrs big bs = map_option (Cons a) (parse_attrs big rest)"
    by (subst parse_attrs.simps) (simp add: len rest parts from_to_ne Let_def)
  then show ?thesis
    by (simp add: bs_def)
qed

lemma parse_attrs_roundtrip: "list_all attr_ok attrs \<Longrightarrow> parse_attrs big (concat (map (attr_bytes big) attrs)) = Some attrs"
  by (induction attrs) (simp_all add: parse_attr_first parse_attrs.simps [of _ "[]"])

lemma request_packet_bytes:
  assumes attrs: "list_all attr_ok attrs" and body: "4 dvd length body" and small: "length body + 2 ^ 17 * length attrs < 2 ^ 31"
  shows "\<exists>packet. request_packet big seq mtype flags body attrs = Inr packet \<and> 4 dvd length packet \<and> length packet < 2 ^ 32 \<and>
    packet = nl_header_bytes big \<lparr>nl_length = word_of_nat (length packet), message_type = mtype,
        nl_flags = NLM_F_REQUEST OR NLM_F_ACK OR flags, nl_sequence = seq, nl_pid = 0\<rparr> @ body @ concat (map (attr_bytes big) attrs)"
proof -
  let ?h = "\<lambda>n. nl_header_bytes big \<lparr>nl_length = n, message_type = mtype, nl_flags = NLM_F_REQUEST OR NLM_F_ACK OR flags,
      nl_sequence = seq, nl_pid = 0\<rparr>"
  let ?p = "?h 0 @ body @ concat (map (attr_bytes big) attrs)"
  have p: "append_attrs big (?h 0 @ body) attrs = Inr ?p" "4 dvd length ?p" "length ?p < 2 ^ 32"
    using append_attrs_bytes [OF attrs, of "?h 0 @ body" big] body small by auto
  have "align (length ?p) 4 = length ?p"
    using p(2,3) by (intro align_dvd) auto
  then have "resize ?p (align (length ?p) 4) = ?p"
    by (simp add: resize_longer)
  moreover have "copy_at 0 (to_ne big 4 (word_of_nat (length ?p) :: u32)) ?p = ?h (word_of_nat (length ?p)) @ body @ concat (map (attr_bytes big) attrs)"
    by (simp add: copy_at_def nl_header_bytes_def)
  ultimately show ?thesis
    using p by (intro exI [of _ "?h (word_of_nat (length ?p)) @ body @ concat (map (attr_bytes big) attrs)"])
      (simp add: request_packet_def NLMSG_ALIGNTO_def Let_def)
qed

section \<open>Acknowledgments\<close>

text \<open>A message of the kernel: its header with the true length, its body, and the padding to a multiple of four.\<close>

definition nl_message :: "bool \<Rightarrow> nl_header \<times> bytes \<Rightarrow> bytes" where
  "nl_message big m =
     (let n = 16 + length (snd m)
      in nl_header_bytes big ((fst m)\<lparr>nl_length := word_of_nat n\<rparr>) @ snd m @ padding n)"

definition message_ok :: "nl_header \<times> bytes \<Rightarrow> bool" where
  "message_ok m \<longleftrightarrow> length (snd m) < 2 ^ 32 - 16"

text \<open>What the first message that answers the request says.\<close>

fun first_answer :: "bool \<Rightarrow> u32 \<Rightarrow> (nl_header \<times> bytes) list \<Rightarrow> (io_error + unit) option" where
  "first_answer big seq [] = None"
| "first_answer big seq ((h, body) # ms) =
     (if nl_sequence h = seq \<and> message_type h = NLMSG_ERROR
      then Some (if length body < 4 then Inl (Custom IoInvalidData ''short netlink error'')
                 else if (from_ne big (take 4 body) :: u32) = 0 then Inr ()
                 else Inl (Os (sint (- (from_ne big (take 4 body) :: u32)))))
      else first_answer big seq ms)"

lemma length_nl_message:
  assumes "message_ok m"
  shows "length (nl_message big m) = align (16 + length (snd m)) 4" "4 dvd length (nl_message big m)"
    "16 + length (snd m) \<le> length (nl_message big m)"
proof -
  have "16 + length (snd m) + 3 < 2 ^ 64"
    using assms by (simp add: message_ok_def)
  from align_bounds [OF this] show l: "length (nl_message big m) = align (16 + length (snd m)) 4"
    by (simp add: nl_message_def padding_def Let_def; linarith)
  show "4 dvd length (nl_message big m)" "16 + length (snd m) \<le> length (nl_message big m)"
    using align_bounds [of "16 + length (snd m)"] assms by (simp_all add: l message_ok_def)
qed

lemma slice_behind: "subslice (n + a) (n + b) xs = subslice a b (drop n xs)"
  by (simp add: subslice_def add.commute)

lemma header_fields:
  assumes "nl_header_at big bs = h"
  shows "from_ne big (subslice 0 4 bs) = nl_length h" "from_ne big (subslice 4 6 bs) = message_type h"
    "from_ne big (subslice 8 12 bs) = nl_sequence h"
  using assms by (auto simp: nl_header_at_def)

lemma scan_one:
  assumes ok: "message_ok (h, body)"
  shows "scan_acks big seq (pre @ nl_message big (h, body) @ post) (length pre) =
     (if nl_sequence h = seq \<and> message_type h = NLMSG_ERROR then first_answer big seq [(h, body)]
      else scan_acks big seq (pre @ nl_message big (h, body) @ post) (length (pre @ nl_message big (h, body))))"
proof -
  let ?n = "16 + length body"
  let ?h = "h\<lparr>nl_length := word_of_nat ?n\<rparr>"
  let ?bs = "pre @ nl_message big (h, body) @ post"
  obtain rest where rest: "nl_message big (h, body) @ post = nl_header_bytes big ?h @ body @ rest"
    by (simp add: nl_message_def Let_def)
  have d: "drop (length pre) ?bs = nl_header_bytes big ?h @ body @ rest"
    using rest by simp
  note sl = slice_behind [of "length pre"]
  have fields: "from_ne big (subslice (length pre) (length pre + 4) ?bs) = (word_of_nat ?n :: u32)"
    "from_ne big (subslice (length pre + 4) (length pre + 6) ?bs) = message_type h"
    "from_ne big (subslice (length pre + 8) (length pre + 12) ?bs) = nl_sequence h"
    using header_fields [OF nl_header_roundtrip [of big ?h "body @ rest"]] sl [of 0 4 ?bs] sl [of 4 6 ?bs] sl [of 8 12 ?bs] d
    by simp_all
  have u: "unat (word_of_nat ?n :: u32) = ?n"
    using ok by (simp only: unsigned_of_nat) (simp add: take_bit_nat_eq_self message_ok_def)
  have code: "4 \<le> length body \<Longrightarrow> subslice (length pre + 16) (length pre + 20) ?bs = take 4 body"
    using sl [of 16 20 ?bs] d by (simp add: subslice_def)
  have "?n \<le> length (nl_message big (h, body))" "length (nl_message big (h, body)) = align ?n 4"
    using length_nl_message [OF ok, of big] by simp_all
  then show ?thesis
    using code by (subst scan_acks.simps) (simp add: fields u Let_def NLMSG_ALIGNTO_def del: of_nat_add)
qed

lemma scan_messages:
  "list_all message_ok ms \<Longrightarrow>
     scan_acks big seq (pre @ concat (map (nl_message big) ms)) (length pre) = first_answer big seq ms"
proof (induction ms arbitrary: pre)
  case (Cons m ms)
  obtain h body where m: "m = (h, body)"
    by (cases m)
  show ?case
    using scan_one [of h body big seq pre "concat (map (nl_message big) ms)"] Cons.IH [of "pre @ nl_message big m"] Cons.prems
    by (simp add: m)
qed (simp add: scan_acks.simps)

section \<open>Exchanges with the kernel\<close>

type_synonym nl_request = "u16 \<times> u16 \<times> bytes \<times> (u16 \<times> bytes) list"

text \<open>What the kernel reads in a packet: the header, the body of the request's kind and the attributes.\<close>

definition kernel_reads :: "bool \<Rightarrow> bytes \<Rightarrow> u32 \<Rightarrow> nl_request \<Rightarrow> bool" where
  "kernel_reads big packet seq req \<longleftrightarrow>
     (let (mtype, flags, body, attrs) = req
      in nl_header_at big packet = \<lparr>nl_length = word_of_nat (length packet), message_type = mtype,
           nl_flags = NLM_F_REQUEST OR NLM_F_ACK OR flags, nl_sequence = seq, nl_pid = 0\<rparr> \<and>
         length packet < 2 ^ 32 \<and> 4 dvd length packet \<and> subslice 16 (16 + length body) packet = body \<and>
         parse_attrs big (drop (16 + length body) packet) = Some attrs)"

definition request_ok :: "nl_request \<Rightarrow> bool" where
  "request_ok req \<longleftrightarrow> (let (mtype, flags, body, attrs) = req
     in list_all attr_ok attrs \<and> 4 dvd length body \<and> length body + 2 ^ 17 * length attrs < 2 ^ 31)"

lemma request_packet_read:
  assumes ok: "request_ok (mtype, flags, body, attrs)" and p: "request_packet big seq mtype flags body attrs = Inr packet"
  shows "kernel_reads big packet seq (mtype, flags, body, attrs)"
proof -
  let ?h = "\<lparr>nl_length = word_of_nat (length packet), message_type = mtype, nl_flags = NLM_F_REQUEST OR NLM_F_ACK OR flags,
      nl_sequence = seq, nl_pid = 0\<rparr>"
  have a: "4 dvd length packet" "length packet < 2 ^ 32"
    "packet = nl_header_bytes big ?h @ body @ concat (map (attr_bytes big) attrs)"
    using request_packet_bytes [of attrs body big seq mtype flags] ok p by (auto simp: request_ok_def)
  have "nl_header_at big packet = ?h"
    by (subst a(3)) (rule nl_header_roundtrip)
  moreover have "subslice 16 (16 + length body) packet = body"
    by (subst a(3)) (simp add: subslice_def)
  moreover have "drop (16 + length body) packet = concat (map (attr_bytes big) attrs)"
    by (subst a(3)) simp
  ultimately show ?thesis
    using a(1,2) ok parse_attrs_roundtrip [of attrs big] by (simp add: kernel_reads_def request_ok_def)
qed

definition sent_packets :: "syscall list \<Rightarrow> bytes list" where
  "sent_packets cs = concat (map (\<lambda>c. case c of Msg (Sendto f p flags a) \<Rightarrow> [p] | _ \<Rightarrow> []) cs)"

lemma sent_packets_simps [simp]: "sent_packets [] = []" "sent_packets (cs @ ds) = sent_packets cs @ sent_packets ds"
  "sent_packets (Msg (Sendto f p fl a) # cs) = p # sent_packets cs" "sent_packets (Msg (Recv f n fl) # cs) = sent_packets cs"
  "sent_packets (replicate n (Msg (Recv f k fl))) = []"
  by (simp_all add: sent_packets_def)

definition not_sendto :: "syscall \<Rightarrow> bool" where
  "not_sendto c \<longleftrightarrow> (case c of Msg (Sendto f p fl a) \<Rightarrow> False | _ \<Rightarrow> True)"

lemma sent_packets_none: "list_all not_sendto cs \<Longrightarrow> sent_packets cs = []"
  by (induction cs) (auto simp: sent_packets_def not_sendto_def split: syscall.splits message_call.splits)

text \<open>The call that receives an answer, and that the answer it got accepts request number \<open>seq\<close>.\<close>

definition recv_call :: "fd \<Rightarrow> syscall" where
  "recv_call f = Msg (Recv f 8192 0)"

definition accepted :: "bool \<Rightarrow> fd \<Rightarrow> u32 \<Rightarrow> system \<Rightarrow> syscall list \<Rightarrow> bool" where
  "accepted big f seq w before \<longleftrightarrow> scan_acks big seq (take 8192 (sys_out w before (recv_call f))) 0 = Some (Inr ())"

text \<open>
  From \<open>w\<close> on, the packets sent are the requests in order, numbered from 1, and each was accepted before the next
  one was sent.
\<close>

definition exchanged :: "bool \<Rightarrow> fd \<Rightarrow> system \<Rightarrow> nl_request list \<Rightarrow> system \<Rightarrow> bool" where
  "exchanged big f w reqs v \<longleftrightarrow> (\<exists>cs. v = after_calls w cs \<and> length (sent_packets cs) = length reqs \<and>
     (\<forall>i < length reqs. kernel_reads big (sent_packets cs ! i) (word_of_nat (Suc i)) (reqs ! i) \<and>
        (\<exists>ds es. cs = ds @ recv_call f # es \<and> length (sent_packets ds) = Suc i \<and>
           accepted big f (word_of_nat (Suc i)) w (calls w @ ds))))"

lemma exchanged_other:
  assumes "exchanged big f w reqs v" "issues not_sendto m" "m v = Some (r, v')"
  shows "exchanged big f w reqs v'"
proof -
  obtain cs where cs: "v = after_calls w cs" "length (sent_packets cs) = length reqs"
    "\<forall>i < length reqs. kernel_reads big (sent_packets cs ! i) (word_of_nat (Suc i)) (reqs ! i) \<and>
       (\<exists>ds es. cs = ds @ recv_call f # es \<and> length (sent_packets ds) = Suc i \<and> accepted big f (word_of_nat (Suc i)) w (calls w @ ds))"
    using assms(1) by (auto simp: exchanged_def)
  obtain more where more: "v' = after_calls v more" "sent_packets more = []"
    using issuesD [OF assms(2,3)] sent_packets_none by blast
  show ?thesis
    unfolding exchanged_def
    by (rule exI [of _ "cs @ more"]) (use cs more in \<open>fastforce\<close>)
qed

lemma wait_ack_accepted:
  assumes "wait_ack big s v = Some (Inr (), v')"
  shows "\<exists>n. v' = after_calls v (replicate n (recv_call (route_fd s)) @ [recv_call (route_fd s)]) \<and>
    accepted big (route_fd s) (route_sequence s) v (calls v @ replicate n (recv_call (route_fd s)))"
proof -
  let ?c = "recv_call (route_fd s)"
  have "\<forall>u. r = Inr u \<longrightarrow> (\<exists>n. v' = after_calls v (replicate n ?c @ [?c]) \<and>
      accepted big (route_fd s) (route_sequence s) v (calls v @ replicate n ?c))"
    if "wait_ack big s v = Some (r, v')" for r v'
    using that unfolding wait_ack_def
  proof (rule looping_rule [where I = "\<lambda>_ x. \<exists>n. x = after_calls v (replicate n ?c)"], goal_cases)
    case 1
    show ?case by (auto intro!: exI [of _ 0])
  next
    case (2 a x a' x1)
    then obtain n where "x = after_calls v (replicate n ?c)" by blast
    then have "x1 = after_calls v (replicate (Suc n) ?c)"
      using 2(2) by (auto simp: outcome recv_call_def replicate_append_same split: option.splits)
    then show ?case by blast
  next
    case (3 a x u x1)
    then obtain n where "x = after_calls v (replicate n ?c)" by blast
    then show ?case
      using 3(2) by (auto simp: outcome recv_call_def accepted_def intro!: exI [of _ n] split: option.splits)
  qed auto
  then show ?thesis
    using assms by blast
qed

lemma exchanged_request:
  assumes ex: "exchanged big (route_fd s) w reqs v" and seq: "route_sequence s = word_of_nat (length reqs)"
    and ok: "request_ok (mtype, flags, body, attrs)" and run: "route_request big s mtype flags body attrs v = Some (Inr s', v')"
  shows "exchanged big (route_fd s) w (reqs @ [(mtype, flags, body, attrs)]) v'"
    and "s' = s\<lparr>route_sequence := word_of_nat (length reqs + 1)\<rparr>"
proof -
  let ?s = "s\<lparr>route_sequence := word_of_nat (Suc (length reqs))\<rparr>"
  let ?c = "recv_call (route_fd s)"
  obtain packet v1 where packet: "request_packet big (route_sequence ?s) mtype flags body attrs = Inr packet"
    and v1: "v1 = after_calls v [Msg (Sendto (route_fd s) packet 0 (netlink_address big))]"
    and ack: "wait_ack big ?s v1 = Some (Inr (), v')" and s': "s' = ?s"
    using run by (auto simp: route_request_def seq outcome Let_def add.commute)
  then show "s' = s\<lparr>route_sequence := word_of_nat (length reqs + 1)\<rparr>"
    by simp
  obtain cs where cs: "v = after_calls w cs" "length (sent_packets cs) = length reqs"
    "\<And>i. i < length reqs \<Longrightarrow> kernel_reads big (sent_packets cs ! i) (word_of_nat (Suc i)) (reqs ! i) \<and>
       (\<exists>ds es. cs = ds @ ?c # es \<and> length (sent_packets ds) = Suc i \<and> accepted big (route_fd s) (word_of_nat (Suc i)) w (calls w @ ds))"
    using ex unfolding exchanged_def by blast
  obtain n where n: "v' = after_calls v1 (replicate n ?c @ [?c])"
    "accepted big (route_fd s) (route_sequence ?s) v1 (calls v1 @ replicate n ?c)"
    using wait_ack_accepted [OF ack] by auto
  let ?new = "cs @ Msg (Sendto (route_fd s) packet 0 (netlink_address big)) # replicate n ?c @ [?c]"
  have sent: "sent_packets ?new = sent_packets cs @ [packet]"
    by (simp add: recv_call_def)
  have reads: "kernel_reads big packet (word_of_nat (Suc (length reqs))) (mtype, flags, body, attrs)"
    using request_packet_read [OF ok packet] by simp
  show "exchanged big (route_fd s) w (reqs @ [(mtype, flags, body, attrs)]) v'"
    unfolding exchanged_def
  proof (rule exI [of _ ?new], intro conjI allI impI)
    show "v' = after_calls w ?new"
      by (simp add: n(1) v1 cs(1))
    show "length (sent_packets ?new) = length (reqs @ [(mtype, flags, body, attrs)])"
      by (simp only: sent) (simp add: cs(2))
    fix i
    assume i: "i < length (reqs @ [(mtype, flags, body, attrs)])"
    show "kernel_reads big (sent_packets ?new ! i) (word_of_nat (Suc i)) ((reqs @ [(mtype, flags, body, attrs)]) ! i)"
      using i cs(3) [of i] reads by (simp only: sent) (auto simp: nth_append cs(2) less_Suc_eq simp del: of_nat_Suc)
    show "\<exists>ds es. ?new = ds @ ?c # es \<and> length (sent_packets ds) = Suc i \<and>
        accepted big (route_fd s) (word_of_nat (Suc i)) w (calls w @ ds)"
    proof (cases "i = length reqs")
      case True
      then show ?thesis
        using n(2) by (intro exI [of _ "cs @ Msg (Sendto (route_fd s) packet 0 (netlink_address big)) # replicate n ?c"] exI [of _ "[]"])
          (simp add: cs(1,2) v1 recv_call_def accepted_def)
    next
      case False
      then show ?thesis
        using cs(3) [of i] i by fastforce
    qed
  qed
qed

section \<open>The configuration as a list of requests\<close>

definition link_up :: "bool \<Rightarrow> u32 \<Rightarrow> (u16 \<times> bytes) list \<Rightarrow> nl_request" where
  "link_up big index attrs = (RTM_NEWLINK, 0, if_info_bytes big \<lparr>info_family = 0, info_pad = 0, info_kind = 0, info_index = index,
     info_flags = 1, info_change = 1\<rparr>, attrs)"

definition new_address :: "bool \<Rightarrow> u32 \<Rightarrow> u8 \<Rightarrow> u8 \<Rightarrow> u8 \<Rightarrow> bytes \<Rightarrow> nl_request" where
  "new_address big index family flags prefix address =
     (RTM_NEWADDR, NLM_F_CREATE OR NLM_F_EXCL, if_addr_bytes big \<lparr>addr_family = family, prefix_len = prefix, addr_flags = flags,
        addr_scope = 0, addr_index = index\<rparr>, [(IFA_LOCAL, address), (IFA_ADDRESS, address)])"

definition new_default_route :: "bool \<Rightarrow> u32 \<Rightarrow> u8 \<Rightarrow> bytes \<Rightarrow> nl_request" where
  "new_default_route big index family gateway =
     (RTM_NEWROUTE, NLM_F_CREATE OR NLM_F_EXCL, route_message_bytes big \<lparr>route_family = family, destination_len = 0, source_len = 0,
        route_tos = 0, route_table = 254, route_protocol = 3, route_scope = 0, route_kind = 1, route_flags = 0\<rparr>,
      [(RTA_GATEWAY, gateway), (RTA_OIF, to_ne big 4 index)])"

definition family_requests :: "bool \<Rightarrow> u32 \<Rightarrow> u8 \<Rightarrow> u8 \<Rightarrow> (bytes \<times> u8 \<times> bytes) option \<Rightarrow> nl_request list" where
  "family_requests big tap family flags spec =
     (case spec of None \<Rightarrow> []
      | Some (address, prefix, gateway) \<Rightarrow>
          [new_address big tap family flags prefix address, new_default_route big tap family gateway])"

definition namespace_requests ::
    "bool \<Rightarrow> u32 \<Rightarrow> u32 \<Rightarrow> bytes \<Rightarrow> u32 \<Rightarrow> (bytes \<times> u8 \<times> bytes) option \<Rightarrow> (bytes \<times> u8 \<times> bytes) option \<Rightarrow> nl_request list" where
  "namespace_requests big loopback tap mac mtu ipv4 ipv6 =
     [link_up big loopback [], link_up big tap [(IFLA_ADDRESS, mac), (IFLA_MTU, to_ne big 4 mtu)]] @
     family_requests big tap 2 0 ipv4 @ family_requests big tap 10 0x02 ipv6"

lemmas netlink_families = AF_UNSPEC_def AF_INET_def AF_INET6_def

text \<open>An address specification with arrays of the family's size.\<close>

definition spec_ok :: "nat \<Rightarrow> (bytes \<times> u8 \<times> bytes) option \<Rightarrow> bool" where
  "spec_ok n spec \<longleftrightarrow> (case spec of None \<Rightarrow> True | Some (a, p, g) \<Rightarrow> length a = n \<and> length g = n)"

definition socket_at :: "fd \<Rightarrow> nl_request list \<Rightarrow> route_socket" where
  "socket_at f reqs = \<lparr>route_fd = f, route_sequence = word_of_nat (length reqs)\<rparr>"

lemma exchange_step:
  assumes "exchanged big f w reqs v" "request_ok (mtype, flags, body, attrs)"
    "route_request big (socket_at f reqs) mtype flags body attrs v = Some (Inr s', v')"
  shows "exchanged big f w (reqs @ [(mtype, flags, body, attrs)]) v' \<and> s' = socket_at f (reqs @ [(mtype, flags, body, attrs)])"
  using exchanged_request [of big "socket_at f reqs" w reqs v] assms by (auto simp: socket_at_def)

lemma link_step:
  assumes "exchanged big f w reqs v" "\<And>m. mac = Some m \<Longrightarrow> length m = 6"
    "set_link_up big (socket_at f reqs) index mac mtu v = Some (Inr s', v')"
  defines "attrs \<equiv> (case mac of None \<Rightarrow> [] | Some m \<Rightarrow> [(IFLA_ADDRESS, m)]) @
     (case mtu of None \<Rightarrow> [] | Some n \<Rightarrow> [(IFLA_MTU, to_ne big 4 n)])"
  shows "exchanged big f w (reqs @ [link_up big index attrs]) v' \<and> s' = socket_at f (reqs @ [link_up big index attrs])"
  unfolding link_up_def
proof (rule exchange_step [OF assms(1)])
  show "request_ok (RTM_NEWLINK, 0, if_info_bytes big \<lparr>info_family = 0, info_pad = 0, info_kind = 0, info_index = index,
     info_flags = 1, info_change = 1\<rparr>, attrs)"
    using assms(2) by (auto simp: request_ok_def attrs_def attr_ok_def if_info_bytes_def split: option.splits)
qed (use assms(3) in \<open>simp add: set_link_up_def attrs_def netlink_families IFF_UP_def Let_def\<close>)

lemma family_step:
  assumes "exchanged big f w reqs v" "spec_ok n spec" "n \<le> 16" "family = AF_INET \<and> flags = 0 \<or> family = AF_INET6 \<and> flags = 0x02"
    "configure_family big tap family spec (socket_at f reqs) v = Some (Inr s', v')"
  defines "later \<equiv> family_requests big tap (word_of_int family) flags spec"
  shows "exchanged big f w (reqs @ later) v' \<and> s' = socket_at f (reqs @ later)"
proof (cases spec)
  case None
  then show ?thesis
    using assms(1,5) by (simp add: configure_family_def outcome later_def family_requests_def)
next
  case (Some x)
  obtain a p g where x: "x = (a, p, g)"
    by (cases x)
  let ?f = "word_of_int family :: u8"
  let ?r1 = "new_address big tap ?f flags p a" and ?r2 = "new_default_route big tap ?f g"
  obtain s1 v1 where run: "add_address big (socket_at f reqs) tap ?f p a v = Some (Inr s1, v1)"
    "add_default_route big s1 tap ?f g v1 = Some (Inr s', v')"
    using assms(5) by (auto simp: configure_family_def Some x outcome)
  have len: "length a \<le> 16" "length g \<le> 16"
    using assms(2,3) by (auto simp: spec_ok_def Some x)
  have flags: "(if ?f = word_of_int AF_INET6 then 0x02 else 0) = flags"
    using assms(4) by (auto simp: netlink_families)
  have one: "exchanged big f w (reqs @ [?r1]) v1 \<and> s1 = socket_at f (reqs @ [?r1])"
    unfolding new_address_def
  proof (rule exchange_step [OF assms(1)])
    show "request_ok (RTM_NEWADDR, NLM_F_CREATE OR NLM_F_EXCL, if_addr_bytes big \<lparr>addr_family = ?f, prefix_len = p, addr_flags = flags,
        addr_scope = 0, addr_index = tap\<rparr>, [(IFA_LOCAL, a), (IFA_ADDRESS, a)])"
      using len by (simp add: request_ok_def attr_ok_def if_addr_bytes_def)
  qed (use run(1) flags in \<open>simp add: add_address_def Let_def\<close>)
  have "exchanged big f w ((reqs @ [?r1]) @ [?r2]) v' \<and> s' = socket_at f ((reqs @ [?r1]) @ [?r2])"
    unfolding new_default_route_def
  proof (rule exchange_step [OF conjunct1 [OF one]])
    show "request_ok (RTM_NEWROUTE, NLM_F_CREATE OR NLM_F_EXCL, route_message_bytes big \<lparr>route_family = ?f, destination_len = 0,
        source_len = 0, route_tos = 0, route_table = 254, route_protocol = 3, route_scope = 0, route_kind = 1, route_flags = 0\<rparr>,
      [(RTA_GATEWAY, g), (RTA_OIF, to_ne big 4 tap)])"
      using len by (simp add: request_ok_def attr_ok_def route_message_bytes_def)
  qed (use run(2) one in \<open>simp add: add_default_route_def Let_def\<close>)
  then show ?thesis
    by (simp add: later_def family_requests_def Some x)
qed

lemma interface_index_quiet: "issues not_sendto (interface_index name)"
  by (auto simp: interface_index_def not_sendto_def intro!: issued)

section \<open>Properties\<close>

text \<open>Between \<open>w\<close> and \<open>v\<close> the kernel has said that the interface of this name has the index.\<close>

definition index_of :: "system \<Rightarrow> system \<Rightarrow> bytes \<Rightarrow> u32 \<Rightarrow> bool" where
  "index_of w v name index \<longleftrightarrow> (\<exists>ds es n. v = after_calls w (ds @ Sock (IfNametoindex name) # es) \<and>
     sys_ret w (calls w @ ds) (Sock (IfNametoindex name)) = Inr n \<and> index = word_of_int n)"

lemma interface_index_of:
  assumes "follows w v" "interface_index name v = Some (Inr index, v1)" "follows v1 w'"
  shows "index_of w w' name index"
proof -
  obtain cs n es where "v = after_calls w cs" "sys_ret v (calls v) (Sock (IfNametoindex name)) = Inr n" "index = word_of_int n"
    "v1 = after_calls v [Sock (IfNametoindex name)]" "w' = after_calls v1 es"
    using assms by (auto simp: interface_index_def outcome follows_def split: if_splits)
  then show ?thesis
    unfolding index_of_def by (intro exI [of _ cs] exI [of _ es] exI [of _ n]) simp
qed

lemma quiet_netlink:
  "issues (\<lambda>_. True) (interface_index name)" "issues (\<lambda>_. True) (set_link_up big s i mac mtu)"
  "issues (\<lambda>_. True) (configure_family big i family spec s)" "issues (\<lambda>_. True) (configure_namespace big name addr bytes_max ipv4 ipv6)"
  unfolding configure_namespace_def configure_family_def set_link_up_def add_address_def add_default_route_def interface_index_def
    route_request_def route_open_def wait_ack_def Let_def
  by (auto intro!: issued split: option.split)


text \<open>A kernel that accepts every request: it answers with the number of the last packet it was sent.\<close>

definition accepting_kernel :: system where
  "accepting_kernel = quiet_system\<lparr>sys_ret := \<lambda>_ _. Inr 7,
     sys_out := \<lambda>before _. nl_message False (\<lparr>nl_length = 0, message_type = NLMSG_ERROR, nl_flags = 0,
       nl_sequence = word_of_nat (length (sent_packets before)), nl_pid = 0\<rparr>, [0, 0, 0, 0])\<rparr>"

text \<open>Any kernel that does so for the descriptor 7, after \<open>n\<close> requests.\<close>

definition acknowledging :: "system \<Rightarrow> bool" where
  "acknowledging v \<longleftrightarrow> sys_big v = False \<and> (\<forall>h c. case c of Sock c' \<Rightarrow> sys_ret v h c = Inr 7 | Msg (Sendto f p k a) \<Rightarrow> sys_ret v h c = Inr 7
     | Msg (Recv f n k) \<Rightarrow> f = 7 \<longrightarrow> sys_ret v h c = Inr 7 \<and> sys_out v h c = nl_message False (\<lparr>nl_length = 0, message_type = NLMSG_ERROR, nl_flags = 0,
         nl_sequence = word_of_nat (length (sent_packets h)), nl_pid = 0\<rparr>, [0, 0, 0, 0])
     | _ \<Rightarrow> True)"

definition kernel_at :: "nat \<Rightarrow> system \<Rightarrow> bool" where
  "kernel_at n v \<longleftrightarrow> acknowledging v \<and> length (sent_packets (calls v)) = n"

lemma acknowledgingD:
  assumes "acknowledging v"
  shows "sys_ret v h (Sock c) = Inr 7" "sys_ret v h (Msg (Sendto f p k a)) = Inr 7" "sys_ret v h (Msg (Recv 7 m k)) = Inr 7"
    "sys_out v h (Msg (Recv 7 m k)) = nl_message False (\<lparr>nl_length = 0, message_type = NLMSG_ERROR, nl_flags = 0,
       nl_sequence = word_of_nat (length (sent_packets h)), nl_pid = 0\<rparr>, [0, 0, 0, 0])"
proof -
  note a = assms [unfolded acknowledging_def, THEN conjunct2, rule_format, of h]
  show "sys_ret v h (Sock c) = Inr 7" "sys_ret v h (Msg (Sendto f p k a)) = Inr 7" "sys_ret v h (Msg (Recv 7 m k)) = Inr 7"
    "sys_out v h (Msg (Recv 7 m k)) = nl_message False (\<lparr>nl_length = 0, message_type = NLMSG_ERROR, nl_flags = 0,
       nl_sequence = word_of_nat (length (sent_packets h)), nl_pid = 0\<rparr>, [0, 0, 0, 0])"
    using a [of "Sock c"] a [of "Msg (Sendto f p k a)"] a [of "Msg (Recv 7 m k)"] by simp_all
qed

lemma acknowledging_more: "acknowledging v \<Longrightarrow> acknowledging (after_calls v cs)"
  unfolding acknowledging_def after_calls_simps .

definition route_socket_at :: "nat \<Rightarrow> route_socket" where
  "route_socket_at n = \<lparr>route_fd = 7, route_sequence = word_of_nat n\<rparr>"

lemma accepting_request:
  assumes at: "kernel_at n v" and ok: "request_ok (mtype, flags, body, attrs)"
  shows "\<exists>v'. route_request False (route_socket_at n) mtype flags body attrs v = Some (Inr (route_socket_at (Suc n)), v') \<and> kernel_at (Suc n) v'"
proof -
  have v: "acknowledging v" "length (sent_packets (calls v)) = n"
    using at by (auto simp: kernel_at_def)
  obtain packet where packet: "request_packet False (word_of_nat (Suc n)) mtype flags body attrs = Inr packet"
    using request_packet_bytes [of attrs body False "word_of_nat (Suc n)" mtype flags] ok by (auto simp: request_ok_def)
  let ?send = "Msg (Sendto 7 packet 0 (netlink_address False))"
  let ?h = "\<lparr>nl_length = 0, message_type = NLMSG_ERROR, nl_flags = 0, nl_sequence = word_of_nat (Suc n), nl_pid = 0\<rparr>"
  have scan: "scan_acks False (word_of_nat (Suc n)) (nl_message False (?h, [0, 0, 0, 0])) 0 = Some (Inr ())"
    using scan_messages [of "[(?h, [0, 0, 0, 0])]" False "word_of_nat (Suc n)" "[]"]
    by (simp add: message_ok_def from_ne_def from_le_def)
  have small: "length (nl_message False (?h, [0, 0, 0, 0])) \<le> 8192"
    using length_nl_message(1) [of "(?h, [0, 0, 0, 0])" False] by (simp add: message_ok_def align_4)
  let ?s = "route_socket_at (Suc n)"
  have "wait_ack False ?s (after_calls v [?send]) = Some (Inr (), after_calls v [?send, recv_call 7])"
    unfolding wait_ack_def by (subst looping.simps)
      (use v(2) scan small in \<open>simp add: bnd_def running acknowledgingD [OF v(1)] route_socket_at_def recv_call_def\<close>)
  then have "route_request False (route_socket_at n) mtype flags body attrs v = Some (Inr ?s, after_calls v [?send, recv_call 7])"
    using packet by (simp add: route_request_def Let_def bnd_def and_then_def running acknowledgingD [OF v(1)] route_socket_at_def add.commute)
  moreover have "kernel_at (Suc n) (after_calls v [?send, recv_call 7])"
    using v acknowledging_more by (simp add: kernel_at_def recv_call_def)
  ultimately show ?thesis
    by blast
qed

lemma accepting_index:
  assumes "kernel_at n v" "0 \<notin> set name"
  shows "\<exists>v'. interface_index name v = Some (Inr 7, v') \<and> kernel_at n v'"
  using assms acknowledging_more
  by (auto simp: interface_index_def bnd_def running kernel_at_def acknowledgingD sent_packets_def)

lemma accepting_open: "kernel_at 0 v \<Longrightarrow> \<exists>v'. route_open False v = Some (Inr (route_socket_at 0), v') \<and> kernel_at 0 v'"
  using acknowledging_more
  by (auto simp: route_open_def bnd_def and_then_def running kernel_at_def acknowledgingD sent_packets_def route_socket_at_def)

text \<open>The two links come up.\<close>

lemma accepting_links:
  assumes "kernel_at 0 v" "0 \<notin> set name" "length mac = 6"
  shows "\<exists>v0 v1 v2 v3 v4. route_open False v = Some (Inr (route_socket_at 0), v0) \<and> interface_index [108, 111] v0 = Some (Inr 7, v1) \<and>
    set_link_up False (route_socket_at 0) 7 None None v1 = Some (Inr (route_socket_at (Suc 0)), v2) \<and>
    interface_index name v2 = Some (Inr 7, v3) \<and>
    set_link_up False (route_socket_at (Suc 0)) 7 (Some mac) (Some mtu) v3 = Some (Inr (route_socket_at (Suc (Suc 0))), v4) \<and> kernel_at (Suc (Suc 0)) v4"
proof -
  note sizes = request_ok_def attr_ok_def if_info_bytes_def
  obtain v0 where v0: "route_open False v = Some (Inr (route_socket_at 0), v0)" "kernel_at 0 v0"
    using accepting_open [OF assms(1)] by blast
  obtain v1 where v1: "interface_index [108, 111] v0 = Some (Inr 7, v1)" "kernel_at 0 v1"
    using accepting_index [OF v0(2), of "[108, 111]"] by auto
  have "\<exists>v2. set_link_up False (route_socket_at 0) 7 None None v1 = Some (Inr (route_socket_at (Suc 0)), v2) \<and> kernel_at (Suc 0) v2"
    unfolding set_link_up_def Let_def by (rule accepting_request [OF v1(2)]) (simp add: sizes)
  then obtain v2 where v2: "set_link_up False (route_socket_at 0) 7 None None v1 = Some (Inr (route_socket_at (Suc 0)), v2)" "kernel_at (Suc 0) v2"
    by blast
  obtain v3 where v3: "interface_index name v2 = Some (Inr 7, v3)" "kernel_at (Suc 0) v3"
    using accepting_index [OF v2(2) assms(2)] by auto
  have "\<exists>v4. set_link_up False (route_socket_at (Suc 0)) 7 (Some mac) (Some mtu) v3
      = Some (Inr (route_socket_at (Suc (Suc 0))), v4) \<and> kernel_at (Suc (Suc 0)) v4"
    unfolding set_link_up_def Let_def by (rule accepting_request [OF v3(2)]) (simp add: sizes assms(3))
  then show ?thesis
    using v0 v1 v2 v3 by blast
qed

lemma accepting_links_only:
  assumes "kernel_at 0 v" "0 \<notin> set name" "length mac = 6"
  shows "\<exists>v'. configure_namespace False name mac mtu None None v = Some (Inr (), v')"
  using accepting_links [OF assms, of mtu] by (auto simp: configure_namespace_def configure_family_def bnd_def running)

lemma accepting_run:
  "\<exists>w'. configure_namespace False [101] [2, 0, 0, 0, 0, 1] 1500 (Some ([192, 0, 2, 2], 24, [192, 0, 2, 1])) None accepting_kernel
     = Some (Inr (), w')"
proof -
  note requests = add_address_def add_default_route_def Let_def
  note sizes = request_ok_def attr_ok_def if_addr_bytes_def route_message_bytes_def
  have "kernel_at 0 accepting_kernel"
    by (auto simp: kernel_at_def acknowledging_def accepting_kernel_def quiet_system_def sent_packets_def split: syscall.split message_call.split)
  from accepting_links [OF this, of "[101]" "[2, 0, 0, 0, 0, 1]" 1500] obtain v0 v1 v2 v3 v4 where
    links: "route_open False accepting_kernel = Some (Inr (route_socket_at 0), v0)" "interface_index [108, 111] v0 = Some (Inr 7, v1)"
      "set_link_up False (route_socket_at 0) 7 None None v1 = Some (Inr (route_socket_at (Suc 0)), v2)"
      "interface_index [101] v2 = Some (Inr 7, v3)"
      "set_link_up False (route_socket_at (Suc 0)) 7 (Some [2, 0, 0, 0, 0, 1]) (Some 1500) v3 = Some (Inr (route_socket_at (Suc (Suc 0))), v4)"
    and v4: "kernel_at (Suc (Suc 0)) v4"
    by auto
  have "\<exists>v5. add_address False (route_socket_at (Suc (Suc 0))) 7 (word_of_int AF_INET) 24 [192, 0, 2, 2] v4
      = Some (Inr (route_socket_at (Suc (Suc (Suc 0)))), v5) \<and> kernel_at (Suc (Suc (Suc 0))) v5"
    unfolding requests by (rule accepting_request [OF v4]) (simp add: sizes)
  then obtain v5 where v5: "add_address False (route_socket_at (Suc (Suc 0))) 7 (word_of_int AF_INET) 24 [192, 0, 2, 2] v4
      = Some (Inr (route_socket_at (Suc (Suc (Suc 0)))), v5)" "kernel_at (Suc (Suc (Suc 0))) v5"
    by blast
  have "\<exists>v6. add_default_route False (route_socket_at (Suc (Suc (Suc 0)))) 7 (word_of_int AF_INET) [192, 0, 2, 1] v5
      = Some (Inr (route_socket_at (Suc (Suc (Suc (Suc 0))))), v6) \<and> kernel_at (Suc (Suc (Suc (Suc 0)))) v6"
    unfolding requests by (rule accepting_request [OF v5(2)]) (simp add: sizes)
  then obtain v6 where v6: "add_default_route False (route_socket_at (Suc (Suc (Suc 0)))) 7 (word_of_int AF_INET) [192, 0, 2, 1] v5
      = Some (Inr (route_socket_at (Suc (Suc (Suc (Suc 0))))), v6)"
    by blast
  show ?thesis
    by (simp add: configure_namespace_def configure_family_def bnd_def links v5(1) v6 running)
qed


end
