(* ===== verification/Sys_Process.thy ===== *)
theory Sys_Process
  imports Sys_Call Netlink
begin

text \<open>
  The system-call wrappers for processes, signals, limits, capabilities, mounts, descriptor passing and the TAP device
  (\<open>process.rs\<close>, \<open>signal.rs\<close>, \<open>clone.rs\<close>, \<open>resource.rs\<close>, \<open>caps.rs\<close>, \<open>mount.rs\<close>, \<open>fdpass.rs\<close>, \<open>tun.rs\<close> and \<open>lib.rs\<close> of \<open>crates/sys\<close>).
  Constants of the kernel's interface have their Linux values.
\<close>

section \<open>Processes\<close>

definition SIGHUP :: int where "SIGHUP = 1"
definition SIGINT :: int where "SIGINT = 2"
definition SIGQUIT :: int where "SIGQUIT = 3"
definition SIGKILL :: int where "SIGKILL = 9"
definition SIGTERM :: int where "SIGTERM = 15"
definition SIGCHLD :: int where "SIGCHLD = 17"
definition WNOHANG :: int where "WNOHANG = 1"
definition PR_SET_PDEATHSIG :: int where "PR_SET_PDEATHSIG = 1"
definition PR_CAPBSET_DROP :: int where "PR_CAPBSET_DROP = 24"
definition PR_SET_CHILD_SUBREAPER :: int where "PR_SET_CHILD_SUBREAPER = 36"
definition PR_SET_NO_NEW_PRIVS :: int where "PR_SET_NO_NEW_PRIVS = 38"
definition SIG_BLOCK :: int where "SIG_BLOCK = 0"
definition SIG_SETMASK :: int where "SIG_SETMASK = 2"

datatype wait_status = Exited int | Signaled int | StillRunning | NoChildren

text \<open>
  The child of \<open>fork_exec\<close>: it ends with the returned code unless \<open>execvp\<close> replaces the program, in which case the call
  does not return. The results of \<open>pthread_sigmask\<close> and \<open>setpgid\<close> are not looked at.
\<close>

definition exec_child :: "pid \<Rightarrow> bytes list \<Rightarrow> (io_error, int) prog" where
  "exec_child parent command =
     bnd (attempt (perform (Limit (Prctl PR_SET_PDEATHSIG SIGKILL)))) (\<lambda>r. case r of Inl e \<Rightarrow> ok 126 | Inr _ \<Rightarrow>
     bnd (invoke (Proc Getppid)) (\<lambda>ppid. if ppid \<noteq> parent then ok 126 else
     and_then (ignoring (perform (Limit (Sigmask SIG_SETMASK []))))
    (and_then (ignoring (perform (Proc (Setpgid 0 0))))
    (bnd (attempt (perform (Proc (Execvp command)))) (\<lambda>r. case r of
         Inl e \<Rightarrow> ok (if error_kind e = IoNotFound then 127 else 126)
       | Inr _ \<Rightarrow> never)))))"

definition exit_immediately :: "int \<Rightarrow> ('e, 'a) prog" where
  "exit_immediately code = bnd (attempt (perform (Proc (ExitProcess code)))) (\<lambda>_. never)"

definition fork_exec :: "bytes list \<Rightarrow> (io_error, pid) prog" where
  "fork_exec command =
     (if command = [] then err (Custom IoInvalidInput ''empty command'')
      else bnd (invoke (Proc Getpid)) (\<lambda>parent.
           bnd (invoke (Proc Fork)) (\<lambda>pid.
             if pid = 0 then bnd (exec_child parent command) exit_immediately else ok pid)))"

fun wait_status_of :: "child_status \<Rightarrow> wait_status" where
  "wait_status_of (ExitedWith c) = Exited c"
| "wait_status_of (KilledBy s) = Signaled s"
| "wait_status_of OtherChange = StillRunning"

definition wait_pid :: "pid \<Rightarrow> bool \<Rightarrow> (io_error, wait_status) prog" where
  "wait_pid pid nohang =
     bnd (attempt (invoke_status (Proc (Waitpid pid (if nohang then WNOHANG else 0))))) (\<lambda>r. case r of
         Inl e \<Rightarrow> if raw_os_error e = Some ECHILD then ok NoChildren else err e
       | Inr (result, status) \<Rightarrow> if result = 0 then ok StillRunning else ok (wait_status_of status))"

definition wait_any_nohang :: "(io_error, (pid \<times> wait_status) option) prog" where
  "wait_any_nohang =
     bnd (attempt (invoke_status (Proc (Waitpid (-1) WNOHANG)))) (\<lambda>r. case r of
         Inl e \<Rightarrow> if raw_os_error e = Some ECHILD then ok None else err e
       | Inr (result, status) \<Rightarrow> if result = 0 then ok (Some (-1, StillRunning)) else ok (Some (result, wait_status_of status)))"

definition signal_process_group :: "pid \<Rightarrow> int \<Rightarrow> (io_error, unit) prog" where
  "signal_process_group pid signal =
     bnd (attempt (perform (Proc (Kill (- pid) signal)))) (\<lambda>r. case r of
         Inl e \<Rightarrow> if raw_os_error e \<noteq> Some ESRCH then err e else ok ()
       | Inr _ \<Rightarrow> ok ())"

datatype clone_result = CloneParent pid fd | CloneChild

definition CLONE_PIDFD :: u64 where "CLONE_PIDFD = 0x1000"

text \<open>\<open>clone3\<close> stores the descriptor of the new process, four bytes, in the parent.\<close>

definition clone_namespaced :: "u64 \<Rightarrow> (io_error, clone_result) prog" where
  "clone_namespaced flags =
     bnd byte_order (\<lambda>big.
     bnd (invoke_out (Proc (Clone3 (flags OR CLONE_PIDFD)))) (\<lambda>(result, stored).
       if result = 0 then ok CloneChild
       else let pidfd = sint (from_ne big (take 4 stored) :: u32)
            in if pidfd < 0 then err (Custom IoOther ''clone3 did not return a pidfd'') else ok (CloneParent result pidfd)))"

definition pidfd_send_signal :: "fd \<Rightarrow> int \<Rightarrow> (io_error, unit) prog" where
  "pidfd_send_signal pidfd signal = perform (Proc (PidfdSendSignal pidfd signal))"

section \<open>Signals\<close>

definition SFD_NONBLOCK_CLOEXEC :: int where "SFD_NONBLOCK_CLOEXEC = 0x80800"

definition signalfd_block :: "int list \<Rightarrow> (io_error, fd) prog" where
  "signalfd_block signals =
     and_then (perform (Limit (Sigmask SIG_BLOCK signals))) (invoke (Limit (Signalfd signals SFD_NONBLOCK_CLOEXEC)))"

text \<open>\<open>ssi_signo\<close> is the first field of \<open>signalfd_siginfo\<close>, a structure of 128 bytes.\<close>

definition signalfd_read :: "fd \<Rightarrow> (io_error, int option) prog" where
  "signalfd_read f =
     bnd byte_order (\<lambda>big.
     bnd (attempt (invoke_out (Io (Read f 128)))) (\<lambda>r. case r of
         Inl e \<Rightarrow> if error_kind e = IoWouldBlock then ok None else err e
       | Inr (n, info) \<Rightarrow> ok (Some (sint (from_ne big (take 4 info) :: u32)))))"

section \<open>Limits and capabilities\<close>

definition DATAPLANE_FD_HEADROOM :: nat where "DATAPLANE_FD_HEADROOM = 32"
definition RLIMIT_CORE :: int where "RLIMIT_CORE = 4"
definition RLIMIT_NOFILE :: int where "RLIMIT_NOFILE = 7"

definition checked_mul_u64 :: "nat \<Rightarrow> nat \<Rightarrow> nat option" where
  "checked_mul_u64 a b = (if a * b < 2 ^ 64 then Some (a * b) else None)"

text \<open>A \<open>usize\<close> always fits a \<open>u64\<close> here, so the three conversions of the source succeed.\<close>

definition dataplane_nofile_limit :: "usize \<Rightarrow> usize \<Rightarrow> usize \<Rightarrow> io_error + nat" where
  "dataplane_nofile_limit tcp udp associations =
     (case Option.bind (Option.bind (checked_add_usize tcp udp)
         (\<lambda>v. Option.bind (checked_mul_u64 associations 2) (checked_add_usize v)))
         (\<lambda>v. checked_add_usize v DATAPLANE_FD_HEADROOM) of
        None \<Rightarrow> Inl (Custom IoInvalidInput ''fd budget overflow'')
      | Some v \<Rightarrow> Inr v)"

definition nofile_limit :: "(io_error, nat \<times> nat) prog" where
  "nofile_limit =
     bnd byte_order (\<lambda>big.
     bnd (invoke_out (Limit (Getrlimit RLIMIT_NOFILE))) (\<lambda>(n, v).
       ok (unat (from_ne big (subslice 0 8 v) :: u64), unat (from_ne big (subslice 8 16 v) :: u64))))"

definition ensure_nofile_capacity :: "nat \<Rightarrow> (io_error, unit) prog" where
  "ensure_nofile_capacity required =
     bnd nofile_limit (\<lambda>(cur, hard).
       if hard < required then err (Custom IoOther ''RLIMIT_NOFILE hard limit is below required data-plane budget'') else ok ())"

definition set_nofile_limit :: "nat \<Rightarrow> (io_error, unit) prog" where
  "set_nofile_limit limit = perform (Limit (Setrlimit RLIMIT_NOFILE (word_of_nat limit) (word_of_nat limit)))"

definition disable_core_dumps :: "(io_error, unit) prog" where
  "disable_core_dumps = perform (Limit (Setrlimit RLIMIT_CORE 0 0))"

definition set_child_subreaper :: "(io_error, unit) prog" where
  "set_child_subreaper = perform (Limit (Prctl PR_SET_CHILD_SUBREAPER 1))"

definition set_no_new_privs :: "(io_error, unit) prog" where
  "set_no_new_privs = perform (Limit (Prctl PR_SET_NO_NEW_PRIVS 1))"

definition set_parent_death_signal :: "int \<Rightarrow> (io_error, unit) prog" where
  "set_parent_death_signal signal = perform (Limit (Prctl PR_SET_PDEATHSIG signal))"

definition LINUX_CAPABILITY_VERSION_3 :: u32 where "LINUX_CAPABILITY_VERSION_3 = 0x20080522"

definition drop_bounding :: "int \<Rightarrow> (io_error, unit) prog" where
  "drop_bounding capability =
     bnd (attempt (perform (Limit (Prctl PR_CAPBSET_DROP capability)))) (\<lambda>r. case r of
         Inl e \<Rightarrow> if raw_os_error e = Some EINVAL \<or> raw_os_error e = Some EPERM then ok () else err e
       | Inr _ \<Rightarrow> ok ())"

definition drop_all_capabilities :: "(io_error, unit) prog" where
  "drop_all_capabilities =
     and_then (perform (Limit (Capset LINUX_CAPABILITY_VERSION_3 [(0, 0, 0), (0, 0, 0)])))
       (for_each drop_bounding [0..63])"

section \<open>Mounts\<close>

definition MS_REC_PRIVATE :: int where "MS_REC_PRIVATE = 0x44000"
definition MS_RESTRICTED :: int where "MS_RESTRICTED = 14"
definition MS_BIND :: int where "MS_BIND = 4096"
definition MNT_DETACH :: int where "MNT_DETACH = 2"

definition isolate_filesystem :: "(io_error, unit) prog" where
  "isolate_filesystem =
     for_each perform
       [Mnt (Mount None (lit ''/'') None MS_REC_PRIVATE None),
        Mnt (Mount (Some (lit ''tmpfs'')) (lit ''/tmp'') (Some (lit ''tmpfs'')) MS_RESTRICTED (Some (lit ''size=64k,mode=0700''))),
        Mnt (Mkdir (lit ''/tmp/.old_root'') 448),
        Mnt (Chdir (lit ''/tmp'')),
        Mnt (PivotRoot (lit ''.'') (lit ''.old_root'')),
        Mnt (Chdir (lit ''/'')),
        Mnt (Umount2 (lit ''/.old_root'') MNT_DETACH),
        Mnt (Rmdir (lit ''/.old_root''))]"

definition bind_resolv_conf :: "bytes \<Rightarrow> (io_error, unit) prog" where
  "bind_resolv_conf source =
     (if 0 \<in> set source then err (Custom IoInvalidInput ''source contains NUL'')
      else convert (\<lambda>e. Custom (error_kind e) ''bind mount over /etc/resolv.conf failed'')
             (perform (Mnt (Mount (Some source) (lit ''/etc/resolv.conf'') None MS_BIND None))))"

definition mount_private_proc :: "(io_error, unit) prog" where
  "mount_private_proc =
     and_then (perform (Mnt (Mount None (lit ''/'') None MS_REC_PRIVATE None)))
    (and_then (bnd (attempt (perform (Mnt (Umount2 (lit ''/proc'') MNT_DETACH)))) (\<lambda>r. case r of
         Inl e \<Rightarrow> if raw_os_error e \<noteq> Some EINVAL then err e else ok ()
       | Inr _ \<Rightarrow> ok ()))
      (perform (Mnt (Mount (Some (lit ''proc'')) (lit ''/proc'') (Some (lit ''proc'')) MS_RESTRICTED None))))"

section \<open>Descriptors\<close>

definition AF_UNIX :: int where "AF_UNIX = 1"
definition SOCK_SEQPACKET_CLOEXEC :: int where "SOCK_SEQPACKET_CLOEXEC = 0x80005"
definition MSG_NOSIGNAL :: int where "MSG_NOSIGNAL = 0x4000"
definition MSG_CMSG_CLOEXEC :: int where "MSG_CMSG_CLOEXEC = 0x40000000"
definition SOL_SOCKET :: int where "SOL_SOCKET = 1"
definition SCM_RIGHTS :: int where "SCM_RIGHTS = 1"
definition F_GETFL :: int where "F_GETFL = 3"
definition F_SETFL :: int where "F_SETFL = 4"
definition O_NONBLOCK :: int where "O_NONBLOCK = 0x800"

definition set_nonblocking :: "fd \<Rightarrow> bool \<Rightarrow> (io_error, unit) prog" where
  "set_nonblocking f enabled =
     bnd (invoke (Io (Fcntl f F_GETFL 0))) (\<lambda>current.
       perform (Io (Fcntl f F_SETFL (if enabled then current OR O_NONBLOCK else current AND NOT O_NONBLOCK))))"

definition seqpacket_pair :: "(io_error, fd \<times> fd) prog" where
  "seqpacket_pair =
     bnd byte_order (\<lambda>big.
     bnd (invoke_out (Sock (Socketpair AF_UNIX SOCK_SEQPACKET_CLOEXEC))) (\<lambda>(n, fds).
       ok (sint (from_ne big (subslice 0 4 fds) :: u32), sint (from_ne big (subslice 4 8 fds) :: u32))))"

definition send_packet :: "fd \<Rightarrow> bytes \<Rightarrow> (io_error, unit) prog" where
  "send_packet f packet =
     bnd (invoke (Msg (Send f packet MSG_NOSIGNAL))) (\<lambda>written.
       if written \<noteq> int (length packet) then err (Custom IoWriteZero ''short SOCK_SEQPACKET send'') else ok ())"

text \<open>The bytes that \<open>recv_packet\<close> has put into the buffer of \<open>len\<close> bytes.\<close>

definition recv_packet :: "fd \<Rightarrow> usize \<Rightarrow> (io_error, bytes) prog" where
  "recv_packet f len =
     bnd (receive_bytes (Msg (Recv f len 0)) len) (\<lambda>bs.
       if bs = [] then err (Custom IoUnexpectedEof ''control channel closed'') else ok bs)"

definition send_fd :: "fd \<Rightarrow> fd \<Rightarrow> bytes \<Rightarrow> (io_error, unit) prog" where
  "send_fd socket f payload =
     bnd byte_order (\<lambda>big.
       perform (Msg (SendMsg socket payload [(SOL_SOCKET, SCM_RIGHTS, to_ne big 4 (word_of_int f :: u32))] MSG_NOSIGNAL)))"

text \<open>The control buffer of \<open>CMSG_SPACE(4)\<close> bytes holds one message.\<close>

definition recv_fd :: "fd \<Rightarrow> usize \<Rightarrow> (io_error, bytes \<times> fd) prog" where
  "recv_fd socket len =
     bnd byte_order (\<lambda>big.
     bnd (invoke_cmsgs (Msg (RecvMsg socket len 24 MSG_CMSG_CLOEXEC))) (\<lambda>(n, out, cmsgs).
       let payload = take len out
       in if payload = [] then err (Custom IoUnexpectedEof ''fd channel closed'')
          else case concat cmsgs of
            [] \<Rightarrow> err (Custom IoInvalidData ''missing SCM_RIGHTS'')
          | (level, kind, data) # rest \<Rightarrow>
              if level \<noteq> SOL_SOCKET \<or> kind \<noteq> SCM_RIGHTS \<or> length data < 4 then err (Custom IoInvalidData ''missing SCM_RIGHTS'')
              else let raw = sint (from_ne big (take 4 data) :: u32)
                   in if raw < 0 then err (Custom IoInvalidData ''invalid received fd'') else ok (payload, raw)))"

section \<open>The TAP device\<close>

definition TUNSETIFF :: int where "TUNSETIFF = 0x400454ca"
definition TUNSETOFFLOAD :: int where "TUNSETOFFLOAD = 0x400454d0"
definition TUN_F_CSUM :: u64 where "TUN_F_CSUM = 0x01"
definition TUN_F_TSO4 :: u64 where "TUN_F_TSO4 = 0x02"
definition TUN_F_TSO6 :: u64 where "TUN_F_TSO6 = 0x04"
definition DEFAULT_TAP_MTU :: u32 where "DEFAULT_TAP_MTU = 32000"
definition IFNAMSIZ :: usize where "IFNAMSIZ = 16"
definition IFF_TAP :: int where "IFF_TAP = 0x0002"
definition IFF_NO_PI :: int where "IFF_NO_PI = 0x1000"
definition IFF_VNET_HDR :: int where "IFF_VNET_HDR = 0x4000"
definition IFF_MULTI_QUEUE :: int where "IFF_MULTI_QUEUE = 0x0100"
definition TUN_OPEN_FLAGS :: int where "TUN_OPEN_FLAGS = 0x80802"

definition tap_flags :: "bool \<Rightarrow> bool \<Rightarrow> int" where
  "tap_flags offload multi_queue =
     (let flags = IFF_TAP OR IFF_NO_PI;
          flags = (if offload then flags OR IFF_VNET_HDR else flags)
      in if multi_queue then flags OR IFF_MULTI_QUEUE else flags)"

text \<open>The \<open>ifreq\<close> of the request: the name padded with zeros, the flags, and 22 bytes of padding.\<close>

definition if_req_bytes :: "bool \<Rightarrow> bytes \<Rightarrow> int \<Rightarrow> bytes" where
  "if_req_bytes big name flags = resize name IFNAMSIZ @ to_ne big 2 (word_of_int flags :: u16) @ replicate 22 0"

definition create_tap :: "bytes \<Rightarrow> bool \<Rightarrow> bool \<Rightarrow> (io_error, fd) prog" where
  "create_tap name offload multi_queue =
     (if 0 \<in> set name then err (Custom IoInvalidInput ''interface name contains NUL'')
      else if length name \<ge> IFNAMSIZ then err (Custom IoInvalidInput ''interface name is too long'')
      else bnd byte_order (\<lambda>big.
           bnd (invoke (Io (Open (lit ''/dev/net/tun'') TUN_OPEN_FLAGS))) (\<lambda>raw.
           and_then (perform (Io (Ioctl raw TUNSETIFF (if_req_bytes big name (tap_flags offload multi_queue)))))
          (and_then (if offload then perform (Io (Ioctl raw TUNSETOFFLOAD (to_ne big 8 (TUN_F_CSUM OR TUN_F_TSO4 OR TUN_F_TSO6)))) else ok ())
             (ok raw)))))"

end
