(* ===== verification/Instance.thy ===== *)
theory Instance
  imports Sys_Process Launch_Config
begin

text \<open>
  The instance directory (\<open>crates/namespace/src/instance.rs\<close>): a private directory with the control socket and a metadata file
  that is replaced atomically. The JSON library is external: how metadata is rendered and read back are parameters.
  Paths and strings are bytes. The writes of one rendering count as one call.
\<close>

section \<open>Data\<close>

record instance_metadata =
  instance_id :: bytes
  nonce :: bytes
  im_version :: bytes
  started_unix_ms :: nat
  supervisor_pid :: int
  dataplane_pid :: "int option"
  dataplane_worker_pids :: "int list"
  namespace_init_pid :: "int option"
  im_target_pid :: "int option"
  network_namespace_inode :: "u64 option"
  im_state :: bytes

record inst =
  inst_directory :: bytes
  control_path :: bytes
  listener :: fd
  metadata_path :: bytes
  metadata :: instance_metadata

text \<open>\<open>serde_json::to_vec_pretty\<close> and \<open>from_slice\<close> for the metadata.\<close>

record metadata_json =
  render_metadata :: "instance_metadata \<Rightarrow> bytes option"
  read_metadata :: "bytes \<Rightarrow> instance_metadata option"

section \<open>Operations\<close>

text \<open>\<open>Path::join\<close>.\<close>

definition path_join :: "bytes \<Rightarrow> bytes \<Rightarrow> bytes" where
  "path_join a b = (if take 1 b = lit ''/'' then b else if a = [] \<or> last a = 47 then a @ b else a @ lit ''/'' @ b)"

definition validate_owned_private_directory :: "bytes \<Rightarrow> (io_error, unit) prog" where
  "validate_owned_private_directory path =
     bnd (invoke_stat (File (FsStat path False))) (\<lambda>st.
       if \<not> st_directory st \<or> st_symlink st then err (Custom IoPermissionDenied ''runtime path is not a real directory'')
       else bnd (infallible (Proc Getuid)) (\<lambda>uid.
         if st_uid st \<noteq> uid \<or> st_mode st AND 63 \<noteq> 0
         then err (Custom IoPermissionDenied ''runtime directory must be owned by the caller and mode 0700'')
         else ok ()))"

definition secure_runtime_root :: "bytes option \<Rightarrow> (io_error, bytes) prog" where
  "secure_runtime_root override_root =
     bnd (case override_root of
            Some root \<Rightarrow> ok root
          | None \<Rightarrow>
              bnd (attempt (invoke_out (Limit (GetEnv (lit ''XDG_RUNTIME_DIR''))))) (\<lambda>r. case r of
                  Inl e \<Rightarrow> err (Custom IoNotFound ''XDG_RUNTIME_DIR is not set'')
                | Inr (n, xdg) \<Rightarrow> and_then (validate_owned_private_directory xdg) (ok (path_join xdg (lit ''yayatht'')))))
       (\<lambda>root.
     bnd (attempt (invoke_stat (File (FsStat root True)))) (\<lambda>exists.
     and_then (case exists of
            Inr _ \<Rightarrow> ok ()
          | Inl _ \<Rightarrow> and_then (perform (File (FsCreateDir root))) (perform (File (FsSetPermissions root 448))))
    (and_then (validate_owned_private_directory root)
       (ok root))))"

definition random_identifier :: "(io_error, bytes) prog" where
  "random_identifier =
     bnd (attempt (receive_bytes (Limit (Getrandom 16)) 16)) (\<lambda>r. case r of
         Inl e \<Rightarrow> err (Custom IoOther ''getrandom failed'')
       | Inr bs \<Rightarrow> ok (concat (map (\<lambda>b. [hex_digit (unat b div 16), hex_digit (unat b mod 16)]) bs)))"

definition FS_CREATE_TRUNCATE_WRITE :: int where "FS_CREATE_TRUNCATE_WRITE = 0x241"

definition persist :: "metadata_json \<Rightarrow> inst \<Rightarrow> (io_error, unit) prog" where
  "persist json i =
     (let temporary = path_join (inst_directory i) (lit ''instance.json.tmp'')
      in bnd (invoke (File (FsOpen temporary FS_CREATE_TRUNCATE_WRITE 384))) (\<lambda>file.
         case render_metadata json (metadata i) of
           None \<Rightarrow> err (Custom IoOther ''metadata'')
         | Some text \<Rightarrow>
             and_then (perform (Io (Write file text)))
            (and_then (perform (Io (Write file (lit [CHR 0x0A]))))
            (and_then (perform (File (FsSync file)))
              (perform (File (FsRename temporary (metadata_path i))))))))"

definition instance_create :: "metadata_json \<Rightarrow> bytes \<Rightarrow> bytes option \<Rightarrow> bytes option \<Rightarrow> (io_error, inst) prog" where
  "instance_create json version name override_root =
     bnd (secure_runtime_root override_root) (\<lambda>root.
     bnd (case name of None \<Rightarrow> random_identifier | Some n \<Rightarrow> ok n) (\<lambda>ident.
     let directory = path_join root ident
     in and_then (perform (File (FsCreateDir directory)))
       (and_then (perform (File (FsSetPermissions directory 448)))
       (let control = path_join directory (lit ''control.sock'')
        in bnd (invoke (Msg (UnixBind control))) (\<lambda>sock.
           and_then (perform (File (FsSetPermissions control 384)))
          (and_then (perform (Msg (SetNonblocking sock True)))
          (bnd random_identifier (\<lambda>token.
           bnd now (\<lambda>t.
           bnd (infallible (Proc Getpid)) (\<lambda>self.
           let i = \<lparr>inst_directory = directory, control_path = control, listener = sock,
                 metadata_path = path_join directory (lit ''instance.json''),
                 metadata = \<lparr>instance_id = ident, nonce = token, im_version = version, started_unix_ms = t div 1000000,
                   supervisor_pid = self, dataplane_pid = None, dataplane_worker_pids = [], namespace_init_pid = None,
                   im_target_pid = None, network_namespace_inode = None, im_state = lit ''starting''\<rparr>\<rparr>
           in and_then (persist json i) (ok i)))))))))))"

text \<open>The operations that change the metadata change it in memory and then on disk.\<close>

definition with_metadata :: "metadata_json \<Rightarrow> inst \<Rightarrow> instance_metadata \<Rightarrow> (io_error, inst) prog" where
  "with_metadata json i m = (let i' = i\<lparr>metadata := m\<rparr> in and_then (persist json i') (ok i'))"

definition update_children :: "metadata_json \<Rightarrow> inst \<Rightarrow> pid list \<Rightarrow> pid \<Rightarrow> (io_error, inst) prog" where
  "update_children json i dataplanes namespace_init =
     bnd (invoke_stat (File (FsStat (lit ''/proc/'' @ show_dec (nat namespace_init) @ lit ''/ns/net'') True))) (\<lambda>st.
       with_metadata json i ((metadata i)\<lparr>dataplane_pid := (case dataplanes of [] \<Rightarrow> None | p # _ \<Rightarrow> Some p),
         dataplane_worker_pids := dataplanes, namespace_init_pid := Some namespace_init,
         network_namespace_inode := Some (st_ino st)\<rparr>))"

definition set_target_pid :: "metadata_json \<Rightarrow> inst \<Rightarrow> pid \<Rightarrow> (io_error, inst) prog" where
  "set_target_pid json i p =
     with_metadata json i ((metadata i)\<lparr>im_target_pid := Some p, im_state := lit ''running''\<rparr>)"

definition set_state :: "metadata_json \<Rightarrow> inst \<Rightarrow> bytes \<Rightarrow> (io_error, inst) prog" where
  "set_state json i st = with_metadata json i ((metadata i)\<lparr>im_state := st\<rparr>)"

definition write_resolv_conf :: "inst \<Rightarrow> bytes \<Rightarrow> (io_error, bytes) prog" where
  "write_resolv_conf i contents =
     (let path = path_join (inst_directory i) (lit ''resolv.conf'')
      in bnd (invoke (File (FsOpen path FS_CREATE_TRUNCATE_WRITE 420))) (\<lambda>file.
         and_then (perform (Io (Write file contents))) (ok path)))"

text \<open>The destructor removes the files only while the metadata on disk is this instance's own.\<close>

definition instance_drop :: "metadata_json \<Rightarrow> inst \<Rightarrow> (io_error, unit) prog" where
  "instance_drop json i =
     bnd (attempt (invoke_out (File (FsReadAll (metadata_path i))))) (\<lambda>r.
       let own = (case r of Inl e \<Rightarrow> False
             | Inr (n, bs) \<Rightarrow> (case read_metadata json bs of None \<Rightarrow> False | Some m \<Rightarrow> nonce m = nonce (metadata i)))
       in if \<not> own then ok ()
          else and_then (ignoring (perform (File (FsRemove (control_path i)))))
              (and_then (ignoring (perform (File (FsRemove (metadata_path i)))))
              (and_then (ignoring (perform (File (FsRemove (path_join (inst_directory i) (lit ''resolv.conf''))))))
                (ignoring (perform (File (FsRemoveDir (inst_directory i))))))))"

end
