(* ===== verification/Control_Channel.thy ===== *)
theory Control_Channel
  imports Sys_Process Control_Message
begin

text \<open>
  The control channel between the processes of an instance (\<open>crates/namespace/src/control.rs\<close>): one message of \<open>Control_Message\<close>
  per packet.
\<close>

section \<open>Operations\<close>

text \<open>The errors of the codec as the \<open>io::Error\<close> values that they are.\<close>

fun control_io_error :: "control_error \<Rightarrow> io_error" where
  "control_io_error PayloadTooLarge = Custom IoInvalidInput ''control payload too large''"
| "control_io_error InvalidHeader = Custom IoInvalidData ''invalid control header''"
| "control_io_error UnsupportedVersion = Custom IoInvalidData ''unsupported control version''"
| "control_io_error UnknownKind = Custom IoInvalidData ''unknown control kind''"
| "control_io_error InvalidPayloadLength = Custom IoInvalidData ''invalid control payload length''"

definition encode_io :: "control_kind \<Rightarrow> u64 \<Rightarrow> bytes \<Rightarrow> io_error + bytes" where
  "encode_io k rid body = map_sum control_io_error id (control_encode k rid body)"

definition decode_io :: "bytes \<Rightarrow> io_error + control_message" where
  "decode_io bs = map_sum control_io_error id (control_decode bs)"

definition control_send :: "fd \<Rightarrow> control_kind \<Rightarrow> u64 \<Rightarrow> bytes \<Rightarrow> (io_error, unit) prog" where
  "control_send f k rid body = bnd (lift_result (encode_io k rid body)) (send_packet f)"

definition control_receive :: "fd \<Rightarrow> usize \<Rightarrow> (io_error, control_message) prog" where
  "control_receive f len = bnd (recv_packet f len) (\<lambda>bs. lift_result (decode_io bs))"

definition CONTROL_BUFFER :: usize where "CONTROL_BUFFER = MAX_PAYLOAD + 20"

text \<open>The text of an error message is kept byte by byte.\<close>

definition message_text :: "bytes \<Rightarrow> string" where
  "message_text bs = map (\<lambda>b. char_of (unat b)) bs"

definition control_expect :: "fd \<Rightarrow> control_kind \<Rightarrow> (io_error, bytes) prog" where
  "control_expect f expected =
     bnd (control_receive f CONTROL_BUFFER) (\<lambda>m.
       if msg_kind m = control_kind.Error then err (Custom IoOther (message_text (msg_payload m)))
       else if msg_kind m \<noteq> expected then err (Custom IoInvalidData ''unexpected message kind'')
       else ok (msg_payload m))"

end
