(* ===== verification/Seccomp.thy ===== *)
theory Seccomp
  imports Sys_Call
begin

text \<open>
  The seccomp filters of the three roles (\<open>crates/sys/src/seccomp.rs\<close>). The lists of permitted system calls are generated
  by the build, so they are a parameter; the target architecture is one too. A reference interpreter gives the
  documented meaning of the three cBPF instructions that the filter uses.
\<close>

section \<open>The filter\<close>

datatype profile = DataPlane | NamespaceInit | SupervisorProfile

datatype target_arch = X86_64 | Aarch64

type_synonym generated = "profile \<Rightarrow> int list"

definition profile_syscalls :: "generated \<Rightarrow> profile \<Rightarrow> int list" where
  "profile_syscalls gen p = (case p of DataPlane \<Rightarrow> gen DataPlane | NamespaceInit \<Rightarrow> gen NamespaceInit
     | SupervisorProfile \<Rightarrow> gen SupervisorProfile)"

definition SECCOMP_DATA_ARCH_OFFSET :: u32 where "SECCOMP_DATA_ARCH_OFFSET = 4"
definition SECCOMP_DATA_NR_OFFSET :: u32 where "SECCOMP_DATA_NR_OFFSET = 0"
definition BPF_LOAD_WORD_ABSOLUTE :: u16 where "BPF_LOAD_WORD_ABSOLUTE = 0x20"
definition BPF_JUMP_EQUAL :: u16 where "BPF_JUMP_EQUAL = 0x15"
definition BPF_RETURN :: u16 where "BPF_RETURN = 0x06"
definition RET_KILL_PROCESS :: u32 where "RET_KILL_PROCESS = 0x80000000"
definition RET_ALLOW :: u32 where "RET_ALLOW = 0x7fff0000"
definition RET_LOG :: u32 where "RET_LOG = 0x7ffc0000"

fun AUDIT_ARCH :: "target_arch \<Rightarrow> u32" where
  "AUDIT_ARCH X86_64 = 0xc000003e"
| "AUDIT_ARCH Aarch64 = 0xc00000b7"

definition statement :: "u16 \<Rightarrow> u32 \<Rightarrow> sock_filter" where
  "statement code v = \<lparr>bpf_code = code, bpf_jt = 0, bpf_jf = 0, bpf_k = v\<rparr>"

definition jump :: "u16 \<Rightarrow> u32 \<Rightarrow> u8 \<Rightarrow> u8 \<Rightarrow> sock_filter" where
  "jump code v jt jf = \<lparr>bpf_code = code, bpf_jt = jt, bpf_jf = jf, bpf_k = v\<rparr>"

text \<open>\<open>u32::try_from\<close> of a \<open>c_long\<close>.\<close>

definition u32_try_from :: "int \<Rightarrow> u32 option" where
  "u32_try_from n = (if 0 \<le> n \<and> n < 2 ^ 32 then Some (word_of_int n) else None)"

fun filter_rules :: "int list \<Rightarrow> io_error + sock_filter list" where
  "filter_rules [] = Inr []"
| "filter_rules (n # ns) =
     (case u32_try_from n of None \<Rightarrow> Inl (Custom IoInvalidInput ''negative syscall in seccomp profile'')
      | Some v \<Rightarrow> (case filter_rules ns of Inl e \<Rightarrow> Inl e
          | Inr rules \<Rightarrow> Inr (jump BPF_JUMP_EQUAL v 0 1 # statement BPF_RETURN RET_ALLOW # rules)))"

definition build_filter :: "target_arch \<Rightarrow> int list \<Rightarrow> u32 \<Rightarrow> io_error + sock_filter list" where
  "build_filter arch syscalls default_action =
     (case filter_rules syscalls of Inl e \<Rightarrow> Inl e
      | Inr rules \<Rightarrow> Inr (statement BPF_LOAD_WORD_ABSOLUTE SECCOMP_DATA_ARCH_OFFSET
          # jump BPF_JUMP_EQUAL (AUDIT_ARCH arch) 1 0
          # statement BPF_RETURN RET_KILL_PROCESS
          # statement BPF_LOAD_WORD_ABSOLUTE SECCOMP_DATA_NR_OFFSET
          # rules @ [statement BPF_RETURN default_action]))"

text \<open>
  \<open>debug\<close> is \<open>cfg!(debug_assertions)\<close>; the environment is read only in such a build. \<open>traced\<close> is whether the variable has
  the value \<open>1\<close>.
\<close>

definition TRACE_VARIABLE :: syscall where
  "TRACE_VARIABLE = Limit (GetEnv (lit ''YAYATHT_SECCOMP_TRACE''))"

definition traced :: "bool \<Rightarrow> (io_error, bool) prog" where
  "traced debug =
     (if \<not> debug then ok False
      else bnd (attempt (invoke_out TRACE_VARIABLE)) (\<lambda>r. ok (case r of Inl e \<Rightarrow> False | Inr (n, v) \<Rightarrow> v = lit ''1'')))"

definition install :: "bool \<Rightarrow> target_arch \<Rightarrow> generated \<Rightarrow> profile \<Rightarrow> (io_error, unit) prog" where
  "install debug arch gen p =
     bnd (traced debug) (\<lambda>trace.
     bnd (lift_result (build_filter arch (profile_syscalls gen p) (if trace then RET_LOG else RET_KILL_PROCESS))) (\<lambda>program.
       if length program < 2 ^ 16 then perform (Limit (SeccompFilter program))
       else err (Custom IoInvalidInput ''seccomp filter is too long'')))"

section \<open>The meaning of a filter\<close>

text \<open>
  A load replaces the accumulator by the word of the call's description at the given offset, a jump skips \<open>jt\<close> or \<open>jf\<close>
  instructions, a return ends the program with an action. Jumps only go forward, so a program is run on
  what is left of it; \<open>None\<close> stands for an instruction that the filter does not use and for running off the end.
\<close>

function bpf_run :: "sock_filter list \<Rightarrow> (u32 \<Rightarrow> u32) \<Rightarrow> u32 \<Rightarrow> u32 option" where
  "bpf_run [] data a = None"
| "bpf_run (i # is) data a =
     (if bpf_code i = BPF_LOAD_WORD_ABSOLUTE then bpf_run is data (data (bpf_k i))
      else if bpf_code i = BPF_JUMP_EQUAL then bpf_run (drop (unat (if a = bpf_k i then bpf_jt i else bpf_jf i)) is) data a
      else if bpf_code i = BPF_RETURN then Some (bpf_k i)
      else None)"
  by pat_completeness auto
termination
  by (relation "measure (\<lambda>(p, _, _). length p)") auto

lemmas bpf_codes = BPF_LOAD_WORD_ABSOLUTE_def BPF_JUMP_EQUAL_def BPF_RETURN_def

lemma bpf_load [simp]: "bpf_run (statement BPF_LOAD_WORD_ABSOLUTE k # is) data a = bpf_run is data (data k)"
  by (simp add: statement_def)

lemma bpf_jump [simp]:
  "bpf_run (jump BPF_JUMP_EQUAL k jt jf # is) data a = bpf_run (drop (unat (if a = k then jt else jf)) is) data a"
  by (simp add: jump_def bpf_codes)

lemma bpf_return [simp]: "bpf_run (statement BPF_RETURN k # is) data a = Some k"
  by (simp add: statement_def bpf_codes)

text \<open>The intended policy.\<close>

definition seccomp_policy :: "target_arch \<Rightarrow> int list \<Rightarrow> u32 \<Rightarrow> (u32 \<Rightarrow> u32) \<Rightarrow> u32" where
  "seccomp_policy arch permitted otherwise data =
     (if data SECCOMP_DATA_ARCH_OFFSET \<noteq> AUDIT_ARCH arch then RET_KILL_PROCESS
      else if uint (data SECCOMP_DATA_NR_OFFSET) \<in> set permitted then RET_ALLOW else otherwise)"

lemma u32_try_from_eq: "u32_try_from n = Some v \<Longrightarrow> a = v \<longleftrightarrow> uint a = n"
  by (auto simp: u32_try_from_def uint_word_of_int split: if_splits)

lemma filter_rules_run:
  "filter_rules ns = Inr rules \<Longrightarrow>
     bpf_run (rules @ rest) data a = (if uint a \<in> set ns then Some RET_ALLOW else bpf_run rest data a)"
proof (induction ns arbitrary: rules)
  case (Cons n ns)
  then obtain v more where v: "u32_try_from n = Some v" "filter_rules ns = Inr more"
    and rules: "rules = jump BPF_JUMP_EQUAL v 0 1 # statement BPF_RETURN RET_ALLOW # more"
    by (auto split: option.splits sum.splits)
  show ?case
    using Cons.IH [OF v(2)] u32_try_from_eq [OF v(1), of a] by (simp add: rules del: bpf_run.simps)
qed simp

lemma build_filter_run:
  assumes "build_filter arch ns act = Inr program"
  shows "bpf_run program data a = Some (seccomp_policy arch ns act data)"
proof -
  obtain rules where rules: "filter_rules ns = Inr rules"
    and program: "program = statement BPF_LOAD_WORD_ABSOLUTE SECCOMP_DATA_ARCH_OFFSET # jump BPF_JUMP_EQUAL (AUDIT_ARCH arch) 1 0
      # statement BPF_RETURN RET_KILL_PROCESS # statement BPF_LOAD_WORD_ABSOLUTE SECCOMP_DATA_NR_OFFSET
      # rules @ [statement BPF_RETURN act]"
    using assms by (auto simp: build_filter_def split: sum.splits)
  show ?thesis
    by (simp add: program seccomp_policy_def filter_rules_run [OF rules] del: bpf_run.simps)
qed

lemma filter_rules_total:
  "\<forall>n \<in> set ns. 0 \<le> n \<and> n < 2 ^ 32 \<Longrightarrow> \<exists>rules. filter_rules ns = Inr rules \<and> length rules = 2 * length ns"
  by (induction ns) (auto simp: u32_try_from_def)

lemma traced_run:
  "\<exists>t. traced debug w = Some (Inr t, after_calls w (if debug then [TRACE_VARIABLE] else [])) \<and> (t \<longrightarrow> debug)"
  by (auto simp: traced_def running bnd_def attempt_def split: sum.split)

section \<open>Properties\<close>

text \<open>
  C16. For a profile of valid call numbers, \<open>install\<close> hands one program to the kernel and reports what the kernel says,
  and that program decides exactly as intended, whatever the call: a call through another architecture's entry
  kills the process, a call of the profile's list is allowed, and any other call kills the process. Only a debug
  build, in which the trace variable is read first, may log instead of killing.
\<close>

theorem seccomp_installed_policy:
  assumes valid: "\<forall>n \<in> set (gen p). 0 \<le> n \<and> n < 2 ^ 32" and short: "2 * length (gen p) + 5 < 2 ^ 16"
  shows "\<exists>program otherwise.
      (let before = (if debug then [TRACE_VARIABLE] else []); c = Limit (SeccompFilter program)
       in install debug arch gen p w =
            Some (map_sum Os (\<lambda>_. ()) (sys_ret w (calls w @ before) c), after_calls w (before @ [c]))) \<and>
      (otherwise = RET_KILL_PROCESS \<or> debug \<and> otherwise = RET_LOG) \<and>
      (\<forall>data. bpf_run program data 0 = Some (seccomp_policy arch (gen p) otherwise data))"
proof -
  obtain t where t: "traced debug w = Some (Inr t, after_calls w (if debug then [TRACE_VARIABLE] else []))" "t \<longrightarrow> debug"
    using traced_run by blast
  obtain rules where rules: "filter_rules (gen p) = Inr rules" "length rules = 2 * length (gen p)"
    using filter_rules_total [OF valid] by blast
  let ?act = "if t then RET_LOG else RET_KILL_PROCESS"
  have gen: "profile_syscalls gen p = gen p"
    by (simp add: profile_syscalls_def split: profile.split)
  obtain program where program: "build_filter arch (profile_syscalls gen p) ?act = Inr program" "length program < 2 ^ 16"
    using rules short by (simp add: build_filter_def gen)
  have "install debug arch gen p w = perform (Limit (SeccompFilter program)) (after_calls w (if debug then [TRACE_VARIABLE] else []))"
    using program t(1) by (simp add: install_def bnd_def lift_result_run)
  moreover have "\<forall>data. bpf_run program data 0 = Some (seccomp_policy arch (gen p) ?act data)"
    using build_filter_run [OF program(1)] by (simp add: gen)
  ultimately show ?thesis
    using t(2) by (intro exI [of _ program] exI [of _ ?act]) (auto simp: perform_run Let_def map_sum_def split: sum.splits)
qed

text \<open>A release build for a profile of two calls, on a kernel that accepts the filter.\<close>

theorem seccomp_installed_policy_witness:
  "\<exists>program otherwise.
      (let before = (if False then [TRACE_VARIABLE] else []); c = Limit (SeccompFilter program)
       in install False X86_64 (\<lambda>_. [0, 1]) DataPlane quiet_system =
            Some (map_sum Os (\<lambda>_. ()) (sys_ret quiet_system (calls quiet_system @ before) c), after_calls quiet_system (before @ [c]))) \<and>
      (otherwise = RET_KILL_PROCESS \<or> False \<and> otherwise = RET_LOG) \<and>
      (\<forall>data. bpf_run program data 0 = Some (seccomp_policy X86_64 [0, 1] otherwise data))"
  using seccomp_installed_policy [of "\<lambda>_. [0, 1]" DataPlane False X86_64 quiet_system] by simp

end
