(* ===== verification/Supervisor.thy ===== *)
theory Supervisor
  imports Instance Control_Channel Seccomp
begin

text \<open>
  The supervisor, the data-plane child and the namespace init process (\<open>crates/namespace/src/supervisor.rs\<close>). Each process is a
  program of system calls. A child process runs its own program and ends, so in the model of a parent the child's
  branch does not return. Dropping a descriptor closes it, which is not recorded.

  Parameters are the JSON library, the build (debug assertions, version, target, generated syscall lists) and the
  reactor, which is modelled in \<open>Reactor_Loop\<close> on its own state and here is the program that it is to its process.
\<close>

section \<open>Data\<close>

text \<open>The values of the JSON library: objects with their entries, unsigned numbers, parsing and printing.\<close>

record 'j json =
  as_object :: "'j \<Rightarrow> (bytes \<times> 'j) list option"
  of_object :: "(bytes \<times> 'j) list \<Rightarrow> 'j"
  as_u64 :: "'j \<Rightarrow> u64 option"
  of_u64 :: "u64 \<Rightarrow> 'j"
  parse_json :: "bytes \<Rightarrow> 'j option"
  render_json :: "'j \<Rightarrow> bytes option"

record 'j build =
  debug_assertions :: bool
  pkg_version :: bytes
  build_arch :: target_arch
  build_syscalls :: generated
  metadata_format :: metadata_json
  json_library :: "'j json"
  reactor_run :: "reactor_config \<Rightarrow> fd \<Rightarrow> fd \<Rightarrow> (io_error, unit) prog"

datatype supervisor_error = ConfigFailed config_error | IoFailed io_error | DataplaneFailed bytes | NamespaceFailed bytes

record data_plane_worker =
  dw_pid :: pid
  dw_pidfd :: fd
  dw_control :: fd

definition COMMON_NAMESPACES :: u64 where "COMMON_NAMESPACES = 0x3c020000"
definition CLONE_NEWNET :: u64 where "CLONE_NEWNET = 0x40000000"

definition HANDLED_SIGNALS :: "int list" where
  "HANDLED_SIGNALS = [SIGINT, SIGTERM, SIGHUP, SIGQUIT, SIGCHLD]"

text \<open>\<open>cfg!(debug_assertions)\<close> and an environment variable with a given value.\<close>

definition env_is :: "bool \<Rightarrow> string \<Rightarrow> string \<Rightarrow> ('e, bool) prog" where
  "env_is debug var val =
     (if \<not> debug then ok False
      else bnd (attempt (invoke_out (Limit (GetEnv (lit var))))) (\<lambda>r. ok (case r of Inl e \<Rightarrow> False | Inr (n, v) \<Rightarrow> v = lit val)))"

definition FAILPOINT :: string where "FAILPOINT = ''YAYATHT_TEST_FAIL_AT''"

definition debug_failpoint :: "bool \<Rightarrow> string \<Rightarrow> (io_error, unit) prog" where
  "debug_failpoint debug name =
     bnd (env_is debug FAILPOINT name) (\<lambda>hit. if hit then err (Custom IoOther ''injected failure'') else ok ())"

text \<open>The guard at the end of a forbidden-call failpoint: the call must have killed the process.\<close>

definition forbidden_call :: "bool \<Rightarrow> (io_error, unit) prog" where
  "forbidden_call hit =
     (if hit then bnd (infallible (Proc Getpid)) (\<lambda>_. err (Custom IoOther ''forbidden syscall was not blocked'')) else ok ())"

section \<open>Waiting for the children\<close>

definition expect_ready :: "fd \<Rightarrow> bool \<Rightarrow> (supervisor_error, unit) prog" where
  "expect_ready f namespace_role =
     bnd (convert IoFailed (control_receive f CONTROL_BUFFER)) (\<lambda>m. case msg_kind m of
         control_kind.Ready \<Rightarrow> ok ()
       | control_kind.Error \<Rightarrow> err (if namespace_role then NamespaceFailed (msg_payload m) else DataplaneFailed (msg_payload m))
       | _ \<Rightarrow> err (IoFailed (Custom IoInvalidData ''unexpected message'')))"

definition kill_dataplanes :: "data_plane_worker list \<Rightarrow> ('e, unit) prog" where
  "kill_dataplanes ws =
     and_then (for_each (\<lambda>wk. ignoring (pidfd_send_signal (dw_pidfd wk) SIGKILL)) ws)
       (for_each (\<lambda>wk. ignoring (wait_pid (dw_pid wk) False)) ws)"

definition kill_children :: "data_plane_worker list \<Rightarrow> fd \<Rightarrow> pid \<Rightarrow> ('e, unit) prog" where
  "kill_children ws namespace_pidfd namespace_pid =
     and_then (for_each (\<lambda>wk. ignoring (pidfd_send_signal (dw_pidfd wk) SIGKILL)) ws)
    (and_then (ignoring (pidfd_send_signal namespace_pidfd SIGKILL))
    (and_then (for_each (\<lambda>wk. ignoring (wait_pid (dw_pid wk) False)) ws)
       (ignoring (wait_pid namespace_pid False))))"

text \<open>\<open>ChildGuard\<close>: its destructor, unless it was disarmed.\<close>

record child_guard =
  guard_dataplanes :: "(pid \<times> fd) list"
  guard_namespace_pid :: pid
  guard_namespace_pidfd :: fd
  armed :: bool

definition guard_new :: "data_plane_worker list \<Rightarrow> pid \<Rightarrow> fd \<Rightarrow> child_guard" where
  "guard_new ws namespace_pid namespace_pidfd =
     \<lparr>guard_dataplanes = map (\<lambda>wk. (dw_pid wk, dw_pidfd wk)) ws, guard_namespace_pid = namespace_pid,
      guard_namespace_pidfd = namespace_pidfd, armed = True\<rparr>"

definition guard_disarm :: "child_guard \<Rightarrow> child_guard" where
  "guard_disarm g = g\<lparr>armed := False\<rparr>"

definition guard_drop :: "child_guard \<Rightarrow> ('e, unit) prog" where
  "guard_drop g =
     (if \<not> armed g then ok ()
      else and_then (for_each (\<lambda>(_, pidfd). ignoring (pidfd_send_signal pidfd SIGKILL)) (guard_dataplanes g))
          (and_then (ignoring (pidfd_send_signal (guard_namespace_pidfd g) SIGKILL))
          (and_then (for_each (\<lambda>(pid, _). ignoring (wait_pid pid False)) (guard_dataplanes g))
            (ignoring (wait_pid (guard_namespace_pid g) False)))))"

definition shutdown_dataplanes :: "data_plane_worker list \<Rightarrow> ('e, unit) prog" where
  "shutdown_dataplanes ws =
     (case encode_io control_kind.Shutdown 3 [] of Inl e \<Rightarrow> ok ()
      | Inr message \<Rightarrow> for_each (\<lambda>wk. ignoring (send_packet (dw_control wk) message)) ws)"

definition wait_dataplanes :: "data_plane_worker list \<Rightarrow> ('e, unit) prog" where
  "wait_dataplanes ws = for_each (\<lambda>wk. ignoring (wait_pid (dw_pid wk) False)) ws"

definition write_identity_maps :: "pid \<Rightarrow> (io_error, unit) prog" where
  "write_identity_maps pid =
     bnd (infallible (Proc Getuid)) (\<lambda>uid.
     bnd (infallible (Proc Getgid)) (\<lambda>gid.
     let root = lit ''/proc/'' @ show_dec (nat pid);
         mapping_of = (\<lambda>n. lit ''0 '' @ show_dec (nat n) @ lit '' 1'' @ [10])
     in and_then (bnd (attempt (perform (File (FsWrite (path_join root (lit ''setgroups'')) (lit ''deny''))))) (\<lambda>r. case r of
              Inr _ \<Rightarrow> ok ()
            | Inl e \<Rightarrow> if error_kind e = IoNotFound then ok () else err e))
       (and_then (perform (File (FsWrite (path_join root (lit ''uid_map'')) (mapping_of uid))))
         (perform (File (FsWrite (path_join root (lit ''gid_map'')) (mapping_of gid)))))))"

definition gateway_resolv_conf :: "network_config \<Rightarrow> bytes" where
  "gateway_resolv_conf net =
     (case net_gateway_ipv4 net of None \<Rightarrow> [] | Some g \<Rightarrow> lit ''nameserver '' @ show_ipv4 g @ [10]) @
     (case net_gateway_ipv6 net of None \<Rightarrow> [] | Some g \<Rightarrow> lit ''nameserver '' @ show_ipv6 g @ [10])"

section \<open>Metrics\<close>

definition INVARIANT_FIELDS :: "bytes list" where
  "INVARIANT_FIELDS = [lit ''tap_mtu'', lit ''tap_offload'', lit ''tap_frame_capacity'']"

text \<open>One entry of a worker against the aggregate.\<close>

definition merge_entry :: "'j json \<Rightarrow> (bytes \<times> 'j) list \<Rightarrow> bytes \<Rightarrow> 'j \<Rightarrow> io_error + (bytes \<times> 'j) list" where
  "merge_entry J aggregate key v =
     (case map_of aggregate key of
        None \<Rightarrow> Inl (Custom IoInvalidData ''worker metric is inconsistent'')
      | Some current \<Rightarrow>
          if key \<in> set INVARIANT_FIELDS
          then (if current \<noteq> v then Inl (Custom IoInvalidData ''worker metric differs'') else Inr aggregate)
          else case (as_u64 J current, as_u64 J v) of
              (Some left, Some right) \<Rightarrow> Inr (AList.update key (of_u64 J (saturating_add left right)) aggregate)
            | _ \<Rightarrow> Inl (Custom IoInvalidData ''worker metric is not an unsigned integer''))"

fun merge_entries :: "'j json \<Rightarrow> (bytes \<times> 'j) list \<Rightarrow> (bytes \<times> 'j) list \<Rightarrow> io_error + (bytes \<times> 'j) list" where
  "merge_entries J aggregate [] = Inr aggregate"
| "merge_entries J aggregate ((key, v) # rest) =
     (case merge_entry J aggregate key v of Inl e \<Rightarrow> Inl e | Inr aggregate' \<Rightarrow> merge_entries J aggregate' rest)"

fun merge_workers :: "'j json \<Rightarrow> (bytes \<times> 'j) list \<Rightarrow> 'j list \<Rightarrow> io_error + (bytes \<times> 'j) list" where
  "merge_workers J aggregate [] = Inr aggregate"
| "merge_workers J aggregate (m # ms) =
     (case as_object J m of None \<Rightarrow> Inl (Custom IoInvalidData ''invalid worker metrics'')
      | Some worker \<Rightarrow> (case merge_entries J aggregate worker of Inl e \<Rightarrow> Inl e
          | Inr aggregate' \<Rightarrow> merge_workers J aggregate' ms))"

definition merge_dataplane_metrics :: "'j json \<Rightarrow> 'j list \<Rightarrow> io_error + 'j" where
  "merge_dataplane_metrics J metrics =
     (case metrics of
        [] \<Rightarrow> Inl (Custom IoInvalidData ''missing worker metrics'')
      | m # ms \<Rightarrow>
          (case as_object J m of None \<Rightarrow> Inl (Custom IoInvalidData ''missing worker metrics'')
           | Some first \<Rightarrow> (case merge_workers J first ms of Inl e \<Rightarrow> Inl e
               | Inr aggregate \<Rightarrow> Inr (of_object J (AList.update (lit ''workers'') (of_u64 J (word_of_nat (length metrics))) aggregate)))))"

definition REQUEST_ID_BASE :: u64 where "REQUEST_ID_BASE = 0x6d65747269637300"

definition query_worker_metrics :: "'j json \<Rightarrow> nat \<Rightarrow> fd \<Rightarrow> (io_error, 'j) prog" where
  "query_worker_metrics J worker_index f =
     (let rid = REQUEST_ID_BASE + word_of_nat worker_index
      in and_then (control_send f control_kind.Status rid [])
        (bnd now (\<lambda>start.
         let deadline = start + from_millis 200
         in looping (\<lambda>_.
              bnd (attempt (control_receive f CONTROL_BUFFER)) (\<lambda>r. case r of
                  Inr m \<Rightarrow>
                    if msg_kind m = control_kind.Status \<and> request_id m = rid
                    then (case parse_json J (msg_payload m) of None \<Rightarrow> err (Custom IoOther ''metrics'') | Some j \<Rightarrow> ok (Inl j))
                    else if msg_kind m = control_kind.Error then err (Custom IoOther (message_text (msg_payload m)))
                    else ok (Inr ())
                | Inl e \<Rightarrow>
                    if error_kind e = IoWouldBlock
                    then bnd now (\<lambda>t.
                           if t \<ge> deadline then err (Custom IoTimedOut ''timed out querying data-plane worker metrics'')
                           else bnd (infallible (Proc (Sleep (from_millis 1)))) (\<lambda>_. ok (Inr ())))
                    else err e)) ())))"

definition query_dataplane_metrics :: "'j json \<Rightarrow> data_plane_worker list \<Rightarrow> (io_error, 'j) prog" where
  "query_dataplane_metrics J ws =
     bnd (collect (\<lambda>(i, wk). query_worker_metrics J i (dw_control wk)) (enumerate 0 ws)) (\<lambda>ms.
       lift_result (merge_dataplane_metrics J ms))"

text \<open>One connection of the control socket. \<open>read\<close> fails when the client sends nothing within the timeout.\<close>

definition serve_client :: "metadata_json \<Rightarrow> 'j json \<Rightarrow> inst \<Rightarrow> data_plane_worker list \<Rightarrow> fd \<Rightarrow> (io_error, unit) prog" where
  "serve_client format J i ws stream =
     and_then (perform (Msg (SetReadTimeout stream (from_millis 200))))
    (bnd (receive_bytes (Io (Read stream 128)) 128) (\<lambda>request.
     bnd (lift_result (decode_io request)) (\<lambda>m.
       if msg_kind m \<noteq> control_kind.Status then ok ()
       else case Option.bind (render_metadata format (metadata i)) (parse_json J) of
         None \<Rightarrow> err (Custom IoOther ''metadata'')
       | Some payload \<Rightarrow>
           bnd (query_dataplane_metrics J ws) (\<lambda>metrics.
           case as_object J payload of
             None \<Rightarrow> err (Custom IoInvalidData ''invalid instance JSON'')
           | Some entries \<Rightarrow>
               (case render_json J (of_object J (AList.update (lit ''dataplane'') metrics entries)) of
                  None \<Rightarrow> err (Custom IoOther ''status'')
                | Some text \<Rightarrow>
                    bnd (lift_result (encode_io control_kind.Status (request_id m) text)) (\<lambda>response.
                      perform (Io (Write stream response))))))))"

definition serve_status :: "metadata_json \<Rightarrow> 'j json \<Rightarrow> inst \<Rightarrow> data_plane_worker list \<Rightarrow> (io_error, unit) prog" where
  "serve_status format J i ws =
     looping (\<lambda>_.
       bnd (attempt (invoke (Msg (Accept (listener i))))) (\<lambda>r. case r of
           Inl e \<Rightarrow> if error_kind e = IoWouldBlock then ok (Inl ()) else err e
         | Inr stream \<Rightarrow> and_then (serve_client format J i ws stream) (ok (Inr ())))) ()"

section \<open>The main loop of the supervisor\<close>

text \<open>\<open>while let Some(signal) = signals.read()?\<close>, with \<open>SIGCHLD\<close> passed over.\<close>

definition forward_signals :: "fd \<Rightarrow> (int \<Rightarrow> (io_error, unit) prog) \<Rightarrow> (io_error, unit) prog" where
  "forward_signals signals deliver =
     looping (\<lambda>_.
       bnd (signalfd_read signals) (\<lambda>r. case r of
           None \<Rightarrow> ok (Inl ())
         | Some signal \<Rightarrow> and_then (if signal \<noteq> SIGCHLD then deliver signal else ok ()) (ok (Inr ())))) ()"

text \<open>The loop over the workers: the first one that no longer runs ends the instance.\<close>

fun check_workers ::
    "data_plane_worker list \<Rightarrow> pid \<Rightarrow> fd \<Rightarrow> data_plane_worker list \<Rightarrow> (supervisor_error, unit) prog" where
  "check_workers ws namespace_pid namespace_pidfd [] = ok ()"
| "check_workers ws namespace_pid namespace_pidfd (wk # rest) =
     bnd (convert IoFailed (wait_pid (dw_pid wk) True)) (\<lambda>status.
       if status = StillRunning then check_workers ws namespace_pid namespace_pidfd rest
       else and_then (shutdown_dataplanes ws)
           (and_then (ignoring (pidfd_send_signal namespace_pidfd SIGTERM))
           (and_then (ignoring (wait_pid namespace_pid False))
           (and_then (wait_dataplanes ws)
             (err (DataplaneFailed (lit ''worker exited before target command'')))))))"

text \<open>The rest of an iteration: the workers, the namespace init process, and the pause.\<close>

definition watch_children :: "data_plane_worker list \<Rightarrow> pid \<Rightarrow> fd \<Rightarrow> (supervisor_error, int + unit) prog" where
  "watch_children ws namespace_pid namespace_pidfd =
     and_then (check_workers ws namespace_pid namespace_pidfd ws)
    (bnd (convert IoFailed (wait_pid namespace_pid True)) (\<lambda>status.
       if status = StillRunning then bnd (infallible (Proc (Sleep (from_millis 20)))) (\<lambda>_. ok (Inr ()))
       else and_then (shutdown_dataplanes ws)
           (and_then (wait_dataplanes ws)
             (err (NamespaceFailed (lit ''exited without target status''))))))"

text \<open>The reaction to the message that the command has ended.\<close>

definition target_exited :: "data_plane_worker list \<Rightarrow> pid \<Rightarrow> control_message \<Rightarrow> (supervisor_error, int + unit) prog" where
  "target_exited ws namespace_pid m =
     (if length (msg_payload m) \<noteq> 4 then err (IoFailed (Custom IoInvalidData ''invalid exit status''))
      else and_then (shutdown_dataplanes ws)
          (and_then (ignoring (wait_pid namespace_pid False))
          (and_then (wait_dataplanes ws)
            (ok (Inl (sint (from_le (msg_payload m) :: u32)))))))"

definition supervise_iteration ::
    "'j build \<Rightarrow> inst \<Rightarrow> fd \<Rightarrow> fd \<Rightarrow> data_plane_worker list \<Rightarrow> pid \<Rightarrow> fd \<Rightarrow> (supervisor_error, int + unit) prog" where
  "supervise_iteration b i signals ns_control ws namespace_pid namespace_pidfd =
     and_then (convert IoFailed (forward_signals signals (pidfd_send_signal namespace_pidfd)))
    (and_then (convert IoFailed (serve_status (metadata_format b) (json_library b) i ws))
    (bnd (attempt (control_receive ns_control CONTROL_BUFFER)) (\<lambda>r. case r of
         Inr m \<Rightarrow>
           if msg_kind m = control_kind.Exit then target_exited ws namespace_pid m
           else if msg_kind m = control_kind.Error then err (NamespaceFailed (msg_payload m))
           else watch_children ws namespace_pid namespace_pidfd
       | Inl e \<Rightarrow>
           if error_kind e = IoWouldBlock then watch_children ws namespace_pid namespace_pidfd
           else if error_kind e = IoUnexpectedEof then err (NamespaceFailed (lit ''control channel closed''))
           else err (IoFailed e))))"

definition supervise_running ::
    "'j build \<Rightarrow> inst \<Rightarrow> fd \<Rightarrow> fd \<Rightarrow> data_plane_worker list \<Rightarrow> pid \<Rightarrow> fd \<Rightarrow> (supervisor_error, int) prog" where
  "supervise_running b i signals ns_control ws namespace_pid namespace_pidfd =
     looping (\<lambda>_. supervise_iteration b i signals ns_control ws namespace_pid namespace_pidfd) ()"

section \<open>The data-plane child\<close>

definition data_plane_body :: "'j build \<Rightarrow> fd \<Rightarrow> fd \<Rightarrow> sandbox_config \<Rightarrow> reactor_config \<Rightarrow> (io_error, unit) prog" where
  "data_plane_body b control_fd tap_channel sb c =
     and_then (set_parent_death_signal SIGKILL)
    (bnd (control_expect control_fd control_kind.MapsReady) (\<lambda>_.
     bnd (recv_fd tap_channel 128) (\<lambda>(payload, tap).
     bnd (lift_result (decode_io payload)) (\<lambda>m.
       if msg_kind m \<noteq> control_kind.Ready then err (Custom IoInvalidData ''invalid TAP transfer'')
       else
         bnd (env_is (debug_assertions b) FAILPOINT ''dp_forbidden_syscall'') (\<lambda>hit.
         bnd (lift_result (dataplane_nofile_limit (max_tcp_flows c) (max_udp_flows c) (max_udp_associations c))) (\<lambda>limit.
         and_then (set_nofile_limit limit)
        (and_then (if sandbox_enabled sb then and_then disable_core_dumps isolate_filesystem else ok ())
        (and_then drop_all_capabilities
        (and_then set_no_new_privs
        (and_then (if sandbox_enabled sb then install (debug_assertions b) (build_arch b) (build_syscalls b) DataPlane else ok ())
        (and_then (forbidden_call hit)
        (and_then (control_send control_fd control_kind.Ready 1 [])
        (and_then (set_nonblocking control_fd True)
          (reactor_run b c tap control_fd))))))))))))))"

text \<open>The process ends with the code; a failure is reported on a duplicate of the control channel if there is one.\<close>

definition error_text :: "io_error \<Rightarrow> bytes" where
  "error_text e = (case e of Os n \<Rightarrow> lit ''os error '' @ show_dec (nat n) | Custom k t \<Rightarrow> lit t)"

definition data_plane_child :: "'j build \<Rightarrow> fd \<Rightarrow> fd \<Rightarrow> sandbox_config \<Rightarrow> reactor_config \<Rightarrow> ('e, 'a) prog" where
  "data_plane_child b control_fd tap_channel sb c =
     bnd (attempt (invoke (Io (Dup control_fd)))) (\<lambda>error_control.
     bnd (attempt (data_plane_body b control_fd tap_channel sb c)) (\<lambda>r. case r of
         Inr _ \<Rightarrow> exit_immediately 0
       | Inl e \<Rightarrow>
           and_then (case error_control of Inl _ \<Rightarrow> ok ()
               | Inr f \<Rightarrow> ignoring (control_send f control_kind.Error 0 (error_text e)))
             (exit_immediately 125)))"

section \<open>The namespace init process\<close>

text \<open>
  The inner loop that reaps children: what it does with one answer, and the loop itself. The first component is \<open>Some code\<close> once no
  child is left and the target has ended, \<open>None\<close> when the outer loop has to wait; the second is the status of the target.
\<close>

definition reap_step :: "pid \<Rightarrow> int option \<Rightarrow> (pid \<times> wait_status) option \<Rightarrow> (int option \<times> int option) + int option" where
  "reap_step target_pid main_status r =
     (case r of Some (pid, StillRunning) \<Rightarrow> if pid = -1 then Inl (None, main_status) else Inr main_status
      | Some (pid, Exited code) \<Rightarrow> Inr (if pid = target_pid then Some code else main_status)
      | Some (pid, Signaled signal) \<Rightarrow> Inr (if pid = target_pid then Some (128 + signal) else main_status)
      | Some (pid, NoChildren) \<Rightarrow> Inl (main_status, main_status)
      | None \<Rightarrow> Inl (main_status, main_status))"

definition reap_children :: "pid \<Rightarrow> int option \<Rightarrow> (io_error, int option \<times> int option) prog" where
  "reap_children target_pid = looping (\<lambda>main_status. bnd wait_any_nohang (\<lambda>r. ok (reap_step target_pid main_status r)))"

text \<open>The reaction to the control channel.\<close>

definition init_control :: "pid \<Rightarrow> io_error + control_message \<Rightarrow> (io_error, unit) prog" where
  "init_control target_pid r =
     (case r of
        Inr m \<Rightarrow> if msg_kind m = control_kind.Shutdown then signal_process_group target_pid SIGTERM else ok ()
      | Inl e \<Rightarrow> if error_kind e = IoWouldBlock then ok ()
                 else if error_kind e = IoUnexpectedEof then signal_process_group target_pid SIGTERM
                 else err e)"

definition init_iteration :: "fd \<Rightarrow> fd \<Rightarrow> pid \<Rightarrow> int option \<Rightarrow> (io_error, int + int option) prog" where
  "init_iteration control_fd signals target_pid main_status =
     and_then (forward_signals signals (signal_process_group target_pid))
    (bnd (attempt (control_receive control_fd 128)) (\<lambda>r.
     and_then (init_control target_pid r)
    (bnd (reap_children target_pid main_status) (\<lambda>(final, main_status).
       case final of Some code \<Rightarrow> ok (Inl code)
       | None \<Rightarrow> bnd (infallible (Proc (Sleep (from_millis 20)))) (\<lambda>_. ok (Inr main_status))))))"

definition init_loop :: "fd \<Rightarrow> fd \<Rightarrow> pid \<Rightarrow> (io_error, int) prog" where
  "init_loop control_fd signals target_pid = looping (init_iteration control_fd signals target_pid) None"

definition zip_addresses :: "(bytes \<times> u8) option \<Rightarrow> bytes option \<Rightarrow> (bytes \<times> u8 \<times> bytes) option" where
  "zip_addresses a g = (case (a, g) of (Some (address, prefix), Some gateway) \<Rightarrow> Some (address, prefix, gateway) | _ \<Rightarrow> None)"

definition namespace_child_inner :: "'j build \<Rightarrow> fd \<Rightarrow> fd list \<Rightarrow> launch_config \<Rightarrow> bytes option \<Rightarrow> (io_error, int) prog" where
  "namespace_child_inner b control_fd tap_channels l resolv_conf =
     (let net = network l in
      bnd (env_is (debug_assertions b) FAILPOINT ''ns_forbidden_syscall'') (\<lambda>hit.
      and_then (set_parent_death_signal SIGKILL)
     (bnd (control_expect control_fd control_kind.MapsReady) (\<lambda>_.
      and_then mount_private_proc
     (and_then (case resolv_conf of None \<Rightarrow> ok () | Some src \<Rightarrow> bind_resolv_conf src)
     (and_then (debug_failpoint (debug_assertions b) ''ns_tap'')
     (bnd (collect (\<lambda>_. create_tap (lit (interface_name net)) (net_tap_offload net) (length tap_channels > 1)) tap_channels) (\<lambda>taps.
      bnd byte_order (\<lambda>big.
      and_then (configure_namespace big (lit (interface_name net)) (net_target_mac net) (net_tap_mtu net)
          (zip_addresses (net_target_ipv4 net) (net_gateway_ipv4 net)) (zip_addresses (net_target_ipv6 net) (net_gateway_ipv6 net)))
     (bnd (lift_result (encode_io control_kind.Ready 1 [])) (\<lambda>message.
      and_then (for_each (\<lambda>(channel, tap). send_fd channel tap message) (zip tap_channels taps))
     (and_then (control_send control_fd control_kind.Ready 1 [])
     (bnd (control_expect control_fd control_kind.Exec) (\<lambda>_.
      if \<exists>arg \<in> set (launch_command l). 0 \<in> set arg then err (Custom IoInvalidInput ''command contains an embedded NUL'')
      else
        bnd (signalfd_block HANDLED_SIGNALS) (\<lambda>signals.
        bnd (fork_exec (launch_command l)) (\<lambda>target_pid.
        and_then (set_nonblocking control_fd True)
       (and_then (if sandbox_enabled (sandbox l)
                  then and_then set_no_new_privs (install (debug_assertions b) (build_arch b) (build_syscalls b) NamespaceInit) else ok ())
       (and_then (control_send control_fd control_kind.Status 2 (to_le 4 (word_of_int target_pid :: u32)))
       (and_then (forbidden_call hit)
         (init_loop control_fd signals target_pid))))))))))))))))))))"

text \<open>What the process does before it ends, with the code that it ends with, and the whole process.\<close>

definition namespace_report :: "'j build \<Rightarrow> fd \<Rightarrow> fd list \<Rightarrow> launch_config \<Rightarrow> bytes option \<Rightarrow> ('e, int) prog" where
  "namespace_report b control_fd tap_channels l resolv_conf =
     bnd (attempt (namespace_child_inner b control_fd tap_channels l resolv_conf)) (\<lambda>r. case r of
         Inr code \<Rightarrow> and_then (ignoring (control_send control_fd control_kind.Exit 3 (to_le 4 (word_of_int code :: u32)))) (ok 0)
       | Inl e \<Rightarrow> and_then (ignoring (control_send control_fd control_kind.Error 0 (error_text e))) (ok 125))"

definition namespace_child :: "'j build \<Rightarrow> fd \<Rightarrow> fd list \<Rightarrow> launch_config \<Rightarrow> bytes option \<Rightarrow> ('e, 'a) prog" where
  "namespace_child b control_fd tap_channels l resolv_conf =
     bnd (namespace_report b control_fd tap_channels l resolv_conf) exit_immediately"

section \<open>The supervisor\<close>

text \<open>A worker's configuration; a validated configuration has one for every worker.\<close>

definition dataplane_of :: "launch_config \<Rightarrow> nat \<Rightarrow> ('e, reactor_config) prog" where
  "dataplane_of l i = (case dataplane l i of None \<Rightarrow> never | Some c \<Rightarrow> ok c)"

text \<open>The loop that starts the workers: their handles and the channels for the TAP descriptors.\<close>

fun spawn_workers ::
    "'j build \<Rightarrow> launch_config \<Rightarrow> nat list \<Rightarrow> data_plane_worker list \<Rightarrow> fd list
     \<Rightarrow> (supervisor_error, data_plane_worker list \<times> fd list) prog" where
  "spawn_workers b l [] ws taps = ok (ws, taps)"
| "spawn_workers b l (index # rest) ws taps =
     bnd (attempt seqpacket_pair) (\<lambda>r. case r of
         Inl e \<Rightarrow> and_then (kill_dataplanes ws) (err (IoFailed e))
       | Inr (dp_parent, dp_child) \<Rightarrow>
     bnd (attempt seqpacket_pair) (\<lambda>r. case r of
         Inl e \<Rightarrow> and_then (kill_dataplanes ws) (err (IoFailed e))
       | Inr (tap_dp, tap_ns) \<Rightarrow>
     bnd (dataplane_of l index) (\<lambda>c.
     bnd (attempt (clone_namespaced COMMON_NAMESPACES)) (\<lambda>r. case r of
         Inl e \<Rightarrow> and_then (kill_dataplanes ws) (err (IoFailed e))
       | Inr CloneChild \<Rightarrow> data_plane_child b dp_child tap_dp (sandbox l) c
       | Inr (CloneParent pid pidfd) \<Rightarrow>
           spawn_workers b l rest (ws @ [\<lparr>dw_pid = pid, dw_pidfd = pidfd, dw_control = dp_parent\<rparr>]) (taps @ [tap_ns])))))"

text \<open>A step that kills the children itself before it passes its error on.\<close>

definition or_kill :: "data_plane_worker list \<Rightarrow> fd \<Rightarrow> pid \<Rightarrow> (supervisor_error, 'a) prog \<Rightarrow> (supervisor_error, 'a) prog" where
  "or_kill ws namespace_pidfd namespace_pid m =
     bnd (attempt m) (\<lambda>r. case r of
         Inl e \<Rightarrow> and_then (kill_children ws namespace_pidfd namespace_pid) (err e)
       | Inr x \<Rightarrow> ok x)"

text \<open>
  From the existence of all children to the start of the supervision; the value is the instance with its new metadata.
\<close>

definition start_children ::
    "'j build \<Rightarrow> launch_config \<Rightarrow> inst \<Rightarrow> bool \<Rightarrow> fd \<Rightarrow> data_plane_worker list \<Rightarrow> pid \<Rightarrow> fd \<Rightarrow> (supervisor_error, inst) prog" where
  "start_children b l i hit ns_parent ws namespace_pid namespace_pidfd =
     (let json = metadata_format b; guarded = or_kill ws namespace_pidfd namespace_pid in
      and_then (for_each (\<lambda>wk. guarded (convert IoFailed (write_identity_maps (dw_pid wk)))) ws)
     (and_then (guarded (convert IoFailed (write_identity_maps namespace_pid)))
     (and_then (for_each (\<lambda>wk. convert IoFailed (control_send (dw_control wk) control_kind.MapsReady 1 [])) ws)
     (and_then (convert IoFailed (control_send ns_parent control_kind.MapsReady 1 []))
     (and_then (guarded (expect_ready ns_parent True))
     (and_then (for_each (\<lambda>wk. guarded (expect_ready (dw_control wk) False)) ws)
     (bnd (convert IoFailed (update_children json i (map dw_pid ws) namespace_pid)) (\<lambda>i.
      and_then (convert IoFailed (control_send ns_parent control_kind.Exec 2 []))
     (bnd (convert IoFailed (control_expect ns_parent control_kind.Status)) (\<lambda>payload.
      if length payload \<noteq> 4
      then and_then (kill_children ws namespace_pidfd namespace_pid) (err (IoFailed (Custom IoInvalidData ''invalid target pid'')))
      else
        bnd (convert IoFailed (set_target_pid json i (sint (from_le payload :: u32)))) (\<lambda>i.
        and_then (convert IoFailed (set_nonblocking ns_parent True))
       (and_then (for_each (\<lambda>wk. convert IoFailed (set_nonblocking (dw_control wk) True)) ws)
       (and_then (if sandbox_enabled (sandbox l)
                  then convert IoFailed (and_then set_no_new_privs (install (debug_assertions b) (build_arch b) (build_syscalls b) SupervisorProfile))
                  else ok ())
       (and_then (convert IoFailed (forbidden_call hit))
          (ok i)))))))))))))))"

text \<open>The source's \<open>ChildGuard\<close> is live from here on and is disarmed only after \<open>supervise_running\<close> has returned.\<close>

definition run_children ::
    "'j build \<Rightarrow> launch_config \<Rightarrow> inst \<Rightarrow> bool \<Rightarrow> fd \<Rightarrow> fd \<Rightarrow> data_plane_worker list \<Rightarrow> pid \<Rightarrow> fd \<Rightarrow> (supervisor_error, inst \<times> int) prog" where
  "run_children b l i hit signals ns_parent ws namespace_pid namespace_pidfd =
     bnd (start_children b l i hit ns_parent ws namespace_pid namespace_pidfd) (\<lambda>i.
     bnd (supervise_running b i signals ns_parent ws namespace_pid namespace_pidfd) (\<lambda>code.
       ok (i, code)))"

text \<open>The guard around it: its destructor runs on every way out, and does nothing after \<open>supervise_running\<close> succeeded.\<close>

definition run_guarded ::
    "'j build \<Rightarrow> launch_config \<Rightarrow> inst \<Rightarrow> bool \<Rightarrow> fd \<Rightarrow> fd \<Rightarrow> data_plane_worker list \<Rightarrow> pid \<Rightarrow> fd \<Rightarrow> (supervisor_error, int) prog" where
  "run_guarded b l i hit signals ns_parent ws namespace_pid namespace_pidfd =
     (let guard = guard_new ws namespace_pid namespace_pidfd
      in bnd (attempt (run_children b l i hit signals ns_parent ws namespace_pid namespace_pidfd)) (\<lambda>r. case r of
           Inl e \<Rightarrow> and_then (guard_drop guard) (err e)
         | Inr (i, code) \<Rightarrow>
             ensuring (bnd (convert IoFailed (set_state (metadata_format b) i (lit ''exited''))) (\<lambda>_. ok code))
               (guard_drop (guard_disarm guard) :: (io_error, unit) prog)))"

definition run_instance :: "'j build \<Rightarrow> launch_config \<Rightarrow> bool \<Rightarrow> fd \<Rightarrow> inst \<Rightarrow> (supervisor_error, int) prog" where
  "run_instance b l hit signals i =
     bnd (convert IoFailed seqpacket_pair) (\<lambda>(ns_parent, ns_child).
     bnd (if dns_mode_of (dns l) \<noteq> DnsOff
          then bnd (convert IoFailed (write_resolv_conf i (gateway_resolv_conf (network l)))) (\<lambda>p. ok (Some p)) else ok None) (\<lambda>resolv_conf.
     bnd (spawn_workers b l [0..<workers l] [] []) (\<lambda>(ws, tap_channels).
     let l = clear_proxy_credentials l
     in bnd (attempt (clone_namespaced (COMMON_NAMESPACES OR CLONE_NEWNET))) (\<lambda>r. case r of
            Inl e \<Rightarrow> and_then (kill_dataplanes ws) (err (IoFailed e))
          | Inr CloneChild \<Rightarrow> namespace_child b ns_child tap_channels l resolv_conf
          | Inr (CloneParent pid pidfd) \<Rightarrow> run_guarded b l i hit signals ns_parent ws pid pidfd))))"

definition supervisor_run :: "'j build \<Rightarrow> launch_config \<Rightarrow> (supervisor_error, int) prog" where
  "supervisor_run b l =
     and_then (lift_result (map_sum ConfigFailed id (validate l)))
    (bnd (env_is (debug_assertions b) FAILPOINT ''supervisor_forbidden_syscall'') (\<lambda>hit.
     bnd (collect (\<lambda>index. bnd (dataplane_of l index) (\<lambda>c.
            convert IoFailed (lift_result (dataplane_nofile_limit (max_tcp_flows c) (max_udp_flows c) (max_udp_associations c)))))
          [0..<workers l]) (\<lambda>limits.
     let dataplane_fd_limit = foldl max 0 limits;
         supervisor_fd_limit = min (min (workers l * 4) (2 ^ 64 - 1) + 32) (2 ^ 64 - 1)
     in and_then (convert IoFailed (ensure_nofile_capacity (max dataplane_fd_limit supervisor_fd_limit)))
       (and_then (convert IoFailed set_child_subreaper)
       (bnd (convert IoFailed (signalfd_block HANDLED_SIGNALS)) (\<lambda>signals.
        bnd (convert IoFailed (instance_create (metadata_format b) (pkg_version b) (instance_name l) (runtime_root l))) (\<lambda>i.
          ensuring (run_instance b l hit signals i) (instance_drop (metadata_format b) i))))))))"

end
