(* ===== verification/Supervisor_Safety.thy ===== *)
theory Supervisor_Safety
  imports Supervisor
begin

text \<open>
  What the supervisor guarantees about its children: every child it has started is waited for on every way out, and killed first
  when the run fails.
\<close>

section \<open>Children in a record of calls\<close>

definition not_clone :: "syscall \<Rightarrow> bool" where
  "not_clone c \<longleftrightarrow> (case c of Proc (Clone3 f) \<Rightarrow> False | _ \<Rightarrow> True)"

text \<open>The child that a call has started: a \<open>clone3\<close> that returned in the parent and delivered a descriptor.\<close>

definition child_of :: "system \<Rightarrow> syscall list \<Rightarrow> syscall \<Rightarrow> (pid \<times> fd) list" where
  "child_of w h c = (if not_clone c then []
     else case sys_ret w h c of Inl e \<Rightarrow> []
       | Inr pid \<Rightarrow> (let pidfd = sint (from_ne (sys_big w) (take 4 (sys_out w h c)) :: u32)
                     in if pid = 0 \<or> pidfd < 0 then [] else [(pid, pidfd)]))"

fun children_of :: "system \<Rightarrow> syscall list \<Rightarrow> syscall list \<Rightarrow> (pid \<times> fd) list" where
  "children_of w h [] = []"
| "children_of w h (c # cs) = child_of w h c @ children_of w (h @ [c]) cs"

lemma children_append: "children_of w h (cs @ ds) = children_of w h cs @ children_of w (h @ cs) ds"
  by (induction cs arbitrary: h) simp_all

lemma no_children: "list_all not_clone cs \<Longrightarrow> children_of w h cs = []"
  by (induction cs arbitrary: h) (simp_all add: child_of_def)

text \<open>Sending \<open>SIGKILL\<close> to a child, and waiting for it to end.\<close>

definition kill_of :: "pid \<times> fd \<Rightarrow> syscall" where
  "kill_of p = Proc (PidfdSendSignal (snd p) SIGKILL)"

definition wait_of :: "pid \<times> fd \<Rightarrow> syscall" where
  "wait_of p = Proc (Waitpid (fst p) 0)"

text \<open>
  All children started from \<open>w\<close> on have been waited for after the last of them was started; with \<open>killed\<close>, each was also sent
  \<open>SIGKILL\<close> then.
\<close>

definition all_reaped :: "bool \<Rightarrow> system \<Rightarrow> system \<Rightarrow> bool" where
  "all_reaped killed w v \<longleftrightarrow> (\<exists>ds es. v = after_calls w (ds @ es) \<and> list_all not_clone es \<and>
     (\<forall>p \<in> set (children_of w (calls w) ds). wait_of p \<in> set es \<and> (killed \<longrightarrow> kill_of p \<in> set es)))"

lemma all_reaped_more:
  assumes "all_reaped k w v" "v' = after_calls v cs" "list_all not_clone cs"
  shows "all_reaped k w v'"
proof -
  obtain ds es where a: "v = after_calls w (ds @ es)" "list_all not_clone es"
    "\<forall>p \<in> set (children_of w (calls w) ds). wait_of p \<in> set es \<and> (k \<longrightarrow> kill_of p \<in> set es)"
    using assms(1) by (auto simp: all_reaped_def)
  have "v' = after_calls w (ds @ es @ cs)"
    using a(1) assms(2) by simp
  then show ?thesis
    unfolding all_reaped_def using a(2,3) assms(3) by (metis Un_iff list_all_append set_append)
qed

lemma all_reaped_issues: "all_reaped k w v \<Longrightarrow> issues not_clone m \<Longrightarrow> m v = Some (r, v') \<Longrightarrow> all_reaped k w v'"
  using issuesD [of not_clone m v r v'] all_reaped_more [of k w v v'] by blast

section \<open>Signals and waits\<close>

text \<open>A step that makes one call and whose result is ignored.\<close>

lemma for_each_calls:
  assumes "\<And>x v. \<exists>r. m x v = Some (r, after_calls v [c x])"
  shows "for_each (\<lambda>x. ignoring (m x)) xs v = Some (Inr (), after_calls v (map c xs))"
proof (induction xs arbitrary: v)
  case (Cons x xs)
  obtain r where "m x v = Some (r, after_calls v [c x])"
    using assms by blast
  then show ?case
    using Cons.IH [of "after_calls v [c x]"] by (simp add: and_then_def bnd_def ignoring_run)
qed (simp add: running)

lemma wait_pid_call: "\<exists>r. wait_pid pid nohang v = Some (r, after_calls v [Proc (Waitpid pid (if nohang then WNOHANG else 0))])"
  by (auto simp: wait_pid_def bnd_def attempt_def running split: sum.splits)

lemma kill_call: "\<exists>r. pidfd_send_signal f s v = Some (r, after_calls v [Proc (PidfdSendSignal f s)])"
  by (simp add: pidfd_send_signal_def running)

definition handle :: "data_plane_worker \<Rightarrow> pid \<times> fd" where
  "handle wk = (dw_pid wk, dw_pidfd wk)"

lemma kills_run:
  "for_each (\<lambda>wk. ignoring (pidfd_send_signal (dw_pidfd wk) SIGKILL)) ws v = Some (Inr (), after_calls v (map kill_of (map handle ws)))"
  using for_each_calls [of "\<lambda>wk. pidfd_send_signal (dw_pidfd wk) SIGKILL" "\<lambda>wk. kill_of (handle wk)" ws v] kill_call
  by (simp add: kill_of_def handle_def comp_def)

lemma waits_run:
  "for_each (\<lambda>wk. ignoring (wait_pid (dw_pid wk) False)) ws v = Some (Inr (), after_calls v (map wait_of (map handle ws)))"
  using for_each_calls [of "\<lambda>wk. wait_pid (dw_pid wk) False" "\<lambda>wk. wait_of (handle wk)" ws v] wait_pid_call [of _ False]
  by (simp add: wait_of_def handle_def comp_def)

lemma guard_runs:
  "for_each (\<lambda>(pid, pidfd). ignoring (pidfd_send_signal pidfd SIGKILL)) ps v = Some (Inr (), after_calls v (map kill_of ps))"
  "for_each (\<lambda>(pid, pidfd). ignoring (wait_pid pid False)) ps v = Some (Inr (), after_calls v (map wait_of ps))"
  using for_each_calls [of "\<lambda>p. pidfd_send_signal (snd p) SIGKILL" kill_of ps v] kill_call
    for_each_calls [of "\<lambda>p. wait_pid (fst p) False" wait_of ps v] wait_pid_call [of _ False]
  by (simp_all add: kill_of_def wait_of_def case_prod_beta')

lemma ignoring_calls:
  "ignoring (pidfd_send_signal f SIGKILL) v = Some (Inr (), after_calls v [kill_of (p, f)])"
  "ignoring (wait_pid p False) v = Some (Inr (), after_calls v [wait_of (p, f)])"
  using kill_call [of f SIGKILL v] wait_pid_call [of p False v] ignoring_run by (auto simp: kill_of_def wait_of_def)

lemma kill_dataplanes_run:
  "kill_dataplanes ws v = Some (Inr (), after_calls v (map kill_of (map handle ws) @ map wait_of (map handle ws)))"
  unfolding kill_dataplanes_def by (simp only: and_then_ok [OF kills_run] waits_run after_calls_simps)

lemma guard_drop_run:
  "guard_drop (guard_new ws p f) v = Some (Inr (), after_calls v
     (map kill_of (map handle ws) @ [kill_of (p, f)] @ map wait_of (map handle ws) @ [wait_of (p, f)]))"
  by (simp add: guard_drop_def guard_new_def and_then_def bnd_def guard_runs ignoring_calls [where p = p and f = f] handle_def [abs_def] comp_def)

lemma not_clone_signals [simp]: "not_clone (kill_of p)" "not_clone (wait_of p)"
  by (simp_all add: not_clone_def kill_of_def wait_of_def)

lemma reaped_by:
  assumes "v = after_calls w ds" "set (children_of w (calls w) ds) \<subseteq> set ps" "list_all not_clone es"
    "wait_of ` set ps \<subseteq> set es" "k \<longrightarrow> kill_of ` set ps \<subseteq> set es"
  shows "all_reaped k w (after_calls v es)"
  unfolding all_reaped_def
proof (rule exI [of _ ds], rule exI [of _ es], intro conjI ballI impI)
  show "after_calls v es = after_calls w (ds @ es)"
    using assms(1) by simp
  fix p
  assume "p \<in> set (children_of w (calls w) ds)"
  then have p: "p \<in> set ps"
    using assms(2) by blast
  then show "wait_of p \<in> set es"
    using assms(4) by blast
  show "k \<Longrightarrow> kill_of p \<in> set es"
    using assms(5) p by blast
qed (rule assms(3))

section \<open>Everything but starting children\<close>

lemma not_clone_simps [simp]: "not_clone (Limit a)" "not_clone (Mnt b)" "not_clone (File c)" "not_clone (Io d)" "not_clone (Sock e)"
  "not_clone (Msg f)" "not_clone (Proc (Waitpid p n))" "not_clone (Proc (PidfdSendSignal g n))" "not_clone (Proc (Sleep t))"
  "not_clone (Proc Getpid)" "not_clone (Proc Getuid)" "not_clone (Proc Getgid)" "\<not> not_clone (Proc (Clone3 fl))"
  by (simp_all add: not_clone_def)

lemma quiet_lib [issued]:
  "issues not_clone seqpacket_pair" "issues not_clone (send_packet f p)" "issues not_clone (recv_packet f n)"
  "issues not_clone (wait_pid pid nohang)" "issues not_clone (pidfd_send_signal g sg)" "issues not_clone (signalfd_read f)"
  "issues not_clone (set_nonblocking f e)" "issues not_clone set_no_new_privs" "issues not_clone (install d a gen pr)"
  "issues not_clone (control_send f k rid body)" "issues not_clone (control_receive f n)" "issues not_clone (control_expect f k)"
  "issues not_clone (env_is d var val)" "issues not_clone (forbidden_call hit)" "issues not_clone (expect_ready f role)"
  "issues not_clone (write_identity_maps pid)" "issues not_clone (kill_children ws nf np)"
  unfolding seqpacket_pair_def send_packet_def recv_packet_def wait_pid_def pidfd_send_signal_def signalfd_read_def
    set_nonblocking_def set_no_new_privs_def install_def traced_def TRACE_VARIABLE_def control_send_def control_receive_def control_expect_def env_is_def forbidden_call_def expect_ready_def
    write_identity_maps_def kill_children_def Let_def
  by (auto intro!: issued split: option.splits sum.splits prod.splits control_kind.splits)

lemma quiet_instance [issued]:
  "issues not_clone (persist json i)" "issues not_clone (with_metadata json i m)" "issues not_clone (update_children json i ps p)"
  "issues not_clone (set_target_pid json i p)" "issues not_clone (set_state json i st)" "issues not_clone (instance_drop json i)"
  "issues not_clone (write_resolv_conf i text)"
proof -
  show p: "issues not_clone (persist json i)" for i
    unfolding persist_def Let_def by (auto intro!: issued split: option.splits)
  show m: "issues not_clone (with_metadata json i m)" for i m
    unfolding with_metadata_def Let_def by (intro issued p)
  show "issues not_clone (update_children json i ps p)" "issues not_clone (set_target_pid json i p)" "issues not_clone (set_state json i st)"
    unfolding update_children_def set_target_pid_def set_state_def by (auto intro!: issued m)
  show "issues not_clone (instance_drop json i)" "issues not_clone (write_resolv_conf i text)"
    unfolding instance_drop_def write_resolv_conf_def Let_def by (auto intro!: issued split: sum.splits)
qed

lemma quiet_shutdown [issued]: "issues not_clone (shutdown_dataplanes ws)" "issues not_clone (wait_dataplanes ws)"
  unfolding shutdown_dataplanes_def wait_dataplanes_def by (auto intro!: issued split: sum.splits)

lemma quiet_supervision [issued]:
  "issues not_clone (query_worker_metrics J n f)" "issues not_clone (query_dataplane_metrics J ws)"
  "issues not_clone (serve_client fmt J i ws f)" "issues not_clone (serve_status fmt J i ws)"
  "issues not_clone (forward_signals f (pidfd_send_signal g))" "issues not_clone (check_workers ws np nf rest)"
proof -
  show q: "issues not_clone (query_worker_metrics J n f)" for n f
    unfolding query_worker_metrics_def Let_def by (auto intro!: issued split: sum.splits option.splits)
  show d: "issues not_clone (query_dataplane_metrics J ws)"
    unfolding query_dataplane_metrics_def by (auto intro!: issued q split: prod.splits)
  show c: "issues not_clone (serve_client fmt J i ws f)" for f
    unfolding serve_client_def by (auto intro!: issued d split: option.splits)
  show "issues not_clone (serve_status fmt J i ws)"
    unfolding serve_status_def by (auto intro!: issued c split: sum.splits)
  show "issues not_clone (forward_signals f (pidfd_send_signal g))"
    unfolding forward_signals_def by (auto intro!: issued split: option.splits)
  show "issues not_clone (check_workers ws np nf rest)"
    by (induction rest) (auto intro!: issued)
qed

lemma quiet_branches [issued]: "issues not_clone (watch_children ws np nf)" "issues not_clone (target_exited ws np m)"
  unfolding watch_children_def target_exited_def by (auto intro!: issued)

lemma quiet_running [issued]: "issues not_clone (supervise_iteration b i sg nc ws np nf)" "issues not_clone (supervise_running b i sg nc ws np nf)"
proof -
  show "issues not_clone (supervise_iteration b i sg nc ws np nf)"
    unfolding supervise_iteration_def by (auto intro!: issued split: sum.splits)
  then show "issues not_clone (supervise_running b i sg nc ws np nf)"
    unfolding supervise_running_def by (intro issued)
qed

lemma quiet_children [issued]: "issues not_clone (start_children b l i hit nc ws np nf)" "issues not_clone (run_children b l i hit sg nc ws np nf)"
proof -
  show "issues not_clone (start_children b l i hit nc ws np nf)"
    unfolding start_children_def or_kill_def Let_def by (auto intro!: issued split: sum.splits)
  then show "issues not_clone (run_children b l i hit sg nc ws np nf)"
    unfolding run_children_def by (auto intro!: issued)
qed

section \<open>Starting children\<close>

lemma clone_outcome:
  assumes "clone_namespaced flags v = Some (r, v')"
  shows "v' = after_calls v [Proc (Clone3 (flags OR CLONE_PIDFD))]"
    and "r = Inr (CloneParent p f) \<Longrightarrow> child_of v (calls v) (Proc (Clone3 (flags OR CLONE_PIDFD))) = [(p, f)]"
    and "r = Inl e \<Longrightarrow> child_of v (calls v) (Proc (Clone3 (flags OR CLONE_PIDFD))) = []"
  using assms by (auto simp: clone_namespaced_def outcome child_of_def Let_def split: if_splits)

lemma exit_none [simp]: "exit_immediately c v = None"
  by (simp add: exit_immediately_def bnd_def never_def attempt_def perform_run)

lemma children_never [simp]: "data_plane_child b cf tc sb c v = None" "namespace_child b cf tcs l rc v = None"
  by (auto simp: data_plane_child_def namespace_child_def namespace_report_def bnd_def and_then_def attempt_def ignoring_def ok_def split: option.splits sum.splits)

lemma children_of_same: "sys_ret v = sys_ret w \<Longrightarrow> sys_out v = sys_out w \<Longrightarrow> sys_big v = sys_big w \<Longrightarrow> child_of v h c = child_of w h c"
  by (simp add: child_of_def split: sum.split)

text \<open>The workers recorded so far are the children started so far.\<close>

definition tracked :: "system \<Rightarrow> data_plane_worker list \<Rightarrow> system \<Rightarrow> bool" where
  "tracked w ws v \<longleftrightarrow> (\<exists>ds. v = after_calls w ds \<and> children_of w (calls w) ds = map handle ws)"

lemma tracked_quiet:
  assumes "tracked w ws v" "issues not_clone m" "m v = Some (r, v')"
  shows "tracked w ws v'"
proof -
  obtain ds where ds: "v = after_calls w ds" "children_of w (calls w) ds = map handle ws"
    using assms(1) by (auto simp: tracked_def)
  obtain cs where "v' = after_calls v cs" "list_all not_clone cs"
    using issuesD [OF assms(2,3)] by blast
  then show ?thesis
    unfolding tracked_def using ds by (intro exI [of _ "ds @ cs"]) (simp add: children_append no_children)
qed

lemma tracked_clone:
  assumes "tracked w ws v" "clone_namespaced flags v = Some (r, v')"
  shows "r = Inl e \<Longrightarrow> tracked w ws v'"
    and "r = Inr (CloneParent p f) \<Longrightarrow> tracked w (ws @ [\<lparr>dw_pid = p, dw_pidfd = f, dw_control = c\<rparr>]) v'"
proof -
  let ?c = "Proc (Clone3 (flags OR CLONE_PIDFD))"
  obtain ds where ds: "v = after_calls w ds" "children_of w (calls w) ds = map handle ws"
    using assms(1) by (auto simp: tracked_def)
  have v': "v' = after_calls w (ds @ [?c])" and same: "child_of v (calls v) ?c = child_of w (calls w @ ds) ?c"
    using clone_outcome(1) [OF assms(2)] ds(1) children_of_same [of v w] by simp_all
  show "r = Inl e \<Longrightarrow> tracked w ws v'"
    using clone_outcome(3) [OF assms(2)] ds(2) same unfolding tracked_def v'
    by (intro exI [of _ "ds @ [?c]"]) (simp add: children_append)
  show "r = Inr (CloneParent p f) \<Longrightarrow> tracked w (ws @ [\<lparr>dw_pid = p, dw_pidfd = f, dw_control = c\<rparr>]) v'"
    using clone_outcome(2) [OF assms(2)] ds(2) same unfolding tracked_def v'
    by (intro exI [of _ "ds @ [?c]"]) (simp add: children_append handle_def)
qed

lemma killed_when_tracked:
  assumes "tracked w ws v" "and_then (kill_dataplanes ws) (err e) v = Some (r, v')"
  shows "r = Inl e" "all_reaped True w v'"
proof -
  obtain ds where ds: "v = after_calls w ds" "children_of w (calls w) ds = map handle ws"
    using assms(1) by (auto simp: tracked_def)
  let ?es = "map kill_of (map handle ws) @ map wait_of (map handle ws)"
  have "r = Inl e" "v' = after_calls v ?es"
    using assms(2) by (simp_all add: and_then_def bnd_def kill_dataplanes_run running)
  moreover have "list_all not_clone ?es"
    by (auto simp: list_all_iff)
  ultimately show "r = Inl e" "all_reaped True w v'"
    using reaped_by [OF ds(1), where ps = "map handle ws" and es = ?es and k = True] ds(2) by (simp_all add: image_image)
qed

lemma quiet_dataplane_of [issued]: "issues not_clone (dataplane_of l i)"
  unfolding dataplane_of_def by (auto intro!: issued split: option.splits)

lemma seqpacket_returns: "\<exists>r v'. seqpacket_pair v = Some (r, v')"
  by (cases "sys_ret v (calls v) (Sock (Socketpair AF_UNIX SOCK_SEQPACKET_CLOEXEC))")
    (auto simp: seqpacket_pair_def bnd_def running)

lemma clone_returns: "\<exists>r v'. clone_namespaced flags v = Some (r, v')"
  by (cases "sys_ret v (calls v) (Proc (Clone3 (flags OR CLONE_PIDFD)))") (auto simp: clone_namespaced_def bnd_def running Let_def)

lemma spawn_outcome:
  "spawn_workers b l idx ws taps v = Some (r, v') \<Longrightarrow> tracked w ws v \<Longrightarrow>
     (case r of Inl e \<Rightarrow> all_reaped True w v' | Inr (ws', taps') \<Rightarrow> tracked w ws' v')"
proof (induction idx arbitrary: ws taps v)
  case Nil
  then show ?case
    by (simp add: outcome)
next
  case (Cons i idx)
  note quiet = tracked_quiet [OF _ quiet_lib(1)] tracked_quiet [OF _ quiet_dataplane_of]
  note fails = killed_when_tracked [where w = w and ws = ws]
  obtain r1 v1 where s1: "seqpacket_pair v = Some (r1, v1)"
    using seqpacket_returns by blast
  note t1 = quiet(1) [OF Cons.prems(2) s1]
  show ?case
  proof (cases r1)
    case (Inl e)
    then have "and_then (kill_dataplanes ws) (err (IoFailed e)) v1 = Some (r, v')"
      using Cons.prems(1) s1 by (simp add: bnd_def attempt_def)
    from fails [OF t1 this] show ?thesis
      by simp
  next
    case one: (Inr q1)
    obtain r2 v2 where s2: "seqpacket_pair v1 = Some (r2, v2)"
      using seqpacket_returns by blast
    note t2 = quiet(1) [OF t1 s2]
    show ?thesis
    proof (cases r2)
      case (Inl e)
      then have "and_then (kill_dataplanes ws) (err (IoFailed e)) v2 = Some (r, v')"
        using Cons.prems(1) s1 s2 one by (simp add: bnd_def attempt_def split: prod.splits)
      from fails [OF t2 this] show ?thesis
        by simp
    next
      case two: (Inr q2)
      obtain c where c: "dataplane l i = Some c"
        using Cons.prems(1) s1 s2 one two by (cases "dataplane l i") (simp_all add: bnd_def attempt_def dataplane_of_def never_def split: prod.splits)
      obtain r3 v3 where s3: "clone_namespaced COMMON_NAMESPACES v2 = Some (r3, v3)"
        using clone_returns by blast
      note steps = s1 s2 one two c s3
      show ?thesis
      proof (cases r3)
        case (Inl e)
        then have "and_then (kill_dataplanes ws) (err (IoFailed e)) v3 = Some (r, v')"
          using Cons.prems(1) steps by (simp add: bnd_def attempt_def dataplane_of_def ok_def split: prod.splits)
        from fails [OF tracked_clone(1) [OF t2 s3 Inl] this] show ?thesis
          by simp
      next
        case (Inr cl)
        then obtain p f where cl: "cl = CloneParent p f"
          using Cons.prems(1) steps by (cases cl) (simp_all add: bnd_def attempt_def dataplane_of_def ok_def split: prod.splits)
        have "spawn_workers b l idx (ws @ [\<lparr>dw_pid = p, dw_pidfd = f, dw_control = fst q1\<rparr>]) (taps @ [snd q2]) v3 = Some (r, v')"
          using Cons.prems(1) steps Inr cl by (simp add: bnd_def attempt_def dataplane_of_def ok_def split: prod.splits)
        from Cons.IH [OF this tracked_clone(2) [OF t2 s3]] show ?thesis
          using Inr cl by simp
      qed
    qed
  qed
qed

section \<open>The end of the supervision\<close>

text \<open>A successful \<open>supervise_running\<close> ends by waiting for the namespace and for every worker.\<close>

lemma shutdown_returns: "\<exists>cs. shutdown_dataplanes ws v = Some (Inr (), after_calls v cs) \<and> list_all not_clone cs"
proof -
  have "for_each (\<lambda>wk. ignoring (send_packet (dw_control wk) m)) ws v =
      Some (Inr (), after_calls v (map (\<lambda>wk. Msg (Send (dw_control wk) m MSG_NOSIGNAL)) ws))" for m
    by (rule for_each_calls) (auto simp: send_packet_def bnd_def running split: sum.splits)
  note sends = this
  show ?thesis
  proof (cases "encode_io Shutdown 3 []")
    case (Inl e)
    then show ?thesis
      by (auto simp: shutdown_dataplanes_def running intro!: exI [of _ "[]"])
  next
    case (Inr m)
    then show ?thesis
      using sends [of m] by (auto simp: shutdown_dataplanes_def list_all_iff
        intro!: exI [of _ "map (\<lambda>wk. Msg (Send (dw_control wk) m MSG_NOSIGNAL)) ws"])
  qed
qed

lemma target_exited_waits:
  assumes "target_exited ws np m v = Some (Inr x, v')"
  shows "\<exists>cs. v' = after_calls v cs \<and> wait_of (np, nf) \<in> set cs \<and> wait_of ` set (map handle ws) \<subseteq> set cs"
proof -
  obtain cs where cs: "(shutdown_dataplanes ws :: (supervisor_error, unit) prog) v = Some (Inr (), after_calls v cs)"
    using shutdown_returns by blast
  have "v' = after_calls v (cs @ wait_of (np, nf) # map wait_of (map handle ws))"
    using assms
    by (auto simp: target_exited_def wait_dataplanes_def and_then_def bnd_def cs waits_run ignoring_calls(2) [where f = nf] running split: if_splits)
  then show ?thesis
    by auto
qed

lemma watch_no_exit: "watch_children ws np nf v = Some (Inr x, v') \<Longrightarrow> x = Inr ()"
  by (auto simp: watch_children_def outcome split: if_splits)

lemma iteration_parts:
  assumes "supervise_iteration b i sg nc ws np nf v = Some (Inr (Inl code), v')"
  obtains v2 m v3 cs where "v2 = after_calls v cs" "control_receive nc CONTROL_BUFFER v2 = Some (Inr m, v3)" "msg_kind m = Exit"
    "target_exited ws np m v3 = Some (Inr (Inl code), v')"
proof -
  obtain v1 v2 r v3 where steps: "convert IoFailed (forward_signals sg (pidfd_send_signal nf)) v = Some (Inr (), v1)"
      "convert IoFailed (serve_status (metadata_format b) (json_library b) i ws) v1 = Some (Inr (), v2)"
      "control_receive nc CONTROL_BUFFER v2 = Some (r, v3)"
      "(case r of Inr m \<Rightarrow> if msg_kind m = Exit then target_exited ws np m
          else if msg_kind m = Error then err (NamespaceFailed (msg_payload m)) else watch_children ws np nf
        | Inl e \<Rightarrow> if error_kind e = IoWouldBlock then watch_children ws np nf
          else if error_kind e = IoUnexpectedEof then err (NamespaceFailed (lit ''control channel closed'')) else err (IoFailed e)) v3
       = Some (Inr (Inl code), v')"
    using assms unfolding supervise_iteration_def by (auto simp: and_then_outcome bnd_outcome attempt_outcome)
  obtain c1 where c1: "v1 = after_calls v c1"
    using issuesD [OF issues_convert [OF quiet_supervision(5)] steps(1)] by blast
  obtain c2 where c2: "v2 = after_calls v1 c2"
    using issuesD [OF issues_convert [OF quiet_supervision(4)] steps(2)] by blast
  have no: "watch_children ws np nf v3 = Some (Inr (Inl code), v') \<Longrightarrow> False"
    using watch_no_exit by blast
  obtain m where m: "r = Inr m" "msg_kind m = Exit" "target_exited ws np m v3 = Some (Inr (Inl code), v')"
    using steps(4) no by (cases r) (auto simp: outcome split: if_splits)
  show ?thesis
    using that [of v2 "c1 @ c2" m v3] steps(3) m c1 c2 by simp
qed

lemma iteration_exit:
  assumes "supervise_iteration b i sg nc ws np nf v = Some (Inr (Inl code), v')"
  shows "\<exists>cs. v' = after_calls v cs \<and> wait_of (np, nf) \<in> set cs \<and> wait_of ` set (map handle ws) \<subseteq> set cs"
proof -
  from iteration_parts [OF assms] obtain v2 m v3 cs where parts: "v2 = after_calls v cs"
    "control_receive nc CONTROL_BUFFER v2 = Some (Inr m, v3)" "target_exited ws np m v3 = Some (Inr (Inl code), v')"
    by metis
  obtain c3 where c3: "v3 = after_calls v2 c3"
    using issuesD [OF quiet_lib(11) parts(2)] by blast
  obtain ds where "v' = after_calls v3 ds" "wait_of (np, nf) \<in> set ds" "wait_of ` set (map handle ws) \<subseteq> set ds"
    using target_exited_waits [OF parts(3)] by blast
  then show ?thesis
    using parts(1) c3 by (intro exI [of _ "cs @ c3 @ ds"]) auto
qed

text \<open>
  The message that ended a supervision: a packet that the supervisor received on the descriptor \<open>f\<close> and that decodes to an exit
  message with this code.
\<close>

definition exit_received :: "fd \<Rightarrow> system \<Rightarrow> system \<Rightarrow> int \<Rightarrow> bool" where
  "exit_received f w v code \<longleftrightarrow> (\<exists>ds es m. let c = Msg (Recv f CONTROL_BUFFER 0) in
     v = after_calls w (ds @ c # es) \<and> control_decode (take CONTROL_BUFFER (sys_out w (calls w @ ds) c)) = Inr m \<and>
     msg_kind m = Exit \<and> length (msg_payload m) = 4 \<and> code = sint (from_le (msg_payload m) :: u32))"

lemma exit_received_within:
  assumes "exit_received f v x code" "v = after_calls w cs" "y = after_calls x ds"
  shows "exit_received f w y code"
proof -
  obtain bs es m where a: "x = after_calls v (bs @ Msg (Recv f CONTROL_BUFFER 0) # es)"
    "control_decode (take CONTROL_BUFFER (sys_out v (calls v @ bs) (Msg (Recv f CONTROL_BUFFER 0)))) = Inr m" "msg_kind m = Exit"
    "length (msg_payload m) = 4" "code = sint (from_le (msg_payload m) :: u32)"
    using assms(1) by (auto simp: exit_received_def Let_def)
  show ?thesis
    unfolding exit_received_def Let_def
    by (rule exI [of _ "cs @ bs"], rule exI [of _ "es @ ds"], rule exI [of _ m]) (use a assms(2,3) in simp)
qed

lemma receive_reported:
  assumes "control_receive nc CONTROL_BUFFER v = Some (Inr m, v1)" "msg_kind m = Exit" "target_exited ws np m v1 = Some (Inr (Inl code), v2)"
  shows "exit_received nc v v2 code"
proof -
  let ?c = "Msg (Recv nc CONTROL_BUFFER 0)"
  have m: "control_decode (take CONTROL_BUFFER (sys_out v (calls v) ?c)) = Inr m" "v1 = after_calls v [?c]"
    using assms(1) by (auto simp: control_receive_def recv_packet_def outcome decode_io_def map_sum_def split: if_splits sum.splits)
  have "length (msg_payload m) = 4" "code = sint (from_le (msg_payload m) :: u32)"
    using assms(3) by (auto simp: target_exited_def outcome split: if_splits)
  moreover obtain es where "v2 = after_calls v1 es"
    using issuesD [OF quiet_branches(2) assms(3)] by blast
  ultimately show ?thesis
    unfolding exit_received_def Let_def using m assms(2)
    by (intro exI [of _ "[]"] exI [of _ es] exI [of _ m]) simp
qed

lemma supervised_reaps:
  assumes "supervise_running b i sg nc ws np nf v = Some (Inr code, v')"
  shows "\<exists>cs. v' = after_calls v cs \<and> list_all not_clone cs \<and> wait_of (np, nf) \<in> set cs \<and> wait_of ` set (map handle ws) \<subseteq> set cs"
    and "exit_received nc v v' code"
proof -
  let ?waits = "\<lambda>x. \<exists>cs. x = after_calls v cs \<and> wait_of (np, nf) \<in> set cs \<and> wait_of ` set (map handle ws) \<subseteq> set cs"
  have main: "\<forall>c. r = Inr c \<longrightarrow> ?waits x \<and> exit_received nc v x c" if "supervise_running b i sg nc ws np nf v = Some (r, x)" for r x
    using that unfolding supervise_running_def
  proof (rule looping_rule [where I = "\<lambda>_ y. \<exists>cs. y = after_calls v cs"], goal_cases)
    case 1
    show ?case by (rule exI [of _ "[]"]) simp
  next
    case (2 u y u' z)
    then obtain cs ds where "y = after_calls v cs" "z = after_calls y ds"
      using issuesD [OF quiet_running(1) 2(2)] by blast
    then show ?case by auto
  next
    case (3 u y c z)
    then obtain cs where cs: "y = after_calls v cs" by blast
    obtain ds where ds: "z = after_calls y ds" "wait_of (np, nf) \<in> set ds" "wait_of ` set (map handle ws) \<subseteq> set ds"
      using iteration_exit [OF 3(2)] by blast
    from iteration_parts [OF 3(2)] obtain v2 m v3 es where parts: "v2 = after_calls y es"
      "control_receive nc CONTROL_BUFFER v2 = Some (Inr m, v3)" "msg_kind m = Exit" "target_exited ws np m v3 = Some (Inr (Inl c), z)"
      by metis
    have "exit_received nc v z c"
      using exit_received_within [OF receive_reported [OF parts(2-4)], of v "cs @ es" z "[]"] parts(1) cs by simp
    moreover have "?waits z"
      using cs ds by (intro exI [of _ "cs @ ds"]) auto
    ultimately show ?case by simp
  qed simp
  from main [OF assms] show "exit_received nc v v' code"
    by simp
  from main [OF assms] obtain cs where cs: "v' = after_calls v cs" "wait_of (np, nf) \<in> set cs" "wait_of ` set (map handle ws) \<subseteq> set cs"
    by auto
  obtain ds where "v' = after_calls v ds" "list_all not_clone ds"
    using issuesD [OF quiet_running(2) assms] by blast
  then show "\<exists>cs. v' = after_calls v cs \<and> list_all not_clone cs \<and> wait_of (np, nf) \<in> set cs \<and> wait_of ` set (map handle ws) \<subseteq> set cs"
    using cs by auto
qed

section \<open>No child is left behind\<close>

text \<open>
  What a supervisor that was started in \<open>w\<close> owes on every way out, where \<open>f\<close> is its end of the control channel of the namespace init
  process. It fails without having killed the children only when the last step, recording the state \<open>exited\<close>, fails.
\<close>

definition accounted_on :: "'j build \<Rightarrow> fd \<Rightarrow> system \<Rightarrow> supervisor_error + int \<Rightarrow> system \<Rightarrow> bool" where
  "accounted_on b f w r v \<longleftrightarrow> all_reaped False w v \<and>
     (case r of
        Inr code \<Rightarrow> exit_received f w v code
      | Inl e \<Rightarrow> all_reaped True w v \<or>
          (\<exists>code i e' v1 v2. exit_received f w v1 code \<and> set_state (metadata_format b) i (lit ''exited'') v1 = Some (Inl e', v2) \<and>
             follows v2 v \<and> e = IoFailed e'))"

text \<open>
  That end is the first descriptor of the first socket pair made since \<open>w\<close>; the second one is the end that the namespace init process uses.
\<close>

definition PAIR :: syscall where
  "PAIR = Sock (Socketpair AF_UNIX SOCK_SEQPACKET_CLOEXEC)"

definition namespace_channel :: "system \<Rightarrow> system \<Rightarrow> fd \<Rightarrow> bool" where
  "namespace_channel w v f \<longleftrightarrow> (\<exists>ds es. v = after_calls w (ds @ PAIR # es) \<and> PAIR \<notin> set ds \<and>
     f = sint (from_ne (sys_big w) (subslice 0 4 (sys_out w (calls w @ ds) PAIR)) :: u32))"

definition accounted :: "'j build \<Rightarrow> system \<Rightarrow> supervisor_error + int \<Rightarrow> system \<Rightarrow> bool" where
  "accounted b w r v \<longleftrightarrow> isl r \<and> all_reaped True w v \<or> (\<exists>f. namespace_channel w v f \<and> accounted_on b f w r v)"

lemma reaped_weaken: "all_reaped True w v \<Longrightarrow> all_reaped k w v"
  by (auto simp: all_reaped_def)

lemma accounted_killed: "all_reaped True w v \<Longrightarrow> accounted b w (Inl e) v" "all_reaped True w v \<Longrightarrow> accounted_on b f w (Inl e) v"
  by (simp_all add: accounted_def accounted_on_def reaped_weaken)

lemma accounted_on_more:
  assumes "accounted_on b f w r v" "issues not_clone m" "m v = Some (x, v')"
  shows "accounted_on b f w r v'"
proof -
  obtain cs where cs: "v' = after_calls v cs"
    using issuesD [OF assms(2,3)] by blast
  then have "follows v v'"
    by (auto simp: follows_def)
  moreover have "exit_received f w v code \<Longrightarrow> exit_received f w v' code" for code
    using exit_received_within [of f w v code w "[]" v' cs] cs by simp
  ultimately show ?thesis
    using assms(1) all_reaped_issues [OF _ assms(2,3)] follows_trans unfolding accounted_on_def
    by (cases r) (simp_all, blast)
qed

lemma accounted_more:
  assumes "accounted b w r v" "issues not_clone m" "m v = Some (x, v')"
  shows "accounted b w r v'"
proof -
  obtain cs where cs: "v' = after_calls v cs"
    using issuesD [OF assms(2,3)] by blast
  have "namespace_channel w v f \<Longrightarrow> namespace_channel w v' f" for f
    unfolding namespace_channel_def using cs by fastforce
  then show ?thesis
    using assms(1) all_reaped_issues [OF _ assms(2,3)] accounted_on_more [OF _ assms(2,3)] unfolding accounted_def by blast
qed

lemma run_guarded_accounted:
  assumes t: "tracked w (ws @ [\<lparr>dw_pid = np, dw_pidfd = nf, dw_control = c\<rparr>]) v"
    and run: "run_guarded b l i hit sg nc ws np nf v = Some (r, v')"
  shows "accounted_on b nc w r v'"
proof -
  obtain ds where ds: "v = after_calls w ds" "children_of w (calls w) ds = map handle ws @ [(np, nf)]"
    using t by (auto simp: tracked_def handle_def)
  obtain x v1 where x: "run_children b l i hit sg nc ws np nf v = Some (x, v1)"
    using run by (auto simp: run_guarded_def outcome Let_def)
  obtain cs where cs: "v1 = after_calls v cs" "list_all not_clone cs"
    using issuesD [OF quiet_children(2) x] by blast
  note reaped = reaped_by [OF ds(1), where ps = "map handle ws @ [(np, nf)]"]
  show ?thesis
  proof (cases x)
    case (Inl e)
    let ?es = "map kill_of (map handle ws) @ [kill_of (np, nf)] @ map wait_of (map handle ws) @ [wait_of (np, nf)]"
    have "r = Inl e" "v' = after_calls v (cs @ ?es)"
      using run x by (auto simp: run_guarded_def Let_def bnd_def attempt_def and_then_def guard_drop_run running cs(1) Inl)
    moreover have "list_all not_clone (cs @ ?es)"
      using cs(2) by (auto simp: list_all_iff)
    ultimately have "all_reaped True w v'"
      using reaped [where es = "cs @ ?es" and k = True] ds(2) by (auto simp: image_image)
    then show ?thesis
      unfolding \<open>r = Inl e\<close> by (rule accounted_killed(2))
  next
    case (Inr y)
    obtain i' code where y: "y = (i', code)"
      by (cases y)
    obtain v0 c0 where v0: "supervise_running b i' sg nc ws np nf v0 = Some (Inr code, v1)" "v0 = after_calls v c0"
      using x issuesD [OF quiet_children(1)] unfolding run_children_def Inr y by (fastforce simp: outcome)
    obtain c1 where c1: "v1 = after_calls v (c0 @ c1)" "wait_of (np, nf) \<in> set c1" "wait_of ` set (map handle ws) \<subseteq> set c1"
      using supervised_reaps(1) [OF v0(1)] v0(2) by auto
    then have "cs = c0 @ c1"
      using cs(1) by simp
    then have a: "all_reaped False w v1"
      using reaped [where es = cs and k = False] ds(2) cs c1 by auto
    have e: "exit_received nc w v1 code"
      using exit_received_within [OF supervised_reaps(2) [OF v0(1)], of w "ds @ c0" v1 "[]"] v0(2) ds(1) by simp
    let ?finish = "ensuring (bnd (convert IoFailed (set_state (metadata_format b) i' (lit ''exited''))) (\<lambda>_. ok code))
               (guard_drop (guard_disarm (guard_new ws np nf)) :: (io_error, unit) prog)"
    have quiet: "issues not_clone ?finish"
      by (auto simp: guard_drop_def guard_disarm_def intro!: issued)
    have last: "?finish v1 = Some (r, v')"
      using run x by (simp add: run_guarded_def Let_def bnd_def attempt_def Inr y)
    have quiet_state: "issues not_clone (set_state (metadata_format b) i' (lit ''exited''))"
      by (intro issued)
    have reaped1: "all_reaped False w v'"
      using all_reaped_issues [OF a quiet last] .
    show ?thesis
    proof (cases r)
      case (Inr c)
      then have "c = code"
        using last by (auto simp: outcome map_sum_def split: sum.splits)
      moreover obtain d where "v' = after_calls v1 d"
        using issuesD [OF quiet last] by blast
      ultimately show ?thesis
        using exit_received_within [OF e, of w "[]"] reaped1 Inr by (simp add: accounted_on_def)
    next
      case (Inl e1)
      obtain e' v2 x where st: "set_state (metadata_format b) i' (lit ''exited'') v1 = Some (Inl e', v2)" "e1 = IoFailed e'"
        "(guard_drop (guard_disarm (guard_new ws np nf)) :: (io_error, unit) prog) v2 = Some (x, v')"
        using last Inl by (auto simp: outcome map_sum_def) (case_tac x; auto)+
      have "v' = v2"
        using st(3) by (simp add: guard_drop_def guard_disarm_def ok_outcome)
      then show ?thesis
        using reaped1 e st(1,2) follows_refl unfolding accounted_on_def Inl sum.case by blast
    qed
  qed
qed

text \<open>As long as no child exists, a failing step owes nothing.\<close>

lemma tracked_none:
  assumes "tracked w [] v"
  shows "all_reaped True w v"
proof -
  obtain ds where "v = after_calls w (ds @ [])" "children_of w (calls w) ds = []"
    using assms by (auto simp: tracked_def)
  then show ?thesis
    unfolding all_reaped_def by - (rule exI [of _ ds], rule exI [of _ "[]"], simp)
qed

text \<open>Calls that a supervisor makes before it has made a socket pair or a child.\<close>

definition early :: "syscall \<Rightarrow> bool" where
  "early c \<longleftrightarrow> not_clone c \<and> c \<noteq> PAIR"

definition started :: "system \<Rightarrow> system \<Rightarrow> bool" where
  "started w v \<longleftrightarrow> (\<exists>ds. v = after_calls w ds \<and> list_all early ds)"

lemma issues_early: "issues early m \<Longrightarrow> issues not_clone m"
  by (erule issues_weaken) (simp add: early_def)

lemma started_issues: "started w v \<Longrightarrow> issues early m \<Longrightarrow> m v = Some (r, v') \<Longrightarrow> started w v'"
  unfolding started_def using issuesD by (fastforce simp: list_all_append)

lemma started_tracked: "started w v \<Longrightarrow> tracked w [] v"
  unfolding started_def tracked_def using no_children by (auto simp: early_def list_all_iff)

lemma accounted_bnd:
  assumes "bnd m f v = Some (r, v')" "started w v" "issues early m"
    and "\<And>a v1. started w v1 \<Longrightarrow> f a v1 = Some (r, v') \<Longrightarrow> accounted b w r v'"
  shows "accounted b w r v'"
proof -
  consider e where "m v = Some (Inl e, v')" "r = Inl e" | a v1 where "m v = Some (Inr a, v1)" "f a v1 = Some (r, v')"
    using assms(1) by (auto simp: outcome)
  then show ?thesis
  proof cases
    case 1
    then show ?thesis
      using accounted_killed(1) [OF tracked_none [OF started_tracked [OF started_issues [OF assms(2,3) 1(1)]]]] by simp
  next
    case 2
    then show ?thesis
      using assms(4) started_issues [OF assms(2,3) 2(1)] by blast
  qed
qed

lemma accounted_and_then:
  assumes "and_then m k v = Some (r, v')" "started w v" "issues early m"
    and "\<And>v1. started w v1 \<Longrightarrow> k v1 = Some (r, v') \<Longrightarrow> accounted b w r v'"
  shows "accounted b w r v'"
  using accounted_bnd [OF assms(1) [unfolded and_then_def] assms(2,3)] assms(4) by blast

lemma namespace_started:
  assumes t: "tracked w ws v"
    and run: "bnd (attempt (clone_namespaced flags)) (\<lambda>r. case r of
            Inl e \<Rightarrow> and_then (kill_dataplanes ws) (err (IoFailed e))
          | Inr CloneChild \<Rightarrow> namespace_child b nc taps l conf
          | Inr (CloneParent pid pidfd) \<Rightarrow> run_guarded b l i hit sg np ws pid pidfd) v = Some (r, v')"
  shows "accounted_on b np w r v'"
proof -
  obtain u v4 where u: "clone_namespaced flags v = Some (u, v4)"
    using clone_returns by blast
  show ?thesis
  proof (cases u)
    case (Inl e)
    then have "and_then (kill_dataplanes ws) (err (IoFailed e)) v4 = Some (r, v')"
      using run u by (simp add: bnd_def attempt_def)
    from killed_when_tracked [OF tracked_clone(1) [OF t u Inl] this] show ?thesis
      using accounted_killed(2) by simp
  next
    case (Inr cl)
    then obtain p f where cl: "cl = CloneParent p f" and "run_guarded b l i hit sg np ws p f v4 = Some (r, v')"
      using run u by (cases cl) (simp_all add: bnd_def attempt_def)
    then show ?thesis
      using run_guarded_accounted [OF tracked_clone(2) [OF t u]] Inr by blast
  qed
qed

text \<open>The rest of \<open>run_instance\<close> once the channel of the namespace init process exists.\<close>

lemma workers_accounted:
  assumes t: "tracked w [] v"
    and run: "bnd (spawn_workers b l [0..<workers l] [] []) (\<lambda>x. bnd (attempt (clone_namespaced flags)) (\<lambda>r. case r of
            Inl e \<Rightarrow> and_then (kill_dataplanes (fst x)) (err (IoFailed e))
          | Inr CloneChild \<Rightarrow> namespace_child b nc (snd x) l' conf
          | Inr (CloneParent pid pidfd) \<Rightarrow> run_guarded b l' i hit sg np (fst x) pid pidfd)) v = Some (r, v')"
  shows "accounted_on b np w r v'"
proof -
  obtain z v3 where z: "spawn_workers b l [0..<workers l] [] [] v = Some (z, v3)"
    using run by (auto simp: bnd_outcome)
  show ?thesis
  proof (cases z)
    case (Inl e)
    then show ?thesis
      using run z spawn_outcome [OF z t] accounted_killed(2) by (auto simp: bnd_def)
  next
    case (Inr wt)
    have eq: "bnd (spawn_workers b l [0..<workers l] [] []) f v = f wt v3" for f :: "_ \<Rightarrow> (supervisor_error, int) prog"
      using z Inr by (simp add: bnd_ok)
    have "tracked w (fst wt) v3"
      using spawn_outcome [OF z t] by (simp add: case_prod_beta Inr)
    then show ?thesis
      by (rule namespace_started [OF _ run [unfolded eq]])
  qed
qed

lemma pair_outcome:
  "seqpacket_pair v = Some (r, v1) \<Longrightarrow> v1 = after_calls v [PAIR] \<and>
     (\<forall>f g. r = Inr (f, g) \<longrightarrow> f = sint (from_ne (sys_big v) (subslice 0 4 (sys_out v (calls v) PAIR)) :: u32))"
  by (auto simp: seqpacket_pair_def outcome PAIR_def)

lemma run_instance_accounted:
  assumes st: "started w v" and run: "run_instance b l hit sg i v = Some (r, v')"
  shows "accounted b w r v'"
proof -
  have t: "tracked w [] v"
    by (rule started_tracked [OF st])
  obtain x v1 where x: "seqpacket_pair v = Some (x, v1)"
    using run unfolding run_instance_def by (auto simp: bnd_outcome convert_outcome)
  have t1: "tracked w [] v1"
    by (rule tracked_quiet [OF t quiet_lib(1) x])
  note pair = pair_outcome [OF x]
  show ?thesis
  proof (cases x)
    case (Inl e)
    then have "convert IoFailed seqpacket_pair v = Some (Inl (IoFailed e), v1)"
      using x by (simp add: convert_run)
    from run [unfolded run_instance_def bnd_err [where m = "convert IoFailed seqpacket_pair", OF this]] have "r = Inl (IoFailed e)" "v' = v1"
      by simp_all
    then show ?thesis
      using accounted_killed(1) [OF tracked_none [OF t1]] by simp
  next
    case (Inr fg)
    obtain f g where fg: "fg = (f, g)"
      by (cases fg)
    let ?conf = "if dns_mode_of (dns l) \<noteq> DnsOff
          then bnd (convert IoFailed (write_resolv_conf i (gateway_resolv_conf (network l)))) (\<lambda>p. ok (Some p)) else ok None :: (supervisor_error, _) prog"
    have quiet: "issues not_clone ?conf"
      by (auto intro!: issued)
    let ?rest = "\<lambda>conf. bnd (spawn_workers b l [0..<workers l] [] []) (\<lambda>x. bnd (attempt (clone_namespaced (COMMON_NAMESPACES OR CLONE_NEWNET))) (\<lambda>r. case r of
            Inl e \<Rightarrow> and_then (kill_dataplanes (fst x)) (err (IoFailed e))
          | Inr CloneChild \<Rightarrow> namespace_child b g (snd x) (clear_proxy_credentials l) conf
          | Inr (CloneParent pid pidfd) \<Rightarrow> run_guarded b (clear_proxy_credentials l) i hit sg f (fst x) pid pidfd))"
    have rest: "bnd ?conf ?rest v1 = Some (r, v')"
    proof -
      have "convert IoFailed seqpacket_pair v = Some (Inr (f, g), v1)"
        using x by (simp add: convert_run Inr fg)
      from run [unfolded run_instance_def bnd_ok [where m = "convert IoFailed seqpacket_pair", OF this]] show ?thesis
        by (simp only: case_prod_beta' fst_conv snd_conv Let_def)
    qed
    have on: "accounted_on b f w0 r v'" if t0: "tracked w0 [] v1" for w0
      using rest unfolding bnd_outcome [of ?conf]
    proof (elim disjE exE conjE)
      fix e
      assume "?conf v1 = Some (Inl e, v')" "r = Inl e"
      then show ?thesis
        using tracked_none [OF tracked_quiet [OF t0 quiet]] accounted_killed(2) by blast
    next
      fix conf v2
      assume conf: "?conf v1 = Some (Inr conf, v2)" and "?rest conf v2 = Some (r, v')"
      then show ?thesis
        by (intro workers_accounted [OF tracked_quiet [OF t0 quiet conf]])
    qed
    obtain ds where ds: "v = after_calls w ds" "PAIR \<notin> set ds"
      using st by (auto simp: started_def list_all_iff early_def)
    have "tracked v1 [] v1"
      by (auto simp: tracked_def intro!: exI [of _ "[]"])
    then obtain es where "v' = after_calls v1 es"
      using on unfolding accounted_on_def all_reaped_def by blast
    then have "namespace_channel w v' f"
      unfolding namespace_channel_def using pair ds Inr fg by (intro exI [of _ ds] exI [of _ es]) simp
    then show ?thesis
      using on [OF t1] unfolding accounted_def by blast
  qed
qed

lemma early_calls:
  "issues early (instance_create json ver name root)" "issues early (ensure_nofile_capacity n)"
  "issues early set_child_subreaper" "issues early (signalfd_block sigs)" "issues early (env_is d var val)"
proof -
  note other = early_def not_clone_def PAIR_def
  have p: "issues early (persist json i)" for i
    unfolding persist_def Let_def by (auto intro!: issued simp: other split: option.splits)
  have v: "issues early (validate_owned_private_directory p)" for p
    unfolding validate_owned_private_directory_def by (auto intro!: issued simp: other)
  have s: "issues early (secure_runtime_root ov)" for ov
    unfolding secure_runtime_root_def by (auto intro!: issued v simp: other split: option.splits sum.splits)
  have r: "issues early random_identifier"
    unfolding random_identifier_def by (auto intro!: issued simp: other split: sum.splits)
  show "issues early (instance_create json ver name root)"
    unfolding instance_create_def Let_def by (auto intro!: issued s r p simp: other split: option.splits)
  show "issues early (ensure_nofile_capacity n)" "issues early set_child_subreaper" "issues early (signalfd_block sigs)" "issues early (env_is d var val)"
    unfolding ensure_nofile_capacity_def nofile_limit_def set_child_subreaper_def signalfd_block_def env_is_def
    by (auto intro!: issued simp: other)
qed

lemma early_limits:
  "issues early (collect (\<lambda>index. bnd (dataplane_of l index) (\<lambda>c.
      convert IoFailed (lift_result (dataplane_nofile_limit (max_tcp_flows c) (max_udp_flows c) (max_udp_associations c))))) xs)"
  by (auto intro!: issued simp: dataplane_of_def split: option.split)

lemmas quiet_create [issued] = early_calls [THEN issues_early]

section \<open>Properties\<close>

text \<open>
  C12. However the supervisor returns, it leaves no child behind: every process that it has started - the data-plane workers and the
  namespace init process - is waited for after the last one was started. When it fails, each of them has been sent
  \<open>SIGKILL\<close> as well, with one exception: the supervisor has received the exit message and recording the state \<open>exited\<close>
  fails, and then that failure is the error it returns. When it succeeds, the code that it returns is the one of an exit message
  that it received on its end of the first socket pair that it made, the channel whose other end the namespace init process has.
\<close>

theorem supervisor_reaps_children:
  assumes "supervisor_run b l w = Some (r, w')"
  shows "accounted b w r w'"
proof -
  have t: "started w w"
    by (auto simp: started_def intro!: exI [of _ "[]"])
  from assms show ?thesis
    unfolding supervisor_run_def Let_def
    apply (rule accounted_and_then [OF _ t], intro issued)
    apply (erule accounted_bnd, assumption, rule early_calls)
    apply (erule accounted_bnd, assumption, rule early_limits)
    apply (erule accounted_and_then, assumption, intro issued early_calls)
    apply (erule accounted_and_then, assumption, intro issued early_calls)
    apply (erule accounted_bnd, assumption, intro issued early_calls)
    apply (erule accounted_bnd, assumption, intro issued early_calls)
    apply (clarsimp simp: ensuring_outcome)
    apply (blast intro: accounted_more [OF run_instance_accounted quiet_instance(6)])
    done
qed

text \<open>
  A kernel on which the second \<open>clone3\<close> fails: the first worker has been started, the second cannot be.
\<close>

definition refusing_kernel :: system where
  "refusing_kernel = quiet_system\<lparr>
     sys_ret := \<lambda>h c. case c of Proc (Clone3 f) \<Rightarrow> if list_all not_clone h then Inr 100 else Inl EPERM | Proc Getuid \<Rightarrow> Inr 0 | _ \<Rightarrow> Inr 7,
     sys_out := \<lambda>h c. case c of Proc (Clone3 f) \<Rightarrow> to_ne False 4 (9 :: u32)
       | Limit (Getrlimit n) \<Rightarrow> to_ne False 8 (4096 :: u64) @ to_ne False 8 (4096 :: u64)
       | Sock (Socketpair d t) \<Rightarrow> to_ne False 4 (5 :: u32) @ to_ne False 4 (6 :: u32) | _ \<Rightarrow> replicate 16 1\<rparr>"

definition sample_build :: "unit build" where
  "sample_build = \<lparr>debug_assertions = False, pkg_version = [], build_arch = X86_64, build_syscalls = \<lambda>_. [0],
     metadata_format = \<lparr>render_metadata = \<lambda>_. Some [123, 125], read_metadata = \<lambda>_. None\<rparr>,
     json_library = \<lparr>as_object = \<lambda>_. None, of_object = \<lambda>_. (), as_u64 = \<lambda>_. None, of_u64 = \<lambda>_. (), parse_json = \<lambda>_. None,
       render_json = \<lambda>_. None\<rparr>,
     reactor_run = \<lambda>_ _ _. ok ()\<rparr>"

definition fresh :: "system \<Rightarrow> bool" where
  "fresh v \<longleftrightarrow> (\<exists>cs. v = after_calls refusing_kernel cs \<and> list_all not_clone cs)"

lemma fresh_more: "fresh v \<Longrightarrow> issues not_clone m \<Longrightarrow> m v = Some (r, v') \<Longrightarrow> fresh v'"
  unfolding fresh_def using issuesD by (fastforce simp: list_all_append)

lemma fresh_kernel:
  assumes "fresh v"
  shows "sys_ret v h c = sys_ret refusing_kernel h c" "sys_out v h c = sys_out refusing_kernel h c" "sys_big v = False"
    "sys_stat v h c = sys_stat quiet_system h c" "sys_clock v h = 0" "list_all not_clone (calls v)"
  using assms by (auto simp: fresh_def refusing_kernel_def quiet_system_def)

lemmas kernel_simps = fresh_kernel refusing_kernel_def quiet_system_def

lemma fresh_instance:
  assumes v: "fresh v"
  shows "\<exists>i v'. instance_create (metadata_format sample_build) [] (Some [97]) None v = Some (Inr i, v') \<and> fresh v'"
proof -
  have "\<exists>i v'. instance_create (metadata_format sample_build) [] (Some [97]) None v = Some (Inr i, v')"
    using v by (simp add: instance_create_def secure_runtime_root_def validate_owned_private_directory_def random_identifier_def
        persist_def sample_build_def Let_def running kernel_simps)
  then show ?thesis
    using fresh_more [OF v quiet_create(1)] by blast
qed

lemma fresh_setup:
  assumes v: "fresh v"
  shows "\<exists>v'. ensure_nofile_capacity 41 v = Some (Inr (), v') \<and> fresh v'"
    "\<exists>v'. set_child_subreaper v = Some (Inr (), v') \<and> fresh v'"
    "\<exists>v'. signalfd_block sigs v = Some (Inr 7, v') \<and> fresh v'"
    "\<exists>v'. seqpacket_pair v = Some (Inr (5, 6), v') \<and> fresh v'"
proof -
  have "\<exists>v'. ensure_nofile_capacity 41 v = Some (Inr (), v')" "\<exists>v'. set_child_subreaper v = Some (Inr (), v')"
    "\<exists>v'. signalfd_block sigs v = Some (Inr 7, v')" "\<exists>v'. seqpacket_pair v = Some (Inr (5, 6), v')"
    using v by (simp_all add: ensure_nofile_capacity_def nofile_limit_def set_child_subreaper_def signalfd_block_def
        seqpacket_pair_def bnd_def running kernel_simps subslice_def from_to_ne)
  then show "\<exists>v'. ensure_nofile_capacity 41 v = Some (Inr (), v') \<and> fresh v'"
    "\<exists>v'. set_child_subreaper v = Some (Inr (), v') \<and> fresh v'"
    "\<exists>v'. signalfd_block sigs v = Some (Inr 7, v') \<and> fresh v'"
    "\<exists>v'. seqpacket_pair v = Some (Inr (5, 6), v') \<and> fresh v'"
    using fresh_more [OF v] quiet_create(2-) quiet_lib(1) by blast+
qed

lemma sample_shares:
  "\<exists>c. dataplane sample_launch i = Some c \<and> max_tcp_flows c = (if i = 0 then 3 else 2) \<and> max_udp_flows c = 2 \<and> max_udp_associations c = 2"
  by (simp add: dataplane_def sample_launch_def worker_share_def)

lemma any_state:
  assumes "v = after_calls refusing_kernel cs"
  shows "seqpacket_pair v = Some (Inr (5, 6), after_calls v [Sock (Socketpair AF_UNIX SOCK_SEQPACKET_CLOEXEC)])"
    "\<exists>c. dataplane_of sample_launch i v = Some (Inr c, v)"
    "clone_namespaced f v = Some (if list_all not_clone cs then Inr (CloneParent 100 9) else Inl (Os EPERM),
       after_calls v [Proc (Clone3 (f OR CLONE_PIDFD))])"
  using assms sample_shares [of i] by (auto simp: seqpacket_pair_def dataplane_of_def clone_namespaced_def bnd_def running
      refusing_kernel_def quiet_system_def subslice_def from_to_ne)

lemma fresh_spawn:
  assumes "fresh v"
  shows "\<exists>v'. spawn_workers b sample_launch [0, 1] [] [] v = Some (Inl (IoFailed (Os EPERM)), v')"
proof -
  obtain cs where cs: "v = after_calls refusing_kernel cs" "list_all not_clone cs"
    using assms by (auto simp: fresh_def)
  obtain c0 c1 where c: "dataplane sample_launch 0 = Some c0" "dataplane sample_launch 1 = Some c1"
    using sample_shares by meson
  show ?thesis
    by (simp add: bnd_def attempt_def dataplane_of_def c c [unfolded One_nat_def] any_state [OF refl] cs running kill_dataplanes_def and_then_def
        ignoring_calls(1) [where p = 0] ignoring_calls(2) [where f = 0])
qed

lemma sample_limits:
  "collect (\<lambda>index. bnd (dataplane_of sample_launch index) (\<lambda>c.
       convert IoFailed (lift_result (dataplane_nofile_limit (max_tcp_flows c) (max_udp_flows c) (max_udp_associations c))))) [0, 1] v
   = Some (Inr [41, 40], v)"
proof -
  obtain c0 c1 where "dataplane sample_launch 0 = Some c0" "max_tcp_flows c0 = 3" "max_udp_flows c0 = 2" "max_udp_associations c0 = 2"
    "dataplane sample_launch (Suc 0) = Some c1" "max_tcp_flows c1 = 2" "max_udp_flows c1 = 2" "max_udp_associations c1 = 2"
    using sample_shares [of 0] sample_shares [of 1] by (auto simp: One_nat_def)
  then show ?thesis
    by (simp add: bnd_def convert_def dataplane_of_def running dataplane_nofile_limit_def checked_add_usize_def checked_mul_u64_def
        DATAPLANE_FD_HEADROOM_def)
qed

theorem supervisor_reaps_children_witness:
  "\<exists>e w'. supervisor_run sample_build sample_launch refusing_kernel = Some (Inl (IoFailed e), w') \<and>
     accounted sample_build refusing_kernel (Inl (IoFailed e)) w'"
proof -
  have "fresh refusing_kernel"
    by (auto simp: fresh_def intro!: exI [of _ "[]"])
  then obtain v1 where v1: "ensure_nofile_capacity 41 refusing_kernel = Some (Inr (), v1)" "fresh v1"
    using fresh_setup(1) by blast
  obtain v2 where v2: "set_child_subreaper v1 = Some (Inr (), v2)" "fresh v2"
    using fresh_setup(2) [OF v1(2)] by blast
  obtain v3 where v3: "signalfd_block HANDLED_SIGNALS v2 = Some (Inr 7, v3)" "fresh v3"
    using fresh_setup(3) [OF v2(2)] by blast
  obtain i v4 where v4: "instance_create (metadata_format sample_build) [] (Some [97]) None v3 = Some (Inr i, v4)" "fresh v4"
    using fresh_instance [OF v3(2)] by blast
  obtain v5 where v5: "seqpacket_pair v4 = Some (Inr (5, 6), v5)" "fresh v5"
    using fresh_setup(4) [OF v4(2)] by blast
  obtain v6 where v6: "spawn_workers sample_build sample_launch [0, 1] [] [] v5 = Some (Inl (IoFailed (Os EPERM)), v6)"
    using fresh_spawn [OF v5(2)] by blast
  have sizes: "[0..<2] = [0, 1]" "instance_name sample_launch = Some [97]" "runtime_root sample_launch = None"
    "dns_mode_of (dns sample_launch) = DnsOff" "workers sample_launch = 2" "debug_assertions sample_build = False" "pkg_version sample_build = []"
    by (simp_all add: sample_launch_def sample_build_def dns_off_def upt_rec)
  have ri: "run_instance sample_build sample_launch False 7 i v4 = Some (Inl (IoFailed (Os EPERM)), v6)"
    by (simp add: run_instance_def bnd_def convert_def running sizes v5 v6 v6 [unfolded One_nat_def] del: spawn_workers.simps)
  have "\<exists>x v7. instance_drop (metadata_format sample_build) i v6 = Some (x, v7)"
    by (simp add: instance_drop_def sample_build_def Let_def bnd_def attempt_def running split: sum.split)
  then obtain x v7 where v7: "instance_drop (metadata_format sample_build) i v6 = Some (x, v7)"
    by blast
  have env: "bnd (env_is False var val) k v = k False v" for var val v and k :: "_ \<Rightarrow> (supervisor_error, int) prog"
    by (simp add: env_is_def bnd_def ok_def)
  have run: "supervisor_run sample_build sample_launch refusing_kernel = Some (Inl (IoFailed (Os EPERM)), v7)"
    by (simp add: supervisor_run_def Let_def sizes sample_launch_valid running env bnd_ok [OF sample_limits]
        bnd_ok [OF sample_limits [unfolded One_nat_def]] v1 v2 v3 v4 ensuring_def ri v7 del: collect.simps)
  then show ?thesis
    using supervisor_reaps_children [OF run] by blast
qed

end
