(* ===== verification/Supervisor_Service.thy ===== *)
theory Supervisor_Service
  imports Supervisor_Safety
begin

text \<open>
  What the processes of an instance deliver: the exit status of the command, the confinement of the data plane, the sum of
  the workers' metrics, and what a client of the control socket can do to the supervisor.
\<close>

section \<open>Calls that follow one another\<close>

lemma any_calls [issued]:
  "issues (\<lambda>_. True) (control_expect f k)" "issues (\<lambda>_. True) (recv_fd f n)" "issues (\<lambda>_. True) (env_is d var val)"
  "issues (\<lambda>_. True) (forbidden_call hit)" "issues (\<lambda>_. True) (control_send f k rid body)" "issues (\<lambda>_. True) (set_nonblocking f e)"
  "issues (\<lambda>_. True) (set_nofile_limit limit)" "issues (\<lambda>_. True) (set_parent_death_signal sg)" "issues (\<lambda>_. True) disable_core_dumps"
  "issues (\<lambda>_. True) isolate_filesystem" "issues (\<lambda>_. True) drop_all_capabilities" "issues (\<lambda>_. True) set_no_new_privs"
  "issues (\<lambda>_. True) (install dbg a gen pr)"
proof -
  have weak: "issues not_clone m \<Longrightarrow> issues (\<lambda>_. True) m" for m :: "('x, 'y) prog"
    by (rule issues_weaken) simp_all
  show "issues (\<lambda>_. True) (control_expect f k)" "issues (\<lambda>_. True) (env_is d var val)"
    "issues (\<lambda>_. True) (forbidden_call hit)" "issues (\<lambda>_. True) (control_send f k rid body)" "issues (\<lambda>_. True) (set_nonblocking f e)"
    "issues (\<lambda>_. True) set_no_new_privs" "issues (\<lambda>_. True) (install dbg a gen pr)"
    by (rule weak, rule quiet_lib)+
  show "issues (\<lambda>_. True) (recv_fd f n)" "issues (\<lambda>_. True) (set_nofile_limit limit)" "issues (\<lambda>_. True) (set_parent_death_signal sg)"
    "issues (\<lambda>_. True) disable_core_dumps" "issues (\<lambda>_. True) isolate_filesystem" "issues (\<lambda>_. True) drop_all_capabilities"
    unfolding recv_fd_def set_nofile_limit_def set_parent_death_signal_def disable_core_dumps_def isolate_filesystem_def
      drop_all_capabilities_def drop_bounding_def Let_def
    by (auto intro!: issued split: list.split sum.split)
qed

section \<open>The exit status of the command\<close>

definition WAIT_ANY :: syscall where "WAIT_ANY = Proc (Waitpid (-1) WNOHANG)"

text \<open>
  Between \<open>v\<close> and \<open>w\<close> the kernel has reported the end of the target, and the code is its exit code or 128 plus its signal.
\<close>

definition target_report :: "system \<Rightarrow> pid \<Rightarrow> int \<Rightarrow> system \<Rightarrow> bool" where
  "target_report v tpid code w \<longleftrightarrow> (\<exists>ds es. w = after_calls v (ds @ WAIT_ANY # es) \<and> sys_ret v (calls v @ ds) WAIT_ANY = Inr tpid \<and>
     (sys_status v (calls v @ ds) WAIT_ANY = ExitedWith code \<or>
      (\<exists>sg. sys_status v (calls v @ ds) WAIT_ANY = KilledBy sg \<and> code = 128 + sg)))"

text \<open>The last call before \<open>w\<close> found that no child is left.\<close>

definition childless :: "system \<Rightarrow> bool" where
  "childless w \<longleftrightarrow> (\<exists>h. calls w = h @ [WAIT_ANY] \<and> sys_ret w h WAIT_ANY = Inl ECHILD)"

lemma target_report_more: "target_report v t code w \<Longrightarrow> w' = after_calls w cs \<Longrightarrow> target_report v t code w'"
  unfolding target_report_def by force

lemma target_report_before: "follows v w \<Longrightarrow> target_report w t code u \<Longrightarrow> target_report v t code u"
  unfolding target_report_def follows_def by (elim exE conjE) (metis (no_types, lifting) after_calls_simps append.assoc)

definition status_known :: "system \<Rightarrow> pid \<Rightarrow> int option \<Rightarrow> system \<Rightarrow> bool" where
  "status_known v tpid main_status w \<longleftrightarrow> (\<exists>cs. w = after_calls v cs) \<and> (\<forall>code. main_status = Some code \<longrightarrow> target_report v tpid code w)"

lemma status_known_more: "status_known v t s w \<Longrightarrow> w' = after_calls w cs \<Longrightarrow> status_known v t s w'"
  using target_report_more by (fastforce simp: status_known_def)

lemma status_known_issues: "status_known v t s w \<Longrightarrow> issues P m \<Longrightarrow> m w = Some (r, w') \<Longrightarrow> status_known v t s w'"
  using issuesD [of P m w r w'] status_known_more by blast

lemma wait_any_result:
  assumes "wait_any_nohang w = Some (r, w')" "status_known v t s w"
  shows "w' = after_calls w [WAIT_ANY]"
    and "r = Inr (Some (t, Exited code)) \<Longrightarrow> target_report v t code w'"
    and "r = Inr (Some (t, Signaled sg)) \<Longrightarrow> target_report v t (128 + sg) w'"
    and "r = Inr None \<Longrightarrow> childless w'"
    and "r \<noteq> Inr (Some (p, NoChildren))"
proof -
  obtain cs where cs: "w = after_calls v cs"
    using assms(2) by (auto simp: status_known_def)
  note run = assms(1) [unfolded wait_any_nohang_def, folded WAIT_ANY_def]
  show w': "w' = after_calls w [WAIT_ANY]"
    using run by (auto simp: bnd_def attempt_def running split: sum.splits prod.splits if_splits)
  have exited: "wait_status_of st = Exited n \<longleftrightarrow> st = ExitedWith n" "wait_status_of st = Signaled n \<longleftrightarrow> st = KilledBy n"
    "wait_status_of st \<noteq> NoChildren" for st n
    by (cases st; simp)+
  show "r = Inr (Some (t, Exited code)) \<Longrightarrow> target_report v t code w'"
    and "r = Inr (Some (t, Signaled sg)) \<Longrightarrow> target_report v t (128 + sg) w'"
    using run cs unfolding target_report_def
    by (rule_tac exI [of _ cs], rule_tac exI [of _ "[]"], auto simp: bnd_def attempt_def running exited split: sum.splits prod.splits if_splits)+
  show "r = Inr None \<Longrightarrow> childless w'"
    using run cs unfolding childless_def
    by (auto simp: bnd_def attempt_def running split: sum.splits prod.splits if_splits intro!: exI [of _ "calls w"])
  show "r \<noteq> Inr (Some (p, NoChildren))"
    using run by (auto simp: bnd_def attempt_def running exited split: sum.splits prod.splits if_splits)
qed

lemma reap_step_result:
  assumes i: "status_known v t s w" and w: "wait_any_nohang w = Some (Inr x, w1)"
  shows "reap_step t s x = Inr s' \<Longrightarrow> status_known v t s' w1"
    and "reap_step t s x = Inl (f, s') \<Longrightarrow> status_known v t s' w1 \<and> (\<forall>code. f = Some code \<longrightarrow> s' = Some code \<and> childless w1)"
proof -
  note one = wait_any_result [OF w i]
  have same: "status_known v t s w1"
    using status_known_more [OF i one(1)] .
  have new: "status_known v t (Some code) w1" if "target_report v t code w1" for code
    using same that by (simp add: status_known_def)
  consider "x = None" | p c where "x = Some (p, Exited c)" | p c where "x = Some (p, Signaled c)" | p where "x = Some (p, StillRunning)"
    | p where "x = Some (p, NoChildren)"
    by (metis prod.collapse not_None_eq wait_status.exhaust)
  then have "(\<forall>s'. reap_step t s x = Inr s' \<longrightarrow> status_known v t s' w1) \<and>
    (\<forall>f s'. reap_step t s x = Inl (f, s') \<longrightarrow> status_known v t s' w1 \<and> (\<forall>code. f = Some code \<longrightarrow> s' = Some code \<and> childless w1))"
    using same new one(2-) by cases (auto simp: reap_step_def split: if_splits)
  then show "reap_step t s x = Inr s' \<Longrightarrow> status_known v t s' w1"
    and "reap_step t s x = Inl (f, s') \<Longrightarrow> status_known v t s' w1 \<and> (\<forall>code. f = Some code \<longrightarrow> s' = Some code \<and> childless w1)"
    by blast+
qed

lemma reap_children_result:
  assumes "reap_children t s w = Some (r, w')" "status_known v t s w"
  shows "case r of Inl e \<Rightarrow> True | Inr (f, s') \<Rightarrow> status_known v t s' w' \<and> (\<forall>code. f = Some code \<longrightarrow> s' = Some code \<and> childless w')"
  using assms(1) unfolding reap_children_def
proof (rule looping_rule [where I = "status_known v t"])
  fix s w s' w1
  assume i: "status_known v t s w"
  have body: "\<exists>y. wait_any_nohang w = Some (Inr y, w1) \<and> reap_step t s y = x"
    if "bnd wait_any_nohang (\<lambda>r. ok (reap_step t s r)) w = Some (Inr x, w1)" for x
    using that by (auto simp: bnd_outcome ok_outcome)
  show "status_known v t s' w1" if "bnd wait_any_nohang (\<lambda>r. ok (reap_step t s r)) w = Some (Inr (Inr s'), w1)"
    using body [OF that] reap_step_result(1) [OF i] by blast
  show "case Inr x of Inl e \<Rightarrow> True | Inr (f, s') \<Rightarrow> status_known v t s' w1 \<and> (\<forall>code. f = Some code \<longrightarrow> s' = Some code \<and> childless w1)"
    if "bnd wait_any_nohang (\<lambda>r. ok (reap_step t s r)) w = Some (Inr (Inl x), w1)" for x
    using body [OF that] reap_step_result(2) [OF i] by (cases x) auto
qed (simp_all add: assms(2))

lemma quiet_init:
  "issues (\<lambda>_. True) (signal_process_group t n)" "issues (\<lambda>_. True) (forward_signals f (signal_process_group t))"
  "issues (\<lambda>_. True) (init_control t r)"
  unfolding forward_signals_def signalfd_read_def init_control_def signal_process_group_def
  by (auto intro!: issued split: option.splits sum.splits)

lemma init_iteration_result:
  assumes run: "init_iteration cf sg t s w = Some (Inr x, w')" and i: "status_known v t s w"
  shows "case x of Inl code \<Rightarrow> target_report v t code w' \<and> childless w' | Inr s' \<Rightarrow> status_known v t s' w'"
proof -
  obtain w1 where w1: "forward_signals sg (signal_process_group t) w = Some (Inr (), w1)"
    and k1: "bnd (attempt (control_receive cf 128)) (\<lambda>r. and_then (init_control t r) (bnd (reap_children t s) (\<lambda>(final, main_status).
       case final of Some code \<Rightarrow> ok (Inl code)
       | None \<Rightarrow> bnd (infallible (Proc (Sleep (from_millis 20)))) (\<lambda>_. ok (Inr main_status))))) w1 = Some (Inr x, w')"
    using run unfolding init_iteration_def and_then_outcome by blast
  have i1: "status_known v t s w1"
    by (rule status_known_issues [OF i quiet_init(2) w1])
  from k1 obtain r w2 w3 y w4 where w2: "control_receive cf 128 w1 = Some (r, w2)"
    and w3: "init_control t r w2 = Some (Inr (), w3)"
    and y: "reap_children t s w3 = Some (Inr y, w4)"
    and k4: "(case y of (final, main_status) \<Rightarrow> (case final of Some code \<Rightarrow> ok (Inl code)
       | None \<Rightarrow> bnd (infallible (Proc (Sleep (from_millis 20)))) (\<lambda>_. ok (Inr main_status)))) w4 = Some (Inr x :: io_error + int + int option, w')"
    unfolding success by blast
  obtain f s' where fs: "y = (f, s')"
    by (cases y)
  have i2: "status_known v t s w2"
    using status_known_issues [OF i1 issues_weaken [OF quiet_lib(11)] w2] by blast
  have i3: "status_known v t s w3"
    by (rule status_known_issues [OF i2 quiet_init(3) w3])
  from reap_children_result [OF y i3] have i4: "status_known v t s' w4" "\<And>code. f = Some code \<Longrightarrow> s' = Some code \<and> childless w4"
    by (auto simp: fs)
  show ?thesis
  proof (cases f)
    case None
    then have "x = Inr s' \<and> w' = after_calls w4 [Proc (Sleep (from_millis 20))]"
      using k4 by (auto simp: outcome fs)
    then show ?thesis
      using status_known_more [OF i4(1)] by simp
  next
    case (Some code)
    then show ?thesis
      using k4 i4 by (auto simp: outcome status_known_def fs)
  qed
qed

lemma init_loop_result:
  assumes "init_loop cf sg t v = Some (Inr code, v')"
  shows "target_report v t code v' \<and> childless v'"
proof -
  have "case (Inr code :: io_error + int) of Inl e \<Rightarrow> True | Inr code \<Rightarrow> target_report v t code v' \<and> childless v'"
    using assms unfolding init_loop_def
  proof (rule looping_rule [where I = "status_known v t"])
    show "status_known v t None v"
      by (auto simp: status_known_def intro!: exI [of _ "[]"])
  qed (use init_iteration_result in fastforce)+
  then show ?thesis
    by simp
qed

text \<open>The message with which the namespace init process reports, as the supervisor reads it.\<close>

lemma exit_message:
  "\<exists>bs. encode_io control_kind.Exit 3 (to_le 4 (word_of_int code :: u32)) = Inr bs \<and> bs \<noteq> [] \<and>
     decode_io bs = Inr \<lparr>msg_kind = control_kind.Exit, request_id = 3, msg_payload = to_le 4 (word_of_int code :: u32)\<rparr>"
  "- (2 ^ 31) \<le> code \<Longrightarrow> code < 2 ^ 31 \<Longrightarrow> sint (from_le (to_le 4 (word_of_int code :: u32)) :: u32) = code"
proof -
  let ?m = "\<lparr>msg_kind = control_kind.Exit, request_id = 3, msg_payload = to_le 4 (word_of_int code :: u32)\<rparr>"
  obtain bs where bs: "control_encode control_kind.Exit 3 (to_le 4 (word_of_int code :: u32)) = Inr bs" "bs \<noteq> []"
    by (simp add: control_encode_def MAX_PAYLOAD_def MAGIC_def)
  then have "control_decode bs = Inr ?m"
    using decode_of_encode [of ?m bs] by simp
  then show "\<exists>bs. encode_io control_kind.Exit 3 (to_le 4 (word_of_int code :: u32)) = Inr bs \<and> bs \<noteq> [] \<and> decode_io bs = Inr ?m"
    using bs by (simp add: encode_io_def decode_io_def)
  show "- (2 ^ 31) \<le> code \<Longrightarrow> code < 2 ^ 31 \<Longrightarrow> sint (from_le (to_le 4 (word_of_int code :: u32)) :: u32) = code"
    by (simp add: from_to_le signed_take_bit_int_eq_self sint_sbintrunc')
qed

lemma target_exited_run:
  assumes "length (msg_payload m) = 4"
  shows "\<exists>w'. target_exited ws np m w = Some (Inr (Inl (sint (from_le (msg_payload m) :: u32))), w')"
proof -
  have "\<exists>w1. (shutdown_dataplanes ws :: (supervisor_error, unit) prog) w = Some (Inr (), w1)" for w
  proof -
    have "\<exists>r. send_packet (dw_control wk) bs v = Some (r, after_calls v [Msg (Send (dw_control wk) bs MSG_NOSIGNAL)])" for wk bs v
      by (auto simp: send_packet_def bnd_def running split: sum.split)
    from for_each_calls [of "\<lambda>wk. send_packet (dw_control wk) _" "\<lambda>wk. Msg (Send (dw_control wk) _ MSG_NOSIGNAL)", OF this]
    show ?thesis
      by (auto simp: shutdown_dataplanes_def running split: sum.split)
  qed
  then obtain w1 where w1: "(shutdown_dataplanes ws :: (supervisor_error, unit) prog) w = Some (Inr (), w1)"
    by blast
  show ?thesis
    using assms by (simp add: target_exited_def and_then_def bnd_def w1 ignoring_calls(2) [where f = 0] wait_dataplanes_def waits_run running)
qed

lemma quiet_namespace:
  "issues (\<lambda>_. True) mount_private_proc" "issues (\<lambda>_. True) (bind_resolv_conf src)" "issues (\<lambda>_. True) (debug_failpoint d x)"
  "issues (\<lambda>_. True) (create_tap n off mq)" "issues (\<lambda>_. True) (send_fd s f p)" "issues (\<lambda>_. True) (signalfd_block sigs)"
  unfolding mount_private_proc_def bind_resolv_conf_def debug_failpoint_def create_tap_def send_fd_def signalfd_block_def
  by (auto intro!: issued split: sum.splits)

text \<open>
  How the namespace init process comes to its result: after some calls it forks, and in the parent it goes on, after further calls, with
  the loop on the process that it has forked.
\<close>

lemma fork_exec_result:
  "fork_exec command w = Some (Inr t, w') \<Longrightarrow> \<exists>ds. w' = after_calls w (ds @ [Proc Fork]) \<and> sys_ret w (calls w @ ds) (Proc Fork) = Inr t \<and> t \<noteq> 0"
  by (auto simp: fork_exec_def exit_immediately_def outcome split: if_splits intro!: exI [of _ "[Proc Getpid]"])

lemma follows_bnd:
  assumes "bnd m f w = Some (Inr x, w')" "follows v w" "issues (\<lambda>_. True) m"
  obtains a w1 where "m w = Some (Inr a, w1)" "follows v w1" "f a w1 = Some (Inr x, w')"
proof -
  obtain a w1 where "m w = Some (Inr a, w1)" "f a w1 = Some (Inr x, w')"
    using assms(1) by (auto simp: success)
  then show thesis
    using that follows_trans [OF assms(2) follows_issues [OF assms(3)]] by blast
qed

lemma follows_and_then:
  assumes "and_then m k w = Some (Inr x, w')" "follows v w" "issues (\<lambda>_. True) m"
  obtains w1 where "follows v w1" "k w1 = Some (Inr x, w')"
  using follows_bnd [OF assms(1) [unfolded and_then_def] assms(2,3)] by blast

lemma past_check: "(if P then err e else m) w = Some (Inr x, w') \<Longrightarrow> m w = Some (Inr x, w')"
  by (auto simp: ok_outcome split: if_splits)

lemma namespace_child_inner_forks:
  assumes "namespace_child_inner b cf tcs l rc v = Some (Inr code, v')"
  shows "\<exists>w1 w2 sg t u. follows v w1 \<and> fork_exec (launch_command l) w1 = Some (Inr t, w2) \<and> follows w2 u \<and>
      init_loop cf sg t u = Some (Inr code, v')"
proof -
  have conf: "issues (\<lambda>_. True) (case rc of None \<Rightarrow> ok () | Some src \<Rightarrow> bind_resolv_conf src)"
    by (auto intro!: issued quiet_namespace split: option.split)
  have taps: "issues (\<lambda>_. True) (for_each (\<lambda>(channel, tap). send_fd channel tap message) xs)" for message xs
    by (auto intro!: issued quiet_namespace)
  have sandbox: "issues (\<lambda>_. True) (if sandbox_enabled (sandbox l)
      then and_then set_no_new_privs (install (debug_assertions b) (build_arch b) (build_syscalls b) NamespaceInit) else ok ())"
    by (auto intro!: issued)
  note known = issued quiet_namespace conf taps sandbox quiet_netlink
  from assms show ?thesis
    unfolding namespace_child_inner_def Let_def
    apply (elim follows_bnd [OF _ follows_refl], intro known)
    apply (erule follows_and_then, assumption, intro known)
    apply (erule follows_bnd, assumption, intro known)
    apply (erule follows_and_then, assumption, intro known)
    apply (erule follows_and_then, assumption, intro known)
    apply (erule follows_and_then, assumption, intro known)
    apply (erule follows_bnd, assumption, intro known)
    apply (erule follows_bnd, assumption, intro known)
    apply (erule follows_and_then, assumption, intro known)
    apply (erule follows_bnd, assumption, intro known)
    apply (erule follows_and_then, assumption, rule taps)
    apply (erule follows_and_then, assumption, intro known)
    apply (erule follows_bnd, assumption, intro known)
    apply (drule past_check)
    apply (erule follows_bnd, assumption, intro known)
    apply (simp only: success(1))
    apply (elim exE conjE)
    apply (erule follows_and_then [OF _ follows_refl], intro known)
    apply (erule follows_and_then, assumption, intro known)
    apply (erule follows_and_then, assumption, intro known)
    apply (erule follows_and_then, assumption, intro known)
    apply blast
    done
qed

lemma namespace_child_inner_result:
  assumes "namespace_child_inner b cf tcs l rc v = Some (Inr code, v')"
  shows "\<exists>ds t u sg. sys_ret v (calls v @ ds) (Proc Fork) = Inr t \<and> t \<noteq> 0 \<and> follows (after_calls v (ds @ [Proc Fork])) u \<and>
    init_loop cf sg t u = Some (Inr code, v')"
proof -
  obtain w1 w2 sg t u where s: "follows v w1" "fork_exec (launch_command l) w1 = Some (Inr t, w2)" "follows w2 u"
    "init_loop cf sg t u = Some (Inr code, v')"
    using namespace_child_inner_forks [OF assms] by blast
  obtain cs where "w1 = after_calls v cs"
    using s(1) by (auto simp: follows_def)
  moreover obtain ds where "w2 = after_calls w1 (ds @ [Proc Fork])" "sys_ret w1 (calls w1 @ ds) (Proc Fork) = Inr t" "t \<noteq> 0"
    using fork_exec_result [OF s(2)] by blast
  ultimately show ?thesis
    using s(3,4) by (intro exI [of _ "cs @ ds"] exI [of _ t] exI [of _ u] exI [of _ sg]) simp
qed

text \<open>The next packet on a descriptor.\<close>

definition delivers :: "system \<Rightarrow> fd \<Rightarrow> bytes \<Rightarrow> bool" where
  "delivers w f bs \<longleftrightarrow> (\<exists>n. sys_ret w (calls w) (Msg (Recv f CONTROL_BUFFER 0)) = Inr n) \<and>
     take CONTROL_BUFFER (sys_out w (calls w) (Msg (Recv f CONTROL_BUFFER 0))) = bs"

lemma control_receive_delivered:
  "delivers w f bs \<Longrightarrow> bs \<noteq> [] \<Longrightarrow> decode_io bs = Inr m \<Longrightarrow>
     control_receive f CONTROL_BUFFER w = Some (Inr m, after_calls w [Msg (Recv f CONTROL_BUFFER 0)])"
  by (auto simp: delivers_def control_receive_def recv_packet_def bnd_def running)

section \<open>Properties: the exit status\<close>

text \<open>
  C14. The supervisor returns the status of the command and no other. When the namespace init process ends with code 0, it has forked a
  process for the command, the kernel has reported the end of this very process, no child is left, and the last call is to send
  on the control channel a message that carries the exit code of that process, or 128 plus the signal that ended it. A
  supervisor that has dealt with signals and clients and then reads these bytes on its control channel returns that
  code (codes are 32 bits wide).
\<close>

theorem command_status_delivered:
  assumes "namespace_report b cf tcs l rc v = Some (Inr 0 :: io_error + int, v')"
  shows "\<exists>ds t code u bs. sys_ret v (calls v @ ds) (Proc Fork) = Inr t \<and> t \<noteq> 0 \<and>
    target_report (after_calls v (ds @ [Proc Fork])) t code u \<and> childless u \<and> v' = after_calls u [Msg (Send cf bs MSG_NOSIGNAL)] \<and>
    (\<forall>i sg nc ws np nf w w1 w2. forward_signals sg (pidfd_send_signal nf) w = Some (Inr (), w1) \<and>
       serve_status (metadata_format b) (json_library b) i ws w1 = Some (Inr (), w2) \<and> delivers w2 nc bs \<and>
       - (2 ^ 31) \<le> code \<and> code < 2 ^ 31 \<longrightarrow> (\<exists>w'. supervise_running b i sg nc ws np nf w = Some (Inr code, w')))"
proof -
  obtain x u where x: "namespace_child_inner b cf tcs l rc v = Some (x, u)"
    using assms unfolding namespace_report_def success(1,3) by blast
  then obtain code where inner: "namespace_child_inner b cf tcs l rc v = Some (Inr code, u)"
    and send: "(ignoring (control_send cf control_kind.Exit 3 (to_le 4 (word_of_int code :: u32))) :: (io_error, unit) prog) u = Some (Inr (), v')"
    using assms by (cases x) (auto simp: namespace_report_def success ok_outcome)
  from namespace_child_inner_result [OF inner] obtain ds t u0 sg0 where f: "sys_ret v (calls v @ ds) (Proc Fork) = Inr t" "t \<noteq> 0"
    "follows (after_calls v (ds @ [Proc Fork])) u0" "init_loop cf sg0 t u0 = Some (Inr code, u)"
    by blast
  have report: "target_report (after_calls v (ds @ [Proc Fork])) t code u" "childless u"
    using init_loop_result [OF f(4)] target_report_before [OF f(3)] by blast+
  obtain bs where bs: "encode_io control_kind.Exit 3 (to_le 4 (word_of_int code :: u32)) = Inr bs" "bs \<noteq> []"
    "decode_io bs = Inr \<lparr>msg_kind = control_kind.Exit, request_id = 3, msg_payload = to_le 4 (word_of_int code :: u32)\<rparr>"
    using exit_message(1) by blast
  have v': "v' = after_calls u [Msg (Send cf bs MSG_NOSIGNAL)]"
    using send by (auto simp: control_send_def send_packet_def bs(1) outcome split: if_splits)
  have "\<exists>w'. supervise_running b i sg nc ws np nf w = Some (Inr code, w')"
    if w: "forward_signals sg (pidfd_send_signal nf) w = Some (Inr (), w1)" "serve_status (metadata_format b) (json_library b) i ws w1 = Some (Inr (), w2)"
      "delivers w2 nc bs" and range: "- (2 ^ 31) \<le> code" "code < 2 ^ 31" for i sg nc ws np nf w w1 w2
  proof -
    let ?m = "\<lparr>msg_kind = control_kind.Exit, request_id = 3, msg_payload = to_le 4 (word_of_int code :: u32)\<rparr>"
    obtain w' where "target_exited ws np ?m (after_calls w2 [Msg (Recv nc CONTROL_BUFFER 0)]) = Some (Inr (Inl code), w')"
      using target_exited_run [of ?m ws np] exit_message(2) [OF range] by auto
    then have "supervise_iteration b i sg nc ws np nf w = Some (Inr (Inl code), w')"
      by (simp add: supervise_iteration_def and_then_def bnd_def convert_def attempt_def w control_receive_delivered [OF w(3) bs(2,3)])
    then show ?thesis
      unfolding supervise_running_def by (subst looping.simps) simp
  qed
  then show ?thesis
    using f(1,2) report v' by blast
qed

text \<open>
  A kernel on which the command, process 9, is killed by signal 9 and leaves an orphan behind, process 8. It delivers the messages that the
  namespace init process waits for on descriptor 4.
\<close>

definition ended_kernel :: system where
  "ended_kernel = accepting_kernel\<lparr>
     sys_ret := \<lambda>h c. case c of
         Proc (Waitpid p n) \<Rightarrow> (if WAIT_ANY \<notin> set h then Inr 9 else if length (filter ((=) WAIT_ANY) h) = 1 then Inr 8 else Inl ECHILD)
       | Proc p \<Rightarrow> Inr 9 | Io (Read f n) \<Rightarrow> Inl EAGAIN | Msg (Recv f n k) \<Rightarrow> if f = 4 \<and> n = 128 then Inl EAGAIN else Inr 7
       | Msg (Send f p k) \<Rightarrow> Inr (int (length p)) | _ \<Rightarrow> Inr 7,
     sys_out := \<lambda>h c. if c \<noteq> Msg (Recv 4 CONTROL_BUFFER 0) then sys_out accepting_kernel h c
       else projr (control_encode (if c \<in> set h then control_kind.Exec else control_kind.MapsReady) 1 []),
     sys_status := \<lambda>h c. if WAIT_ANY \<in> set h then ExitedWith 3 else KilledBy 9\<rparr>"

definition plain_launch :: launch_config where
  "plain_launch = sample_launch\<lparr>sandbox := Off, network := network_synthetic False False 1500 False\<rparr>"

lemma ended_answers:
  "sys_ret ended_kernel h WAIT_ANY = (if WAIT_ANY \<notin> set h then Inr 9 else if length (filter ((=) WAIT_ANY) h) = 1 then Inr 8 else Inl ECHILD)"
  "sys_ret ended_kernel h (Io (Read f n)) = Inl EAGAIN" "sys_ret ended_kernel h (Msg (Recv 4 128 k)) = Inl EAGAIN"
  "sys_ret ended_kernel h (Limit lc) = Inr 7" "sys_ret ended_kernel h (Mnt mc) = Inr 7" "sys_ret ended_kernel h (Proc Fork) = Inr 9"
  "sys_ret ended_kernel h (Proc Getpid) = Inr 9" "sys_ret ended_kernel h (Msg (Send f p k)) = Inr (int (length p))"
  "sys_ret ended_kernel h (Io (Fcntl f a b)) = Inr 7" "sys_ret ended_kernel h (Msg (Recv f CONTROL_BUFFER k)) = Inr 7"
  "sys_out ended_kernel h (Msg (Recv 4 CONTROL_BUFFER 0)) =
     projr (control_encode (if Msg (Recv 4 CONTROL_BUFFER 0) \<in> set h then control_kind.Exec else control_kind.MapsReady) 1 [])"
  "sys_status ended_kernel h c = (if WAIT_ANY \<in> set h then ExitedWith 3 else KilledBy 9)" "sys_big ended_kernel = False" "calls ended_kernel = []"
  by (simp_all add: ended_kernel_def accepting_kernel_def quiet_system_def WAIT_ANY_def CONTROL_BUFFER_def MAX_PAYLOAD_def)

lemma ended_run:
  assumes "WAIT_ANY \<notin> set cs"
  shows "init_loop 4 7 9 (after_calls ended_kernel cs) =
    Some (Inr 137, after_calls ended_kernel (cs @ [Io (Read 7 128), Msg (Recv 4 128 0), WAIT_ANY, WAIT_ANY, WAIT_ANY]))"
proof -
  have none: "filter ((=) WAIT_ANY) cs = []"
    using assms by (auto simp: filter_empty_conv)
  have other: "WAIT_ANY \<noteq> Io x" "WAIT_ANY \<noteq> Msg y" for x y
    by (simp_all add: WAIT_ANY_def)
  show ?thesis
    using assms none other by (simp add: init_loop_def looping.simps init_iteration_def forward_signals_def signalfd_read_def control_receive_def
      recv_packet_def init_control_def reap_children_def reap_step_def wait_any_nohang_def [folded WAIT_ANY_def] and_then_def bnd_def attempt_def
      running ended_answers errno_defs)
qed

lemma sent_message: "decode_io (projr (control_encode k rid [])) = Inr \<lparr>msg_kind = k, request_id = rid, msg_payload = []\<rparr>"
  "length (projr (control_encode k rid [])) = 20" "projr (control_encode k rid []) \<noteq> []"
  using decode_of_encode [of "\<lparr>msg_kind = k, request_id = rid, msg_payload = []\<rparr>"]
  by (simp_all add: decode_io_def control_encode_def MAX_PAYLOAD_def MAGIC_def)

lemma ended_messages:
  "control_expect 4 (if Msg (Recv 4 CONTROL_BUFFER 0) \<in> set cs then control_kind.Exec else control_kind.MapsReady) (after_calls ended_kernel cs) =
     Some (Inr [], after_calls ended_kernel (cs @ [Msg (Recv 4 CONTROL_BUFFER 0)]))"
proof -
  have "20 \<le> CONTROL_BUFFER"
    by (simp add: CONTROL_BUFFER_def)
  then show ?thesis
    using sent_message by (simp add: control_expect_def control_receive_def recv_packet_def bnd_def running ended_answers)
qed

lemma ended_send: "\<exists>bs. control_send f k rid body (after_calls ended_kernel cs) = Some (Inr (), after_calls ended_kernel (cs @ [Msg (Send f bs MSG_NOSIGNAL)]))"
  if "length body \<le> 4"
  using that by (auto simp: control_send_def encode_io_def control_encode_def MAX_PAYLOAD_def send_packet_def bnd_def running ended_answers)

lemma ended_network:
  assumes "sent_packets cs = []"
  shows "\<exists>ds. configure_namespace False (lit ''eth0'') [2, 0x79, 0x61, 0x79, 0x61, 2] 1500 None None (after_calls ended_kernel cs) =
    Some (Inr (), after_calls ended_kernel (cs @ ds)) \<and> WAIT_ANY \<notin> set ds"
proof -
  have "acknowledging ended_kernel"
    by (auto simp: acknowledging_def ended_kernel_def accepting_kernel_def quiet_system_def CONTROL_BUFFER_def split: syscall.split message_call.split)
  then have "kernel_at 0 (after_calls ended_kernel cs)"
    using assms acknowledging_more by (simp add: kernel_at_def ended_answers)
  then obtain v' where v': "configure_namespace False (lit ''eth0'') [2, 0x79, 0x61, 0x79, 0x61, 2] 1500 None None (after_calls ended_kernel cs) = Some (Inr (), v')"
    using accepting_links_only [of "after_calls ended_kernel cs" "lit ''eth0''" "[2, 0x79, 0x61, 0x79, 0x61, 2]" 1500] by (auto simp: lit_def)
  have "issues (\<lambda>c. c \<noteq> WAIT_ANY) (configure_namespace big name addr mtu None None)" for big name addr mtu
    unfolding configure_namespace_def configure_family_def set_link_up_def interface_index_def
      route_request_def route_open_def wait_ack_def Let_def
    by (auto intro!: issued simp: WAIT_ANY_def split: option.split)
  from issuesD [OF this v'] obtain ds where "v' = after_calls ended_kernel (cs @ ds)" "list_all (\<lambda>c. c \<noteq> WAIT_ANY) ds"
    by auto
  then show ?thesis
    using v' by (auto simp: list_all_iff)
qed

lemma ended_report:
  "\<exists>v'. namespace_report sample_build 4 [] plain_launch None ended_kernel = Some (Inr 0 :: io_error + int, v')"
proof -
  let ?w = "after_calls ended_kernel"
  let ?r = "Msg (Recv 4 CONTROL_BUFFER 0)"
  let ?cs1 = "[Limit (Prctl PR_SET_PDEATHSIG SIGKILL), ?r, Mnt (Mount None (lit ''/'') None MS_REC_PRIVATE None),
    Mnt (Umount2 (lit ''/proc'') MNT_DETACH), Mnt (Mount (Some (lit ''proc'')) (lit ''/proc'') (Some (lit ''proc'')) MS_RESTRICTED None)]"
  obtain ds where ds: "configure_namespace False (lit ''eth0'') [2, 0x79, 0x61, 0x79, 0x61, 2] 1500 None None (?w ?cs1) = Some (Inr (), ?w (?cs1 @ ds))"
    "WAIT_ANY \<notin> set ds"
    using ended_network [of ?cs1] by (auto simp: sent_packets_def)
  obtain b1 where b1: "control_send 4 control_kind.Ready 1 [] (?w (?cs1 @ ds)) = Some (Inr (), ?w (?cs1 @ ds @ [Msg (Send 4 b1 MSG_NOSIGNAL)]))"
    using ended_send [of "[]" 4 control_kind.Ready 1 "?cs1 @ ds"] by auto
  let ?cs2 = "?cs1 @ ds @ [Msg (Send 4 b1 MSG_NOSIGNAL), ?r, Limit (Sigmask SIG_BLOCK HANDLED_SIGNALS),
    Limit (Signalfd HANDLED_SIGNALS SFD_NONBLOCK_CLOEXEC), Proc Getpid, Proc Fork]"
  have e1: "control_expect 4 control_kind.MapsReady (?w [Limit (Prctl PR_SET_PDEATHSIG SIGKILL)]) = Some (Inr [], ?w [Limit (Prctl PR_SET_PDEATHSIG SIGKILL), ?r])"
    using ended_messages [of "[Limit (Prctl PR_SET_PDEATHSIG SIGKILL)]"] by simp
  have e2: "control_expect 4 control_kind.Exec (?w (?cs1 @ ds @ [Msg (Send 4 b1 MSG_NOSIGNAL)])) = Some (Inr [], ?w (?cs1 @ ds @ [Msg (Send 4 b1 MSG_NOSIGNAL), ?r]))"
    using ended_messages [of "?cs1 @ ds @ [Msg (Send 4 b1 MSG_NOSIGNAL)]"] by simp
  obtain es where es: "set_nonblocking 4 True (?w ?cs2) = Some (Inr (), ?w (?cs2 @ es))" "WAIT_ANY \<notin> set es"
    by (auto simp: set_nonblocking_def bnd_def running ended_answers WAIT_ANY_def)
  obtain b2 where b2: "control_send 4 control_kind.Status 2 (to_le 4 (9 :: u32)) (?w (?cs2 @ es)) = Some (Inr (), ?w (?cs2 @ es @ [Msg (Send 4 b2 MSG_NOSIGNAL)]))"
    using ended_send [of "to_le 4 (9 :: u32)" 4 control_kind.Status 2 "?cs2 @ es"] by auto
  have loop: "init_loop 4 7 9 (?w (?cs2 @ es @ [Msg (Send 4 b2 MSG_NOSIGNAL)])) = Some (Inr 137,
      ?w (?cs2 @ es @ [Msg (Send 4 b2 MSG_NOSIGNAL)] @ [Io (Read 7 128), Msg (Recv 4 128 0), WAIT_ANY, WAIT_ANY, WAIT_ANY]))"
    using ended_run [of "?cs2 @ es @ [Msg (Send 4 b2 MSG_NOSIGNAL)]"] ds(2) es(2) by (simp add: WAIT_ANY_def)
  have "namespace_child_inner sample_build 4 [] plain_launch None ended_kernel = Some (Inr 137,
      ?w (?cs2 @ es @ [Msg (Send 4 b2 MSG_NOSIGNAL)] @ [Io (Read 7 128), Msg (Recv 4 128 0), WAIT_ANY, WAIT_ANY, WAIT_ANY]))"
    using e1 e2 b1 ds(1) es(1) b2 loop ended_messages
    by (simp add: namespace_child_inner_def sample_build_def plain_launch_def sample_launch_def network_synthetic_def Let_def
        and_then_def bnd_def attempt_def running env_is_def set_parent_death_signal_def ended_answers mount_private_proc_def
        debug_failpoint_def zip_addresses_def encode_io_def control_encode_def MAX_PAYLOAD_def
        signalfd_block_def fork_exec_def sandbox_enabled_def forbidden_call_def)
  then obtain cs where inner: "namespace_child_inner sample_build 4 [] plain_launch None ended_kernel = Some (Inr 137, ?w cs)"
    by blast
  obtain b3 where "control_send 4 control_kind.Exit 3 (to_le 4 (word_of_int 137 :: u32)) (?w cs) = Some (Inr (), ?w (cs @ [Msg (Send 4 b3 MSG_NOSIGNAL)]))"
    using ended_send [of "to_le 4 (word_of_int 137 :: u32)" 4 control_kind.Exit 3 cs] by auto
  then show ?thesis
    using inner by (simp add: namespace_report_def and_then_def bnd_def attempt_def ignoring_def running)
qed

theorem command_status_delivered_witness:
  "\<exists>v' ds t code u bs. namespace_report sample_build 4 [] plain_launch None ended_kernel = Some (Inr 0 :: io_error + int, v') \<and>
     target_report (after_calls ended_kernel (ds @ [Proc Fork])) t code u \<and> childless u \<and> v' = after_calls u [Msg (Send 4 bs MSG_NOSIGNAL)]"
proof -
  obtain v' where v': "namespace_report sample_build 4 [] plain_launch None ended_kernel = Some (Inr 0 :: io_error + int, v')"
    using ended_report by blast
  show ?thesis
    using command_status_delivered [OF v'] v' by blast
qed

section \<open>A client of the control socket\<close>

lemma no_signal_forwarded:
  "signalfd_read sg v = Some (Inr None, v1) \<Longrightarrow> forward_signals sg deliver v = Some (Inr (), v1)"
  unfolding forward_signals_def by (subst looping.simps) (simp add: bnd_def ok_def)

text \<open>What a client sends is unusable: nothing within the time limit, or no message.\<close>

definition unusable_request :: "system \<Rightarrow> fd \<Rightarrow> syscall list \<Rightarrow> bool" where
  "unusable_request v stream h \<longleftrightarrow> (let c = Io (Read stream 128)
     in sys_ret v h c = Inl EAGAIN \<or> (\<exists>n e. sys_ret v h c = Inr n \<and> decode_io (take 128 (sys_out v h c)) = Inl e))"

lemma serve_client_unusable:
  assumes "sys_ret v (calls v) (Msg (SetReadTimeout stream (from_millis 200))) = Inr n"
    and "unusable_request v stream (calls v @ [Msg (SetReadTimeout stream (from_millis 200))])"
  shows "\<exists>e. serve_client format J i ws stream v = Some (Inl e, after_calls v [Msg (SetReadTimeout stream (from_millis 200)), Io (Read stream 128)])"
  using assms by (auto simp: serve_client_def unusable_request_def and_then_def bnd_def running Let_def split: sum.split)

text \<open>The calls of an iteration that meets such a client, and those of the guard.\<close>

definition client_calls :: "fd \<Rightarrow> fd \<Rightarrow> fd \<Rightarrow> syscall list" where
  "client_calls sg lst stream = [Io (Read sg 128), Msg (Accept lst), Msg (SetReadTimeout stream (from_millis 200)), Io (Read stream 128)]"

definition guard_calls :: "(pid \<times> fd) list \<Rightarrow> syscall list" where
  "guard_calls children = map kill_of children @ map wait_of children"

lemma unusable_request_fails:
  assumes "sys_ret v (calls v) (Io (Read sg 128)) = Inl EAGAIN"
    and "sys_ret v (calls v @ take 1 (client_calls sg (listener i) stream)) (Msg (Accept (listener i))) = Inr stream"
    and "sys_ret v (calls v @ take 2 (client_calls sg (listener i) stream)) (Msg (SetReadTimeout stream (from_millis 200))) = Inr n"
    and "unusable_request v stream (calls v @ take 3 (client_calls sg (listener i) stream))"
  shows "\<exists>e. supervise_running b i sg nc ws np nf v = Some (Inl (IoFailed e), after_calls v (client_calls sg (listener i) stream))"
proof -
  let ?s = "after_calls v [Io (Read sg 128)]" and ?a = "after_calls v [Io (Read sg 128), Msg (Accept (listener i))]"
  have signals: "signalfd_read sg v = Some (Inr None, ?s)"
    using assms(1) by (simp add: signalfd_read_def bnd_def attempt_def running errno_defs)
  have "sys_ret ?a (calls ?a) (Msg (SetReadTimeout stream (from_millis 200))) = Inr n"
    "unusable_request ?a stream (calls ?a @ [Msg (SetReadTimeout stream (from_millis 200))])"
    using assms(3,4) by (simp_all add: unusable_request_def client_calls_def numeral_2_eq_2 numeral_3_eq_3)
  then obtain e where "serve_client (metadata_format b) (json_library b) i ws stream ?a =
      Some (Inl e, after_calls ?a [Msg (SetReadTimeout stream (from_millis 200)), Io (Read stream 128)])"
    using serve_client_unusable by blast
  then have "serve_status (metadata_format b) (json_library b) i ws ?s = Some (Inl e, after_calls v (client_calls sg (listener i) stream))"
    unfolding serve_status_def using assms(2)
    by (subst looping.simps) (simp add: bnd_def attempt_def and_then_def running client_calls_def)
  then show ?thesis
    unfolding supervise_running_def
    by (subst looping.simps) (simp add: supervise_iteration_def and_then_def bnd_def convert_def no_signal_forwarded [OF signals])
qed

text \<open>
  C37. A client can end the instance. Suppose the children have been started. When no signal is pending and a client has connected to
  the control socket and then sends nothing for 200 ms, or sends bytes that are not a message, the part of \<open>Supervisor::run\<close> under the
  child guard returns an I/O error, and all that it does after the client's request is to send \<open>SIGKILL\<close> to every worker and to
  the namespace init process and to wait for them; whether the command has ended is not looked at.
\<close>

theorem unusable_request_ends_supervision:
  assumes "start_children b l i0 hit nc ws np nf v0 = Some (Inr i, v)"
    and "sys_ret v (calls v) (Io (Read sg 128)) = Inl EAGAIN"
    and "sys_ret v (calls v @ take 1 (client_calls sg (listener i) stream)) (Msg (Accept (listener i))) = Inr stream"
    and "sys_ret v (calls v @ take 2 (client_calls sg (listener i) stream)) (Msg (SetReadTimeout stream (from_millis 200))) = Inr n"
    and "unusable_request v stream (calls v @ take 3 (client_calls sg (listener i) stream))"
  shows "\<exists>e. run_guarded b l i0 hit sg nc ws np nf v0 =
    Some (Inl (IoFailed e), after_calls v (client_calls sg (listener i) stream @ guard_calls (map handle ws @ [(np, nf)])))"
proof -
  obtain e where "supervise_running b i sg nc ws np nf v = Some (Inl (IoFailed e), after_calls v (client_calls sg (listener i) stream))"
    using unusable_request_fails [OF assms(2-5)] by blast
  then have "run_children b l i0 hit sg nc ws np nf v0 = Some (Inl (IoFailed e), after_calls v (client_calls sg (listener i) stream))"
    by (simp add: run_children_def bnd_def assms(1))
  then show ?thesis
    by (auto simp: run_guarded_def Let_def bnd_def attempt_def and_then_def guard_drop_run running guard_calls_def)
qed

text \<open>A kernel on which the one child starts, then a client connects and stays silent.\<close>

definition silent_client_kernel :: system where
  "silent_client_kernel = quiet_system\<lparr>
     sys_ret := \<lambda>h c. case c of Io (Read f n) \<Rightarrow> Inl EAGAIN | Msg (Send f p k) \<Rightarrow> Inr (int (length p)) | _ \<Rightarrow> Inr 6,
     sys_out := \<lambda>h c. case c of Msg (Recv f n k) \<Rightarrow>
         if c \<in> set h then projr (control_encode control_kind.Status 2 [9, 0, 0, 0]) else projr (control_encode control_kind.Ready 1 [])
       | _ \<Rightarrow> []\<rparr>"

definition sample_instance :: inst where
  "sample_instance = \<lparr>inst_directory = lit ''/run/a'', control_path = lit ''/run/a/control.sock'', listener = 3,
     metadata_path = lit ''/run/a/instance.json'',
     metadata = \<lparr>instance_id = [97], nonce = [98], im_version = [], started_unix_ms = 0, supervisor_pid = 1, dataplane_pid = None,
       dataplane_worker_pids = [], namespace_init_pid = None, im_target_pid = None, network_namespace_inode = None, im_state = []\<rparr>\<rparr>"

lemma silent_answers:
  "sys_ret silent_client_kernel h (File fc) = Inr 6" "sys_ret silent_client_kernel h (Proc pc) = Inr 6"
  "sys_ret silent_client_kernel h (Io (Read f n)) = Inl EAGAIN" "sys_ret silent_client_kernel h (Io (Write f bs)) = Inr 6"
  "sys_ret silent_client_kernel h (Io (Fcntl f x y)) = Inr 6" "sys_ret silent_client_kernel h (Msg (Send f p k)) = Inr (int (length p))"
  "sys_ret silent_client_kernel h (Msg (Recv f m k)) = Inr 6" "sys_ret silent_client_kernel h (Msg (Accept f)) = Inr 6"
  "sys_ret silent_client_kernel h (Msg (SetReadTimeout f d)) = Inr 6"
  "sys_out silent_client_kernel h (Msg (Recv f m k)) = (if Msg (Recv f m k) \<in> set h
     then projr (control_encode control_kind.Status 2 [9, 0, 0, 0]) else projr (control_encode control_kind.Ready 1 []))"
  "calls silent_client_kernel = []"
  by (simp_all add: silent_client_kernel_def quiet_system_def)

lemma silent_persist:
  "\<exists>ds. with_metadata (metadata_format sample_build) i m (after_calls silent_client_kernel cs) =
     Some (Inr (i\<lparr>metadata := m\<rparr>), after_calls silent_client_kernel (cs @ ds)) \<and> list_all (\<lambda>c. c \<noteq> Msg (Recv 5 CONTROL_BUFFER 0)) ds"
  by (auto simp: with_metadata_def persist_def sample_build_def Let_def and_then_def bnd_def running silent_answers)

lemma silent_updates:
  "\<exists>i1 ds. update_children (metadata_format sample_build) i ps p (after_calls silent_client_kernel cs) =
     Some (Inr i1, after_calls silent_client_kernel (cs @ ds)) \<and> listener i1 = listener i"
  "\<exists>i1 ds. set_target_pid (metadata_format sample_build) i p (after_calls silent_client_kernel cs) =
     Some (Inr i1, after_calls silent_client_kernel (cs @ ds)) \<and> listener i1 = listener i"
proof -
  obtain ds where "\<And>i m cs. with_metadata (metadata_format sample_build) i m (after_calls silent_client_kernel cs) =
     Some (Inr (i\<lparr>metadata := m\<rparr>), after_calls silent_client_kernel (cs @ ds i m cs))"
    using silent_persist by metis
  then show "\<exists>i1 ds. update_children (metadata_format sample_build) i ps p (after_calls silent_client_kernel cs) =
     Some (Inr i1, after_calls silent_client_kernel (cs @ ds)) \<and> listener i1 = listener i"
    and "\<exists>i1 ds. set_target_pid (metadata_format sample_build) i p (after_calls silent_client_kernel cs) =
     Some (Inr i1, after_calls silent_client_kernel (cs @ ds)) \<and> listener i1 = listener i"
    by (auto simp: update_children_def set_target_pid_def bnd_def running silent_answers)
qed

lemma silent_send: "\<exists>bs. control_send f k rid [] (after_calls silent_client_kernel cs) =
    Some (Inr (), after_calls silent_client_kernel (cs @ [Msg (Send f bs MSG_NOSIGNAL)]))"
  by (auto simp: control_send_def encode_io_def control_encode_def MAX_PAYLOAD_def send_packet_def bnd_def running silent_answers)

lemma status_message:
  "decode_io (projr (control_encode control_kind.Status 2 [9, 0, 0, 0])) = Inr \<lparr>msg_kind = control_kind.Status, request_id = 2, msg_payload = [9, 0, 0, 0]\<rparr>"
  "length (projr (control_encode control_kind.Status 2 [9, 0, 0, 0])) = 24" "projr (control_encode control_kind.Status 2 [9, 0, 0, 0]) \<noteq> []"
  using decode_of_encode [of "\<lparr>msg_kind = control_kind.Status, request_id = 2, msg_payload = [9, 0, 0, 0]\<rparr>"]
  by (simp_all add: decode_io_def control_encode_def MAX_PAYLOAD_def MAGIC_def)

lemma silent_receive:
  "control_receive 5 CONTROL_BUFFER (after_calls silent_client_kernel cs) = Some (Inr (if Msg (Recv 5 CONTROL_BUFFER 0) \<in> set cs
     then \<lparr>msg_kind = control_kind.Status, request_id = 2, msg_payload = [9, 0, 0, 0]\<rparr> else \<lparr>msg_kind = control_kind.Ready, request_id = 1, msg_payload = []\<rparr>),
     after_calls silent_client_kernel (cs @ [Msg (Recv 5 CONTROL_BUFFER 0)]))"
proof -
  have "24 \<le> CONTROL_BUFFER"
    by (simp add: CONTROL_BUFFER_def MAX_PAYLOAD_def)
  then show ?thesis
    using sent_message status_message by (simp add: control_receive_def recv_packet_def bnd_def running silent_answers)
qed

lemma silent_maps:
  "\<exists>ds. write_identity_maps p (after_calls silent_client_kernel cs) = Some (Inr (), after_calls silent_client_kernel (cs @ ds)) \<and>
     list_all (\<lambda>c. c \<noteq> Msg (Recv 5 CONTROL_BUFFER 0)) ds"
  by (auto simp: write_identity_maps_def Let_def and_then_def bnd_def attempt_def running silent_answers)

lemma silent_nonblocking: "\<exists>ds. set_nonblocking f e (after_calls silent_client_kernel cs) = Some (Inr (), after_calls silent_client_kernel (cs @ ds))"
  by (auto simp: set_nonblocking_def bnd_def running silent_answers)

lemma sample_started:
  "\<exists>i cs. start_children sample_build plain_launch sample_instance False 5 [] 10 11 silent_client_kernel =
     Some (Inr i, after_calls silent_client_kernel cs) \<and> listener i = 3"
proof -
  let ?w = "after_calls silent_client_kernel" and ?r = "Msg (Recv 5 CONTROL_BUFFER 0)"
  obtain a where a: "write_identity_maps 10 silent_client_kernel = Some (Inr (), ?w a)" "?r \<notin> set a"
    using silent_maps [of 10 "[]"] by (auto simp: list_all_iff)
  obtain b where b: "control_send 5 control_kind.MapsReady 1 [] (?w a) = Some (Inr (), ?w (a @ [Msg (Send 5 b MSG_NOSIGNAL)]))"
    using silent_send by blast
  let ?a1 = "a @ [Msg (Send 5 b MSG_NOSIGNAL), ?r]"
  have ready: "expect_ready 5 True (?w (a @ [Msg (Send 5 b MSG_NOSIGNAL)])) = Some (Inr (), ?w ?a1)"
    using a(2) by (simp add: expect_ready_def bnd_def convert_def silent_receive running)
  obtain i1 c where c: "update_children (metadata_format sample_build) sample_instance [] 10 (?w ?a1) = Some (Inr i1, ?w (?a1 @ c))" "listener i1 = 3"
    using silent_updates(1) [of sample_instance "[]" 10 ?a1] by (auto simp: sample_instance_def)
  obtain d where d: "control_send 5 control_kind.Exec 2 [] (?w (?a1 @ c)) = Some (Inr (), ?w (?a1 @ c @ [Msg (Send 5 d MSG_NOSIGNAL)]))"
    using silent_send [of 5 control_kind.Exec 2 "?a1 @ c"] by auto
  let ?a2 = "?a1 @ c @ [Msg (Send 5 d MSG_NOSIGNAL), ?r]"
  have status: "control_expect 5 control_kind.Status (?w (?a1 @ c @ [Msg (Send 5 d MSG_NOSIGNAL)])) = Some (Inr [9, 0, 0, 0], ?w ?a2)"
    by (simp add: control_expect_def bnd_def silent_receive running)
  obtain i2 e where e: "set_target_pid (metadata_format sample_build) i1 (sint (from_le [9, 0, 0, 0] :: u32)) (?w ?a2) = Some (Inr i2, ?w (?a2 @ e))" "listener i2 = 3"
    using silent_updates(2) [of i1 _ ?a2] c(2) by metis
  obtain f where f: "set_nonblocking 5 True (?w (?a2 @ e)) = Some (Inr (), ?w (?a2 @ e @ f))"
    using silent_nonblocking [of 5 True "?a2 @ e"] by auto
  have "start_children sample_build plain_launch sample_instance False 5 [] 10 11 silent_client_kernel = Some (Inr i2, ?w (?a2 @ e @ f))"
    using a b ready c d status e f
    by (simp add: start_children_def Let_def and_then_def bnd_def attempt_def convert_def running or_kill_def plain_launch_def
        sandbox_enabled_def forbidden_call_def)
  then show ?thesis
    using e(2) by blast
qed

theorem unusable_request_ends_supervision_witness:
  "\<exists>e v'. run_guarded sample_build plain_launch sample_instance False 4 5 [] 10 11 silent_client_kernel = Some (Inl (IoFailed e), v') \<and>
     kill_of (10, 11) \<in> set (calls v') \<and> wait_of (10, 11) \<in> set (calls v')"
proof -
  obtain i cs where i: "start_children sample_build plain_launch sample_instance False 5 [] 10 11 silent_client_kernel =
     Some (Inr i, after_calls silent_client_kernel cs)"
    using sample_started by blast
  have "\<exists>e. run_guarded sample_build plain_launch sample_instance False 4 5 [] 10 11 silent_client_kernel =
      Some (Inl (IoFailed e), after_calls (after_calls silent_client_kernel cs) (client_calls 4 (listener i) 6 @ guard_calls (map handle [] @ [(10, 11)])))"
    by (rule unusable_request_ends_supervision [OF i]) (simp_all add: silent_answers unusable_request_def)
  then show ?thesis
    by (auto simp: guard_calls_def)
qed

section \<open>Metrics\<close>

text \<open>The number that a worker reports under a key, 0 when it reports none.\<close>

definition worker_value :: "'j json \<Rightarrow> bytes \<Rightarrow> 'j \<Rightarrow> nat" where
  "worker_value J key m =
     (case Option.bind (as_object J m) (\<lambda>es. map_of es key) of None \<Rightarrow> 0
      | Some z \<Rightarrow> (case as_u64 J z of None \<Rightarrow> 0 | Some n \<Rightarrow> unat n))"

lemma merge_entry_other: "merge_entry J aggregate k v = Inr aggregate' \<Longrightarrow> key \<noteq> k \<Longrightarrow> map_of aggregate' key = map_of aggregate key"
  by (auto simp: merge_entry_def update_conv split: option.splits if_splits)

lemma merge_entries_absent:
  "merge_entries J aggregate es = Inr aggregate' \<Longrightarrow> key \<notin> fst ` set es \<Longrightarrow> map_of aggregate' key = map_of aggregate key"
  by (induction J aggregate es rule: merge_entries.induct) (auto simp: merge_entry_other split: sum.splits)

lemma merge_entries_value:
  assumes J: "\<And>n. as_u64 J (of_u64 J n) = Some n" and counter: "key \<notin> set INVARIANT_FIELDS"
  shows "merge_entries J aggregate es = Inr aggregate' \<Longrightarrow> distinct (map fst es) \<Longrightarrow> map_of aggregate key = Some x \<Longrightarrow>
    as_u64 J x = Some t \<Longrightarrow>
    \<exists>y u. map_of aggregate' key = Some y \<and> as_u64 J y = Some u \<and>
      unat u = min (2 ^ 64 - 1) (unat t + (case map_of es key of None \<Rightarrow> 0 | Some z \<Rightarrow> (case as_u64 J z of None \<Rightarrow> 0 | Some n \<Rightarrow> unat n)))"
proof (induction es arbitrary: aggregate x t)
  case Nil
  then show ?case
    using unsigned_less [of t, where 'a = nat] by (auto simp: min_def)
next
  case (Cons e rest)
  obtain k z where e: "e = (k, z)"
    by (cases e)
  obtain mid where mid: "merge_entry J aggregate k z = Inr mid" "merge_entries J mid rest = Inr aggregate'"
    using Cons.prems(1) by (auto simp: e split: sum.splits)
  show ?case
  proof (cases "k = key")
    case False
    then show ?thesis
      using Cons.IH [OF mid(2)] Cons.prems(2-) merge_entry_other [OF mid(1), of key] by (simp add: e)
  next
    case True
    obtain n where n: "as_u64 J z = Some n" "map_of mid key = Some (of_u64 J (saturating_add t n))"
      using mid(1) Cons.prems(3,4) counter True by (auto simp: merge_entry_def update_conv split: option.splits)
    have "map_of aggregate' key = map_of mid key"
      using merge_entries_absent [OF mid(2)] Cons.prems(2) True by (simp add: e)
    then show ?thesis
      using n J by (simp add: e True unat_saturating_add)
  qed
qed

lemma merge_workers_value:
  assumes J: "\<And>n. as_u64 J (of_u64 J n) = Some n" and counter: "key \<notin> set INVARIANT_FIELDS"
  shows "merge_workers J aggregate ms = Inr aggregate' \<Longrightarrow> \<forall>m \<in> set ms. \<forall>es. as_object J m = Some es \<longrightarrow> distinct (map fst es) \<Longrightarrow>
    map_of aggregate key = Some x \<Longrightarrow> as_u64 J x = Some t \<Longrightarrow>
    \<exists>y u. map_of aggregate' key = Some y \<and> as_u64 J y = Some u \<and> unat u = min (2 ^ 64 - 1) (unat t + (\<Sum>m\<leftarrow>ms. worker_value J key m))"
proof (induction ms arbitrary: aggregate x t)
  case Nil
  then show ?case
    using unsigned_less [of t, where 'a = nat] by (auto simp: min_def)
next
  case (Cons m ms)
  obtain es mid where es: "as_object J m = Some es" and mid: "merge_entries J aggregate es = Inr mid" "merge_workers J mid ms = Inr aggregate'"
    using Cons.prems(1) by (auto split: option.splits sum.splits)
  have "distinct (map fst es)"
    using Cons.prems(2) es by simp
  from merge_entries_value [OF J counter mid(1) this Cons.prems(3,4)] obtain y u where y: "map_of mid key = Some y" "as_u64 J y = Some u"
    "unat u = min (2 ^ 64 - 1) (unat t + worker_value J key m)"
    by (auto simp: worker_value_def es)
  from Cons.IH [OF mid(2) _ y(1,2)] Cons.prems(2) y(3) show ?case
    by (auto simp: min_def)
qed

lemma merge_entries_same:
  assumes "key \<in> set INVARIANT_FIELDS"
  shows "merge_entries J aggregate es = Inr aggregate' \<Longrightarrow> map_of aggregate' key = map_of aggregate key \<and>
    (\<forall>z. (key, z) \<in> set es \<longrightarrow> map_of aggregate key = Some z)"
proof (induction es arbitrary: aggregate)
  case (Cons e rest)
  obtain k z where e: "e = (k, z)"
    by (cases e)
  obtain mid where mid: "merge_entry J aggregate k z = Inr mid" "merge_entries J mid rest = Inr aggregate'"
    using Cons.prems(1) by (auto simp: e split: sum.splits)
  then show ?case
    using Cons.IH [OF mid(2)] assms merge_entry_other [OF mid(1), of key]
    by (cases "k = key") (auto simp: e merge_entry_def split: option.splits if_splits)
qed simp

lemma merge_workers_same:
  assumes "key \<in> set INVARIANT_FIELDS"
  shows "merge_workers J aggregate ms = Inr aggregate' \<Longrightarrow> map_of aggregate' key = map_of aggregate key \<and>
    (\<forall>m \<in> set ms. \<forall>es z. as_object J m = Some es \<longrightarrow> (key, z) \<in> set es \<longrightarrow> map_of aggregate key = Some z)"
proof (induction ms arbitrary: aggregate)
  case (Cons m ms)
  obtain es mid where es: "as_object J m = Some es" and mid: "merge_entries J aggregate es = Inr mid" "merge_workers J mid ms = Inr aggregate'"
    using Cons.prems(1) by (auto split: option.splits sum.splits)
  then show ?case
    using Cons.IH [OF mid(2)] merge_entries_same [OF assms mid(1)] by auto
qed simp

text \<open>
  C22. The metrics of an instance are those of its workers taken together. When the workers' objects are merged, every counter of
  the first worker is in the result with the sum over all workers, saturated at the largest 64-bit number; the
  fields that describe the TAP device have the one value that all workers agree on; and the number of workers
  is recorded. The JSON library is assumed to read back the numbers that it stores, and an object to have
  no key twice.
\<close>

theorem metrics_are_sums:
  assumes J: "\<And>n. as_u64 J (of_u64 J n) = Some n" and keys: "\<forall>m \<in> set ms. \<forall>es. as_object J m = Some es \<longrightarrow> distinct (map fst es)"
    and merged: "merge_dataplane_metrics J ms = Inr j"
  shows "\<exists>aggregate es. j = of_object J aggregate \<and> as_object J (hd ms) = Some es \<and>
    map_of aggregate (lit ''workers'') = Some (of_u64 J (word_of_nat (length ms))) \<and>
    (\<forall>key x t. key \<notin> set INVARIANT_FIELDS \<and> key \<noteq> lit ''workers'' \<and> map_of es key = Some x \<and> as_u64 J x = Some t \<longrightarrow>
      (\<exists>y u. map_of aggregate key = Some y \<and> as_u64 J y = Some u \<and> unat u = min (2 ^ 64 - 1) (\<Sum>m\<leftarrow>ms. worker_value J key m))) \<and>
    (\<forall>key \<in> set INVARIANT_FIELDS. \<forall>m \<in> set ms. \<forall>es' z. as_object J m = Some es' \<and> map_of es' key = Some z \<longrightarrow> map_of aggregate key = Some z)"
proof -
  obtain m rest es aggregate where ms: "ms = m # rest" and es: "as_object J m = Some es"
    and rest: "merge_workers J es rest = Inr aggregate"
    and j: "j = of_object J (AList.update (lit ''workers'') (of_u64 J (word_of_nat (length ms))) aggregate)"
    using merged by (auto simp: merge_dataplane_metrics_def split: list.splits option.splits sum.splits)
  have counters: "\<exists>y u. map_of aggregate key = Some y \<and> as_u64 J y = Some u \<and> unat u = min (2 ^ 64 - 1) (\<Sum>m\<leftarrow>ms. worker_value J key m)"
    if "key \<notin> set INVARIANT_FIELDS" "map_of es key = Some x" "as_u64 J x = Some t" for key x t
    using merge_workers_value [OF J that(1) rest _ that(2,3)] keys that by (simp add: ms worker_value_def es)
  have agreed: "map_of aggregate key = Some z"
    if "key \<in> set INVARIANT_FIELDS" "m' \<in> set ms" "as_object J m' = Some es'" "map_of es' key = Some z" for key m' es' z
    using merge_workers_same [OF that(1) rest] that(2-) es map_of_SomeD [OF that(4)] by (auto simp: ms)
  define all where "all = AList.update (lit ''workers'') (of_u64 J (word_of_nat (length ms))) aggregate"
  have other: "map_of all key = map_of aggregate key" if "key \<noteq> lit ''workers''" for key
    using that by (simp add: all_def update_conv)
  have "lit ''workers'' \<notin> set INVARIANT_FIELDS"
    by (simp add: INVARIANT_FIELDS_def lit_def)
  then have fields: "map_of all key = map_of aggregate key" if "key \<in> set INVARIANT_FIELDS" for key
    using other that by metis
  have workers: "map_of all (lit ''workers'') = Some (of_u64 J (word_of_nat (length ms)))"
    by (simp add: all_def update_conv)
  have "j = of_object J all" "as_object J (hd ms) = Some es"
    using j es by (simp_all add: all_def ms)
  moreover have "\<exists>y u. map_of all key = Some y \<and> as_u64 J y = Some u \<and> unat u = min (2 ^ 64 - 1) (\<Sum>m\<leftarrow>ms. worker_value J key m)"
    if "key \<notin> set INVARIANT_FIELDS \<and> key \<noteq> lit ''workers'' \<and> map_of es key = Some x \<and> as_u64 J x = Some t" for key x t
    using counters [of key x t] other [of key] that by presburger
  moreover have "map_of all key = Some z"
    if "key \<in> set INVARIANT_FIELDS" "m' \<in> set ms" "as_object J m' = Some es' \<and> map_of es' key = Some z" for key m' es' z
    using agreed [of key m' es' z] fields [of key] that by presburger
  ultimately show ?thesis
    using workers by blast
qed

datatype sample_json = SampleNumber u64 | SampleObject "(bytes \<times> sample_json) list"

definition sample_json_library :: "sample_json json" where
  "sample_json_library = \<lparr>as_object = \<lambda>j. (case j of SampleObject es \<Rightarrow> Some es | _ \<Rightarrow> None), of_object = SampleObject,
     as_u64 = \<lambda>j. (case j of SampleNumber n \<Rightarrow> Some n | _ \<Rightarrow> None), of_u64 = SampleNumber, parse_json = \<lambda>_. None, render_json = \<lambda>_. None\<rparr>"

definition sample_metrics :: "sample_json list" where
  "sample_metrics = [SampleObject [(lit ''tap_mtu'', SampleNumber 1500), (lit ''tap_rx_packets'', SampleNumber 2)],
     SampleObject [(lit ''tap_mtu'', SampleNumber 1500), (lit ''tap_rx_packets'', SampleNumber (- 1))]]"

lemma sample_merged: "merge_dataplane_metrics sample_json_library sample_metrics
   = Inr (SampleObject [(lit ''tap_mtu'', SampleNumber 1500), (lit ''tap_rx_packets'', SampleNumber (- 1)), (lit ''workers'', SampleNumber 2)])"
  by (simp add: merge_dataplane_metrics_def sample_metrics_def sample_json_library_def merge_entry_def INVARIANT_FIELDS_def lit_def
      saturating_add_def unsigned_minus_1_eq_mask mask_eq_exp_minus_1)

theorem metrics_are_sums_witness:
  "\<exists>aggregate u. merge_dataplane_metrics sample_json_library sample_metrics = Inr (SampleObject aggregate) \<and>
     map_of aggregate (lit ''tap_rx_packets'') = Some (SampleNumber u) \<and>
     unat u = min (2 ^ 64 - 1) (\<Sum>m\<leftarrow>sample_metrics. worker_value sample_json_library (lit ''tap_rx_packets'') m)"
proof -
  have "\<forall>m \<in> set sample_metrics. \<forall>es. as_object sample_json_library m = Some es \<longrightarrow> distinct (map fst es)"
    by (simp add: sample_metrics_def sample_json_library_def lit_def)
  from metrics_are_sums [OF _ this sample_merged] obtain aggregate es where a:
    "SampleObject [(lit ''tap_mtu'', SampleNumber 1500), (lit ''tap_rx_packets'', SampleNumber (- 1)), (lit ''workers'', SampleNumber 2)]
       = of_object sample_json_library aggregate"
    "as_object sample_json_library (hd sample_metrics) = Some es"
    "\<And>key x t. key \<notin> set INVARIANT_FIELDS \<Longrightarrow> key \<noteq> lit ''workers'' \<Longrightarrow> map_of es key = Some x \<Longrightarrow> as_u64 sample_json_library x = Some t \<Longrightarrow>
      (\<exists>y u. map_of aggregate key = Some y \<and> as_u64 sample_json_library y = Some u \<and>
        unat u = min (2 ^ 64 - 1) (\<Sum>m\<leftarrow>sample_metrics. worker_value sample_json_library key m))"
    by (auto simp: sample_json_library_def)
  have key: "lit ''tap_rx_packets'' \<notin> set INVARIANT_FIELDS" "lit ''tap_rx_packets'' \<noteq> lit ''workers''"
    "map_of es (lit ''tap_rx_packets'') = Some (SampleNumber 2)" "as_u64 sample_json_library (SampleNumber 2) = Some 2"
    using a(2) by (auto simp: INVARIANT_FIELDS_def lit_def sample_metrics_def sample_json_library_def)
  have lib: "of_object sample_json_library = SampleObject" "as_u64 sample_json_library y = Some u \<longleftrightarrow> y = SampleNumber u" for y u
    by (auto simp: sample_json_library_def split: sample_json.splits)
  obtain u where "map_of aggregate (lit ''tap_rx_packets'') = Some (SampleNumber u)"
    "unat u = min (2 ^ 64 - 1) (\<Sum>m\<leftarrow>sample_metrics. worker_value sample_json_library (lit ''tap_rx_packets'') m)"
    using a(3) [OF key] unfolding lib by blast
  moreover have "merge_dataplane_metrics sample_json_library sample_metrics = Inr (SampleObject aggregate)"
    using sample_merged a(1) unfolding lib by simp
  ultimately show ?thesis
    by blast
qed

section \<open>The confinement of the data plane\<close>

lemma install_performed:
  assumes "install debug arch gen p w = Some (Inr (), w')"
  shows "\<exists>prog act. performed w w' (Limit (SeccompFilter prog)) \<and> (act = RET_KILL_PROCESS \<or> debug \<and> act = RET_LOG) \<and>
    (\<forall>data. bpf_run prog data 0 = Some (seccomp_policy arch (profile_syscalls gen p) act data))"
proof -
  obtain t w1 prog where t: "traced debug w = Some (Inr t, w1)"
    and prog: "build_filter arch (profile_syscalls gen p) (if t then RET_LOG else RET_KILL_PROCESS) = Inr prog"
    and filter: "perform (Limit (SeccompFilter prog)) w1 = Some (Inr (), w')"
    using assms by (auto simp: install_def success ok_outcome split: if_splits)
  have "t \<longrightarrow> debug" "follows w w1"
    using traced_run [of debug w] t by (auto simp: follows_def)
  then show ?thesis
    using performed_around [OF _ perform_performed [OF filter] follows_refl] build_filter_run [OF prog, where a = 0] by metis
qed

text \<open>
  What the calls of \<open>mount(2)\<close>, \<open>pivot_root(2)\<close> and their like do, as far as a process can reach files: its root, its working
  directory and the mounts that it sees by their paths, each either the host's tree or a fresh \<open>tmpfs\<close>, and the
  directories in the latter.
\<close>

datatype file_tree = HostFiles | FreshTmpfs

record file_view =
  view_root :: file_tree
  view_working :: file_tree
  view_mounts :: "(bytes \<times> file_tree) list"
  view_private :: bool
  tmpfs_flags :: int
  tmpfs_entries :: "bytes list"

definition host_view :: file_view where
  "host_view = \<lparr>view_root = HostFiles, view_working = HostFiles, view_mounts = [], view_private = False, tmpfs_flags = 0, tmpfs_entries = []\<rparr>"

text \<open>The name of a path in the fresh file system, seen through one of its mount points or as the root.\<close>

definition tmpfs_name :: "file_view \<Rightarrow> bytes \<Rightarrow> bytes list" where
  "tmpfs_name s path =
     (if view_root s = FreshTmpfs \<and> take 1 path = lit ''/'' then [drop 1 path] else []) @
     concat (map (\<lambda>(p, t). if t = FreshTmpfs \<and> take (length p + 1) path = p @ lit ''/'' then [drop (length p + 1) path] else []) (view_mounts s))"

fun mount_effect :: "mount_call \<Rightarrow> file_view \<Rightarrow> file_view" where
  "mount_effect (Mount src path ty flags data) s =
     (if src = None \<and> path = lit ''/'' \<and> flags = MS_REC_PRIVATE then s\<lparr>view_private := True\<rparr>
      else if ty = Some (lit ''tmpfs'')
      then s\<lparr>view_mounts := (path, FreshTmpfs) # view_mounts s, tmpfs_flags := flags, tmpfs_entries := []\<rparr>
      else s)"
| "mount_effect (Umount2 path flags) s = s\<lparr>view_mounts := filter (\<lambda>(p, t). p \<noteq> path) (view_mounts s)\<rparr>"
| "mount_effect (Mkdir path mode) s = s\<lparr>tmpfs_entries := tmpfs_name s path @ tmpfs_entries s\<rparr>"
| "mount_effect (Rmdir path) s = s\<lparr>tmpfs_entries := filter (\<lambda>n. n \<notin> set (tmpfs_name s path)) (tmpfs_entries s)\<rparr>"
| "mount_effect (Chdir path) s = s\<lparr>view_working := (case map_of (view_mounts s) path of Some t \<Rightarrow> t | None \<Rightarrow> view_root s)\<rparr>"
| "mount_effect (PivotRoot new old) s =
     (if new = lit ''.'' then s\<lparr>view_root := view_working s, view_mounts := [(lit ''/'' @ old, view_root s)]\<rparr> else s)"

fun call_effect :: "syscall \<Rightarrow> file_view \<Rightarrow> file_view" where
  "call_effect (Mnt c) s = mount_effect c s"
| "call_effect _ s = s"

text \<open>Nothing of the host is left to reach: the root is a private, empty, restricted \<open>tmpfs\<close>.\<close>

definition empty_root :: "file_view \<Rightarrow> bool" where
  "empty_root s \<longleftrightarrow> s = \<lparr>view_root = FreshTmpfs, view_working = FreshTmpfs, view_mounts = [], view_private = True,
     tmpfs_flags = MS_RESTRICTED, tmpfs_entries = []\<rparr>"

definition not_mount :: "syscall \<Rightarrow> bool" where
  "not_mount c \<longleftrightarrow> (case c of Mnt m \<Rightarrow> False | _ \<Rightarrow> True)"

definition root_replaced :: "system \<Rightarrow> system \<Rightarrow> bool" where
  "root_replaced v u \<longleftrightarrow> (\<exists>cs. u = after_calls v cs \<and> empty_root (fold call_effect cs host_view) \<and>
     (\<forall>k < length cs. \<not> not_mount (cs ! k) \<longrightarrow> (\<exists>n. sys_ret v (calls v @ take k cs) (cs ! k) = Inr n)))"

lemma no_mount_effect: "list_all not_mount cs \<Longrightarrow> fold call_effect cs s = s"
proof (induction cs arbitrary: s)
  case (Cons c cs)
  then show ?case
    by (cases c) (simp_all add: not_mount_def)
qed simp

lemma isolated_view:
  "empty_root (fold call_effect
     [Mnt (Mount None (lit ''/'') None MS_REC_PRIVATE None),
      Mnt (Mount (Some (lit ''tmpfs'')) (lit ''/tmp'') (Some (lit ''tmpfs'')) MS_RESTRICTED (Some (lit ''size=64k,mode=0700''))),
      Mnt (Mkdir (lit ''/tmp/.old_root'') 448), Mnt (Chdir (lit ''/tmp'')), Mnt (PivotRoot (lit ''.'') (lit ''.old_root'')),
      Mnt (Chdir (lit ''/'')), Mnt (Umount2 (lit ''/.old_root'') MNT_DETACH), Mnt (Rmdir (lit ''/.old_root''))] host_view)"
  by (simp add: empty_root_def host_view_def tmpfs_name_def lit_def MS_REC_PRIVATE_def MS_RESTRICTED_def)

lemma performed_all:
  "for_each perform cs w = Some (Inr (), w') \<Longrightarrow>
     w' = after_calls w cs \<and> (\<forall>k < length cs. \<exists>n. sys_ret w (calls w @ take k cs) (cs ! k) = Inr n)"
proof (induction cs arbitrary: w)
  case (Cons d cs)
  obtain n where n: "sys_ret w (calls w) d = Inr n" and rest: "for_each perform cs (after_calls w [d]) = Some (Inr (), w')"
    using Cons.prems by (auto simp: success perform_outcome)
  from Cons.IH [OF rest] show ?case
    using n by (auto simp: less_Suc_eq_0_disj)
qed (simp add: ok_outcome)

lemma root_replaced_isolated:
  assumes "v1 = after_calls v cs" "list_all not_mount cs" "isolate_filesystem v1 = Some (Inr (), v2)" "u = after_calls v2 es" "list_all not_mount es"
  shows "root_replaced v u"
proof -
  define ms where "ms = [Mnt (Mount None (lit ''/'') None MS_REC_PRIVATE None),
      Mnt (Mount (Some (lit ''tmpfs'')) (lit ''/tmp'') (Some (lit ''tmpfs'')) MS_RESTRICTED (Some (lit ''size=64k,mode=0700''))),
      Mnt (Mkdir (lit ''/tmp/.old_root'') 448), Mnt (Chdir (lit ''/tmp'')), Mnt (PivotRoot (lit ''.'') (lit ''.old_root'')),
      Mnt (Chdir (lit ''/'')), Mnt (Umount2 (lit ''/.old_root'') MNT_DETACH), Mnt (Rmdir (lit ''/.old_root''))]"
  have run: "v2 = after_calls v1 ms" and ok: "\<And>k. k < length ms \<Longrightarrow> \<exists>n. sys_ret v1 (calls v1 @ take k ms) (ms ! k) = Inr n"
    using performed_all [OF assms(3) [unfolded isolate_filesystem_def]] unfolding ms_def [symmetric] by blast+
  have "empty_root (fold call_effect (cs @ ms @ es) host_view)"
    using isolated_view by (simp only: fold_append comp_apply no_mount_effect assms(2,5) ms_def)
  moreover have "\<exists>n. sys_ret v (calls v @ take k (cs @ ms @ es)) ((cs @ ms @ es) ! k) = Inr n"
    if k: "k < length (cs @ ms @ es)" "\<not> not_mount ((cs @ ms @ es) ! k)" for k
  proof -
    have "\<not> k < length cs"
      using k assms(2) by (auto simp: list_all_length nth_append)
    moreover have "\<not> length cs + length ms \<le> k"
      using k assms(5) by (auto simp: list_all_length nth_append dest!: le_Suc_ex)
    ultimately have "\<not> k < length cs" "k - length cs < length ms"
      by linarith+
    then show ?thesis
      using ok [of "k - length cs"] assms(1) by (simp add: nth_append)
  qed
  moreover have "u = after_calls v (cs @ ms @ es)"
    using assms(1,4) run by simp
  ultimately show ?thesis
    unfolding root_replaced_def by blast
qed

text \<open>The calls that confine a data-plane process.\<close>

definition confined :: "'j build \<Rightarrow> sandbox_config \<Rightarrow> reactor_config \<Rightarrow> system \<Rightarrow> system \<Rightarrow> bool" where
  "confined b sb c v u \<longleftrightarrow>
     (let limit = max_tcp_flows c + max_udp_flows c + 2 * max_udp_associations c + 32
      in limit < 2 ^ 64 \<and> performed v u (Limit (Setrlimit RLIMIT_NOFILE (word_of_nat limit) (word_of_nat limit)))) \<and>
     performed v u (Limit (Prctl PR_SET_PDEATHSIG SIGKILL)) \<and>
     performed v u (Limit (Capset LINUX_CAPABILITY_VERSION_3 [(0, 0, 0), (0, 0, 0)])) \<and>
     performed v u (Limit (Prctl PR_SET_NO_NEW_PRIVS 1)) \<and>
     (sandbox_enabled sb \<longrightarrow>
        performed v u (Limit (Setrlimit RLIMIT_CORE 0 0)) \<and> root_replaced v u \<and>
        (\<exists>prog act. performed v u (Limit (SeccompFilter prog)) \<and> (act = RET_KILL_PROCESS \<or> debug_assertions b \<and> act = RET_LOG) \<and>
           (\<forall>data. bpf_run prog data 0 = Some (seccomp_policy (build_arch b) (profile_syscalls (build_syscalls b) DataPlane) act data))))"

lemma no_mounts:
  "issues not_mount (control_expect f k)" "issues not_mount (recv_fd f n)" "issues not_mount (env_is d var val)"
  "issues not_mount (forbidden_call hit)" "issues not_mount (control_send f k rid body)" "issues not_mount (set_nonblocking f e)"
  "issues not_mount (set_nofile_limit limit)" "issues not_mount (set_parent_death_signal sg)" "issues not_mount disable_core_dumps"
  "issues not_mount drop_all_capabilities" "issues not_mount set_no_new_privs" "issues not_mount (install dbg a gen pr)"
  unfolding control_expect_def control_receive_def recv_packet_def recv_fd_def env_is_def forbidden_call_def control_send_def send_packet_def
    set_nonblocking_def set_nofile_limit_def set_parent_death_signal_def disable_core_dumps_def drop_all_capabilities_def drop_bounding_def
    set_no_new_privs_def install_def traced_def TRACE_VARIABLE_def Let_def
  by (auto intro!: issued simp: not_mount_def split: list.split sum.split option.split)

text \<open>What a run of programs without mount calls leaves in the record.\<close>

definition unmounted :: "system \<Rightarrow> system \<Rightarrow> bool" where
  "unmounted v w \<longleftrightarrow> (\<exists>cs. w = after_calls v cs \<and> list_all not_mount cs)"

lemma unmounted_trans: "unmounted u v \<Longrightarrow> unmounted v w \<Longrightarrow> unmounted u w"
  unfolding unmounted_def by (fastforce simp: list_all_append)

lemma unmounted_follows: "unmounted v w \<Longrightarrow> follows v w"
  by (auto simp: unmounted_def follows_def)

lemma unmounted_issues: "issues not_mount m \<Longrightarrow> m v = Some (r, w) \<Longrightarrow> unmounted v w"
  unfolding unmounted_def by (rule issuesD)

lemma nofile_budget:
  "dataplane_nofile_limit tcp udp assoc = Inr limit \<Longrightarrow> limit = tcp + udp + 2 * assoc + 32 \<and> limit < 2 ^ 64"
  by (auto simp: dataplane_nofile_limit_def checked_add_usize_def checked_mul_u64_def DATAPLANE_FD_HEADROOM_def
      split: option.splits if_splits Option.bind_splits)

lemma data_plane_steps:
  assumes "data_plane_body b cf tc sb c v = Some (Inr (), v')"
  obtains w4 limit w5 w6 w7 w8 w9 u tap where "unmounted v w4" "performed v w4 (Limit (Prctl PR_SET_PDEATHSIG SIGKILL))"
      "dataplane_nofile_limit (max_tcp_flows c) (max_udp_flows c) (max_udp_associations c) = Inr limit"
      "set_nofile_limit limit w4 = Some (Inr (), w5)"
      "(if sandbox_enabled sb then and_then disable_core_dumps isolate_filesystem else ok ()) w5 = Some (Inr (), w6)"
      "drop_all_capabilities w6 = Some (Inr (), w7)" "set_no_new_privs w7 = Some (Inr (), w8)"
      "(if sandbox_enabled sb then install (debug_assertions b) (build_arch b) (build_syscalls b) DataPlane else ok ()) w8 = Some (Inr (), w9)"
      "unmounted w9 u" "reactor_run b c tap cf u = Some (Inr (), v')"
proof -
  obtain w1 payload w2 tap bs w3 m hit w4 limit w5 w6 w7 w8 w9 w10 w11 u where
    s: "set_parent_death_signal SIGKILL v = Some (Inr (), w1)" "control_expect cf control_kind.MapsReady w1 = Some (Inr payload, w2)"
      "recv_fd tc 128 w2 = Some (Inr (bs, tap), w3)"
      "env_is (debug_assertions b) FAILPOINT ''dp_forbidden_syscall'' w3 = Some (Inr hit :: io_error + bool, w4)"
    and rest: "dataplane_nofile_limit (max_tcp_flows c) (max_udp_flows c) (max_udp_associations c) = Inr limit"
      "set_nofile_limit limit w4 = Some (Inr (), w5)"
      "(if sandbox_enabled sb then and_then disable_core_dumps isolate_filesystem else ok ()) w5 = Some (Inr (), w6)"
      "drop_all_capabilities w6 = Some (Inr (), w7)" "set_no_new_privs w7 = Some (Inr (), w8)"
      "(if sandbox_enabled sb then install (debug_assertions b) (build_arch b) (build_syscalls b) DataPlane else ok ()) w8 = Some (Inr (), w9)"
    and e: "forbidden_call hit w9 = Some (Inr (), w10)" "control_send cf control_kind.Ready 1 [] w10 = Some (Inr (), w11)"
      "set_nonblocking cf True w11 = Some (Inr (), u)" "reactor_run b c tap cf u = Some (Inr (), v')"
    using assms unfolding data_plane_body_def
    by (simp only: success ok_outcome split_paired_All split_paired_Ex prod.case) (auto simp: outcome split: if_splits)
  note quiet = unmounted_issues [OF no_mounts(8) s(1)] unmounted_issues [OF no_mounts(1) s(2)] unmounted_issues [OF no_mounts(2) s(3)]
    unmounted_issues [OF no_mounts(3) s(4)] unmounted_issues [OF no_mounts(4) e(1)] unmounted_issues [OF no_mounts(5) e(2)]
    unmounted_issues [OF no_mounts(6) e(3)]
  have "unmounted w1 w4" "unmounted w9 u"
    using quiet unmounted_trans by blast+
  moreover have "performed v w1 (Limit (Prctl PR_SET_PDEATHSIG SIGKILL))"
    using s(1) by (simp add: set_parent_death_signal_def perform_performed)
  ultimately show thesis
    using that [OF unmounted_trans [OF quiet(1)] performed_around [OF follows_refl _ unmounted_follows] rest _ e(4)] by blast
qed

text \<open>With the sandbox: the core limit, the new root and the filter.\<close>

lemma sandbox_entered:
  assumes "unmounted v w5" "and_then disable_core_dumps isolate_filesystem w5 = Some (Inr (), w6)" "unmounted w6 w8"
    and "install (debug_assertions b) (build_arch b) (build_syscalls b) DataPlane w8 = Some (Inr (), w9)" "unmounted w9 u"
  shows "performed v u (Limit (Setrlimit RLIMIT_CORE 0 0)) \<and> root_replaced v u \<and>
        (\<exists>prog act. performed v u (Limit (SeccompFilter prog)) \<and> (act = RET_KILL_PROCESS \<or> debug_assertions b \<and> act = RET_LOG) \<and>
           (\<forall>data. bpf_run prog data 0 = Some (seccomp_policy (build_arch b) (profile_syscalls (build_syscalls b) DataPlane) act data)))"
proof -
  obtain w where w: "disable_core_dumps w5 = Some (Inr (), w)" "isolate_filesystem w = Some (Inr (), w6)"
    using assms(2) by (auto simp: success)
  have vw: "unmounted v w" and w6u: "unmounted w6 u"
    using unmounted_trans [OF assms(1) unmounted_issues [OF no_mounts(9) w(1)]]
      unmounted_trans [OF assms(3) unmounted_trans [OF unmounted_issues [OF no_mounts(12) assms(4)] assms(5)]] by blast+
  then have root: "root_replaced v u"
    using root_replaced_isolated [OF _ _ w(2)] by (auto simp: unmounted_def)
  have tail: "follows w6 u" "follows w w6" "follows v w8" "follows w9 u"
    using unmounted_follows [OF w6u] follows_issues [OF any_calls(10) w(2)] unmounted_follows [OF assms(5)]
      follows_trans [OF unmounted_follows [OF vw] follows_trans [OF follows_issues [OF any_calls(10) w(2)] unmounted_follows [OF assms(3)]]]
    by blast+
  have "performed w5 w (Limit (Setrlimit RLIMIT_CORE 0 0))"
    using w(1) by (simp add: disable_core_dumps_def perform_performed)
  then have "performed v u (Limit (Setrlimit RLIMIT_CORE 0 0))"
    using performed_around [OF unmounted_follows [OF assms(1)] _ follows_trans [OF tail(2,1)]] by blast
  moreover obtain prog act where "performed w8 w9 (Limit (SeccompFilter prog))" "act = RET_KILL_PROCESS \<or> debug_assertions b \<and> act = RET_LOG"
    "\<And>data. bpf_run prog data 0 = Some (seccomp_policy (build_arch b) (profile_syscalls (build_syscalls b) DataPlane) act data)"
    using install_performed [OF assms(4)] by blast
  ultimately show ?thesis
    using root performed_around [OF tail(3) _ tail(4)] by blast
qed

lemma capabilities_dropped:
  "drop_all_capabilities w = Some (Inr (), w') \<Longrightarrow> performed w w' (Limit (Capset LINUX_CAPABILITY_VERSION_3 [(0, 0, 0), (0, 0, 0)]))"
  using performed_around [OF follows_refl perform_performed] follows_issues [where P = "\<lambda>_. True" and m = "for_each drop_bounding [0..63]"]
  unfolding drop_all_capabilities_def success drop_bounding_def by (fastforce intro!: issued split: sum.split)

text \<open>
  C13. The reactor of a data-plane process handles traffic only when the process is confined. Whenever the body of the process
  runs to its end, the reactor was entered after these calls, all of which the kernel had accepted: the
  death signal of the parent, the descriptor limit for exactly the flows of this worker, the capability set
  emptied, privileges given up for good, and with the sandbox also core dumps disabled, a system call filter that implements the
  policy of the data plane (other calls kill the process; a debug build may log them instead), and mount calls by whose
  documented effect the process has an empty, restricted \<open>tmpfs\<close> as its root and reaches nothing of the host's files.
\<close>

theorem data_plane_confined:
  assumes "data_plane_body b cf tc sb c v = Some (Inr (), v')"
  shows "\<exists>u tap. reactor_run b c tap cf u = Some (Inr (), v') \<and> confined b sb c v u"
proof -
  obtain w4 limit w5 w6 w7 w8 w9 u tap where d: "unmounted v w4" "performed v w4 (Limit (Prctl PR_SET_PDEATHSIG SIGKILL))"
      "dataplane_nofile_limit (max_tcp_flows c) (max_udp_flows c) (max_udp_associations c) = Inr limit"
      "set_nofile_limit limit w4 = Some (Inr (), w5)"
      "(if sandbox_enabled sb then and_then disable_core_dumps isolate_filesystem else ok ()) w5 = Some (Inr (), w6)"
      "drop_all_capabilities w6 = Some (Inr (), w7)" "set_no_new_privs w7 = Some (Inr (), w8)"
      "(if sandbox_enabled sb then install (debug_assertions b) (build_arch b) (build_syscalls b) DataPlane else ok ()) w8 = Some (Inr (), w9)"
      "unmounted w9 u" "reactor_run b c tap cf u = Some (Inr (), v')"
    by (rule data_plane_steps [OF assms])
  have before: "unmounted v w5" and middle: "unmounted w6 w8"
    using unmounted_trans [OF d(1) unmounted_issues [OF no_mounts(7) d(4)]]
      unmounted_trans [OF unmounted_issues [OF no_mounts(10) d(6)] unmounted_issues [OF no_mounts(11) d(7)]] by blast+
  have sandbox: "issues (\<lambda>_. True) (if sandbox_enabled sb then and_then disable_core_dumps isolate_filesystem else ok ())"
    "issues (\<lambda>_. True) (if sandbox_enabled sb then install (debug_assertions b) (build_arch b) (build_syscalls b) DataPlane else ok ())"
    by (auto intro!: issued)
  have l: "follows v w4" "follows w4 w5" "follows w5 w6" "follows w6 w7" "follows w7 w8" "follows w8 u"
    using unmounted_follows [OF d(1)] follows_issues [OF any_calls(7) d(4)] follows_issues [OF sandbox(1) d(5)]
      follows_issues [OF any_calls(11) d(6)] follows_issues [OF any_calls(12) d(7)]
      follows_trans [OF follows_issues [OF sandbox(2) d(8)] unmounted_follows [OF d(9)]] by blast+
  have far: "follows v w6" "follows v w7" "follows w4 u" "follows w5 u" "follows w7 u"
    using l by (meson follows_trans)+
  have plain: "performed w4 w5 (Limit (Setrlimit RLIMIT_NOFILE (word_of_nat limit) (word_of_nat limit)))"
    "performed w7 w8 (Limit (Prctl PR_SET_NO_NEW_PRIVS 1))"
    using d(4,7) perform_performed by (simp_all add: set_nofile_limit_def set_no_new_privs_def)
  have inside: "performed v u (Limit (Setrlimit RLIMIT_CORE 0 0)) \<and> root_replaced v u \<and>
        (\<exists>prog act. performed v u (Limit (SeccompFilter prog)) \<and> (act = RET_KILL_PROCESS \<or> debug_assertions b \<and> act = RET_LOG) \<and>
           (\<forall>data. bpf_run prog data 0 = Some (seccomp_policy (build_arch b) (profile_syscalls (build_syscalls b) DataPlane) act data)))"
    if "sandbox_enabled sb"
    by (rule sandbox_entered [OF before _ middle _ d(9)]) (use d(5,8) that in simp_all)
  have "confined b sb c v u"
    using performed_around [OF follows_refl d(2) far(3)] performed_around [OF l(1) plain(1) far(4)] performed_around [OF far(2) plain(2) l(6)]
      performed_around [OF far(1) capabilities_dropped [OF d(6)] far(5)] nofile_budget [OF d(3)] inside
    unfolding confined_def Let_def by blast
  then show ?thesis
    using d(10) by blast
qed

text \<open>A kernel that grants everything and delivers the messages that a data-plane process waits for.\<close>

definition granting_kernel :: system where
  "granting_kernel = quiet_system\<lparr>
     sys_ret := \<lambda>h c. case c of Msg (Send f p k) \<Rightarrow> Inr (int (length p)) | _ \<Rightarrow> Inr 0,
     sys_out := \<lambda>h c. case c of Msg (Recv f n k) \<Rightarrow> projr (control_encode control_kind.MapsReady 1 [])
       | Msg (RecvMsg f n m k) \<Rightarrow> projr (control_encode control_kind.Ready 1 []) | _ \<Rightarrow> [],
     sys_cmsgs := \<lambda>h c. [[(SOL_SOCKET, SCM_RIGHTS, to_ne False 4 (9 :: u32))]]\<rparr>"

definition granting :: "system \<Rightarrow> bool" where
  "granting w \<longleftrightarrow> (\<exists>cs. w = after_calls granting_kernel cs)"

lemma granted:
  assumes "granting w"
  shows "granting (after_calls w cs)" "sys_big w = False"
    "sys_ret w h c = (case c of Msg (Send f p k) \<Rightarrow> Inr (int (length p)) | _ \<Rightarrow> Inr 0)"
    "control_expect cf control_kind.MapsReady w = Some (Inr [], after_calls w [Msg (Recv cf CONTROL_BUFFER 0)])"
    "recv_fd tc 128 w = Some (Inr (projr (control_encode control_kind.Ready 1 []), 9), after_calls w [Msg (RecvMsg tc 128 24 MSG_CMSG_CLOEXEC)])"
proof -
  obtain ds where w: "w = after_calls granting_kernel ds"
    using assms by (auto simp: granting_def)
  have nonempty: "projr (control_encode k rid []) \<noteq> []" for k rid
    using sent_message(2) [of k rid] by (metis list.size(3) zero_neq_numeral)
  show "granting (after_calls w cs)"
    by (auto simp: granting_def w)
  show "sys_big w = False" "sys_ret w h c = (case c of Msg (Send f p k) \<Rightarrow> Inr (int (length p)) | _ \<Rightarrow> Inr 0)"
    by (simp_all add: w granting_kernel_def quiet_system_def)
  show "control_expect cf control_kind.MapsReady w = Some (Inr [], after_calls w [Msg (Recv cf CONTROL_BUFFER 0)])"
    using nonempty by (simp add: control_expect_def control_receive_def recv_packet_def bnd_def running w granting_kernel_def quiet_system_def
        sent_message CONTROL_BUFFER_def MAX_PAYLOAD_def)
  show "recv_fd tc 128 w = Some (Inr (projr (control_encode control_kind.Ready 1 []), 9), after_calls w [Msg (RecvMsg tc 128 24 MSG_CMSG_CLOEXEC)])"
    using nonempty by (simp add: recv_fd_def bnd_def running w granting_kernel_def quiet_system_def sent_message from_to_ne)
qed

lemma granted_each:
  "granting w \<Longrightarrow> for_each drop_bounding xs w = Some (Inr (), after_calls w (map (\<lambda>x. Limit (Prctl PR_CAPBSET_DROP x)) xs))"
  by (induction xs arbitrary: w) (simp_all add: running drop_bounding_def bnd_def attempt_def and_then_def granted)

lemma granted_send: "granting w \<Longrightarrow> \<exists>bs. control_send f k rid [] w = Some (Inr (), after_calls w [Msg (Send f bs MSG_NOSIGNAL)])"
  by (auto simp: control_send_def encode_io_def control_encode_def MAX_PAYLOAD_def send_packet_def bnd_def running granted)

theorem data_plane_confined_witness:
  "\<exists>c v' u. dataplane sample_launch 0 = Some c \<and> data_plane_body sample_build 4 5 On c granting_kernel = Some (Inr (), v') \<and>
     confined sample_build On c granting_kernel u"
proof -
  obtain c where c: "dataplane sample_launch 0 = Some c" "max_tcp_flows c = 3" "max_udp_flows c = 2" "max_udp_associations c = 2"
    using sample_shares [of 0] by auto
  have g: "granting granting_kernel"
    by (auto simp: granting_def intro!: exI [of _ "[]"])
  obtain send where send: "\<And>w f k rid. granting w \<Longrightarrow> control_send f k rid [] w = Some (Inr (), after_calls w [Msg (Send f (send w f k rid) MSG_NOSIGNAL)])"
    using granted_send by metis
  have "\<exists>v'. data_plane_body sample_build 4 5 On c granting_kernel = Some (Inr (), v')"
    by (simp add: data_plane_body_def set_parent_death_signal_def and_then_def bnd_def running g granted [OF g] granted sent_message
        sample_build_def env_is_def dataplane_nofile_limit_def c checked_add_usize_def checked_mul_u64_def DATAPLANE_FD_HEADROOM_def
        set_nofile_limit_def disable_core_dumps_def isolate_filesystem_def drop_all_capabilities_def granted_each
        set_no_new_privs_def install_def traced_def build_filter_def u32_try_from_def forbidden_call_def
        sandbox_enabled_def profile_syscalls_def send set_nonblocking_def)
  then obtain v' where v': "data_plane_body sample_build 4 5 On c granting_kernel = Some (Inr (), v')"
    by blast
  show ?thesis
    using data_plane_confined [OF v'] v' c(1) by blast
qed

end
