(* ===== verification/Sys_Socket.thy ===== *)
theory Sys_Socket
  imports Sys_Process Seccomp
begin

text \<open>
  Sockets, \<open>epoll\<close> and timers (\<open>crates/sys/src/socket.rs\<close>, \<open>tcp_info.rs\<close>, \<open>reactor.rs\<close>): address conversion, the creation of
  upstream sockets with their buffer quotas, the error queue, and the wrappers that the event loop uses.
  Where the kernel stores a structure through a pointer, the model reads its bytes; \<open>target_arch\<close>
  tells the layout of \<open>epoll_event\<close>, and the place of a field of \<open>tcp_info\<close>, which an external crate
  declares, is a parameter.
\<close>

unbundle bit_operations_syntax

section \<open>Addresses\<close>

text \<open>
  The bytes of \<open>sockaddr_in\<close> and \<open>sockaddr_in6\<close>. A port is converted to network order and stored as a number, so its bytes
  are those of network order whatever the target; an IPv4 address is stored octet by octet.
\<close>

fun socket_address :: "bool \<Rightarrow> socket_addr \<Rightarrow> bytes" where
  "socket_address big (AddrV4 ip port) = to_ne big 2 (word_of_int AF_INET :: u16) @ u16_to_be port @ ip @ replicate 8 0"
| "socket_address big (AddrV6 ip port fl sc) =
     to_ne big 2 (word_of_int AF_INET6 :: u16) @ u16_to_be port @ to_ne big 4 fl @ ip @ to_ne big 4 sc"

definition SOCKADDR_STORAGE :: usize where "SOCKADDR_STORAGE = 128"

definition local_address :: "fd \<Rightarrow> (io_error, socket_addr) prog" where
  "local_address f =
     bnd byte_order (\<lambda>big.
     bnd (receive_bytes (Sock (Getsockname f)) SOCKADDR_STORAGE) (\<lambda>stored.
       let len = length stored; storage = resize stored SOCKADDR_STORAGE;
           family = uint (from_ne big (subslice 0 2 storage) :: u16)
       in if family = AF_INET \<and> len \<ge> 16 then ok (AddrV4 (subslice 4 8 storage) (u16_from_be (subslice 2 4 storage)))
          else if family = AF_INET6 \<and> len \<ge> 28
          then ok (AddrV6 (subslice 8 24 storage) (u16_from_be (subslice 2 4 storage)) (from_ne big (subslice 4 8 storage))
                 (from_ne big (subslice 24 28 storage)))
          else err (Custom IoInvalidData ''getsockname returned an unsupported address'')))"

section \<open>Options\<close>

definition IPPROTO_IP :: int where "IPPROTO_IP = 0"
definition IPPROTO_TCP_LEVEL :: int where "IPPROTO_TCP_LEVEL = 6"
definition IPPROTO_UDP_LEVEL :: int where "IPPROTO_UDP_LEVEL = 17"
definition IPPROTO_IPV6 :: int where "IPPROTO_IPV6 = 41"
definition IP_PKTINFO :: int where "IP_PKTINFO = 8"
definition IP_RECVERR :: int where "IP_RECVERR = 11"
definition IPV6_RECVERR :: int where "IPV6_RECVERR = 25"
definition IPV6_RECVPKTINFO :: int where "IPV6_RECVPKTINFO = 49"
definition IPV6_PKTINFO :: int where "IPV6_PKTINFO = 50"
definition TCP_NODELAY :: int where "TCP_NODELAY = 1"
definition TCP_WINDOW_CLAMP :: int where "TCP_WINDOW_CLAMP = 10"
definition TCP_INFO :: int where "TCP_INFO = 11"
definition SO_ERROR :: int where "SO_ERROR = 4"
definition SO_SNDBUF :: int where "SO_SNDBUF = 7"
definition SO_RCVBUF :: int where "SO_RCVBUF = 8"
definition SO_TIMESTAMPING :: int where "SO_TIMESTAMPING = 37"
definition SO_PEEK_OFF :: int where "SO_PEEK_OFF = 42"
definition SCM_TIMESTAMPING :: int where "SCM_TIMESTAMPING = 37"

text \<open>A 32-bit value that \<open>getsockopt\<close> stores; the variable is zero before the call.\<close>

definition option_value :: "fd \<Rightarrow> int \<Rightarrow> int \<Rightarrow> (io_error, int) prog" where
  "option_value f level opt =
     bnd byte_order (\<lambda>big.
     bnd (receive_bytes (Sock (Getsockopt f level opt)) 4) (\<lambda>stored. ok (sint (from_ne big (resize stored 4) :: u32))))"

definition socket_buffer_size :: "fd \<Rightarrow> int \<Rightarrow> (io_error, usize) prog" where
  "socket_buffer_size f opt = bnd (option_value f SOL_SOCKET opt) (\<lambda>v. ok (nat (max v 0)))"

definition socket_buffer_sizes :: "fd \<Rightarrow> (io_error, usize \<times> usize) prog" where
  "socket_buffer_sizes f =
     bnd (socket_buffer_size f SO_RCVBUF) (\<lambda>r. bnd (socket_buffer_size f SO_SNDBUF) (\<lambda>s. ok (r, s)))"

definition pending_error :: "fd \<Rightarrow> (io_error, int option) prog" where
  "pending_error f = bnd (option_value f SOL_SOCKET SO_ERROR) (\<lambda>e. ok (if e \<noteq> 0 then Some e else None))"

definition set_buffer_quota :: "fd \<Rightarrow> int \<Rightarrow> usize \<Rightarrow> (io_error, unit) prog" where
  "set_buffer_quota f opt quota =
     (if \<not> quota div 2 < 2 ^ 31 then err (Custom IoInvalidInput ''socket buffer quota exceeds i32'')
      else and_then (perform (Sock (Setsockopt f SOL_SOCKET opt (int (quota div 2)))))
        (bnd (socket_buffer_size f opt) (\<lambda>actual.
           if actual > quota then err (Custom IoOther ''kernel socket buffer exceeds configured quota'') else ok ())))"

definition set_nodelay :: "fd \<Rightarrow> (io_error, unit) prog" where
  "set_nodelay f = perform (Sock (Setsockopt f IPPROTO_TCP_LEVEL TCP_NODELAY 1))"

definition enable_udp_errors :: "fd \<Rightarrow> bool \<Rightarrow> (io_error, unit) prog" where
  "enable_udp_errors f ipv4 =
     for_each (\<lambda>(level, opt). perform (Sock (Setsockopt f level opt 1)))
       (if ipv4 then [(IPPROTO_IP, IP_RECVERR), (IPPROTO_IP, IP_PKTINFO)]
        else [(IPPROTO_IPV6, IPV6_RECVERR), (IPPROTO_IPV6, IPV6_RECVPKTINFO)])"

definition TX_ACK_FLAGS :: int where "TX_ACK_FLAGS = 0x200 OR 0x10 OR 0x800"

definition enable_tx_ack_timestamps :: "fd \<Rightarrow> (io_error, unit) prog" where
  "enable_tx_ack_timestamps f = perform (Sock (Setsockopt f SOL_SOCKET SO_TIMESTAMPING TX_ACK_FLAGS))"

definition set_peek_offset :: "fd \<Rightarrow> int \<Rightarrow> (io_error, unit) prog" where
  "set_peek_offset f offset = perform (Sock (Setsockopt f SOL_SOCKET SO_PEEK_OFF offset))"

definition set_window_clamp :: "fd \<Rightarrow> u32 \<Rightarrow> (io_error, unit) prog" where
  "set_window_clamp f window = perform (Sock (Setsockopt f IPPROTO_TCP_LEVEL TCP_WINDOW_CLAMP (uint window)))"

text \<open>\<open>tcp_info\<close>: its size and the offset of \<open>tcpi_bytes_acked\<close>.\<close>

record tcp_info_layout =
  info_size :: usize
  bytes_acked_offset :: usize

definition decode_bytes_acked :: "tcp_info_layout \<Rightarrow> bool \<Rightarrow> bytes \<Rightarrow> usize \<Rightarrow> io_error + u64" where
  "decode_bytes_acked layout big info returned_len =
     (let required = bytes_acked_offset layout + 8
      in if returned_len < required then Inl (Custom IoUnsupported ''kernel returned a TCP_INFO without tcpi_bytes_acked'')
         else Inr (from_ne big (subslice (bytes_acked_offset layout) required info)))"

definition bytes_acked :: "tcp_info_layout \<Rightarrow> fd \<Rightarrow> (io_error, u64) prog" where
  "bytes_acked layout f =
     bnd byte_order (\<lambda>big.
     bnd (receive_bytes (Sock (Getsockopt f IPPROTO_TCP_LEVEL TCP_INFO)) (info_size layout)) (\<lambda>stored.
       lift_result (decode_bytes_acked layout big (resize stored (info_size layout)) (length stored))))"

section \<open>Creating sockets\<close>

definition SOCK_STREAM_NONBLOCK :: int where "SOCK_STREAM_NONBLOCK = 0x80801"
definition SOCK_DGRAM_NONBLOCK :: int where "SOCK_DGRAM_NONBLOCK = 0x80802"

definition connect_nonblocking :: "socket_addr \<Rightarrow> usize \<Rightarrow> usize \<Rightarrow> (io_error, fd \<times> bool) prog" where
  "connect_nonblocking address receive_buffer send_buffer =
     bnd byte_order (\<lambda>big.
     bnd (invoke (Sock (NewSocket (if is_ipv4 address then AF_INET else AF_INET6) SOCK_STREAM_NONBLOCK IPPROTO_TCP_LEVEL))) (\<lambda>f.
     and_then (set_buffer_quota f SO_RCVBUF receive_buffer)
    (and_then (set_buffer_quota f SO_SNDBUF send_buffer)
    (and_then (set_nodelay f)
    (bnd (attempt (invoke (Sock (ConnectTo f (socket_address big address))))) (\<lambda>r. case r of
         Inr _ \<Rightarrow> ok (f, True)
       | Inl e \<Rightarrow> if raw_os_error e = Some EINPROGRESS then ok (f, False) else err e))))))"

definition connect_datagram :: "fd \<Rightarrow> socket_addr \<Rightarrow> (io_error, unit) prog" where
  "connect_datagram f address = bnd byte_order (\<lambda>big. perform (Sock (ConnectTo f (socket_address big address))))"

definition bind_udp :: "bool \<Rightarrow> usize \<Rightarrow> usize \<Rightarrow> (io_error, fd) prog" where
  "bind_udp ipv4 receive_buffer send_buffer =
     bnd byte_order (\<lambda>big.
     bnd (invoke (Sock (NewSocket (if ipv4 then AF_INET else AF_INET6) SOCK_DGRAM_NONBLOCK IPPROTO_UDP_LEVEL))) (\<lambda>f.
     and_then (set_buffer_quota f SO_RCVBUF receive_buffer)
    (and_then (set_buffer_quota f SO_SNDBUF send_buffer)
    (and_then (enable_udp_errors f ipv4)
    (and_then (perform (Sock (Bind f (socket_address big
           (if ipv4 then AddrV4 (replicate 4 0) 0 else AddrV6 (replicate 16 0) 0 0 0)))))
       (ok f))))))"

definition connect_udp :: "socket_addr \<Rightarrow> usize \<Rightarrow> usize \<Rightarrow> (io_error, fd) prog" where
  "connect_udp address receive_buffer send_buffer =
     bnd (bind_udp (is_ipv4 address) receive_buffer send_buffer) (\<lambda>f.
     and_then (connect_datagram f address) (ok f))"

section \<open>Sending and receiving\<close>

definition MSG_PEEK :: int where "MSG_PEEK = 2"
definition MSG_TRUNC :: int where "MSG_TRUNC = 0x20"
definition MSG_DONTWAIT :: int where "MSG_DONTWAIT = 0x40"
definition MSG_ERRQUEUE :: int where "MSG_ERRQUEUE = 0x2000"
definition SHUT_WR :: int where "SHUT_WR = 1"

definition sock_send :: "fd \<Rightarrow> bytes \<Rightarrow> (io_error, usize) prog" where
  "sock_send f bs = bnd (invoke (Msg (Send f bs (MSG_DONTWAIT OR MSG_NOSIGNAL)))) (\<lambda>n. ok (nat n))"

definition sock_recv :: "fd \<Rightarrow> usize \<Rightarrow> (io_error, bytes) prog" where
  "sock_recv f len = receive_bytes (Msg (Recv f len MSG_DONTWAIT)) len"

text \<open>With \<open>MSG_TRUNC\<close> the returned number is the length of the whole datagram, which may exceed the buffer.\<close>

definition recv_datagram :: "fd \<Rightarrow> usize \<Rightarrow> (io_error, usize \<times> bytes) prog" where
  "recv_datagram f len =
     bnd (invoke_out (Msg (Recv f len (MSG_DONTWAIT OR MSG_TRUNC)))) (\<lambda>(n, bs). ok (nat n, take len bs))"

definition sock_peek :: "fd \<Rightarrow> usize \<Rightarrow> (io_error, bytes) prog" where
  "sock_peek f len = receive_bytes (Msg (Recv f len (MSG_PEEK OR MSG_DONTWAIT))) len"

definition sock_discard :: "fd \<Rightarrow> usize \<Rightarrow> (io_error, usize) prog" where
  "sock_discard f len = bnd (invoke (Msg (Recv f len (MSG_TRUNC OR MSG_DONTWAIT)))) (\<lambda>n. ok (nat n))"

definition shutdown_write :: "fd \<Rightarrow> (io_error, unit) prog" where
  "shutdown_write f =
     bnd (attempt (perform (Sock (ShutdownSocket f SHUT_WR)))) (\<lambda>r. case r of
         Inl e \<Rightarrow> if raw_os_error e \<noteq> Some ENOTCONN then err e else ok ()
       | Inr _ \<Rightarrow> ok ())"

definition POLLOUT :: u16 where "POLLOUT = 4"
definition POLLERR :: u16 where "POLLERR = 8"
definition POLLHUP :: u16 where "POLLHUP = 16"

text \<open>The kernel stores \<open>revents\<close>, two bytes.\<close>

definition poll_writable_now :: "fd \<Rightarrow> (io_error, bool) prog" where
  "poll_writable_now f =
     bnd byte_order (\<lambda>big.
     bnd (attempt (invoke_out (Sock (Poll f (uint POLLOUT) 0)))) (\<lambda>r. case r of
         Inl e \<Rightarrow> if error_kind e = IoInterrupted then ok False else err e
       | Inr (ready, stored) \<Rightarrow>
           ok (ready > 0 \<and> (from_ne big (resize stored 2) :: u16) AND (POLLOUT OR POLLERR OR POLLHUP) \<noteq> 0)))"

section \<open>The error queue\<close>

datatype udp_error_family = FamilyIpv4 | FamilyIpv6

record udp_socket_error =
  use_family :: udp_error_family
  use_errno :: int
  use_origin :: u8
  use_kind :: u8
  use_code :: u8
  use_info :: u32
  use_packet_info :: bool

text \<open>A \<open>sock_extended_err\<close> at the start of the data of a control message, as far as the code reads it.\<close>

definition EXTENDED_ERR_LEN :: usize where "EXTENDED_ERR_LEN = 16"

definition extended_error :: "bool \<Rightarrow> udp_error_family \<Rightarrow> bytes \<Rightarrow> bool \<Rightarrow> udp_socket_error" where
  "extended_error big family data info =
     \<lparr>use_family = family, use_errno = sint (from_ne big (subslice 0 4 data) :: u32), use_origin = data ! 4, use_kind = data ! 5,
      use_code = data ! 6, use_info = from_ne big (subslice 8 12 data), use_packet_info = info\<rparr>"

text \<open>One step of the walk over the control messages: the last extended error so far, and whether packet information was seen.\<close>

fun udp_error_step :: "cmsg \<Rightarrow> (udp_error_family \<times> bytes) option \<times> bool \<Rightarrow> (udp_error_family \<times> bytes) option \<times> bool" where
  "udp_error_step (level, kind, data) (extended, packet_info) =
     (let family = (if level = IPPROTO_IP \<and> kind = IP_RECVERR then Some FamilyIpv4
            else if level = IPPROTO_IPV6 \<and> kind = IPV6_RECVERR then Some FamilyIpv6 else None);
          packet_info = (packet_info \<or> level = IPPROTO_IP \<and> kind = IP_PKTINFO \<or> level = IPPROTO_IPV6 \<and> kind = IPV6_PKTINFO)
      in case family of
           Some fam \<Rightarrow> if length data \<ge> EXTENDED_ERR_LEN then (Some (fam, data), packet_info) else (extended, packet_info)
         | None \<Rightarrow> (extended, packet_info))"

definition receive_udp_error :: "fd \<Rightarrow> (io_error, udp_socket_error option) prog" where
  "receive_udp_error f =
     bnd byte_order (\<lambda>big.
     bnd (attempt (invoke_cmsgs (Msg (RecvMsg f 8 512 (MSG_ERRQUEUE OR MSG_DONTWAIT))))) (\<lambda>r. case r of
         Inl e \<Rightarrow> if error_kind e = IoWouldBlock then ok None else err e
       | Inr (n, payload, cmsgs) \<Rightarrow>
           (case fold udp_error_step (concat cmsgs) (None, False) of
              (None, packet_info) \<Rightarrow> err (Custom IoInvalidData ''UDP error queue message lacks sock_extended_err'')
            | (Some (family, data), packet_info) \<Rightarrow> ok (Some (extended_error big family data packet_info)))))"

record tx_timestamp_drain =
  acknowledgments :: usize
  foreign_errors :: usize

definition SO_EE_ORIGIN_TIMESTAMPING :: u8 where "SO_EE_ORIGIN_TIMESTAMPING = 4"
definition TIMESTAMP_BATCH :: usize where "TIMESTAMP_BATCH = 16"

text \<open>The two flags of a message.\<close>

fun timestamp_step :: "cmsg \<Rightarrow> bool \<times> bool \<Rightarrow> bool \<times> bool" where
  "timestamp_step (level, kind, data) (timestamped, foreign) =
     (if level = SOL_SOCKET \<and> kind = SCM_TIMESTAMPING then (True, foreign)
      else if level = IPPROTO_IP \<and> kind = IP_RECVERR \<or> level = IPPROTO_IPV6 \<and> kind = IPV6_RECVERR
      then (timestamped, foreign \<or> resize data EXTENDED_ERR_LEN ! 4 \<noteq> SO_EE_ORIGIN_TIMESTAMPING)
      else (timestamped, foreign))"

definition classify_message :: "cmsg list \<Rightarrow> tx_timestamp_drain \<Rightarrow> tx_timestamp_drain" where
  "classify_message cmsgs drain =
     (let (timestamped, foreign) = fold timestamp_step cmsgs (False, False);
          drain = (if timestamped \<and> \<not> foreign then drain\<lparr>acknowledgments := acknowledgments drain + 1\<rparr> else drain)
      in if foreign then drain\<lparr>foreign_errors := foreign_errors drain + 1\<rparr> else drain)"

text \<open>\<open>recvmmsg\<close> delivers the control messages of at most sixteen messages.\<close>

definition drain_tx_timestamps :: "fd \<Rightarrow> (io_error, tx_timestamp_drain) prog" where
  "drain_tx_timestamps f =
     looping (\<lambda>drain.
       bnd (attempt (invoke_cmsgs (Msg (RecvMmsg f TIMESTAMP_BATCH 512 (MSG_ERRQUEUE OR MSG_DONTWAIT))))) (\<lambda>r. case r of
           Inl e \<Rightarrow> if error_kind e = IoWouldBlock then ok (Inl drain) else err e
         | Inr (n, payload, cmsgs) \<Rightarrow>
             let messages = take TIMESTAMP_BATCH cmsgs; drain = fold classify_message messages drain
             in ok (if length messages < TIMESTAMP_BATCH then Inl drain else Inr drain)))
       \<lparr>acknowledgments = 0, foreign_errors = 0\<rparr>"

section \<open>Epoll, timers and descriptors\<close>

record event =
  event_events :: u32
  event_token :: u64

definition EPOLL_CLOEXEC :: int where "EPOLL_CLOEXEC = 0x80000"
definition EPOLL_CTL_ADD :: int where "EPOLL_CTL_ADD = 1"
definition EPOLL_CTL_DEL :: int where "EPOLL_CTL_DEL = 2"
definition EPOLL_CTL_MOD :: int where "EPOLL_CTL_MOD = 3"

definition epoll_new :: "(io_error, fd) prog" where
  "epoll_new = invoke (Io (EpollCreate EPOLL_CLOEXEC))"

definition epoll_control :: "fd \<Rightarrow> int \<Rightarrow> fd \<Rightarrow> u32 \<Rightarrow> u64 \<Rightarrow> (io_error, unit) prog" where
  "epoll_control ep operation f events token = perform (Io (EpollCtl ep operation f (Some (events, token))))"

definition epoll_add :: "fd \<Rightarrow> fd \<Rightarrow> u32 \<Rightarrow> u64 \<Rightarrow> (io_error, unit) prog" where
  "epoll_add ep f events token = epoll_control ep EPOLL_CTL_ADD f events token"

definition epoll_modify :: "fd \<Rightarrow> fd \<Rightarrow> u32 \<Rightarrow> u64 \<Rightarrow> (io_error, unit) prog" where
  "epoll_modify ep f events token = epoll_control ep EPOLL_CTL_MOD f events token"

definition epoll_delete :: "fd \<Rightarrow> fd \<Rightarrow> (io_error, unit) prog" where
  "epoll_delete ep f =
     bnd (attempt (perform (Io (EpollCtl ep EPOLL_CTL_DEL f None)))) (\<lambda>r. case r of
         Inl e \<Rightarrow> if raw_os_error e \<noteq> Some ENOENT then err e else ok ()
       | Inr _ \<Rightarrow> ok ())"

text \<open>\<open>epoll_event\<close> is packed on x86-64 only, so its token is at offset 4 or 8.\<close>

fun token_offset :: "target_arch \<Rightarrow> usize" where
  "token_offset X86_64 = 4"
| "token_offset Aarch64 = 8"

fun read_events :: "target_arch \<Rightarrow> bool \<Rightarrow> nat \<Rightarrow> bytes \<Rightarrow> event list" where
  "read_events arch big 0 raw = []"
| "read_events arch big (Suc n) raw =
     (let at = token_offset arch
      in \<lparr>event_events = from_ne big (subslice 0 4 raw), event_token = from_ne big (subslice at (at + 8) raw)\<rparr>
         # read_events arch big n (drop (at + 8) raw))"

definition as_millis :: "duration \<Rightarrow> nat" where
  "as_millis d = d div 1000000"

definition epoll_timeout :: "duration option \<Rightarrow> int" where
  "epoll_timeout timeout = (case timeout of None \<Rightarrow> -1 | Some d \<Rightarrow> min (int (as_millis d)) (2 ^ 31 - 1))"

definition epoll_wait :: "target_arch \<Rightarrow> fd \<Rightarrow> usize \<Rightarrow> duration option \<Rightarrow> (io_error, event list) prog" where
  "epoll_wait arch ep max_events timeout =
     bnd byte_order (\<lambda>big.
     bnd (attempt (invoke_out (Io (EpollWait ep max_events (epoll_timeout timeout))))) (\<lambda>r. case r of
         Inl e \<Rightarrow> if error_kind e = IoInterrupted then ok [] else err e
       | Inr (received, raw) \<Rightarrow> ok (read_events arch big (nat received) raw)))"

definition TFD_FLAGS :: int where "TFD_FLAGS = 0x80800"
definition CLOCK_MONOTONIC :: int where "CLOCK_MONOTONIC = 1"

definition set_interval :: "fd \<Rightarrow> duration \<Rightarrow> (io_error, unit) prog" where
  "set_interval f interval =
     perform (Io (TimerfdSettime f (min (int (interval div 1000000000)) (2 ^ 63 - 1)) (int (interval mod 1000000000))))"

definition timer_periodic :: "duration \<Rightarrow> (io_error, fd) prog" where
  "timer_periodic interval =
     bnd (invoke (Io (TimerfdCreate CLOCK_MONOTONIC TFD_FLAGS))) (\<lambda>f. and_then (set_interval f interval) (ok f))"

definition timer_consume :: "fd \<Rightarrow> (io_error, u64) prog" where
  "timer_consume f =
     bnd byte_order (\<lambda>big.
     bnd (attempt (receive_bytes (Io (Read f 8)) 8)) (\<lambda>r. case r of
         Inl e \<Rightarrow> if error_kind e = IoWouldBlock then ok 0 else err e
       | Inr stored \<Rightarrow> ok (from_ne big (resize stored 8))))"

definition fd_read :: "fd \<Rightarrow> usize \<Rightarrow> (io_error, bytes) prog" where
  "fd_read f len = receive_bytes (Io (Read f len)) len"

definition fd_write :: "fd \<Rightarrow> bytes \<Rightarrow> (io_error, usize) prog" where
  "fd_write f bs = bnd (invoke (Io (Write f bs))) (\<lambda>n. ok (nat n))"

section \<open>Address round trip\<close>

lemma length_socket_address: "wf_addr a \<Longrightarrow> length (socket_address big a) = (if is_ipv4 a then 16 else 28)"
  by (cases a) (auto simp: wf_addr_def)

lemma family_values: "uint (word_of_int AF_INET :: u16) = AF_INET" "uint (word_of_int AF_INET6 :: u16) = AF_INET6" "AF_INET6 \<noteq> AF_INET"
  by (simp_all add: AF_INET_def AF_INET6_def)

lemma resize_prefix: "length bs \<le> n \<Longrightarrow> resize bs n = bs @ replicate (n - length bs) 0"
  by (simp add: resize_def)

text \<open>
  C21. The conversions between socket addresses and the kernel's structures are inverse: when \<open>getsockname\<close> delivers the bytes
  that \<open>socket_address\<close> makes of an address, \<open>local_address\<close> returns that address, with its port, flow information
  and scope, on either byte order.
\<close>

theorem socket_address_roundtrip:
  assumes "wf_addr a" "sys_ret w (calls w) (Sock (Getsockname f)) = Inr n"
    and "sys_out w (calls w) (Sock (Getsockname f)) = socket_address (sys_big w) a"
  shows "local_address f w = Some (Inr a, after_calls w [Sock (Getsockname f)])"
proof (cases a)
  case (AddrV4 ip port)
  then show ?thesis
    using assms by (simp add: local_address_def bnd_def running resize_prefix SOCKADDR_STORAGE_def subslice_def wf_addr_def
        from_to_ne family_values Let_def)
next
  case (AddrV6 ip port fl sc)
  then show ?thesis
    using assms by (simp add: local_address_def bnd_def running resize_prefix SOCKADDR_STORAGE_def subslice_def wf_addr_def
        from_to_ne family_values Let_def)
qed

theorem socket_address_roundtrip_witness:
  "local_address 5 (quiet_system\<lparr>sys_out := \<lambda>_ _. socket_address False (AddrV6 (replicate 16 7) 443 1 2)\<rparr>) =
     Some (Inr (AddrV6 (replicate 16 7) 443 1 2), after_calls (quiet_system\<lparr>sys_out := \<lambda>_ _. socket_address False (AddrV6 (replicate 16 7) 443 1 2)\<rparr>)
       [Sock (Getsockname 5)])"
  by (rule socket_address_roundtrip [where n = 0]) (simp_all add: wf_addr_def quiet_system_def)

section \<open>The error queue\<close>

text \<open>What a message of the error queue is: a timestamp and nothing else, or an error of another origin.\<close>

definition foreign_cmsg :: "cmsg \<Rightarrow> bool" where
  "foreign_cmsg m \<longleftrightarrow> (case m of (level, kind, data) \<Rightarrow>
     (level = IPPROTO_IP \<and> kind = IP_RECVERR \<or> level = IPPROTO_IPV6 \<and> kind = IPV6_RECVERR) \<and>
     resize data EXTENDED_ERR_LEN ! 4 \<noteq> SO_EE_ORIGIN_TIMESTAMPING)"

definition foreign_message :: "cmsg list \<Rightarrow> bool" where
  "foreign_message ms \<longleftrightarrow> (\<exists>m \<in> set ms. foreign_cmsg m)"

definition timestamp_message :: "cmsg list \<Rightarrow> bool" where
  "timestamp_message ms \<longleftrightarrow> (\<exists>data. (SOL_SOCKET, SCM_TIMESTAMPING, data) \<in> set ms)"

lemma levels_differ: "SOL_SOCKET \<noteq> IPPROTO_IP" "SOL_SOCKET \<noteq> IPPROTO_IPV6"
  by (simp_all add: SOL_SOCKET_def IPPROTO_IP_def IPPROTO_IPV6_def)

lemma timestamp_fold: "fold timestamp_step ms (t, f) = (t \<or> timestamp_message ms, f \<or> foreign_message ms)"
proof (induction ms arbitrary: t f)
  case (Cons m ms)
  obtain level kind data where m: "m = (level, kind, data)"
    by (cases m)
  show ?case
    using levels_differ by (auto simp: m Cons.IH timestamp_message_def foreign_message_def foreign_cmsg_def)
qed (simp add: timestamp_message_def foreign_message_def)

lemma classify_fold:
  "fold classify_message msgs d = d\<lparr>acknowledgments := acknowledgments d + length (filter (\<lambda>ms. timestamp_message ms \<and> \<not> foreign_message ms) msgs),
     foreign_errors := foreign_errors d + length (filter foreign_message msgs)\<rparr>"
  by (induction msgs arbitrary: d) (simp_all add: classify_message_def timestamp_fold)

text \<open>The batch that the kernel delivers after \<open>k\<close> earlier ones.\<close>

definition batch_call :: "fd \<Rightarrow> syscall" where
  "batch_call f = Msg (RecvMmsg f TIMESTAMP_BATCH 512 (MSG_ERRQUEUE OR MSG_DONTWAIT))"

definition batch_at :: "system \<Rightarrow> fd \<Rightarrow> nat \<Rightarrow> cmsg list list" where
  "batch_at w f k = take TIMESTAMP_BATCH (sys_cmsgs w (calls w @ replicate k (batch_call f)) (batch_call f))"

definition batch_ret :: "system \<Rightarrow> fd \<Rightarrow> nat \<Rightarrow> int + int" where
  "batch_ret w f k = sys_ret w (calls w @ replicate k (batch_call f)) (batch_call f)"

definition drain_body :: "fd \<Rightarrow> tx_timestamp_drain \<Rightarrow> (io_error, tx_timestamp_drain + tx_timestamp_drain) prog" where
  "drain_body f drain = bnd (attempt (invoke_cmsgs (batch_call f))) (\<lambda>r. case r of
           Inl e \<Rightarrow> if error_kind e = IoWouldBlock then ok (Inl drain) else err e
         | Inr (n, payload, cmsgs) \<Rightarrow>
             let messages = take TIMESTAMP_BATCH cmsgs; drain = fold classify_message messages drain
             in ok (if length messages < TIMESTAMP_BATCH then Inl drain else Inr drain))"

lemma drain_loop:
  assumes "\<And>k. k < n \<Longrightarrow> \<exists>m. batch_ret w f k = Inr m \<and> length (batch_at w f k) = TIMESTAMP_BATCH"
    and "batch_ret w f n = Inl EAGAIN \<and> rest = [] \<or> (\<exists>m. batch_ret w f n = Inr m \<and> length (batch_at w f n) < TIMESTAMP_BATCH \<and> rest = batch_at w f n)"
  shows "looping (drain_body f) d w = Some (Inr (fold classify_message (concat (map (batch_at w f) [0..<n]) @ rest) d),
    after_calls w (replicate (Suc n) (batch_call f)))"
  using assms
proof (induction n arbitrary: w d)
  case 0
  then show ?case
    by (subst looping.simps) (auto simp: drain_body_def bnd_def attempt_def running batch_ret_def batch_at_def Let_def errno_defs)
next
  case (Suc n)
  let ?w = "after_calls w [batch_call f]"
  have shift: "batch_ret ?w f k = batch_ret w f (Suc k)" "batch_at ?w f k = batch_at w f (Suc k)" for k
    by (simp_all add: batch_ret_def batch_at_def)
  have step: "drain_body f d w = Some (Inr (Inr (fold classify_message (batch_at w f 0) d)), ?w)"
    using Suc.prems(1) [of 0] by (auto simp: drain_body_def bnd_def attempt_def running batch_ret_def batch_at_def Let_def)
  have "looping (drain_body f) d' ?w = Some (Inr (fold classify_message (concat (map (batch_at ?w f) [0..<n]) @ rest) d'),
      after_calls ?w (replicate (Suc n) (batch_call f)))" for d'
    by (rule Suc.IH) (use Suc.prems in \<open>auto simp: shift\<close>)
  moreover have "map (batch_at ?w f) [0..<n] = map (batch_at w f) [1..<Suc n]"
    by (simp add: shift map_Suc_upt [symmetric] del: upt_Suc)
  moreover have "[0..<Suc n] = 0 # [1..<Suc n]"
    by (simp add: upt_conv_Cons del: upt_Suc)
  ultimately show ?case
    using step by (subst looping.simps) (simp del: upt_Suc)
qed

text \<open>
  C20. The error queue of a socket is emptied and counted exactly. If the kernel delivers \<open>n\<close> full batches and then a partial one or
  none, the loop returns after \<open>n + 1\<close> calls; the acknowledgments it reports are the messages that carry a
  timestamp and no error of another origin, and the foreign errors are the messages that carry such an error.
\<close>

theorem timestamp_queue_drained:
  assumes "\<And>k. k < n \<Longrightarrow> \<exists>m. batch_ret w f k = Inr m \<and> length (batch_at w f k) = TIMESTAMP_BATCH"
    and "batch_ret w f n = Inl EAGAIN \<and> rest = [] \<or> (\<exists>m. batch_ret w f n = Inr m \<and> length (batch_at w f n) < TIMESTAMP_BATCH \<and> rest = batch_at w f n)"
    and "queued = concat (map (batch_at w f) [0..<n]) @ rest"
  shows "drain_tx_timestamps f w = Some (Inr
     \<lparr>acknowledgments = length (filter (\<lambda>ms. timestamp_message ms \<and> \<not> foreign_message ms) queued),
      foreign_errors = length (filter foreign_message queued)\<rparr>, after_calls w (replicate (Suc n) (batch_call f)))"
proof -
  have "drain_tx_timestamps f = looping (drain_body f) \<lparr>acknowledgments = 0, foreign_errors = 0\<rparr>"
    unfolding drain_tx_timestamps_def drain_body_def batch_call_def by (rule refl)
  then show ?thesis
    using drain_loop [OF assms(1,2), of "\<lparr>acknowledgments = 0, foreign_errors = 0\<rparr>"] by (simp add: classify_fold assms(3))
qed

definition timestamp_kernel :: system where
  "timestamp_kernel = quiet_system\<lparr>
     sys_cmsgs := \<lambda>h c. if length h = 0 then replicate 16 [(SOL_SOCKET, SCM_TIMESTAMPING, [])]
       else [[(SOL_SOCKET, SCM_TIMESTAMPING, []), (IPPROTO_IP, IP_RECVERR, replicate 16 2)]]\<rparr>"

theorem timestamp_queue_drained_witness:
  "\<exists>d w'. drain_tx_timestamps 5 timestamp_kernel = Some (Inr d, w') \<and> acknowledgments d = 16 \<and> foreign_errors d = 1"
proof -
  have batches: "batch_at timestamp_kernel 5 0 = replicate 16 [(SOL_SOCKET, SCM_TIMESTAMPING, [])]"
    "batch_at timestamp_kernel 5 1 = [[(SOL_SOCKET, SCM_TIMESTAMPING, []), (IPPROTO_IP, IP_RECVERR, replicate 16 2)]]"
    "\<And>k. batch_ret timestamp_kernel 5 k = Inr 0"
    by (simp_all add: batch_at_def batch_ret_def timestamp_kernel_def quiet_system_def TIMESTAMP_BATCH_def)
  let ?q = "concat (map (batch_at timestamp_kernel 5) [0..<1]) @ batch_at timestamp_kernel 5 1"
  have "drain_tx_timestamps 5 timestamp_kernel = Some (Inr
     \<lparr>acknowledgments = length (filter (\<lambda>ms. timestamp_message ms \<and> \<not> foreign_message ms) ?q),
      foreign_errors = length (filter foreign_message ?q)\<rparr>, after_calls timestamp_kernel (replicate (Suc 1) (batch_call 5)))"
    by (rule timestamp_queue_drained) (auto simp: batches [unfolded One_nat_def] TIMESTAMP_BATCH_def)
  moreover have "timestamp_message [(SOL_SOCKET, SCM_TIMESTAMPING, [])]" "\<not> foreign_message [(SOL_SOCKET, SCM_TIMESTAMPING, [])]"
    "foreign_message [(SOL_SOCKET, SCM_TIMESTAMPING, []), (IPPROTO_IP, IP_RECVERR, replicate 16 2)]"
    using levels_differ by (auto simp: timestamp_message_def foreign_message_def foreign_cmsg_def resize_def EXTENDED_ERR_LEN_def
        SO_EE_ORIGIN_TIMESTAMPING_def)
  ultimately show ?thesis
    by (simp add: batches [unfolded One_nat_def] filter_replicate)
qed

end
