(* ===== verification/Std_Text.thy ===== *)
theory Std_Text
  imports Proxy_Handshake
begin

text \<open>
  The parts of Rust's standard library that the command line and the resolver lookup use on text: UTF-8 validation and
  lossy decoding, \<open>str::lines\<close>, \<open>str::split_whitespace\<close>, and the parsers of \<open>std::net\<close> for addresses. Text is
  its UTF-8 bytes, as in Rust.
\<close>

section \<open>UTF-8\<close>

definition in_bytes :: "nat \<Rightarrow> nat \<Rightarrow> u8 \<Rightarrow> bool" where
  "in_bytes lo hi b \<longleftrightarrow> lo \<le> unat b \<and> unat b \<le> hi"

abbreviation continuation :: "u8 \<Rightarrow> bool" where
  "continuation \<equiv> in_bytes 0x80 0xBF"

text \<open>The second byte of a sequence of three or four bytes.\<close>

definition second3 :: "u8 \<Rightarrow> u8 \<Rightarrow> bool" where
  "second3 a b \<longleftrightarrow> (if a = 0xE0 then in_bytes 0xA0 0xBF b else if a = 0xED then in_bytes 0x80 0x9F b else continuation b)"

definition second4 :: "u8 \<Rightarrow> u8 \<Rightarrow> bool" where
  "second4 a b \<longleftrightarrow> (if a = 0xF0 then in_bytes 0x90 0xBF b else if a = 0xF4 then in_bytes 0x80 0x8F b else continuation b)"

definition byte_at :: "bytes \<Rightarrow> nat \<Rightarrow> u8" where
  "byte_at bs i = (if i < length bs then bs ! i else 0)"

text \<open>One character, or the longest invalid prefix that is replaced as a unit; whether it is valid, and its length.\<close>

definition utf8_step :: "bytes \<Rightarrow> bool \<times> nat" where
  "utf8_step bs =
     (let a = byte_at bs 0; b = byte_at bs 1; c = byte_at bs 2; d = byte_at bs 3
      in if in_bytes 0 0x7F a then (True, 1)
         else if in_bytes 0xC2 0xDF a then (if continuation b then (True, 2) else (False, 1))
         else if in_bytes 0xE0 0xEF a
         then (if \<not> second3 a b then (False, 1) else if \<not> continuation c then (False, 2) else (True, 3))
         else if in_bytes 0xF0 0xF4 a
         then (if \<not> second4 a b then (False, 1) else if \<not> continuation c then (False, 2) else if \<not> continuation d then (False, 3)
               else (True, 4))
         else (False, 1))"

lemma utf8_step_positive: "0 < snd (utf8_step bs)"
  by (simp add: utf8_step_def Let_def)

function utf8_valid :: "bytes \<Rightarrow> bool" where
  "utf8_valid bs = (if bs = [] then True else if fst (utf8_step bs) then utf8_valid (drop (snd (utf8_step bs)) bs) else False)"
  by pat_completeness auto

termination utf8_valid
  using utf8_step_positive by (relation "measure length") (auto simp: length_greater_0_conv)

declare utf8_valid.simps [simp del]

function from_utf8_lossy :: "bytes \<Rightarrow> bytes" where
  "from_utf8_lossy bs =
     (if bs = [] then []
      else let (valid, n) = utf8_step bs
           in (if valid then take n bs else [0xEF, 0xBF, 0xBD]) @ from_utf8_lossy (drop n bs))"
  by pat_completeness auto

termination from_utf8_lossy
proof (relation "measure length")
  fix bs :: bytes and x valid n
  assume "bs \<noteq> []" "x = utf8_step bs" "(valid, n) = x"
  then show "(drop n bs, bs) \<in> measure length"
    using utf8_step_positive [of bs] by (metis diff_less in_measure length_drop length_greater_0_conv snd_conv)
qed simp

declare from_utf8_lossy.simps [simp del]

lemma from_utf8_lossy_valid: "utf8_valid bs \<Longrightarrow> from_utf8_lossy bs = bs"
proof (induction bs rule: utf8_valid.induct)
  case (1 bs)
  show ?case
  proof (cases "bs = []")
    case False
    then have v: "fst (utf8_step bs)" "utf8_valid (drop (snd (utf8_step bs)) bs)"
      using 1(2) by (simp_all add: utf8_valid.simps [of bs] split: if_splits)
    then have "from_utf8_lossy (drop (snd (utf8_step bs)) bs) = drop (snd (utf8_step bs)) bs"
      using 1(1) False v by blast
    then show ?thesis
      using v(1) False by (subst from_utf8_lossy.simps) (simp add: case_prod_beta)
  qed (simp add: from_utf8_lossy.simps)
qed

section \<open>Lines and words\<close>

text \<open>
  \<open>str::lines\<close>: a line ends with a newline, which is dropped together with a carriage return before it; a last line without a newline
  keeps its carriage return.
\<close>

definition drop_cr :: "bytes \<Rightarrow> bytes" where
  "drop_cr line = (if line \<noteq> [] \<and> last line = 13 then butlast line else line)"

fun text_lines_from :: "bytes \<Rightarrow> bytes \<Rightarrow> bytes list" where
  "text_lines_from line [] = (if line = [] then [] else [line])"
| "text_lines_from line (b # bs) = (if b = 10 then drop_cr line # text_lines_from [] bs else text_lines_from (line @ [b]) bs)"

definition text_lines :: "bytes \<Rightarrow> bytes list" where
  "text_lines bs = text_lines_from [] bs"

text \<open>The length of a white space character at the start of the text, 0 if there is none.\<close>

definition white_space_len :: "bytes \<Rightarrow> nat" where
  "white_space_len bs =
     (let a = byte_at bs 0; b = byte_at bs 1; c = byte_at bs 2
      in if bs = [] then 0 else if in_bytes 9 13 a \<or> a = 32 then 1
         else if a = 0xC2 \<and> (b = 0x85 \<or> b = 0xA0) then 2
         else if a = 0xE1 \<and> b = 0x9A \<and> c = 0x80 then 3
         else if a = 0xE2 \<and> b = 0x80 \<and> (in_bytes 0x80 0x8A c \<or> c = 0xA8 \<or> c = 0xA9 \<or> c = 0xAF) then 3
         else if a = 0xE2 \<and> b = 0x81 \<and> c = 0x9F then 3
         else if a = 0xE3 \<and> b = 0x80 \<and> c = 0x80 then 3
         else 0)"

text \<open>\<open>str::split_whitespace\<close>: the words between runs of white space.\<close>

function words_from :: "bytes \<Rightarrow> bytes \<Rightarrow> bytes list" where
  "words_from word bs =
     (if bs = [] then (if word = [] then [] else [word])
      else let n = white_space_len bs
           in if n = 0 then words_from (word @ [hd bs]) (tl bs)
              else (if word = [] then [] else [word]) @ words_from [] (drop n bs))"
  by pat_completeness auto

termination words_from
  by (relation "measure (\<lambda>(word, bs). length bs)") (auto simp: length_greater_0_conv)

declare words_from.simps [simp del]

definition split_whitespace :: "bytes \<Rightarrow> bytes list" where
  "split_whitespace bs = words_from [] bs"

section \<open>The address parser\<close>

text \<open>
  A parser takes the remaining input and returns a value with what is left, or \<open>None\<close>, after which the input is as before.
\<close>

type_synonym 'a net_parser = "bytes \<Rightarrow> ('a \<times> bytes) option"

definition read_given_char :: "u8 \<Rightarrow> unit net_parser" where
  "read_given_char c bs = (case bs of [] \<Rightarrow> None | b # r \<Rightarrow> if b = c then Some ((), r) else None)"

definition digit_of :: "nat \<Rightarrow> u8 \<Rightarrow> nat option" where
  "digit_of radix b =
     (let v = (if in_bytes 48 57 b then Some (unat b - 48) else if in_bytes 97 122 b then Some (unat b - 87)
               else if in_bytes 65 90 b then Some (unat b - 55) else None)
      in case v of None \<Rightarrow> None | Some d \<Rightarrow> if d < radix then Some d else None)"

text \<open>
  The digits of a number: too many of them, and a value that does not fit the type, are failures. \<open>limit\<close> is the first value that
  does not fit.
\<close>

fun read_digits :: "nat \<Rightarrow> nat \<Rightarrow> nat option \<Rightarrow> nat \<Rightarrow> nat \<Rightarrow> bytes \<Rightarrow> ((nat \<times> nat) \<times> bytes) option" where
  "read_digits radix limit max_digits n v [] = Some ((v, n), [])"
| "read_digits radix limit max_digits n v (b # r) =
     (case digit_of radix b of
        None \<Rightarrow> Some ((v, n), b # r)
      | Some d \<Rightarrow>
          if v * radix + d \<ge> limit \<or> (case max_digits of None \<Rightarrow> False | Some m \<Rightarrow> n + 1 > m) then None
          else read_digits radix limit max_digits (n + 1) (v * radix + d) r)"

definition read_number :: "nat \<Rightarrow> nat \<Rightarrow> nat option \<Rightarrow> bool \<Rightarrow> nat net_parser" where
  "read_number radix limit max_digits allow_zero_prefix bs =
     (case read_digits radix limit max_digits 0 0 bs of
        None \<Rightarrow> None
      | Some ((v, n), r) \<Rightarrow>
          if n = 0 then None else if \<not> allow_zero_prefix \<and> hd bs = 48 \<and> n > 1 then None else Some (v, r))"

definition read_separator :: "u8 \<Rightarrow> nat \<Rightarrow> 'a net_parser \<Rightarrow> 'a net_parser" where
  "read_separator sep index inner bs =
     (if index > 0 then (case read_given_char sep bs of None \<Rightarrow> None | Some (_, r) \<Rightarrow> inner r) else inner bs)"

fun read_octets :: "nat \<Rightarrow> nat \<Rightarrow> bytes net_parser" where
  "read_octets index 0 bs = Some ([], bs)"
| "read_octets index (Suc left) bs =
     (case read_separator 46 index (read_number 10 256 (Some 3) False) bs of
        None \<Rightarrow> None
      | Some (v, r) \<Rightarrow> (case read_octets (index + 1) left r of None \<Rightarrow> None
          | Some (vs, r) \<Rightarrow> Some (word_of_nat v # vs, r)))"

definition read_ipv4_addr :: "bytes net_parser" where
  "read_ipv4_addr bs = read_octets 0 4 bs"

text \<open>The groups of an IPv6 address, as pairs of octets, and whether they end with an embedded IPv4 address.\<close>

fun read_groups :: "nat \<Rightarrow> nat \<Rightarrow> bytes \<Rightarrow> (bytes \<times> bool) \<times> bytes" where
  "read_groups index 0 bs = (([], False), bs)"
| "read_groups index (Suc left) bs =
     (case (if left > 0 then read_separator 58 index read_ipv4_addr bs else None) of
        Some (v4, r) \<Rightarrow> ((v4, True), r)
      | None \<Rightarrow> (case read_separator 58 index (read_number 16 65536 (Some 4) True) bs of
            None \<Rightarrow> (([], False), bs)
          | Some (g, r) \<Rightarrow> (case read_groups (index + 1) left r of
              ((gs, v4), r) \<Rightarrow> ((u16_to_be (word_of_nat g) @ gs, v4), r))))"

definition read_ipv6_addr :: "bytes net_parser" where
  "read_ipv6_addr bs =
     (case read_groups 0 8 bs of ((head, head_v4), r) \<Rightarrow>
        if length head = 16 then Some (head, r)
        else if head_v4 then None
        else case read_given_char 58 r of None \<Rightarrow> None | Some (_, r) \<Rightarrow>
             case read_given_char 58 r of None \<Rightarrow> None | Some (_, r) \<Rightarrow>
             case read_groups 0 (8 - (length head div 2 + 1)) r of ((tail, _), r) \<Rightarrow>
               Some (head @ replicate (16 - length head - length tail) 0 @ tail, r))"

definition read_port :: "u16 net_parser" where
  "read_port bs =
     (case read_given_char 58 bs of None \<Rightarrow> None
      | Some (_, r) \<Rightarrow> (case read_number 10 65536 None True r of None \<Rightarrow> None | Some (v, r) \<Rightarrow> Some (word_of_nat v, r)))"

definition read_scope_id :: "u32 net_parser" where
  "read_scope_id bs =
     (case read_given_char 37 bs of None \<Rightarrow> None
      | Some (_, r) \<Rightarrow> (case read_number 10 (2 ^ 32) None True r of None \<Rightarrow> None | Some (v, r) \<Rightarrow> Some (word_of_nat v, r)))"

definition read_socket_addr_v4 :: "socket_addr net_parser" where
  "read_socket_addr_v4 bs =
     (case read_ipv4_addr bs of None \<Rightarrow> None
      | Some (ip, r) \<Rightarrow> (case read_port r of None \<Rightarrow> None | Some (port, r) \<Rightarrow> Some (AddrV4 ip port, r)))"

definition read_socket_addr_v6 :: "socket_addr net_parser" where
  "read_socket_addr_v6 bs =
     (case read_given_char 91 bs of None \<Rightarrow> None | Some (_, r) \<Rightarrow>
      case read_ipv6_addr r of None \<Rightarrow> None | Some (ip, r) \<Rightarrow>
      case (case read_scope_id r of None \<Rightarrow> (0, r) | Some (sc, r) \<Rightarrow> (sc, r)) of (sc, r) \<Rightarrow>
      case read_given_char 93 r of None \<Rightarrow> None | Some (_, r) \<Rightarrow>
      case read_port r of None \<Rightarrow> None | Some (port, r) \<Rightarrow> Some (AddrV6 ip port 0 sc, r))"

text \<open>\<open>parse\<close>: the whole input.\<close>

definition parse_with :: "'a net_parser \<Rightarrow> bytes \<Rightarrow> 'a option" where
  "parse_with p bs = (case p bs of Some (v, []) \<Rightarrow> Some v | _ \<Rightarrow> None)"

definition parse_ip_addr :: "bytes \<Rightarrow> bytes option" where
  "parse_ip_addr bs =
     parse_with (\<lambda>bs. case read_ipv4_addr bs of Some y \<Rightarrow> Some y | None \<Rightarrow> read_ipv6_addr bs) bs"

definition parse_socket_addr :: "bytes \<Rightarrow> socket_addr option" where
  "parse_socket_addr bs =
     parse_with (\<lambda>bs. case read_socket_addr_v4 bs of Some y \<Rightarrow> Some y | None \<Rightarrow> read_socket_addr_v6 bs) bs"

text \<open>\<open>SocketAddr::new\<close>: the family is that of the address.\<close>

definition socket_addr_new :: "bytes \<Rightarrow> u16 \<Rightarrow> socket_addr" where
  "socket_addr_new ip port = (if length ip = 4 then AddrV4 ip port else AddrV6 ip port 0 0)"

end
