(* ===== verification/Cli.thy ===== *)
theory Cli
  imports Supervisor Std_Text
begin

text \<open>
  The command line (\<open>crates/cli/src/main.rs\<close>) and the resolver lookup of \<open>crates/namespace/src/config.rs\<close>. The argument parser is an
  external crate: its result, the structure of arguments, is the input here, with the values that the
  declarations give to options that are left out. The program that runs an instance is the supervisor's.
\<close>

section \<open>Arguments\<close>

record run_args =
  arg_direct :: bool
  arg_socks5 :: "socket_addr option"
  arg_http_connect :: "socket_addr option"
  arg_username_file :: "bytes option"
  arg_password_file :: "bytes option"
  arg_name :: "bytes option"
  arg_runtime_dir :: "bytes option"
  arg_max_tcp_flows :: usize
  arg_udp :: bytes
  arg_max_udp_flows :: usize
  arg_max_udp_associations :: usize
  arg_workers :: usize
  arg_sandbox :: bytes
  arg_max_pending :: usize
  arg_max_retained :: usize
  arg_receive_buffer :: usize
  arg_send_buffer :: usize
  arg_tap_mtu :: u32
  arg_tap_offload :: bytes
  arg_dns :: bytes
  arg_dns_upstream :: "socket_addr option"
  arg_no_ipv4 :: bool
  arg_no_ipv6 :: bool
  arg_host_loopback :: bool
  arg_command :: "bytes list"

text \<open>The arguments when nothing but a command is given; an upstream still has to be chosen.\<close>

definition default_args :: "bytes list \<Rightarrow> run_args" where
  "default_args cmd = \<lparr>arg_direct = False, arg_socks5 = None, arg_http_connect = None, arg_username_file = None, arg_password_file = None,
     arg_name = None, arg_runtime_dir = None, arg_max_tcp_flows = 4096, arg_udp = lit ''on'', arg_max_udp_flows = 8192,
     arg_max_udp_associations = 2048, arg_workers = 1, arg_sandbox = lit ''on'', arg_max_pending = 64 * 1024 * 1024,
     arg_max_retained = 64 * 1024 * 1024, arg_receive_buffer = 256 * 1024, arg_send_buffer = 256 * 1024,
     arg_tap_mtu = DEFAULT_TAP_MTU, arg_tap_offload = lit ''on'', arg_dns = lit ''proxy-tcp'', arg_dns_upstream = None,
     arg_no_ipv4 = False, arg_no_ipv6 = False, arg_host_loopback = False, arg_command = cmd\<rparr>"

record status_args =
  status_name :: bytes
  status_runtime_dir :: "bytes option"
  status_json :: bool

datatype cli_error = CliMessage string | CliIo io_error | CliProxy proxy_error | CliSupervisor supervisor_error

section \<open>Resolvers\<close>

definition first_nameserver :: "bytes \<Rightarrow> bytes option" where
  "first_nameserver resolv_conf =
     (case List.map_filter (\<lambda>line. case split_whitespace line of
              k # v # _ \<Rightarrow> if k = lit ''nameserver'' then parse_ip_addr v else None
            | _ \<Rightarrow> None) (text_lines resolv_conf) of
        [] \<Rightarrow> None | ip # _ \<Rightarrow> Some ip)"

definition parse_resolver :: "bytes \<Rightarrow> string + socket_addr" where
  "parse_resolver text =
     (case parse_socket_addr text of
        Some a \<Rightarrow> Inr a
      | None \<Rightarrow> (case parse_ip_addr text of Some ip \<Rightarrow> Inr (socket_addr_new ip 53) | None \<Rightarrow> Inl ''expected IP or IP:PORT''))"

text \<open>The warnings about the resolver are log output.\<close>

definition dns_config_of :: "bytes \<Rightarrow> socket_addr option \<Rightarrow> ('e, dns_config) prog" where
  "dns_config_of mode explicit_upstream =
     (if mode = lit ''off'' then ok dns_off
      else
        bnd (attempt (invoke_out (Limit (GetEnv (lit ''YAYATHT_RESOLV_CONF''))))) (\<lambda>r.
        let path = (case r of Inl _ \<Rightarrow> lit ''/etc/resolv.conf'' | Inr (n, v) \<Rightarrow> v)
        in bnd (case explicit_upstream of
              Some a \<Rightarrow> ok (Some a)
            | None \<Rightarrow> bnd (attempt (invoke_out (File (FsReadAll path)))) (\<lambda>r. ok (case r of
                  Inl _ \<Rightarrow> None
                | Inr (n, contents) \<Rightarrow>
                    if utf8_valid contents then map_option (\<lambda>ip. socket_addr_new ip 53) (first_nameserver contents) else None)))
          (\<lambda>resolver. ok \<lparr>dns_mode_of = (if mode = lit ''proxy-udp'' then ProxyUdp else ProxyTcp), dns_resolver = resolver\<rparr>)))"

section \<open>Credentials\<close>

definition O_CLOEXEC_NOFOLLOW :: int where "O_CLOEXEC_NOFOLLOW = 0xa0000"

text \<open>\<open>take(257).read_to_end\<close> reads the first 257 bytes of the file.\<close>

definition trim_newline :: "bytes \<Rightarrow> bytes" where
  "trim_newline v =
     (if v \<noteq> [] \<and> last v = 10
      then let v = butlast v in if v \<noteq> [] \<and> last v = 13 then butlast v else v
      else v)"

definition read_credential :: "bytes \<Rightarrow> (cli_error, bytes) prog" where
  "read_credential path =
     bnd (convert CliIo (invoke (File (FsOpen path O_CLOEXEC_NOFOLLOW 0)))) (\<lambda>file.
     bnd (convert CliIo (invoke_stat (File (FsFstat file)))) (\<lambda>st.
       if \<not> st_regular st then err (CliMessage ''credential is not a regular file'')
       else bnd (infallible (Proc Getuid)) (\<lambda>uid.
         if st_uid st \<noteq> uid then err (CliMessage ''credential is not owned by the current user'')
         else if st_mode st AND 63 \<noteq> 0 then err (CliMessage ''credential permissions must not allow group or other access'')
         else bnd (convert CliIo (receive_bytes (Io (Read file 257)) 257)) (\<lambda>v.
           let v = trim_newline v
           in if length v > 255 then err (CliMessage ''credential exceeds 255 bytes'') else ok v))))"

section \<open>Running an instance\<close>

definition read_credentials :: "bytes option \<Rightarrow> bytes option \<Rightarrow> (cli_error, credentials option) prog" where
  "read_credentials username_file password_file =
     (case (username_file, password_file) of
        (Some u, Some p) \<Rightarrow>
          bnd (read_credential u) (\<lambda>u.
          bnd (read_credential p) (\<lambda>p.
          bnd (lift_result (map_sum CliProxy id (credentials_new u p))) (\<lambda>c. ok (Some c))))
      | (None, None) \<Rightarrow> ok None
      | _ \<Rightarrow> err (CliMessage ''proxy username and password files must be provided together''))"

definition select_upstream :: "run_args \<Rightarrow> credentials option \<Rightarrow> cli_error + upstream_config" where
  "select_upstream args credentials =
     (case (arg_direct args, arg_socks5 args, arg_http_connect args) of
        (True, None, None) \<Rightarrow>
          if credentials \<noteq> None then Inl (CliMessage ''proxy credentials cannot be used with --direct'')
          else Inr (DirectUpstream (arg_host_loopback args))
      | (False, Some address, None) \<Rightarrow>
          if arg_host_loopback args then Inl (CliMessage ''--host-loopback is only valid with --direct'')
          else Inr (ProxyUpstream Socks5 address credentials)
      | (False, None, Some address) \<Rightarrow>
          if arg_host_loopback args then Inl (CliMessage ''--host-loopback is only valid with --direct'')
          else Inr (ProxyUpstream HttpConnect address credentials)
      | _ \<Rightarrow> Inl (CliMessage ''select exactly one of --direct, --socks5, or --http-connect''))"

text \<open>The two tests of the DNS mode.\<close>

definition check_dns :: "run_args \<Rightarrow> upstream_config \<Rightarrow> cli_error + unit" where
  "check_dns args upstream =
     (if arg_dns args = lit ''proxy-udp'' \<and> \<not> (case upstream of ProxyUpstream Socks5 _ _ \<Rightarrow> True | _ \<Rightarrow> False)
      then Inl (CliMessage ''--dns proxy-udp requires --socks5'')
      else if arg_dns args = lit ''proxy-udp'' \<and> arg_udp args = lit ''off'' then Inl (CliMessage ''--dns proxy-udp requires --udp on'')
      else Inr ())"

definition launch_of :: "run_args \<Rightarrow> upstream_config \<Rightarrow> dns_config \<Rightarrow> launch_config" where
  "launch_of args upstream d =
     \<lparr>launch_command = arg_command args, instance_name = arg_name args, runtime_root = arg_runtime_dir args,
      network = network_synthetic (\<not> arg_no_ipv4 args) (\<not> arg_no_ipv6 args) (arg_tap_mtu args) (arg_tap_offload args = lit ''on''),
      launch_upstream = upstream, dns = d, sandbox = (if arg_sandbox args = lit ''on'' then On else Off),
      total_tcp_flows = arg_max_tcp_flows args, launch_udp_enabled = (arg_udp args = lit ''on''),
      total_udp_flows = arg_max_udp_flows args, total_udp_associations = arg_max_udp_associations args, workers = arg_workers args,
      total_pending_bytes = arg_max_pending args, total_retained_bytes = arg_max_retained args,
      receive_buffer_bytes = arg_receive_buffer args, send_buffer_bytes = arg_send_buffer args\<rparr>"

definition launch_config_of :: "run_args \<Rightarrow> (cli_error, launch_config) prog" where
  "launch_config_of args =
     bnd (read_credentials (arg_username_file args) (arg_password_file args)) (\<lambda>credentials.
     bnd (lift_result (select_upstream args credentials)) (\<lambda>upstream.
     and_then (lift_result (check_dns args upstream))
    (bnd (dns_config_of (arg_dns args) (arg_dns_upstream args)) (\<lambda>d.
       ok (launch_of args upstream d)))))"

definition cli_run :: "'j build \<Rightarrow> run_args \<Rightarrow> (cli_error, int) prog" where
  "cli_run b args = bnd (launch_config_of args) (\<lambda>l. convert CliSupervisor (supervisor_run b l))"

section \<open>Status\<close>

text \<open>\<open>read_to_end\<close> reads all that the peer sends before it closes the stream.\<close>

text \<open>Reading a field of a JSON value as text or as a signed number; one that is missing or of another type is \<open>None\<close>.\<close>

record 'j json_fields =
  text_field :: "'j \<Rightarrow> bytes \<Rightarrow> bytes option"
  number_field :: "'j \<Rightarrow> bytes \<Rightarrow> int option"

definition show_int :: "int \<Rightarrow> bytes" where
  "show_int n = (if n < 0 then lit ''-'' @ show_dec (nat (- n)) else show_dec (nat n))"

definition or_unknown :: "bytes option \<Rightarrow> bytes" where
  "or_unknown t = (case t of None \<Rightarrow> lit ''unknown'' | Some v \<Rightarrow> v)"

definition STDOUT :: fd where "STDOUT = 1"

definition cli_status :: "'j json \<Rightarrow> 'j json_fields \<Rightarrow> status_args \<Rightarrow> (cli_error, int) prog" where
  "cli_status J F args =
     bnd (case status_runtime_dir args of
            Some root \<Rightarrow> ok root
          | None \<Rightarrow> bnd (attempt (invoke_out (Limit (GetEnv (lit ''XDG_RUNTIME_DIR''))))) (\<lambda>r. case r of
                Inl _ \<Rightarrow> err (CliMessage ''XDG_RUNTIME_DIR is not set'')
              | Inr (n, xdg) \<Rightarrow> ok (path_join xdg (lit ''yayatht'')))) (\<lambda>root.
     let socket = path_join (path_join root (status_name args)) (lit ''control.sock'')
     in bnd (convert CliIo (invoke (Msg (UnixConnect socket)))) (\<lambda>stream.
        bnd (lift_result (map_sum CliIo id (encode_io control_kind.Status 1 []))) (\<lambda>request.
        and_then (convert CliIo (perform (Io (Write stream request))))
       (and_then (convert CliIo (perform (Sock (ShutdownSocket stream 1))))
       (bnd (convert CliIo (bnd (invoke_out (Io (Read stream 0))) (\<lambda>(n, response). ok response))) (\<lambda>response.
        bnd (lift_result (map_sum CliIo id (decode_io response))) (\<lambda>m.
          if msg_kind m \<noteq> control_kind.Status then err (CliIo (Custom IoInvalidData ''invalid status reply''))
          else
            bnd (if status_json args then ok (from_utf8_lossy (msg_payload m))
                 else case parse_json J (msg_payload m) of
                     None \<Rightarrow> err (CliMessage ''invalid JSON'')
                   | Some v \<Rightarrow> ok (or_unknown (text_field F v (lit ''instance_id'')) @ lit '': '' @ or_unknown (text_field F v (lit ''state'')) @
                       lit '' (target pid '' @ show_int (case number_field F v (lit ''target_pid'') of None \<Rightarrow> 0 | Some n \<Rightarrow> n) @ lit '')''))
              (\<lambda>line. bnd (infallible (Io (Write STDOUT (line @ [10])))) (\<lambda>_. ok 0)))))))))"

text \<open>The whole program: the code with which the process ends.\<close>

datatype cli_command = RunCommand run_args | StatusCommand status_args

definition cli_main :: "'j build \<Rightarrow> 'j json_fields \<Rightarrow> cli_command \<Rightarrow> ('e, int) prog" where
  "cli_main b F command =
     bnd (attempt (case command of RunCommand a \<Rightarrow> cli_run b a | StatusCommand a \<Rightarrow> cli_status (json_library b) F a)) (\<lambda>r.
       ok (case r of Inr code \<Rightarrow> code | Inl _ \<Rightarrow> 125))"

section \<open>Accepted arguments\<close>

text \<open>The ranges that the help texts of the options give, and the two conditions that involve several options.\<close>

definition documented :: "run_args \<Rightarrow> bool" where
  "documented args \<longleftrightarrow>
     arg_command args \<noteq> [] \<and> \<not> (arg_no_ipv4 args \<and> arg_no_ipv6 args) \<and> 1280 \<le> arg_tap_mtu args \<and> arg_tap_mtu args \<le> 65520 \<and>
     (\<forall>n \<in> {arg_max_tcp_flows args, arg_max_udp_flows args, arg_max_udp_associations args}. 1 \<le> n \<and> n \<le> 1048576 \<and> arg_workers args \<le> n) \<and>
     1 \<le> arg_workers args \<and> arg_workers args \<le> 256 \<and>
     (\<forall>n \<in> {arg_max_pending args, arg_max_retained args}. 16 * 1024 \<le> n \<and> n \<le> 1024 ^ 4 \<and> arg_workers args * (16 * 1024) \<le> n) \<and>
     (\<forall>n \<in> {arg_receive_buffer args, arg_send_buffer args}. 16 * 1024 \<le> n \<and> n \<le> 16 * 1024 * 1024) \<and>
     (\<forall>name. arg_name args = Some name \<longrightarrow> name \<noteq> [] \<and> list_all name_byte name)"

lemma dns_config_mode: "dns_config_of mode up w = Some (Inr d, w') \<Longrightarrow> dns_mode_of d = ProxyUdp \<longleftrightarrow> mode = lit ''proxy-udp''"
  by (auto simp: dns_config_of_def success ok_outcome dns_off_def lit_def Let_def split: if_splits)

lemma launch_steps:
  assumes "launch_config_of args w = Some (Inr l, w')"
  obtains cr w1 up d where "read_credentials (arg_username_file args) (arg_password_file args) w = Some (Inr cr, w1)"
    "select_upstream args cr = Inr up" "check_dns args up = Inr ()" "dns_config_of (arg_dns args) (arg_dns_upstream args) w1 = Some (Inr d :: cli_error + dns_config, w')"
    "l = launch_of args up d"
  using assms by (auto simp: launch_config_of_def success ok_outcome)

lemma saturating_small: "n \<le> 256 \<Longrightarrow> saturating_mul_usize n (16 * 1024) = n * (16 * 1024)"
  by (simp add: saturating_mul_usize_def min_def)

lemma proxy_udp_allowed:
  assumes "select_upstream args cr = Inr up" "check_dns args up = Inr ()" "arg_udp args = lit ''on'' \<or> arg_udp args = lit ''off''"
    "arg_dns args = lit ''proxy-udp''"
  shows "arg_udp args = lit ''on'' \<and> socks_upstream up"
  using assms by (auto simp: check_dns_def socks_upstream_def split: if_splits upstream_config.splits protocol.splits)

lemma validate_launch:
  assumes "\<not> (dns_mode_of d = ProxyUdp \<and> (arg_udp args \<noteq> lit ''on'' \<or> \<not> socks_upstream up))"
  shows "validate (launch_of args up d) = Inr () \<longleftrightarrow> documented args"
proof
  assume d: "documented args"
  then show "validate (launch_of args up d) = Inr ()"
    using assms saturating_small [of "arg_workers args"]
    by (auto simp: validate_def launch_of_def network_synthetic_def in_range_def documented_def MIN_TAP_MTU_def MAX_TAP_MTU_def MAX_WORKERS_def
        Let_def split: option.splits)
next
  assume v: "validate (launch_of args up d) = Inr ()"
  show "documented args"
    using v saturating_small [of "arg_workers args"]
    by (auto simp: validate_def launch_of_def network_synthetic_def in_range_def documented_def MIN_TAP_MTU_def MAX_TAP_MTU_def MAX_WORKERS_def
        Let_def split: option.splits if_splits)
qed

text \<open>
  C18. The command line and the validation agree. Whenever the arguments lead to a launch configuration, the configuration is
  valid exactly if the arguments are within the documented ranges; in particular the supervisor never rejects the
  DNS mode, which the command line has checked before. The configuration has the one upstream that was selected,
  with credentials only for a proxy and the host's loopback only for direct connections.
\<close>

theorem cli_launch_validates:
  assumes "launch_config_of args w = Some (Inr l, w')" "arg_udp args = lit ''on'' \<or> arg_udp args = lit ''off''"
  shows "(validate l = Inr () \<longleftrightarrow> documented args) \<and>
    (case launch_upstream l of
       DirectUpstream lb \<Rightarrow> arg_direct args \<and> lb = arg_host_loopback args \<and> arg_username_file args = None
     | ProxyUpstream pr a cr \<Rightarrow> \<not> arg_direct args \<and> \<not> arg_host_loopback args \<and>
         (pr = Socks5 \<and> arg_socks5 args = Some a \<and> arg_http_connect args = None \<or>
          pr = HttpConnect \<and> arg_http_connect args = Some a \<and> arg_socks5 args = None) \<and>
         (cr = None \<longleftrightarrow> arg_username_file args = None))"
proof -
  obtain cr w1 up d where s: "read_credentials (arg_username_file args) (arg_password_file args) w = Some (Inr cr, w1)"
    "select_upstream args cr = Inr up" "check_dns args up = Inr ()" "dns_config_of (arg_dns args) (arg_dns_upstream args) w1 = Some (Inr d :: cli_error + dns_config, w')"
    and l: "l = launch_of args up d"
    by (rule launch_steps [OF assms(1)])
  have "\<not> (dns_mode_of d = ProxyUdp \<and> (arg_udp args \<noteq> lit ''on'' \<or> \<not> socks_upstream up))"
    using proxy_udp_allowed [OF s(2,3) assms(2)] dns_config_mode [OF s(4)] by blast
  then have "validate l = Inr () \<longleftrightarrow> documented args"
    unfolding l by (rule validate_launch)
  moreover have "cr = None \<longleftrightarrow> arg_username_file args = None"
    using s(1) by (auto simp: read_credentials_def success ok_outcome split: option.splits)
  moreover have "launch_upstream l = up"
    by (simp add: l launch_of_def)
  moreover have "case up of
       DirectUpstream lb \<Rightarrow> arg_direct args \<and> lb = arg_host_loopback args \<and> cr = None
     | ProxyUpstream pr a c \<Rightarrow> \<not> arg_direct args \<and> \<not> arg_host_loopback args \<and>
         (pr = Socks5 \<and> arg_socks5 args = Some a \<and> arg_http_connect args = None \<or>
          pr = HttpConnect \<and> arg_http_connect args = Some a \<and> arg_socks5 args = None) \<and> c = cr"
    using s(2) by (auto simp: select_upstream_def split: if_splits option.splits bool.splits)
  ultimately show ?thesis
    by (simp split: upstream_config.splits)
qed

theorem cli_launch_validates_witness:
  "\<exists>l w'. launch_config_of ((default_args [lit ''sh''])\<lparr>arg_socks5 := Some (AddrV4 [127, 0, 0, 1] 1080), arg_dns := lit ''proxy-udp'',
       arg_dns_upstream := Some (AddrV4 [9, 9, 9, 9] 53)\<rparr>) quiet_system = Some (Inr l, w') \<and>
     validate l = Inr () \<and> launch_upstream l = ProxyUpstream Socks5 (AddrV4 [127, 0, 0, 1] 1080) None"
proof -
  let ?args = "(default_args [lit ''sh''])\<lparr>arg_socks5 := Some (AddrV4 [127, 0, 0, 1] 1080), arg_dns := lit ''proxy-udp'',
       arg_dns_upstream := Some (AddrV4 [9, 9, 9, 9] 53)\<rparr>"
  have "\<exists>l w'. launch_config_of ?args quiet_system = Some (Inr l, w')"
    by (simp add: launch_config_of_def default_args_def read_credentials_def select_upstream_def check_dns_def dns_config_of_def
        bnd_def and_then_def attempt_def running lit_def quiet_system_def)
  then obtain l w' where l: "launch_config_of ?args quiet_system = Some (Inr l, w')"
    by blast
  have d: "documented ?args"
    by (simp add: documented_def default_args_def DEFAULT_TAP_MTU_def)
  have u: "arg_udp ?args = lit ''on'' \<or> arg_udp ?args = lit ''off''" "\<not> arg_direct ?args" "arg_socks5 ?args = Some (AddrV4 [127, 0, 0, 1] 1080)"
    "arg_username_file ?args = None"
    by (simp_all add: default_args_def)
  show ?thesis
    using cli_launch_validates [OF l u(1)] l d u by (auto split: upstream_config.splits)
qed

section \<open>Credential files\<close>

definition less_line_end :: "bytes \<Rightarrow> bytes \<Rightarrow> bool" where
  "less_line_end text v \<longleftrightarrow>
     (if drop (length text - 2) text = [13, 10] then text = v @ [13, 10]
      else if drop (length text - 1) text = [10] then text = v @ [10]
      else text = v)"

lemma trim_newline_line_end: "less_line_end v (trim_newline v)"
proof (cases v rule: rev_cases)
  case (snoc a b)
  show ?thesis
    by (cases a rule: rev_cases) (auto simp: snoc trim_newline_def less_line_end_def Let_def butlast_append)
qed (simp add: trim_newline_def less_line_end_def)

text \<open>
  C19. A credential is taken only from a protected file, and is what the file holds. Whenever reading a
  credential succeeds, the calls made were to open the file without following a symbolic link, to
  look at the file opened, to ask for the user, and to read at most 257 bytes of that file; the file
  is a regular one, its owner is the user that the kernel named, and it gives no access to others;
  the credential has at most 255 bytes and is what was read less one CR LF or LF at its end.
\<close>

theorem credential_file_checked:
  assumes "read_credential path w = Some (Inr v, w')"
  shows "\<exists>file. let cs = [File (FsOpen path O_CLOEXEC_NOFOLLOW 0), File (FsFstat file), Proc Getuid];
        st = sys_stat w (calls w @ take 1 cs) (File (FsFstat file))
    in w' = after_calls w (cs @ [Io (Read file 257)]) \<and>
       sys_ret w (calls w) (File (FsOpen path O_CLOEXEC_NOFOLLOW 0)) = Inr file \<and>
       st_regular st \<and> st_mode st AND 63 = 0 \<and>
       st_uid st = (case sys_ret w (calls w @ take 2 cs) (Proc Getuid) of Inl _ \<Rightarrow> 0 | Inr uid \<Rightarrow> uid) \<and>
       length v \<le> 255 \<and> less_line_end (take 257 (sys_out w (calls w @ cs) (Io (Read file 257)))) v"
proof -
  obtain h w1 st w2 uid w3 raw where s: "invoke (File (FsOpen path O_CLOEXEC_NOFOLLOW 0)) w = Some (Inr h, w1)"
    "invoke_stat (File (FsFstat h)) w1 = Some (Inr st, w2)" "st_regular st"
    "infallible (Proc Getuid) w2 = Some (Inr uid :: cli_error + int, w3)" "st_uid st = uid" "st_mode st AND 63 = 0"
    "receive_bytes (Io (Read h 257)) 257 w3 = Some (Inr raw, w')" "v = trim_newline raw" "length v \<le> 255"
    using assms by (auto simp: read_credential_def success ok_outcome Let_def split: if_splits)
  note call = s(1,2,4,7) [unfolded outcome]
  show ?thesis
    using call s(3,5,6,9) trim_newline_line_end [of raw] s(8)
    by (intro exI [of _ h]) (auto simp: Let_def)
qed

definition credential_kernel :: "bytes \<Rightarrow> system" where
  "credential_kernel content = quiet_system\<lparr>sys_out := \<lambda>_ _. content,
     sys_stat := \<lambda>_ _. \<lparr>st_directory = False, st_symlink = False, st_regular = True, st_uid = 0, st_mode = 384, st_ino = 1\<rparr>\<rparr>"

lemma credential_read: "length (trim_newline (take 257 content)) \<le> 255 \<Longrightarrow>
   \<exists>w'. read_credential path (credential_kernel content) = Some (Inr (trim_newline (take 257 content)), w')"
  by (simp add: read_credential_def credential_kernel_def quiet_system_def running)

theorem credential_file_checked_witness:
  "\<exists>w'. read_credential (lit ''/run/user'') (credential_kernel [117, 10]) = Some (Inr [117], w') \<and>
     calls w' = [File (FsOpen (lit ''/run/user'') O_CLOEXEC_NOFOLLOW 0), File (FsFstat 0), Proc Getuid, Io (Read 0 257)]"
proof -
  obtain w' where w': "read_credential (lit ''/run/user'') (credential_kernel [117, 10]) = Some (Inr [117], w')"
    using credential_read [of "[117, 10]" "lit ''/run/user''"] by (auto simp: trim_newline_def)
  from credential_file_checked [OF this] show ?thesis
    using w' by (auto simp: Let_def credential_kernel_def quiet_system_def)
qed

text \<open>
  A file that is longer than what is read is not always rejected: when its bytes 256 and 257 are a line end, what follows is ignored.
\<close>

lemma credential_cut_off:
  "\<exists>w'. read_credential path (credential_kernel (replicate 255 97 @ [13, 10] @ rest)) = Some (Inr (replicate 255 97), w')"
proof -
  have "trim_newline (take 257 (replicate 255 97 @ [13, 10] @ rest)) = replicate 255 97"
    by (simp add: trim_newline_def Let_def butlast_append)
  then show ?thesis
    using credential_read [of "replicate 255 97 @ [13, 10] @ rest" path] by simp
qed

end
