(* ===== verification/Seccomp_Profile.thy ===== *)
theory Seccomp_Profile
  imports Seccomp Std_Text "HOL-Library.List_Lexorder"
begin

text \<open>
  The build script of \<open>crates/sys\<close> (\<open>build.rs\<close>), which turns \<open>syscalls.toml\<close> into the system call lists of the seccomp profiles.
  Text is bytes. A \<open>BTreeSet\<close> of strings is the sorted list of its elements, a \<open>BTreeMap\<close> an association list of
  which only lookups matter. A panic, which fails the build, is an \<open>Inl\<close> with the fixed part of its message.
\<close>

section \<open>Text\<close>

function only_white :: "bytes \<Rightarrow> bool" where
  "only_white bs = (if bs = [] then True else if white_space_len bs = 0 then False else only_white (drop (white_space_len bs) bs))"
  by pat_completeness auto

termination only_white
  by (relation "measure length") (auto simp: length_greater_0_conv)

declare only_white.simps [simp del]

function trim_start :: "bytes \<Rightarrow> bytes" where
  "trim_start bs = (if white_space_len bs = 0 then bs else trim_start (drop (white_space_len bs) bs))"
  by pat_completeness auto

termination trim_start
proof (relation "measure length")
  fix bs :: bytes
  assume "white_space_len bs \<noteq> 0"
  then have "bs \<noteq> []"
    by (auto simp: white_space_len_def)
  then show "(drop (white_space_len bs) bs, bs) \<in> measure length"
    using \<open>white_space_len bs \<noteq> 0\<close> by simp
qed simp

declare trim_start.simps [simp del]

fun trim_end :: "bytes \<Rightarrow> bytes" where
  "trim_end [] = []"
| "trim_end (b # bs) = (if only_white (b # bs) then [] else b # trim_end bs)"

definition trim :: "bytes \<Rightarrow> bytes" where
  "trim bs = trim_end (trim_start bs)"

fun split_on :: "u8 \<Rightarrow> bytes \<Rightarrow> bytes \<Rightarrow> bytes list" where
  "split_on c part [] = [part]"
| "split_on c part (b # bs) = (if b = c then part # split_on c [] bs else split_on c (part @ [b]) bs)"

fun split_once :: "u8 \<Rightarrow> bytes \<Rightarrow> bytes \<Rightarrow> (bytes \<times> bytes) option" where
  "split_once c part [] = None"
| "split_once c part (b # bs) = (if b = c then Some (part, bs) else split_once c (part @ [b]) bs)"

definition starts_with :: "u8 \<Rightarrow> bytes \<Rightarrow> bool" where
  "starts_with c bs \<longleftrightarrow> bs \<noteq> [] \<and> hd bs = c"

definition ends_with :: "u8 \<Rightarrow> bytes \<Rightarrow> bool" where
  "ends_with c bs \<longleftrightarrow> bs \<noteq> [] \<and> last bs = c"

section \<open>The manifest\<close>

definition ROLES :: "bytes list" where
  "ROLES = [lit ''data_plane'', lit ''namespace_init'', lit ''supervisor'']"

definition ARCHITECTURES :: "bytes list" where
  "ARCHITECTURES = [lit ''aarch64'', lit ''x86_64'']"

definition valid_identifier :: "bytes \<Rightarrow> bool" where
  "valid_identifier v \<longleftrightarrow> v \<noteq> [] \<and> list_all (\<lambda>b. in_bytes 97 122 b \<or> in_bytes 48 57 b \<or> b = 95) v"

record manifest =
  aliases :: "(bytes \<times> (bytes \<times> bytes) list) list"
  architecture_roles :: "((bytes \<times> bytes) \<times> bytes list) list"
  roles :: "(bytes \<times> bytes list) list"

definition manifest_default :: manifest where
  "manifest_default = \<lparr>aliases = [], architecture_roles = [], roles = []\<rparr>"

datatype section_kind = NoSection | Aliases bytes | ArchitectureRole bytes bytes | Role bytes

text \<open>\<open>entry(k).or_default()\<close> followed by an insertion into the set.\<close>

definition insert_into :: "'k \<Rightarrow> bytes \<Rightarrow> ('k \<times> bytes list) list \<Rightarrow> ('k \<times> bytes list) list" where
  "insert_into k x m = AList.update k (insort_insert x (case map_of m k of None \<Rightarrow> [] | Some xs \<Rightarrow> xs)) m"

definition section_of :: "bytes list \<Rightarrow> string + section_kind" where
  "section_of parts =
     (case parts of
        [k, arch] \<Rightarrow> if k = lit ''aliases'' \<and> arch \<in> set ARCHITECTURES then Inr (Aliases arch) else Inl ''invalid section''
      | [k, role, feature] \<Rightarrow>
          if k = lit ''role'' \<and> role \<in> set ROLES \<and> valid_identifier feature then Inr (Role role) else Inl ''invalid section''
      | [k, arch, role, feature] \<Rightarrow>
          if k = lit ''arch'' \<and> arch \<in> set ARCHITECTURES \<and> role \<in> set ROLES \<and> valid_identifier feature
          then Inr (ArchitectureRole arch role) else Inl ''invalid section''
      | _ \<Rightarrow> Inl ''invalid section'')"

text \<open>One entry of a section.\<close>

definition add_entry :: "manifest \<Rightarrow> section_kind \<Rightarrow> bytes \<Rightarrow> bytes \<Rightarrow> string + manifest" where
  "add_entry m sec key v =
     (case sec of
        Aliases arch \<Rightarrow>
          (let table = (case map_of (aliases m) arch of None \<Rightarrow> [] | Some t \<Rightarrow> t)
           in if map_of table key \<noteq> None then Inl ''duplicate alias''
              else Inr (m\<lparr>aliases := AList.update arch ((key, v) # table) (aliases m)\<rparr>))
      | Role role \<Rightarrow> Inr (m\<lparr>roles := insert_into role key (roles m)\<rparr>)
      | ArchitectureRole arch role \<Rightarrow> Inr (m\<lparr>architecture_roles := insert_into (arch, role) key (architecture_roles m)\<rparr>)
      | NoSection \<Rightarrow> Inl ''entry before section'')"

text \<open>The text of an entry: its key and its value, without the quotes.\<close>

definition entry_of :: "bytes \<Rightarrow> string + bytes \<times> bytes" where
  "entry_of line =
     (case split_once 61 [] line of
        None \<Rightarrow> Inl ''missing =''
      | Some (key, v) \<Rightarrow>
          (let key = trim key; v = trim v
           in if \<not> valid_identifier key then Inl ''invalid syscall name''
              else if \<not> (2 \<le> length v \<and> starts_with 34 v \<and> ends_with 34 v) then Inl ''value must be a non-empty quoted string''
              else let v = butlast (tl v)
                   in if v = [] \<or> 34 \<in> set v then Inl ''invalid value'' else Inr (key, v)))"

text \<open>One line, with the section it stands in.\<close>

definition parse_line :: "bytes \<Rightarrow> manifest \<times> section_kind \<Rightarrow> string + manifest \<times> section_kind" where
  "parse_line raw st =
     (case st of (m, sec) \<Rightarrow>
        let line = trim raw
        in if line = [] \<or> starts_with 35 line then Inr (m, sec)
           else if starts_with 91 line \<and> ends_with 93 line
           then (case section_of (split_on 46 [] (butlast (tl line))) of Inl e \<Rightarrow> Inl e | Inr sec' \<Rightarrow> Inr (m, sec'))
           else (case entry_of line of Inl e \<Rightarrow> Inl e
               | Inr (key, v) \<Rightarrow> (case add_entry m sec key v of Inl e \<Rightarrow> Inl e | Inr m' \<Rightarrow> Inr (m', sec))))"

fun parse_lines :: "bytes list \<Rightarrow> manifest \<times> section_kind \<Rightarrow> string + manifest" where
  "parse_lines [] st = Inr (fst st)"
| "parse_lines (l # ls) st = (case parse_line l st of Inl e \<Rightarrow> Inl e | Inr st' \<Rightarrow> parse_lines ls st')"

definition parse_manifest :: "bytes \<Rightarrow> string + manifest" where
  "parse_manifest contents =
     (case parse_lines (text_lines contents) (manifest_default, NoSection) of
        Inl e \<Rightarrow> Inl e
      | Inr m \<Rightarrow>
          if \<not> list_all (\<lambda>arch. map_of (aliases m) arch \<noteq> None) ARCHITECTURES then Inl ''missing alias table''
          else if \<not> list_all (\<lambda>role. case map_of (roles m) role of None \<Rightarrow> False | Some entries \<Rightarrow> entries \<noteq> []) ROLES
          then Inl ''missing syscall profile''
          else Inr m)"

section \<open>The generated lists\<close>

text \<open>The system calls of a role on an architecture, and their names after the aliases.\<close>

definition role_syscalls :: "manifest \<Rightarrow> bytes \<Rightarrow> bytes \<Rightarrow> bytes list" where
  "role_syscalls m arch role =
     fold insort_insert (case map_of (architecture_roles m) (arch, role) of None \<Rightarrow> [] | Some xs \<Rightarrow> xs)
       (case map_of (roles m) role of None \<Rightarrow> [] | Some xs \<Rightarrow> xs)"

definition resolved :: "manifest \<Rightarrow> bytes \<Rightarrow> bytes \<Rightarrow> bytes" where
  "resolved m arch syscall =
     (case Option.bind (map_of (aliases m) arch) (\<lambda>t. map_of t syscall) of None \<Rightarrow> syscall | Some v \<Rightarrow> v)"

definition to_ascii_uppercase :: "bytes \<Rightarrow> bytes" where
  "to_ascii_uppercase = map (\<lambda>b. if in_bytes 97 122 b then b - 32 else b)"

definition role_output :: "manifest \<Rightarrow> bytes \<Rightarrow> bytes \<Rightarrow> bytes" where
  "role_output m arch role =
     lit ''pub const '' @ to_ascii_uppercase role @ lit '': &[libc::c_long] = &['' @ [10] @
     concat (map (\<lambda>s. lit ''    libc::SYS_'' @ resolved m arch s @ lit '','' @ [10]) (role_syscalls m arch role)) @
     lit ''];'' @ [10]"

definition generate_profiles :: "bytes \<Rightarrow> bytes \<Rightarrow> string + bytes" where
  "generate_profiles contents arch =
     (if arch \<notin> set ARCHITECTURES then Inl ''unsupported seccomp target architecture''
      else case parse_manifest contents of Inl e \<Rightarrow> Inl e
        | Inr m \<Rightarrow> Inr (lit ''// @generated by build.rs from syscalls.toml.'' @ [10] @ concat (map (role_output m arch) ROLES)))"

text \<open>The list that the compiler makes of the output: the constants of the C library for the names.\<close>

definition profile_numbers :: "(bytes \<Rightarrow> int) \<Rightarrow> manifest \<Rightarrow> bytes \<Rightarrow> bytes \<Rightarrow> int list" where
  "profile_numbers SYS m arch role = map (SYS \<circ> resolved m arch) (role_syscalls m arch role)"

section \<open>What a manifest declares\<close>

text \<open>
  What the text says, by its form alone. A line is a heading if it is a text in brackets, and an entry if it is neither a heading nor a
  comment but a key, an equals sign and a quoted value. An entry stands under the last heading before it.
\<close>

definition heading :: "bytes \<Rightarrow> bytes \<Rightarrow> bool" where
  "heading l h \<longleftrightarrow> trim l = [91] @ h @ [93]"

definition entry :: "bytes \<Rightarrow> bytes \<Rightarrow> bytes \<Rightarrow> bool" where
  "entry l k v \<longleftrightarrow> (\<nexists>h. heading l h) \<and> (\<nexists>c. trim l = 35 # c) \<and>
     (\<exists>a b. trim l = a @ [61] @ b \<and> 61 \<notin> set a \<and> trim a = k \<and> trim b = [34] @ v @ [34])"

definition opened :: "bytes list \<Rightarrow> bytes \<Rightarrow> bytes \<Rightarrow> bool" where
  "opened ls k v \<longleftrightarrow> (\<exists>mid l post. ls = mid @ l # post \<and> (\<forall>x \<in> set mid. \<nexists>h. heading x h) \<and> entry l k v)"

definition stands :: "bytes list \<Rightarrow> bytes \<Rightarrow> bytes \<Rightarrow> bytes \<Rightarrow> bool" where
  "stands ls h k v \<longleftrightarrow> (\<exists>pre l rest. ls = pre @ l # rest \<and> heading l h \<and> opened rest k v)"

text \<open>
  The system calls declared for a role on an architecture are the keys under the headings of the role, whatever the feature, and under
  those of the role on this architecture. Their names for the C library are the values under the alias heading of the
  architecture, or the keys themselves.
\<close>

definition declared_syscalls :: "bytes \<Rightarrow> bytes \<Rightarrow> bytes \<Rightarrow> bytes set" where
  "declared_syscalls contents arch role =
     {k. \<exists>v feature. stands (text_lines contents) (lit ''role.'' @ role @ lit ''.'' @ feature) k v \<or>
        stands (text_lines contents) (lit ''arch.'' @ arch @ lit ''.'' @ role @ lit ''.'' @ feature) k v}"

definition declared_name :: "bytes \<Rightarrow> bytes \<Rightarrow> bytes \<Rightarrow> bytes \<Rightarrow> bool" where
  "declared_name contents arch k name \<longleftrightarrow>
     (if \<exists>v. stands (text_lines contents) (lit ''aliases.'' @ arch) k v
      then stands (text_lines contents) (lit ''aliases.'' @ arch) k name else name = k)"

fun target_name :: "target_arch \<Rightarrow> bytes" where
  "target_name X86_64 = lit ''x86_64''"
| "target_name Aarch64 = lit ''aarch64''"

section \<open>The parser finds the headings and entries\<close>

lemma starts_ends_iff: "starts_with a bs \<and> ends_with b bs \<and> a \<noteq> b \<longleftrightarrow> (\<exists>h. bs = [a] @ h @ [b]) \<and> a \<noteq> b"
proof (cases bs)
  case (Cons x xs)
  then show ?thesis
    by (cases xs rule: rev_cases) (auto simp: starts_with_def ends_with_def)
qed (simp add: starts_with_def)

lemma heading_iff: "starts_with 91 (trim l) \<and> ends_with 93 (trim l) \<longleftrightarrow> (\<exists>h. heading l h)"
  using starts_ends_iff [of 91 "trim l" 93] by (simp add: heading_def)

lemma heading_text: "heading l h \<Longrightarrow> butlast (tl (trim l)) = h"
  by (simp add: heading_def)

lemma split_once_iff: "split_once c part bs = Some (x, y) \<longleftrightarrow> (\<exists>a. x = part @ a \<and> bs = a @ [c] @ y \<and> c \<notin> set a)"
proof (induction bs arbitrary: part)
  case (Cons b bs)
  show ?case
    by (cases "b = c") (auto simp: Cons Cons_eq_append_conv)
qed simp

lemma entry_of_iff:
  "entry_of line = Inr (k, v) \<longleftrightarrow> valid_identifier k \<and> v \<noteq> [] \<and> 34 \<notin> set v \<and>
     (\<exists>a b. line = a @ [61] @ b \<and> 61 \<notin> set a \<and> trim a = k \<and> trim b = [34] @ v @ [34])"
proof (cases "split_once 61 [] line")
  case None
  moreover have "\<nexists>a b. line = a @ [61] @ b \<and> 61 \<notin> set a"
    using None split_once_iff [of 61 "[]" line] by auto
  ultimately show ?thesis
    by (auto simp: entry_of_def)
next
  case (Some p)
  obtain a b where p: "p = (a, b)"
    by (cases p)
  have line: "line = a' @ [61] @ b' \<and> 61 \<notin> set a' \<longleftrightarrow> a' = a \<and> b' = b" for a' b'
    using Some split_once_iff [of 61 "[]" line a' b'] by (auto simp: p)
  have q: "2 \<le> length (trim b) \<and> starts_with 34 (trim b) \<and> ends_with 34 (trim b) \<longleftrightarrow> (\<exists>u. trim b = [34] @ u @ [34])"
  proof (cases "trim b")
    case (Cons x xs)
    then show ?thesis
      by (cases xs rule: rev_cases) (auto simp: starts_with_def ends_with_def)
  qed simp
  have "(\<exists>a' b'. line = a' @ [61] @ b' \<and> 61 \<notin> set a' \<and> trim a' = k \<and> trim b' = [34] @ v @ [34]) \<longleftrightarrow>
      trim a = k \<and> trim b = [34] @ v @ [34]"
    using line by blast
  then show ?thesis
    unfolding entry_of_def Some p option.case prod.case Let_def using q by auto
qed

text \<open>The three kinds of line.\<close>

lemma parse_line_cases:
  assumes "parse_line l (m, sec) = Inr (m1, sec1)"
  obtains (skip) "m1 = m" "sec1 = sec" "\<nexists>h. heading l h" "\<nexists>k v. entry l k v"
    | (heading) h where "m1 = m" "heading l h" "section_of (split_on 46 [] h) = Inr sec1"
    | (entry) key v where "valid_identifier key" "add_entry m sec key v = Inr m1" "sec1 = sec"
        "\<nexists>h. heading l h" "\<And>k u. entry l k u \<longleftrightarrow> k = key \<and> u = v"
proof -
  consider "trim l = [] \<or> starts_with 35 (trim l)" "\<nexists>h. heading l h" | h where "heading l h"
    | "\<not> (trim l = [] \<or> starts_with 35 (trim l))" "\<nexists>h. heading l h"
    by blast
  then show thesis
  proof cases
    case 1
    then have "trim l = [] \<or> (\<exists>c. trim l = 35 # c)"
      by (cases "trim l") (auto simp: starts_with_def)
    then show thesis
      using assms 1 by (intro skip) (auto simp: parse_line_def Let_def entry_def)
  next
    case (2 h)
    then have "\<not> (trim l = [] \<or> starts_with 35 (trim l))" "starts_with 91 (trim l) \<and> ends_with 93 (trim l)"
      using heading_iff [of l] by (auto simp: heading_def starts_with_def)
    then have "section_of (split_on 46 [] h) = Inr sec1 \<and> m1 = m"
      using assms heading_text [OF 2] by (simp add: parse_line_def Let_def split: sum.splits)
    then show thesis
      using 2 by (intro heading) auto
  next
    case 3
    then have "(case entry_of (trim l) of Inl e \<Rightarrow> Inl e
        | Inr (key, v) \<Rightarrow> (case add_entry m sec key v of Inl e \<Rightarrow> Inl e | Inr m' \<Rightarrow> Inr (m', sec))) = Inr (m1, sec1)"
      using assms heading_iff [of l] unfolding parse_line_def Let_def prod.case by (simp only: if_False)
    then obtain key v where e: "entry_of (trim l) = Inr (key, v)" and a: "add_entry m sec key v = Inr m1" "sec1 = sec"
      by (auto split: sum.splits)
    have "\<nexists>c. trim l = 35 # c"
      using 3 by (auto simp: starts_with_def)
    then have "entry l k u \<longleftrightarrow> k = key \<and> u = v" for k u
      using e [unfolded entry_of_iff] 3(2) by (auto simp: entry_def append_eq_append_conv2 Cons_eq_append_conv append_eq_Cons_conv)
    then show thesis
      using 3 e a by (intro entry [of key v]) (auto simp: entry_of_iff)
  qed
qed

lemma opened_Cons: "opened (l # ls) k v \<longleftrightarrow> entry l k v \<or> (\<nexists>h. heading l h) \<and> opened ls k v"
proof
  assume "opened (l # ls) k v"
  then obtain mid e post where "l # ls = mid @ e # post" "\<forall>x \<in> set mid. \<nexists>h. heading x h" "entry e k v"
    by (auto simp: opened_def)
  then show "entry l k v \<or> (\<nexists>h. heading l h) \<and> opened ls k v"
    by (cases mid) (simp, clarsimp simp: opened_def, blast)
next
  assume "entry l k v \<or> (\<nexists>h. heading l h) \<and> opened ls k v"
  then show "opened (l # ls) k v"
  proof
    assume "entry l k v"
    then show ?thesis
      unfolding opened_def by (intro exI [of _ "[] :: bytes list"]) auto
  next
    assume "(\<nexists>h. heading l h) \<and> opened ls k v"
    then obtain mid e post where "ls = mid @ e # post" "\<forall>x \<in> set (l # mid). \<nexists>h. heading x h" "entry e k v"
      by (auto simp: opened_def)
    then show ?thesis
      unfolding opened_def by (intro exI [of _ "l # mid"]) auto
  qed
qed

lemma stands_Cons: "stands (l # ls) h k v \<longleftrightarrow> heading l h \<and> opened ls k v \<or> stands ls h k v"
proof
  assume "stands (l # ls) h k v"
  then obtain pre e rest where "l # ls = pre @ e # rest" "heading e h" "opened rest k v"
    by (auto simp: stands_def)
  then show "heading l h \<and> opened ls k v \<or> stands ls h k v"
    by (cases pre) (auto simp: stands_def)
next
  assume "heading l h \<and> opened ls k v \<or> stands ls h k v"
  then show "stands (l # ls) h k v"
    unfolding stands_def by (metis append_Cons append_Nil)
qed

text \<open>The entries that belong to the section \<open>sec\<close>, when the text starts in the section \<open>start\<close>.\<close>

definition belongs :: "bytes list \<Rightarrow> section_kind \<Rightarrow> section_kind \<Rightarrow> bytes \<Rightarrow> bytes \<Rightarrow> bool" where
  "belongs ls start sec k v \<longleftrightarrow>
     sec = start \<and> opened ls k v \<or> (\<exists>h. section_of (split_on 46 [] h) = Inr sec \<and> stands ls h k v)"

lemma belongs_heading:
  "heading l h \<Longrightarrow> section_of (split_on 46 [] h) = Inr sec1 \<Longrightarrow> belongs (l # ls) start sec k v \<longleftrightarrow> belongs ls sec1 sec k v"
  by (auto simp: belongs_def opened_Cons stands_Cons entry_def heading_def)

lemma belongs_other:
  "\<nexists>h. heading l h \<Longrightarrow> belongs (l # ls) start sec k v \<longleftrightarrow> sec = start \<and> entry l k v \<or> belongs ls start sec k v"
  by (auto simp: belongs_def opened_Cons stands_Cons)

section \<open>The tables hold what the text declares\<close>

definition keys_at :: "('k \<times> bytes list) list \<Rightarrow> 'k \<Rightarrow> bytes list" where
  "keys_at m k = (case map_of m k of None \<Rightarrow> [] | Some xs \<Rightarrow> xs)"

lemma keys_at_insert: "keys_at (insert_into k x m) k' = (if k' = k then insort_insert x (keys_at m k) else keys_at m k')"
  by (simp add: keys_at_def insert_into_def update_conv)

definition alias_at :: "manifest \<Rightarrow> bytes \<Rightarrow> bytes \<Rightarrow> bytes option" where
  "alias_at m arch k = Option.bind (map_of (aliases m) arch) (\<lambda>t. map_of t k)"

definition holds :: "(section_kind \<Rightarrow> bytes \<Rightarrow> bytes \<Rightarrow> bool) \<Rightarrow> manifest \<Rightarrow> bool" where
  "holds D m \<longleftrightarrow>
     (\<forall>role. let xs = keys_at (roles m) role in set xs = {k. \<exists>v. D (Role role) k v} \<and> sorted xs \<and> distinct xs) \<and>
     (\<forall>arch role. set (keys_at (architecture_roles m) (arch, role)) = {k. \<exists>v. D (ArchitectureRole arch role) k v}) \<and>
     (\<forall>arch k v. alias_at m arch k = Some v \<longleftrightarrow> D (Aliases arch) k v) \<and>
     (\<forall>sec k v. D sec k v \<longrightarrow> valid_identifier k)"

lemma insort_insert_keeps: "sorted xs \<and> distinct xs \<Longrightarrow> sorted (insort_insert x xs) \<and> distinct (insort_insert x xs)"
  by (simp add: sorted_insort_insert distinct_insort_insert)

lemma add_alias:
  assumes "add_entry m (Aliases arch) key v = Inr m'"
  shows "roles m' = roles m" "architecture_roles m' = architecture_roles m" "alias_at m arch key = None"
    "alias_at m' a k = (if a = arch \<and> k = key then Some v else alias_at m a k)"
  using assms by (auto simp: add_entry_def Let_def alias_at_def update_conv split: if_splits option.splits)

lemma add_entry_holds:
  assumes "add_entry m sec key v = Inr m'" "holds D m" "valid_identifier key"
  shows "holds (\<lambda>s k u. D s k u \<or> s = sec \<and> k = key \<and> u = v) m'"
proof (cases sec)
  case NoSection
  then show ?thesis
    using assms(1) by (simp add: add_entry_def)
next
  case (Aliases arch)
  note new = add_alias [OF assms(1) [unfolded Aliases]]
  have "\<not> D (Aliases arch) key u" for u
    using new(3) assms(2) unfolding holds_def by (metis option.distinct(1))
  then show ?thesis
    using assms(2,3) Aliases new(1,2) by (auto simp: holds_def new(4))
next
  case (ArchitectureRole arch role)
  then have "m' = m\<lparr>architecture_roles := insert_into (arch, role) key (architecture_roles m)\<rparr>"
    using assms(1) by (simp add: add_entry_def)
  then show ?thesis
    using assms(2,3) ArchitectureRole
    by (auto simp: holds_def Let_def keys_at_insert set_insort_insert alias_at_def)
next
  case (Role role)
  then have m': "m' = m\<lparr>roles := insert_into role key (roles m)\<rparr>"
    using assms(1) by (simp add: add_entry_def)
  have "alias_at m' = alias_at m"
    by (simp add: m' alias_at_def fun_eq_iff)
  then show ?thesis
    using assms(2,3) Role m' unfolding holds_def Let_def
    by (auto simp: keys_at_insert set_insort_insert insort_insert_keeps)
qed

lemma parse_lines_hold:
  "parse_lines ls (m, start) = Inr m' \<Longrightarrow> holds D m \<Longrightarrow> holds (\<lambda>s k v. D s k v \<or> belongs ls start s k v) m'"
proof (induction ls arbitrary: m start D)
  case Nil
  then show ?case
    by (simp add: belongs_def opened_def stands_def)
next
  case (Cons l ls)
  obtain m1 sec1 where one: "parse_line l (m, start) = Inr (m1, sec1)" and rest: "parse_lines ls (m1, sec1) = Inr m'"
    using Cons.prems(1) by (auto split: sum.splits)
  from one show ?case
  proof (cases rule: parse_line_cases)
    case skip
    then show ?thesis
      using Cons.IH [OF rest, of D] Cons.prems(2) by (simp add: belongs_other)
  next
    case (heading h)
    then show ?thesis
      using Cons.IH [OF rest, of D] Cons.prems(2) by (simp add: belongs_heading)
  next
    case (entry key v)
    then show ?thesis
      using Cons.IH [OF rest add_entry_holds [OF entry(2) Cons.prems(2) entry(1)]]
      by (simp add: belongs_other disj_assoc conj_commute)
  qed
qed

section \<open>The headings of the sections\<close>

lemma split_on_plain: "c \<notin> set a \<Longrightarrow> split_on c part a = [part @ a]"
  by (induction a arbitrary: part) auto

lemma split_on_cut: "c \<notin> set a \<Longrightarrow> split_on c part (a @ c # bs) = (part @ a) # split_on c [] bs"
  by (induction a arbitrary: part) auto

lemma split_on_nonempty: "split_on c part bs \<noteq> []"
  by (induction bs arbitrary: part) auto

lemma split_on_join: "split_on c part bs = ps \<Longrightarrow> part @ bs = (case ps of [] \<Rightarrow> [] | p # ps \<Rightarrow> p @ concat (map (Cons c) ps))"
proof (induction bs arbitrary: part ps)
  case (Cons b bs)
  show ?case
  proof (cases "b = c")
    case True
    then have "ps = part # split_on c [] bs"
      using Cons.prems by simp
    then show ?thesis
      using True Cons.IH [of "[]", OF refl] split_on_nonempty [of c "[]" bs] by (auto split: list.splits)
  next
    case False
    then show ?thesis
      using Cons.IH [of "part @ [b]" ps] Cons.prems by simp
  qed
qed auto

lemma no_dots: "x \<in> set ARCHITECTURES \<Longrightarrow> 46 \<notin> set x" "x \<in> set ROLES \<Longrightarrow> 46 \<notin> set x"
  by (auto simp: ARCHITECTURES_def ROLES_def lit_def)

lemma section_of_iff:
  "section_of (split_on 46 [] h) = Inr (Aliases arch) \<Longrightarrow> h = lit ''aliases.'' @ arch"
  "section_of (split_on 46 [] h) = Inr (Role role) \<Longrightarrow> \<exists>f. h = lit ''role.'' @ role @ lit ''.'' @ f"
  "section_of (split_on 46 [] h) = Inr (ArchitectureRole arch role) \<Longrightarrow>
     \<exists>f. h = lit ''arch.'' @ arch @ lit ''.'' @ role @ lit ''.'' @ f"
  using split_on_join [of 46 "[]" h, OF refl]
  by (auto simp: section_of_def lit_def split: list.splits if_splits)

lemma heading_sections:
  assumes "section_of (split_on 46 [] h) = Inr sec" "arch \<in> set ARCHITECTURES" "role \<in> set ROLES"
  shows "h = lit ''aliases.'' @ arch \<Longrightarrow> sec = Aliases arch"
    "h = lit ''role.'' @ role @ lit ''.'' @ f \<Longrightarrow> sec = Role role"
    "h = lit ''arch.'' @ arch @ lit ''.'' @ role @ lit ''.'' @ f \<Longrightarrow> sec = ArchitectureRole arch role"
proof -
  have dots: "46 \<notin> set arch" "46 \<notin> set role"
    using no_dots assms(2,3) by blast+
  show "h = lit ''aliases.'' @ arch \<Longrightarrow> sec = Aliases arch"
    using assms(1) dots by (auto simp: lit_def section_of_def split_on_plain split: if_splits)
  show "h = lit ''role.'' @ role @ lit ''.'' @ f \<Longrightarrow> sec = Role role"
    using assms(1) dots by (auto simp: lit_def section_of_def split_on_cut split: list.splits if_splits)
  show "h = lit ''arch.'' @ arch @ lit ''.'' @ role @ lit ''.'' @ f \<Longrightarrow> sec = ArchitectureRole arch role"
    using assms(1) dots by (auto simp: lit_def section_of_def split_on_cut split: list.splits if_splits)
qed

lemma stands_accepted:
  assumes "parse_lines ls (m, start) = Inr m'" "stands ls h k v"
  shows "\<exists>sec. section_of (split_on 46 [] h) = Inr sec"
  using assms
proof (induction ls arbitrary: m start)
  case Nil
  then show ?case
    by (simp add: stands_def)
next
  case (Cons l ls)
  obtain m1 sec1 where one: "parse_line l (m, start) = Inr (m1, sec1)" and rest: "parse_lines ls (m1, sec1) = Inr m'"
    using Cons.prems(1) by (auto split: sum.splits)
  from Cons.prems(2) show ?case
    unfolding stands_Cons
  proof
    assume h: "heading l h \<and> opened ls k v"
    from one show ?case
    proof (cases rule: parse_line_cases)
      case (heading h')
      then show ?thesis
        using h by (auto simp: heading_def)
    qed (use h in blast)+
  qed (use Cons.IH [OF rest] in blast)
qed

lemma belongs_text:
  assumes "parse_lines ls (m, NoSection) = Inr m'" "arch \<in> set ARCHITECTURES" "role \<in> set ROLES"
  shows "belongs ls NoSection (Aliases arch) k v \<longleftrightarrow> stands ls (lit ''aliases.'' @ arch) k v"
    "belongs ls NoSection (Role role) k v \<longleftrightarrow> (\<exists>f. stands ls (lit ''role.'' @ role @ lit ''.'' @ f) k v)"
    "belongs ls NoSection (ArchitectureRole arch role) k v \<longleftrightarrow>
       (\<exists>f. stands ls (lit ''arch.'' @ arch @ lit ''.'' @ role @ lit ''.'' @ f) k v)"
proof -
  have eq: "belongs ls NoSection sec k v \<longleftrightarrow> (\<exists>h. section_of (split_on 46 [] h) = Inr sec \<and> stands ls h k v)"
    if "sec \<noteq> NoSection" for sec
    using that by (simp add: belongs_def)
  note found = stands_accepted [OF assms(1)] and sections = heading_sections [OF _ assms(2,3)]
  show "belongs ls NoSection (Aliases arch) k v \<longleftrightarrow> stands ls (lit ''aliases.'' @ arch) k v"
    unfolding eq [OF section_kind.distinct(2)] using section_of_iff(1) found sections(1) by blast
  show "belongs ls NoSection (Role role) k v \<longleftrightarrow> (\<exists>f. stands ls (lit ''role.'' @ role @ lit ''.'' @ f) k v)"
    unfolding eq [OF section_kind.distinct(6)] using section_of_iff(2) found sections(2) by blast
  show "belongs ls NoSection (ArchitectureRole arch role) k v \<longleftrightarrow>
      (\<exists>f. stands ls (lit ''arch.'' @ arch @ lit ''.'' @ role @ lit ''.'' @ f) k v)"
    unfolding eq [OF section_kind.distinct(4)] using section_of_iff(3) found sections(3) by blast
qed

lemma fold_insort_set: "set (fold insort_insert ys xs) = set xs \<union> set ys"
  by (induction ys arbitrary: xs) (auto simp: set_insort_insert)

lemma manifest_holds:
  assumes "parse_manifest contents = Inr m"
  shows "parse_lines (text_lines contents) (manifest_default, NoSection) = Inr m"
    "holds (belongs (text_lines contents) NoSection) m"
proof -
  show p: "parse_lines (text_lines contents) (manifest_default, NoSection) = Inr m"
    using assms by (auto simp: parse_manifest_def split: sum.splits if_splits)
  have "holds (\<lambda>_ _ _. False) manifest_default"
    by (simp add: holds_def manifest_default_def keys_at_def alias_at_def Let_def)
  from parse_lines_hold [OF p this] show "holds (belongs (text_lines contents) NoSection) m"
    by simp
qed

lemma role_syscalls_declared:
  assumes "parse_manifest contents = Inr m" "arch \<in> set ARCHITECTURES" "role \<in> set ROLES"
  shows "set (role_syscalls m arch role) = declared_syscalls contents arch role"
proof -
  note h = manifest_holds(2) [OF assms(1)] and form = belongs_text [OF manifest_holds(1) [OF assms(1)] assms(2,3)]
  have "role_syscalls m arch role = fold insort_insert (keys_at (architecture_roles m) (arch, role)) (keys_at (roles m) role)"
    by (simp add: role_syscalls_def keys_at_def)
  then have "set (role_syscalls m arch role) = {k. (\<exists>v. belongs (text_lines contents) NoSection (Role role) k v) \<or>
      (\<exists>v. belongs (text_lines contents) NoSection (ArchitectureRole arch role) k v)}"
    using h by (auto simp: fold_insort_set holds_def Let_def)
  then show ?thesis
    unfolding form declared_syscalls_def by auto
qed

lemma resolved_declared:
  assumes "parse_manifest contents = Inr m" "arch \<in> set ARCHITECTURES"
  shows "declared_name contents arch k name \<longleftrightarrow> name = resolved m arch k"
proof -
  have "lit ''supervisor'' \<in> set ROLES"
    by (simp add: ROLES_def)
  note form = belongs_text(1) [OF manifest_holds(1) [OF assms(1)] assms(2) this, symmetric]
  have "belongs (text_lines contents) NoSection (Aliases arch) k v \<longleftrightarrow> alias_at m arch k = Some v" for v
    using manifest_holds(2) [OF assms(1)] by (simp add: holds_def)
  then show ?thesis
    unfolding declared_name_def form by (cases "alias_at m arch k") (auto simp: resolved_def alias_at_def)
qed

lemma target_name_known: "target_name arch \<in> set ARCHITECTURES"
  by (cases arch) (simp_all add: ARCHITECTURES_def)

section \<open>Properties\<close>

text \<open>
  C17. A seccomp profile allows what the manifest declares, from the text of \<open>syscalls.toml\<close> to the filter that the kernel runs. If the build
  script accepts the text, the filter built for a target architecture from the list it generates for a role allows a
  call made on that architecture exactly if its number is that of a declared name: a key that stands in
  the text under a heading \<open>[role.R.feature]\<close> of the role or \<open>[arch.A.R.feature]\<close> of the role on this architecture, or the name
  that stands for this key under \<open>[aliases.A]\<close>, if there is one. \<open>SYS\<close> gives the numbers of the C library.
\<close>

theorem filter_allows_declared:
  assumes "parse_manifest contents = Inr m" "role \<in> set ROLES"
    and "build_filter arch (profile_numbers SYS m (target_name arch) role) otherwise = Inr program" "otherwise \<noteq> RET_ALLOW"
  shows "bpf_run program data 0 = Some RET_ALLOW \<longleftrightarrow>
    data SECCOMP_DATA_ARCH_OFFSET = AUDIT_ARCH arch \<and>
    (\<exists>k \<in> declared_syscalls contents (target_name arch) role. \<exists>name.
       declared_name contents (target_name arch) k name \<and> uint (data SECCOMP_DATA_NR_OFFSET) = SYS name)"
proof -
  let ?a = "target_name arch"
  have "set (profile_numbers SYS m ?a role) = {n. \<exists>k \<in> declared_syscalls contents ?a role. \<exists>name.
      declared_name contents ?a k name \<and> n = SYS name}"
    using role_syscalls_declared [OF assms(1) target_name_known assms(2), of arch]
      resolved_declared [OF assms(1) target_name_known, of arch] by (auto simp: profile_numbers_def)
  then show ?thesis
    using build_filter_run [OF assms(3), of data 0] assms(4)
    by (auto simp: seccomp_policy_def RET_ALLOW_def RET_KILL_PROCESS_def)
qed

definition entry_text :: "bytes \<Rightarrow> bytes \<Rightarrow> bytes" where
  "entry_text key v = key @ lit '' = '' @ [34] @ v @ [34]"

definition sample_manifest :: bytes where
  "sample_manifest = concat (map (\<lambda>l. l @ [10])
     [lit ''[aliases.x86_64]'', entry_text (lit ''stat'') (lit ''newfstatat''), lit ''[aliases.aarch64]'', entry_text (lit ''stat'') (lit ''fstatat''),
      lit ''[role.data_plane.io]'', entry_text (lit ''stat'') (lit ''lookup''), lit ''[role.namespace_init.io]'', entry_text (lit ''read'') (lit ''input''),
      lit ''[role.supervisor.io]'', entry_text (lit ''read'') (lit ''input''),
      lit ''[arch.x86_64.data_plane.runtime]'', entry_text (lit ''arch_prctl'') (lit ''threads'')])"

lemma sample_manifest_parsed:
  "parse_manifest sample_manifest = Inr
     \<lparr>aliases = [(lit ''x86_64'', [(lit ''stat'', lit ''newfstatat'')]), (lit ''aarch64'', [(lit ''stat'', lit ''fstatat'')])],
      architecture_roles = [((lit ''x86_64'', lit ''data_plane''), [lit ''arch_prctl''])],
      roles = [(lit ''data_plane'', [lit ''stat'']), (lit ''namespace_init'', [lit ''read'']), (lit ''supervisor'', [lit ''read''])]\<rparr>"
  by code_simp

definition sample_number :: "bytes \<Rightarrow> int" where
  "sample_number name = (if name = lit ''newfstatat'' then 262 else if name = lit ''fstatat'' then 79
     else if name = lit ''arch_prctl'' then 158 else 4)"

definition sample_call :: "target_arch \<Rightarrow> int \<Rightarrow> u32 \<Rightarrow> u32" where
  "sample_call arch n off = (if off = SECCOMP_DATA_ARCH_OFFSET then AUDIT_ARCH arch else word_of_int n)"

lemma sample_allowed:
  assumes "parse_manifest sample_manifest = Inr m"
  shows "(\<exists>k \<in> declared_syscalls sample_manifest (target_name arch) (lit ''data_plane''). \<exists>name.
      declared_name sample_manifest (target_name arch) k name \<and> n = sample_number name) \<longleftrightarrow>
    n \<in> (case arch of X86_64 \<Rightarrow> {158, 262} | Aarch64 \<Rightarrow> {79})"
proof -
  have "lit ''data_plane'' \<in> set ROLES"
    by (simp add: ROLES_def)
  note declared = role_syscalls_declared [OF assms target_name_known this, symmetric]
    and name = resolved_declared [OF assms target_name_known]
  have "(\<lambda>k. sample_number (resolved m (target_name arch) k)) ` set (role_syscalls m (target_name arch) (lit ''data_plane'')) =
      (case arch of X86_64 \<Rightarrow> {158, 262} | Aarch64 \<Rightarrow> {79})"
    using assms unfolding sample_manifest_parsed
    by (cases arch) (auto simp: resolved_def role_syscalls_def sample_number_def lit_def insort_insert_key_def)
  then show ?thesis
    unfolding declared name by auto
qed

text \<open>
  A call is allowed under the number of its alias on the architecture, not under others, and a call of the other architecture is not.
\<close>

theorem filter_allows_declared_witness:
  "\<exists>m px pa. parse_manifest sample_manifest = Inr m \<and>
     build_filter X86_64 (profile_numbers sample_number m (lit ''x86_64'') (lit ''data_plane'')) RET_KILL_PROCESS = Inr px \<and>
     build_filter Aarch64 (profile_numbers sample_number m (lit ''aarch64'') (lit ''data_plane'')) RET_KILL_PROCESS = Inr pa \<and>
     bpf_run px (sample_call X86_64 262) 0 = Some RET_ALLOW \<and> bpf_run px (sample_call X86_64 158) 0 = Some RET_ALLOW \<and>
     bpf_run px (sample_call X86_64 79) 0 \<noteq> Some RET_ALLOW \<and> bpf_run px (sample_call X86_64 4) 0 \<noteq> Some RET_ALLOW \<and>
     bpf_run pa (sample_call Aarch64 79) 0 = Some RET_ALLOW \<and> bpf_run pa (sample_call Aarch64 158) 0 \<noteq> Some RET_ALLOW"
proof -
  obtain m where m: "parse_manifest sample_manifest = Inr m"
    using sample_manifest_parsed by simp
  have role: "lit ''data_plane'' \<in> set ROLES" and act: "RET_KILL_PROCESS \<noteq> RET_ALLOW"
    by (simp_all add: ROLES_def RET_KILL_PROCESS_def RET_ALLOW_def)
  have "\<exists>p. build_filter arch (profile_numbers sample_number m (target_name arch) (lit ''data_plane'')) RET_KILL_PROCESS = Inr p" for arch
    using m unfolding sample_manifest_parsed
    by (cases arch) (auto simp: profile_numbers_def resolved_def role_syscalls_def sample_number_def lit_def
        insort_insert_key_def build_filter_def u32_try_from_def)
  from this [of X86_64] this [of Aarch64] obtain px pa where
    px: "build_filter X86_64 (profile_numbers sample_number m (target_name X86_64) (lit ''data_plane'')) RET_KILL_PROCESS = Inr px"
    and pa: "build_filter Aarch64 (profile_numbers sample_number m (target_name Aarch64) (lit ''data_plane'')) RET_KILL_PROCESS = Inr pa"
    by blast
  note allowed = filter_allows_declared [where SYS = sample_number, OF m role _ act, unfolded sample_allowed [OF m]]
  show ?thesis
    using m px pa allowed [OF px, of "sample_call X86_64 262"] allowed [OF px, of "sample_call X86_64 158"]
      allowed [OF px, of "sample_call X86_64 79"] allowed [OF px, of "sample_call X86_64 4"]
      allowed [OF pa, of "sample_call Aarch64 79"] allowed [OF pa, of "sample_call Aarch64 158"]
    by (simp add: sample_call_def SECCOMP_DATA_ARCH_OFFSET_def SECCOMP_DATA_NR_OFFSET_def)
qed

end
