(* ===== verification/Spec2Isabelle.thy ===== *)
theory Spec2Isabelle
  imports Reactor_Worker Control_Message Icmp Neighbor Tcp_Segment Vnet Flow_Run Timer_Wheel Udp_Engine Buffer_Pool Dns_Engine Socks5_Udp Launch_Config
    Reactor_Queues Reactor_Frames Supervisor_Service Sys_Socket Cli Seccomp_Profile
begin

text \<open>
  \<^bold>\<open>The program.\<close> \<open>yayatht\<close> runs a command inside a network namespace whose only interface is a TAP
  device and carries its traffic, without privileges, over ordinary sockets of the host, either
  directly or through an HTTP or SOCKS5 proxy. The command line (\<open>crates/cli\<close>) makes a launch
  configuration, and the supervisor (\<open>crates/namespace\<close>) validates it, creates the instance directory with
  its control socket, starts one confined data-plane worker per TAP queue and the init process of the
  namespace, which configures the network and runs the command, and supervises them through a control
  channel until the command ends; the system calls are wrapped by \<open>crates/sys\<close>. A worker (\<open>crates/dataplane\<close>, the
  \<open>Reactor\<close>) reads Ethernet frames from the TAP device, parses them (\<open>crates/packet\<close>), answers ARP and
  neighbour solicitations itself, terminates each TCP connection of the namespace in a flow
  (\<open>crates/tcp-adapter\<close>) that is spliced to one upstream socket (after a handshake of
  \<open>crates/proxy-proto\<close> where a proxy is configured), forwards UDP through the UDP engine and DNS
  queries through the DNS engine, and writes the resulting frames back. Every long-lived object is
  named by an epoll token made of a kind, a slot of the flow table and a generation.

  \<^bold>\<open>Conventions.\<close> Rust's integers are words of their width, \<open>+\<close> and \<open>-\<close> wrap, and a checked or
  saturating operation is written out (\<open>Prelude\<close>). \<open>usize\<close> is 64 bits. A byte slice is a \<open>u8 list\<close>. A
  \<open>Result\<close> is a sum with the error on the left, an \<open>Option\<close> an option, and an operation that can panic
  returns an option whose \<open>None\<close> is the panic. A \<open>&mut self\<close> method takes the old state and returns the
  new one. An \<open>Instant\<close> is a number of nanoseconds. A \<open>HashMap\<close> is an association list whose order
  stands for the unspecified iteration order (\<open>Hash_Map\<close>). Fields in native byte order take the byte
  order of the target as the flag \<open>big\<close>. The processes around the worker are programs of system calls
  (\<open>Sys_Call\<close>): a program acts on the list of the calls made so far, and the kernel is an arbitrary
  function that answers each call from that list, so a theorem about every kernel covers every failure
  and every order of events that one process can see. What a call does inside the kernel is
  stated only where a theorem needs it, as a hypothesis on the answers or as an effect on a view of the
  file system.

  \<^bold>\<open>Theories and sources.\<close>
  \<^item> \<open>Prelude\<close>: integer types, slice reads and in-place slice writes (\<open>on_slice\<close>), field codecs. The
    locale \<open>field_codec\<close> gives the read-after-write laws of a field and is interpreted for the 16 and 32
    bit big-endian codecs and the native 16 bit one.
  \<^item> \<open>Checksum\<close> (\<open>packet/src/checksum.rs\<close>): the locale \<open>internet_checksum\<close> states once that storing
    the computed checksum makes the verification sum vanish; it is interpreted for the plain sum and for
    the IPv4 and IPv6 pseudo headers, and the header writers use its facts.
  \<^item> \<open>Ethernet\<close>, \<open>Ip\<close>, \<open>Tcp_Segment\<close>, \<open>Udp_Datagram\<close>, \<open>Neighbor\<close>, \<open>Icmp\<close>, \<open>Vnet\<close> (the files of the same names
    in \<open>packet/src\<close>): parsers, accessors and writers. The lemmas show that the parser recovers what the writer
    was given, what a parser accepts, and that an ICMP error sent into the namespace carries a valid
    checksum.
  \<^item> \<open>Sequence\<close>, \<open>Flow\<close>, \<open>Flow_Run\<close>, \<open>Timer_Wheel\<close> (\<open>tcp-adapter/src/sequence.rs\<close>, \<open>flow.rs\<close>, \<open>timer.rs\<close>):
    serial number order (locale \<open>serial_order\<close>), the flow record with all its operations, runs of these
    operations as an inductive step relation with invariants by rule induction (acknowledgments follow
    the upstream kernel, sends respect the window, the receive edge does not retreat, closing order), and
    the hashed timer wheel.
  \<^item> \<open>Flow_Table\<close>, \<open>Hash_Map\<close>, \<open>Buffer_Pool\<close>, \<open>Udp_Engine\<close>, \<open>Dns_Engine\<close> (\<open>dataplane/src/flow_table.rs\<close>, \<open>std\<close>,
    \<open>buffer.rs\<close>, \<open>udp.rs\<close>, \<open>dns.rs\<close>): the generational table refines a partial map whose removed
    identifiers never return (locale \<open>id_table\<close>, interpretation \<open>ft\<close>); the engines keep their indices
    consistent (locale \<open>dictionary\<close>, interpretation \<open>hm\<close>); DNS identifiers are rewritten and restored.
  \<^item> \<open>Proxy_Handshake\<close>, \<open>Socks5_Udp\<close> (\<open>proxy-proto/src/lib.rs\<close>, \<open>socks5_udp.rs\<close>): the handshake as a state
    machine fed with chunks; the locale \<open>incremental\<close> states that the outcome does not depend on the
    chunking. The datagram header codec with a reference grammar.
  \<^item> \<open>Reactor_Config\<close>, \<open>Reactor_Queues\<close>, \<open>Reactor_Frames\<close> (\<open>dataplane/src/reactor.rs\<close>): buffer sizes and
    routing; the bounded payload queue (locale \<open>byte_fifo\<close>, interpretation \<open>pq\<close>), the retransmission queue,
    probes and memory pressure; the way of a frame from the TAP device to its handler and from a flow to the
    TAP device (locale \<open>ip_family\<close>, interpretations \<open>v4\<close> and \<open>v6\<close>).
  \<^item> \<open>Reactor_Core\<close>, \<open>Reactor_Tcp\<close> (\<open>dataplane/src/reactor.rs\<close>): the worker's state as a record and the TCP
    handlers as programs of a state monad with panics and errors; the system calls consult a script of kernel
    answers carried in the state, so every interleaving of answers is some initial state.
  \<^item> \<open>Reactor_Reply\<close>, \<open>Reactor_Dns\<close>, \<open>Reactor_Socks\<close>, \<open>Reactor_Udp\<close>, \<open>Reactor_Loop\<close> (\<open>dataplane/src/reactor.rs\<close>): the
    handlers for DNS queries and the resolver connection, SOCKS5 associations and direct UDP flows, and the
    event loop with its timers, its control channel and its shutdown.
  \<^item> \<open>Reactor_Invariant\<close>, \<open>Reactor_Handlers\<close>, \<open>Reactor_Order\<close>, \<open>Reactor_Worker\<close>: the invariant of that state; a
    weakest-precondition calculus for the monad and one rule per handler that it keeps the invariant; order
    and exactness of the bytes written to the TAP device and to the upstream socket; runs of a worker as an
    inductive step relation over packets, socket events and timers, with the bounds of its buffers and the
    consistency of its associations in every reachable state.
  \<^item> \<open>Control_Message\<close> (\<open>sys/src/control.rs\<close>): the codec of the control channel.
  \<^item> \<open>Launch_Config\<close> (\<open>namespace/src/config.rs\<close>): validation and the split of the budgets among the workers.
  \<^item> \<open>Sys_Call\<close>: the calls, the programs made of them, their loops and the rules that follow which calls a
    program makes. \<open>Sys_Process\<close> (\<open>process.rs\<close>, \<open>signal.rs\<close>, \<open>clone.rs\<close>, \<open>resource.rs\<close>, \<open>caps.rs\<close>, \<open>mount.rs\<close>,
    \<open>fdpass.rs\<close>, \<open>tun.rs\<close> of \<open>crates/sys\<close>) and \<open>Sys_Socket\<close> (\<open>socket.rs\<close>, \<open>tcp_info.rs\<close>, \<open>reactor.rs\<close>): every
    wrapper; socket addresses as bytes and back, and the loop that drains the timestamps.
  \<^item> \<open>Netlink\<close> (\<open>sys/src/netlink.rs\<close>): the requests as bytes, the loop that waits for acknowledgments, and that
    configuring the namespace sends exactly the requests asked for, to the interfaces the kernel named.
  \<^item> \<open>Seccomp\<close>, \<open>Seccomp_Profile\<close> (\<open>sys/src/seccomp.rs\<close>, \<open>sys/build.rs\<close>): the filter as a BPF program with an
    interpreter, and the build script that makes its lists from \<open>syscalls.toml\<close>; the filter allows exactly
    the calls that the text declares for the role and the architecture.
  \<^item> \<open>Instance\<close>, \<open>Control_Channel\<close>, \<open>Supervisor\<close> (\<open>namespace/src/instance.rs\<close>, \<open>control.rs\<close>, \<open>supervisor.rs\<close>): the
    instance directory, messages with descriptors, and the three processes. \<open>Supervisor_Safety\<close>: children
    are killed and waited for. \<open>Supervisor_Service\<close>: the status of the command reaches the caller, the data
    plane runs confined, metrics are summed, and what a client of the control socket can do.
  \<^item> \<open>Std_Text\<close>, \<open>Cli\<close> (\<open>std\<close>, \<open>cli/src/main.rs\<close>): text and address parsing of the standard library; from the
    parsed arguments to the launch configuration, credential files and the commands.

  \<^bold>\<open>Loops, bounds and fuel.\<close> Loops over a slice recurse on it. \<open>allocate_id\<close> of the DNS engine and
  \<open>expire_loop\<close> of the timer wheel may not end in the source and are partial functions; that they return is
  proved under what the callers ensure (fewer transactions than identifiers; a finite distance between
  the cursor and the current tick). The name and option scans of the DNS engine carry the limits 128 and
  32 of the source, not a bound of the model. The timer's tick count saturates as in the source. The loop
  of \<open>flush_output\<close> takes fuel; one step more than there are frames in the queue is enough and is what the
  definition passes. The loops of the other processes end when the kernel says so: they are instances of
  the partial function \<open>looping\<close>, where not returning is \<open>None\<close>, and that they return is stated where it is
  claimed.

  \<^bold>\<open>Parameters.\<close> Base64 and the argument parser (external crates), the JSON library, the properties of the
  build (target, debug assertions, numbers and layouts of the C library), the kernel's answers, the
  clock and random initial sequence numbers are arguments of the definitions. The supervisor's programs take the
  event loop of a worker, modelled in \<open>Reactor_Loop\<close> over its own script of kernel answers, as an argument too.

  \<^bold>\<open>What the modelling showed.\<close> Some theorems state behaviour of the code that departs from what it
  intends. In \<open>Flow_Run\<close>: acknowledged bytes are not counted once more than 2^31 bytes have been sent on a
  flow; a FIN with payload acknowledges payload nobody has taken; an acknowledgment 2^31 away from an idle flow's
  position is accepted, and from then on the flow's in-flight count is wrong (\<open>misjudged\<close>). In
  \<open>Timer_Wheel\<close>: a timer that is due later in the current tick waits a whole turn of the wheel. In
  \<open>Reactor_Order\<close>: payload submitted while earlier payload is queued reaches the upstream socket before it. In
  \<open>Dns_Engine\<close>: a truncated reply may exceed the limit it is truncated for. In \<open>Supervisor_Service\<close>: a client of the
  control socket that sends nothing, or no message, ends the instance. In \<open>Cli\<close>: a credential file may
  be longer than what is used of it.

  \<^bold>\<open>Not modelled.\<close> The helpers of the integration tests and the tests; log output; of the worker's metrics
  all but the pool exhaustion counters; the closing of descriptors and the erasure of freed memory, which Rust does in
  destructors; reading and writing the files of the build script.
\<close>

end
